(* ===== verification/Prelude.thy ===== *)
theory Prelude
  imports Main "HOL-Library.Word" "HOL-Library.Multiset"
begin

text \<open>
  Shared vocabulary of the development: the C types of the daemon as Isabelle types, the
  named theorem collections, the C string routines the features call (\<open>strrchr\<close>,
  \<open>strncmp\<close>), the array idioms the features share (grow by doubling, swap-remove) and the
  list facts the component proofs rest on.

  Conventions. A C string is a \<open>string\<close> (the bytes before the terminator), a pointer that
  may be NULL is an \<open>option\<close>, an unsigned integer is a \<open>word\<close> of its width, an \<open>int\<close>
  that counts or indexes is an \<open>int\<close> or \<open>nat\<close> where its range is known. An allocation that
  may fail is a Boolean argument of the operation that makes it (\<open>True\<close>: it succeeded), so
  every out-of-memory branch of the source is a branch of the model. A critical section
  between \<open>Semaphore_wait\<close> and \<open>Semaphore_post\<close> is one atomic operation.
\<close>

named_theorems ring_simps \<open>defining equations of the ring buffers\<close>
named_theorems reg_simps \<open>defining equations of the registries\<close>
named_theorems dedup_simps \<open>defining equations of the duplicate suppression\<close>
named_theorems goose_simps \<open>defining equations of the GOOSE value-diff filter\<close>

section \<open>C types\<close>

type_synonym u8 = "8 word"
type_synonym u16 = "16 word"
type_synonym u32 = "32 word"
type_synonym u64 = "64 word"

lemma unat_u64_less: "unat (w :: u64) < 2 ^ 64"
  using unsigned_less [of w, where ?'a = nat] by simp

lemma unat_of_nat_u64: "n < 2 ^ 64 \<Longrightarrow> unat (of_nat n :: u64) = n"
  by (simp add: unat_of_nat)

section \<open>C strings\<close>

text \<open>\<open>strrchr\<close>: the offset of the last occurrence of a character, \<open>None\<close> for NULL.\<close>

fun strrchr :: "string \<Rightarrow> char \<Rightarrow> nat option" where
  "strrchr [] c = None"
| "strrchr (x # xs) c =
     (case strrchr xs c of
        Some i \<Rightarrow> Some (Suc i)
      | None \<Rightarrow> if x = c then Some 0 else None)"

text \<open>\<open>strncmp (a, b, n) == 0\<close>: equal up to the first \<open>n\<close> bytes or to the common end.\<close>

definition strneq :: "string \<Rightarrow> string \<Rightarrow> nat \<Rightarrow> bool" where
  "strneq a b n \<longleftrightarrow> take n a = take n b"

lemma strrchr_None_iff [simp]: "strrchr s c = None \<longleftrightarrow> c \<notin> set s"
  by (induction s c rule: strrchr.induct) (auto split: option.splits)

lemma strrchr_SomeD:
  "strrchr s c = Some i \<Longrightarrow> i < length s \<and> s ! i = c \<and> c \<notin> set (drop (Suc i) s)"
proof (induction s c arbitrary: i rule: strrchr.induct)
  case (1 c)
  then show ?case by simp
next
  case (2 x xs c)
  show ?case
  proof (cases "strrchr xs c")
    case None
    with 2 show ?thesis by (auto split: if_splits)
  next
    case (Some j)
    with 2 show ?thesis by auto
  qed
qed

lemma strrchr_append_dollar:
  "c \<notin> set da \<Longrightarrow> strrchr (p @ c # da) c = Some (length p)"
proof (induction p)
  case Nil
  then have "strrchr da c = None" by simp
  then show ?case by (simp only: append_Nil strrchr.simps option.case) simp
next
  case (Cons x p)
  then show ?case by simp
qed

lemma strrchr_Some_iff:
  "strrchr s c = Some i \<longleftrightarrow> (\<exists>p da. s = p @ c # da \<and> c \<notin> set da \<and> i = length p)"
proof
  assume "strrchr s c = Some i"
  then have i: "i < length s" "s ! i = c" "c \<notin> set (drop (Suc i) s)"
    by (auto dest: strrchr_SomeD)
  then have "s = take i s @ c # drop (Suc i) s"
    by (metis id_take_nth_drop)
  with i show "\<exists>p da. s = p @ c # da \<and> c \<notin> set da \<and> i = length p"
    by (intro exI [of _ "take i s"] exI [of _ "drop (Suc i) s"]) simp
qed (auto simp: strrchr_append_dollar)

section \<open>Array idioms\<close>

lemma takeWhile_shorter: "\<exists>x \<in> set xs. \<not> p x \<Longrightarrow> length (takeWhile p xs) < length xs"
  by (induction xs) auto

lemma set_butlast_last: "xs \<noteq> [] \<Longrightarrow> set xs = insert (last xs) (set (butlast xs))"
  by (induction xs) auto

lemma last_notin_butlast: "distinct xs \<Longrightarrow> xs \<noteq> [] \<Longrightarrow> last xs \<notin> set (butlast xs)"
  by (induction xs) (auto dest: in_set_butlastD)

text \<open>
  \<open>entries[index] = entries[count - 1]; count--\<close>: the removal both registries use.
\<close>

definition swap_remove :: "'a list \<Rightarrow> nat \<Rightarrow> 'a list" where
  "swap_remove xs i = take (length xs - 1) (xs[i := last xs])"

text \<open>\<open>for (i ...) if (p(entries[i])) return i; return -1\<close>, with \<open>None\<close> for \<open>-1\<close>.\<close>

fun find_index :: "('a \<Rightarrow> bool) \<Rightarrow> 'a list \<Rightarrow> nat option" where
  "find_index p [] = None"
| "find_index p (x # xs) = (if p x then Some 0 else map_option Suc (find_index p xs))"

text \<open>Capacity after one \<open>realloc\<close> step of the growing arrays of the registries.\<close>

definition grown_capacity :: "nat \<Rightarrow> nat" where
  "grown_capacity cap = (if cap > 0 then cap * 2 else 8)"

lemma find_index_None_iff [simp]: "find_index p xs = None \<longleftrightarrow> (\<forall>x \<in> set xs. \<not> p x)"
  by (induction xs) auto

lemma find_index_SomeD:
  "find_index p xs = Some i \<Longrightarrow> i < length xs \<and> p (xs ! i) \<and> (\<forall>j < i. \<not> p (xs ! j))"
proof (induction xs arbitrary: i)
  case Nil
  then show ?case by simp
next
  case (Cons x xs)
  show ?case
  proof (cases "p x")
    case True
    with Cons.prems show ?thesis by simp
  next
    case False
    with Cons.prems obtain j where j: "find_index p xs = Some j" "i = Suc j"
      by auto
    from Cons.IH [OF j(1)] False j(2) show ?thesis
      by (auto simp: less_Suc_eq_0_disj)
  qed
qed

lemma find_index_map: "find_index p (map f xs) = find_index (\<lambda>x. p (f x)) xs"
  by (induction xs) auto

lemma find_index_append_hit:
  "find_index p xs = None \<Longrightarrow> p y \<Longrightarrow> find_index p (xs @ [y]) = Some (length xs)"
  by (induction xs) auto

lemma find_index_Some_ex: "x \<in> set xs \<Longrightarrow> p x \<Longrightarrow> \<exists>i. find_index p xs = Some i"
  by (metis find_index_None_iff option.exhaust)

lemma length_swap_remove [simp]: "length (swap_remove xs i) = length xs - 1"
  by (simp add: swap_remove_def)

lemma mset_swap_remove:
  assumes "i < length xs"
  shows "mset xs = add_mset (xs ! i) (mset (swap_remove xs i))"
proof -
  from assms have "xs \<noteq> []" by auto
  then obtain ys z where xs: "xs = ys @ [z]"
    by (metis append_butlast_last_id)
  show ?thesis
  proof (cases "i = length ys")
    case True
    with xs show ?thesis by (simp add: swap_remove_def)
  next
    case False
    with assms xs have i: "i < length ys" by auto
    with xs have sr: "swap_remove xs i = ys[i := z]" and nth: "xs ! i = ys ! i"
      by (simp_all add: swap_remove_def list_update_append nth_append)
    have "mset (ys[i := z]) = add_mset z (mset ys - {#ys ! i#})"
      using i by (simp add: mset_update)
    moreover have "ys ! i \<in># mset ys" using i by simp
    ultimately show ?thesis using xs sr nth by simp
  qed
qed

lemma set_swap_remove_subset: "i < length xs \<Longrightarrow> set (swap_remove xs i) \<subseteq> set xs"
  by (metis mset_swap_remove set_mset_add_mset_insert set_mset_mset subset_insertI)

lemma map_swap_remove:
  "i < length xs \<Longrightarrow> map f (swap_remove xs i) = swap_remove (map f xs) i"
  by (cases "xs = []") (auto simp: swap_remove_def take_map [symmetric] map_update last_map)

lemma swap_remove_distinct:
  assumes "i < length xs" and "distinct xs"
  shows "distinct (swap_remove xs i)" and "set (swap_remove xs i) = set xs - {xs ! i}"
proof -
  have eq: "mset xs = add_mset (xs ! i) (mset (swap_remove xs i))"
    using assms(1) by (rule mset_swap_remove)
  then have "mset xs = mset (xs ! i # swap_remove xs i)" by simp
  then have d: "distinct (xs ! i # swap_remove xs i)"
    and st: "set xs = insert (xs ! i) (set (swap_remove xs i))"
    using assms(2) by (metis mset_eq_imp_distinct_iff, metis list.simps(15) mset_eq_setD)
  from d show "distinct (swap_remove xs i)" by simp
  from d st show "set (swap_remove xs i) = set xs - {xs ! i}" by auto
qed

end
