(* ===== verification/Ln_Category.thy ===== *)
theory Ln_Category
  imports Prelude
begin

text \<open>
  \<open>ied_model/utils/ied_model_ln_category.c\<close>: the category of a logical node from the first
  letter of its class, read from the SCL class name or recovered from an instance name on
  the wire (prefix, class and instance number without separators). Characters are bytes in
  the C locale.
\<close>

section \<open>Data\<close>

datatype LnCategory =
    IED_MODEL_LN_CATEGORY_CONTROL
  | IED_MODEL_LN_CATEGORY_MEASUREMENT
  | IED_MODEL_LN_CATEGORY_PROTECTION
  | IED_MODEL_LN_CATEGORY_OTHER

text \<open>The single bit of a category, for tests against a mask.\<close>

fun ln_category_bit :: "LnCategory \<Rightarrow> u8" where
  "ln_category_bit IED_MODEL_LN_CATEGORY_CONTROL = 1"
| "ln_category_bit IED_MODEL_LN_CATEGORY_MEASUREMENT = 2"
| "ln_category_bit IED_MODEL_LN_CATEGORY_PROTECTION = 4"
| "ln_category_bit IED_MODEL_LN_CATEGORY_OTHER = 8"

definition IED_MODEL_LN_CATEGORY_ALL :: u8 where
  "IED_MODEL_LN_CATEGORY_ALL = 15"

definition kGroupLetterTable :: "(char \<times> LnCategory) list" where
  "kGroupLetterTable =
     [(CHR ''C'', IED_MODEL_LN_CATEGORY_CONTROL), (CHR ''X'', IED_MODEL_LN_CATEGORY_CONTROL),
      (CHR ''A'', IED_MODEL_LN_CATEGORY_CONTROL), (CHR ''M'', IED_MODEL_LN_CATEGORY_MEASUREMENT),
      (CHR ''T'', IED_MODEL_LN_CATEGORY_MEASUREMENT), (CHR ''Q'', IED_MODEL_LN_CATEGORY_MEASUREMENT),
      (CHR ''P'', IED_MODEL_LN_CATEGORY_PROTECTION), (CHR ''R'', IED_MODEL_LN_CATEGORY_PROTECTION),
      (CHR ''F'', IED_MODEL_LN_CATEGORY_OTHER), (CHR ''G'', IED_MODEL_LN_CATEGORY_OTHER),
      (CHR ''K'', IED_MODEL_LN_CATEGORY_OTHER), (CHR ''I'', IED_MODEL_LN_CATEGORY_OTHER),
      (CHR ''L'', IED_MODEL_LN_CATEGORY_OTHER), (CHR ''S'', IED_MODEL_LN_CATEGORY_OTHER),
      (CHR ''Y'', IED_MODEL_LN_CATEGORY_OTHER), (CHR ''Z'', IED_MODEL_LN_CATEGORY_OTHER)]"

definition kStandardLnClassNames :: "string list" where
  "kStandardLnClassNames =
     [''ANCR'', ''ARCO'', ''ATCC'', ''AVCO'',
      ''CALH'', ''CCGR'', ''CILO'', ''CPOW'', ''CSWI'', ''CSYN'',
      ''GAPC'', ''GGIO'', ''GSAL'',
      ''IARC'', ''IHMI'',
      ''LLN0'', ''LPHD'', ''LCCH'', ''LGOS'', ''LPLD'', ''LSVS'', ''LTIM'', ''LTMS'',
      ''MDIF'', ''MHAI'', ''MHAN'', ''MMTN'', ''MMTR'', ''MMXN'', ''MMXU'', ''MSQI'', ''MSTA'',
      ''PDIF'', ''PDIR'', ''PDIS'', ''PDOP'', ''PFRC'', ''PHAR'', ''PHIZ'', ''PIOC'', ''PMRI'',
      ''PMSS'', ''POPF'', ''PPAM'', ''PPIO'', ''PRVC'', ''PSCH'', ''PSDE'', ''PTEF'', ''PTOC'',
      ''PTOF'', ''PTOV'', ''PTRC'', ''PTTR'', ''PTUC'', ''PTUV'', ''PUPF'', ''PVOC'', ''PVPH'', ''PZSU'',
      ''RADR'', ''RBDR'', ''RBRF'', ''RDIR'', ''RDRE'', ''RDRS'', ''RFLO'', ''RPSB'', ''RREC'', ''RSYN'',
      ''SARC'', ''SIMG'', ''SIML'', ''SPDC'',
      ''TCTR'', ''TVTR'',
      ''XCBR'', ''XSWI'',
      ''YEFN'', ''YLTC'', ''YPSH'', ''YPTR'',
      ''ZAXN'', ''ZBAT'', ''ZBSH'', ''ZCAB'', ''ZCAP'', ''ZCON'', ''ZGEN'', ''ZGIL'', ''ZLIN'',
      ''ZMOT'', ''ZREA'', ''ZRES'', ''ZRRC'', ''ZSAR'', ''ZTCF'', ''ZTCR'']"

text \<open>The access levels of a loaded model.\<close>

datatype AccessMode =
    IED_MODEL_ACCESS_REPORT_ONLY
  | IED_MODEL_ACCESS_READ_ONLY
  | IED_MODEL_ACCESS_READ_AND_WRITE

section \<open>Operations\<close>

definition toupper :: "char \<Rightarrow> char" where
  "toupper c = (if (97 :: nat) \<le> of_char c \<and> of_char c \<le> (122 :: nat) then char_of (of_char c - (32 :: nat)) else c)"

definition isdigit :: "char \<Rightarrow> bool" where
  "isdigit c \<longleftrightarrow> (48 :: nat) \<le> of_char c \<and> of_char c \<le> (57 :: nat)"

definition IedModelLnCategory_forGroupLetter :: "char \<Rightarrow> LnCategory" where
  "IedModelLnCategory_forGroupLetter groupLetter =
     (case map_of kGroupLetterTable (toupper groupLetter) of
        Some category \<Rightarrow> category
      | None \<Rightarrow> IED_MODEL_LN_CATEGORY_OTHER)"

definition IedModelLnCategory_forLnClass :: "string option \<Rightarrow> LnCategory" where
  "IedModelLnCategory_forLnClass lnClass =
     (case lnClass of
        None \<Rightarrow> IED_MODEL_LN_CATEGORY_OTHER
      | Some [] \<Rightarrow> IED_MODEL_LN_CATEGORY_OTHER
      | Some (c # _) \<Rightarrow> IedModelLnCategory_forGroupLetter c)"

text \<open>\<open>str\<close> is the prefix of length \<open>strLen\<close>.\<close>

definition endsWith :: "string \<Rightarrow> string \<Rightarrow> bool" where
  "endsWith str suffix =
     (if length suffix > length str then False
      else strneq (drop (length str - length suffix) str) suffix (length suffix))"

text \<open>The loop that strips the trailing digits, from length \<open>n\<close> down.\<close>

fun stripDigits :: "string \<Rightarrow> nat \<Rightarrow> nat" where
  "stripDigits wireName 0 = 0"
| "stripDigits wireName (Suc n) = (if isdigit (wireName ! n) then stripDigits wireName n else Suc n)"

text \<open>The loop over the dictionary with the best match so far.\<close>

fun bestMatchLoop :: "string \<Rightarrow> string list \<Rightarrow> string option \<Rightarrow> string option" where
  "bestMatchLoop candidate [] best = best"
| "bestMatchLoop candidate (name # names) best =
     (if length name \<le> (case best of None \<Rightarrow> 0 | Some b \<Rightarrow> length b) then bestMatchLoop candidate names best
      else if endsWith candidate name then bestMatchLoop candidate names (Some name)
      else bestMatchLoop candidate names best)"

definition IedModelLnCategory_forWireInstanceName :: "string option \<Rightarrow> LnCategory" where
  "IedModelLnCategory_forWireInstanceName wireName =
     (case wireName of
        None \<Rightarrow> IED_MODEL_LN_CATEGORY_OTHER
      | Some [] \<Rightarrow> IED_MODEL_LN_CATEGORY_OTHER
      | Some w \<Rightarrow>
          let candidateLen = stripDigits w (length w) in
          if candidateLen = 0 then IED_MODEL_LN_CATEGORY_OTHER
          else case bestMatchLoop (take candidateLen w) kStandardLnClassNames None of
            Some name \<Rightarrow> IedModelLnCategory_forLnClass (Some name)
          | None \<Rightarrow>
              if candidateLen < 4 then IED_MODEL_LN_CATEGORY_OTHER
              else IedModelLnCategory_forGroupLetter (w ! (candidateLen - 4)))"

definition IedModelLnCategory_isAlwaysIncludedLnClass :: "string option \<Rightarrow> bool" where
  "IedModelLnCategory_isAlwaysIncludedLnClass lnClass \<longleftrightarrow> lnClass = Some ''LLN0''"

definition IedModelLnCategory_isAlwaysIncludedWireInstanceName :: "string option \<Rightarrow> bool" where
  "IedModelLnCategory_isAlwaysIncludedWireInstanceName wireName \<longleftrightarrow> wireName = Some ''LLN0''"

fun IedModelLnCategory_toString :: "LnCategory \<Rightarrow> string" where
  "IedModelLnCategory_toString IED_MODEL_LN_CATEGORY_CONTROL = ''CONTROL''"
| "IedModelLnCategory_toString IED_MODEL_LN_CATEGORY_MEASUREMENT = ''MEASUREMENT''"
| "IedModelLnCategory_toString IED_MODEL_LN_CATEGORY_PROTECTION = ''PROTECTION''"
| "IedModelLnCategory_toString IED_MODEL_LN_CATEGORY_OTHER = ''OTHER''"

section \<open>Recovering the class from the wire\<close>

lemma endsWith_iff: "endsWith str suffix \<longleftrightarrow> (\<exists>p. str = p @ suffix)"
proof
  assume "endsWith str suffix"
  then have "length suffix \<le> length str" "drop (length str - length suffix) str = suffix"
    by (auto simp: endsWith_def strneq_def split: if_splits)
  then show "\<exists>p. str = p @ suffix" by (metis append_take_drop_id)
qed (auto simp: endsWith_def strneq_def)

lemma stripDigits_append:
  assumes "\<forall>c \<in> set ds. isdigit c"
  shows "stripDigits (xs @ ds) (length xs + length ds) = stripDigits (xs @ ds) (length xs)"
  using assms
proof (induction "length ds" arbitrary: ds)
  case (Suc n)
  then obtain es d where ds: "ds = es @ [d]" by (metis length_Suc_conv_rev)
  have "stripDigits (xs @ ds) (length xs + length ds) = stripDigits (xs @ ds) (length xs + length es)"
    using Suc.prems by (simp add: ds nth_append)
  moreover have "n' \<le> length xs + length es \<Longrightarrow> stripDigits (xs @ es @ [d]) n' = stripDigits (xs @ es) n'" for n'
    by (induction n') (auto simp: nth_append)
  ultimately show ?case using Suc by (simp add: ds)
qed simp

lemma stripDigits_stop: "xs \<noteq> [] \<Longrightarrow> \<not> isdigit (last xs) \<Longrightarrow> stripDigits (xs @ ds) (length xs) = length xs"
  by (cases xs rule: rev_cases) (auto simp: nth_append)

text \<open>Whatever the loop returns is a suffix of the candidate.\<close>

lemma bestMatch_suffix:
  "bestMatchLoop cand names best = Some m \<Longrightarrow> best = Some m \<or> (m \<in> set names \<and> (\<exists>p. cand = p @ m))"
  by (induction cand names best rule: bestMatchLoop.induct) (auto simp: endsWith_iff split: if_splits)

lemma standard_names_four: "\<forall>n \<in> set kStandardLnClassNames. length n = 4"
  by (simp add: kStandardLnClassNames_def)

lemma forWire_nonempty:
  "w \<noteq> [] \<Longrightarrow> IedModelLnCategory_forWireInstanceName (Some w) =
     (let candidateLen = stripDigits w (length w) in
      if candidateLen = 0 then IED_MODEL_LN_CATEGORY_OTHER
      else case bestMatchLoop (take candidateLen w) kStandardLnClassNames None of
        Some name \<Rightarrow> IedModelLnCategory_forLnClass (Some name)
      | None \<Rightarrow>
          if candidateLen < 4 then IED_MODEL_LN_CATEGORY_OTHER
          else IedModelLnCategory_forGroupLetter (w ! (candidateLen - 4)))"
  by (cases w) (simp, simp only: IedModelLnCategory_forWireInstanceName_def option.case list.case)

text \<open>The class survives the wire: for an instance name made of any prefix, a four-letter class
  that does not end in a digit and any instance number, the category read back from the name
  is the category of the class, whether or not the dictionary knows it.\<close>

theorem wire_name_category:
  assumes "length cls = 4" and "\<not> isdigit (last cls)" and "\<forall>c \<in> set inst. isdigit c"
  shows "IedModelLnCategory_forWireInstanceName (Some (prefix @ cls @ inst))
    = IedModelLnCategory_forLnClass (Some cls)"
proof -
  obtain a cs where cls: "cls = a # cs" using assms(1) by (cases cls) auto
  let ?w = "prefix @ cls @ inst"
  have len: "stripDigits ?w (length ?w) = length (prefix @ cls)"
    using stripDigits_append [OF assms(3), of "prefix @ cls"] stripDigits_stop [of "prefix @ cls" inst] assms(1,2)
    by (cases "cls = []") (simp_all add: add.assoc)
  have w: "?w \<noteq> []" using assms(1) by auto
  have tk: "take (length (prefix @ cls)) ?w = prefix @ cls" by simp
  have fb: "?w ! (length (prefix @ cls) - 4) = a" using assms(1) by (simp add: cls)
  have "m = cls" if "bestMatchLoop (prefix @ cls) kStandardLnClassNames None = Some m" for m
  proof -
    from bestMatch_suffix [OF that] obtain p where "m \<in> set kStandardLnClassNames" "prefix @ cls = p @ m" by auto
    moreover from this standard_names_four have "length m = length cls" using assms(1) by auto
    ultimately show ?thesis by simp
  qed
  then have "bestMatchLoop (prefix @ cls) kStandardLnClassNames None = None
      \<or> bestMatchLoop (prefix @ cls) kStandardLnClassNames None = Some cls"
    by (cases "bestMatchLoop (prefix @ cls) kStandardLnClassNames None") auto
  then show ?thesis
    unfolding forWire_nonempty [OF w] Let_def len tk fb
    using assms(1) by (auto simp: IedModelLnCategory_forLnClass_def cls)
qed

lemma wire_name_category_witness:
  "IedModelLnCategory_forWireInstanceName (Some ''CB1PTUF12'') = IED_MODEL_LN_CATEGORY_PROTECTION"
  using wire_name_category [of "''PTUF''" "''12''" "''CB1''"]
  by (simp add: isdigit_def IedModelLnCategory_forLnClass_def IedModelLnCategory_forGroupLetter_def
      toupper_def kGroupLetterTable_def)

end
