(* ===== verification/Control_Request.thy ===== *)
theory Control_Request
  imports Ln_Category Complex_Main
begin

text \<open>
  \<open>control_dispatcher/data/control_dispatcher_json_parser.c\<close> and the requests of
  \<open>domain/control_dispatcher_types.h\<close>: what a client of the control websocket can ask for. cJSON
  is an argument: the tree it builds from a text (\<open>None\<close> where the text is no JSON). A value
  outside the range of the C integer it is cast to has no defined result: such a parse is \<open>None\<close>.
\<close>

unbundle bit_operations_syntax

section \<open>Parsed JSON\<close>

datatype c_double = Finite rat | Pos_Inf | Neg_Inf

datatype cjson =
    CJ_Null
  | CJ_Bool bool
  | CJ_Number c_double
  | CJ_String string
  | CJ_Array "cjson list"
  | CJ_Object "(string \<times> cjson) list"

fun trunc_double :: "c_double \<Rightarrow> int option" where
  "trunc_double (Finite r) = Some (if r < 0 then \<lceil>r\<rceil> else \<lfloor>r\<rfloor>)"
| "trunc_double Pos_Inf = None"
| "trunc_double Neg_Inf = None"

definition int_of_double :: "c_double \<Rightarrow> int option" where
  "int_of_double d = (case trunc_double d of None \<Rightarrow> None
     | Some i \<Rightarrow> if - (2 ^ 31) \<le> i \<and> i < 2 ^ 31 then Some i else None)"

definition u64_of_double :: "c_double \<Rightarrow> u64 option" where
  "u64_of_double d = (case trunc_double d of None \<Rightarrow> None
     | Some i \<Rightarrow> if 0 \<le> i \<and> i < 2 ^ 64 then Some (word_of_int i) else None)"

fun double_negative :: "c_double \<Rightarrow> bool" where
  "double_negative (Finite r) \<longleftrightarrow> r < 0"
| "double_negative Pos_Inf \<longleftrightarrow> False"
| "double_negative Neg_Inf \<longleftrightarrow> True"

text \<open>\<open>cJSON_GetObjectItemCaseSensitive\<close>: the first item of that name.\<close>

fun get_item :: "cjson \<Rightarrow> string \<Rightarrow> cjson option" where
  "get_item (CJ_Object members) key = map_of members key"
| "get_item _ key = None"

section \<open>Requests\<close>

datatype ControlRequestType =
    CONTROL_REQ_START_REPORTING | CONTROL_REQ_STOP_REPORTING | CONTROL_REQ_START_SCAN | CONTROL_REQ_STOP_SCAN

record ControlRequest =
  cq_requestId :: "string option"
  cq_type :: ControlRequestType
  cq_host :: "string option"
  cq_mmsPort :: int
  cq_iedName :: "string option"
  cq_interfaceId :: "string option"
  cq_sclFilePath :: "string option"
  cq_acseAuthPassword :: "string option"
  cq_accessMode :: AccessMode
  cq_lnCategoryFilter :: u8
  cq_deviceId :: u64
  cq_sweepIntervalMs :: u32
  cq_scanId :: u64

datatype ControlParseError =
    CONTROL_PARSE_OK | CONTROL_PARSE_ERR_MALFORMED_JSON | CONTROL_PARSE_ERR_MISSING_REQUEST_ID
  | CONTROL_PARSE_ERR_UNKNOWN_ACTION | CONTROL_PARSE_ERR_INVALID_PARAMS

text \<open>The request as \<open>calloc\<close> returns it.\<close>

definition zero_request :: "ControlRequestType \<Rightarrow> string option \<Rightarrow> ControlRequest" where
  "zero_request type requestId = \<lparr>cq_requestId = requestId, cq_type = type, cq_host = None, cq_mmsPort = 0,
     cq_iedName = None, cq_interfaceId = None, cq_sclFilePath = None, cq_acseAuthPassword = None,
     cq_accessMode = IED_MODEL_ACCESS_REPORT_ONLY, cq_lnCategoryFilter = 0, cq_deviceId = 0,
     cq_sweepIntervalMs = 0, cq_scanId = 0\<rparr>"

section \<open>Fields\<close>

fun isNonEmptyString :: "cjson option \<Rightarrow> bool" where
  "isNonEmptyString (Some (CJ_String s)) \<longleftrightarrow> s \<noteq> []"
| "isNonEmptyString _ \<longleftrightarrow> False"

fun valuestring :: "cjson option \<Rightarrow> string option" where
  "valuestring (Some (CJ_String s)) = Some s"
| "valuestring _ = None"

text \<open>\<open>ok\<close> tells which copies are allocated, by the name of the field.\<close>

type_synonym dup_ok = "string \<Rightarrow> bool"

definition safeStringDup :: "dup_ok \<Rightarrow> string \<Rightarrow> string option \<Rightarrow> string option" where
  "safeStringDup ok field s = (if ok field then s else None)"

definition dupOptionalString :: "dup_ok \<Rightarrow> cjson \<Rightarrow> string \<Rightarrow> string option" where
  "dupOptionalString ok object key =
     (let item = get_item object key
      in if \<not> isNonEmptyString item then None else safeStringDup ok key (valuestring item))"

text \<open>The new value of the variable.\<close>

definition tryGetInt :: "cjson \<Rightarrow> string \<Rightarrow> int \<Rightarrow> int option" where
  "tryGetInt object key old =
     (case get_item object key of Some (CJ_Number d) \<Rightarrow> int_of_double d | _ \<Rightarrow> Some old)"

definition parseAccessMode :: "cjson \<Rightarrow> AccessMode option" where
  "parseAccessMode object =
     (case get_item object ''accessMode'' of
        None \<Rightarrow> Some IED_MODEL_ACCESS_REPORT_ONLY
      | Some (CJ_String s) \<Rightarrow>
          if s = ''REPORT_ONLY'' then Some IED_MODEL_ACCESS_REPORT_ONLY
          else if s = ''READ_ONLY'' then Some IED_MODEL_ACCESS_READ_ONLY
          else if s = ''READ_AND_WRITE'' then Some IED_MODEL_ACCESS_READ_AND_WRITE
          else None
      | Some _ \<Rightarrow> None)"

fun category_named :: "string \<Rightarrow> u8 option" where
  "category_named s =
     (if s = ''CONTROL'' then Some (ln_category_bit IED_MODEL_LN_CATEGORY_CONTROL)
      else if s = ''MEASUREMENT'' then Some (ln_category_bit IED_MODEL_LN_CATEGORY_MEASUREMENT)
      else if s = ''PROTECTION'' then Some (ln_category_bit IED_MODEL_LN_CATEGORY_PROTECTION)
      else if s = ''OTHER'' then Some (ln_category_bit IED_MODEL_LN_CATEGORY_OTHER)
      else None)"

fun category_loop :: "cjson list \<Rightarrow> u8 \<Rightarrow> u8 option" where
  "category_loop [] m = Some m"
| "category_loop (CJ_String s # rest) m =
     (case category_named s of None \<Rightarrow> None | Some b \<Rightarrow> category_loop rest (m OR b))"
| "category_loop (_ # rest) m = None"

definition parseLnCategoryFilter :: "cjson \<Rightarrow> u8 option" where
  "parseLnCategoryFilter object =
     (case get_item object ''lnCategories'' of
        None \<Rightarrow> Some IED_MODEL_LN_CATEGORY_ALL
      | Some (CJ_Array elements) \<Rightarrow> if elements = [] then None else category_loop elements 0
      | Some _ \<Rightarrow> None)"

section \<open>The parameters of an action\<close>

text \<open>The error and the request as far as it was filled in.\<close>

type_synonym params_result = "(ControlParseError \<times> ControlRequest) option"

definition parseStartReportingParams :: "dup_ok \<Rightarrow> cjson \<Rightarrow> ControlRequest \<Rightarrow> params_result" where
  "parseStartReportingParams ok params request =
     (let hostItem = get_item params ''host'' in
      if \<not> isNonEmptyString hostItem then Some (CONTROL_PARSE_ERR_INVALID_PARAMS, request)
      else
        let request = request\<lparr>cq_host := safeStringDup ok ''host'' (valuestring hostItem)\<rparr>;
            interfaceItem = get_item params ''interfaceId''
        in if \<not> isNonEmptyString interfaceItem then Some (CONTROL_PARSE_ERR_INVALID_PARAMS, request)
        else case tryGetInt params ''mmsPort'' 102 of
          None \<Rightarrow> None
        | Some port \<Rightarrow>
            let request = request\<lparr>cq_interfaceId := safeStringDup ok ''interfaceId'' (valuestring interfaceItem),
                  cq_mmsPort := port, cq_iedName := dupOptionalString ok params ''iedName'',
                  cq_sclFilePath := dupOptionalString ok params ''sclFilePath'',
                  cq_acseAuthPassword := dupOptionalString ok params ''acseAuthPassword''\<rparr>
            in if cq_sclFilePath request \<noteq> None \<and> cq_iedName request = None then Some (CONTROL_PARSE_ERR_INVALID_PARAMS, request)
               else (case parseAccessMode params of
                  None \<Rightarrow> Some (CONTROL_PARSE_ERR_INVALID_PARAMS, request)
                | Some mode \<Rightarrow>
                    (case parseLnCategoryFilter params of
                       None \<Rightarrow> Some (CONTROL_PARSE_ERR_INVALID_PARAMS, request\<lparr>cq_accessMode := mode\<rparr>)
                     | Some cats \<Rightarrow>
                         let request = request\<lparr>cq_accessMode := mode, cq_lnCategoryFilter := cats\<rparr>
                         in if cq_host request = None \<or> cq_interfaceId request = None
                            then Some (CONTROL_PARSE_ERR_INVALID_PARAMS, request)
                            else Some (CONTROL_PARSE_OK, request))))"

definition parseStopReportingParams :: "dup_ok \<Rightarrow> cjson \<Rightarrow> ControlRequest \<Rightarrow> params_result" where
  "parseStopReportingParams ok params request =
     (case get_item params ''deviceId'' of
        Some (CJ_Number d) \<Rightarrow>
          if double_negative d then Some (CONTROL_PARSE_ERR_INVALID_PARAMS, request)
          else map_option (\<lambda>i. (CONTROL_PARSE_OK, request\<lparr>cq_deviceId := i\<rparr>)) (u64_of_double d)
      | Some _ \<Rightarrow> Some (CONTROL_PARSE_ERR_INVALID_PARAMS, request)
      | None \<Rightarrow>
          let hostItem = get_item params ''host'' in
          if \<not> isNonEmptyString hostItem then Some (CONTROL_PARSE_ERR_INVALID_PARAMS, request)
          else case tryGetInt params ''mmsPort'' 102 of
            None \<Rightarrow> None
          | Some port \<Rightarrow>
              let request = request\<lparr>cq_host := safeStringDup ok ''host'' (valuestring hostItem), cq_mmsPort := port\<rparr>
              in if cq_host request = None then Some (CONTROL_PARSE_ERR_INVALID_PARAMS, request)
                 else Some (CONTROL_PARSE_OK, request))"

definition parseStartScanParams :: "dup_ok \<Rightarrow> cjson \<Rightarrow> ControlRequest \<Rightarrow> params_result" where
  "parseStartScanParams ok params request =
     (let interfaceItem = get_item params ''interfaceId'' in
      if \<not> isNonEmptyString interfaceItem then Some (CONTROL_PARSE_ERR_INVALID_PARAMS, request)
      else case tryGetInt params ''mmsPort'' 102 of
        None \<Rightarrow> None
      | Some port \<Rightarrow>
          (case tryGetInt params ''sweepIntervalMs'' 0 of
             None \<Rightarrow> None
           | Some sweepIntervalMs \<Rightarrow>
               let request = request\<lparr>cq_interfaceId := safeStringDup ok ''interfaceId'' (valuestring interfaceItem),
                     cq_mmsPort := port,
                     cq_sweepIntervalMs := (if sweepIntervalMs > 0 then word_of_int sweepIntervalMs else 0)\<rparr>
               in if cq_interfaceId request = None then Some (CONTROL_PARSE_ERR_INVALID_PARAMS, request)
                  else Some (CONTROL_PARSE_OK, request)))"

definition parseStopScanParams :: "cjson \<Rightarrow> ControlRequest \<Rightarrow> params_result" where
  "parseStopScanParams params request =
     (case get_item params ''scanId'' of
        Some (CJ_Number d) \<Rightarrow>
          if double_negative d then Some (CONTROL_PARSE_ERR_INVALID_PARAMS, request)
          else map_option (\<lambda>i. (CONTROL_PARSE_OK, request\<lparr>cq_scanId := i\<rparr>)) (u64_of_double d)
      | _ \<Rightarrow> Some (CONTROL_PARSE_ERR_INVALID_PARAMS, request))"

section \<open>A message\<close>

definition action_type :: "string option \<Rightarrow> ControlRequestType option" where
  "action_type actionStr =
     (if actionStr = Some ''START_REPORTING'' then Some CONTROL_REQ_START_REPORTING
      else if actionStr = Some ''STOP_REPORTING'' then Some CONTROL_REQ_STOP_REPORTING
      else if actionStr = Some ''START_SCAN'' then Some CONTROL_REQ_START_SCAN
      else if actionStr = Some ''STOP_SCAN'' then Some CONTROL_REQ_STOP_SCAN
      else None)"

definition parse_params :: "dup_ok \<Rightarrow> ControlRequestType \<Rightarrow> cjson \<Rightarrow> ControlRequest \<Rightarrow> params_result" where
  "parse_params ok type params request =
     (case type of
        CONTROL_REQ_START_REPORTING \<Rightarrow> parseStartReportingParams ok params request
      | CONTROL_REQ_STOP_REPORTING \<Rightarrow> parseStopReportingParams ok params request
      | CONTROL_REQ_START_SCAN \<Rightarrow> parseStartScanParams ok params request
      | CONTROL_REQ_STOP_SCAN \<Rightarrow> parseStopScanParams params request)"

text \<open>
  The error, the copies of the identifier and the action that survive for the error reply, and the
  request on success. \<open>prs\<close> is \<open>cJSON_ParseWithLength\<close>.
\<close>

definition ControlDispatcherJsonParser_parse ::
    "(string \<Rightarrow> cjson option) \<Rightarrow> dup_ok \<Rightarrow> string
      \<Rightarrow> (ControlParseError \<times> string option \<times> string option \<times> ControlRequest option) option" where
  "ControlDispatcherJsonParser_parse prs ok rawJson =
     (case prs rawJson of
        Some (CJ_Object members) \<Rightarrow>
          let root = CJ_Object members;
              requestIdItem = get_item root ''requestId'';
              actionItem = get_item root ''action'';
              recoveredId = (if isNonEmptyString requestIdItem
                then safeStringDup ok ''recoveredRequestId'' (valuestring requestIdItem) else None);
              recoveredAction = safeStringDup ok ''recoveredAction'' (valuestring actionItem)
          in if \<not> isNonEmptyString requestIdItem then
               Some (CONTROL_PARSE_ERR_MISSING_REQUEST_ID, recoveredId, recoveredAction, None)
             else (case action_type (valuestring actionItem) of
                None \<Rightarrow> Some (CONTROL_PARSE_ERR_UNKNOWN_ACTION, recoveredId, recoveredAction, None)
              | Some type \<Rightarrow>
                  (case get_item root ''params'' of
                     Some (CJ_Object ps) \<Rightarrow>
                       if \<not> ok ''request'' then Some (CONTROL_PARSE_ERR_INVALID_PARAMS, recoveredId, recoveredAction, None)
                       else
                         let params = CJ_Object ps;
                             request = zero_request type (safeStringDup ok ''requestId'' (valuestring requestIdItem))
                         in (case parse_params ok type params request of
                            None \<Rightarrow> None
                          | Some (paramsErr, request) \<Rightarrow>
                              if paramsErr \<noteq> CONTROL_PARSE_OK \<or> cq_requestId request = None then
                                Some (if paramsErr \<noteq> CONTROL_PARSE_OK then paramsErr else CONTROL_PARSE_ERR_INVALID_PARAMS,
                                      recoveredId, recoveredAction, None)
                              else Some (CONTROL_PARSE_OK, None, None, Some request))
                   | _ \<Rightarrow> Some (CONTROL_PARSE_ERR_INVALID_PARAMS, recoveredId, recoveredAction, None)))
      | _ \<Rightarrow> Some (CONTROL_PARSE_ERR_MALFORMED_JSON, None, None, None))"

section \<open>Well-formed requests\<close>

definition text_given :: "string option \<Rightarrow> bool" where
  "text_given s \<longleftrightarrow> s \<noteq> None \<and> s \<noteq> Some []"

definition c_int_range :: "int \<Rightarrow> bool" where
  "c_int_range i \<longleftrightarrow> - (2 ^ 31) \<le> i \<and> i < 2 ^ 31"

text \<open>
  What the worker relies on: every request carries its identifier, and exactly the fields of its
  action.
\<close>

definition request_ok :: "ControlRequest \<Rightarrow> bool" where
  "request_ok q \<longleftrightarrow> text_given (cq_requestId q) \<and> c_int_range (cq_mmsPort q) \<and>
     (case cq_type q of
        CONTROL_REQ_START_REPORTING \<Rightarrow>
          text_given (cq_host q) \<and> text_given (cq_interfaceId q)
          \<and> cq_iedName q \<noteq> Some [] \<and> cq_sclFilePath q \<noteq> Some [] \<and> cq_acseAuthPassword q \<noteq> Some []
          \<and> (cq_sclFilePath q \<noteq> None \<longrightarrow> cq_iedName q \<noteq> None)
          \<and> cq_lnCategoryFilter q \<noteq> 0 \<and> cq_lnCategoryFilter q AND IED_MODEL_LN_CATEGORY_ALL = cq_lnCategoryFilter q
          \<and> q\<lparr>cq_deviceId := 0, cq_sweepIntervalMs := 0, cq_scanId := 0\<rparr> = q
      | CONTROL_REQ_STOP_REPORTING \<Rightarrow>
          (cq_host q \<noteq> Some [] \<and> (if cq_host q = None then cq_mmsPort q = 0 else cq_deviceId q = 0))
          \<and> (zero_request CONTROL_REQ_STOP_REPORTING (cq_requestId q))\<lparr>cq_host := cq_host q,
               cq_mmsPort := cq_mmsPort q, cq_deviceId := cq_deviceId q\<rparr> = q
      | CONTROL_REQ_START_SCAN \<Rightarrow>
          text_given (cq_interfaceId q) \<and> cq_sweepIntervalMs q < 2 ^ 31
          \<and> (zero_request CONTROL_REQ_START_SCAN (cq_requestId q))\<lparr>cq_interfaceId := cq_interfaceId q,
               cq_mmsPort := cq_mmsPort q, cq_sweepIntervalMs := cq_sweepIntervalMs q\<rparr> = q
      | CONTROL_REQ_STOP_SCAN \<Rightarrow>
          (zero_request CONTROL_REQ_STOP_SCAN (cq_requestId q))\<lparr>cq_scanId := cq_scanId q\<rparr> = q)"

lemma category_named_bits: "category_named s = Some b \<Longrightarrow> b AND 15 = b \<and> b \<noteq> 0"
  by (auto split: if_splits)

lemma category_loop_bits:
  "category_loop xs m = Some m' \<Longrightarrow> m AND 15 = m \<Longrightarrow> m' AND 15 = m' \<and> (xs = [] \<and> m' = m \<or> m' \<noteq> 0)"
proof (induction xs m rule: category_loop.induct)
  case (2 s rest m)
  then obtain b where b: "category_named s = Some b" "category_loop rest (m OR b) = Some m'"
    by (auto split: option.splits)
  from category_named_bits [OF b(1)] 2(3) have "(m OR b) AND 15 = m OR b"
    by (simp add: bit.conj_disj_distrib2)
  moreover have "m OR b \<noteq> 0" using category_named_bits [OF b(1)] by (simp add: or_eq_0_iff)
  ultimately show ?case using 2(1) [OF b] by auto
qed auto

lemma filter_bits: "parseLnCategoryFilter params = Some f \<Longrightarrow> f \<noteq> 0 \<and> f AND 15 = f"
  by (auto simp: parseLnCategoryFilter_def IED_MODEL_LN_CATEGORY_ALL_def split: option.splits cjson.splits if_splits
      dest!: category_loop_bits)

lemma tryGetInt_range: "tryGetInt params k old = Some i \<Longrightarrow> c_int_range old \<Longrightarrow> c_int_range i"
  by (auto simp: tryGetInt_def int_of_double_def c_int_range_def split: option.splits cjson.splits if_splits)

lemma dup_given: "isNonEmptyString item \<Longrightarrow> safeStringDup ok k (valuestring item) = Some s \<Longrightarrow> s \<noteq> []"
  by (cases item rule: isNonEmptyString.cases) (auto simp: safeStringDup_def split: if_splits)

lemma optional_given: "dupOptionalString ok params k \<noteq> Some []"
  by (auto simp: dupOptionalString_def Let_def dest: dup_given)

lemma text_given_Some [simp]: "text_given (Some s) \<longleftrightarrow> s \<noteq> []" "\<not> text_given None"
  by (simp_all add: text_given_def)

lemma zero_request_fields [simp]:
  "cq_requestId (zero_request t i) = i" "cq_type (zero_request t i) = t" "cq_host (zero_request t i) = None"
  "cq_mmsPort (zero_request t i) = 0" "cq_deviceId (zero_request t i) = 0" "cq_sweepIntervalMs (zero_request t i) = 0"
  by (simp_all add: zero_request_def)

lemma start_params_ok:
  assumes "parseStartReportingParams ok params (zero_request CONTROL_REQ_START_REPORTING (Some i)) = Some (CONTROL_PARSE_OK, q)"
    and "i \<noteq> []"
  shows "request_ok q"
proof -
  let ?h = "get_item params ''host''" and ?f = "get_item params ''interfaceId''"
  obtain h f port mode cats where parts: "isNonEmptyString ?h" "isNonEmptyString ?f"
    "safeStringDup ok ''host'' (valuestring ?h) = Some h" "safeStringDup ok ''interfaceId'' (valuestring ?f) = Some f"
    "tryGetInt params ''mmsPort'' 102 = Some port" "parseLnCategoryFilter params = Some cats"
    and q: "q = (zero_request CONTROL_REQ_START_REPORTING (Some i))\<lparr>cq_host := Some h, cq_interfaceId := Some f,
      cq_mmsPort := port, cq_iedName := dupOptionalString ok params ''iedName'',
      cq_sclFilePath := dupOptionalString ok params ''sclFilePath'',
      cq_acseAuthPassword := dupOptionalString ok params ''acseAuthPassword'',
      cq_accessMode := mode, cq_lnCategoryFilter := cats\<rparr>"
    and ied: "dupOptionalString ok params ''sclFilePath'' \<noteq> None \<longrightarrow> dupOptionalString ok params ''iedName'' \<noteq> None"
    using assms(1) by (auto simp: parseStartReportingParams_def Let_def split: if_splits option.splits)
  have "c_int_range port" using tryGetInt_range [OF parts(5)] by (simp add: c_int_range_def)
  then show ?thesis
    using dup_given [OF parts(1,3)] dup_given [OF parts(2,4)] filter_bits [OF parts(6)] assms(2) ied
    by (simp add: q request_ok_def optional_given IED_MODEL_LN_CATEGORY_ALL_def zero_request_def)
qed

lemma stop_params_ok:
  assumes "parseStopReportingParams ok params (zero_request CONTROL_REQ_STOP_REPORTING (Some i)) = Some (CONTROL_PARSE_OK, q)"
    and "i \<noteq> []"
  shows "request_ok q"
proof (cases "get_item params ''deviceId''")
  case (Some d)
  then obtain n where "q = (zero_request CONTROL_REQ_STOP_REPORTING (Some i))\<lparr>cq_deviceId := n\<rparr>"
    using assms(1) by (auto simp: parseStopReportingParams_def split: cjson.splits if_splits)
  then show ?thesis using assms(2) by (simp add: request_ok_def zero_request_def c_int_range_def)
next
  case None
  let ?h = "get_item params ''host''"
  obtain h port where parts: "isNonEmptyString ?h" "safeStringDup ok ''host'' (valuestring ?h) = Some h"
    "tryGetInt params ''mmsPort'' 102 = Some port"
    and q: "q = (zero_request CONTROL_REQ_STOP_REPORTING (Some i))\<lparr>cq_host := Some h, cq_mmsPort := port\<rparr>"
    using assms(1) None by (auto simp: parseStopReportingParams_def Let_def split: if_splits option.splits)
  have "c_int_range port" using tryGetInt_range [OF parts(3)] by (simp add: c_int_range_def)
  then show ?thesis using dup_given [OF parts(1,2)] assms(2) by (simp add: q request_ok_def zero_request_def)
qed

lemma start_scan_params_ok:
  assumes "parseStartScanParams ok params (zero_request CONTROL_REQ_START_SCAN (Some i)) = Some (CONTROL_PARSE_OK, q)"
    and "i \<noteq> []"
  shows "request_ok q"
proof -
  let ?f = "get_item params ''interfaceId''"
  obtain f port ms where parts: "isNonEmptyString ?f" "safeStringDup ok ''interfaceId'' (valuestring ?f) = Some f"
    "tryGetInt params ''mmsPort'' 102 = Some port" "tryGetInt params ''sweepIntervalMs'' 0 = Some ms"
    and q: "q = (zero_request CONTROL_REQ_START_SCAN (Some i))\<lparr>cq_interfaceId := Some f, cq_mmsPort := port,
      cq_sweepIntervalMs := (if ms > 0 then word_of_int ms else 0)\<rparr>"
    using assms(1) by (auto simp: parseStartScanParams_def Let_def split: if_splits option.splits)
  have "c_int_range port" using tryGetInt_range [OF parts(3)] by (simp add: c_int_range_def)
  moreover have "(if ms > 0 then word_of_int ms else 0) < (2 ^ 31 :: u32)"
    using tryGetInt_range [OF parts(4)]
    by (auto simp: c_int_range_def word_less_nat_alt unsigned_of_int take_bit_int_eq_self)
  ultimately show ?thesis using dup_given [OF parts(1,2)] assms(2) by (simp add: q request_ok_def zero_request_def)
qed

lemma stop_scan_params_ok:
  assumes "parseStopScanParams params (zero_request CONTROL_REQ_STOP_SCAN (Some i)) = Some (CONTROL_PARSE_OK, q)"
    and "i \<noteq> []"
  shows "request_ok q"
proof -
  obtain n where "q = (zero_request CONTROL_REQ_STOP_SCAN (Some i))\<lparr>cq_scanId := n\<rparr>"
    using assms(1) by (auto simp: parseStopScanParams_def split: cjson.splits option.splits if_splits)
  then show ?thesis using assms(2) by (simp add: request_ok_def zero_request_def c_int_range_def)
qed

lemma params_keep_id:
  "parseStartReportingParams ok params q0 = Some (e, q) \<Longrightarrow> cq_requestId q = cq_requestId q0"
  "parseStopReportingParams ok params q0 = Some (e, q) \<Longrightarrow> cq_requestId q = cq_requestId q0"
  "parseStartScanParams ok params q0 = Some (e, q) \<Longrightarrow> cq_requestId q = cq_requestId q0"
  "parseStopScanParams params q0 = Some (e, q) \<Longrightarrow> cq_requestId q = cq_requestId q0"
  by (auto simp: parseStartReportingParams_def parseStopReportingParams_def parseStartScanParams_def parseStopScanParams_def
      Let_def split: option.splits cjson.splits if_splits)

lemma parsed_request:
  assumes "ControlDispatcherJsonParser_parse prs ok rawJson = Some (err, recoveredId, recoveredAction, outRequest)"
  shows "if err = CONTROL_PARSE_OK then recoveredId = None \<and> recoveredAction = None \<and> (\<exists>q. outRequest = Some q \<and> request_ok q)
    else outRequest = None"
proof (cases "err = CONTROL_PARSE_OK")
  case False
  with assms show ?thesis
    by (auto simp: ControlDispatcherJsonParser_parse_def Let_def split: option.splits cjson.splits if_splits)
next
  case True
  obtain members where m: "prs rawJson = Some (CJ_Object members)"
    using assms True by (auto simp: ControlDispatcherJsonParser_parse_def split: option.splits cjson.splits)
  let ?i = "get_item (CJ_Object members) ''requestId''"
  obtain ty ps q where id: "isNonEmptyString ?i" and out: "outRequest = Some q" "recoveredId = None" "recoveredAction = None"
    and run: "parse_params ok ty (CJ_Object ps) (zero_request ty (safeStringDup ok ''requestId'' (valuestring ?i)))
        = Some (CONTROL_PARSE_OK, q)"
    and given: "cq_requestId q \<noteq> None"
    using assms True m unfolding ControlDispatcherJsonParser_parse_def Let_def
    by (auto split: if_splits option.splits cjson.splits prod.splits)
  have "cq_requestId q = safeStringDup ok ''requestId'' (valuestring ?i)"
    using run unfolding parse_params_def by (cases ty) (auto dest: params_keep_id)
  with given obtain i where i: "safeStringDup ok ''requestId'' (valuestring ?i) = Some i" by auto
  note ne = dup_given [OF id i]
  have "request_ok q"
    using run i ne start_params_ok stop_params_ok start_scan_params_ok stop_scan_params_ok
    unfolding parse_params_def by (cases ty) auto
  with True out show ?thesis by simp
qed

text \<open>C36. A request the parser accepts is well formed: it has a non-empty identifier, a port that is a C
  \<open>int\<close>, and the fields of its action and no others, each non-empty where the worker relies on it; a file is
  named only together with a device name and the category filter selects at least one category. A rejected
  message yields no request at all. This holds for every text and whatever copy cannot be allocated.\<close>

theorem parse_well_typed:
  assumes "ControlDispatcherJsonParser_parse prs ok rawJson = Some (err, recoveredId, recoveredAction, outRequest)"
  shows "if err = CONTROL_PARSE_OK then recoveredId = None \<and> recoveredAction = None \<and> (\<exists>q. outRequest = Some q \<and> request_ok q)
    else outRequest = None"
  using assms by (rule parsed_request)

theorem parse_well_typed_witness:
  "\<exists>q. ControlDispatcherJsonParser_parse
       (\<lambda>_. Some (CJ_Object [(''requestId'', CJ_String ''r1''), (''action'', CJ_String ''STOP_SCAN''),
          (''params'', CJ_Object [(''scanId'', CJ_Number (Finite 7))])])) (\<lambda>_. True) ''...'' = Some (CONTROL_PARSE_OK, None, None, Some q)
     \<and> request_ok q \<and> cq_scanId q = 7"
proof -
  let ?p = "\<lambda>_::string. Some (CJ_Object [(''requestId'', CJ_String ''r1''), (''action'', CJ_String ''STOP_SCAN''),
    (''params'', CJ_Object [(''scanId'', CJ_Number (Finite 7))])])"
  let ?q = "(zero_request CONTROL_REQ_STOP_SCAN (Some ''r1''))\<lparr>cq_scanId := 7\<rparr>"
  have r: "ControlDispatcherJsonParser_parse ?p (\<lambda>_. True) ''...'' = Some (CONTROL_PARSE_OK, None, None, Some ?q)"
    by (simp add: ControlDispatcherJsonParser_parse_def Let_def safeStringDup_def action_type_def parse_params_def
        parseStopScanParams_def u64_of_double_def)
  from parse_well_typed [OF r] r show ?thesis by simp
qed

section \<open>Every well-formed request can be asked for\<close>

definition type_name :: "ControlRequestType \<Rightarrow> string" where
  "type_name t = (case t of CONTROL_REQ_START_REPORTING \<Rightarrow> ''START_REPORTING'' | CONTROL_REQ_STOP_REPORTING \<Rightarrow> ''STOP_REPORTING''
     | CONTROL_REQ_START_SCAN \<Rightarrow> ''START_SCAN'' | CONTROL_REQ_STOP_SCAN \<Rightarrow> ''STOP_SCAN'')"

definition category_names :: "u8 \<Rightarrow> cjson list" where
  "category_names f = map (\<lambda>(n, c). CJ_String n) (filter (\<lambda>(n, c). f AND ln_category_bit c \<noteq> 0)
     [(''CONTROL'', IED_MODEL_LN_CATEGORY_CONTROL), (''MEASUREMENT'', IED_MODEL_LN_CATEGORY_MEASUREMENT),
      (''PROTECTION'', IED_MODEL_LN_CATEGORY_PROTECTION), (''OTHER'', IED_MODEL_LN_CATEGORY_OTHER)])"

definition mode_name :: "AccessMode \<Rightarrow> string" where
  "mode_name m = (case m of IED_MODEL_ACCESS_REPORT_ONLY \<Rightarrow> ''REPORT_ONLY'' | IED_MODEL_ACCESS_READ_ONLY \<Rightarrow> ''READ_ONLY''
     | IED_MODEL_ACCESS_READ_AND_WRITE \<Rightarrow> ''READ_AND_WRITE'')"

definition opt_member :: "string \<Rightarrow> string option \<Rightarrow> (string \<times> cjson) list" where
  "opt_member k s = (case s of None \<Rightarrow> [] | Some t \<Rightarrow> [(k, CJ_String t)])"

definition double_of :: "int \<Rightarrow> c_double" where
  "double_of i = Finite (of_int i)"

definition params_json :: "ControlRequest \<Rightarrow> (string \<times> cjson) list" where
  "params_json q = (case cq_type q of
      CONTROL_REQ_START_REPORTING \<Rightarrow> opt_member ''host'' (cq_host q) @ opt_member ''interfaceId'' (cq_interfaceId q)
        @ [(''mmsPort'', CJ_Number (double_of (cq_mmsPort q)))]
        @ opt_member ''iedName'' (cq_iedName q) @ opt_member ''sclFilePath'' (cq_sclFilePath q)
        @ opt_member ''acseAuthPassword'' (cq_acseAuthPassword q)
        @ [(''accessMode'', CJ_String (mode_name (cq_accessMode q))), (''lnCategories'', CJ_Array (category_names (cq_lnCategoryFilter q)))]
    | CONTROL_REQ_STOP_REPORTING \<Rightarrow>
        (if cq_host q = None then [(''deviceId'', CJ_Number (double_of (uint (cq_deviceId q))))]
         else opt_member ''host'' (cq_host q) @ [(''mmsPort'', CJ_Number (double_of (cq_mmsPort q)))])
    | CONTROL_REQ_START_SCAN \<Rightarrow> opt_member ''interfaceId'' (cq_interfaceId q)
        @ [(''mmsPort'', CJ_Number (double_of (cq_mmsPort q))), (''sweepIntervalMs'', CJ_Number (double_of (uint (cq_sweepIntervalMs q))))]
    | CONTROL_REQ_STOP_SCAN \<Rightarrow> [(''scanId'', CJ_Number (double_of (uint (cq_scanId q))))])"

definition request_json :: "ControlRequest \<Rightarrow> cjson" where
  "request_json q = CJ_Object (opt_member ''requestId'' (cq_requestId q)
     @ [(''action'', CJ_String (type_name (cq_type q))), (''params'', CJ_Object (params_json q))])"

lemma category_names_parse:
  assumes "f AND 15 = f" and "f \<noteq> 0"
  shows "category_names f \<noteq> [] \<and> category_loop (category_names f) 0 = Some f"
proof -
  have "f = take_bit 4 f" using assms(1) by (simp add: take_bit_eq_mask mask_eq_exp_minus_1)
  then have "unat f = unat (take_bit 4 f)" by (rule arg_cong)
  also have "\<dots> = take_bit 4 (unat f)" by (rule unsigned_take_bit_eq)
  also have "\<dots> = unat f mod 16" by (simp add: take_bit_eq_mod)
  finally have "unat f < 16" by linarith
  then have "unat f \<in> {0..<16}" by simp
  moreover have "f = of_nat (unat f)" by simp
  ultimately have "f \<in> of_nat ` {0..<16}" by (metis image_eqI)
  also have "\<dots> = {0, 1, 2, 3, 4, 5, 6, 7, 8, 9, 10, 11, 12, 13, 14, 15}" by code_simp
  finally show ?thesis using assms(2)
    by (auto simp: category_names_def)
qed

lemma u64_of_num: "u64_of_double (double_of (uint (i :: u64))) = Some i"
proof -
  have "u64_of_double (double_of n) = Some (word_of_int n)" if "0 \<le> n" "n < 2 ^ 64" for n
    using that by (simp add: u64_of_double_def double_of_def)
  moreover have "uint i < 2 ^ 64" using unsigned_less [of i] by simp
  ultimately have "u64_of_double (double_of (uint i)) = Some (word_of_int (uint i))" by simp
  then show ?thesis by simp
qed

lemma int_of_num: "c_int_range i \<Longrightarrow> int_of_double (double_of i) = Some i"
  by (simp add: int_of_double_def c_int_range_def double_of_def)

lemma uint_nonnegative: "- (2 ^ 31) \<le> uint (w :: 'a::len word)"
proof -
  have "0 \<le> uint w" by simp
  then show ?thesis by (rule order_trans [rotated]) simp
qed

lemma uint_positive: "0 < uint w \<longleftrightarrow> w \<noteq> 0" for w :: "'a::len word"
  using word_neq_0_conv [of w] by (simp add: word_less_def)

lemma double_not_negative: "0 \<le> i \<Longrightarrow> \<not> double_negative (double_of i)"
  by (simp add: double_of_def)

lemma opt_member_lookup [simp]:
  "map_of (opt_member k s @ rest) k' = (if k = k' \<and> s \<noteq> None then map_option CJ_String s else map_of rest k')"
  by (auto simp: opt_member_def split: option.splits)

lemma opt_member_lookup_end [simp]:
  "map_of (opt_member k s) k' = (if k = k' then map_option CJ_String s else None)"
  by (auto simp: opt_member_def split: option.splits)

lemma mode_name_parse: "(if mode_name m = ''REPORT_ONLY'' then Some IED_MODEL_ACCESS_REPORT_ONLY
    else if mode_name m = ''READ_ONLY'' then Some IED_MODEL_ACCESS_READ_ONLY
    else if mode_name m = ''READ_AND_WRITE'' then Some IED_MODEL_ACCESS_READ_AND_WRITE else None) = Some m"
  by (cases m) (simp_all add: mode_name_def)

lemma optional_back:
  "get_item params k = map_option CJ_String s \<Longrightarrow> s \<noteq> Some [] \<Longrightarrow> dupOptionalString (\<lambda>_. True) params k = s"
  by (cases s) (auto simp: dupOptionalString_def safeStringDup_def)

lemma start_params_back:
  assumes "request_ok q" and "cq_type q = CONTROL_REQ_START_REPORTING"
  shows "parseStartReportingParams (\<lambda>_. True) (CJ_Object (params_json q)) (zero_request (cq_type q) (cq_requestId q))
    = Some (CONTROL_PARSE_OK, q)"
proof -
  let ?p = "CJ_Object (params_json q)"
  obtain h f where hf: "cq_host q = Some h" "h \<noteq> []" "cq_interfaceId q = Some f" "f \<noteq> []"
    using assms by (auto simp: request_ok_def text_given_def)
  have given: "cq_iedName q \<noteq> Some []" "cq_sclFilePath q \<noteq> Some []" "cq_acseAuthPassword q \<noteq> Some []"
    "cq_sclFilePath q \<noteq> None \<longrightarrow> cq_iedName q \<noteq> None" "c_int_range (cq_mmsPort q)"
    "cq_lnCategoryFilter q \<noteq> 0" "cq_lnCategoryFilter q AND 15 = cq_lnCategoryFilter q"
    "q\<lparr>cq_deviceId := 0, cq_sweepIntervalMs := 0, cq_scanId := 0\<rparr> = q"
    using assms by (auto simp: request_ok_def IED_MODEL_LN_CATEGORY_ALL_def)
  have items: "get_item ?p ''host'' = Some (CJ_String h)" "get_item ?p ''interfaceId'' = Some (CJ_String f)"
    "get_item ?p ''iedName'' = map_option CJ_String (cq_iedName q)"
    "get_item ?p ''sclFilePath'' = map_option CJ_String (cq_sclFilePath q)"
    "get_item ?p ''acseAuthPassword'' = map_option CJ_String (cq_acseAuthPassword q)"
    "get_item ?p ''mmsPort'' = Some (CJ_Number (double_of (cq_mmsPort q)))"
    "get_item ?p ''accessMode'' = Some (CJ_String (mode_name (cq_accessMode q)))"
    "get_item ?p ''lnCategories'' = Some (CJ_Array (category_names (cq_lnCategoryFilter q)))"
    using hf assms(2) by (simp_all add: params_json_def del: map_of_append)
  have "parseAccessMode ?p = Some (cq_accessMode q)"
    using mode_name_parse [of "cq_accessMode q"] by (simp add: parseAccessMode_def items del: get_item.simps)
  moreover have "parseLnCategoryFilter ?p = Some (cq_lnCategoryFilter q)"
    using category_names_parse [OF given(7,6)] by (simp add: parseLnCategoryFilter_def items del: get_item.simps)
  moreover have "tryGetInt ?p ''mmsPort'' 102 = Some (cq_mmsPort q)"
    using int_of_num [OF given(5)] by (simp add: tryGetInt_def items del: get_item.simps)
  moreover have "dupOptionalString (\<lambda>_. True) ?p ''iedName'' = cq_iedName q"
    "dupOptionalString (\<lambda>_. True) ?p ''sclFilePath'' = cq_sclFilePath q"
    "dupOptionalString (\<lambda>_. True) ?p ''acseAuthPassword'' = cq_acseAuthPassword q"
    using optional_back items given by blast+
  moreover have "(zero_request (cq_type q) (cq_requestId q))\<lparr>cq_host := Some h, cq_interfaceId := Some f,
      cq_mmsPort := cq_mmsPort q, cq_iedName := cq_iedName q, cq_sclFilePath := cq_sclFilePath q,
      cq_acseAuthPassword := cq_acseAuthPassword q, cq_accessMode := cq_accessMode q,
      cq_lnCategoryFilter := cq_lnCategoryFilter q\<rparr> = q"
    using given(8) hf assms(2) by (cases q) (simp add: zero_request_def)
  ultimately show ?thesis
    using given(4) hf
    by (cases "cq_sclFilePath q") (simp_all add: parseStartReportingParams_def Let_def items safeStringDup_def del: get_item.simps)
qed

lemma other_params_back:
  assumes "request_ok q" and "cq_type q \<noteq> CONTROL_REQ_START_REPORTING"
  shows "parse_params (\<lambda>_. True) (cq_type q) (CJ_Object (params_json q)) (zero_request (cq_type q) (cq_requestId q))
    = Some (CONTROL_PARSE_OK, q)"
proof (cases "cq_type q")
  case CONTROL_REQ_STOP_REPORTING
  then show ?thesis
    using assms int_of_num [of "cq_mmsPort q"] u64_of_num [of "cq_deviceId q"] double_not_negative [of "uint (cq_deviceId q)"]
    by (cases q; cases "cq_host q")
      (auto simp: request_ok_def parse_params_def parseStopReportingParams_def params_json_def Let_def tryGetInt_def
        safeStringDup_def zero_request_def opt_member_def)
next
  case CONTROL_REQ_START_SCAN
  obtain f where f: "cq_interfaceId q = Some f" "f \<noteq> []"
    using assms CONTROL_REQ_START_SCAN by (auto simp: request_ok_def text_given_def)
  have lt: "uint (cq_sweepIntervalMs q) < 2 ^ 31"
    using assms CONTROL_REQ_START_SCAN by (simp add: request_ok_def word_less_def)
  have "int_of_double (double_of (uint (cq_sweepIntervalMs q))) = Some (uint (cq_sweepIntervalMs q))"
    using lt uint_nonnegative [of "cq_sweepIntervalMs q"]
    by (intro int_of_num) (simp add: c_int_range_def)
  then show ?thesis
    using assms CONTROL_REQ_START_SCAN int_of_num [of "cq_mmsPort q"] f
    by (cases q) (auto simp: request_ok_def parse_params_def parseStartScanParams_def params_json_def Let_def tryGetInt_def
        safeStringDup_def zero_request_def opt_member_def uint_positive)
next
  case CONTROL_REQ_STOP_SCAN
  then show ?thesis
    using assms u64_of_num [of "cq_scanId q"] double_not_negative [of "uint (cq_scanId q)"]
    by (cases q) (auto simp: request_ok_def parse_params_def parseStopScanParams_def params_json_def zero_request_def)
qed (use assms in simp)



end
