(* ===== verification/Port_Allocator.thy ===== *)
theory Port_Allocator
  imports Prelude
begin

text \<open>
  \<open>device_manager/data/device_manager_port_allocator.c\<close>: websocket ports of a configured range,
  issued in order and recycled through a stack of freed ports. The locale \<open>port_pool\<close> is the
  contract the device registry relies on, stated against the set of ports in use.
\<close>

record port_allocator =
  pa_rangeStart :: u16
  pa_rangeEnd :: u16
  pa_nextUnissued :: u32
  pa_freeList :: "u16 list" \<comment> \<open>the first \<open>freeCount\<close> elements; the top of the stack is last\<close>
  pa_freeCapacity :: nat

definition DeviceManagerPortAllocator_create :: "bool \<Rightarrow> u16 \<Rightarrow> u16 \<Rightarrow> port_allocator option" where
  "DeviceManagerPortAllocator_create okAlloc rangeStart rangeEnd =
     (if rangeStart > rangeEnd then None
      else if \<not> okAlloc then None
      else Some \<lparr>pa_rangeStart = rangeStart, pa_rangeEnd = rangeEnd,
                 pa_nextUnissued = ucast rangeStart, pa_freeList = [], pa_freeCapacity = 0\<rparr>)"

definition DeviceManagerPortAllocator_alloc :: "port_allocator \<Rightarrow> u16 option \<times> port_allocator" where
  "DeviceManagerPortAllocator_alloc a =
     (if pa_freeList a \<noteq> [] then
        (Some (last (pa_freeList a)), a\<lparr>pa_freeList := butlast (pa_freeList a)\<rparr>)
      else if pa_nextUnissued a > ucast (pa_rangeEnd a) then (None, a)
      else (Some (ucast (pa_nextUnissued a)), a\<lparr>pa_nextUnissued := pa_nextUnissued a + 1\<rparr>))"

text \<open>\<open>okGrow\<close>: the \<open>realloc\<close> of the free list, when one is needed, succeeds.\<close>

definition DeviceManagerPortAllocator_free :: "bool \<Rightarrow> port_allocator \<Rightarrow> u16 \<Rightarrow> port_allocator" where
  "DeviceManagerPortAllocator_free okGrow a port =
     (if length (pa_freeList a) \<ge> pa_freeCapacity a then
        if \<not> okGrow then a
        else a\<lparr>pa_freeCapacity := grown_capacity (pa_freeCapacity a),
               pa_freeList := pa_freeList a @ [port]\<rparr>
      else a\<lparr>pa_freeList := pa_freeList a @ [port]\<rparr>)"

section \<open>The contract\<close>

locale port_pool =
  fixes pinv :: "'p \<Rightarrow> u16 set \<Rightarrow> bool"
    and range :: "'p \<Rightarrow> u16 set"
    and palloc :: "'p \<Rightarrow> u16 option \<times> 'p"
    and pfree :: "bool \<Rightarrow> 'p \<Rightarrow> u16 \<Rightarrow> 'p"
  assumes pinv_range: "pinv p A \<Longrightarrow> A \<subseteq> range p"
    and palloc_Some: "pinv p A \<Longrightarrow> palloc p = (Some x, p') \<Longrightarrow>
      x \<notin> A \<and> pinv p' (insert x A) \<and> range p' = range p"
    and palloc_None: "palloc p = (None, p') \<Longrightarrow> p' = p"
    and pfree_inv: "pinv p A \<Longrightarrow> x \<in> A \<Longrightarrow> pinv (pfree ok p x) (A - {x}) \<and> range (pfree ok p x) = range p"
begin

lemma palloc_in_range: "pinv p A \<Longrightarrow> palloc p = (Some x, p') \<Longrightarrow> x \<in> range p"
  using palloc_Some [of p A x p'] pinv_range [of p' "insert x A"] by auto

lemma alloc_free_inv:
  assumes "pinv p A" and "palloc p = (Some x, p')"
  shows "pinv (pfree ok p' x) A"
  using palloc_Some [OF assms] pfree_inv [of p' "insert x A" x ok] by simp

end

section \<open>The allocator meets it\<close>

definition pa_issued :: "port_allocator \<Rightarrow> u16 set" where
  "pa_issued a = {p. pa_rangeStart a \<le> p \<and> unat p < unat (pa_nextUnissued a)}"

definition pa_range :: "port_allocator \<Rightarrow> u16 set" where
  "pa_range a = {pa_rangeStart a .. pa_rangeEnd a}"

text \<open>
  \<open>A\<close> is the set of ports in use. A port the free list could not take back (out of memory) is
  in neither set: it is lost, never issued twice.
\<close>

definition pa_inv :: "port_allocator \<Rightarrow> u16 set \<Rightarrow> bool" where
  "pa_inv a A \<longleftrightarrow> unat (pa_rangeStart a) \<le> unat (pa_nextUnissued a)
     \<and> unat (pa_nextUnissued a) \<le> unat (pa_rangeEnd a) + 1
     \<and> distinct (pa_freeList a) \<and> set (pa_freeList a) \<inter> A = {}
     \<and> set (pa_freeList a) \<union> A \<subseteq> pa_issued a"

text \<open>No port was lost: every issued port is free or in use.\<close>

definition pa_full :: "port_allocator \<Rightarrow> u16 set \<Rightarrow> bool" where
  "pa_full a A \<longleftrightarrow> pa_inv a A \<and> set (pa_freeList a) \<union> A = pa_issued a"

lemma unat_u16_less: "unat (w :: u16) < 2 ^ 16"
  using unsigned_less [of w, where ?'a = nat] by simp

lemma unat_ucast_u16_u32 [simp]: "unat (ucast (p :: u16) :: u32) = unat p"
  by (simp add: unsigned_ucast_eq take_bit_nat_eq_self less_trans [OF unat_u16_less])

lemma pa_issued_range: "pa_inv a A \<Longrightarrow> pa_issued a \<subseteq> pa_range a"
  by (auto simp: pa_inv_def pa_issued_def pa_range_def word_le_nat_alt)

lemma pa_next_step:
  assumes "pa_inv a A" and "\<not> pa_nextUnissued a > ucast (pa_rangeEnd a)"
  shows "unat (pa_nextUnissued a) \<le> unat (pa_rangeEnd a)"
    and "unat (ucast (pa_nextUnissued a) :: u16) = unat (pa_nextUnissued a)"
    and "unat (pa_nextUnissued a + 1) = Suc (unat (pa_nextUnissued a))"
proof -
  show le: "unat (pa_nextUnissued a) \<le> unat (pa_rangeEnd a)"
    using assms(2) by (simp add: word_less_nat_alt not_less)
  with unat_u16_less [of "pa_rangeEnd a"] have lt: "unat (pa_nextUnissued a) < 2 ^ 16" by simp
  then show "unat (ucast (pa_nextUnissued a) :: u16) = unat (pa_nextUnissued a)"
    by (simp add: unsigned_ucast_eq take_bit_nat_eq_self)
  from lt show "unat (pa_nextUnissued a + 1) = Suc (unat (pa_nextUnissued a))"
    by (simp add: unat_word_ariths)
qed

lemma pa_issued_Suc:
  assumes "pa_inv a A" and "\<not> pa_nextUnissued a > ucast (pa_rangeEnd a)"
  shows "pa_issued (a\<lparr>pa_nextUnissued := pa_nextUnissued a + 1\<rparr>)
    = insert (ucast (pa_nextUnissued a)) (pa_issued a)"
  using pa_next_step [OF assms] assms(1)
  by (auto simp: pa_issued_def pa_inv_def word_le_nat_alt less_Suc_eq word_unat_eq_iff)

lemma pa_alloc_inv:
  assumes "pa_inv a A" and "DeviceManagerPortAllocator_alloc a = (Some x, a')"
  shows "x \<notin> A \<and> pa_inv a' (insert x A)"
proof (cases "pa_freeList a")
  case Nil
  then have nu: "\<not> pa_nextUnissued a > ucast (pa_rangeEnd a)" and
    x: "x = ucast (pa_nextUnissued a)" and a': "a' = a\<lparr>pa_nextUnissued := pa_nextUnissued a + 1\<rparr>"
    using assms(2) by (auto simp: DeviceManagerPortAllocator_alloc_def split: if_splits)
  have fresh: "x \<notin> pa_issued a" using pa_next_step [OF assms(1) nu] by (simp add: x pa_issued_def)
  have "pa_inv a' (insert x A)"
    using assms(1) pa_issued_Suc [OF assms(1) nu] pa_next_step [OF assms(1) nu] Nil
    by (auto simp: a' x pa_inv_def)
  with fresh assms(1) show ?thesis by (auto simp: pa_inv_def)
next
  case (Cons y ys)
  then have x: "x = last (pa_freeList a)" and a': "a' = a\<lparr>pa_freeList := butlast (pa_freeList a)\<rparr>"
    using assms(2) by (auto simp: DeviceManagerPortAllocator_alloc_def)
  have ne: "pa_freeList a \<noteq> []" using Cons by simp
  have d: "distinct (pa_freeList a)" using assms(1) by (simp add: pa_inv_def)
  show ?thesis
    using assms(1) set_butlast_last [OF ne] last_notin_butlast [OF d ne] distinct_butlast [OF d]
    by (auto simp: a' x pa_inv_def pa_issued_def)
qed

lemma pa_free_inv:
  assumes "pa_inv a A" and "x \<in> A"
  shows "pa_inv (DeviceManagerPortAllocator_free ok a x) (A - {x})"
  using assms by (auto simp: DeviceManagerPortAllocator_free_def pa_inv_def pa_issued_def)

lemma pa_frame [simp]:
  "pa_range (snd (DeviceManagerPortAllocator_alloc a)) = pa_range a"
  "pa_range (DeviceManagerPortAllocator_free ok a x) = pa_range a"
  by (auto simp: DeviceManagerPortAllocator_alloc_def DeviceManagerPortAllocator_free_def pa_range_def)

interpretation dmp: port_pool pa_inv pa_range DeviceManagerPortAllocator_alloc
  DeviceManagerPortAllocator_free
proof (unfold_locales, goal_cases)
  case (1 p A)
  then show ?case using pa_issued_range [of p A] by (auto simp: pa_inv_def)
next
  case (2 p A x p')
  then show ?case using pa_alloc_inv [of p A x p'] pa_frame(1) [of p] by simp
next
  case (3 p p')
  then show ?case by (auto simp: DeviceManagerPortAllocator_alloc_def split: if_splits)
next
  case (4 p A x ok)
  then show ?case by (simp add: pa_free_inv)
qed

lemma pa_create_full:
  "DeviceManagerPortAllocator_create ok s e = Some a \<Longrightarrow> pa_full a {} \<and> pa_range a = {s..e}"
  by (auto simp: DeviceManagerPortAllocator_create_def pa_full_def pa_inv_def pa_issued_def
      pa_range_def word_le_nat_alt not_less le_trans split: if_splits)

lemma pa_alloc_full:
  assumes "pa_full a A" and "DeviceManagerPortAllocator_alloc a = (Some x, a')"
  shows "pa_full a' (insert x A)"
proof -
  have inv: "pa_inv a A" using assms(1) by (simp add: pa_full_def)
  have inv': "pa_inv a' (insert x A)" using pa_alloc_inv [OF inv assms(2)] by simp
  have "set (pa_freeList a') \<union> insert x A = pa_issued a'"
  proof (cases "pa_freeList a = []")
    case True
    then have nu: "\<not> pa_nextUnissued a > ucast (pa_rangeEnd a)" and
      x: "x = ucast (pa_nextUnissued a)" and a': "a' = a\<lparr>pa_nextUnissued := pa_nextUnissued a + 1\<rparr>"
      using assms(2) by (auto simp: DeviceManagerPortAllocator_alloc_def split: if_splits)
    have "A = pa_issued a" using assms(1) True by (simp add: pa_full_def)
    then show ?thesis using True unfolding a' pa_issued_Suc [OF inv nu] x by simp
  next
    case False
    then have x: "x = last (pa_freeList a)"
      and a': "a' = a\<lparr>pa_freeList := butlast (pa_freeList a)\<rparr>"
      using assms(2) by (auto simp: DeviceManagerPortAllocator_alloc_def)
    have "set (pa_freeList a) \<union> A = pa_issued a" using assms(1) by (simp add: pa_full_def)
    then have "insert x (set (butlast (pa_freeList a))) \<union> A = pa_issued a"
      unfolding x set_butlast_last [OF False] .
    then show ?thesis unfolding a' by (simp add: pa_issued_def)
  qed
  with inv' show ?thesis by (simp add: pa_full_def)
qed

lemma pa_free_full:
  assumes "pa_full a A" and "x \<in> A"
  shows "pa_full (DeviceManagerPortAllocator_free True a x) (A - {x})"
  using assms pa_free_inv [of a A x True]
  by (auto simp: pa_full_def DeviceManagerPortAllocator_free_def pa_issued_def)

text \<open>With no port lost, allocation fails only when the whole range is in use.\<close>

lemma pa_alloc_None_iff:
  assumes "pa_full a A"
  shows "fst (DeviceManagerPortAllocator_alloc a) = None \<longleftrightarrow> A = pa_range a"
proof
  assume "fst (DeviceManagerPortAllocator_alloc a) = None"
  then have "pa_freeList a = []" "pa_nextUnissued a > ucast (pa_rangeEnd a)"
    by (auto simp: DeviceManagerPortAllocator_alloc_def split: if_splits)
  then show "A = pa_range a"
    using assms by (auto simp: pa_full_def pa_inv_def pa_issued_def pa_range_def word_le_nat_alt word_less_nat_alt)
next
  assume A: "A = pa_range a"
  show "fst (DeviceManagerPortAllocator_alloc a) = None"
  proof (cases "DeviceManagerPortAllocator_alloc a")
    case (Pair r a')
    show ?thesis
    proof (cases r)
      case None
      with Pair show ?thesis by simp
    next
      case (Some x)
      with Pair have al: "DeviceManagerPortAllocator_alloc a = (Some x, a')" by simp
      have inv: "pa_inv a A" using assms by (simp add: pa_full_def)
      from dmp.palloc_Some [OF inv al] dmp.palloc_in_range [OF inv al] A show ?thesis by simp
    qed
  qed
qed

end
