(* ===== verification/Device_Registry.thy ===== *)
theory Device_Registry
  imports Port_Allocator
begin

text \<open>
  \<open>device_manager/data/device_manager_registry.c\<close>: the table of monitored devices. Every
  operation is one critical section of the registry's lock, so a run of the system is a
  sequence of operations by any number of threads. \<open>'h\<close> is the type of orchestration
  handles. The registry and its allocator are never NULL here: \<open>DeviceManager_create\<close>
  gives out no handle without them.
\<close>

section \<open>State and operations\<close>

datatype DeviceManagerError =
    DEVICE_MANAGER_OK
  | DEVICE_MANAGER_ERR_INVALID_ARGUMENT
  | DEVICE_MANAGER_ERR_OUT_OF_MEMORY
  | DEVICE_MANAGER_ERR_PORT_EXHAUSTED
  | DEVICE_MANAGER_ERR_HOST_ALREADY_RUNNING
  | DEVICE_MANAGER_ERR_ORCHESTRATION_FAILED
  | DEVICE_MANAGER_ERR_DEVICE_NOT_FOUND
  | DEVICE_MANAGER_ERR_START_IN_PROGRESS

record 'h dev_entry =
  de_deviceId :: u64
  de_wsPort :: u16
  de_running :: bool
  de_host :: "string option"
  de_mmsPort :: int
  de_ownedAcseAuthPassword :: "string option"
  de_orchestrationHandle :: "'h option"

record 'h dev_registry =
  dr_entries :: "'h dev_entry list" \<comment> \<open>the first \<open>count\<close> elements of the array\<close>
  dr_capacity :: nat
  dr_nextDeviceId :: u64
  dr_ports :: port_allocator

definition DeviceManagerRegistry_create ::
    "bool \<Rightarrow> bool \<Rightarrow> bool \<Rightarrow> u16 \<Rightarrow> u16 \<Rightarrow> 'h dev_registry option" where
  "DeviceManagerRegistry_create okReg okLock okPorts s e =
     (if \<not> okReg then None
      else if \<not> okLock then None
      else case DeviceManagerPortAllocator_create okPorts s e of
        None \<Rightarrow> None
      | Some ports \<Rightarrow> Some \<lparr>dr_entries = [], dr_capacity = 0, dr_nextDeviceId = 1, dr_ports = ports\<rparr>)"

text \<open>\<open>okGrow\<close>: the \<open>realloc\<close> of the entry array, when one is needed, succeeds.\<close>

definition appendEntry :: "bool \<Rightarrow> 'h dev_registry \<Rightarrow> 'h dev_entry \<Rightarrow> bool \<times> 'h dev_registry" where
  "appendEntry okGrow reg e =
     (if length (dr_entries reg) \<ge> dr_capacity reg then
        if \<not> okGrow then (False, reg)
        else (True, reg\<lparr>dr_capacity := grown_capacity (dr_capacity reg),
                        dr_entries := dr_entries reg @ [e]\<rparr>)
      else (True, reg\<lparr>dr_entries := dr_entries reg @ [e]\<rparr>))"

definition entry_at :: "string \<Rightarrow> int \<Rightarrow> 'h dev_entry \<Rightarrow> bool" where
  "entry_at host mmsPort e \<longleftrightarrow> de_mmsPort e = mmsPort \<and> de_host e = Some host"

definition hostAlreadyActive :: "'h dev_registry \<Rightarrow> string \<Rightarrow> int \<Rightarrow> bool" where
  "hostAlreadyActive reg host mmsPort \<longleftrightarrow> find_index (entry_at host mmsPort) (dr_entries reg) \<noteq> None"

definition findIndexByDeviceId :: "'h dev_registry \<Rightarrow> u64 \<Rightarrow> nat option" where
  "findIndexByDeviceId reg deviceId = find_index (\<lambda>e. de_deviceId e = deviceId) (dr_entries reg)"

text \<open>
  \<open>reserve\<close>, with its allocations: the copies of host and password, the entry array, and the
  free list of the allocator on the paths that give the port back. The outputs are the
  device id, the port and the registry's own copy of the password.
\<close>

definition DeviceManagerRegistry_reserve ::
    "bool \<Rightarrow> bool \<Rightarrow> bool \<Rightarrow> bool \<Rightarrow> 'h dev_registry \<Rightarrow> string option \<Rightarrow> int \<Rightarrow> string option
     \<Rightarrow> DeviceManagerError \<times> (u64 \<times> u16 \<times> string option) option \<times> 'h dev_registry" where
  "DeviceManagerRegistry_reserve okHost okPwd okGrow okFree reg host mmsPort acseAuthPassword =
     (case host of
        None \<Rightarrow> (DEVICE_MANAGER_ERR_INVALID_ARGUMENT, None, reg)
      | Some h \<Rightarrow>
          if hostAlreadyActive reg h mmsPort then (DEVICE_MANAGER_ERR_HOST_ALREADY_RUNNING, None, reg)
          else case DeviceManagerPortAllocator_alloc (dr_ports reg) of
            (None, _) \<Rightarrow> (DEVICE_MANAGER_ERR_PORT_EXHAUSTED, None, reg)
          | (Some port, ports) \<Rightarrow>
              let giveBack = reg\<lparr>dr_ports := DeviceManagerPortAllocator_free okFree ports port\<rparr> in
              if \<not> okHost \<or> (acseAuthPassword \<noteq> None \<and> \<not> okPwd) then
                (DEVICE_MANAGER_ERR_OUT_OF_MEMORY, None, giveBack)
              else
                let entry = \<lparr>de_deviceId = dr_nextDeviceId reg, de_wsPort = port, de_running = False,
                             de_host = Some h, de_mmsPort = mmsPort,
                             de_ownedAcseAuthPassword = acseAuthPassword,
                             de_orchestrationHandle = None\<rparr>;
                    (appended, reg') = appendEntry okGrow (reg\<lparr>dr_ports := ports\<rparr>) entry
                in if \<not> appended then (DEVICE_MANAGER_ERR_OUT_OF_MEMORY, None, giveBack)
                   else (DEVICE_MANAGER_OK, Some (dr_nextDeviceId reg, port, acseAuthPassword),
                         reg'\<lparr>dr_nextDeviceId := dr_nextDeviceId reg + 1\<rparr>))"

definition DeviceManagerRegistry_finalize :: "'h dev_registry \<Rightarrow> u64 \<Rightarrow> 'h \<Rightarrow> 'h dev_registry" where
  "DeviceManagerRegistry_finalize reg deviceId handle =
     (case findIndexByDeviceId reg deviceId of
        None \<Rightarrow> reg
      | Some i \<Rightarrow> reg\<lparr>dr_entries := (dr_entries reg)[i := (dr_entries reg ! i)
                    \<lparr>de_orchestrationHandle := Some handle, de_running := True\<rparr>]\<rparr>)"

definition DeviceManagerRegistry_rollback :: "bool \<Rightarrow> 'h dev_registry \<Rightarrow> u64 \<Rightarrow> 'h dev_registry" where
  "DeviceManagerRegistry_rollback okFree reg deviceId =
     (case findIndexByDeviceId reg deviceId of
        None \<Rightarrow> reg
      | Some i \<Rightarrow> reg\<lparr>dr_ports := DeviceManagerPortAllocator_free okFree (dr_ports reg)
                       (de_wsPort (dr_entries reg ! i)),
                     dr_entries := swap_remove (dr_entries reg) i\<rparr>)"

text \<open>
  On success the entry leaves the table and its handle, port, host and password go to the
  caller; the port stays allocated until \<open>freePort\<close>.
\<close>

definition DeviceManagerRegistry_removeIfRunning ::
    "'h dev_registry \<Rightarrow> u64 \<Rightarrow> DeviceManagerError \<times> 'h dev_entry option \<times> 'h dev_registry" where
  "DeviceManagerRegistry_removeIfRunning reg deviceId =
     (case findIndexByDeviceId reg deviceId of
        None \<Rightarrow> (DEVICE_MANAGER_ERR_DEVICE_NOT_FOUND, None, reg)
      | Some i \<Rightarrow>
          if \<not> de_running (dr_entries reg ! i) then (DEVICE_MANAGER_ERR_START_IN_PROGRESS, None, reg)
          else (DEVICE_MANAGER_OK, Some (dr_entries reg ! i),
                reg\<lparr>dr_entries := swap_remove (dr_entries reg) i\<rparr>))"

definition DeviceManagerRegistry_freePort :: "bool \<Rightarrow> 'h dev_registry \<Rightarrow> u16 \<Rightarrow> 'h dev_registry" where
  "DeviceManagerRegistry_freePort okFree reg port =
     reg\<lparr>dr_ports := DeviceManagerPortAllocator_free okFree (dr_ports reg) port\<rparr>"

definition DeviceManagerRegistry_findDeviceIdByHost ::
    "'h dev_registry \<Rightarrow> string option \<Rightarrow> int \<Rightarrow> u64 option" where
  "DeviceManagerRegistry_findDeviceIdByHost reg host mmsPort =
     (case host of
        None \<Rightarrow> None
      | Some h \<Rightarrow> map_option (\<lambda>i. de_deviceId (dr_entries reg ! i))
                    (find_index (entry_at h mmsPort) (dr_entries reg)))"

definition DeviceManagerRegistry_anyRunningDeviceId :: "'h dev_registry \<Rightarrow> u64" where
  "DeviceManagerRegistry_anyRunningDeviceId reg =
     (case find_index de_running (dr_entries reg) of
        None \<Rightarrow> 0
      | Some i \<Rightarrow> de_deviceId (dr_entries reg ! i))"

text \<open>The strings \<open>destroy\<close> frees, host and password of every entry.\<close>

definition DeviceManagerRegistry_destroy :: "'h dev_registry option \<Rightarrow> (string option \<times> string option) list" where
  "DeviceManagerRegistry_destroy registry =
     (case registry of
        None \<Rightarrow> []
      | Some reg \<Rightarrow> map (\<lambda>e. (de_host e, de_ownedAcseAuthPassword e)) (dr_entries reg))"

declare DeviceManagerRegistry_reserve_def [reg_simps]
  and DeviceManagerRegistry_finalize_def [reg_simps]
  and DeviceManagerRegistry_rollback_def [reg_simps]
  and DeviceManagerRegistry_removeIfRunning_def [reg_simps]
  and DeviceManagerRegistry_freePort_def [reg_simps]

section \<open>Invariant\<close>

abbreviation ids_of :: "'h dev_registry \<Rightarrow> u64 list" where
  "ids_of reg \<equiv> map de_deviceId (dr_entries reg)"

abbreviation ports_of :: "'h dev_registry \<Rightarrow> u16 list" where
  "ports_of reg \<equiv> map de_wsPort (dr_entries reg)"

abbreviation addresses_of :: "'h dev_registry \<Rightarrow> (string option \<times> int) list" where
  "addresses_of reg \<equiv> map (\<lambda>e. (de_host e, de_mmsPort e)) (dr_entries reg)"

text \<open>
  \<open>F\<close> holds the ports of devices being stopped: taken out of the table by
  \<open>removeIfRunning\<close> and not yet returned by \<open>freePort\<close>.
\<close>

definition dr_inv :: "'h dev_registry \<Rightarrow> u16 set \<Rightarrow> bool" where
  "dr_inv reg F \<longleftrightarrow>
     distinct (ids_of reg) \<and> (\<forall>d \<in> set (ids_of reg). 0 < d \<and> d < dr_nextDeviceId reg)
     \<and> 0 < dr_nextDeviceId reg
     \<and> distinct (ports_of reg) \<and> set (ports_of reg) \<inter> F = {}
     \<and> pa_inv (dr_ports reg) (set (ports_of reg) \<union> F)
     \<and> distinct (addresses_of reg)
     \<and> (\<forall>e \<in> set (dr_entries reg). de_host e \<noteq> None \<and> (de_running e \<longleftrightarrow> de_orchestrationHandle e \<noteq> None))"

lemma dr_create_inv:
  "DeviceManagerRegistry_create o1 o2 o3 s e = Some reg \<Longrightarrow>
     dr_inv reg {} \<and> pa_full (dr_ports reg) {} \<and> pa_range (dr_ports reg) = {s..e}
     \<and> dr_nextDeviceId reg = 1 \<and> dr_entries reg = []"
  using pa_create_full [of o3 s e]
  by (auto simp: DeviceManagerRegistry_create_def dr_inv_def pa_full_def split: if_splits option.splits)

lemma find_address_iff:
  "find_index (entry_at h m) (dr_entries reg) \<noteq> None \<longleftrightarrow> (Some h, m) \<in> set (addresses_of reg)"
  by (auto simp: entry_at_def image_iff) (metis)

text \<open>What each outcome of \<open>reserve\<close> does to the table and the ports.\<close>

lemma reserve_ok_shape:
  assumes "DeviceManagerRegistry_reserve o1 o2 o3 o4 reg host m pw = (DEVICE_MANAGER_OK, out, reg')"
  shows "\<exists>h port ports. host = Some h \<and> (Some h, m) \<notin> set (addresses_of reg)
    \<and> DeviceManagerPortAllocator_alloc (dr_ports reg) = (Some port, ports)
    \<and> out = Some (dr_nextDeviceId reg, port, pw)
    \<and> dr_ports reg' = ports \<and> dr_nextDeviceId reg' = dr_nextDeviceId reg + 1
    \<and> dr_entries reg' = dr_entries reg @ [\<lparr>de_deviceId = dr_nextDeviceId reg, de_wsPort = port,
        de_running = False, de_host = Some h, de_mmsPort = m, de_ownedAcseAuthPassword = pw,
        de_orchestrationHandle = None\<rparr>]"
  using assms find_address_iff [of _ m reg]
  by (auto simp: reg_simps hostAlreadyActive_def appendEntry_def Let_def
      split: option.splits prod.splits if_splits)

lemma reserve_fail_shape:
  assumes "DeviceManagerRegistry_reserve o1 o2 o3 o4 reg host m pw = (err, out, reg')"
    and "err \<noteq> DEVICE_MANAGER_OK"
  shows "out = None \<and> (reg' = reg \<or> (\<exists>port ports.
      DeviceManagerPortAllocator_alloc (dr_ports reg) = (Some port, ports)
      \<and> reg' = reg\<lparr>dr_ports := DeviceManagerPortAllocator_free o4 ports port\<rparr>))"
  using assms
  by (auto simp: reg_simps Let_def split: option.splits prod.splits if_splits)

lemma reserve_inv:
  assumes "dr_inv reg F" and "DeviceManagerRegistry_reserve o1 o2 o3 o4 reg host m pw = (err, out, reg')"
    and "err = DEVICE_MANAGER_OK \<Longrightarrow> Suc (unat (dr_nextDeviceId reg)) < 2 ^ 64"
  shows "dr_inv reg' F"
proof (cases "err = DEVICE_MANAGER_OK")
  case True
  with assms(2) have "DeviceManagerRegistry_reserve o1 o2 o3 o4 reg host m pw
      = (DEVICE_MANAGER_OK, out, reg')" by simp
  then obtain h port ports where s: "(Some h, m) \<notin> set (addresses_of reg)"
    "DeviceManagerPortAllocator_alloc (dr_ports reg) = (Some port, ports)"
    "dr_ports reg' = ports" "dr_nextDeviceId reg' = dr_nextDeviceId reg + 1"
    "dr_entries reg' = dr_entries reg @ [\<lparr>de_deviceId = dr_nextDeviceId reg, de_wsPort = port,
        de_running = False, de_host = Some h, de_mmsPort = m, de_ownedAcseAuthPassword = pw,
        de_orchestrationHandle = None\<rparr>]"
    using reserve_ok_shape by blast
  have pinv: "pa_inv (dr_ports reg) (set (ports_of reg) \<union> F)" using assms(1) by (simp add: dr_inv_def)
  have p: "port \<notin> set (ports_of reg) \<union> F" "pa_inv ports (insert port (set (ports_of reg) \<union> F))"
    using dmp.palloc_Some [OF pinv s(2)] by auto
  have n: "unat (dr_nextDeviceId reg + 1) = Suc (unat (dr_nextDeviceId reg))"
    using assms(3) True by (simp add: unat_word_ariths)
  have lt: "d < dr_nextDeviceId reg \<Longrightarrow> d < dr_nextDeviceId reg + 1" for d
    using n by (simp add: word_less_nat_alt)
  have "dr_nextDeviceId reg \<notin> set (ids_of reg)" using assms(1) by (auto simp: dr_inv_def)
  then show ?thesis
    using assms(1) s(1) p n lt
    by (auto simp: dr_inv_def s(3,4,5) word_less_nat_alt)
next
  case False
  from reserve_fail_shape [OF assms(2) False]
  consider "reg' = reg" | port ports where
    "DeviceManagerPortAllocator_alloc (dr_ports reg) = (Some port, ports)"
    "reg' = reg\<lparr>dr_ports := DeviceManagerPortAllocator_free o4 ports port\<rparr>" by blast
  then show ?thesis
  proof cases
    case 1
    with assms(1) show ?thesis by simp
  next
    case 2
    have "pa_inv (dr_ports reg) (set (ports_of reg) \<union> F)" using assms(1) by (simp add: dr_inv_def)
    from dmp.alloc_free_inv [OF this 2(1)] assms(1) 2(2) show ?thesis by (simp add: dr_inv_def)
  qed
qed

lemma findIndexByDeviceId_SomeD:
  "findIndexByDeviceId reg d = Some i \<Longrightarrow>
     i < length (dr_entries reg) \<and> de_deviceId (dr_entries reg ! i) = d"
  unfolding findIndexByDeviceId_def by (drule find_index_SomeD) simp

lemma finalize_inv:
  assumes "dr_inv reg F"
  shows "dr_inv (DeviceManagerRegistry_finalize reg d hdl) F"
proof (cases "findIndexByDeviceId reg d")
  case None
  with assms show ?thesis by (simp add: reg_simps)
next
  case (Some i)
  then have i: "i < length (dr_entries reg)" by (simp add: findIndexByDeviceId_SomeD)
  let ?e = "(dr_entries reg ! i)\<lparr>de_orchestrationHandle := Some hdl, de_running := True\<rparr>"
  have same: "map f ((dr_entries reg)[i := ?e]) = map f (dr_entries reg)"
    if "f ?e = f (dr_entries reg ! i)" for f :: "'a dev_entry \<Rightarrow> 'b"
    using i that by (simp add: map_update list_update_same_conv [THEN iffD2])
  define reg' where "reg' = DeviceManagerRegistry_finalize reg d hdl"
  have keep: "ids_of reg' = ids_of reg" "ports_of reg' = ports_of reg"
    "addresses_of reg' = addresses_of reg" "dr_nextDeviceId reg' = dr_nextDeviceId reg"
    "dr_ports reg' = dr_ports reg"
    using Some by (simp_all add: reg'_def reg_simps same)
  have "e = ?e \<or> e \<in> set (dr_entries reg)" if "e \<in> set (dr_entries reg')" for e
    using that Some set_update_subset_insert [of "dr_entries reg" i ?e] by (auto simp: reg'_def reg_simps)
  moreover have old: "\<forall>e \<in> set (dr_entries reg). de_host e \<noteq> None
      \<and> (de_running e \<longleftrightarrow> de_orchestrationHandle e \<noteq> None)"
    using assms by (simp add: dr_inv_def)
  moreover have "de_host ?e \<noteq> None \<and> (de_running ?e \<longleftrightarrow> de_orchestrationHandle ?e \<noteq> None)"
    using old nth_mem [OF i] by simp
  ultimately have "\<forall>e \<in> set (dr_entries reg'). de_host e \<noteq> None
      \<and> (de_running e \<longleftrightarrow> de_orchestrationHandle e \<noteq> None)"
    by blast
  then show ?thesis
    using assms unfolding reg'_def [symmetric] dr_inv_def keep by blast
qed

text \<open>Taking entry \<open>i\<close> out of the table keeps everything but its port.\<close>

lemma remove_entry_inv:
  assumes "dr_inv reg F" and "i < length (dr_entries reg)"
  shows "dr_inv (reg\<lparr>dr_entries := swap_remove (dr_entries reg) i\<rparr>)
    (insert (de_wsPort (dr_entries reg ! i)) F)"
    (is "dr_inv ?reg' (insert ?p F)")
proof -
  let ?es = "dr_entries reg"
  have dist: "distinct (ids_of reg)" "distinct (ports_of reg)" "distinct (addresses_of reg)"
    using assms(1) by (simp_all add: dr_inv_def)
  have m: "map f (swap_remove ?es i) = swap_remove (map f ?es) i" for f :: "'a dev_entry \<Rightarrow> 'c"
    using assms(2) by (rule map_swap_remove)
  have il: "i < length (ids_of reg)" "i < length (ports_of reg)" "i < length (addresses_of reg)"
    using assms(2) by simp_all
  have ports: "distinct (ports_of ?reg')" "set (ports_of ?reg') = set (ports_of reg) - {?p}"
    using swap_remove_distinct [OF il(2) dist(2)] assms(2) by (simp_all add: m)
  have ids: "distinct (ids_of ?reg')" "set (ids_of ?reg') \<subseteq> set (ids_of reg)"
    using swap_remove_distinct [OF il(1) dist(1)] by (simp_all add: m)
  have addr: "distinct (addresses_of ?reg')"
    using swap_remove_distinct(1) [OF il(3) dist(3)] by (simp add: m)
  have "?p \<in> set (ports_of reg)" using assms(2) by simp
  then have "set (ports_of ?reg') \<union> insert ?p F = set (ports_of reg) \<union> F"
    using ports(2) by auto
  moreover have "set (dr_entries ?reg') \<subseteq> set ?es"
    using set_swap_remove_subset [OF assms(2)] by simp
  ultimately show ?thesis
    using assms(1) ports ids addr unfolding dr_inv_def
    by (simp add: subset_iff) blast
qed

lemma free_port_inv:
  assumes "dr_inv reg F" and "p \<in> F"
  shows "dr_inv (DeviceManagerRegistry_freePort ok reg p) (F - {p})"
proof -
  have "p \<in> set (ports_of reg) \<union> F" "p \<notin> set (ports_of reg)"
    and inv: "pa_inv (dr_ports reg) (set (ports_of reg) \<union> F)"
    using assms by (auto simp: dr_inv_def)
  moreover from this have "set (ports_of reg) \<union> F - {p} = set (ports_of reg) \<union> (F - {p})" by auto
  ultimately show ?thesis
    using assms(1) dmp.pfree_inv [OF inv, of p ok] by (auto simp: reg_simps dr_inv_def)
qed

lemma rollback_as_remove_free:
  "findIndexByDeviceId reg d = Some i \<Longrightarrow> DeviceManagerRegistry_rollback ok reg d
     = DeviceManagerRegistry_freePort ok (reg\<lparr>dr_entries := swap_remove (dr_entries reg) i\<rparr>)
         (de_wsPort (dr_entries reg ! i))"
  by (simp add: reg_simps)

lemma rollback_inv:
  assumes "dr_inv reg F"
  shows "dr_inv (DeviceManagerRegistry_rollback ok reg d) F"
proof (cases "findIndexByDeviceId reg d")
  case None
  with assms show ?thesis by (simp add: reg_simps)
next
  case (Some i)
  let ?p = "de_wsPort (dr_entries reg ! i)"
  have i: "i < length (dr_entries reg)" using Some by (simp add: findIndexByDeviceId_SomeD)
  have "?p \<in> set (ports_of reg)" using i by simp
  then have "insert ?p F - {?p} = F" using assms by (auto simp: dr_inv_def)
  with free_port_inv [OF remove_entry_inv [OF assms i], of ?p ok] show ?thesis
    by (simp add: rollback_as_remove_free [OF Some])
qed

lemma removeIfRunning_inv:
  assumes "dr_inv reg F" and "DeviceManagerRegistry_removeIfRunning reg d = (err, out, reg')"
  shows "dr_inv reg' (case out of None \<Rightarrow> F | Some e \<Rightarrow> insert (de_wsPort e) F)"
  using assms remove_entry_inv [OF assms(1)] findIndexByDeviceId_SomeD [of reg d]
  by (auto simp: reg_simps split: option.splits if_splits)

end
