(* ===== verification/Client_Error.thy ===== *)
theory Client_Error
  imports Prelude
begin

text \<open>
  The error codes of libiec61850's client (\<open>IedClientError\<close>) the features tell apart; the
  others are \<open>IED_ERROR_other\<close>. An ACSE rejection of an association shows as
  \<open>IED_ERROR_CONNECTION_REJECTED\<close>, one of a file or data service as \<open>IED_ERROR_ACCESS_DENIED\<close>.
  Beside them, what became of a host that was asked for its SCL file, which the bootstrap, the
  orchestration and the device manager share.
\<close>

datatype IedClientError =
    IED_ERROR_OK | IED_ERROR_TEMPORARILY_UNAVAILABLE | IED_ERROR_ACCESS_DENIED
  | IED_ERROR_OBJECT_DOES_NOT_EXIST | IED_ERROR_OBJECT_ACCESS_UNSUPPORTED
  | IED_ERROR_SERVICE_NOT_SUPPORTED | IED_ERROR_SERVICE_NOT_IMPLEMENTED
  | IED_ERROR_OBJECT_REFERENCE_INVALID | IED_ERROR_OBJECT_ATTRIBUTE_INCONSISTENT
  | IED_ERROR_CONNECTION_REJECTED | IED_ERROR_OBJECT_EXISTS | IED_ERROR_UNKNOWN | IED_ERROR_other nat

datatype SclBootstrapCandidateStatus =
    SCL_BOOTSTRAP_CANDIDATE_NO_MMS_SERVER
  | SCL_BOOTSTRAP_CANDIDATE_MMS_CONNECT_FAILED
  | SCL_BOOTSTRAP_CANDIDATE_NO_SCL_FILE_FOUND
  | SCL_BOOTSTRAP_CANDIDATE_ACCESS_DENIED
  | SCL_BOOTSTRAP_CANDIDATE_DOWNLOAD_FAILED
  | SCL_BOOTSTRAP_CANDIDATE_FILE_RETRIEVED

text \<open>The test both connecting features make on the error of \<open>IedConnection_connect\<close>.\<close>

definition connect_denied :: "IedClientError \<Rightarrow> bool" where
  "connect_denied err \<longleftrightarrow> err = IED_ERROR_ACCESS_DENIED \<or> err = IED_ERROR_CONNECTION_REJECTED"

end
