(* ===== verification/Device_Manager.thy ===== *)
theory Device_Manager
  imports Device_Registry Ln_Category Client_Error
begin

text \<open>
  \<open>device_manager/service/device_manager_api.c\<close> and
  \<open>device_manager/domain/device_manager_bootstrap_policy.c\<close>: starting, stopping and tearing
  down the monitoring of devices over the registry. The orchestration services are an
  argument (\<open>orch_services\<close>): their answers are arbitrary. The slow part of a call runs
  without the registry lock; what other threads do to the registry meanwhile is the argument
  \<open>mid\<close> of the calls that have one, and \<open>id\<close> when nothing else runs.
\<close>

section \<open>Data\<close>

datatype OrchestrationError =
    ORCHESTRATION_OK
  | ORCHESTRATION_ERR_INVALID_ARGUMENT
  | ORCHESTRATION_ERR_OUT_OF_MEMORY
  | ORCHESTRATION_ERR_IPC_DISPATCHER_FAILED
  | ORCHESTRATION_ERR_BOOTSTRAP_FAILED
  | ORCHESTRATION_ERR_STAGING_FAILED
  | ORCHESTRATION_ERR_IED_NAME_RESOLUTION_FAILED
  | ORCHESTRATION_ERR_MODEL_LOAD_FAILED
  | ORCHESTRATION_ERR_REPORT_CLIENT_FAILED
  | ORCHESTRATION_ERR_GOOSE_SUBSCRIBER_FAILED
  | ORCHESTRATION_ERR_ONLINE_DISCOVERY_FAILED
  | ORCHESTRATION_ERR_NO_CAPABILITIES

record DeviceManagerConfig =
  cfg_wsPortRangeStart :: u16
  cfg_wsPortRangeEnd :: u16

text \<open>What a caller asks for; every string may be NULL.\<close>

record start_request =
  sr_host :: "string option"
  sr_mmsPort :: int
  sr_iedName :: "string option"
  sr_interfaceId :: "string option"
  sr_sclFilePath :: "string option"
  sr_acseAuthPassword :: "string option"
  sr_accessMode :: AccessMode
  sr_lnCategoryFilter :: u8

text \<open>The part of an orchestration run's outcome the device manager reads or passes on.\<close>

record run_outcome =
  ro_error :: OrchestrationError
  ro_lastCandidateStatus :: SclBootstrapCandidateStatus
  ro_mmsAvailable :: bool
  ro_gooseAvailable :: bool

record 'h orch_services =
  os_create :: "u16 \<Rightarrow> string option \<Rightarrow> 'h option \<times> OrchestrationError"
  os_runFromLocalFile :: "'h \<Rightarrow> start_request \<Rightarrow> run_outcome"
  os_run :: "'h \<Rightarrow> start_request \<Rightarrow> run_outcome"
  os_runFromOnlineDiscovery :: "'h \<Rightarrow> start_request \<Rightarrow> run_outcome"

section \<open>Operations\<close>

definition DeviceManagerConfig_defaults :: DeviceManagerConfig where
  "DeviceManagerConfig_defaults = \<lparr>cfg_wsPortRangeStart = 9000, cfg_wsPortRangeEnd = 9999\<rparr>"

definition DeviceManager_create ::
    "bool \<Rightarrow> bool \<Rightarrow> bool \<Rightarrow> bool \<Rightarrow> DeviceManagerConfig option
     \<Rightarrow> DeviceManagerError \<times> 'h dev_registry option" where
  "DeviceManager_create okHandle okReg okLock okPorts config =
     (if \<not> okHandle then (DEVICE_MANAGER_ERR_OUT_OF_MEMORY, None)
      else
        let cfg = (case config of Some c \<Rightarrow> c | None \<Rightarrow> DeviceManagerConfig_defaults) in
        if cfg_wsPortRangeStart cfg > cfg_wsPortRangeEnd cfg then
          (DEVICE_MANAGER_ERR_INVALID_ARGUMENT, None)
        else case DeviceManagerRegistry_create okReg okLock okPorts
                    (cfg_wsPortRangeStart cfg) (cfg_wsPortRangeEnd cfg) of
          None \<Rightarrow> (DEVICE_MANAGER_ERR_OUT_OF_MEMORY, None)
        | Some reg \<Rightarrow> (DEVICE_MANAGER_OK, Some reg))"

definition isEmpty :: "string option \<Rightarrow> bool" where
  "isEmpty s \<longleftrightarrow> s = None \<or> s = Some []"

definition effective :: "string option \<Rightarrow> string option" where
  "effective s = (if isEmpty s then None else s)"

definition DeviceManagerBootstrapPolicy_run ::
    "'h orch_services \<Rightarrow> 'h \<Rightarrow> start_request \<Rightarrow> run_outcome" where
  "DeviceManagerBootstrapPolicy_run S h req =
     (if sr_sclFilePath req \<noteq> None then os_runFromLocalFile S h req
      else
        let out = os_run S h req in
        if ro_error out = ORCHESTRATION_ERR_BOOTSTRAP_FAILED
           \<and> ro_lastCandidateStatus out = SCL_BOOTSTRAP_CANDIDATE_NO_SCL_FILE_FOUND
        then os_runFromOnlineDiscovery S h req
        else out)"

text \<open>
  The result is the error code, the device id and port on success, the orchestration error
  stored in \<open>outDetail\<close> (\<open>ORCHESTRATION_OK\<close> when it is only cleared) and the registry.
\<close>

definition DeviceManager_startReporting ::
    "'h orch_services \<Rightarrow> (bool \<times> bool \<times> bool \<times> bool) \<Rightarrow> ('h dev_registry \<Rightarrow> 'h dev_registry)
     \<Rightarrow> 'h dev_registry option \<Rightarrow> start_request
     \<Rightarrow> DeviceManagerError \<times> (u64 \<times> u16) option \<times> OrchestrationError \<times> 'h dev_registry option" where
  "DeviceManager_startReporting S ok mid handle req =
     (case handle of
        None \<Rightarrow> (DEVICE_MANAGER_ERR_INVALID_ARGUMENT, None, ORCHESTRATION_OK, None)
      | Some reg \<Rightarrow>
          if isEmpty (sr_host req) \<or> isEmpty (sr_interfaceId req) then
            (DEVICE_MANAGER_ERR_INVALID_ARGUMENT, None, ORCHESTRATION_OK, Some reg)
          else
            let req' = req\<lparr>sr_sclFilePath := effective (sr_sclFilePath req),
                           sr_iedName := effective (sr_iedName req),
                           sr_acseAuthPassword := effective (sr_acseAuthPassword req)\<rparr> in
            if sr_sclFilePath req' \<noteq> None \<and> sr_iedName req' = None then
              (DEVICE_MANAGER_ERR_INVALID_ARGUMENT, None, ORCHESTRATION_OK, Some reg)
            else
              let (okHost, okPwd, okGrow, okFree) = ok;
                  (err, out, reg1) = DeviceManagerRegistry_reserve okHost okPwd okGrow okFree reg
                     (sr_host req') (sr_mmsPort req') (sr_acseAuthPassword req')
              in case out of
                None \<Rightarrow> (err, None, ORCHESTRATION_OK, Some reg1)
              | Some (deviceId, wsPort, ownedPwd) \<Rightarrow>
                  (case os_create S wsPort ownedPwd of
                     (None, createError) \<Rightarrow>
                       (DEVICE_MANAGER_ERR_ORCHESTRATION_FAILED, None, createError,
                        Some (DeviceManagerRegistry_rollback okFree (mid reg1) deviceId))
                   | (Some h, _) \<Rightarrow>
                       let run = DeviceManagerBootstrapPolicy_run S h req' in
                       if ro_error run \<noteq> ORCHESTRATION_OK then
                         (DEVICE_MANAGER_ERR_ORCHESTRATION_FAILED, None, ro_error run,
                          Some (DeviceManagerRegistry_rollback okFree (mid reg1) deviceId))
                       else
                         (DEVICE_MANAGER_OK, Some (deviceId, wsPort), ORCHESTRATION_OK,
                          Some (DeviceManagerRegistry_finalize (mid reg1) deviceId h))))"

text \<open>The third component is the handle that is stopped and destroyed.\<close>

definition DeviceManager_stopReporting ::
    "bool \<Rightarrow> ('h dev_registry \<Rightarrow> 'h dev_registry) \<Rightarrow> 'h dev_registry option \<Rightarrow> u64
     \<Rightarrow> DeviceManagerError \<times> 'h dev_registry option \<times> 'h option" where
  "DeviceManager_stopReporting okFree mid handle deviceId =
     (case handle of
        None \<Rightarrow> (DEVICE_MANAGER_ERR_INVALID_ARGUMENT, None, None)
      | Some reg \<Rightarrow>
          (case DeviceManagerRegistry_removeIfRunning reg deviceId of
             (err, None, reg1) \<Rightarrow> (err, Some reg1, None)
           | (_, Some e, reg1) \<Rightarrow>
               (DEVICE_MANAGER_OK, Some (DeviceManagerRegistry_freePort okFree (mid reg1) (de_wsPort e)),
                de_orchestrationHandle e)))"

definition DeviceManager_stopReportingByAddress ::
    "bool \<Rightarrow> ('h dev_registry \<Rightarrow> 'h dev_registry) \<Rightarrow> 'h dev_registry option \<Rightarrow> string option \<Rightarrow> int
     \<Rightarrow> DeviceManagerError \<times> u64 option \<times> 'h dev_registry option \<times> 'h option" where
  "DeviceManager_stopReportingByAddress okFree mid handle host mmsPort =
     (case handle of
        None \<Rightarrow> (DEVICE_MANAGER_ERR_INVALID_ARGUMENT, None, None, None)
      | Some reg \<Rightarrow>
          if isEmpty host then (DEVICE_MANAGER_ERR_INVALID_ARGUMENT, None, handle, None)
          else case DeviceManagerRegistry_findDeviceIdByHost reg host mmsPort of
            None \<Rightarrow> (DEVICE_MANAGER_ERR_DEVICE_NOT_FOUND, None, handle, None)
          | Some deviceId \<Rightarrow>
              let (err, handle', h) = DeviceManager_stopReporting okFree mid handle deviceId
              in (err, if err = DEVICE_MANAGER_OK then Some deviceId else None, handle', h))"

text \<open>
  The loop of \<open>DeviceManager_destroy\<close>; \<open>acc\<close> collects the handles it stops. A run that does
  not return is \<open>None\<close>.
\<close>

partial_function (option) destroy_loop ::
    "bool \<Rightarrow> 'h dev_registry \<Rightarrow> 'h list \<Rightarrow> ('h dev_registry \<times> 'h list) option" where
  "destroy_loop okFree reg acc =
     (if DeviceManagerRegistry_anyRunningDeviceId reg = 0 then Some (reg, acc)
      else
        case DeviceManager_stopReporting okFree id (Some reg)
               (DeviceManagerRegistry_anyRunningDeviceId reg) of
          (_, handle', h) \<Rightarrow>
            destroy_loop okFree (case handle' of None \<Rightarrow> reg | Some r \<Rightarrow> r)
              (case h of None \<Rightarrow> acc | Some x \<Rightarrow> acc @ [x]))"

text \<open>
  \<open>DeviceManager_destroy\<close>: the handles stopped, and the strings
  \<open>DeviceManagerRegistry_destroy\<close> frees at the end.
\<close>

definition DeviceManager_destroy ::
    "bool \<Rightarrow> 'h dev_registry option \<Rightarrow> ('h list \<times> (string option \<times> string option) list) option" where
  "DeviceManager_destroy okFree handle =
     (case handle of
        None \<Rightarrow> Some ([], [])
      | Some reg \<Rightarrow> map_option (\<lambda>(r, hs). (hs, DeviceManagerRegistry_destroy (Some r))) (destroy_loop okFree reg []))"

section \<open>Interleavings of registry operations\<close>

text \<open>
  \<open>dm_reach s e n reg F\<close>: some interleaving of registry operations by any threads leads from a
  fresh registry over the port range \<open>s..e\<close> to \<open>reg\<close>, with \<open>n\<close> successful reservations so
  far and the ports \<open>F\<close> held by calls of \<open>stopReporting\<close> in their slow part. Arguments are
  arbitrary but for \<open>freePort\<close>, which only \<open>stopReporting\<close> calls, with the port it holds.
\<close>

inductive dm_reach :: "u16 \<Rightarrow> u16 \<Rightarrow> nat \<Rightarrow> 'h dev_registry \<Rightarrow> u16 set \<Rightarrow> bool" for s e where
  fresh: "DeviceManagerRegistry_create True True True s e = Some reg \<Longrightarrow> dm_reach s e 0 reg {}"
| reserved: "dm_reach s e n reg F \<Longrightarrow>
    DeviceManagerRegistry_reserve o1 o2 o3 o4 reg host m pw = (DEVICE_MANAGER_OK, out, reg') \<Longrightarrow>
    dm_reach s e (Suc n) reg' F"
| refused: "dm_reach s e n reg F \<Longrightarrow>
    DeviceManagerRegistry_reserve o1 o2 o3 o4 reg host m pw = (err, out, reg') \<Longrightarrow>
    err \<noteq> DEVICE_MANAGER_OK \<Longrightarrow> dm_reach s e n reg' F"
| finalized: "dm_reach s e n reg F \<Longrightarrow> dm_reach s e n (DeviceManagerRegistry_finalize reg d h) F"
| rolled_back: "dm_reach s e n reg F \<Longrightarrow> dm_reach s e n (DeviceManagerRegistry_rollback ok reg d) F"
| removed: "dm_reach s e n reg F \<Longrightarrow>
    DeviceManagerRegistry_removeIfRunning reg d = (err, Some en, reg') \<Longrightarrow>
    dm_reach s e n reg' (insert (de_wsPort en) F)"
| port_freed: "dm_reach s e n reg F \<Longrightarrow> p \<in> F \<Longrightarrow>
    dm_reach s e n (DeviceManagerRegistry_freePort ok reg p) (F - {p})"

text \<open>Fields an operation does not write.\<close>

lemma registry_frame:
  "dr_nextDeviceId (DeviceManagerRegistry_finalize reg d h) = dr_nextDeviceId reg"
  "dr_ports (DeviceManagerRegistry_finalize reg d h) = dr_ports reg"
  "dr_nextDeviceId (DeviceManagerRegistry_rollback ok reg d) = dr_nextDeviceId reg"
  "pa_range (dr_ports (DeviceManagerRegistry_rollback ok reg d)) = pa_range (dr_ports reg)"
  "dr_nextDeviceId (DeviceManagerRegistry_freePort ok reg p) = dr_nextDeviceId reg"
  "pa_range (dr_ports (DeviceManagerRegistry_freePort ok reg p)) = pa_range (dr_ports reg)"
  by (auto simp: reg_simps split: option.splits)

lemma remove_frame:
  "DeviceManagerRegistry_removeIfRunning reg d = (err, out, reg') \<Longrightarrow>
     dr_nextDeviceId reg' = dr_nextDeviceId reg \<and> dr_ports reg' = dr_ports reg"
  by (auto simp: reg_simps split: option.splits if_splits)

lemma alloc_range: "DeviceManagerPortAllocator_alloc a = (r, a') \<Longrightarrow> pa_range a' = pa_range a"
  using pa_frame(1) [of a] by simp

lemma reserve_ports_range:
  assumes "DeviceManagerRegistry_reserve o1 o2 o3 o4 reg host m pw = (err, out, reg')"
  shows "pa_range (dr_ports reg') = pa_range (dr_ports reg)"
proof (cases "err = DEVICE_MANAGER_OK")
  case True
  with assms reserve_ok_shape [of o1 o2 o3 o4 reg host m pw out reg'] alloc_range show ?thesis
    by fastforce
next
  case False
  from reserve_fail_shape [OF assms False] alloc_range show ?thesis by fastforce
qed

lemma reserve_fail_next:
  "DeviceManagerRegistry_reserve o1 o2 o3 o4 reg host m pw = (err, out, reg') \<Longrightarrow>
     err \<noteq> DEVICE_MANAGER_OK \<Longrightarrow> dr_nextDeviceId reg' = dr_nextDeviceId reg"
  using reserve_fail_shape [of o1 o2 o3 o4 reg host m pw err out reg'] by auto

lemma reach_inv:
  assumes "dm_reach s e n reg F" and "n < 2 ^ 64 - 1"
  shows "dr_inv reg F \<and> unat (dr_nextDeviceId reg) = Suc n \<and> pa_range (dr_ports reg) = {s..e}"
  using assms
proof (induction rule: dm_reach.induct)
  case (fresh reg)
  then show ?case using dr_create_inv [OF fresh(1)] by simp
next
  case (reserved n reg F o1 o2 o3 o4 host m pw out reg')
  then have IH: "dr_inv reg F" "unat (dr_nextDeviceId reg) = Suc n" "pa_range (dr_ports reg) = {s..e}"
    by simp_all
  have lt: "Suc (unat (dr_nextDeviceId reg)) < 2 ^ 64" using IH(2) reserved.prems by simp
  have "dr_nextDeviceId reg' = dr_nextDeviceId reg + 1"
    using reserve_ok_shape [OF reserved.hyps(2)] by blast
  then have "unat (dr_nextDeviceId reg') = Suc (Suc n)" using lt IH(2) by (simp add: unat_word_ariths)
  then show ?case
    using reserve_inv [OF IH(1) reserved.hyps(2) lt] reserve_ports_range [OF reserved.hyps(2)] IH(3) by simp
next
  case (refused n reg F o1 o2 o3 o4 host m pw err out reg')
  then show ?case
    using reserve_inv [of reg F o1 o2 o3 o4 host m pw err out reg'] reserve_ports_range [OF refused.hyps(2)]
      reserve_fail_next [OF refused.hyps(2,3)] by simp
next
  case (finalized n reg F d h)
  then show ?case by (simp add: finalize_inv registry_frame)
next
  case (rolled_back n reg F ok d)
  then show ?case by (simp add: rollback_inv registry_frame)
next
  case (removed n reg F d err en reg')
  then show ?case
    using removeIfRunning_inv [of reg F d err "Some en" reg'] remove_frame [OF removed.hyps(2)] by simp
next
  case (port_freed n reg F p ok)
  then show ?case by (simp add: free_port_inv registry_frame)
qed

text \<open>C1. Isolation of monitored devices under concurrency: after any interleaving of registry
  operations (fewer than 2^64 - 1 successful reservations), no two devices in the table share
  a device id, a websocket port or a (host, MMS port) address, every port lies in the
  configured range, no listed device uses a port still held by a device being stopped, and
  exactly the running devices have an orchestration handle.\<close>

theorem device_isolation:
  assumes "dm_reach s e n reg F" and "n < 2 ^ 64 - 1"
  shows "distinct (map de_deviceId (dr_entries reg)) \<and> distinct (map de_wsPort (dr_entries reg))
    \<and> distinct (map (\<lambda>x. (de_host x, de_mmsPort x)) (dr_entries reg))
    \<and> set (map de_wsPort (dr_entries reg)) \<union> F \<subseteq> {s..e}
    \<and> set (map de_wsPort (dr_entries reg)) \<inter> F = {}
    \<and> (\<forall>x \<in> set (dr_entries reg). de_running x \<longleftrightarrow> de_orchestrationHandle x \<noteq> None)"
proof -
  have inv: "dr_inv reg F" and r: "pa_range (dr_ports reg) = {s..e}"
    using reach_inv [OF assms] by simp_all
  from inv have "pa_inv (dr_ports reg) (set (ports_of reg) \<union> F)" by (simp add: dr_inv_def)
  with r have "set (ports_of reg) \<union> F \<subseteq> {s..e}" using dmp.pinv_range by metis
  with inv show ?thesis by (simp add: dr_inv_def)
qed

section \<open>Errors of a reservation\<close>

abbreviation ports_in_use :: "'h dev_registry \<Rightarrow> u16 set \<Rightarrow> u16 set" where
  "ports_in_use reg F \<equiv> set (ports_of reg) \<union> F"

text \<open>The error of a reservation is exact: with memory available and no port lost, it is
  \<open>HOST_ALREADY_RUNNING\<close> if and only if the address is in the table (running or still
  starting), otherwise \<open>PORT_EXHAUSTED\<close> if and only if every port of the range is in use by
  a listed device or a device being stopped, and otherwise the reservation succeeds.\<close>

theorem reserve_error_exact:
  assumes "dr_inv reg F" and "pa_full (dr_ports reg) (ports_in_use reg F)"
  shows "fst (DeviceManagerRegistry_reserve True True True okFree reg (Some h) m pw) =
    (if \<exists>x \<in> set (dr_entries reg). de_host x = Some h \<and> de_mmsPort x = m
       then DEVICE_MANAGER_ERR_HOST_ALREADY_RUNNING
     else if ports_in_use reg F = pa_range (dr_ports reg) then DEVICE_MANAGER_ERR_PORT_EXHAUSTED
     else DEVICE_MANAGER_OK)"
proof -
  have addr: "hostAlreadyActive reg h m \<longleftrightarrow> (\<exists>x \<in> set (dr_entries reg). de_host x = Some h \<and> de_mmsPort x = m)"
    by (auto simp: hostAlreadyActive_def entry_at_def)
  obtain r ports where al: "DeviceManagerPortAllocator_alloc (dr_ports reg) = (r, ports)" by fastforce
  have "r = None \<longleftrightarrow> ports_in_use reg F = pa_range (dr_ports reg)"
    using pa_alloc_None_iff [OF assms(2)] al by simp
  then show ?thesis
    unfolding addr [symmetric] using al
    by (cases r) (auto simp: reg_simps appendEntry_def Let_def)
qed

section \<open>Starting, stopping, tearing down\<close>

text \<open>The entry of a device whose reservation just succeeded is the last one.\<close>

lemma find_last_id:
  assumes "d \<notin> set (map de_deviceId xs)"
  shows "find_index (\<lambda>x. de_deviceId x = d) (xs @ [\<lparr>de_deviceId = d, de_wsPort = p, de_running = r,
    de_host = h, de_mmsPort = m, de_ownedAcseAuthPassword = pw, de_orchestrationHandle = oh\<rparr>])
    = Some (length xs)"
  using assms by (induction xs) auto

lemma swap_remove_last [simp]: "swap_remove (xs @ [x]) (length xs) = xs"
  by (simp add: swap_remove_def)

lemma next_id_fresh: "dr_inv reg F \<Longrightarrow> dr_nextDeviceId reg \<notin> set (ids_of reg)"
  by (auto simp: dr_inv_def)

text \<open>A reservation undone: the table as before, the port back in the pool.\<close>

lemma reserve_rollback:
  assumes "dr_inv reg F" and "pa_full (dr_ports reg) (ports_in_use reg F)"
    and "DeviceManagerRegistry_reserve o1 o2 o3 o4 reg host m pw = (DEVICE_MANAGER_OK, Some (d, p, q), reg1)"
  shows "dr_entries (DeviceManagerRegistry_rollback True reg1 d) = dr_entries reg
    \<and> pa_full (dr_ports (DeviceManagerRegistry_rollback True reg1 d)) (ports_in_use reg F)"
proof -
  from reserve_ok_shape [OF assms(3)] obtain h ports where s:
    "DeviceManagerPortAllocator_alloc (dr_ports reg) = (Some p, ports)" "d = dr_nextDeviceId reg"
    "dr_ports reg1 = ports"
    "dr_entries reg1 = dr_entries reg @ [\<lparr>de_deviceId = dr_nextDeviceId reg, de_wsPort = p,
        de_running = False, de_host = Some h, de_mmsPort = m, de_ownedAcseAuthPassword = pw,
        de_orchestrationHandle = None\<rparr>]" by blast
  have i: "findIndexByDeviceId reg1 d = Some (length (dr_entries reg))"
    unfolding findIndexByDeviceId_def s(2,4) by (rule find_last_id [OF next_id_fresh [OF assms(1)]])
  have inv: "pa_inv (dr_ports reg) (ports_in_use reg F)" using assms(2) by (simp add: pa_full_def)
  have fresh: "p \<notin> ports_in_use reg F" using dmp.palloc_Some [OF inv s(1)] by simp
  have "pa_full (DeviceManagerPortAllocator_free True ports p) (insert p (ports_in_use reg F) - {p})"
    by (rule pa_free_full [OF pa_alloc_full [OF assms(2) s(1)]]) simp
  with fresh i s(3,4) show ?thesis by (simp add: reg_simps)
qed

text \<open>A refused reservation (whatever the reason) changes neither table nor pool.\<close>

lemma reserve_refused:
  assumes "pa_full (dr_ports reg) (ports_in_use reg F)"
    and "DeviceManagerRegistry_reserve o1 o2 o3 True reg host m pw = (err, None, reg1)"
  shows "dr_entries reg1 = dr_entries reg \<and> pa_full (dr_ports reg1) (ports_in_use reg F)
    \<and> err \<noteq> DEVICE_MANAGER_OK"
proof -
  have ne: "err \<noteq> DEVICE_MANAGER_OK" using reserve_ok_shape [of o1 o2 o3 True reg host m pw None reg1] assms(2) by auto
  from reserve_fail_shape [OF assms(2) ne] consider "reg1 = reg" | p ports where
    "DeviceManagerPortAllocator_alloc (dr_ports reg) = (Some p, ports)"
    "reg1 = reg\<lparr>dr_ports := DeviceManagerPortAllocator_free True ports p\<rparr>" by blast
  then show ?thesis
  proof cases
    case 1
    with assms(1) ne show ?thesis by simp
  next
    case 2
    have inv: "pa_inv (dr_ports reg) (ports_in_use reg F)" using assms(1) by (simp add: pa_full_def)
    have "p \<notin> ports_in_use reg F" using dmp.palloc_Some [OF inv 2(1)] by simp
    moreover have "pa_full (DeviceManagerPortAllocator_free True ports p) (insert p (ports_in_use reg F) - {p})"
      by (rule pa_free_full [OF pa_alloc_full [OF assms(1) 2(1)]]) simp
    ultimately show ?thesis using 2(2) ne by simp
  qed
qed

text \<open>\<open>startReporting\<close> after its argument checks, as the reservation and what follows it.\<close>

lemma startReporting_cases:
  assumes "DeviceManager_startReporting S (o1, o2, o3, o4) mid (Some reg) req = (err, out, oe, h')"
  obtains (rejected) "err = DEVICE_MANAGER_ERR_INVALID_ARGUMENT" "out = None" "h' = Some reg"
  | (refused) host pw reg1 where
      "DeviceManagerRegistry_reserve o1 o2 o3 o4 reg host (sr_mmsPort req) pw = (err, None, reg1)"
      "out = None" "h' = Some reg1"
  | (failed) host pw d p q reg1 where
      "DeviceManagerRegistry_reserve o1 o2 o3 o4 reg host (sr_mmsPort req) pw
         = (DEVICE_MANAGER_OK, Some (d, p, q), reg1)"
      "err = DEVICE_MANAGER_ERR_ORCHESTRATION_FAILED" "out = None" "oe \<noteq> ORCHESTRATION_OK \<or>
        (\<exists>ce. os_create S p q = (None, ce))" "h' = Some (DeviceManagerRegistry_rollback o4 (mid reg1) d)"
  | (started) pw d p q reg1 hdl ce where
      "DeviceManagerRegistry_reserve o1 o2 o3 o4 reg (sr_host req) (sr_mmsPort req) pw
         = (DEVICE_MANAGER_OK, Some (d, p, q), reg1)"
      "os_create S p q = (Some hdl, ce)"
      "err = DEVICE_MANAGER_OK" "out = Some (d, p)"
      "h' = Some (DeviceManagerRegistry_finalize (mid reg1) d hdl)"
proof -
  let ?pw = "effective (sr_acseAuthPassword req)"
  obtain e1 r1 reg1 where rv: "DeviceManagerRegistry_reserve o1 o2 o3 o4 reg (sr_host req) (sr_mmsPort req) ?pw
      = (e1, r1, reg1)" by (metis prod_cases3)
  have ok: "e1 = DEVICE_MANAGER_OK" if "r1 = Some x" for x
    using reserve_fail_shape [OF rv] that by auto
  show thesis
  proof (cases "isEmpty (sr_host req) \<or> isEmpty (sr_interfaceId req)
      \<or> (effective (sr_sclFilePath req) \<noteq> None \<and> effective (sr_iedName req) = None)")
    case True
    then have "DeviceManager_startReporting S (o1, o2, o3, o4) mid (Some reg) req
        = (DEVICE_MANAGER_ERR_INVALID_ARGUMENT, None, ORCHESTRATION_OK, Some reg)"
      by (cases "isEmpty (sr_host req) \<or> isEmpty (sr_interfaceId req)")
        (simp_all add: DeviceManager_startReporting_def Let_def)
    then show thesis using assms by (intro rejected) simp_all
  next
    case False
    show thesis
    proof (cases r1)
      case None
      with False rv have "DeviceManager_startReporting S (o1, o2, o3, o4) mid (Some reg) req
          = (e1, None, ORCHESTRATION_OK, Some reg1)"
        by (auto simp: DeviceManager_startReporting_def Let_def)
      then have "err = e1" "out = None" "h' = Some reg1" using assms by simp_all
      with refused [of "sr_host req" ?pw reg1] rv None show thesis by simp
    next
      case (Some t)
      obtain d p q where t: "t = (d, p, q)" by (metis prod_cases3)
      have rvOk: "DeviceManagerRegistry_reserve o1 o2 o3 o4 reg (sr_host req) (sr_mmsPort req) ?pw
          = (DEVICE_MANAGER_OK, Some (d, p, q), reg1)" using rv Some t ok by simp
      obtain oh ce where cr: "os_create S p q = (oh, ce)" by fastforce
      show thesis
      proof (cases oh)
        case None
        with False rvOk cr have "DeviceManager_startReporting S (o1, o2, o3, o4) mid (Some reg) req
            = (DEVICE_MANAGER_ERR_ORCHESTRATION_FAILED, None, ce,
               Some (DeviceManagerRegistry_rollback o4 (mid reg1) d))"
          by (auto simp: DeviceManager_startReporting_def Let_def)
        then show thesis using assms cr None by (intro failed [OF rvOk]) auto
      next
        case (Some hdl)
        define run where "run = DeviceManagerBootstrapPolicy_run S hdl
          (req\<lparr>sr_sclFilePath := effective (sr_sclFilePath req), sr_iedName := effective (sr_iedName req),
               sr_acseAuthPassword := ?pw\<rparr>)"
        have res: "DeviceManager_startReporting S (o1, o2, o3, o4) mid (Some reg) req
          = (if ro_error run \<noteq> ORCHESTRATION_OK
             then (DEVICE_MANAGER_ERR_ORCHESTRATION_FAILED, None, ro_error run,
                   Some (DeviceManagerRegistry_rollback o4 (mid reg1) d))
             else (DEVICE_MANAGER_OK, Some (d, p), ORCHESTRATION_OK,
                   Some (DeviceManagerRegistry_finalize (mid reg1) d hdl)))"
          using False rvOk cr Some by (auto simp: DeviceManager_startReporting_def Let_def run_def)
        show thesis
        proof (cases "ro_error run = ORCHESTRATION_OK")
          case True
          with res assms cr Some show thesis by (intro started [OF rvOk]) auto
        next
          case False
          with res assms show thesis by (intro failed [OF rvOk]) auto
        qed
      qed
    qed
  qed
qed


lemma start_then_stop:
  assumes "dr_inv reg F" and "pa_full (dr_ports reg) (ports_in_use reg F)"
    and "DeviceManager_startReporting S (o1, o2, o3, o4) id (Some reg) req
           = (DEVICE_MANAGER_OK, Some (d, p), oe, Some reg1)"
  shows "DeviceManagerRegistry_findDeviceIdByHost reg1 (sr_host req) (sr_mmsPort req) = Some d
    \<and> (\<exists>hdl q ce reg2. os_create S p q = (Some hdl, ce)
        \<and> DeviceManager_stopReporting True id (Some reg1) d = (DEVICE_MANAGER_OK, Some reg2, Some hdl)
        \<and> dr_entries reg2 = dr_entries reg \<and> pa_full (dr_ports reg2) (ports_in_use reg F))"
  using assms(3)
proof (cases rule: startReporting_cases)
  case (started pw d' p' q reg0 hdl ce)
  from started(4) have eq: "d' = d" "p' = p" by simp_all
  from reserve_ok_shape [OF started(1)] eq obtain h ports where s:
    "sr_host req = Some h" "(Some h, sr_mmsPort req) \<notin> set (addresses_of reg)"
    "DeviceManagerPortAllocator_alloc (dr_ports reg) = (Some p, ports)" "d = dr_nextDeviceId reg"
    "dr_ports reg0 = ports"
    "dr_entries reg0 = dr_entries reg @ [\<lparr>de_deviceId = dr_nextDeviceId reg, de_wsPort = p,
        de_running = False, de_host = Some h, de_mmsPort = sr_mmsPort req, de_ownedAcseAuthPassword = pw,
        de_orchestrationHandle = None\<rparr>]" by blast
  let ?new = "\<lparr>de_deviceId = d, de_wsPort = p, de_running = True, de_host = Some h,
      de_mmsPort = sr_mmsPort req, de_ownedAcseAuthPassword = pw, de_orchestrationHandle = Some hdl\<rparr>"
  have nid: "d \<notin> set (ids_of reg)" using next_id_fresh [OF assms(1)] s(4) by simp
  have i0: "findIndexByDeviceId reg0 d = Some (length (dr_entries reg))"
    unfolding findIndexByDeviceId_def s(6) s(4) [symmetric] by (rule find_last_id [OF nid])
  have es: "dr_entries reg1 = dr_entries reg @ [?new]" and pt: "dr_ports reg1 = ports"
    using started(5) eq i0 s(4,5,6) by (simp_all add: reg_simps)
  have i1: "findIndexByDeviceId reg1 d = Some (length (dr_entries reg))"
    unfolding findIndexByDeviceId_def es by (rule find_last_id [OF nid])
  have none: "find_index (entry_at h (sr_mmsPort req)) (dr_entries reg) = None"
    using s(2) find_address_iff [of h "sr_mmsPort req" reg] by blast
  have loc: "find_index (entry_at h (sr_mmsPort req)) (dr_entries reg @ [?new]) = Some (length (dr_entries reg))"
    using find_index_append_hit [OF none] by (simp add: entry_at_def)
  have inv: "pa_inv (dr_ports reg) (ports_in_use reg F)" using assms(2) by (simp add: pa_full_def)
  have fresh: "p \<notin> ports_in_use reg F" using dmp.palloc_Some [OF inv s(3)] by simp
  have full: "pa_full (DeviceManagerPortAllocator_free True ports p) (insert p (ports_in_use reg F) - {p})"
    by (rule pa_free_full [OF pa_alloc_full [OF assms(2) s(3)]]) simp
  show ?thesis
    using loc i1 es pt fresh full started(2) eq s(1)
    by (auto simp: DeviceManager_stopReporting_def DeviceManagerRegistry_findDeviceIdByHost_def reg_simps)
qed simp_all

text \<open>Start and stop are inverse: after a successful \<open>startReporting\<close> the device is found
  under its address with the id that was returned, \<open>stopReporting\<close> of that id succeeds and
  hands out the orchestration handle the start created, and afterwards the device table and
  the ports in use are what they were before the start.\<close>

theorem start_stop_inverse:
  assumes "dr_inv reg F" and "pa_full (dr_ports reg) (ports_in_use reg F)"
    and "DeviceManager_startReporting S (o1, o2, o3, o4) id (Some reg) req
           = (DEVICE_MANAGER_OK, Some (d, p), oe, Some reg1)"
  shows "DeviceManagerRegistry_findDeviceIdByHost reg1 (sr_host req) (sr_mmsPort req) = Some d
    \<and> (\<exists>hdl q ce reg2. os_create S p q = (Some hdl, ce)
        \<and> DeviceManager_stopReporting True id (Some reg1) d = (DEVICE_MANAGER_OK, Some reg2, Some hdl)
        \<and> dr_entries reg2 = dr_entries reg \<and> pa_full (dr_ports reg2) (ports_in_use reg F))"
  using assms by (rule start_then_stop)


lemma anyRunning_0_iff:
  assumes "dr_inv reg F"
  shows "DeviceManagerRegistry_anyRunningDeviceId reg = 0 \<longleftrightarrow> (\<forall>e \<in> set (dr_entries reg). \<not> de_running e)"
proof (cases "find_index de_running (dr_entries reg)")
  case None
  moreover from this have "\<forall>e \<in> set (dr_entries reg). \<not> de_running e" by simp
  ultimately show ?thesis
    unfolding DeviceManagerRegistry_anyRunningDeviceId_def by (simp only: option.case simp_thms)
next
  case (Some i)
  then have i: "i < length (dr_entries reg)" "de_running (dr_entries reg ! i)"
    using find_index_SomeD [OF Some] by simp_all
  then have "0 < de_deviceId (dr_entries reg ! i)" using assms by (simp add: dr_inv_def)
  with i Some show ?thesis by (auto simp: DeviceManagerRegistry_anyRunningDeviceId_def)
qed

text \<open>One round of the loop takes out one running device and stops its handle.\<close>

lemma stop_any_running:
  assumes "dr_inv reg F" and "DeviceManagerRegistry_anyRunningDeviceId reg \<noteq> 0"
  obtains e hdl reg1 where "de_running e" "de_orchestrationHandle e = Some hdl"
    "DeviceManager_stopReporting ok id (Some reg) (DeviceManagerRegistry_anyRunningDeviceId reg)
       = (DEVICE_MANAGER_OK, Some reg1, Some hdl)"
    "mset (dr_entries reg) = add_mset e (mset (dr_entries reg1))" "dr_inv reg1 F"
proof -
  let ?es = "dr_entries reg"
  obtain i where fi: "find_index de_running ?es = Some i"
    using assms(2) by (auto simp: DeviceManagerRegistry_anyRunningDeviceId_def split: option.splits)
  then have i: "i < length ?es" "de_running (?es ! i)" using find_index_SomeD [OF fi] by simp_all
  define d where "d = DeviceManagerRegistry_anyRunningDeviceId reg"
  have d: "d = de_deviceId (?es ! i)" using fi by (simp add: d_def DeviceManagerRegistry_anyRunningDeviceId_def)
  obtain j where fj: "findIndexByDeviceId reg d = Some j"
    using find_index_Some_ex [of "?es ! i" ?es "\<lambda>e. de_deviceId e = d"] i d
    unfolding findIndexByDeviceId_def by auto
  have "j < length ?es" "de_deviceId (?es ! j) = d" using findIndexByDeviceId_SomeD [OF fj] by simp_all
  moreover have "distinct (ids_of reg)" using assms(1) by (simp add: dr_inv_def)
  ultimately have j: "j = i" using i(1) d nth_eq_iff_index_eq [of "ids_of reg" j i] by simp
  obtain hdl where h: "de_orchestrationHandle (?es ! i) = Some hdl"
    using assms(1) i nth_mem [OF i(1)] by (auto simp: dr_inv_def)
  define p where "p = de_wsPort (?es ! i)"
  define reg1 where "reg1 = DeviceManagerRegistry_freePort ok (reg\<lparr>dr_entries := swap_remove ?es i\<rparr>) p"
  have st: "DeviceManager_stopReporting ok id (Some reg) d = (DEVICE_MANAGER_OK, Some reg1, Some hdl)"
    using fj j i h
    by (simp add: DeviceManager_stopReporting_def DeviceManagerRegistry_removeIfRunning_def reg1_def p_def)
  have "p \<in> set (ports_of reg)" using i(1) by (simp add: p_def)
  then have "p \<notin> F" using assms(1) unfolding dr_inv_def by blast
  then have "dr_inv reg1 F"
    using free_port_inv [OF remove_entry_inv [OF assms(1) i(1)], of p ok] by (simp add: reg1_def p_def)
  moreover have "mset ?es = add_mset (?es ! i) (mset (dr_entries reg1))"
    using mset_swap_remove [OF i(1)] by (simp add: reg1_def reg_simps)
  ultimately show thesis using that [OF i(2) h st [unfolded d_def]] by simp
qed

lemma destroy_loop_total:
  assumes "dr_inv reg F"
  shows "\<exists>reg' hs. destroy_loop ok reg acc = Some (reg', acc @ hs)
    \<and> mset (dr_entries reg') = filter_mset (\<lambda>e. \<not> de_running e) (mset (dr_entries reg))
    \<and> image_mset Some (mset hs)
        = image_mset de_orchestrationHandle (filter_mset de_running (mset (dr_entries reg)))"
  using assms
proof (induction "length (dr_entries reg)" arbitrary: reg acc)
  case 0
  then show ?case
    by (simp add: destroy_loop.simps [of ok reg acc] DeviceManagerRegistry_anyRunningDeviceId_def)
next
  case (Suc n)
  show ?case
  proof (cases "DeviceManagerRegistry_anyRunningDeviceId reg = 0")
    case True
    then have "filter de_running (dr_entries reg) = []"
      "filter (\<lambda>e. \<not> de_running e) (dr_entries reg) = dr_entries reg"
      using anyRunning_0_iff [OF Suc.prems] by (simp_all add: filter_empty_conv)
    with True show ?thesis
      by (simp add: destroy_loop.simps [of ok reg acc] flip: mset_filter)
  next
    case False
    obtain e hdl reg1 where r: "de_running e" "de_orchestrationHandle e = Some hdl"
      "DeviceManager_stopReporting ok id (Some reg) (DeviceManagerRegistry_anyRunningDeviceId reg)
         = (DEVICE_MANAGER_OK, Some reg1, Some hdl)"
      "mset (dr_entries reg) = add_mset e (mset (dr_entries reg1))" "dr_inv reg1 F"
      by (rule stop_any_running [OF Suc.prems False])
    have "length (dr_entries reg) = Suc (length (dr_entries reg1))"
      using arg_cong [OF r(4), of size] by simp
    then have "n = length (dr_entries reg1)" using Suc.hyps(2) by simp
    from Suc.hyps(1) [OF this r(5), of "acc @ [hdl]"] obtain reg' hs where
      l: "destroy_loop ok reg1 (acc @ [hdl]) = Some (reg', (acc @ [hdl]) @ hs)"
      "mset (dr_entries reg') = filter_mset (\<lambda>e. \<not> de_running e) (mset (dr_entries reg1))"
      "image_mset Some (mset hs)
         = image_mset de_orchestrationHandle (filter_mset de_running (mset (dr_entries reg1)))" by blast
    have "destroy_loop ok reg acc = Some (reg', acc @ (hdl # hs))"
      using False r(3) l(1) by (simp add: destroy_loop.simps [of ok reg acc])
    with l(2,3) r(1,2,4) show ?thesis by (intro exI [of _ reg'] exI [of _ "hdl # hs"]) simp
  qed
qed

text \<open>C7. Tear-down terminates and stops every running device exactly once: from every registry
  state reachable by the operations, \<open>DeviceManager_destroy\<close> returns, the handles it stops
  are, with multiplicity, the orchestration handles of the running devices, and the strings
  \<open>DeviceManagerRegistry_destroy\<close> frees are those of the devices that were not running (the
  strings of the others went to \<open>stopReporting\<close>).\<close>

theorem destroy_stops_all_once:
  assumes "dm_reach s e n reg F" and "n < 2 ^ 64 - 1"
  shows "\<exists>hs strs. DeviceManager_destroy ok (Some reg) = Some (hs, strs)
    \<and> image_mset Some (mset hs)
        = image_mset de_orchestrationHandle (filter_mset de_running (mset (dr_entries reg)))
    \<and> mset strs = image_mset (\<lambda>x. (de_host x, de_ownedAcseAuthPassword x))
        (filter_mset (\<lambda>x. \<not> de_running x) (mset (dr_entries reg)))"
  using destroy_loop_total [OF conjunct1 [OF reach_inv [OF assms]], of ok "[]"]
  by (auto simp: DeviceManager_destroy_def DeviceManagerRegistry_destroy_def)

section \<open>The properties at concrete inputs\<close>

text \<open>
  A registry over three ports, with one running device and one still starting, built by the
  operations, and orchestration services that succeed on every port but 9002.
\<close>

definition demo_fresh :: "nat dev_registry" where
  "demo_fresh = \<lparr>dr_entries = [], dr_capacity = 0, dr_nextDeviceId = 1, dr_ports =
     \<lparr>pa_rangeStart = 9000, pa_rangeEnd = 9002, pa_nextUnissued = 9000, pa_freeList = [], pa_freeCapacity = 0\<rparr>\<rparr>"

definition demo_registry :: "nat dev_registry" where
  "demo_registry = \<lparr>dr_entries =
     [\<lparr>de_deviceId = 1, de_wsPort = 9000, de_running = True, de_host = Some ''a'', de_mmsPort = 102,
       de_ownedAcseAuthPassword = None, de_orchestrationHandle = Some 7\<rparr>,
      \<lparr>de_deviceId = 2, de_wsPort = 9001, de_running = False, de_host = Some ''b'', de_mmsPort = 102,
       de_ownedAcseAuthPassword = None, de_orchestrationHandle = None\<rparr>],
     dr_capacity = 8, dr_nextDeviceId = 3, dr_ports =
     \<lparr>pa_rangeStart = 9000, pa_rangeEnd = 9002, pa_nextUnissued = 9002, pa_freeList = [], pa_freeCapacity = 0\<rparr>\<rparr>"

definition demo_services :: "nat orch_services" where
  "demo_services = \<lparr>os_create = (\<lambda>port pw. if port = 9002 then (Some 5, ORCHESTRATION_OK)
        else (None, ORCHESTRATION_ERR_OUT_OF_MEMORY)),
     os_runFromLocalFile = (\<lambda>h req. \<lparr>ro_error = ORCHESTRATION_ERR_MODEL_LOAD_FAILED,
        ro_lastCandidateStatus = SCL_BOOTSTRAP_CANDIDATE_NO_MMS_SERVER, ro_mmsAvailable = False,
        ro_gooseAvailable = False\<rparr>),
     os_run = (\<lambda>h req. \<lparr>ro_error = ORCHESTRATION_ERR_BOOTSTRAP_FAILED,
        ro_lastCandidateStatus = SCL_BOOTSTRAP_CANDIDATE_NO_SCL_FILE_FOUND, ro_mmsAvailable = False,
        ro_gooseAvailable = False\<rparr>),
     os_runFromOnlineDiscovery = (\<lambda>h req. \<lparr>ro_error = ORCHESTRATION_OK,
        ro_lastCandidateStatus = SCL_BOOTSTRAP_CANDIDATE_NO_SCL_FILE_FOUND, ro_mmsAvailable = True,
        ro_gooseAvailable = False\<rparr>)\<rparr>"

definition demo_request :: "string option \<Rightarrow> start_request" where
  "demo_request scl = \<lparr>sr_host = Some ''c'', sr_mmsPort = 102, sr_iedName = Some ''IED1'',
     sr_interfaceId = Some ''eth0'', sr_sclFilePath = scl, sr_acseAuthPassword = Some [],
     sr_accessMode = IED_MODEL_ACCESS_REPORT_ONLY, sr_lnCategoryFilter = 0\<rparr>"

lemma reserved_step:
  "dm_reach s e n reg F \<Longrightarrow> fst (DeviceManagerRegistry_reserve o1 o2 o3 o4 reg host m pw) = DEVICE_MANAGER_OK \<Longrightarrow>
     dm_reach s e (Suc n) (snd (snd (DeviceManagerRegistry_reserve o1 o2 o3 o4 reg host m pw))) F"
  by (cases "DeviceManagerRegistry_reserve o1 o2 o3 o4 reg host m pw") (auto intro: dm_reach.reserved)

lemma demo_reach: "dm_reach 9000 9002 2 demo_registry {}"
proof -
  have 0: "dm_reach 9000 9002 0 demo_fresh {}"
    by (rule dm_reach.fresh) (simp add: DeviceManagerRegistry_create_def DeviceManagerPortAllocator_create_def
        demo_fresh_def word_le_nat_alt)
  have "dm_reach 9000 9002 (Suc 0) (snd (snd (DeviceManagerRegistry_reserve True True True True
      demo_fresh (Some ''a'') 102 None))) {}" (is "dm_reach _ _ _ ?r1 _")
    by (rule reserved_step [OF 0])
      (simp add: demo_fresh_def reg_simps hostAlreadyActive_def DeviceManagerPortAllocator_alloc_def
        appendEntry_def word_less_nat_alt)
  then have "dm_reach 9000 9002 (Suc 0) (DeviceManagerRegistry_finalize ?r1 1 7) {}" (is "dm_reach _ _ _ ?r2 _")
    by (rule dm_reach.finalized)
  then have "dm_reach 9000 9002 (Suc (Suc 0)) (snd (snd (DeviceManagerRegistry_reserve True True True True
      ?r2 (Some ''b'') 102 None))) {}" (is "dm_reach _ _ _ ?r3 _")
    by (rule reserved_step)
      (simp add: demo_fresh_def reg_simps hostAlreadyActive_def DeviceManagerPortAllocator_alloc_def
        appendEntry_def grown_capacity_def entry_at_def findIndexByDeviceId_def word_less_nat_alt)
  moreover have "?r3 = demo_registry"
    by (simp add: demo_fresh_def demo_registry_def reg_simps hostAlreadyActive_def
        DeviceManagerPortAllocator_alloc_def appendEntry_def grown_capacity_def entry_at_def findIndexByDeviceId_def word_less_nat_alt)
  ultimately show ?thesis by (simp add: numeral_2_eq_2)
qed

lemma demo_inv: "dr_inv demo_registry {}"
  using reach_inv [OF demo_reach] by simp

lemma demo_full: "pa_full (dr_ports demo_registry) (ports_in_use demo_registry {})"
proof -
  have p: "p = 9000 \<or> p = 9001" if "9000 \<le> p" "unat p < 9002" for p :: u16
  proof -
    from that have "unat p = 9000 \<or> unat p = 9001" by (auto simp: word_le_nat_alt)
    then show ?thesis by (auto simp: word_unat_eq_iff)
  qed
  have "pa_inv (dr_ports demo_registry) (ports_in_use demo_registry {})"
    using demo_inv by (simp add: dr_inv_def)
  moreover have "set (pa_freeList (dr_ports demo_registry)) \<union> ports_in_use demo_registry {}
      = pa_issued (dr_ports demo_registry)"
    using p by (auto simp: demo_registry_def pa_issued_def word_le_nat_alt)
  ultimately show ?thesis by (simp add: pa_full_def)
qed

lemma device_isolation_witness:
  "dm_reach 9000 9002 2 demo_registry {} \<and> distinct (map de_wsPort (dr_entries demo_registry))"
  using device_isolation [OF demo_reach] demo_reach by simp

lemma reserve_error_exact_witness:
  "fst (DeviceManagerRegistry_reserve True True True True demo_registry (Some ''b'') 102 None)
     = DEVICE_MANAGER_ERR_HOST_ALREADY_RUNNING"
  using reserve_error_exact [OF demo_inv demo_full, of True "''b''" 102 None] by (simp add: demo_registry_def)

lemma demo_start_fails:
  "DeviceManager_startReporting demo_services (True, True, True, True) id (Some demo_registry)
     (demo_request (Some ''/x.scd''))
     = (DEVICE_MANAGER_ERR_ORCHESTRATION_FAILED, None, ORCHESTRATION_ERR_MODEL_LOAD_FAILED,
        Some (demo_registry\<lparr>dr_nextDeviceId := 4, dr_ports := DeviceManagerPortAllocator_free True
          ((dr_ports demo_registry)\<lparr>pa_nextUnissued := 9003\<rparr>) 9002\<rparr>))"
  by (simp add: DeviceManager_startReporting_def demo_request_def isEmpty_def effective_def Let_def
      reg_simps demo_registry_def hostAlreadyActive_def entry_at_def DeviceManagerPortAllocator_alloc_def
      appendEntry_def demo_services_def DeviceManagerBootstrapPolicy_run_def findIndexByDeviceId_def
      swap_remove_def word_less_nat_alt)


lemma demo_start_succeeds:
  "DeviceManager_startReporting demo_services (True, True, True, True) id (Some demo_registry)
     (demo_request None)
     = (DEVICE_MANAGER_OK, Some (3, 9002), ORCHESTRATION_OK,
        Some (demo_registry\<lparr>dr_entries := dr_entries demo_registry @ [\<lparr>de_deviceId = 3, de_wsPort = 9002,
           de_running = True, de_host = Some ''c'', de_mmsPort = 102, de_ownedAcseAuthPassword = None,
           de_orchestrationHandle = Some 5\<rparr>], dr_nextDeviceId := 4,
           dr_ports := (dr_ports demo_registry)\<lparr>pa_nextUnissued := 9003\<rparr>\<rparr>))"
  by (simp add: DeviceManager_startReporting_def demo_request_def isEmpty_def effective_def Let_def
      reg_simps demo_registry_def hostAlreadyActive_def entry_at_def DeviceManagerPortAllocator_alloc_def
      appendEntry_def demo_services_def DeviceManagerBootstrapPolicy_run_def findIndexByDeviceId_def
      swap_remove_def word_less_nat_alt)

lemma start_stop_inverse_witness:
  "\<exists>reg1. DeviceManager_startReporting demo_services (True, True, True, True) id (Some demo_registry)
       (demo_request None) = (DEVICE_MANAGER_OK, Some (3, 9002), ORCHESTRATION_OK, Some reg1)
     \<and> DeviceManagerRegistry_findDeviceIdByHost reg1 (Some ''c'') 102 = Some 3
     \<and> (\<exists>hdl reg2. DeviceManager_stopReporting True id (Some reg1) 3 = (DEVICE_MANAGER_OK, Some reg2, Some hdl)
          \<and> dr_entries reg2 = dr_entries demo_registry)"
proof -
  have "sr_host (demo_request None) = Some ''c''" "sr_mmsPort (demo_request None) = 102"
    by (simp_all add: demo_request_def)
  then show ?thesis
    using start_stop_inverse [OF demo_inv demo_full demo_start_succeeds] demo_start_succeeds by auto
qed

lemma destroy_stops_all_once_witness:
  "DeviceManager_destroy True (Some demo_registry) = Some ([7], [(Some ''b'', None)])"
proof -
  obtain hs strs where d: "DeviceManager_destroy True (Some demo_registry) = Some (hs, strs)"
    "image_mset Some (mset hs)
        = image_mset de_orchestrationHandle (filter_mset de_running (mset (dr_entries demo_registry)))"
    "mset strs = image_mset (\<lambda>x. (de_host x, de_ownedAcseAuthPassword x))
        (filter_mset (\<lambda>x. \<not> de_running x) (mset (dr_entries demo_registry)))"
    using destroy_stops_all_once [OF demo_reach, of True] by auto
  have "image_mset Some (mset hs) = {#Some 7#}" using d(2) by (simp add: demo_registry_def)
  then have "mset hs = {#7#}" by (cases hs) auto
  moreover have "mset strs = {#(Some ''b'', None)#}" using d(3) by (simp add: demo_registry_def)
  ultimately show ?thesis using d(1) by simp
qed

end
