(* ===== verification/Orchestration_Utils.thy ===== *)
theory Orchestration_Utils
  imports Device_Manager
begin

text \<open>
  \<open>orchestration/utils/orchestration_utils.c\<close>: the texts in which the daemon names the stages, the
  errors and the outcomes of a run to its users, and the stages of
  \<open>orchestration/domain/orchestration_types.h\<close>.
\<close>

datatype OrchestrationStage =
    ORCHESTRATION_STAGE_NONE
  | ORCHESTRATION_STAGE_IPC_DISPATCHER_START
  | ORCHESTRATION_STAGE_BOOTSTRAP
  | ORCHESTRATION_STAGE_STAGING
  | ORCHESTRATION_STAGE_IED_NAME_RESOLUTION
  | ORCHESTRATION_STAGE_MODEL_LOAD
  | ORCHESTRATION_STAGE_ONLINE_DISCOVERY
  | ORCHESTRATION_STAGE_REPORT_CLIENT_START
  | ORCHESTRATION_STAGE_GOOSE_SUBSCRIBER_START
  | ORCHESTRATION_STAGE_NO_CAPABILITIES

definition OrchestrationUtils_errorToString :: "OrchestrationError \<Rightarrow> string" where
  "OrchestrationUtils_errorToString err =
     (case err of
        ORCHESTRATION_OK \<Rightarrow> ''OK''
      | ORCHESTRATION_ERR_INVALID_ARGUMENT \<Rightarrow> ''invalid argument''
      | ORCHESTRATION_ERR_OUT_OF_MEMORY \<Rightarrow> ''out of memory''
      | ORCHESTRATION_ERR_IPC_DISPATCHER_FAILED \<Rightarrow> ''ipc_dispatcher websocket bind/start failed''
      | ORCHESTRATION_ERR_BOOTSTRAP_FAILED \<Rightarrow> ''SCL bootstrap failed''
      | ORCHESTRATION_ERR_STAGING_FAILED \<Rightarrow> ''temp-file staging failed''
      | ORCHESTRATION_ERR_IED_NAME_RESOLUTION_FAILED \<Rightarrow>
          ''IED name auto-detection failed (zero or multiple <IED> elements)''
      | ORCHESTRATION_ERR_MODEL_LOAD_FAILED \<Rightarrow> ''IED model load failed''
      | ORCHESTRATION_ERR_REPORT_CLIENT_FAILED \<Rightarrow> ''MMS report client start failed''
      | ORCHESTRATION_ERR_GOOSE_SUBSCRIBER_FAILED \<Rightarrow> ''GOOSE subscriber start failed''
      | ORCHESTRATION_ERR_NO_CAPABILITIES \<Rightarrow> ''device has neither MMS report control blocks nor GOOSE control blocks''
      | _ \<Rightarrow> ''unknown orchestration error'')"

definition OrchestrationUtils_stageToString :: "OrchestrationStage \<Rightarrow> string" where
  "OrchestrationUtils_stageToString stage =
     (case stage of
        ORCHESTRATION_STAGE_NONE \<Rightarrow> ''none''
      | ORCHESTRATION_STAGE_IPC_DISPATCHER_START \<Rightarrow> ''ipc_dispatcher start''
      | ORCHESTRATION_STAGE_BOOTSTRAP \<Rightarrow> ''SCL bootstrap''
      | ORCHESTRATION_STAGE_STAGING \<Rightarrow> ''SCL staging''
      | ORCHESTRATION_STAGE_IED_NAME_RESOLUTION \<Rightarrow> ''IED name resolution''
      | ORCHESTRATION_STAGE_MODEL_LOAD \<Rightarrow> ''IED model load''
      | ORCHESTRATION_STAGE_ONLINE_DISCOVERY \<Rightarrow> ''online discovery''
      | ORCHESTRATION_STAGE_REPORT_CLIENT_START \<Rightarrow> ''MMS report client start''
      | ORCHESTRATION_STAGE_GOOSE_SUBSCRIBER_START \<Rightarrow> ''GOOSE subscriber start''
      | ORCHESTRATION_STAGE_NO_CAPABILITIES \<Rightarrow> ''no capabilities'')"

definition OrchestrationUtils_candidateStatusToString :: "SclBootstrapCandidateStatus \<Rightarrow> string" where
  "OrchestrationUtils_candidateStatusToString status =
     (case status of
        SCL_BOOTSTRAP_CANDIDATE_NO_MMS_SERVER \<Rightarrow> ''no MMS server (TCP never connected)''
      | SCL_BOOTSTRAP_CANDIDATE_MMS_CONNECT_FAILED \<Rightarrow> ''MMS association/browse/download failed''
      | SCL_BOOTSTRAP_CANDIDATE_NO_SCL_FILE_FOUND \<Rightarrow>
          ''associated fine, but no SCL file (.icd/.cid/.scd/.ssd/.sed) found in its file directory''
      | SCL_BOOTSTRAP_CANDIDATE_ACCESS_DENIED \<Rightarrow> ''access denied (auth required/rejected)''
      | SCL_BOOTSTRAP_CANDIDATE_DOWNLOAD_FAILED \<Rightarrow> ''SCL file found but download failed''
      | SCL_BOOTSTRAP_CANDIDATE_FILE_RETRIEVED \<Rightarrow> ''file retrieved (unexpected here)'')"

text \<open>The one error of a run that has no text of its own.\<close>

lemma online_discovery_unnamed:
  "OrchestrationUtils_errorToString e = ''unknown orchestration error'' \<longleftrightarrow> e = ORCHESTRATION_ERR_ONLINE_DISCOVERY_FAILED"
  by (cases e) (simp_all add: OrchestrationUtils_errorToString_def)

end
