(* ===== verification/Ied_Discovery_Cidr.thy ===== *)
theory Ied_Discovery_Cidr
  imports Prelude
begin

text \<open>
  \<open>ied_discovery/domain/ied_discovery_cidr.c\<close> and the choice of an interface address in
  \<open>ied_discovery/data/ied_discovery_netif.c\<close>: IPv4 arithmetic on 32-bit words in host byte order,
  the list of addresses of a subnet to probe, and the lemma that a dotted quad names one address.
  The list of addresses of the interfaces is what \<open>getifaddrs\<close> of the C library returned.
\<close>

unbundle bit_operations_syntax

section \<open>Addresses and masks\<close>

definition IedDiscoveryCidr_networkAddress :: "u32 \<Rightarrow> u32 \<Rightarrow> u32" where
  "IedDiscoveryCidr_networkAddress address netmask = address AND netmask"

definition IedDiscoveryCidr_broadcastAddress :: "u32 \<Rightarrow> u32 \<Rightarrow> u32" where
  "IedDiscoveryCidr_broadcastAddress address netmask = (address AND netmask) OR NOT netmask"

definition IedDiscoveryCidr_hostCount :: "u32 \<Rightarrow> u32" where
  "IedDiscoveryCidr_hostCount netmask =
     (let rangeSize = NOT netmask in if rangeSize \<le> 1 then 0 else rangeSize - 1)"

definition IedDiscoveryCidr_isLinkLocal :: "u32 \<Rightarrow> bool" where
  "IedDiscoveryCidr_isLinkLocal address \<longleftrightarrow> address AND 0xFFFF0000 = 0xA9FE0000"

function prefix_bits :: "u32 \<Rightarrow> u32 \<Rightarrow> u32" where
  "prefix_bits netmask bits =
     (if netmask \<noteq> 0 then prefix_bits (drop_bit 1 netmask) (bits + (netmask AND 1)) else bits)"
  by pat_completeness auto
termination
proof (relation "measure (\<lambda>(m, b). unat m)")
  fix m b :: u32 assume "m \<noteq> 0"
  then have "unat m > 0" using unat_gt_0 by blast
  then show "((drop_bit 1 m, b + (m AND 1)), m, b) \<in> measure (\<lambda>(m, b). unat m)"
    by (simp add: drop_bit_Suc unat_div)
qed simp

definition IedDiscoveryCidr_prefixLength :: "u32 \<Rightarrow> u32" where
  "IedDiscoveryCidr_prefixLength netmask = prefix_bits netmask 0"

section \<open>Dotted quads\<close>

text \<open>\<open>%u\<close> of \<open>printf\<close>.\<close>

fun format_u :: "nat \<Rightarrow> string" where
  "format_u n = (if n < 10 then [char_of (48 + n)] else format_u (n div 10) @ [char_of (48 + n mod 10)])"

declare format_u.simps [simp del]

definition byte_at :: "u32 \<Rightarrow> nat \<Rightarrow> u32" where
  "byte_at address i = drop_bit i address AND 0xFF"

definition formatDottedQuad :: "u32 \<Rightarrow> string" where
  "formatDottedQuad address =
     format_u (unat (byte_at address 24)) @ ''.'' @ format_u (unat (byte_at address 16)) @ ''.''
     @ format_u (unat (byte_at address 8)) @ ''.'' @ format_u (unat (address AND 0xFF))"

section \<open>The candidates of a subnet\<close>

lemma unat_Suc_less: "(h :: u32) < b \<Longrightarrow> unat (h + 1) = Suc (unat h)"
  using unsigned_less [of b, where ?'a = nat] by (simp add: word_less_nat_alt unat_word_ariths)

text \<open>The \<open>for\<close> loop; \<open>okIp\<close> tells for which addresses \<open>formatDottedQuad\<close> has memory.\<close>

function candidate_loop :: "(u32 \<Rightarrow> bool) \<Rightarrow> u32 \<Rightarrow> u32 \<Rightarrow> u32 \<Rightarrow> string list \<Rightarrow> string list option" where
  "candidate_loop okIp excludeAddress broadcast host candidates =
     (if \<not> host < broadcast then Some candidates
      else if host = excludeAddress then candidate_loop okIp excludeAddress broadcast (host + 1) candidates
      else if \<not> okIp host then None
      else candidate_loop okIp excludeAddress broadcast (host + 1) (candidates @ [formatDottedQuad host]))"
  by pat_completeness auto
termination
  by (relation "measure (\<lambda>(ok, e, b, h, c). unat b - unat h)")
    (auto simp: unat_Suc_less word_less_nat_alt)

definition IedDiscoveryCidr_buildCandidateList ::
    "bool \<Rightarrow> (u32 \<Rightarrow> bool) \<Rightarrow> u32 \<Rightarrow> u32 \<Rightarrow> u32 \<Rightarrow> u32 \<Rightarrow> string list option" where
  "IedDiscoveryCidr_buildCandidateList okList okIp address netmask excludeAddress maxHosts =
     (if IedDiscoveryCidr_hostCount netmask > maxHosts then None
      else if \<not> okList then None
      else candidate_loop okIp excludeAddress (IedDiscoveryCidr_broadcastAddress address netmask)
             (IedDiscoveryCidr_networkAddress address netmask + 1) [])"

declare candidate_loop.simps [simp del] prefix_bits.simps [simp del]

section \<open>The address of an interface\<close>

text \<open>
  An entry of \<open>getifaddrs\<close>: the address and the mask are \<open>None\<close> where the pointer is \<open>NULL\<close>; the
  address carries its family (\<open>True\<close> for \<open>AF_INET\<close>) and, for that family, the word.
\<close>

record ifaddr =
  ifa_name :: string
  ifa_addr :: "(bool \<times> u32) option"
  ifa_netmask :: "u32 option"
  ifa_up :: bool

text \<open>The loop: the link-local address found so far is \<open>acc\<close>; a routable one ends it.\<close>

fun scan_ifaddrs :: "string \<Rightarrow> ifaddr list \<Rightarrow> (u32 \<times> u32) option \<Rightarrow> (u32 \<times> u32) option" where
  "scan_ifaddrs interfaceId [] linkLocal = linkLocal"
| "scan_ifaddrs interfaceId (ifa # rest) linkLocal =
     (case (ifa_addr ifa, ifa_netmask ifa) of
        (Some (inet, hostAddress), Some hostNetmask) \<Rightarrow>
          if \<not> inet then scan_ifaddrs interfaceId rest linkLocal
          else if ifa_name ifa \<noteq> interfaceId then scan_ifaddrs interfaceId rest linkLocal
          else if \<not> ifa_up ifa then scan_ifaddrs interfaceId rest linkLocal
          else if IedDiscoveryCidr_isLinkLocal hostAddress then
            scan_ifaddrs interfaceId rest
              (if linkLocal = None then Some (hostAddress, hostNetmask) else linkLocal)
          else Some (hostAddress, hostNetmask)
      | _ \<Rightarrow> scan_ifaddrs interfaceId rest linkLocal)"

definition IedDiscoveryNetif_getInterfaceIpv4 :: "ifaddr list option \<Rightarrow> string option \<Rightarrow> (u32 \<times> u32) option" where
  "IedDiscoveryNetif_getInterfaceIpv4 getifaddrs interfaceId =
     (case interfaceId of
        None \<Rightarrow> None
      | Some [] \<Rightarrow> None
      | Some name \<Rightarrow> (case getifaddrs of None \<Rightarrow> None | Some addrs \<Rightarrow> scan_ifaddrs name addrs None))"

section \<open>Dotted quads name one address\<close>

fun value_u :: "string \<Rightarrow> nat" where
  "value_u s = foldl (\<lambda>n c. n * 10 + (of_char c - 48)) 0 s"

lemma value_format_u: "value_u (format_u n) = n"
proof (induction n rule: format_u.induct)
  case (1 n)
  show ?case
  proof (cases "n < 10")
    case True
    then show ?thesis by (simp add: format_u.simps [of n])
  next
    case False
    with 1 have "foldl (\<lambda>n c. n * 10 + (of_char c - 48)) 0 (format_u (n div 10)) = n div 10" by simp
    with False show ?thesis by (simp add: format_u.simps [of n])
  qed
qed

lemma format_u_no_dot: "CHR ''.'' \<notin> set (format_u n)"
proof (induction n rule: format_u.induct)
  case (1 n)
  have "char_of (48 + k) \<noteq> CHR ''.''" if "k < 10" for k :: nat
  proof
    assume "char_of (48 + k) = CHR ''.''"
    then have "of_char (char_of (48 + k)) = (of_char (CHR ''.'') :: nat)" by (rule arg_cong)
    with that show False by simp
  qed
  with 1 show ?case by (simp add: format_u.simps [of n]) (metis mod_less_divisor zero_less_numeral)
qed

lemma split_at_dot:
  assumes "a @ CHR ''.'' # x = b @ CHR ''.'' # y" and "CHR ''.'' \<notin> set a" and "CHR ''.'' \<notin> set b"
  shows "a = b \<and> x = y"
  using assms by (induction a arbitrary: b) (auto simp: Cons_eq_append_conv append_eq_Cons_conv)

lemma format_u_inject: "format_u m = format_u n \<longleftrightarrow> m = n"
  by (metis value_format_u)

lemma unat_byte_at: "unat (byte_at a i) = unat a div 2 ^ i mod 256"
proof -
  have "byte_at a i = take_bit 8 (drop_bit i a)"
    by (simp add: byte_at_def take_bit_eq_mask mask_numeral)
  then have "unat (byte_at a i) = take_bit 8 (unat (drop_bit i a))"
    by (simp only: unsigned_take_bit_eq)
  also have "unat (drop_bit i a) = drop_bit i (unat a)"
    by (rule bit_eqI) (auto simp: bit_simps)
  finally show ?thesis by (simp only: take_bit_eq_mod drop_bit_eq_div) simp
qed

lemma unat_low_byte: "unat (a AND 0xFF :: u32) = unat a mod 256"
  using unat_byte_at [of a 0] by (simp add: byte_at_def)

lemma formatDottedQuad_inject: "formatDottedQuad a = formatDottedQuad b \<longleftrightarrow> a = b"
proof
  assume eq: "formatDottedQuad a = formatDottedQuad b"
  note sp = split_at_dot [OF _ format_u_no_dot format_u_no_dot]
  from eq have e3: "unat (byte_at a 24) = unat (byte_at b 24)"
    and r3: "format_u (unat (byte_at a 16)) @ ''.'' @ format_u (unat (byte_at a 8)) @ ''.'' @ format_u (unat (a AND 0xFF))
      = format_u (unat (byte_at b 16)) @ ''.'' @ format_u (unat (byte_at b 8)) @ ''.'' @ format_u (unat (b AND 0xFF))"
    unfolding formatDottedQuad_def by (auto dest!: sp simp: format_u_inject)
  from r3 have e2: "unat (byte_at a 16) = unat (byte_at b 16)"
    and r2: "format_u (unat (byte_at a 8)) @ ''.'' @ format_u (unat (a AND 0xFF))
      = format_u (unat (byte_at b 8)) @ ''.'' @ format_u (unat (b AND 0xFF))"
    by (auto dest!: sp simp: format_u_inject)
  from r2 have e1: "unat (byte_at a 8) = unat (byte_at b 8)" and e0: "unat (a AND 0xFF) = unat (b AND 0xFF)"
    by (auto dest!: sp simp: format_u_inject)
  have step: "m = n" if "m mod 256 = n mod 256" "m div 256 = n div 256" for m n :: nat
    using that by (metis div_mult_mod_eq)
  have dd: "m div 2 ^ 8 = m div 256" "m div 2 ^ 16 = m div 256 div 256" "m div 2 ^ 24 = m div 256 div 256 div 256"
    for m :: nat by (simp_all add: div_mult2_eq [symmetric])
  have top: "unat w div 256 div 256 div 256 div 256 = 0" for w :: u32
    using unsigned_less [of w, where ?'a = nat] by (simp add: div_mult2_eq [symmetric])
  let ?m = "unat a" and ?n = "unat b"
  from e0 e1 e2 e3 have b: "?m mod 256 = ?n mod 256" "?m div 256 mod 256 = ?n div 256 mod 256"
    "?m div 256 div 256 mod 256 = ?n div 256 div 256 mod 256"
    "?m div 256 div 256 div 256 mod 256 = ?n div 256 div 256 div 256 mod 256"
    by (simp_all only: unat_byte_at unat_low_byte dd)
  have "?m div 256 div 256 div 256 = ?n div 256 div 256 div 256" by (rule step [OF b(4)]) (simp only: top)
  from step [OF b(1) step [OF b(2) step [OF b(3) this]]] have "unat a = unat b" .
  then show "a = b" by (simp add: word_unat_eq_iff)
qed simp


section \<open>The candidates are the usable addresses of the subnet\<close>

definition addresses :: "u32 \<Rightarrow> u32 \<Rightarrow> u32 list" where
  "addresses lo hi = map word_of_nat [unat lo ..< unat hi]"

lemma addresses_Cons: "lo < hi \<Longrightarrow> addresses lo hi = lo # addresses (lo + 1) hi"
  by (simp add: addresses_def word_less_nat_alt upt_conv_Cons unat_Suc_less)

lemma addresses_Nil: "\<not> lo < hi \<Longrightarrow> addresses lo hi = []"
  by (simp add: addresses_def word_less_nat_alt)

lemma length_addresses: "length (addresses lo hi) = unat hi - unat lo"
  by (simp add: addresses_def)

lemma unat_of_less: "n < unat (w :: u32) \<Longrightarrow> unat (word_of_nat n :: u32) = n"
  using unsigned_less [of w, where ?'a = nat] by (simp add: unat_of_nat)

lemma set_addresses: "set (addresses lo hi) = {x. lo \<le> x \<and> x < hi}"
proof (intro set_eqI iffI)
  fix x assume "x \<in> set (addresses lo hi)"
  then obtain n where "x = word_of_nat n" "unat lo \<le> n" "n < unat hi" by (auto simp: addresses_def)
  then show "x \<in> {x. lo \<le> x \<and> x < hi}"
    using unat_of_less [of n hi] by (simp add: word_le_nat_alt word_less_nat_alt)
next
  fix x assume "x \<in> {x. lo \<le> x \<and> x < hi}"
  then show "x \<in> set (addresses lo hi)"
    by (auto simp: addresses_def word_le_nat_alt word_less_nat_alt intro!: image_eqI [of x _ "unat x"])
qed

lemma sorted_addresses: "sorted_wrt (<) (addresses lo hi)"
  unfolding addresses_def sorted_wrt_map
  by (rule sorted_wrt_mono_rel [OF _ sorted_wrt_upt])
    (auto simp: word_less_nat_alt unat_of_less [of _ hi])

lemma distinct_addresses: "distinct (addresses lo hi)"
  using sorted_addresses strict_sorted_iff by blast

lemma candidate_loop_all:
  "(\<And>h. okIp h) \<Longrightarrow> candidate_loop okIp e b h c = Some (c @ map formatDottedQuad (filter (\<lambda>x. x \<noteq> e) (addresses h b)))"
  by (induction okIp e b h c rule: candidate_loop.induct)
    (subst candidate_loop.simps, auto simp: addresses_Cons addresses_Nil)

text \<open>A failed allocation anywhere makes the whole list \<open>NULL\<close>.\<close>

lemma candidate_loop_None:
  "candidate_loop okIp e b h c = None \<longleftrightarrow> (\<exists>x \<in> set (addresses h b). x \<noteq> e \<and> \<not> okIp x)"
  by (induction okIp e b h c rule: candidate_loop.induct)
    (subst candidate_loop.simps, auto simp: addresses_Cons addresses_Nil)

definition netmask_of :: "nat \<Rightarrow> u32" where
  "netmask_of hostBits = NOT (mask hostBits)"

definition subnet :: "u32 \<Rightarrow> u32 \<Rightarrow> u32 set" where
  "subnet address netmask = {x. x AND netmask = address AND netmask}"

lemma unat_network: "unat (x AND netmask_of n) = unat x div 2 ^ n * 2 ^ n"
proof -
  have "unat (x AND netmask_of n) = push_bit n (drop_bit n (unat x))"
    by (rule bit_eqI) (auto simp: netmask_of_def bit_simps dest: bit_imp_le_length)
  then show ?thesis by (simp only: push_bit_eq_mult drop_bit_eq_div)
qed

lemma unat_broadcast:
  assumes "n \<le> 32"
  shows "unat (IedDiscoveryCidr_broadcastAddress a (netmask_of n)) = unat a div 2 ^ n * 2 ^ n + (2 ^ n - 1)"
proof -
  have "unat (IedDiscoveryCidr_broadcastAddress a (netmask_of n)) = push_bit n (drop_bit n (unat a)) OR mask n"
    using assms by (intro bit_eqI) (auto simp: IedDiscoveryCidr_broadcastAddress_def netmask_of_def bit_simps dest: bit_imp_le_length)
  also have "\<dots> = push_bit n (drop_bit n (unat a)) + mask n"
    by (rule disjunctive_add_eq_or [symmetric], rule bit_eqI) (auto simp: bit_simps)
  finally show ?thesis by (simp only: push_bit_eq_mult drop_bit_eq_div mask_eq_exp_minus_1)
qed

lemma subnet_between:
  assumes "n \<le> 32"
  shows "(unat a div 2 ^ n * 2 ^ n < unat x \<and> unat x < unat a div 2 ^ n * 2 ^ n + (2 ^ n - 1)) \<longleftrightarrow>
    x \<in> subnet a (netmask_of n) - {IedDiscoveryCidr_networkAddress a (netmask_of n),
        IedDiscoveryCidr_broadcastAddress a (netmask_of n)}"
proof -
  let ?q = "unat a div 2 ^ n" and ?B = "(2 :: nat) ^ n"
  have "x \<in> subnet a (netmask_of n) \<longleftrightarrow> unat x div ?B = ?q"
    by (simp add: subnet_def word_unat_eq_iff unat_network)
  moreover have "x \<noteq> IedDiscoveryCidr_networkAddress a (netmask_of n) \<longleftrightarrow> unat x \<noteq> ?q * ?B"
    by (simp add: IedDiscoveryCidr_networkAddress_def word_unat_eq_iff unat_network)
  moreover have "x \<noteq> IedDiscoveryCidr_broadcastAddress a (netmask_of n) \<longleftrightarrow> unat x \<noteq> ?q * ?B + (?B - 1)"
    using assms by (simp add: word_unat_eq_iff unat_broadcast)
  moreover have "unat x div ?B = ?q \<longleftrightarrow> ?q * ?B \<le> unat x \<and> unat x < ?q * ?B + ?B"
  proof
    assume "unat x div ?B = ?q"
    moreover have "unat x = unat x div ?B * ?B + unat x mod ?B" "unat x mod ?B < ?B"
      by (simp_all only: div_mult_mod_eq) simp
    ultimately show "?q * ?B \<le> unat x \<and> unat x < ?q * ?B + ?B"
      by (metis le_add1 nat_add_left_cancel_less)
  next
    assume "?q * ?B \<le> unat x \<and> unat x < ?q * ?B + ?B"
    then show "unat x div ?B = ?q" by (intro div_nat_eqI) (simp_all add: mult.commute)
  qed
  moreover have "?q * ?B < unat x \<and> unat x < ?q * ?B + (?B - 1) \<longleftrightarrow>
      (?q * ?B \<le> unat x \<and> unat x < ?q * ?B + ?B) \<and> unat x \<noteq> ?q * ?B \<and> unat x \<noteq> ?q * ?B + (?B - 1)"
    using zero_less_power [of "2 :: nat" n] by linarith
  ultimately show ?thesis by simp
qed


lemma hostCount_netmask:
  assumes "n \<le> 32"
  shows "unat (IedDiscoveryCidr_hostCount (netmask_of n)) = 2 ^ n - 2"
proof -
  have m: "unat (mask n :: u32) = 2 ^ n - 1"
  proof -
    have "unat (mask n :: u32) = mask n" using assms by (intro bit_eqI) (auto simp: bit_simps)
    then show ?thesis by (simp only: mask_eq_exp_minus_1)
  qed
  show ?thesis
  proof (cases "n \<le> 1")
    case True
    then have "n = 0 \<or> n = 1" by linarith
    with m show ?thesis
      by (auto simp: IedDiscoveryCidr_hostCount_def netmask_of_def Let_def)
  next
    case False
    then have "(2 :: nat) ^ 2 \<le> 2 ^ n" by (intro power_increasing) simp_all
    then have "unat (mask n - 1 :: u32) = 2 ^ n - 2" "\<not> (mask n :: u32) \<le> 1"
      using m by (simp_all add: unat_sub word_le_nat_alt)
    then show ?thesis by (simp add: IedDiscoveryCidr_hostCount_def netmask_of_def Let_def)
  qed
qed

definition between :: "u32 \<Rightarrow> u32 \<Rightarrow> u32 list" where
  "between address netmask = addresses (IedDiscoveryCidr_networkAddress address netmask + 1)
     (IedDiscoveryCidr_broadcastAddress address netmask)"

lemma candidates_facts:
  assumes n: "n \<le> 32" and host: "\<not> (n = 0 \<and> address = - 1)"
    and fits: "IedDiscoveryCidr_hostCount (netmask_of n) \<le> maxHosts"
  shows "IedDiscoveryCidr_buildCandidateList True (\<lambda>_. True) address (netmask_of n) exclude maxHosts
      = Some (map formatDottedQuad (filter (\<lambda>x. x \<noteq> exclude) (between address (netmask_of n))))"
    and "set (between address (netmask_of n))
      = subnet address (netmask_of n) - {IedDiscoveryCidr_networkAddress address (netmask_of n),
          IedDiscoveryCidr_broadcastAddress address (netmask_of n)}"
    and "length (between address (netmask_of n)) \<le> unat (IedDiscoveryCidr_hostCount (netmask_of n))"
proof -
  let ?net = "IedDiscoveryCidr_networkAddress address (netmask_of n)"
  let ?bc = "IedDiscoveryCidr_broadcastAddress address (netmask_of n)"
  have net: "unat ?net = unat address div 2 ^ n * 2 ^ n"
    by (simp add: IedDiscoveryCidr_networkAddress_def unat_network)
  have bc: "unat ?bc = unat ?net + (2 ^ n - 1)" using n net by (simp add: unat_broadcast)
  have top: "unat ?net \<noteq> 2 ^ 32 - 1"
  proof
    assume a: "unat ?net = 2 ^ 32 - 1"
    have "unat ?bc < 2 ^ 32" using unsigned_less [of ?bc, where ?'a = nat] by simp
    with bc a have "(2 :: nat) ^ n \<le> 1" by simp
    then have "n = 0" using one_less_power [of "2 :: nat" n] by (cases "n = 0") simp_all
    with a net have "unat address = 2 ^ 32 - 1" by simp
    then have "address = - 1" by (simp add: word_unat_eq_iff unsigned_minus_1_eq_mask mask_eq_exp_minus_1)
    with host \<open>n = 0\<close> show False by simp
  qed
  moreover have "unat ?net < 2 ^ 32" using unsigned_less [of ?net, where ?'a = nat] by simp
  ultimately have n1: "unat (?net + 1) = Suc (unat ?net)" by (simp add: unat_word_ariths)
  show "IedDiscoveryCidr_buildCandidateList True (\<lambda>_. True) address (netmask_of n) exclude maxHosts
      = Some (map formatDottedQuad (filter (\<lambda>x. x \<noteq> exclude) (between address (netmask_of n))))"
    using fits by (simp add: IedDiscoveryCidr_buildCandidateList_def candidate_loop_all between_def not_less)
  show "set (between address (netmask_of n)) = subnet address (netmask_of n) - {?net, ?bc}"
  proof (intro set_eqI)
    fix x
    show "x \<in> set (between address (netmask_of n)) \<longleftrightarrow> x \<in> subnet address (netmask_of n) - {?net, ?bc}"
      using subnet_between [OF n, of address x] n1 net bc
      by (auto simp: between_def set_addresses word_le_nat_alt word_less_nat_alt)
  qed
  show "length (between address (netmask_of n)) \<le> unat (IedDiscoveryCidr_hostCount (netmask_of n))"
    using n bc by (simp add: between_def length_addresses n1 hostCount_netmask)
qed

text \<open>C1 The candidates of a subnet are, in ascending order and each once, exactly the usable
  addresses of the subnet (neither the network nor the broadcast address) other than the
  interface's own, at most \<open>maxHosts\<close> of them.\<close>

theorem candidates_exact:
  assumes "n \<le> 32" and "\<not> (n = 0 \<and> address = - 1)"
    and "IedDiscoveryCidr_hostCount (netmask_of n) \<le> maxHosts"
  shows "\<exists>as. IedDiscoveryCidr_buildCandidateList True (\<lambda>_. True) address (netmask_of n) exclude maxHosts
      = Some (map formatDottedQuad as)
    \<and> sorted_wrt (<) as \<and> distinct (map formatDottedQuad as) \<and> length as \<le> unat maxHosts
    \<and> set as = subnet address (netmask_of n)
        - {IedDiscoveryCidr_networkAddress address (netmask_of n),
           IedDiscoveryCidr_broadcastAddress address (netmask_of n), exclude}"
proof -
  let ?as = "between address (netmask_of n)"
  let ?f = "filter (\<lambda>x. x \<noteq> exclude) ?as"
  have "length ?f \<le> length ?as" by simp
  also have "\<dots> \<le> unat maxHosts"
    using candidates_facts(3) [OF assms] assms(3) by (simp add: word_le_nat_alt)
  finally have "length ?f \<le> unat maxHosts" .
  moreover have "sorted_wrt (<) ?f" unfolding between_def using sorted_addresses by (rule sorted_wrt_filter)
  moreover have "distinct (map formatDottedQuad ?f)"
    using distinct_addresses by (auto simp: between_def distinct_map inj_on_def formatDottedQuad_inject)
  ultimately show ?thesis
    using candidates_facts(1,2) [OF assms] by (intro exI [of _ ?f]) auto
qed

lemma candidates_exact_witness:
  "\<exists>as. IedDiscoveryCidr_buildCandidateList True (\<lambda>_. True) 0xC0A80132 (netmask_of 8) 0xC0A80132 1024
      = Some (map formatDottedQuad as)
    \<and> length as \<le> unat (1024 :: u32)
    \<and> set as = subnet 0xC0A80132 (netmask_of 8)
        - {IedDiscoveryCidr_networkAddress 0xC0A80132 (netmask_of 8),
           IedDiscoveryCidr_broadcastAddress 0xC0A80132 (netmask_of 8), 0xC0A80132}"
proof -
  have "IedDiscoveryCidr_hostCount (netmask_of 8) \<le> 1024"
    by (simp add: word_le_nat_alt hostCount_netmask)
  from candidates_exact [of 8 "0xC0A80132", OF _ _ this, of "0xC0A80132"] show ?thesis by auto
qed

text \<open>
  The one address the list is wrong for: a /32 interface at 255.255.255.255 has no usable host,
  and the loop runs through the whole address space.
\<close>

lemma candidates_of_last_address:
  "IedDiscoveryCidr_hostCount (netmask_of 0) = 0 \<and>
   (\<exists>l. IedDiscoveryCidr_buildCandidateList True (\<lambda>_. True) (- 1) (netmask_of 0) (- 1) 1024 = Some l
     \<and> length l = 2 ^ 32 - 1)"
proof -
  have h: "IedDiscoveryCidr_hostCount (netmask_of 0) = 0"
    by (simp add: IedDiscoveryCidr_hostCount_def netmask_of_def)
  have "filter (\<lambda>x. x \<noteq> - 1) (addresses 0 (- 1)) = addresses 0 (- 1)"
    unfolding filter_id_conv by (auto simp: set_addresses)
  moreover have "length (addresses 0 (- 1)) = 2 ^ 32 - 1"
    by (simp add: length_addresses unsigned_minus_1_eq_mask mask_eq_exp_minus_1)
  ultimately show ?thesis using h
    by (simp add: IedDiscoveryCidr_buildCandidateList_def candidate_loop_all
        IedDiscoveryCidr_networkAddress_def IedDiscoveryCidr_broadcastAddress_def netmask_of_def)
qed

section \<open>Which address of an interface\<close>

definition usable_ifaddr :: "string \<Rightarrow> ifaddr \<Rightarrow> bool" where
  "usable_ifaddr interfaceId ifa \<longleftrightarrow> ifa_name ifa = interfaceId \<and> ifa_up ifa
     \<and> (\<exists>a m. ifa_addr ifa = Some (True, a) \<and> ifa_netmask ifa = Some m)"

definition ifaddr_pair :: "ifaddr \<Rightarrow> u32 \<times> u32" where
  "ifaddr_pair ifa = (snd (the (ifa_addr ifa)), the (ifa_netmask ifa))"

text \<open>The routable addresses come first, whatever the order the kernel lists them in.\<close>

definition preferred :: "string \<Rightarrow> ifaddr list \<Rightarrow> (u32 \<times> u32) list" where
  "preferred interfaceId addrs =
     (let us = map ifaddr_pair (filter (usable_ifaddr interfaceId) addrs)
      in filter (\<lambda>p. \<not> IedDiscoveryCidr_isLinkLocal (fst p)) us @ filter (\<lambda>p. IedDiscoveryCidr_isLinkLocal (fst p)) us)"

definition first_of :: "'a list \<Rightarrow> 'a option" where
  "first_of xs = (case xs of [] \<Rightarrow> None | x # _ \<Rightarrow> Some x)"

lemma first_of_simps [simp]: "first_of [] = None" "first_of (x # xs) = Some x"
  "first_of (xs @ ys) = (case first_of xs of None \<Rightarrow> first_of ys | Some x \<Rightarrow> Some x)"
  by (auto simp: first_of_def split: list.splits)

lemma scan_ifaddrs_preferred:
  "scan_ifaddrs interfaceId addrs acc =
     (let us = map ifaddr_pair (filter (usable_ifaddr interfaceId) addrs)
      in first_of (filter (\<lambda>p. \<not> IedDiscoveryCidr_isLinkLocal (fst p)) us
           @ (case acc of None \<Rightarrow> [] | Some p \<Rightarrow> [p])
           @ filter (\<lambda>p. IedDiscoveryCidr_isLinkLocal (fst p)) us))"
proof (induction addrs arbitrary: acc)
  case Nil
  then show ?case by (simp split: option.splits)
next
  case (Cons ifa rest)
  show ?case
  proof (cases "usable_ifaddr interfaceId ifa")
    case True
    then obtain a m where "ifa_addr ifa = Some (True, a)" "ifa_netmask ifa = Some m"
      "ifa_name ifa = interfaceId" "ifa_up ifa" by (auto simp: usable_ifaddr_def)
    note ifa = this
    then have hd: "map ifaddr_pair (filter (usable_ifaddr interfaceId) (ifa # rest))
        = (a, m) # map ifaddr_pair (filter (usable_ifaddr interfaceId) rest)"
      using True by (simp add: ifaddr_pair_def)
    have step: "scan_ifaddrs interfaceId (ifa # rest) acc =
        (if IedDiscoveryCidr_isLinkLocal a then
           scan_ifaddrs interfaceId rest (if acc = None then Some (a, m) else acc)
         else Some (a, m))"
      using ifa by simp
    show ?thesis
    proof (cases "IedDiscoveryCidr_isLinkLocal a")
      case False
      then show ?thesis unfolding step hd Let_def by simp
    next
      case ll: True
      have IH: "scan_ifaddrs interfaceId rest (if acc = None then Some (a, m) else acc) =
         (let us = map ifaddr_pair (filter (usable_ifaddr interfaceId) rest)
          in first_of (filter (\<lambda>p. \<not> IedDiscoveryCidr_isLinkLocal (fst p)) us
               @ (case if acc = None then Some (a, m) else acc of None \<Rightarrow> [] | Some p \<Rightarrow> [p])
               @ filter (\<lambda>p. IedDiscoveryCidr_isLinkLocal (fst p)) us))"
        by (rule Cons.IH)
      show ?thesis unfolding step hd Let_def using ll IH
        by (cases acc) (simp_all add: Let_def split: option.split)
    qed
  next
    case False
    then have "scan_ifaddrs interfaceId (ifa # rest) acc = scan_ifaddrs interfaceId rest acc"
      by (auto simp: usable_ifaddr_def split: option.splits)
    with False Cons.IH [of acc] show ?thesis by simp
  qed
qed

text \<open>C1 The address a scan is derived from is the first routable IPv4 address of the named
  interface when it is up and has one, otherwise its first link-local one, otherwise none,
  whatever order the addresses are listed in.\<close>

theorem interface_address_preferred:
  "IedDiscoveryNetif_getInterfaceIpv4 (Some addrs) (Some (c # name)) = first_of (preferred (c # name) addrs)"
  by (simp add: IedDiscoveryNetif_getInterfaceIpv4_def scan_ifaddrs_preferred preferred_def Let_def)

end
