(* ===== verification/Scl_Probe.thy ===== *)
theory Scl_Probe
  imports Prelude
begin

text \<open>
  \<open>scl_bootstrap/data/scl_bootstrap_tcp_probe.c\<close>: the TCP probe of a list of hosts, with a
  sliding window of asynchronous connects. The sockets, the clock and \<open>Thread_sleep\<close> are the
  platform layer of libiec61850: their answers are functions of the history of calls, kept as a
  trace with the latest call first, so that any behaviour of the network is one environment.
  A socket is named by the index of the host it was created for. The outer loop is a
  \<open>partial_function\<close>: that it ends is a theorem under a clock that advances while the loop sleeps.
\<close>

section \<open>The platform\<close>

datatype socket_state = SOCKET_STATE_CONNECTING | SOCKET_STATE_CONNECTED | SOCKET_STATE_FAILED

datatype probe_event =
    EvCreate nat bool                 \<comment> \<open>\<open>TcpSocket_create\<close> for a host, and whether it gave a socket\<close>
  | EvConnect nat string int bool     \<comment> \<open>\<open>Socket_connectAsync\<close>\<close>
  | EvCheck nat socket_state          \<comment> \<open>\<open>Socket_checkAsyncConnectState\<close>\<close>
  | EvDestroy nat                     \<comment> \<open>\<open>Socket_destroy\<close>\<close>
  | EvSleep nat                       \<comment> \<open>\<open>Thread_sleep\<close>, in milliseconds\<close>

type_synonym probe_trace = "probe_event list"

record probe_env =
  pe_create :: "probe_trace \<Rightarrow> nat \<Rightarrow> bool"
  pe_connect :: "probe_trace \<Rightarrow> string \<Rightarrow> int \<Rightarrow> bool"
  pe_check :: "probe_trace \<Rightarrow> nat \<Rightarrow> socket_state"
  pe_clock :: "probe_trace \<Rightarrow> u64" \<comment> \<open>\<open>Hal_getTimeInMs\<close>\<close>

section \<open>The scan\<close>

definition POLL_INTERVAL_MS :: nat where "POLL_INTERVAL_MS = 10"

record probe_slot =
  ps_hostIndex :: "nat option" \<comment> \<open>\<open>None\<close> for \<open>-1\<close>\<close>
  ps_startTimeMs :: u64

definition empty_slot :: probe_slot where
  "empty_slot = \<lparr>ps_hostIndex = None, ps_startTimeMs = 0\<rparr>"

record probe_state =
  pr_reachable :: "bool list"
  pr_nextToStart :: nat
  pr_remaining :: nat
  pr_trace :: probe_trace

text \<open>The body of the filling loop for an empty slot.\<close>

definition start_probe :: "probe_env \<Rightarrow> string list \<Rightarrow> int \<Rightarrow> probe_slot \<Rightarrow> probe_state \<Rightarrow> probe_slot \<times> probe_state" where
  "start_probe env hosts port sl st =
     (let k = pr_nextToStart st;
          sock = pe_create env (pr_trace st) k;
          tr = EvCreate k sock # pr_trace st;
          failed = st\<lparr>pr_reachable := (pr_reachable st)[k := False], pr_nextToStart := k + 1,
                      pr_remaining := pr_remaining st - 1\<rparr>
      in if \<not> sock then (sl, failed\<lparr>pr_trace := tr\<rparr>)
         else let ok = pe_connect env tr (hosts ! k) port;
                  tr = EvConnect k (hosts ! k) port ok # tr
              in if \<not> ok then (sl, failed\<lparr>pr_trace := EvDestroy k # tr\<rparr>)
                 else (sl\<lparr>ps_hostIndex := Some k, ps_startTimeMs := pe_clock env tr\<rparr>,
                       st\<lparr>pr_nextToStart := k + 1, pr_trace := tr\<rparr>))"

fun fill_slots :: "probe_env \<Rightarrow> string list \<Rightarrow> int \<Rightarrow> probe_slot list \<Rightarrow> probe_state \<Rightarrow> probe_slot list \<times> probe_state" where
  "fill_slots env hosts port [] st = ([], st)"
| "fill_slots env hosts port (sl # rest) st =
     (if \<not> pr_nextToStart st < length hosts then (sl # rest, st)
      else if ps_hostIndex sl \<noteq> None then
        let (rest', st') = fill_slots env hosts port rest st in (sl # rest', st')
      else
        let (sl', st1) = start_probe env hosts port sl st;
            (rest', st') = fill_slots env hosts port rest st1
        in (sl' # rest', st'))"

text \<open>One slot of the polling loop; the last component is \<open>anyResolvedThisRound\<close>.\<close>

definition check_slot :: "probe_env \<Rightarrow> u32 \<Rightarrow> probe_slot \<Rightarrow> probe_state \<Rightarrow> probe_slot \<times> probe_state \<times> bool" where
  "check_slot env timeoutMs sl st =
     (case ps_hostIndex sl of
        None \<Rightarrow> (sl, st, False)
      | Some k \<Rightarrow>
          let state = pe_check env (pr_trace st) k;
              tr = EvCheck k state # pr_trace st;
              elapsed = pe_clock env tr - ps_startTimeMs sl
          in if state = SOCKET_STATE_CONNECTED then
               (sl\<lparr>ps_hostIndex := None\<rparr>,
                st\<lparr>pr_reachable := (pr_reachable st)[k := True], pr_remaining := pr_remaining st - 1,
                   pr_trace := EvDestroy k # tr\<rparr>, True)
             else if state = SOCKET_STATE_FAILED \<or> elapsed \<ge> ucast timeoutMs then
               (sl\<lparr>ps_hostIndex := None\<rparr>,
                st\<lparr>pr_reachable := (pr_reachable st)[k := False], pr_remaining := pr_remaining st - 1,
                   pr_trace := EvDestroy k # tr\<rparr>, True)
             else (sl, st\<lparr>pr_trace := tr\<rparr>, False))"

fun check_slots :: "probe_env \<Rightarrow> u32 \<Rightarrow> probe_slot list \<Rightarrow> probe_state \<Rightarrow> probe_slot list \<times> probe_state \<times> bool" where
  "check_slots env timeoutMs [] st = ([], st, False)"
| "check_slots env timeoutMs (sl # rest) st =
     (let (sl', st1, r1) = check_slot env timeoutMs sl st;
          (rest', st', r2) = check_slots env timeoutMs rest st1
      in (sl' # rest', st', r1 \<or> r2))"

definition probe_round :: "probe_env \<Rightarrow> string list \<Rightarrow> int \<Rightarrow> u32 \<Rightarrow> probe_slot list \<Rightarrow> probe_state \<Rightarrow> probe_slot list \<times> probe_state" where
  "probe_round env hosts port timeoutMs slots st =
     (let (slots1, st1) = fill_slots env hosts port slots st;
          (slots2, st2, anyResolvedThisRound) = check_slots env timeoutMs slots1 st1
      in (slots2, if \<not> anyResolvedThisRound \<and> pr_remaining st2 > 0
                  then st2\<lparr>pr_trace := EvSleep POLL_INTERVAL_MS # pr_trace st2\<rparr> else st2))"

partial_function (option) probe_loop ::
    "probe_env \<Rightarrow> string list \<Rightarrow> int \<Rightarrow> u32 \<Rightarrow> probe_slot list \<Rightarrow> probe_state \<Rightarrow> probe_state option" where
  "probe_loop env hosts port timeoutMs slots st =
     (if pr_remaining st > 0 then
        let (slots', st') = probe_round env hosts port timeoutMs slots st
        in probe_loop env hosts port timeoutMs slots' st'
      else Some st)"

text \<open>
  The outer option is the loop that does not end, the inner one the \<open>NULL\<close> result; the flags are
  the two \<open>calloc\<close> calls. \<open>LinkedList_size\<close> of a list that is not NULL is its length.
\<close>

definition probe_width :: "int \<Rightarrow> nat \<Rightarrow> nat" where
  "probe_width maxConcurrent n =
     (let m = if maxConcurrent < 1 then 1 else maxConcurrent
      in if m > int n then n else nat m)"

definition probe_init :: "nat \<Rightarrow> probe_trace \<Rightarrow> probe_state" where
  "probe_init n tr = \<lparr>pr_reachable = replicate n False, pr_nextToStart = 0,
     pr_remaining = n, pr_trace = tr\<rparr>"

definition SclBootstrapTcpProbe_scan ::
    "probe_env \<Rightarrow> bool \<Rightarrow> bool \<Rightarrow> string list option \<Rightarrow> int \<Rightarrow> u32 \<Rightarrow> int \<Rightarrow> probe_trace
      \<Rightarrow> (bool list option \<times> probe_trace) option" where
  "SclBootstrapTcpProbe_scan env okReach okSlots hostList port timeoutMs maxConcurrent tr =
     (case hostList of
        None \<Rightarrow> Some (None, tr)
      | Some hosts \<Rightarrow>
          if hosts = [] then Some (None, tr)
          else if \<not> okReach \<or> \<not> okSlots then Some (None, tr)
          else
            map_option (\<lambda>st. (Some (pr_reachable st), pr_trace st))
              (probe_loop env hosts port timeoutMs
                 (replicate (probe_width maxConcurrent (length hosts)) empty_slot)
                 (probe_init (length hosts) tr)))"


section \<open>What the calls of a scan amount to\<close>

text \<open>The sockets open after a history, the most that were open at once, the hosts tried, and the
  time slept.\<close>

fun opened :: "probe_trace \<Rightarrow> nat set" where
  "opened [] = {}"
| "opened (EvCreate k ok # t) = (if ok then insert k (opened t) else opened t)"
| "opened (EvDestroy k # t) = opened t - {k}"
| "opened (_ # t) = opened t"

fun peak :: "probe_trace \<Rightarrow> nat" where
  "peak [] = 0"
| "peak (e # t) = max (card (opened (e # t))) (peak t)"

fun tried :: "probe_trace \<Rightarrow> nat list" where
  "tried [] = []"
| "tried (EvCreate k ok # t) = tried t @ [k]"
| "tried (_ # t) = tried t"

fun slept :: "probe_trace \<Rightarrow> nat" where
  "slept [] = 0"
| "slept (EvSleep ms # t) = ms + slept t"
| "slept (_ # t) = slept t"

lemma slept_append [simp]: "slept (a @ b) = slept a + slept b"
  by (induction a rule: slept.induct) auto

fun occ :: "probe_slot list \<Rightarrow> nat list" where
  "occ [] = []"
| "occ (sl # rest) = (case ps_hostIndex sl of None \<Rightarrow> occ rest | Some k \<Rightarrow> k # occ rest)"

lemma occ_append [simp]: "occ (xs @ ys) = occ xs @ occ ys"
  by (induction xs) (auto split: option.splits)

lemma length_occ: "length (occ xs) \<le> length xs"
  by (induction xs) (auto split: option.splits)

lemma hostIndex_empty_slot [simp]: "ps_hostIndex empty_slot = None"
  by (simp add: empty_slot_def)

lemma occ_replicate [simp]: "occ (replicate n empty_slot) = []"
  by (induction n) auto

lemma set_occ: "k \<in> set (occ xs) \<longleftrightarrow> (\<exists>sl \<in> set xs. ps_hostIndex sl = Some k)"
  by (induction xs) (auto split: option.splits)

section \<open>The invariant of the window\<close>

definition started_in :: "probe_env \<Rightarrow> probe_trace \<Rightarrow> probe_trace \<Rightarrow> probe_slot \<Rightarrow> bool" where
  "started_in env tr0 evs sl \<longleftrightarrow>
     (ps_hostIndex sl \<noteq> None \<longrightarrow> (\<exists>e2 e1. evs = e2 @ e1 \<and> ps_startTimeMs sl = pe_clock env (e1 @ tr0)))"

definition probe_inv ::
    "probe_env \<Rightarrow> string list \<Rightarrow> probe_trace \<Rightarrow> probe_slot list \<Rightarrow> probe_state \<Rightarrow> probe_trace \<Rightarrow> bool" where
  "probe_inv env hosts tr0 slots st evs \<longleftrightarrow>
     pr_trace st = evs @ tr0 \<and> length (pr_reachable st) = length hosts
     \<and> pr_nextToStart st \<le> length hosts
     \<and> distinct (occ slots) \<and> (\<forall>k \<in> set (occ slots). k < pr_nextToStart st)
     \<and> pr_remaining st = length hosts - pr_nextToStart st + length (occ slots)
     \<and> opened evs = set (occ slots) \<and> peak evs \<le> length slots
     \<and> tried evs = [0..<pr_nextToStart st]
     \<and> (\<forall>k < length hosts. pr_reachable st ! k \<longleftrightarrow> EvCheck k SOCKET_STATE_CONNECTED \<in> set evs)
     \<and> (\<forall>k. EvCheck k SOCKET_STATE_CONNECTED \<in> set evs \<longrightarrow> k < pr_nextToStart st \<and> k \<notin> set (occ slots))
     \<and> (\<forall>sl \<in> set slots. started_in env tr0 evs sl)"

lemma started_in_None [simp]: "ps_hostIndex sl = None \<Longrightarrow> started_in env tr0 evs sl"
  by (simp add: started_in_def)

lemma probe_inv_init: "probe_inv env hosts tr0 (replicate w empty_slot) (probe_init (length hosts) tr0) []"
  by (auto simp: probe_inv_def probe_init_def)

lemma started_in_more: "started_in env tr0 evs sl \<Longrightarrow> started_in env tr0 (e # evs) sl"
  unfolding started_in_def by (metis append_Cons)

lemma card_occ_less:
  assumes "distinct (occ (xs @ sl # ys))" and "ps_hostIndex sl = None"
  shows "card (set (occ (xs @ sl # ys))) < length (xs @ sl # ys)"
  using assms length_occ [of xs] length_occ [of ys] by (simp add: distinct_card [symmetric] card_Un_disjoint)

lemma start_probe_inv:
  assumes inv: "probe_inv env hosts tr0 (xs @ sl # ys) st evs"
    and nxt: "pr_nextToStart st < length hosts" and empty: "ps_hostIndex sl = None"
    and step: "start_probe env hosts port sl st = (sl', st')"
  shows "\<exists>new. probe_inv env hosts tr0 (xs @ sl' # ys) st' (new @ evs) \<and> slept new = 0
    \<and> (ps_hostIndex sl' = None \<longrightarrow> pr_remaining st' < pr_remaining st)
    \<and> pr_remaining st' \<le> pr_remaining st"
proof -
  let ?k = "pr_nextToStart st"
  let ?occ = "set (occ xs) \<union> set (occ ys)"
  have o: "opened evs = ?occ" "?k \<notin> ?occ" "finite ?occ" "tried evs = [0..<?k]"
    using inv empty by (auto simp: probe_inv_def)
  have card: "card ?occ < length xs + length ys + 1"
    using card_occ_less [OF _ empty, of xs ys] inv empty by (simp add: probe_inv_def)
  have nc: "EvCheck ?k SOCKET_STATE_CONNECTED \<notin> set evs"
    using inv by (auto simp: probe_inv_def)
  have ins: "insert ?k ?occ - {?k} = ?occ" using o(2) by auto
  show ?thesis
    using step
  proof (cases "pe_create env (pr_trace st) ?k")
    case False
    with step have "sl' = sl" "st' = st\<lparr>pr_reachable := (pr_reachable st)[?k := False],
        pr_nextToStart := ?k + 1, pr_remaining := pr_remaining st - 1,
        pr_trace := EvCreate ?k False # pr_trace st\<rparr>"
      by (auto simp: start_probe_def Let_def)
    with inv nxt empty card o nc show ?thesis
      by (intro exI [of _ "[EvCreate ?k False]"])
        (auto simp: probe_inv_def nth_list_update started_in_more Suc_diff_Suc less_Suc_eq)
  next
    case True
    let ?tr = "EvCreate ?k True # pr_trace st"
    define ok where "ok = pe_connect env ?tr (hosts ! ?k) port"
    show ?thesis
    proof (cases ok)
      case False
      with True step ok_def have "sl' = sl" "st' = st\<lparr>pr_reachable := (pr_reachable st)[?k := False],
          pr_nextToStart := ?k + 1, pr_remaining := pr_remaining st - 1,
          pr_trace := EvDestroy ?k # EvConnect ?k (hosts ! ?k) port False # ?tr\<rparr>"
        by (auto simp: start_probe_def Let_def)
      with inv nxt empty card o nc ins show ?thesis
        by (intro exI [of _ "[EvDestroy ?k, EvConnect ?k (hosts ! ?k) port False, EvCreate ?k True]"])
          (auto simp: probe_inv_def nth_list_update started_in_more Suc_diff_Suc less_Suc_eq)
    next
      case ok: True
      let ?tr2 = "EvConnect ?k (hosts ! ?k) port True # ?tr"
      from ok True step ok_def have st': "sl' = sl\<lparr>ps_hostIndex := Some ?k, ps_startTimeMs := pe_clock env ?tr2\<rparr>"
        "st' = st\<lparr>pr_nextToStart := ?k + 1, pr_trace := ?tr2\<rparr>"
        by (auto simp: start_probe_def Let_def)
      have "started_in env tr0 ([EvConnect ?k (hosts ! ?k) port True, EvCreate ?k True] @ evs) sl'"
        using st' inv unfolding started_in_def probe_inv_def
        by (metis append.left_neutral append_Cons probe_slot.select_convs(2) probe_slot.surjective probe_slot.update_convs(1,2))
      with st' inv nxt empty card o nc ins show ?thesis
        by (intro exI [of _ "[EvConnect ?k (hosts ! ?k) port True, EvCreate ?k True]"])
          (auto simp: probe_inv_def nth_list_update started_in_more Suc_diff_Suc less_Suc_eq)
    qed
  qed
qed


lemma fill_slots_inv:
  "probe_inv env hosts tr0 (xs @ slots) st evs \<Longrightarrow> fill_slots env hosts port slots st = (slots', st') \<Longrightarrow>
   \<exists>new. probe_inv env hosts tr0 (xs @ slots') st' (new @ evs) \<and> slept new = 0
     \<and> length slots' = length slots \<and> pr_remaining st' \<le> pr_remaining st
     \<and> (pr_remaining st' = pr_remaining st \<longrightarrow> pr_nextToStart st' < length hosts
          \<longrightarrow> (\<forall>sl \<in> set slots'. ps_hostIndex sl \<noteq> None))"
proof (induction env hosts port slots st arbitrary: xs evs slots' st' rule: fill_slots.induct)
  case (1 env hosts port st)
  then show ?case by (intro exI [of _ "[]"]) simp
next
  case (2 env hosts port sl rest st)
  show ?case
  proof (cases "pr_nextToStart st < length hosts")
    case False
    with 2 show ?thesis by (intro exI [of _ "[]"]) auto
  next
    case more: True
    show ?thesis
    proof (cases "ps_hostIndex sl")
      case (Some k)
      obtain rest' st1 where r: "fill_slots env hosts port rest st = (rest', st1)"
        by fastforce
      with 2(4) more Some have e: "slots' = sl # rest'" "st' = st1" by auto
      have "probe_inv env hosts tr0 ((xs @ [sl]) @ rest) st evs" using 2(3) by simp
      from more Some have "\<not> \<not> pr_nextToStart st < length hosts" "ps_hostIndex sl \<noteq> None" by simp_all
      from 2(1) [OF this \<open>probe_inv env hosts tr0 ((xs @ [sl]) @ rest) st evs\<close> r] obtain new where
        n: "probe_inv env hosts tr0 ((xs @ [sl]) @ rest') st1 (new @ evs)" "slept new = 0"
          "length rest' = length rest" "pr_remaining st1 \<le> pr_remaining st"
          "pr_remaining st1 = pr_remaining st \<longrightarrow> pr_nextToStart st1 < length hosts
            \<longrightarrow> (\<forall>sl \<in> set rest'. ps_hostIndex sl \<noteq> None)" by (elim exE conjE) (rule that)
      from n(1) have "probe_inv env hosts tr0 (xs @ sl # rest') st1 (new @ evs)" by simp
      with n(2-) Some show ?thesis unfolding e by (intro exI [of _ new]) simp
    next
      case None
      obtain sl1 st1 where s1: "start_probe env hosts port sl st = (sl1, st1)"
        by fastforce
      obtain rest' st2 where r: "fill_slots env hosts port rest st1 = (rest', st2)"
        by fastforce
      from 2(4) more None s1 r have e: "slots' = sl1 # rest'" "st' = st2" by auto
      from start_probe_inv [OF 2(3) more None s1] obtain new1 where
        n1: "probe_inv env hosts tr0 (xs @ sl1 # rest) st1 (new1 @ evs)" "slept new1 = 0"
          "ps_hostIndex sl1 = None \<longrightarrow> pr_remaining st1 < pr_remaining st"
          "pr_remaining st1 \<le> pr_remaining st" by (elim exE conjE) (rule that)
      from n1(1) have "probe_inv env hosts tr0 ((xs @ [sl1]) @ rest) st1 (new1 @ evs)" by simp
      from 2(2) [OF _ _ s1 [symmetric] refl this r] more None
      obtain new2 where n2: "probe_inv env hosts tr0 ((xs @ [sl1]) @ rest') st2 (new2 @ new1 @ evs)"
        "slept new2 = 0" "length rest' = length rest" "pr_remaining st2 \<le> pr_remaining st1"
        "pr_remaining st2 = pr_remaining st1 \<longrightarrow> pr_nextToStart st2 < length hosts
          \<longrightarrow> (\<forall>sl \<in> set rest'. ps_hostIndex sl \<noteq> None)"
        by auto
      have "probe_inv env hosts tr0 (xs @ sl1 # rest') st2 ((new2 @ new1) @ evs)" using n2(1) by simp
      moreover have "slept (new2 @ new1) = 0" using n1 n2 by simp
      ultimately show ?thesis using n1 n2 unfolding e
        by (intro exI [of _ "new2 @ new1"]) auto
    qed
  qed
qed

lemma check_slot_inv:
  assumes inv: "probe_inv env hosts tr0 (xs @ sl # ys) st evs"
    and step: "check_slot env tmo sl st = (sl', st', r)"
  shows "\<exists>new. probe_inv env hosts tr0 (xs @ sl' # ys) st' (new @ evs) \<and> slept new = 0
    \<and> (if r then pr_remaining st' < pr_remaining st
       else sl' = sl \<and> pr_remaining st' = pr_remaining st
         \<and> (ps_hostIndex sl \<noteq> None \<longrightarrow> pe_clock env (new @ evs @ tr0) - ps_startTimeMs sl < ucast tmo))"
proof (cases "ps_hostIndex sl")
  case None
  with step inv show ?thesis by (intro exI [of _ "[]"]) (auto simp: check_slot_def)
next
  case (Some k)
  define state where "state = pe_check env (pr_trace st) k"
  have tr: "pr_trace st = evs @ tr0" using inv by (simp add: probe_inv_def)
  have k: "k < length hosts" "k < pr_nextToStart st" "k \<notin> set (occ xs)" "k \<notin> set (occ ys)"
    "opened evs = insert k (set (occ xs) \<union> set (occ ys))"
    "EvCheck k SOCKET_STATE_CONNECTED \<notin> set evs"
    using inv Some by (auto simp: probe_inv_def)
  have del: "insert k (set (occ xs) \<union> set (occ ys)) - {k} = set (occ xs) \<union> set (occ ys)"
    using k by auto
  have pk: "peak evs \<le> length xs + length ys + 1" "card (insert k (set (occ xs) \<union> set (occ ys))) \<le> length xs + length ys + 1"
    "card (set (occ xs) \<union> set (occ ys)) \<le> length xs + length ys + 1"
  proof -
    have "distinct (occ (xs @ sl # ys))" using inv by (simp add: probe_inv_def)
    then have c: "card (set (occ (xs @ sl # ys))) \<le> length (xs @ sl # ys)"
      using length_occ by (metis distinct_card)
    then show "card (insert k (set (occ xs) \<union> set (occ ys))) \<le> length xs + length ys + 1"
      using Some by (simp add: insert_commute)
    then show "card (set (occ xs) \<union> set (occ ys)) \<le> length xs + length ys + 1"
      using k(3,4) by simp
    show "peak evs \<le> length xs + length ys + 1" using inv by (simp add: probe_inv_def)
  qed
  consider (conn) "state = SOCKET_STATE_CONNECTED"
    | (fail) "state \<noteq> SOCKET_STATE_CONNECTED"
        "state = SOCKET_STATE_FAILED \<or> pe_clock env (EvCheck k state # pr_trace st) - ps_startTimeMs sl \<ge> ucast tmo"
    | (wait) "state \<noteq> SOCKET_STATE_CONNECTED" "state \<noteq> SOCKET_STATE_FAILED"
        "pe_clock env (EvCheck k state # pr_trace st) - ps_startTimeMs sl < ucast tmo"
    by fastforce
  then show ?thesis
  proof cases
    case conn
    with step Some have "sl' = sl\<lparr>ps_hostIndex := None\<rparr>" "r" "st' = st\<lparr>pr_reachable := (pr_reachable st)[k := True],
        pr_remaining := pr_remaining st - 1, pr_trace := EvDestroy k # EvCheck k state # pr_trace st\<rparr>"
      by (auto simp: check_slot_def Let_def state_def)
    with inv Some k del pk conn show ?thesis
      by (intro exI [of _ "[EvDestroy k, EvCheck k state]"])
        (auto simp: probe_inv_def nth_list_update started_in_more)
  next
    case fail
    with step Some have "sl' = sl\<lparr>ps_hostIndex := None\<rparr>" "r" "st' = st\<lparr>pr_reachable := (pr_reachable st)[k := False],
        pr_remaining := pr_remaining st - 1, pr_trace := EvDestroy k # EvCheck k state # pr_trace st\<rparr>"
      by (auto simp: check_slot_def Let_def state_def)
    with inv Some k del pk fail(1) show ?thesis
      by (intro exI [of _ "[EvDestroy k, EvCheck k state]"])
        (auto simp: probe_inv_def nth_list_update started_in_more)
  next
    case wait
    with step Some have e: "sl' = sl" "\<not> r" "st' = st\<lparr>pr_trace := EvCheck k state # pr_trace st\<rparr>"
      by (auto simp: check_slot_def Let_def state_def not_le [symmetric] simp del: not_le)
    from inv Some k del pk wait(1) have "probe_inv env hosts tr0 (xs @ sl # ys) st' ([EvCheck k state] @ evs)"
      unfolding e by (auto simp: probe_inv_def started_in_more)
    with e wait tr show ?thesis by (intro exI [of _ "[EvCheck k state]"]) auto
  qed
qed


lemma check_slots_inv:
  "probe_inv env hosts tr0 (xs @ slots) st evs \<Longrightarrow> check_slots env tmo slots st = (slots', st', r) \<Longrightarrow>
   \<exists>new. probe_inv env hosts tr0 (xs @ slots') st' (new @ evs) \<and> slept new = 0
     \<and> length slots' = length slots
     \<and> (if r then pr_remaining st' < pr_remaining st
        else slots' = slots \<and> pr_remaining st' = pr_remaining st
          \<and> (\<forall>sl \<in> set slots. ps_hostIndex sl \<noteq> None \<longrightarrow>
               (\<exists>e. slept e = 0 \<and> pe_clock env (e @ evs @ tr0) - ps_startTimeMs sl < ucast tmo)))"
proof (induction slots arbitrary: xs st evs slots' st' r)
  case Nil
  then show ?case by (intro exI [of _ "[]"]) simp
next
  case (Cons sl rest)
  obtain sl1 st1 r1 where s1: "check_slot env tmo sl st = (sl1, st1, r1)"
    by (rule prod_cases3)
  obtain rest' st2 r2 where r: "check_slots env tmo rest st1 = (rest', st2, r2)"
    by (rule prod_cases3)
  from Cons.prems(2) s1 r have e: "slots' = sl1 # rest'" "st' = st2" "r = (r1 \<or> r2)" by auto
  from check_slot_inv [OF Cons.prems(1) s1] obtain new1 where
    n1: "probe_inv env hosts tr0 (xs @ sl1 # rest) st1 (new1 @ evs)" "slept new1 = 0"
      "if r1 then pr_remaining st1 < pr_remaining st
       else sl1 = sl \<and> pr_remaining st1 = pr_remaining st
         \<and> (ps_hostIndex sl \<noteq> None \<longrightarrow> pe_clock env (new1 @ evs @ tr0) - ps_startTimeMs sl < ucast tmo)"
    by (elim exE conjE) (rule that)
  from n1(1) have "probe_inv env hosts tr0 ((xs @ [sl1]) @ rest) st1 (new1 @ evs)" by simp
  from Cons.IH [OF this r] obtain new2 where
    n2: "probe_inv env hosts tr0 ((xs @ [sl1]) @ rest') st2 (new2 @ new1 @ evs)" "slept new2 = 0"
      "length rest' = length rest"
      "if r2 then pr_remaining st2 < pr_remaining st1
       else rest' = rest \<and> pr_remaining st2 = pr_remaining st1
         \<and> (\<forall>sl \<in> set rest. ps_hostIndex sl \<noteq> None \<longrightarrow>
              (\<exists>e. slept e = 0 \<and> pe_clock env (e @ (new1 @ evs) @ tr0) - ps_startTimeMs sl < ucast tmo))"
    by (elim exE conjE) (rule that)
  have inv: "probe_inv env hosts tr0 (xs @ slots') st' ((new2 @ new1) @ evs)"
    using n2(1) e by simp
  have sl: "slept (new2 @ new1) = 0" using n1(2) n2(2) by simp
  have rest: "\<exists>e. slept e = 0 \<and> pe_clock env (e @ evs @ tr0) - ps_startTimeMs s < ucast tmo"
    if "\<not> r" "s \<in> set (sl # rest)" "ps_hostIndex s \<noteq> None" for s
  proof (cases "s \<in> set rest")
    case True
    with n2(4) e that obtain ev where "slept ev = 0"
      "pe_clock env (ev @ (new1 @ evs) @ tr0) - ps_startTimeMs s < ucast tmo" by auto
    with n1(2) show ?thesis by (intro exI [of _ "ev @ new1"]) simp
  next
    case False
    with that have "s = sl" by simp
    with n1 e that show ?thesis by (intro exI [of _ new1]) auto
  qed
  have "if r then pr_remaining st' < pr_remaining st
      else slots' = sl # rest \<and> pr_remaining st' = pr_remaining st"
    using n1(3) n2(4) e by (cases r1; cases r2) auto
  with inv sl rest n2(3) e(1) show ?case
    by (intro exI [of _ "new2 @ new1"]) (auto split: if_splits)
qed

lemma fill_slots_keeps:
  "fill_slots env hosts port slots st = (slots', st') \<Longrightarrow> sl \<in> set slots \<Longrightarrow> ps_hostIndex sl \<noteq> None
    \<Longrightarrow> sl \<in> set slots'"
  by (induction env hosts port slots st arbitrary: slots' st' rule: fill_slots.induct)
    (auto split: if_splits prod.splits)

text \<open>
  One round: it keeps the invariant, and it either settles a host or leaves an occupied slot
  whose timeout has not passed on the clock, and sleeps.
\<close>

lemma probe_round_inv:
  assumes inv: "probe_inv env hosts tr0 slots st evs" and w: "slots \<noteq> []"
    and rem: "pr_remaining st > 0"
    and step: "probe_round env hosts port tmo slots st = (slots', st')"
  shows "\<exists>new. probe_inv env hosts tr0 slots' st' (new @ evs) \<and> length slots' = length slots
    \<and> slept new \<le> POLL_INTERVAL_MS \<and> pr_remaining st' \<le> pr_remaining st
    \<and> (pr_remaining st' = pr_remaining st \<longrightarrow>
        (\<exists>sl \<in> set slots'. ps_hostIndex sl \<noteq> None)
        \<and> (\<forall>sl \<in> set slots. ps_hostIndex sl \<noteq> None \<longrightarrow> sl \<in> set slots')
        \<and> slept new = POLL_INTERVAL_MS
        \<and> (\<forall>sl \<in> set slots'. ps_hostIndex sl \<noteq> None \<longrightarrow>
             (\<exists>e n2 n1. new = n2 @ n1 \<and> slept n1 = 0 \<and> slept e = 0
               \<and> pe_clock env (e @ n1 @ evs @ tr0) - ps_startTimeMs sl < ucast tmo)))"
proof -
  obtain s1 st1 where f: "fill_slots env hosts port slots st = (s1, st1)" by fastforce
  obtain s2 st2 r where c: "check_slots env tmo s1 st1 = (s2, st2, r)" by (rule prod_cases3)
  have e: "slots' = s2" "st' = (if \<not> r \<and> pr_remaining st2 > 0
      then st2\<lparr>pr_trace := EvSleep POLL_INTERVAL_MS # pr_trace st2\<rparr> else st2)"
    using step by (simp_all add: probe_round_def f c)
  from fill_slots_inv [of env hosts tr0 "[]", simplified, OF inv f] obtain n1 where
    n1: "probe_inv env hosts tr0 s1 st1 (n1 @ evs)" "slept n1 = 0" "length s1 = length slots"
      "pr_remaining st1 \<le> pr_remaining st"
      "pr_remaining st1 = pr_remaining st \<longrightarrow> pr_nextToStart st1 < length hosts
         \<longrightarrow> (\<forall>sl \<in> set s1. ps_hostIndex sl \<noteq> None)"
    by (elim exE conjE) (simp add: that)
  from check_slots_inv [of env hosts tr0 "[]", simplified, OF n1(1) c] obtain n2 where
    n2: "probe_inv env hosts tr0 s2 st2 (n2 @ n1 @ evs)" "slept n2 = 0" "length s2 = length s1"
      "if r then pr_remaining st2 < pr_remaining st1
       else s2 = s1 \<and> pr_remaining st2 = pr_remaining st1
         \<and> (\<forall>sl \<in> set s1. ps_hostIndex sl \<noteq> None \<longrightarrow>
              (\<exists>e. slept e = 0 \<and> pe_clock env (e @ (n1 @ evs) @ tr0) - ps_startTimeMs sl < ucast tmo))"
    by (elim exE conjE) (simp add: that)
  show ?thesis
  proof (cases "\<not> r \<and> pr_remaining st2 > 0")
    case False
    then have "st' = st2" using e by simp
    moreover have "pr_remaining st2 < pr_remaining st"
      using False n1(4) n2(4) rem by (auto split: if_splits)
    ultimately show ?thesis using e n1 n2
      by (intro exI [of _ "n2 @ n1"]) auto
  next
    case True
    let ?z = "EvSleep POLL_INTERVAL_MS"
    from True e have st': "st' = st2\<lparr>pr_trace := ?z # pr_trace st2\<rparr>" by simp
    have "probe_inv env hosts tr0 s2 st' (?z # n2 @ n1 @ evs)"
    proof -
      have "card (opened (n2 @ n1 @ evs)) \<le> length s2"
        using n2(1) length_occ [of s2] by (auto simp: probe_inv_def distinct_card)
      with n2(1) show ?thesis unfolding st' by (auto simp: probe_inv_def started_in_more)
    qed
    moreover have "\<exists>sl \<in> set s2. ps_hostIndex sl \<noteq> None" if same: "pr_remaining st' = pr_remaining st"
    proof (cases "pr_nextToStart st1 < length hosts")
      case more: True
      have "pr_remaining st1 = pr_remaining st" using same True n1(4) n2(4) st' by simp
      with n1 more have "\<forall>sl \<in> set s1. ps_hostIndex sl \<noteq> None" by simp
      moreover have "s1 \<noteq> []" using n1(3) w by auto
      ultimately show ?thesis using n2(4) True by (cases s1) auto
    next
      case False
      with n1(1) have "pr_remaining st1 = length (occ s1)" by (auto simp: probe_inv_def)
      with True n2(4) have "occ s1 \<noteq> []" by auto
      then obtain k where "k \<in> set (occ s1)" by (meson list.set_sel(1))
      with n2(4) True show ?thesis by (auto simp: set_occ)
    qed
    ultimately show ?thesis
    proof (intro exI [of _ "?z # n2 @ n1"] conjI impI)
      assume same: "pr_remaining st' = pr_remaining st"
      have eq: "slots' = s1" using n2(4) True e by simp
      show "\<forall>sl \<in> set slots. ps_hostIndex sl \<noteq> None \<longrightarrow> sl \<in> set slots'"
        using fill_slots_keeps [OF f] eq by blast
      show "\<forall>sl \<in> set slots'. ps_hostIndex sl \<noteq> None \<longrightarrow>
          (\<exists>e m2 m1. ?z # n2 @ n1 = m2 @ m1 \<and> slept m1 = 0 \<and> slept e = 0
            \<and> pe_clock env (e @ m1 @ evs @ tr0) - ps_startTimeMs sl < ucast tmo)"
      proof (intro ballI impI)
        fix sl assume "sl \<in> set slots'" "ps_hostIndex sl \<noteq> None"
        with n2(4) True eq obtain e where "slept e = 0"
          "pe_clock env (e @ n1 @ evs @ tr0) - ps_startTimeMs sl < ucast tmo" by auto
        with n1(2) show "\<exists>e m2 m1. ?z # n2 @ n1 = m2 @ m1 \<and> slept m1 = 0 \<and> slept e = 0
            \<and> pe_clock env (e @ m1 @ evs @ tr0) - ps_startTimeMs sl < ucast tmo"
          by (intro exI [of _ e] exI [of _ "?z # n2"] exI [of _ n1]) simp
      qed
    qed (use n1 n2 e st' True in \<open>auto simp: POLL_INTERVAL_MS_def\<close>)
  qed
qed


section \<open>The scan ends\<close>

text \<open>
  Within a scan that sleeps at most \<open>bound\<close> milliseconds, a slot started at some point sees the
  clock pass its timeout once the scan has slept for as long. (No clock on a 64-bit counter can
  promise this for scans of any length.)
\<close>

definition clock_ok :: "probe_env \<Rightarrow> u32 \<Rightarrow> probe_trace \<Rightarrow> nat \<Rightarrow> bool" where
  "clock_ok env tmo tr0 bound \<longleftrightarrow>
     (\<forall>e2 e1. slept (e2 @ e1) \<le> bound \<longrightarrow> unat tmo \<le> slept e2 \<longrightarrow>
        ucast tmo \<le> pe_clock env (e2 @ e1 @ tr0) - pe_clock env (e1 @ tr0))"

definition scan_budget :: "u32 \<Rightarrow> nat" where
  "scan_budget tmo = unat tmo + 3 * POLL_INTERVAL_MS"

definition probe_ends ::
    "probe_env \<Rightarrow> string list \<Rightarrow> int \<Rightarrow> u32 \<Rightarrow> probe_trace \<Rightarrow> nat \<Rightarrow> probe_slot list \<Rightarrow> probe_state \<Rightarrow> bool" where
  "probe_ends env hosts port tmo tr0 w slots st \<longleftrightarrow>
     (\<exists>st' slots' evs'. probe_loop env hosts port tmo slots st = Some st' \<and> pr_remaining st' = 0
        \<and> length slots' = w \<and> probe_inv env hosts tr0 slots' st' evs')"

lemma probe_ends_step:
  assumes "pr_remaining st > 0" and "probe_round env hosts port tmo slots st = (slots', st')"
    and "probe_ends env hosts port tmo tr0 w slots' st'"
  shows "probe_ends env hosts port tmo tr0 w slots st"
  using assms by (simp add: probe_ends_def probe_loop.simps [of _ _ _ _ slots st])

lemma probe_streak_ends:
  assumes ck: "clock_ok env tmo tr0 bound" and w: "w > 0"
    and IH: "\<And>slots st evs. probe_inv env hosts tr0 slots st evs \<Longrightarrow> length slots = w
        \<Longrightarrow> pr_remaining st < r \<Longrightarrow> slept evs + pr_remaining st * scan_budget tmo \<le> bound
        \<Longrightarrow> probe_ends env hosts port tmo tr0 w slots st"
  shows "probe_inv env hosts tr0 slots st (e2 @ e1) \<Longrightarrow> length slots = w \<Longrightarrow> pr_remaining st = r
    \<Longrightarrow> 0 < r \<Longrightarrow> sl \<in> set slots \<Longrightarrow> ps_hostIndex sl \<noteq> None
    \<Longrightarrow> ps_startTimeMs sl = pe_clock env (e1 @ tr0)
    \<Longrightarrow> slept (e2 @ e1) + (r - 1) * scan_budget tmo + (unat tmo + POLL_INTERVAL_MS - slept e2) + POLL_INTERVAL_MS \<le> bound
    \<Longrightarrow> probe_ends env hosts port tmo tr0 w slots st"
proof (induction "unat tmo - slept e2" arbitrary: slots st e2 rule: less_induct)
  case less
  obtain slots' st' where step: "probe_round env hosts port tmo slots st = (slots', st')" by fastforce
  have "slots \<noteq> []" "pr_remaining st > 0" using less.prems by auto
  from probe_round_inv [OF less.prems(1) this step] obtain new where
    n: "probe_inv env hosts tr0 slots' st' (new @ e2 @ e1)" "length slots' = length slots"
      "slept new \<le> POLL_INTERVAL_MS" "pr_remaining st' \<le> pr_remaining st" and
    same: "pr_remaining st' = pr_remaining st \<longrightarrow>
        (\<exists>sl \<in> set slots'. ps_hostIndex sl \<noteq> None)
        \<and> (\<forall>sl \<in> set slots. ps_hostIndex sl \<noteq> None \<longrightarrow> sl \<in> set slots')
        \<and> slept new = POLL_INTERVAL_MS
        \<and> (\<forall>sl \<in> set slots'. ps_hostIndex sl \<noteq> None \<longrightarrow>
             (\<exists>e n2 n1. new = n2 @ n1 \<and> slept n1 = 0 \<and> slept e = 0
               \<and> pe_clock env (e @ n1 @ (e2 @ e1) @ tr0) - ps_startTimeMs sl < ucast tmo))"
    by (elim exE conjE) (rule that)
  show ?case
  proof (cases "pr_remaining st' = pr_remaining st")
    case False
    then have lt: "pr_remaining st' < r" using n(4) less.prems(3) by simp
    then have "pr_remaining st' * scan_budget tmo \<le> (r - 1) * scan_budget tmo"
      by (intro mult_le_mono1) linarith
    moreover have "slept (new @ e2 @ e1) = slept new + slept (e2 @ e1)" by simp
    ultimately have "slept (new @ e2 @ e1) + pr_remaining st' * scan_budget tmo \<le> bound"
      using less.prems(8) n(3) by linarith
    from IH [OF n(1) _ lt this] n(2) less.prems(2) have "probe_ends env hosts port tmo tr0 w slots' st'" by simp
    with \<open>pr_remaining st > 0\<close> step show ?thesis by (rule probe_ends_step)
  next
    case True
    with same have sl: "sl \<in> set slots'" "slept new = POLL_INTERVAL_MS" using less.prems(5,6) by auto
    with same True less.prems(6) obtain e n2 n1 where
      t: "slept n1 = 0" "slept e = 0" "pe_clock env (e @ n1 @ (e2 @ e1) @ tr0) - ps_startTimeMs sl < ucast tmo"
      by blast
    have "\<not> unat tmo \<le> slept e2"
    proof
      assume "unat tmo \<le> slept e2"
      moreover have "slept ((e @ n1 @ e2) @ e1) \<le> bound" using less.prems(8) t by simp
      ultimately have "ucast tmo \<le> pe_clock env ((e @ n1 @ e2) @ e1 @ tr0) - pe_clock env (e1 @ tr0)"
        using ck t(1,2) unfolding clock_ok_def by (metis add_0 slept_append)
      with t(3) less.prems(7) show False by (simp add: not_le [symmetric] del: not_le)
    qed
    then have d: "unat tmo - slept (new @ e2) < unat tmo - slept e2"
      using sl(2) by (simp add: POLL_INTERVAL_MS_def)
    have "probe_ends env hosts port tmo tr0 w slots' st'"
    proof (rule less.hyps [OF d])
      show "probe_inv env hosts tr0 slots' st' ((new @ e2) @ e1)" using n(1) by simp
      show "slept ((new @ e2) @ e1) + (r - 1) * scan_budget tmo + (unat tmo + POLL_INTERVAL_MS - slept (new @ e2)) + POLL_INTERVAL_MS \<le> bound"
        using less.prems(8) sl(2) \<open>\<not> unat tmo \<le> slept e2\<close> by simp
    qed (use less.prems n sl True in auto)
    with \<open>pr_remaining st > 0\<close> step show ?thesis by (rule probe_ends_step)
  qed
qed


lemma probe_loop_ends:
  assumes ck: "clock_ok env tmo tr0 bound" and w: "w > 0"
  shows "probe_inv env hosts tr0 slots st evs \<Longrightarrow> length slots = w
    \<Longrightarrow> slept evs + pr_remaining st * scan_budget tmo \<le> bound
    \<Longrightarrow> probe_ends env hosts port tmo tr0 w slots st"
proof (induction "pr_remaining st" arbitrary: slots st evs rule: less_induct)
  case less
  show ?case
  proof (cases "pr_remaining st = 0")
    case True
    with less.prems show ?thesis
      unfolding probe_ends_def by (subst probe_loop.simps) auto
  next
    case False
    obtain slots' st' where step: "probe_round env hosts port tmo slots st = (slots', st')" by fastforce
    have "slots \<noteq> []" "pr_remaining st > 0" using less.prems False w by auto
    from probe_round_inv [OF less.prems(1) this step] obtain new where
      n: "probe_inv env hosts tr0 slots' st' (new @ evs)" "length slots' = length slots"
        "slept new \<le> POLL_INTERVAL_MS" "pr_remaining st' \<le> pr_remaining st" and
      same: "pr_remaining st' = pr_remaining st \<longrightarrow> (\<exists>sl \<in> set slots'. ps_hostIndex sl \<noteq> None)"
      by (elim exE conjE) (rule that, assumption+, blast)
    have b: "scan_budget tmo = unat tmo + 3 * POLL_INTERVAL_MS" by (rule scan_budget_def)
    have split: "pr_remaining st * scan_budget tmo = (pr_remaining st - 1) * scan_budget tmo + scan_budget tmo"
      using False by (cases "pr_remaining st") simp_all
    have "probe_ends env hosts port tmo tr0 w slots' st'"
    proof (cases "pr_remaining st' = pr_remaining st")
      case lt: False
      then have "pr_remaining st' * scan_budget tmo \<le> (pr_remaining st - 1) * scan_budget tmo"
        using n(4) by (intro mult_le_mono1) linarith
      moreover have "slept (new @ evs) = slept new + slept evs" by simp
      ultimately have "slept (new @ evs) + pr_remaining st' * scan_budget tmo \<le> bound"
        using less.prems(3) split b n(3) by linarith
      with less.hyps [OF _ n(1)] lt n less.prems(2) show ?thesis by simp
    next
      case True
      with same obtain sl where sl: "sl \<in> set slots'" "ps_hostIndex sl \<noteq> None" by blast
      with n(1) obtain e2 e1 where e: "new @ evs = e2 @ e1" "ps_startTimeMs sl = pe_clock env (e1 @ tr0)"
        unfolding probe_inv_def started_in_def by blast
      have "slept (e2 @ e1) = slept new + slept evs" using e(1) by (metis slept_append)
      with less.prems(3) split b n(3)
      have "slept (e2 @ e1) + (pr_remaining st - 1) * scan_budget tmo
          + (unat tmo + POLL_INTERVAL_MS - slept e2) + POLL_INTERVAL_MS \<le> bound" by simp
      from probe_streak_ends [OF ck w less.hyps n(1) [unfolded e(1)] _ True _ sl e(2) this]
        n(2) less.prems(2) False show ?thesis by simp
    qed
    with \<open>pr_remaining st > 0\<close> step show ?thesis by (rule probe_ends_step)
  qed
qed

lemma scan_facts:
  assumes "hosts \<noteq> []" and ck: "clock_ok env tmo tr (length hosts * scan_budget tmo)"
  shows "\<exists>reach evs. SclBootstrapTcpProbe_scan env True True (Some hosts) port tmo maxc tr = Some (Some reach, evs @ tr)
    \<and> length reach = length hosts \<and> tried evs = [0..<length hosts] \<and> opened evs = {}
    \<and> peak evs \<le> probe_width maxc (length hosts)
    \<and> (\<forall>k < length hosts. reach ! k \<longleftrightarrow> EvCheck k SOCKET_STATE_CONNECTED \<in> set evs)"
proof -
  let ?w = "probe_width maxc (length hosts)"
  have w: "?w > 0" using assms(1) by (auto simp: probe_width_def Let_def)
  have "probe_ends env hosts port tmo tr ?w (replicate ?w empty_slot) (probe_init (length hosts) tr)"
    by (rule probe_loop_ends [OF ck w probe_inv_init]) (simp_all add: probe_init_def)
  then obtain st slots evs where
    e: "probe_loop env hosts port tmo (replicate ?w empty_slot) (probe_init (length hosts) tr) = Some st"
      "pr_remaining st = 0" "length slots = ?w" "probe_inv env hosts tr slots st evs"
    unfolding probe_ends_def by blast
  from e(2,4) have "occ slots = []" "pr_nextToStart st = length hosts" by (auto simp: probe_inv_def)
  with e assms(1) show ?thesis
    unfolding SclBootstrapTcpProbe_scan_def
    by (intro exI [of _ "pr_reachable st"] exI [of _ evs]) (auto simp: probe_inv_def)
qed

text \<open>C30. C1 The TCP probe of a non-empty host list always ends when the clock runs: every host is
  tried exactly once and in order, a host is reported reachable exactly if a poll of its own
  socket saw the connection established, never more sockets are open than the window is wide, and
  none is left open.\<close>

theorem tcp_probe_complete:
  assumes "hosts \<noteq> []" and "clock_ok env tmo tr (length hosts * scan_budget tmo)"
  shows "\<exists>reach evs. SclBootstrapTcpProbe_scan env True True (Some hosts) port tmo maxc tr = Some (Some reach, evs @ tr)
    \<and> length reach = length hosts \<and> tried evs = [0..<length hosts] \<and> opened evs = {}
    \<and> peak evs \<le> probe_width maxc (length hosts)
    \<and> (\<forall>k < length hosts. reach ! k \<longleftrightarrow> EvCheck k SOCKET_STATE_CONNECTED \<in> set evs)"
  using assms by (rule scan_facts)

text \<open>A clock that only runs while the scan sleeps meets the assumption.\<close>

lemma sleeping_clock_ok:
  assumes "pe_clock env = (\<lambda>t. of_nat (slept t))" and "bound + slept tr < 2 ^ 64"
  shows "clock_ok env tmo tr bound"
proof (unfold clock_ok_def, intro allI impI)
  fix e2 e1 assume b: "slept (e2 @ e1) \<le> bound" and t: "unat tmo \<le> slept e2"
  have "slept e2 < 2 ^ 64" using b assms(2) by simp
  then have "unat (of_nat (slept e2) :: u64) = slept e2" by (rule unat_of_nat_u64)
  moreover have "unat (ucast tmo :: u64) = unat tmo"
    by (simp add: unsigned_ucast_eq take_bit_nat_eq_self
        order.strict_trans2 [OF unsigned_less [of tmo, where ?'a = nat]])
  moreover have "pe_clock env (e2 @ e1 @ tr) - pe_clock env (e1 @ tr) = of_nat (slept e2)"
    by (simp add: assms(1))
  ultimately show "ucast tmo \<le> pe_clock env (e2 @ e1 @ tr) - pe_clock env (e1 @ tr)"
    using t by (simp add: word_le_nat_alt)
qed

definition demo_probe_env :: probe_env where
  "demo_probe_env = \<lparr>pe_create = (\<lambda>t k. True), pe_connect = (\<lambda>t h p. h \<noteq> ''10.0.0.2''),
     pe_check = (\<lambda>t k. if k = 0 \<and> slept t \<ge> 10 then SOCKET_STATE_CONNECTED else SOCKET_STATE_CONNECTING),
     pe_clock = (\<lambda>t. of_nat (slept t))\<rparr>"

lemma tcp_probe_complete_witness:
  "\<exists>reach evs. SclBootstrapTcpProbe_scan demo_probe_env True True (Some [''10.0.0.1'', ''10.0.0.2'', ''10.0.0.3'']) 102 500 2 []
      = Some (Some reach, evs @ [])
    \<and> length reach = 3 \<and> tried evs = [0..<3] \<and> opened evs = {} \<and> peak evs \<le> 2"
proof -
  have "clock_ok demo_probe_env 500 [] (3 * scan_budget 500)"
    by (rule sleeping_clock_ok) (simp_all add: demo_probe_env_def scan_budget_def POLL_INTERVAL_MS_def)
  then have ck: "clock_ok demo_probe_env 500 [] (length [''10.0.0.1'', ''10.0.0.2'', ''10.0.0.3''] * scan_budget 500)"
    by (simp only: list.size numeral_3_eq_3 One_nat_def add_0 add_Suc_right add_0_right)
  have w: "probe_width 2 3 = 2"
    and n: "length [''10.0.0.1'', ''10.0.0.2'', ''10.0.0.3''] = 3"
    by (simp_all add: probe_width_def Let_def)
  have ne: "[''10.0.0.1'', ''10.0.0.2'', ''10.0.0.3''] \<noteq> []" by simp
  from tcp_probe_complete [OF ne ck, of 102 2] show ?thesis
    unfolding n w by blast
qed

end
