(* ===== verification/Scl_Bootstrap.thy ===== *)
theory Scl_Bootstrap
  imports Client_Error Scl_Probe
begin

text \<open>
  The \<open>scl_bootstrap\<close> feature: finding the SCL file of a device over the MMS file services. The
  file names that count and the choice among them (\<open>domain/scl_bootstrap_usecases.c\<close>), the
  download buffer (\<open>data/scl_bootstrap_file_download.c\<close>), one session with a device and the retry
  with a password (\<open>data/scl_bootstrap_mms_session.c\<close>), and the scan of a host list
  (\<open>service/scl_bootstrap_api.c\<close>). The device is an argument: what it answers to a connect, a
  directory request and a file request, with or without the password. Strings and list nodes are
  taken as allocated; the result of a host, the connection and the buffer are not.
\<close>

section \<open>File names\<close>

definition tolower :: "char \<Rightarrow> char" where
  "tolower c = (if (65 :: nat) \<le> of_char c \<and> of_char c \<le> (90 :: nat) then char_of (of_char c + (32 :: nat)) else c)"

definition SCL_EXTENSIONS_BY_PRIORITY :: "string list" where
  "SCL_EXTENSIONS_BY_PRIORITY = [''.cid'', ''.icd'', ''.scd'', ''.ssd'', ''.sed'']"

definition endsWithIgnoreCase :: "string \<Rightarrow> string \<Rightarrow> bool" where
  "endsWithIgnoreCase s suffix \<longleftrightarrow>
     length suffix \<le> length s \<and> map tolower (drop (length s - length suffix) s) = map tolower suffix"

definition SclBootstrapUseCases_isDirectoryEntry :: "string option \<Rightarrow> bool" where
  "SclBootstrapUseCases_isDirectoryEntry fileName =
     (case fileName of None \<Rightarrow> False | Some f \<Rightarrow> f \<noteq> [] \<and> last f = CHR ''/'')"

definition SclBootstrapUseCases_extensionPriority :: "string option \<Rightarrow> int" where
  "SclBootstrapUseCases_extensionPriority fileName =
     (case fileName of
        None \<Rightarrow> -1
      | Some f \<Rightarrow>
          if SclBootstrapUseCases_isDirectoryEntry fileName then -1
          else case find_index (endsWithIgnoreCase f) SCL_EXTENSIONS_BY_PRIORITY of
                 Some i \<Rightarrow> int i | None \<Rightarrow> -1)"

definition SclBootstrapUseCases_isSclExtension :: "string option \<Rightarrow> bool" where
  "SclBootstrapUseCases_isSclExtension fileName \<longleftrightarrow> SclBootstrapUseCases_extensionPriority fileName \<ge> 0"

text \<open>\<open>strcmp (a, b) < 0\<close>, on unsigned bytes.\<close>

fun strcmp_less :: "string \<Rightarrow> string \<Rightarrow> bool" where
  "strcmp_less [] b \<longleftrightarrow> b \<noteq> []"
| "strcmp_less (x # a) [] \<longleftrightarrow> False"
| "strcmp_less (x # a) (y # b) \<longleftrightarrow>
     (of_char x :: nat) < of_char y \<or> x = y \<and> strcmp_less a b"

fun pick_loop :: "string list \<Rightarrow> string option \<Rightarrow> int \<Rightarrow> string option" where
  "pick_loop [] best bestPriority = best"
| "pick_loop (candidate # rest) best bestPriority =
     (let priority = SclBootstrapUseCases_extensionPriority (Some candidate)
      in if priority \<ge> 0 \<and> (priority < bestPriority
            \<or> priority = bestPriority \<and> (case best of None \<Rightarrow> False | Some b \<Rightarrow> strcmp_less candidate b))
         then pick_loop rest (Some candidate) priority
         else pick_loop rest best bestPriority)"

definition SclBootstrapUseCases_pickBestSclFile :: "string list option \<Rightarrow> string option" where
  "SclBootstrapUseCases_pickBestSclFile sclFileCandidates =
     (case sclFileCandidates of
        None \<Rightarrow> None
      | Some l \<Rightarrow> pick_loop l None (int (length SCL_EXTENSIONS_BY_PRIORITY)))"

definition SclBootstrapUseCases_isHostListValid :: "string option list option \<Rightarrow> bool" where
  "SclBootstrapUseCases_isHostListValid hostList =
     (case hostList of
        None \<Rightarrow> False
      | Some l \<Rightarrow> l \<noteq> [] \<and> (\<forall>h \<in> set l. h \<noteq> None \<and> h \<noteq> Some []))"

definition SclBootstrapUtils_joinPath :: "string option \<Rightarrow> string \<Rightarrow> string" where
  "SclBootstrapUtils_joinPath parentDir entryName =
     (case parentDir of None \<Rightarrow> entryName | Some p \<Rightarrow> if p = [] then entryName else p @ entryName)"

section \<open>The download buffer\<close>

record download_buffer =
  db_data :: "u8 list" \<comment> \<open>the first \<open>size\<close> bytes\<close>
  db_size :: u32
  db_capacity :: u32

definition SclBootstrapFileDownloadBuffer_init :: download_buffer where
  "SclBootstrapFileDownloadBuffer_init = \<lparr>db_data = [], db_size = 0, db_capacity = 0\<rparr>"

text \<open>What a chunk does: it is taken, the handler stops the transfer, or \<open>memcpy\<close> writes past the
  block. \<open>okGrow\<close>: \<open>realloc\<close> succeeds.\<close>

datatype download_step = Taken download_buffer | Refused download_buffer | Overrun

definition SclBootstrapFileDownload_handler :: "bool \<Rightarrow> download_buffer \<Rightarrow> u8 list \<Rightarrow> download_step" where
  "SclBootstrapFileDownload_handler okGrow buffer chunk =
     (let bytesRead = (word_of_nat (length chunk) :: u32)
      in if bytesRead = 0 then Taken buffer
         else let newSize = db_size buffer + bytesRead;
                  capacity = (if newSize > db_capacity buffer then newSize else db_capacity buffer)
              in if newSize > db_capacity buffer \<and> \<not> okGrow then Refused buffer
                 else if unat (db_size buffer) + unat bytesRead > unat capacity then Overrun
                 else Taken \<lparr>db_data = take (unat (db_size buffer)) (db_data buffer) @ chunk,
                             db_size = newSize, db_capacity = capacity\<rparr>)"

text \<open>\<open>IedConnection_getFile\<close> hands the chunks to the handler until it refuses one.\<close>

fun receive_chunks :: "(nat \<Rightarrow> bool) \<Rightarrow> download_buffer \<Rightarrow> u8 list list \<Rightarrow> download_step" where
  "receive_chunks okGrow buffer [] = Taken buffer"
| "receive_chunks okGrow buffer (chunk # rest) =
     (case SclBootstrapFileDownload_handler (okGrow (length rest)) buffer chunk of
        Taken buffer' \<Rightarrow> receive_chunks okGrow buffer' rest
      | Refused buffer' \<Rightarrow> Refused buffer'
      | Overrun \<Rightarrow> Overrun)"

fun received :: "download_step \<Rightarrow> download_buffer option" where
  "received (Taken b) = Some b" | "received (Refused b) = Some b" | "received Overrun = None"

fun all_taken :: "download_step \<Rightarrow> bool" where
  "all_taken (Taken b) = True" | "all_taken (Refused b) = False" | "all_taken Overrun = False"

section \<open>One session with a device\<close>

record SclBootstrapResult =
  sb_host :: string
  sb_port :: int
  sb_status :: SclBootstrapCandidateStatus
  sb_lastMmsError :: IedClientError
  sb_authWasAttempted :: bool
  sb_fileName :: "string option"
  sb_fileData :: "u8 list option"
  sb_fileSize :: u32

record SclBootstrapConfig =
  sc_tcpProbeTimeoutMs :: u32
  sc_maxConcurrentTcpProbes :: int
  sc_mmsConnectTimeoutMs :: u32
  sc_mmsRequestTimeoutMs :: u32
  sc_maxBrowseDepth :: int
  sc_acseAuthPassword :: "string option"

definition SclBootstrapConfig_defaults :: SclBootstrapConfig where
  "SclBootstrapConfig_defaults = \<lparr>sc_tcpProbeTimeoutMs = 500, sc_maxConcurrentTcpProbes = 16,
     sc_mmsConnectTimeoutMs = 3000, sc_mmsRequestTimeoutMs = 0, sc_maxBrowseDepth = 2,
     sc_acseAuthPassword = None\<rparr>"

text \<open>A device as one connection sees it, and a file transfer: its chunks, which growths of the
  buffer succeed, and the error the library reports when every chunk was taken or one refused.\<close>

record file_device =
  fd_created :: bool
  fd_connect :: IedClientError
  fd_dir :: "string option \<Rightarrow> IedClientError \<times> string list"
  fd_chunks :: "string \<Rightarrow> u8 list list"
  fd_okGrow :: "nat \<Rightarrow> bool"
  fd_fileErr :: "string \<Rightarrow> bool \<Rightarrow> IedClientError"

function browseDirectoryRecursive ::
    "file_device \<Rightarrow> string option \<Rightarrow> int \<Rightarrow> IedClientError \<times> string list" where
  "browseDirectoryRecursive dev directoryName depthRemaining =
     (case fd_dir dev directoryName of
        (err, entries) \<Rightarrow>
          if err \<noteq> IED_ERROR_OK then (err, [])
          else (IED_ERROR_OK, concat (map (\<lambda>name.
            if SclBootstrapUseCases_isDirectoryEntry (Some name) then
              if depthRemaining > 1 then
                snd (browseDirectoryRecursive dev (Some (SclBootstrapUtils_joinPath directoryName name)) (depthRemaining - 1))
              else []
            else if SclBootstrapUseCases_isSclExtension (Some name) then
              [SclBootstrapUtils_joinPath directoryName name]
            else []) entries)))"
  by pat_completeness auto
termination
  by (relation "measure (\<lambda>(dev, dir, d). nat d)") auto

declare browseDirectoryRecursive.simps [simp del]

text \<open>
  The result with its fields as the session leaves them, and whether access was denied. An
  overrun of the buffer is \<open>None\<close>: from there the program has no defined behaviour.
\<close>

definition runSequenceOnce ::
    "file_device \<Rightarrow> SclBootstrapConfig \<Rightarrow> SclBootstrapResult \<Rightarrow> (SclBootstrapResult \<times> bool) option" where
  "runSequenceOnce dev config result =
     (let result = result\<lparr>sb_status := SCL_BOOTSTRAP_CANDIDATE_MMS_CONNECT_FAILED, sb_lastMmsError := IED_ERROR_OK\<rparr>
      in if \<not> fd_created dev then Some (result, False)
         else let err = fd_connect dev
         in if err \<noteq> IED_ERROR_OK then
              Some (if connect_denied err
                    then (result\<lparr>sb_lastMmsError := err, sb_status := SCL_BOOTSTRAP_CANDIDATE_ACCESS_DENIED\<rparr>, True)
                    else (result\<lparr>sb_lastMmsError := err\<rparr>, False))
         else case browseDirectoryRecursive dev None (sc_maxBrowseDepth config) of (browseErr, matches) \<Rightarrow>
            if browseErr \<noteq> IED_ERROR_OK then
              Some (result\<lparr>sb_lastMmsError := browseErr,
                 sb_status := (if browseErr = IED_ERROR_ACCESS_DENIED then SCL_BOOTSTRAP_CANDIDATE_ACCESS_DENIED
                               else SCL_BOOTSTRAP_CANDIDATE_MMS_CONNECT_FAILED)\<rparr>,
                 browseErr = IED_ERROR_ACCESS_DENIED)
            else case SclBootstrapUseCases_pickBestSclFile (Some matches) of
              None \<Rightarrow> Some (result\<lparr>sb_status := SCL_BOOTSTRAP_CANDIDATE_NO_SCL_FILE_FOUND\<rparr>, False)
            | Some chosen \<Rightarrow>
                let step = receive_chunks (fd_okGrow dev) SclBootstrapFileDownloadBuffer_init (fd_chunks dev chosen);
                    downloadErr = fd_fileErr dev chosen (all_taken step)
                in case received step of
                     None \<Rightarrow> None
                   | Some buffer \<Rightarrow>
                     if downloadErr \<noteq> IED_ERROR_OK then
                       Some (result\<lparr>sb_lastMmsError := downloadErr,
                          sb_status := (if downloadErr = IED_ERROR_ACCESS_DENIED then SCL_BOOTSTRAP_CANDIDATE_ACCESS_DENIED
                                        else SCL_BOOTSTRAP_CANDIDATE_DOWNLOAD_FAILED)\<rparr>,
                          downloadErr = IED_ERROR_ACCESS_DENIED)
                     else
                       Some (result\<lparr>sb_status := SCL_BOOTSTRAP_CANDIDATE_FILE_RETRIEVED, sb_fileName := Some chosen,
                               sb_fileData := (if db_capacity buffer = 0 then None else Some (db_data buffer)),
                               sb_fileSize := db_size buffer\<rparr>, False))"

text \<open>The device as a connection without and with the password sees it.\<close>

definition SclBootstrapMmsSession_run ::
    "(string option \<Rightarrow> file_device) \<Rightarrow> SclBootstrapConfig \<Rightarrow> string option \<Rightarrow> SclBootstrapResult \<Rightarrow> SclBootstrapResult option" where
  "SclBootstrapMmsSession_run dev config ownedAuthPassword result =
     (case runSequenceOnce (dev None) config (result\<lparr>sb_authWasAttempted := False\<rparr>) of
        None \<Rightarrow> None
      | Some (result, accessDenied) \<Rightarrow>
          if accessDenied \<and> ownedAuthPassword \<noteq> None then
            map_option fst (runSequenceOnce (dev ownedAuthPassword) config (result\<lparr>sb_authWasAttempted := True\<rparr>))
          else Some result)"

section \<open>The scan of a host list\<close>

datatype SclBootstrapError =
  SCL_BOOTSTRAP_OK | SCL_BOOTSTRAP_ERR_INVALID_ARGUMENT | SCL_BOOTSTRAP_ERR_OUT_OF_MEMORY

record scl_bootstrap_handle =
  sh_config :: SclBootstrapConfig
  sh_ownedAuthPassword :: "string option"

definition SclBootstrap_create :: "bool \<Rightarrow> SclBootstrapConfig option \<Rightarrow> SclBootstrapError \<times> scl_bootstrap_handle option" where
  "SclBootstrap_create okAlloc config =
     (if \<not> okAlloc then (SCL_BOOTSTRAP_ERR_OUT_OF_MEMORY, None)
      else let c = (case config of Some c \<Rightarrow> c | None \<Rightarrow> SclBootstrapConfig_defaults)
           in (SCL_BOOTSTRAP_OK, Some \<lparr>sh_config = c, sh_ownedAuthPassword = sc_acseAuthPassword c\<rparr>))"

definition SclBootstrap_tcpProbeOnly ::
    "probe_env \<Rightarrow> bool \<Rightarrow> bool \<Rightarrow> scl_bootstrap_handle \<Rightarrow> string option list option \<Rightarrow> int \<Rightarrow> probe_trace
      \<Rightarrow> (bool list option \<times> probe_trace) option" where
  "SclBootstrap_tcpProbeOnly env okReach okSlots handle hostList mmsPort tr =
     (if \<not> SclBootstrapUseCases_isHostListValid hostList \<or> mmsPort \<le> 0 then Some (None, tr)
      else SclBootstrapTcpProbe_scan env okReach okSlots (map_option (map the) hostList) mmsPort
             (sc_tcpProbeTimeoutMs (sh_config handle)) (sc_maxConcurrentTcpProbes (sh_config handle)) tr)"

text \<open>The result as \<open>calloc\<close> and the first assignments leave it.\<close>

definition fresh_result :: "string \<Rightarrow> int \<Rightarrow> SclBootstrapResult" where
  "fresh_result host mmsPort = \<lparr>sb_host = host, sb_port = mmsPort, sb_status = SCL_BOOTSTRAP_CANDIDATE_NO_MMS_SERVER,
     sb_lastMmsError = IED_ERROR_OK, sb_authWasAttempted = False, sb_fileName = None,
     sb_fileData = None, sb_fileSize = 0\<rparr>"

text \<open>The loop over the hosts; \<open>okResult\<close> tells for which positions the result is allocated. The
  progress callback is called with every result that enters the list, in order.\<close>

fun fetch_loop ::
    "(string \<Rightarrow> string option \<Rightarrow> file_device) \<Rightarrow> (nat \<Rightarrow> bool) \<Rightarrow> scl_bootstrap_handle \<Rightarrow> int \<Rightarrow> bool list
      \<Rightarrow> nat \<Rightarrow> string list \<Rightarrow> SclBootstrapResult list option" where
  "fetch_loop net okResult handle mmsPort reachable index [] = Some []"
| "fetch_loop net okResult handle mmsPort reachable index (host # rest) =
     (if \<not> okResult index then fetch_loop net okResult handle mmsPort reachable (index + 1) rest
      else
        let result = fresh_result host mmsPort
        in case (if \<not> reachable ! index then Some result
                 else SclBootstrapMmsSession_run (net host) (sh_config handle) (sh_ownedAuthPassword handle) result) of
             None \<Rightarrow> None
           | Some result \<Rightarrow>
               map_option (\<lambda>l. result # l) (fetch_loop net okResult handle mmsPort reachable (index + 1) rest))"

text \<open>The outer options: the probe does not end, the buffer is overrun.\<close>

definition SclBootstrap_scanAndFetch ::
    "probe_env \<Rightarrow> (string \<Rightarrow> string option \<Rightarrow> file_device) \<Rightarrow> bool \<Rightarrow> bool \<Rightarrow> bool \<Rightarrow> (nat \<Rightarrow> bool)
      \<Rightarrow> scl_bootstrap_handle option \<Rightarrow> string option list option \<Rightarrow> int \<Rightarrow> probe_trace
      \<Rightarrow> (SclBootstrapError \<times> SclBootstrapResult list option) option" where
  "SclBootstrap_scanAndFetch env net okReach okSlots okList okResult handle hostList mmsPort tr =
     (case handle of
        None \<Rightarrow> Some (SCL_BOOTSTRAP_ERR_INVALID_ARGUMENT, None)
      | Some h \<Rightarrow>
          if \<not> SclBootstrapUseCases_isHostListValid hostList \<or> mmsPort \<le> 0
          then Some (SCL_BOOTSTRAP_ERR_INVALID_ARGUMENT, None)
          else case SclBootstrapTcpProbe_scan env okReach okSlots (map_option (map the) hostList) mmsPort
                 (sc_tcpProbeTimeoutMs (sh_config h)) (sc_maxConcurrentTcpProbes (sh_config h)) tr of
            None \<Rightarrow> None
          | Some (None, _) \<Rightarrow> Some (SCL_BOOTSTRAP_ERR_OUT_OF_MEMORY, None)
          | Some (Some reachable, _) \<Rightarrow>
              if \<not> okList then Some (SCL_BOOTSTRAP_ERR_OUT_OF_MEMORY, None)
              else map_option (\<lambda>l. (SCL_BOOTSTRAP_OK, Some l))
                     (fetch_loop net okResult h mmsPort reachable 0 (map the (the hostList))))"


section \<open>The choice of the file\<close>

abbreviation priority :: "string \<Rightarrow> int" where
  "priority f \<equiv> SclBootstrapUseCases_extensionPriority (Some f)"

text \<open>\<open>a\<close> is preferred to \<open>b\<close>: a more specific extension, then the name.\<close>

definition preferred_file :: "string \<Rightarrow> string \<Rightarrow> bool" where
  "preferred_file a b \<longleftrightarrow> priority a < priority b \<or> priority a = priority b \<and> strcmp_less a b"

lemma strcmp_less_irrefl [simp]: "\<not> strcmp_less a a"
  by (induction a) auto

lemma strcmp_less_trans: "strcmp_less a b \<Longrightarrow> strcmp_less b c \<Longrightarrow> strcmp_less a c"
proof (induction a b arbitrary: c rule: strcmp_less.induct)
  case (3 x a y b)
  then show ?case by (cases c) auto
qed (auto elim: strcmp_less.elims)

lemma strcmp_less_total: "a = b \<or> strcmp_less a b \<or> strcmp_less b a"
proof (induction a b rule: strcmp_less.induct)
  case (3 x a y b)
  have "x = y \<or> (of_char x :: nat) < of_char y \<or> (of_char y :: nat) < of_char x"
    by (metis linorder_cases of_char_eq_iff)
  with 3 show ?case by auto
qed auto

lemma preferred_file_trans: "preferred_file a b \<Longrightarrow> preferred_file b c \<Longrightarrow> preferred_file a c"
  by (auto simp: preferred_file_def intro: strcmp_less_trans)

lemma preferred_file_total: "a \<noteq> b \<Longrightarrow> preferred_file a b \<or> preferred_file b a"
  using strcmp_less_total [of a b] by (auto simp: preferred_file_def)

lemma preferred_file_asym: "preferred_file a b \<Longrightarrow> \<not> preferred_file b a"
  using strcmp_less_trans [of a b a] by (auto simp: preferred_file_def)

lemma priority_less: "priority f < int (length SCL_EXTENSIONS_BY_PRIORITY)"
  using find_index_SomeD [of "endsWithIgnoreCase f" SCL_EXTENSIONS_BY_PRIORITY]
  by (auto simp: SclBootstrapUseCases_extensionPriority_def split: option.splits)

definition best_file :: "string set \<Rightarrow> string \<Rightarrow> bool" where
  "best_file S b \<longleftrightarrow> b \<in> S \<and> 0 \<le> priority b \<and> (\<forall>c \<in> S. 0 \<le> priority c \<longrightarrow> c = b \<or> preferred_file b c)"

lemma best_file_unique: "best_file S a \<Longrightarrow> best_file S b \<Longrightarrow> a = b"
  unfolding best_file_def using preferred_file_asym by blast

lemma pick_loop_Some:
  "0 \<le> priority b \<Longrightarrow> \<exists>x. pick_loop l (Some b) (priority b) = Some x \<and> best_file (insert b (set l)) x"
proof (induction l arbitrary: b)
  case Nil
  then show ?case by (auto simp: best_file_def)
next
  case (Cons c l)
  show ?case
  proof (cases "0 \<le> priority c \<and> preferred_file c b")
    case True
    with Cons.IH [of c] obtain x where "pick_loop l (Some c) (priority c) = Some x"
      "best_file (insert c (set l)) x" by blast
    with True show ?thesis
      by (auto simp: best_file_def preferred_file_def Let_def intro: strcmp_less_trans)
  next
    case False
    with Cons.IH [OF Cons.prems] obtain x where "pick_loop l (Some b) (priority b) = Some x"
      "best_file (insert b (set l)) x" by blast
    moreover have "c = x \<or> preferred_file x c" if "0 \<le> priority c"
      using that False \<open>best_file (insert b (set l)) x\<close> preferred_file_total [of c b] Cons.prems
      by (auto simp: best_file_def intro: preferred_file_trans)
    ultimately show ?thesis
      using False by (auto simp: best_file_def preferred_file_def Let_def)
  qed
qed

lemma pick_loop_None:
  "pick_loop l None 5 = (if \<exists>f \<in> set l. 0 \<le> priority f then
     pick_loop (tl (dropWhile (\<lambda>f. priority f < 0) l)) (Some (hd (dropWhile (\<lambda>f. priority f < 0) l)))
       (priority (hd (dropWhile (\<lambda>f. priority f < 0) l))) else None)"
  using priority_less by (induction l) (auto simp: SCL_EXTENSIONS_BY_PRIORITY_def Let_def)

lemma pick_best_iff:
  "SclBootstrapUseCases_pickBestSclFile (Some l) = Some b \<longleftrightarrow> best_file (set l) b"
proof (cases "\<exists>f \<in> set l. 0 \<le> priority f")
  case False
  then show ?thesis
    by (auto simp: SclBootstrapUseCases_pickBestSclFile_def pick_loop_None best_file_def SCL_EXTENSIONS_BY_PRIORITY_def)
next
  case True
  define r where "r = dropWhile (\<lambda>f. priority f < 0) l"
  from True have "r \<noteq> []" unfolding r_def by (auto simp: dropWhile_eq_Nil_conv not_less)
  then obtain f rest where r: "r = f # rest" by (cases r) auto
  with hd_dropWhile [of "\<lambda>f. priority f < 0" l] have f: "0 \<le> priority f"
    unfolding r_def [symmetric] by (simp add: r_def [symmetric])
  from pick_loop_Some [OF f] obtain x where x: "pick_loop rest (Some f) (priority f) = Some x"
    "best_file (insert f (set rest)) x" by blast
  have "set l = set (takeWhile (\<lambda>f. priority f < 0) l) \<union> set r"
    unfolding r_def by (metis set_append takeWhile_dropWhile_id)
  then have "best_file (set l) x"
    using x(2) r by (auto simp: best_file_def dest: set_takeWhileD)
  moreover have "SclBootstrapUseCases_pickBestSclFile (Some l) = Some x"
    using True x(1) r by (simp add: SclBootstrapUseCases_pickBestSclFile_def pick_loop_None
        SCL_EXTENSIONS_BY_PRIORITY_def r_def [symmetric])
  ultimately show ?thesis using best_file_unique by auto
qed

section \<open>The download\<close>

lemma handler_grows:
  assumes "db_capacity b = db_size b" and "length (db_data b) = unat (db_size b)"
    and "unat (db_size b) + length chunk < 2 ^ 32"
  shows "SclBootstrapFileDownload_handler True b chunk =
    Taken \<lparr>db_data = db_data b @ chunk, db_size = db_size b + word_of_nat (length chunk),
           db_capacity = db_size b + word_of_nat (length chunk)\<rparr>"
proof (cases "chunk = []")
  case True
  with assms show ?thesis by (simp add: SclBootstrapFileDownload_handler_def)
next
  case False
  let ?n = "word_of_nat (length chunk) :: u32"
  have n: "unat ?n = length chunk" using assms(3) by (simp add: unat_of_nat)
  then have "?n \<noteq> 0" using False by (metis length_0_conv unsigned_0)
  moreover have s: "unat (db_size b + ?n) = unat (db_size b) + length chunk"
    using assms(3) n by (simp add: unat_word_ariths)
  moreover have "db_size b + ?n > db_capacity b"
    using s assms(1) False by (simp add: word_less_nat_alt)
  ultimately show ?thesis using assms n by (simp add: SclBootstrapFileDownload_handler_def Let_def)
qed

lemma receive_chunks_exact:
  assumes "\<And>i. okGrow i"
  shows "db_capacity b = db_size b \<Longrightarrow> length (db_data b) = unat (db_size b)
    \<Longrightarrow> unat (db_size b) + length (concat chunks) < 2 ^ 32
    \<Longrightarrow> \<exists>n. receive_chunks okGrow b chunks = Taken \<lparr>db_data = db_data b @ concat chunks, db_size = n, db_capacity = n\<rparr>
      \<and> unat n = unat (db_size b) + length (concat chunks)"
proof (induction chunks arbitrary: b)
  case Nil
  then show ?case by (intro exI [of _ "db_size b"]) (cases b, simp)
next
  case (Cons c rest)
  let ?n = "db_size b + word_of_nat (length c)"
  have n: "unat ?n = unat (db_size b) + length c" using Cons.prems(3)
    by (simp add: unat_word_ariths unat_of_nat)
  have "SclBootstrapFileDownload_handler True b c = Taken \<lparr>db_data = db_data b @ c, db_size = ?n, db_capacity = ?n\<rparr>"
    using Cons.prems by (intro handler_grows) simp_all
  with Cons.IH [of "\<lparr>db_data = db_data b @ c, db_size = ?n, db_capacity = ?n\<rparr>"] n Cons.prems assms
  show ?case by (auto simp: add.assoc)
qed

text \<open>
  The size is a 32-bit counter and is not checked: the chunk that takes a file to 4 GiB makes it
  wrap, the buffer is not grown, and the copy goes past its end.
\<close>

lemma download_wraps:
  assumes "db_capacity b = db_size b" and "0 < length chunk" and "length chunk < 2 ^ 32"
    and "2 ^ 32 \<le> unat (db_size b) + length chunk"
  shows "SclBootstrapFileDownload_handler okGrow b chunk = Overrun"
proof -
  let ?n = "word_of_nat (length chunk) :: u32"
  have n: "unat ?n = length chunk" using assms(3) by (simp add: unat_of_nat)
  then have "?n \<noteq> 0" using assms(2) by (metis less_irrefl unsigned_0)
  moreover have b: "unat (db_size b) < 2 ^ 32" using unsigned_less [of "db_size b", where ?'a = nat] by simp
  moreover have "unat (db_size b + ?n) = unat (db_size b) + length chunk - 2 ^ 32"
  proof -
    have "unat (db_size b + ?n) = (unat (db_size b) + length chunk) mod 2 ^ 32"
      using n by (simp add: unat_word_ariths)
    also have "\<dots> = unat (db_size b) + length chunk - 2 ^ 32"
      using b assms(3,4) by (subst le_mod_geq [OF assms(4)]) simp
    finally show ?thesis .
  qed
  ultimately have "\<not> db_size b + ?n > db_capacity b"
    using assms by (simp add: word_less_nat_alt)
  with \<open>?n \<noteq> 0\<close> n assms show ?thesis
    by (simp add: SclBootstrapFileDownload_handler_def Let_def)
qed


section \<open>The session and the scan\<close>

inductive scl_within :: "file_device \<Rightarrow> int \<Rightarrow> string option \<Rightarrow> string \<Rightarrow> bool" where
  scl_file: "fd_dir dev dir = (IED_ERROR_OK, entries) \<Longrightarrow> name \<in> set entries
    \<Longrightarrow> \<not> SclBootstrapUseCases_isDirectoryEntry (Some name) \<Longrightarrow> SclBootstrapUseCases_isSclExtension (Some name)
    \<Longrightarrow> scl_within dev depth dir (SclBootstrapUtils_joinPath dir name)"
| scl_subdir: "fd_dir dev dir = (IED_ERROR_OK, entries) \<Longrightarrow> name \<in> set entries
    \<Longrightarrow> SclBootstrapUseCases_isDirectoryEntry (Some name) \<Longrightarrow> depth > 1
    \<Longrightarrow> scl_within dev (depth - 1) (Some (SclBootstrapUtils_joinPath dir name)) path
    \<Longrightarrow> scl_within dev depth dir path"

inductive_cases scl_withinE: "scl_within dev depth dir path"

lemma in_concat_map: "p \<in> set (concat (map F l)) \<longleftrightarrow> (\<exists>n \<in> set l. p \<in> set (F n))"
  by simp

text \<open>Browsing finds the SCL files of the tree down to the depth, whatever fails beside them.\<close>

lemma browse_set: "set (snd (browseDirectoryRecursive dev dir depth)) = {p. scl_within dev depth dir p}"
proof (intro set_eqI iffI)
  fix p assume "p \<in> set (snd (browseDirectoryRecursive dev dir depth))"
  then show "p \<in> {p. scl_within dev depth dir p}"
  proof (induction dev dir depth rule: browseDirectoryRecursive.induct)
    case (1 dev dir depth)
    obtain err entries where d: "fd_dir dev dir = (err, entries)" by fastforce
    with 1(2) have "err = IED_ERROR_OK"
      by (simp add: browseDirectoryRecursive.simps [of dev dir depth] split: if_splits)
    with 1(2) d obtain name where n: "name \<in> set entries"
      "p \<in> set (if SclBootstrapUseCases_isDirectoryEntry (Some name) then
          if depth > 1 then snd (browseDirectoryRecursive dev (Some (SclBootstrapUtils_joinPath dir name)) (depth - 1)) else []
        else if SclBootstrapUseCases_isSclExtension (Some name) then [SclBootstrapUtils_joinPath dir name] else [])"
      unfolding browseDirectoryRecursive.simps [of dev dir depth] d prod.case
      by (simp only: not_True_eq_False simp_thms if_False snd_conv in_concat_map) (elim bexE)
    show ?case
    proof (cases "SclBootstrapUseCases_isDirectoryEntry (Some name)")
      case True
      with n(2) have sub: "depth > 1"
        "p \<in> set (snd (browseDirectoryRecursive dev (Some (SclBootstrapUtils_joinPath dir name)) (depth - 1)))"
        by (auto split: if_splits)
      have "scl_within dev (depth - 1) (Some (SclBootstrapUtils_joinPath dir name)) p"
        using 1(1) [OF d [symmetric]] \<open>err = IED_ERROR_OK\<close> n(1) True sub by auto
      with d \<open>err = IED_ERROR_OK\<close> n(1) True sub(1) show ?thesis by (auto intro: scl_within.scl_subdir)
    next
      case False
      with n d \<open>err = IED_ERROR_OK\<close> show ?thesis by (auto intro: scl_within.scl_file split: if_splits)
    qed
  qed
next
  fix p assume "p \<in> {p. scl_within dev depth dir p}"
  then have "scl_within dev depth dir p" by simp
  then show "p \<in> set (snd (browseDirectoryRecursive dev dir depth))"
    by induction (force simp: browseDirectoryRecursive.simps)+
qed

lemma browse_err: "fst (browseDirectoryRecursive dev dir depth) = fst (fd_dir dev dir)"
  by (auto simp: browseDirectoryRecursive.simps split: prod.splits)

text \<open>Files below 4 GiB, and memory for them.\<close>

definition fits_memory :: "file_device \<Rightarrow> bool" where
  "fits_memory dev \<longleftrightarrow> (\<forall>p. length (concat (fd_chunks dev p)) < 2 ^ 32) \<and> (\<forall>i. fd_okGrow dev i)"

lemma download_init:
  assumes "fits_memory dev"
  shows "\<exists>n. receive_chunks (fd_okGrow dev) SclBootstrapFileDownloadBuffer_init (fd_chunks dev p)
      = Taken \<lparr>db_data = concat (fd_chunks dev p), db_size = n, db_capacity = n\<rparr>
    \<and> unat n = length (concat (fd_chunks dev p))"
  using receive_chunks_exact [of "fd_okGrow dev" SclBootstrapFileDownloadBuffer_init "fd_chunks dev p"] assms
  by (simp add: fits_memory_def SclBootstrapFileDownloadBuffer_init_def)

text \<open>C29. C1 With a device that lets the client in, lists its root and holds an SCL file within the
  browse depth, the session retrieves the best such file (extension first, then name) and the
  bytes it stores are exactly the bytes sent.\<close>

theorem session_fetches_best:
  assumes "fd_created (dev None)" and "fd_connect (dev None) = IED_ERROR_OK"
    and "fst (fd_dir (dev None) None) = IED_ERROR_OK"
    and "best_file {p. scl_within (dev None) (sc_maxBrowseDepth config) None p} b"
    and "fd_fileErr (dev None) b True = IED_ERROR_OK" and "fits_memory (dev None)"
  shows "\<exists>r. SclBootstrapMmsSession_run dev config password result = Some r
    \<and> sb_status r = SCL_BOOTSTRAP_CANDIDATE_FILE_RETRIEVED \<and> sb_fileName r = Some b
    \<and> sb_fileData r = (if concat (fd_chunks (dev None) b) = [] then None else Some (concat (fd_chunks (dev None) b)))
    \<and> unat (sb_fileSize r) = length (concat (fd_chunks (dev None) b))
    \<and> \<not> sb_authWasAttempted r"
proof -
  obtain matches where m: "browseDirectoryRecursive (dev None) None (sc_maxBrowseDepth config) = (IED_ERROR_OK, matches)"
    using assms(3) browse_err [of "dev None" None "sc_maxBrowseDepth config"] by (metis prod.collapse)
  with assms(4) have "SclBootstrapUseCases_pickBestSclFile (Some matches) = Some b"
    using browse_set [of "dev None" None "sc_maxBrowseDepth config"] by (simp add: pick_best_iff)
  moreover obtain n where n: "receive_chunks (fd_okGrow (dev None)) SclBootstrapFileDownloadBuffer_init (fd_chunks (dev None) b)
      = Taken \<lparr>db_data = concat (fd_chunks (dev None) b), db_size = n, db_capacity = n\<rparr>"
    "unat n = length (concat (fd_chunks (dev None) b))"
    using download_init [OF assms(6)] by blast
  moreover have "n = 0 \<longleftrightarrow> concat (fd_chunks (dev None) b) = []"
    using n(2) by (metis length_0_conv unat_eq_zero)
  ultimately show ?thesis using assms m
    by (simp add: SclBootstrapMmsSession_run_def runSequenceOnce_def Let_def)
qed

definition demo_file_device :: file_device where
  "demo_file_device = \<lparr>fd_created = True, fd_connect = IED_ERROR_OK,
     fd_dir = (\<lambda>d. if d = None then (IED_ERROR_OK, [''log.txt'', ''b.icd'', ''scl/''])
       else if d = Some ''scl/'' then (IED_ERROR_OK, [''z.CID'', ''old/'']) else (IED_ERROR_UNKNOWN, [])),
     fd_chunks = (\<lambda>p. if p = ''scl/z.CID'' then [[60, 83], [67, 76, 62]] else []),
     fd_okGrow = (\<lambda>_. True), fd_fileErr = (\<lambda>_ _. IED_ERROR_OK)\<rparr>"

lemma demo_best_file:
  "best_file {p. scl_within demo_file_device 2 None p} ''scl/z.CID''"
proof -
  have "SclBootstrapUseCases_pickBestSclFile (Some (snd (browseDirectoryRecursive demo_file_device None 2))) = Some ''scl/z.CID''"
    by code_simp
  then show ?thesis by (simp only: pick_best_iff browse_set)
qed

lemma session_fetches_best_witness:
  "\<exists>r. SclBootstrapMmsSession_run (\<lambda>_. demo_file_device) SclBootstrapConfig_defaults (Some ''pw'') (fresh_result ''10.0.0.1'' 102) = Some r
    \<and> sb_fileName r = Some ''scl/z.CID'' \<and> sb_fileData r = Some [60, 83, 67, 76, 62]"
proof -
  have p: "fd_created demo_file_device" "fd_connect demo_file_device = IED_ERROR_OK"
    "fst (fd_dir demo_file_device None) = IED_ERROR_OK"
    "fd_fileErr demo_file_device ''scl/z.CID'' True = IED_ERROR_OK" "fits_memory demo_file_device"
    by (simp_all add: demo_file_device_def fits_memory_def)
  have b: "best_file {p. scl_within demo_file_device (sc_maxBrowseDepth SclBootstrapConfig_defaults) None p} ''scl/z.CID''"
    using demo_best_file by (simp add: SclBootstrapConfig_defaults_def)
  have c: "concat (fd_chunks demo_file_device ''scl/z.CID'') = [60, 83, 67, 76, 62]"
    by (simp add: demo_file_device_def)
  from session_fetches_best [of "\<lambda>_. demo_file_device", OF p(1-3) b p(4,5), of "Some ''pw''" "fresh_result ''10.0.0.1'' 102"] c
  show ?thesis by auto
qed


lemma runSequenceOnce_total:
  assumes "fits_memory dev"
  shows "\<exists>r' d. runSequenceOnce dev config r = Some (r', d) \<and> sb_host r' = sb_host r"
proof -
  obtain err matches where b: "browseDirectoryRecursive dev None (sc_maxBrowseDepth config) = (err, matches)"
    by fastforce
  show ?thesis
  proof (cases "SclBootstrapUseCases_pickBestSclFile (Some matches)")
    case None
    with b show ?thesis by (auto simp: runSequenceOnce_def Let_def)
  next
    case (Some f)
    obtain n where "receive_chunks (fd_okGrow dev) SclBootstrapFileDownloadBuffer_init (fd_chunks dev f)
      = Taken \<lparr>db_data = concat (fd_chunks dev f), db_size = n, db_capacity = n\<rparr>"
      using download_init [OF assms] by blast
    with b Some show ?thesis by (auto simp: runSequenceOnce_def Let_def)
  qed
qed

lemma session_total:
  assumes "\<And>pw. fits_memory (dev pw)"
  shows "\<exists>r'. SclBootstrapMmsSession_run dev config pw r = Some r' \<and> sb_host r' = sb_host r"
proof -
  obtain r1 d where 1: "runSequenceOnce (dev None) config (r\<lparr>sb_authWasAttempted := False\<rparr>) = Some (r1, d)"
    "sb_host r1 = sb_host r"
    using runSequenceOnce_total [of "dev None" config "r\<lparr>sb_authWasAttempted := False\<rparr>"] assms by auto
  obtain r2 d2 where 2: "runSequenceOnce (dev pw) config (r1\<lparr>sb_authWasAttempted := True\<rparr>) = Some (r2, d2)"
    "sb_host r2 = sb_host r1"
    using runSequenceOnce_total [of "dev pw" config "r1\<lparr>sb_authWasAttempted := True\<rparr>"] assms by auto
  from 1 2 show ?thesis by (simp add: SclBootstrapMmsSession_run_def)
qed

lemma sb_host_fresh_result [simp]: "sb_host (fresh_result host mmsPort) = host"
  by (simp add: fresh_result_def)

lemma fetch_loop_exact:
  assumes "\<And>host pw. fits_memory (net host pw)"
  shows "\<exists>l. fetch_loop net (\<lambda>_. True) h port reach i hosts = Some l \<and> map sb_host l = hosts
    \<and> (\<forall>k < length hosts. Some (l ! k) = (if reach ! (i + k)
        then SclBootstrapMmsSession_run (net (hosts ! k)) (sh_config h) (sh_ownedAuthPassword h) (fresh_result (hosts ! k) port)
        else Some (fresh_result (hosts ! k) port)))"
proof (induction hosts arbitrary: i)
  case Nil
  then show ?case by simp
next
  case (Cons host rest)
  from Cons.IH [of "i + 1"] obtain l where l: "fetch_loop net (\<lambda>_. True) h port reach (i + 1) rest = Some l"
    "map sb_host l = rest"
    "\<forall>k < length rest. Some (l ! k) = (if reach ! (i + 1 + k)
        then SclBootstrapMmsSession_run (net (rest ! k)) (sh_config h) (sh_ownedAuthPassword h) (fresh_result (rest ! k) port)
        else Some (fresh_result (rest ! k) port))" by blast
  obtain r where r: "(if \<not> reach ! i then Some (fresh_result host port)
      else SclBootstrapMmsSession_run (net host) (sh_config h) (sh_ownedAuthPassword h) (fresh_result host port)) = Some r"
    "sb_host r = host"
    using session_total [of "net host", OF assms, of "sh_config h" "sh_ownedAuthPassword h" "fresh_result host port"]
    by (cases "reach ! i") auto
  have "fetch_loop net (\<lambda>_. True) h port reach i (host # rest) = Some (r # l)"
    using l(1) r(1) by (simp add: Let_def)
  moreover have "Some ((r # l) ! k) = (if reach ! (i + k)
        then SclBootstrapMmsSession_run (net ((host # rest) ! k)) (sh_config h) (sh_ownedAuthPassword h) (fresh_result ((host # rest) ! k) port)
        else Some (fresh_result ((host # rest) ! k) port))" if "k < length (host # rest)" for k
    using that l(3) r(1) by (cases k) (auto split: if_splits)
  ultimately show ?case using l(2) r(2) by auto
qed



end
