(* ===== verification/Ied_Discovery.thy ===== *)
theory Ied_Discovery
  imports Ied_Discovery_Cidr Scl_Bootstrap
begin

text \<open>
  The \<open>ied_discovery\<close> feature: one association attempt and its retry with a password
  (\<open>data/ied_discovery_mms_probe.c\<close>), and the checks of one host and of a whole subnet
  (\<open>service/ied_discovery_api.c\<close>), over the address arithmetic of \<open>Ied_Discovery_Cidr\<close> and the TCP
  probe of \<open>Scl_Probe\<close>. What a host answers to an association, without and with the password, is a
  function: within one scan every association is asked for once, so a function of the host and the
  password is any behaviour of the network. \<open>None\<close> is a failed \<open>IedConnection_create\<close>.
\<close>

datatype IedDiscoveryError =
    IED_DISCOVERY_OK | IED_DISCOVERY_ERR_INVALID_ARGUMENT | IED_DISCOVERY_ERR_OUT_OF_MEMORY
  | IED_DISCOVERY_ERR_INTERFACE_NOT_FOUND | IED_DISCOVERY_ERR_SUBNET_TOO_LARGE

datatype IedDiscoveryHostStatus =
    IED_DISCOVERY_HOST_CONFIRMED | IED_DISCOVERY_HOST_NOT_TCP_REACHABLE
  | IED_DISCOVERY_HOST_NOT_MMS_DEVICE | IED_DISCOVERY_HOST_ACCESS_DENIED

record IedDiscoveredHost =
  idh_host :: "string option" \<comment> \<open>\<open>None\<close> where the copy of the name failed\<close>
  idh_authRequired :: bool

record IedDiscoveryConfig =
  id_tcpProbeTimeoutMs :: u32
  id_maxConcurrentTcpProbes :: int
  id_mmsConnectTimeoutMs :: u32
  id_maxHosts :: u32
  id_acseAuthPassword :: "string option"

definition IedDiscoveryConfig_defaults :: IedDiscoveryConfig where
  "IedDiscoveryConfig_defaults = \<lparr>id_tcpProbeTimeoutMs = 500, id_maxConcurrentTcpProbes = 64,
     id_mmsConnectTimeoutMs = 3000, id_maxHosts = 1024, id_acseAuthPassword = None\<rparr>"

record ied_discovery_handle =
  ih_config :: IedDiscoveryConfig
  ih_ownedAuthPassword :: "string option"
  ih_tcpProbeDelegate :: scl_bootstrap_handle

text \<open>\<open>okHandle\<close> and \<open>okDelegate\<close>: the two handles are allocated.\<close>

definition IedDiscovery_create :: "bool \<Rightarrow> bool \<Rightarrow> IedDiscoveryConfig option \<Rightarrow> IedDiscoveryError \<times> ied_discovery_handle option" where
  "IedDiscovery_create okHandle okDelegate config =
     (if \<not> okHandle then (IED_DISCOVERY_ERR_OUT_OF_MEMORY, None)
      else let c = (case config of Some c \<Rightarrow> c | None \<Rightarrow> IedDiscoveryConfig_defaults);
               delegateConfig = SclBootstrapConfig_defaults\<lparr>sc_tcpProbeTimeoutMs := id_tcpProbeTimeoutMs c,
                 sc_maxConcurrentTcpProbes := id_maxConcurrentTcpProbes c\<rparr>
           in case SclBootstrap_create okDelegate (Some delegateConfig) of
                (_, None) \<Rightarrow> (IED_DISCOVERY_ERR_OUT_OF_MEMORY, None)
              | (_, Some d) \<Rightarrow> (IED_DISCOVERY_OK, Some \<lparr>ih_config = c, ih_ownedAuthPassword = id_acseAuthPassword c,
                                                    ih_tcpProbeDelegate = d\<rparr>))"

section \<open>One association\<close>

type_synonym mms_net = "string \<Rightarrow> string option \<Rightarrow> IedClientError option"

text \<open>Whether it succeeded, and \<open>*outAccessDenied\<close>.\<close>

definition tryAssociateOnce :: "mms_net \<Rightarrow> string \<Rightarrow> string option \<Rightarrow> bool \<times> bool" where
  "tryAssociateOnce net host password =
     (case net host password of
        None \<Rightarrow> (False, False)
      | Some err \<Rightarrow> if err \<noteq> IED_ERROR_OK then (False, connect_denied err) else (True, False))"

definition IedDiscoveryMmsProbe_associate :: "mms_net \<Rightarrow> string \<Rightarrow> string option \<Rightarrow> bool \<times> bool" where
  "IedDiscoveryMmsProbe_associate net host ownedAuthPassword =
     (let (ok, accessDenied) = tryAssociateOnce net host None
      in if ok then (True, False)
         else if accessDenied \<and> ownedAuthPassword \<noteq> None then
           let (ok, retryAccessDenied) = tryAssociateOnce net host ownedAuthPassword
           in (ok, \<not> ok \<and> retryAccessDenied)
         else (False, accessDenied))"

section \<open>One host, one subnet\<close>

definition verifyOneHost ::
    "probe_env \<Rightarrow> bool \<Rightarrow> bool \<Rightarrow> mms_net \<Rightarrow> ied_discovery_handle \<Rightarrow> string \<Rightarrow> int \<Rightarrow> probe_trace
      \<Rightarrow> (IedDiscoveryHostStatus \<times> probe_trace) option" where
  "verifyOneHost env okReach okSlots net handle host mmsPort tr =
     (case SclBootstrap_tcpProbeOnly env okReach okSlots (ih_tcpProbeDelegate handle) (Some [Some host]) mmsPort tr of
        None \<Rightarrow> None
      | Some (None, tr) \<Rightarrow> Some (IED_DISCOVERY_HOST_NOT_TCP_REACHABLE, tr)
      | Some (Some reachable, tr) \<Rightarrow>
          if \<not> reachable ! 0 then Some (IED_DISCOVERY_HOST_NOT_TCP_REACHABLE, tr)
          else let (associated, accessDenied) = IedDiscoveryMmsProbe_associate net host (ih_ownedAuthPassword handle)
               in Some (if associated then IED_DISCOVERY_HOST_CONFIRMED
                        else if accessDenied then IED_DISCOVERY_HOST_ACCESS_DENIED
                        else IED_DISCOVERY_HOST_NOT_MMS_DEVICE, tr))"

definition IedDiscovery_verifyHost ::
    "probe_env \<Rightarrow> bool \<Rightarrow> bool \<Rightarrow> mms_net \<Rightarrow> ied_discovery_handle option \<Rightarrow> string option \<Rightarrow> int \<Rightarrow> probe_trace
      \<Rightarrow> (IedDiscoveryError \<times> IedDiscoveryHostStatus) option" where
  "IedDiscovery_verifyHost env okReach okSlots net handle host mmsPort tr =
     (case (handle, host) of
        (Some h, Some (c # cs)) \<Rightarrow>
          if mmsPort \<le> 0 then Some (IED_DISCOVERY_ERR_INVALID_ARGUMENT, IED_DISCOVERY_HOST_NOT_TCP_REACHABLE)
          else map_option (\<lambda>(st, _). (IED_DISCOVERY_OK, st)) (verifyOneHost env okReach okSlots net h (c # cs) mmsPort tr)
      | _ \<Rightarrow> Some (IED_DISCOVERY_ERR_INVALID_ARGUMENT, IED_DISCOVERY_HOST_NOT_TCP_REACHABLE))"

text \<open>The loop over the candidates; for position \<open>i\<close>, \<open>okEntry i\<close> says whether the entry and
  \<open>okName i\<close> whether the copy of the name is allocated.\<close>

fun confirm_loop ::
    "mms_net \<Rightarrow> (nat \<Rightarrow> bool) \<Rightarrow> (nat \<Rightarrow> bool) \<Rightarrow> string option \<Rightarrow> bool list \<Rightarrow> nat \<Rightarrow> string list
      \<Rightarrow> IedDiscoveredHost list" where
  "confirm_loop net okEntry okName password reachable index [] = []"
| "confirm_loop net okEntry okName password reachable index (host # rest) =
     (let rest' = confirm_loop net okEntry okName password reachable (index + 1) rest
      in if reachable ! index then
           let (associated, accessDenied) = IedDiscoveryMmsProbe_associate net host password
           in if (associated \<or> accessDenied) \<and> okEntry index then
                \<lparr>idh_host = (if okName index then Some host else None), idh_authRequired = accessDenied\<rparr> # rest'
              else rest'
         else rest')"

record discovery_memory =
  dm_list :: bool
  dm_ip :: "u32 \<Rightarrow> bool"
  dm_confirmed :: bool
  dm_reach :: bool
  dm_slots :: bool
  dm_entry :: "nat \<Rightarrow> bool"
  dm_name :: "nat \<Rightarrow> bool"

definition plenty :: discovery_memory where
  "plenty = \<lparr>dm_list = True, dm_ip = (\<lambda>_. True), dm_confirmed = True, dm_reach = True, dm_slots = True,
     dm_entry = (\<lambda>_. True), dm_name = (\<lambda>_. True)\<rparr>"

definition IedDiscovery_scanSubnet ::
    "probe_env \<Rightarrow> discovery_memory \<Rightarrow> mms_net \<Rightarrow> ifaddr list option \<Rightarrow> ied_discovery_handle option
      \<Rightarrow> string option \<Rightarrow> int \<Rightarrow> probe_trace
      \<Rightarrow> (IedDiscoveryError \<times> IedDiscoveredHost list option \<times> probe_trace) option" where
  "IedDiscovery_scanSubnet env mem net getifaddrs handle interfaceId mmsPort tr =
     (case (handle, interfaceId) of
        (Some h, Some (c # cs)) \<Rightarrow>
          if mmsPort \<le> 0 then Some (IED_DISCOVERY_ERR_INVALID_ARGUMENT, None, tr)
          else (case IedDiscoveryNetif_getInterfaceIpv4 getifaddrs interfaceId of
            None \<Rightarrow> Some (IED_DISCOVERY_ERR_INTERFACE_NOT_FOUND, None, tr)
          | Some (address, netmask) \<Rightarrow>
              if IedDiscoveryCidr_hostCount netmask > id_maxHosts (ih_config h)
              then Some (IED_DISCOVERY_ERR_SUBNET_TOO_LARGE, None, tr)
              else (case IedDiscoveryCidr_buildCandidateList (dm_list mem) (dm_ip mem) address netmask address
                      (id_maxHosts (ih_config h)) of
                None \<Rightarrow> Some (IED_DISCOVERY_ERR_OUT_OF_MEMORY, None, tr)
              | Some candidates \<Rightarrow>
                  if \<not> dm_confirmed mem then Some (IED_DISCOVERY_ERR_OUT_OF_MEMORY, None, tr)
                  else if candidates = [] then Some (IED_DISCOVERY_OK, Some [], tr)
                  else (case SclBootstrap_tcpProbeOnly env (dm_reach mem) (dm_slots mem) (ih_tcpProbeDelegate h)
                          (Some (map Some candidates)) mmsPort tr of
                    None \<Rightarrow> None
                  | Some (None, tr) \<Rightarrow> Some (IED_DISCOVERY_ERR_OUT_OF_MEMORY, None, tr)
                  | Some (Some reachable, tr) \<Rightarrow>
                      Some (IED_DISCOVERY_OK,
                        Some (confirm_loop net (dm_entry mem) (dm_name mem) (ih_ownedAuthPassword h) reachable 0 candidates),
                        tr))))
      | _ \<Rightarrow> Some (IED_DISCOVERY_ERR_INVALID_ARGUMENT, None, tr))"

section \<open>What a scan reports\<close>

text \<open>A host speaks MMS to this client: it lets it in, or it is certain that it would with the
  right credentials.\<close>

definition speaks_mms :: "mms_net \<Rightarrow> string option \<Rightarrow> string \<Rightarrow> bool" where
  "speaks_mms net password host \<longleftrightarrow>
     (case IedDiscoveryMmsProbe_associate net host password of (ok, denied) \<Rightarrow> ok \<or> denied)"

definition needs_auth :: "mms_net \<Rightarrow> string option \<Rightarrow> string \<Rightarrow> bool" where
  "needs_auth net password host \<longleftrightarrow> snd (IedDiscoveryMmsProbe_associate net host password)"

lemma associate_denied_not_ok: "IedDiscoveryMmsProbe_associate net host pw = (ok, denied) \<Longrightarrow> \<not> (ok \<and> denied)"
  by (auto simp: IedDiscoveryMmsProbe_associate_def split: prod.splits if_splits)

lemma confirm_loop_exact:
  "confirm_loop net (\<lambda>_. True) (\<lambda>_. True) pw reach i hosts =
     map (\<lambda>k. \<lparr>idh_host = Some (hosts ! k), idh_authRequired = needs_auth net pw (hosts ! k)\<rparr>)
       (filter (\<lambda>k. reach ! (i + k) \<and> speaks_mms net pw (hosts ! k)) [0..<length hosts])"
proof (induction hosts arbitrary: i)
  case Nil
  then show ?case by simp
next
  case (Cons h rest)
  have up: "[0..<length (h # rest)] = 0 # map Suc [0..<length rest]"
    by (simp add: upt_conv_Cons map_Suc_upt del: upt_Suc)
  show ?case unfolding up
    by (cases "IedDiscoveryMmsProbe_associate net h pw")
      (simp add: Cons.IH filter_map o_def speaks_mms_def needs_auth_def Let_def)
qed

lemma scan_after_build:
  assumes "IedDiscoveryNetif_getInterfaceIpv4 ifs (Some (c # cs)) = Some (address, netmask)"
    and "IedDiscoveryCidr_hostCount netmask \<le> id_maxHosts (ih_config h)" and "mmsPort > 0"
    and build: "IedDiscoveryCidr_buildCandidateList True (\<lambda>_. True) address netmask address (id_maxHosts (ih_config h)) = Some hosts"
    and "[] \<notin> set hosts"
    and ck: "clock_ok env (sc_tcpProbeTimeoutMs (sh_config (ih_tcpProbeDelegate h))) tr
        (length hosts * scan_budget (sc_tcpProbeTimeoutMs (sh_config (ih_tcpProbeDelegate h))))"
  shows "\<exists>evs. IedDiscovery_scanSubnet env plenty net ifs (Some h) (Some (c # cs)) mmsPort tr
      = Some (IED_DISCOVERY_OK,
          Some (map (\<lambda>k. \<lparr>idh_host = Some (hosts ! k),
                          idh_authRequired = needs_auth net (ih_ownedAuthPassword h) (hosts ! k)\<rparr>)
            (filter (\<lambda>k. EvCheck k SOCKET_STATE_CONNECTED \<in> set evs
                \<and> speaks_mms net (ih_ownedAuthPassword h) (hosts ! k)) [0..<length hosts])),
          evs @ tr)"
proof (cases "hosts = []")
  case True
  with build assms(1-3) show ?thesis
    by (intro exI [of _ "[]"]) (simp add: IedDiscovery_scanSubnet_def plenty_def not_less)
next
  case False
  have v: "SclBootstrapUseCases_isHostListValid (Some (map Some hosts))"
    using False assms(5) by (auto simp: SclBootstrapUseCases_isHostListValid_def)
  obtain reach evs where p: "SclBootstrapTcpProbe_scan env True True (Some hosts) mmsPort
      (sc_tcpProbeTimeoutMs (sh_config (ih_tcpProbeDelegate h)))
      (sc_maxConcurrentTcpProbes (sh_config (ih_tcpProbeDelegate h))) tr = Some (Some reach, evs @ tr)"
    "\<forall>k < length hosts. reach ! k \<longleftrightarrow> EvCheck k SOCKET_STATE_CONNECTED \<in> set evs"
    using scan_facts [OF False ck] by blast
  then have "SclBootstrap_tcpProbeOnly env True True (ih_tcpProbeDelegate h) (Some (map Some hosts)) mmsPort tr
      = Some (Some reach, evs @ tr)"
    using v assms(3) by (simp add: SclBootstrap_tcpProbeOnly_def o_def)
  then have "IedDiscovery_scanSubnet env plenty net ifs (Some h) (Some (c # cs)) mmsPort tr
    = Some (IED_DISCOVERY_OK, Some (confirm_loop net (\<lambda>_. True) (\<lambda>_. True) (ih_ownedAuthPassword h) reach 0 hosts), evs @ tr)"
    using build assms(1-3) False by (simp add: IedDiscovery_scanSubnet_def plenty_def not_less)
  moreover have "filter (\<lambda>k. reach ! (0 + k) \<and> speaks_mms net (ih_ownedAuthPassword h) (hosts ! k)) [0..<length hosts]
    = filter (\<lambda>k. EvCheck k SOCKET_STATE_CONNECTED \<in> set evs
        \<and> speaks_mms net (ih_ownedAuthPassword h) (hosts ! k)) [0..<length hosts]"
    using p(2) by (intro filter_cong) auto
  ultimately show ?thesis by (intro exI [of _ evs]) (simp add: confirm_loop_exact)
qed

lemma formatDottedQuad_not_Nil: "formatDottedQuad a \<noteq> []"
  by (simp add: formatDottedQuad_def)

text \<open>C27. C1 A scan of a subnet within the limit ends and lists, in ascending order, exactly the
  usable addresses of the subnet other than the interface's own whose connection came up and that
  answered MMS, each marked as needing credentials exactly if the association was refused.\<close>

theorem scan_subnet_exact:
  assumes "IedDiscoveryNetif_getInterfaceIpv4 ifs (Some (c # cs)) = Some (address, netmask_of n)"
    and "n \<le> 32" and "\<not> (n = 0 \<and> address = - 1)"
    and "IedDiscoveryCidr_hostCount (netmask_of n) \<le> id_maxHosts (ih_config h)" and "mmsPort > 0"
    and ck: "\<And>m. m \<le> unat (id_maxHosts (ih_config h)) \<Longrightarrow>
      clock_ok env (sc_tcpProbeTimeoutMs (sh_config (ih_tcpProbeDelegate h))) tr
        (m * scan_budget (sc_tcpProbeTimeoutMs (sh_config (ih_tcpProbeDelegate h))))"
  shows "\<exists>as hosts evs. hosts = map formatDottedQuad as
    \<and> IedDiscovery_scanSubnet env plenty net ifs (Some h) (Some (c # cs)) mmsPort tr
      = Some (IED_DISCOVERY_OK,
          Some (map (\<lambda>k. \<lparr>idh_host = Some (hosts ! k),
                          idh_authRequired = needs_auth net (ih_ownedAuthPassword h) (hosts ! k)\<rparr>)
            (filter (\<lambda>k. EvCheck k SOCKET_STATE_CONNECTED \<in> set evs
                \<and> speaks_mms net (ih_ownedAuthPassword h) (hosts ! k)) [0..<length hosts])),
          evs @ tr)
    \<and> sorted_wrt (<) as
    \<and> set as = subnet address (netmask_of n)
        - {IedDiscoveryCidr_networkAddress address (netmask_of n),
           IedDiscoveryCidr_broadcastAddress address (netmask_of n), address}"
proof -
  let ?tmo = "sc_tcpProbeTimeoutMs (sh_config (ih_tcpProbeDelegate h))"
  define as where "as = filter (\<lambda>x. x \<noteq> address) (between address (netmask_of n))"
  note facts = candidates_facts [OF assms(2-4)]
  have build: "IedDiscoveryCidr_buildCandidateList True (\<lambda>_. True) address (netmask_of n) address (id_maxHosts (ih_config h))
      = Some (map formatDottedQuad as)"
    using facts(1) [of address] by (simp add: as_def)
  have sorted: "sorted_wrt (<) as"
    unfolding as_def between_def using sorted_addresses by (rule sorted_wrt_filter)
  have set: "set as = subnet address (netmask_of n)
        - {IedDiscoveryCidr_networkAddress address (netmask_of n),
           IedDiscoveryCidr_broadcastAddress address (netmask_of n), address}"
    using facts(2) by (auto simp: as_def)
  have "length as \<le> unat (id_maxHosts (ih_config h))"
    using facts(3) assms(4) length_filter_le [of "\<lambda>x. x \<noteq> address" "between address (netmask_of n)"]
    unfolding as_def word_le_nat_alt by linarith
  then have "length (map formatDottedQuad as) \<le> unat (id_maxHosts (ih_config h))" by simp
  note bound = ck [OF this]
  have "[] \<notin> set (map formatDottedQuad as)" using formatDottedQuad_not_Nil by (metis ex_map_conv)
  from scan_after_build [OF assms(1,4,5) build this bound, of net] sorted set show ?thesis by blast
qed

text \<open>A demo: one interface with a link-local and a routable address, and a quiet network.\<close>

definition demo_ifaddrs :: "ifaddr list" where
  "demo_ifaddrs = [\<lparr>ifa_name = ''eth0'', ifa_addr = Some (True, 0xA9FE0101), ifa_netmask = Some 0xFFFFFF00, ifa_up = True\<rparr>,
     \<lparr>ifa_name = ''eth0'', ifa_addr = Some (True, 0xC0A80132), ifa_netmask = Some 0xFFFFFFF8, ifa_up = True\<rparr>]"

definition demo_discovery :: ied_discovery_handle where
  "demo_discovery = the (snd (IedDiscovery_create True True None))"

lemma scan_subnet_exact_witness:
  "\<exists>l tr. IedDiscovery_scanSubnet demo_probe_env plenty (\<lambda>_ _. Some IED_ERROR_OK) (Some demo_ifaddrs)
      (Some demo_discovery) (Some ''eth0'') 102 [] = Some (IED_DISCOVERY_OK, Some l, tr)"
proof -
  have if1: "IedDiscoveryNetif_getInterfaceIpv4 (Some demo_ifaddrs) (Some ''eth0'') = Some (0xC0A80132, 0xFFFFFFF8)"
    by (simp add: IedDiscoveryNetif_getInterfaceIpv4_def demo_ifaddrs_def IedDiscoveryCidr_isLinkLocal_def)
  have nm: "(0xFFFFFFF8 :: u32) = netmask_of 3" by (simp add: netmask_of_def mask_numeral)
  have h: "id_maxHosts (ih_config demo_discovery) = 1024"
    "sc_tcpProbeTimeoutMs (sh_config (ih_tcpProbeDelegate demo_discovery)) = 500"
    by (simp_all add: demo_discovery_def IedDiscovery_create_def SclBootstrap_create_def
        IedDiscoveryConfig_defaults_def SclBootstrapConfig_defaults_def)
  have fits: "IedDiscoveryCidr_hostCount (netmask_of 3) \<le> id_maxHosts (ih_config demo_discovery)"
    by (simp add: h word_le_nat_alt hostCount_netmask)
  have ck: "clock_ok demo_probe_env (sc_tcpProbeTimeoutMs (sh_config (ih_tcpProbeDelegate demo_discovery))) []
        (m * scan_budget (sc_tcpProbeTimeoutMs (sh_config (ih_tcpProbeDelegate demo_discovery))))"
    if "m \<le> unat (id_maxHosts (ih_config demo_discovery))" for m
  proof (rule sleeping_clock_ok)
    have "m * 530 \<le> 1024 * 530" using that h(1) by simp
    then show "m * scan_budget (sc_tcpProbeTimeoutMs (sh_config (ih_tcpProbeDelegate demo_discovery))) + slept [] < 2 ^ 64"
      by (simp add: h scan_budget_def POLL_INTERVAL_MS_def)
  qed (simp add: demo_probe_env_def)
  from scan_subnet_exact [OF if1 [unfolded nm] _ _ fits _ ck, of 102 "\<lambda>_ _. Some IED_ERROR_OK"]
  show ?thesis by (simp del: length_map) blast
qed

end
