(* ===== verification/Ring_Spec.thy ===== *)
theory Ring_Spec
  imports Prelude
begin

text \<open>
  The contract of the three bounded broadcast rings of the daemon (IPC, scan and control
  dispatchers), stated once as a locale against an unbounded log of every message ever
  pushed, and what a reader with a cursor of its own gets from any interleaving of pushes
  and reads. Each ring's theory interprets the locale on its own operations.
\<close>

section \<open>Slot arithmetic\<close>

text \<open>\<open>(int) (seq % (uint64_t) capacity)\<close> and the oldest sequence number still buffered.\<close>

definition ring_slot :: "u64 \<Rightarrow> int \<Rightarrow> nat" where
  "ring_slot sq capacity = unat (sq mod word_of_int capacity)"

definition oldest_available :: "u64 \<Rightarrow> int \<Rightarrow> u64" where
  "oldest_available hd_seq capacity =
     (if hd_seq > word_of_int capacity then hd_seq - word_of_int capacity else 0)"

definition c_int_pos :: "int \<Rightarrow> bool" where
  "c_int_pos n \<longleftrightarrow> 0 < n \<and> n < 2 ^ 31"

lemma unat_capacity: "c_int_pos n \<Longrightarrow> unat (word_of_int n :: u64) = nat n"
  by (simp add: c_int_pos_def unsigned_of_int take_bit_int_eq_self)

lemma ring_slot_eq: "c_int_pos n \<Longrightarrow> ring_slot sq n = unat sq mod nat n"
  by (simp add: ring_slot_def unat_mod_distrib unat_capacity)

lemma unat_oldest_available: "c_int_pos n \<Longrightarrow> unat (oldest_available h n) = unat h - nat n"
  by (auto simp: oldest_available_def word_less_nat_alt unat_capacity unat_sub word_le_nat_alt)

lemma ring_window_inj:
  fixes i n c :: nat
  assumes "i mod c = n mod c" and "i < n" and "n < i + c"
  shows False
proof -
  from assms(1,2) have "c dvd n - i" by (metis less_imp_le mod_eq_dvd_iff_nat)
  moreover have "0 < n - i" "n - i < c" using assms by auto
  ultimately show False by (auto dest: dvd_imp_le)
qed

section \<open>Interleavings of a producer and one reader\<close>

datatype ring_event = Push_Event string | Read_Event

fun pushed_by :: "ring_event list \<Rightarrow> string list" where
  "pushed_by [] = []"
| "pushed_by (Push_Event x # es) = x # pushed_by es"
| "pushed_by (Read_Event # es) = pushed_by es"

text \<open>
  \<open>ring_run push read b c es\<close> plays the events on ring \<open>b\<close> with the reader's cursor at
  \<open>c\<close>: the final ring and cursor, the messages delivered and the number reported dropped.
\<close>

fun ring_run :: "('b \<Rightarrow> string option \<Rightarrow> 'b) \<Rightarrow> ('b \<Rightarrow> u64 \<Rightarrow> string option \<times> u64 \<times> u64)
    \<Rightarrow> 'b \<Rightarrow> u64 \<Rightarrow> ring_event list \<Rightarrow> 'b \<times> u64 \<times> string list \<times> nat" where
  "ring_run push rd b c [] = (b, c, [], 0)"
| "ring_run push rd b c (Push_Event x # es) = ring_run push rd (push b (Some x)) c es"
| "ring_run push rd b c (Read_Event # es) =
     (let (m, c', d) = rd b c;
          (b'', c'', ms, k) = ring_run push rd b c' es
      in (b'', c'', (case m of None \<Rightarrow> ms | Some x \<Rightarrow> x # ms), unat d + k))"

section \<open>The contract\<close>

locale broadcast_ring =
  fixes rep :: "'b \<Rightarrow> string list \<Rightarrow> bool"
    and cap :: "'b \<Rightarrow> nat"
    and push :: "'b \<Rightarrow> string option \<Rightarrow> 'b"
    and read_next :: "'b \<Rightarrow> u64 \<Rightarrow> string option \<times> u64 \<times> u64"
    and head_seq :: "'b \<Rightarrow> u64"
  assumes cap_pos: "rep b log \<Longrightarrow> 0 < cap b"
    and cap_push: "rep b log \<Longrightarrow> cap (push b (Some x)) = cap b"
    and rep_push: "rep b log \<Longrightarrow> Suc (length log) < 2 ^ 64 \<Longrightarrow> rep (push b (Some x)) (log @ [x])"
    and rep_head: "rep b log \<Longrightarrow> unat (head_seq b) = length log"
    and read_empty: "rep b log \<Longrightarrow> length log \<le> unat c \<Longrightarrow> read_next b c = (None, c, 0)"
    and read_some: "rep b log \<Longrightarrow> unat c < length log \<Longrightarrow> i = max (unat c) (length log - cap b) \<Longrightarrow>
      read_next b c = (Some (log ! i), of_nat (Suc i), of_nat (i - unat c))"
begin

lemma length_log_bound: "rep b log \<Longrightarrow> length log < 2 ^ 64"
  using rep_head [of b log] unat_u64_less [of "head_seq b"] by simp

lemma unat_of_nat_log: "rep b log \<Longrightarrow> n \<le> length log \<Longrightarrow> unat (of_nat n :: u64) = n"
  using length_log_bound [of b log] by (simp add: unat_of_nat_u64)

text \<open>
  The main fact on a reader: every sequence number it passes is either delivered, in order
  and once, or counted in the drop total.
\<close>

lemma run_delivers:
  assumes "rep b log" and "unat c \<le> length log"
    and "length log + length (pushed_by es) < 2 ^ 64"
    and "ring_run push read_next b c es = (b', c', ms, k)"
  shows "rep b' (log @ pushed_by es) \<and> unat c \<le> unat c' \<and> unat c' \<le> length (log @ pushed_by es)
    \<and> (\<exists>ps. sorted_wrt (<) ps \<and> (\<forall>p \<in> set ps. unat c \<le> p \<and> p < unat c')
        \<and> ms = map (\<lambda>p. (log @ pushed_by es) ! p) ps \<and> length ps + k = unat c' - unat c)"
  using assms
proof (induction es arbitrary: b log c ms k rule: pushed_by.induct)
  case 1
  then show ?case by (auto intro: exI [of _ "[]"])
next
  case (2 x es)
  have r: "rep (push b (Some x)) (log @ [x])" using 2 by (intro rep_push) auto
  from 2 have run: "ring_run push read_next (push b (Some x)) c es = (b', c', ms, k)" by simp
  have "unat c \<le> length (log @ [x])" and "length (log @ [x]) + length (pushed_by es) < 2 ^ 64"
    using 2 by simp_all
  from "2.IH" [OF r this run] show ?case by simp
next
  case (3 es)
  obtain m c1 d ms1 k1 where rd: "read_next b c = (m, c1, d)"
    and run: "ring_run push read_next b c1 es = (b', c', ms1, k1)"
    and ms: "ms = (case m of None \<Rightarrow> ms1 | Some x \<Rightarrow> x # ms1)" and k: "k = unat d + k1"
    using "3.prems"(4) by (auto split: prod.splits)
  have bound: "length log + length (pushed_by es) < 2 ^ 64" using "3.prems"(3) by simp
  show ?case
  proof (cases "unat c = length log")
    case True
    then have "m = None \<and> c1 = c \<and> d = 0"
      using read_empty [OF "3.prems"(1), of c] rd by simp
    with ms k "3.IH" [OF "3.prems"(1) "3.prems"(2) bound] run show ?thesis by simp
  next
    case False
    define i where "i = max (unat c) (length log - cap b)"
    have ci: "unat c < length log" using False "3.prems"(2) by simp
    have il: "i < length log"
      using ci cap_pos [OF "3.prems"(1)] by (auto simp: i_def)
    from read_some [OF "3.prems"(1) ci i_def] rd
    have m: "m = Some (log ! i)" and c1: "c1 = of_nat (Suc i)" and d: "d = of_nat (i - unat c)"
      by simp_all
    have uc1: "unat c1 = Suc i" and ud: "unat d = i - unat c"
      unfolding c1 d using il unat_of_nat_log [OF "3.prems"(1), of "Suc i"]
        unat_of_nat_log [OF "3.prems"(1), of "i - unat c"] by (simp_all del: of_nat_Suc)
    have "unat c1 \<le> length log" using il uc1 by simp
    from "3.IH" [OF "3.prems"(1) this bound run] obtain ps where IH:
      "rep b' (log @ pushed_by es)" "Suc i \<le> unat c'" "unat c' \<le> length (log @ pushed_by es)"
      "sorted_wrt (<) ps" "\<forall>p \<in> set ps. Suc i \<le> p \<and> p < unat c'"
      "ms1 = map (\<lambda>p. (log @ pushed_by es) ! p) ps" "length ps + k1 = unat c' - Suc i"
      using uc1 by auto
    have ic: "unat c \<le> i" by (simp add: i_def)
    have "sorted_wrt (<) (i # ps)" using IH(4,5) by auto
    moreover have "\<forall>p \<in> set (i # ps). unat c \<le> p \<and> p < unat c'"
      using IH(2,5) ic by auto
    moreover have "ms = map (\<lambda>p. (log @ pushed_by es) ! p) (i # ps)"
      using IH(6) ms m il by (simp add: nth_append)
    moreover have "length (i # ps) + k = unat c' - unat c"
      using IH(2,7) k ud ic by simp
    ultimately show ?thesis using IH(1,2,3) ic by (intro conjI exI [of _ "i # ps"]) auto
  qed
qed

lemma run_cap:
  assumes "rep b log" and "length log + length (pushed_by es) < 2 ^ 64"
    and "ring_run push read_next b c es = (b', c', ms, k)"
  shows "cap b' = cap b"
  using assms
proof (induction es arbitrary: b log c ms k rule: pushed_by.induct)
  case 1
  then show ?case by simp
next
  case (2 x es)
  have "rep (push b (Some x)) (log @ [x])" using 2 by (intro rep_push) auto
  from "2.IH" [OF this] "2.prems" cap_push [OF "2.prems"(1)] show ?case by simp
next
  case (3 es)
  then show ?case by (auto split: prod.splits)
qed

text \<open>
  A reader that never lags by more than the capacity loses nothing: what it received and
  what it has yet to read is exactly what was pushed from its cursor on.
\<close>

lemma run_lossless:
  assumes "rep b log" and "unat c \<le> length log"
    and "length log + length (pushed_by es) < 2 ^ 64"
    and "length log + length (pushed_by es) - unat c \<le> cap b"
    and "ring_run push read_next b c es = (b', c', ms, k)"
  shows "k = 0 \<and> ms @ drop (unat c') (log @ pushed_by es) = drop (unat c) (log @ pushed_by es)"
  using assms
proof (induction es arbitrary: b log c ms k rule: pushed_by.induct)
  case 1
  then show ?case by simp
next
  case (2 x es)
  have r: "rep (push b (Some x)) (log @ [x])" using 2 by (intro rep_push) auto
  from 2 have run: "ring_run push read_next (push b (Some x)) c es = (b', c', ms, k)" by simp
  have le: "unat c \<le> length (log @ [x])" "length (log @ [x]) + length (pushed_by es) < 2 ^ 64"
    using 2 by simp_all
  have cp: "length (log @ [x]) + length (pushed_by es) - unat c \<le> cap (push b (Some x))"
    using "2.prems"(4) cap_push [OF "2.prems"(1)] by simp
  from "2.IH" [OF r le cp run] show ?case by simp
next
  case (3 es)
  obtain m c1 d ms1 k1 where rd: "read_next b c = (m, c1, d)"
    and run: "ring_run push read_next b c1 es = (b', c', ms1, k1)"
    and ms: "ms = (case m of None \<Rightarrow> ms1 | Some x \<Rightarrow> x # ms1)" and k: "k = unat d + k1"
    using "3.prems"(5) by (auto split: prod.splits)
  have bound: "length log + length (pushed_by es) < 2 ^ 64"
    and capb: "length log + length (pushed_by es) - unat c \<le> cap b" using "3.prems" by simp_all
  show ?case
  proof (cases "unat c = length log")
    case True
    then have "m = None \<and> c1 = c \<and> d = 0"
      using read_empty [OF "3.prems"(1), of c] rd by simp
    with ms k "3.IH" [OF "3.prems"(1) "3.prems"(2) bound capb] run show ?thesis by simp
  next
    case False
    have ci: "unat c < length log" using False "3.prems"(2) by simp
    have i: "unat c = max (unat c) (length log - cap b)" using capb by simp
    from read_some [OF "3.prems"(1) ci i] rd
    have m: "m = Some (log ! unat c)" and c1: "c1 = of_nat (Suc (unat c))" and d: "d = 0"
      by simp_all
    have uc1: "unat c1 = Suc (unat c)"
      unfolding c1 using ci unat_of_nat_log [OF "3.prems"(1), of "Suc (unat c)"]
      by (simp del: of_nat_Suc)
    have "unat c1 \<le> length log" "length log + length (pushed_by es) - unat c1 \<le> cap b"
      using ci uc1 capb by simp_all
    from "3.IH" [OF "3.prems"(1) this(1) bound this(2) run]
    have IH: "k1 = 0" "ms1 @ drop (unat c') (log @ pushed_by es)
        = drop (Suc (unat c)) (log @ pushed_by es)" using uc1 by simp_all
    have "drop (unat c) (log @ pushed_by es)
        = log ! unat c # drop (Suc (unat c)) (log @ pushed_by es)"
      using ci by (simp add: Cons_nth_drop_Suc [symmetric] nth_append del: drop_append)
    with IH ms m k d show ?thesis by simp
  qed
qed

end

section \<open>Ownership of the buffered strings\<close>

text \<open>
  \<open>push\<close> takes ownership of the string and frees the one it overwrites (second component),
  \<open>destroy\<close> frees what is left. \<open>push_all\<close> collects what a sequence of pushes frees.
\<close>

fun push_all :: "('b \<Rightarrow> string option \<Rightarrow> 'b \<times> string option) \<Rightarrow> 'b \<Rightarrow> string list \<Rightarrow> 'b \<times> string list" where
  "push_all pushf b [] = (b, [])"
| "push_all pushf b (x # xs) =
     (let (b1, f) = pushf b (Some x); (b2, fs) = push_all pushf b1 xs
      in (b2, (case f of None \<Rightarrow> fs | Some y \<Rightarrow> y # fs)))"

definition freed_one :: "string option \<Rightarrow> string multiset" where
  "freed_one f = (case f of None \<Rightarrow> {#} | Some y \<Rightarrow> {#y#})"

definition slot_contents :: "string option list \<Rightarrow> string multiset" where
  "slot_contents sl = mset (List.map_filter id sl)"

lemma slot_contents_update:
  assumes "i < length sl"
  shows "slot_contents (sl[i := Some x]) + freed_one (sl ! i) = add_mset x (slot_contents sl)"
  using assms
proof (induction sl arbitrary: i)
  case Nil
  then show ?case by simp
next
  case (Cons y sl)
  then show ?case
    by (cases i; cases y)
      (auto simp: slot_contents_def freed_one_def map_filter_simps split: option.splits)
qed

lemma slot_contents_replicate [simp]: "slot_contents (replicate n None) = {#}"
  by (induction n) (simp_all add: slot_contents_def map_filter_simps)

locale owning_ring =
  fixes live :: "'b \<Rightarrow> bool"
    and contents :: "'b \<Rightarrow> string multiset"
    and pushf :: "'b \<Rightarrow> string option \<Rightarrow> 'b \<times> string option"
    and destroy :: "'b \<Rightarrow> string list"
  assumes live_push: "live b \<Longrightarrow> live (fst (pushf b (Some x)))"
    and contents_push: "live b \<Longrightarrow>
      contents (fst (pushf b (Some x))) + freed_one (snd (pushf b (Some x))) = add_mset x (contents b)"
    and contents_destroy: "live b \<Longrightarrow> mset (destroy b) = contents b"
begin

lemma push_all_owned:
  "live b \<Longrightarrow> push_all pushf b xs = (b', fs) \<Longrightarrow> live b' \<and> contents b' + mset fs = contents b + mset xs"
proof (induction xs arbitrary: b fs)
  case Nil
  then show ?case by simp
next
  case (Cons x xs)
  obtain b1 f where p: "pushf b (Some x) = (b1, f)" by fastforce
  obtain fs1 where r: "push_all pushf b1 xs = (b', fs1)"
    and fs: "fs = (case f of None \<Rightarrow> fs1 | Some y \<Rightarrow> y # fs1)"
    using Cons.prems(2) p by (auto split: prod.splits)
  have l1: "live b1" using live_push [OF Cons.prems(1), of x] p by simp
  have c1: "contents b1 + freed_one f = add_mset x (contents b)"
    using contents_push [OF Cons.prems(1), of x] p by simp
  have m: "mset fs = freed_one f + mset fs1" using fs by (simp add: freed_one_def split: option.splits)
  from Cons.IH [OF l1 r] have "live b'" and IH: "contents b' + mset fs1 = contents b1 + mset xs"
    by simp_all
  have "contents b' + mset fs = (contents b' + mset fs1) + freed_one f" using m by simp
  also have "\<dots> = (contents b1 + freed_one f) + mset xs" using IH by simp
  also have "\<dots> = contents b + mset (x # xs)" using c1 by simp
  finally show ?case using \<open>live b'\<close> by simp
qed

lemma no_leak_no_double_free:
  assumes "live b" and "push_all pushf b xs = (b', fs)"
  shows "mset (fs @ destroy b') = contents b + mset xs"
  using push_all_owned [OF assms] contents_destroy by (simp add: union_commute)

end

end
