(* ===== verification/Scan_Ring_Buffer.thy ===== *)
theory Scan_Ring_Buffer
  imports Ring_Spec
begin

text \<open>
  \<open>features/scan_dispatcher/data/scan_dispatcher_ring_buffer.c\<close>: the ring of the scan-result
  stream. The source keeps a copy of its own of the IPC ring's code; the model keeps a copy
  of its own of the definitions and proves both interfaces for it.
\<close>

record scan_ring =
  scan_slots :: "string option list"
  scan_capacity :: int
  scan_head :: u64

text \<open>The three allocations (ring, slot array, semaphore) are the Boolean arguments.\<close>

definition ScanDispatcherRingBuffer_create :: "bool \<Rightarrow> bool \<Rightarrow> bool \<Rightarrow> int \<Rightarrow> scan_ring option" where
  "ScanDispatcherRingBuffer_create okRing okSlots okLock capacity =
     (if capacity \<le> 0 then None
      else if \<not> okRing then None
      else if \<not> okSlots then None
      else if \<not> okLock then None
      else Some \<lparr>scan_slots = replicate (nat capacity) None, scan_capacity = capacity, scan_head = 0\<rparr>)"

text \<open>The strings \<open>destroy\<close> frees.\<close>

definition ScanDispatcherRingBuffer_destroy :: "scan_ring option \<Rightarrow> string list" where
  "ScanDispatcherRingBuffer_destroy buffer =
     (case buffer of None \<Rightarrow> [] | Some b \<Rightarrow> List.map_filter id (scan_slots b))"

text \<open>The second component is the string \<open>push\<close> frees.\<close>

definition ScanDispatcherRingBuffer_push ::
    "scan_ring option \<Rightarrow> string option \<Rightarrow> scan_ring option \<times> string option" where
  "ScanDispatcherRingBuffer_push buffer json =
     (case buffer of
        None \<Rightarrow> (None, json)
      | Some b \<Rightarrow>
          let slot = ring_slot (scan_head b) (scan_capacity b)
          in (Some (b\<lparr>scan_slots := (scan_slots b)[slot := json], scan_head := scan_head b + 1\<rparr>),
              scan_slots b ! slot))"

text \<open>
  \<open>okCopy\<close> is the allocation of the returned copy. The result is the message, the advanced
  cursor and the number of messages skipped.
\<close>

definition ScanDispatcherRingBuffer_readNext ::
    "bool \<Rightarrow> scan_ring option \<Rightarrow> u64 \<Rightarrow> string option \<times> u64 \<times> u64" where
  "ScanDispatcherRingBuffer_readNext okCopy buffer cursor =
     (case buffer of
        None \<Rightarrow> (None, cursor, 0)
      | Some b \<Rightarrow>
          if cursor \<ge> scan_head b then (None, cursor, 0)
          else
            let oldestAvailable = oldest_available (scan_head b) (scan_capacity b);
                dropped = (if cursor < oldestAvailable then oldestAvailable - cursor else 0);
                cursor1 = (if cursor < oldestAvailable then oldestAvailable else cursor);
                slotValue = scan_slots b ! ring_slot cursor1 (scan_capacity b)
            in ((if okCopy then slotValue else None), cursor1 + 1, dropped))"

definition ScanDispatcherRingBuffer_headSeq :: "scan_ring option \<Rightarrow> u64" where
  "ScanDispatcherRingBuffer_headSeq buffer = (case buffer of None \<Rightarrow> 0 | Some b \<Rightarrow> scan_head b)"

declare ScanDispatcherRingBuffer_create_def [ring_simps]
  and ScanDispatcherRingBuffer_destroy_def [ring_simps]
  and ScanDispatcherRingBuffer_push_def [ring_simps]
  and ScanDispatcherRingBuffer_readNext_def [ring_simps]
  and ScanDispatcherRingBuffer_headSeq_def [ring_simps]

section \<open>Invariant and abstraction\<close>

definition scan_ring_ok :: "scan_ring \<Rightarrow> bool" where
  "scan_ring_ok b \<longleftrightarrow> c_int_pos (scan_capacity b) \<and> length (scan_slots b) = nat (scan_capacity b)"

definition scan_ring_live :: "scan_ring option \<Rightarrow> bool" where
  "scan_ring_live buffer \<longleftrightarrow> (\<exists>b. buffer = Some b \<and> scan_ring_ok b)"

definition scan_ring_cap :: "scan_ring option \<Rightarrow> nat" where
  "scan_ring_cap buffer = (case buffer of None \<Rightarrow> 0 | Some b \<Rightarrow> nat (scan_capacity b))"

definition scan_ring_contents :: "scan_ring option \<Rightarrow> string multiset" where
  "scan_ring_contents buffer = (case buffer of None \<Rightarrow> {#} | Some b \<Rightarrow> slot_contents (scan_slots b))"

text \<open>\<open>scan_ring_rep buffer log\<close>: the ring holds the last \<open>capacity\<close> messages of \<open>log\<close>.\<close>

definition scan_ring_rep :: "scan_ring option \<Rightarrow> string list \<Rightarrow> bool" where
  "scan_ring_rep buffer log \<longleftrightarrow> (\<exists>b. buffer = Some b \<and> scan_ring_ok b
     \<and> unat (scan_head b) = length log
     \<and> (\<forall>i < length log. length log - nat (scan_capacity b) \<le> i \<longrightarrow>
          scan_slots b ! (i mod nat (scan_capacity b)) = Some (log ! i)))"

lemma scan_slot_bound: "scan_ring_ok b \<Longrightarrow> ring_slot sq (scan_capacity b) < length (scan_slots b)"
  by (simp add: scan_ring_ok_def ring_slot_eq c_int_pos_def)

lemma scan_push_rep:
  assumes "scan_ring_rep buffer log" and "Suc (length log) < 2 ^ 64"
  shows "scan_ring_rep (fst (ScanDispatcherRingBuffer_push buffer (Some x))) (log @ [x])"
proof -
  obtain b where b: "buffer = Some b" "scan_ring_ok b" "unat (scan_head b) = length log"
    and sl: "\<And>i. i < length log \<Longrightarrow> length log - nat (scan_capacity b) \<le> i \<Longrightarrow>
      scan_slots b ! (i mod nat (scan_capacity b)) = Some (log ! i)"
    using assms(1) by (auto simp: scan_ring_rep_def)
  let ?n = "length log" and ?c = "nat (scan_capacity b)"
  have cap: "c_int_pos (scan_capacity b)" "length (scan_slots b) = ?c" "0 < ?c"
    using b(2) by (auto simp: scan_ring_ok_def c_int_pos_def)
  have slot: "ring_slot (scan_head b) (scan_capacity b) = ?n mod ?c"
    using ring_slot_eq [OF cap(1)] b(3) by simp
  have hd: "unat (scan_head b + 1) = Suc ?n"
    using b(3) assms(2) by (simp add: unat_word_ariths)
  have "(scan_slots b)[?n mod ?c := Some x] ! (i mod ?c) = Some ((log @ [x]) ! i)"
    if i: "i < Suc ?n" "Suc ?n - ?c \<le> i" for i
  proof (cases "i = ?n")
    case True
    then show ?thesis using cap by simp
  next
    case False
    with i have il: "i < ?n" "?n - ?c \<le> i" "?n < i + ?c" by auto
    then have "i mod ?c \<noteq> ?n mod ?c" using ring_window_inj by blast
    then show ?thesis using sl [OF il(1,2)] il(1) by (simp add: nth_append)
  qed
  then show ?thesis
    using b hd cap by (auto simp: ring_simps scan_ring_rep_def scan_ring_ok_def slot Let_def)
qed

lemma scan_read_some:
  assumes "scan_ring_rep buffer log" and "unat c < length log"
    and i: "i = max (unat c) (length log - scan_ring_cap buffer)"
  shows "ScanDispatcherRingBuffer_readNext True buffer c
    = (Some (log ! i), of_nat (Suc i), of_nat (i - unat c))"
proof -
  obtain b where b: "buffer = Some b" "scan_ring_ok b" "unat (scan_head b) = length log"
    and sl: "\<And>i. i < length log \<Longrightarrow> length log - nat (scan_capacity b) \<le> i \<Longrightarrow>
      scan_slots b ! (i mod nat (scan_capacity b)) = Some (log ! i)"
    using assms(1) by (auto simp: scan_ring_rep_def)
  have cap: "c_int_pos (scan_capacity b)" using b(2) by (simp add: scan_ring_ok_def)
  define old where "old = oldest_available (scan_head b) (scan_capacity b)"
  define c1 where "c1 = (if c < old then old else c)"
  have uold: "unat old = length log - nat (scan_capacity b)"
    unfolding old_def using unat_oldest_available [OF cap] b(3) by simp
  have c1i: "unat c1 = i"
    unfolding c1_def i using uold b(1) by (auto simp: word_less_nat_alt scan_ring_cap_def max_def)
  have il: "i < length log" using assms(2) cap by (auto simp: i b(1) scan_ring_cap_def c_int_pos_def)
  have val: "scan_slots b ! ring_slot c1 (scan_capacity b) = Some (log ! i)"
    using sl [OF il] ring_slot_eq [OF cap] c1i by (simp add: i b(1) scan_ring_cap_def)
  have dr: "(if c < old then old - c else 0) = of_nat (i - unat c)"
  proof (cases "c < old")
    case True
    then have "c1 = old" by (simp add: c1_def)
    with c1i have io: "unat old = i" by simp
    have "i - unat c < 2 ^ 64"
      unfolding io [symmetric] by (rule le_less_trans [OF diff_le_self unat_u64_less])
    with True io show ?thesis
      by (simp add: word_unat_eq_iff unat_sub less_imp_le unat_of_nat_u64)
  next
    case False
    then have "i - unat c = 0" using c1i by (simp add: c1_def)
    with False show ?thesis by simp
  qed
  have "\<not> scan_head b \<le> c" using assms(2) b(3) by (simp add: word_le_nat_alt)
  then have "ScanDispatcherRingBuffer_readNext True buffer c
      = (scan_slots b ! ring_slot c1 (scan_capacity b), c1 + 1, if c < old then old - c else 0)"
    unfolding c1_def old_def using b(1) by (simp add: ring_simps Let_def)
  moreover have "c1 + 1 = of_nat (Suc i)" using c1i by auto
  ultimately show ?thesis by (simp only: val dr)
qed

interpretation scnr: broadcast_ring scan_ring_rep scan_ring_cap
  "\<lambda>b x. fst (ScanDispatcherRingBuffer_push b x)" "ScanDispatcherRingBuffer_readNext True"
  ScanDispatcherRingBuffer_headSeq
proof unfold_locales
  fix b log x c i
  assume r: "scan_ring_rep b log"
  show "0 < scan_ring_cap b"
    using r by (auto simp: scan_ring_rep_def scan_ring_cap_def scan_ring_ok_def c_int_pos_def)
  show "scan_ring_cap (fst (ScanDispatcherRingBuffer_push b (Some x))) = scan_ring_cap b"
    by (simp add: ring_simps scan_ring_cap_def Let_def split: option.splits)
  show "scan_ring_rep (fst (ScanDispatcherRingBuffer_push b (Some x))) (log @ [x])"
    if "Suc (length log) < 2 ^ 64" using r that by (rule scan_push_rep)
  show "unat (ScanDispatcherRingBuffer_headSeq b) = length log"
    using r by (auto simp: scan_ring_rep_def ring_simps)
  show "ScanDispatcherRingBuffer_readNext True b c = (None, c, 0)" if "length log \<le> unat c"
    using r that by (auto simp: scan_ring_rep_def ring_simps word_le_nat_alt)
  show "ScanDispatcherRingBuffer_readNext True b c = (Some (log ! i), of_nat (Suc i), of_nat (i - unat c))"
    if "unat c < length log" "i = max (unat c) (length log - scan_ring_cap b)"
    using r that by (rule scan_read_some)
qed

interpretation scno: owning_ring scan_ring_live scan_ring_contents ScanDispatcherRingBuffer_push
  ScanDispatcherRingBuffer_destroy
proof unfold_locales
  fix b x
  assume "scan_ring_live b"
  then obtain r where r: "b = Some r" "scan_ring_ok r" by (auto simp: scan_ring_live_def)
  show "scan_ring_live (fst (ScanDispatcherRingBuffer_push b (Some x)))"
    using r by (simp add: ring_simps scan_ring_live_def scan_ring_ok_def Let_def)
  show "scan_ring_contents (fst (ScanDispatcherRingBuffer_push b (Some x)))
      + freed_one (snd (ScanDispatcherRingBuffer_push b (Some x))) = add_mset x (scan_ring_contents b)"
    using r slot_contents_update [OF scan_slot_bound [OF r(2)]]
    by (simp add: ring_simps scan_ring_contents_def Let_def)
  show "mset (ScanDispatcherRingBuffer_destroy b) = scan_ring_contents b"
    using r by (simp add: ring_simps scan_ring_contents_def slot_contents_def)
qed

lemma scan_create_rep:
  "c_int_pos n \<Longrightarrow> scan_ring_rep (ScanDispatcherRingBuffer_create True True True n) []"
  by (simp add: ring_simps scan_ring_rep_def scan_ring_ok_def c_int_pos_def)

lemma scan_create_live:
  "ScanDispatcherRingBuffer_create o1 o2 o3 n = Some b \<Longrightarrow> n < 2 ^ 31 \<Longrightarrow>
     scan_ring_live (Some b) \<and> scan_ring_contents (Some b) = {#}"
  by (auto simp: ring_simps scan_ring_live_def scan_ring_ok_def c_int_pos_def scan_ring_contents_def
      split: if_splits)

section \<open>No scan result is lost within the capacity\<close>

abbreviation scan_run ::
    "scan_ring option \<Rightarrow> u64 \<Rightarrow> ring_event list \<Rightarrow> scan_ring option \<times> u64 \<times> string list \<times> nat" where
  "scan_run \<equiv> ring_run (\<lambda>b x. fst (ScanDispatcherRingBuffer_push b x))
     (ScanDispatcherRingBuffer_readNext True)"

text \<open>A scan client that falls behind by at most the ring's capacity over a run loses
  nothing: no drop is reported, and what it received followed by what is still buffered for
  it is exactly the sequence of results pushed since it connected.\<close>

theorem scan_ring_lossless:
  assumes "c_int_pos n"
    and "length (pushed_by es1) + length (pushed_by es2) < 2 ^ 64"
    and "length (pushed_by es2) \<le> nat n"
    and "scan_run (ScanDispatcherRingBuffer_create True True True n) 0 es1 = (b1, c1, ms1, k1)"
    and "scan_run b1 (ScanDispatcherRingBuffer_headSeq b1) es2 = (b2, c2, ms2, k2)"
  shows "k2 = 0 \<and> ms2 @ drop (unat c2) (pushed_by es1 @ pushed_by es2) = pushed_by es2"
proof -
  have r1: "scan_ring_rep b1 (pushed_by es1)" and cap: "scan_ring_cap b1 = nat n"
    using scnr.run_delivers [OF scan_create_rep [OF assms(1)] _ _ assms(4)]
      scnr.run_cap [OF scan_create_rep [OF assms(1)] _ assms(4)] assms(1,2)
    by (simp_all add: ring_simps scan_ring_cap_def c_int_pos_def)
  have h: "unat (ScanDispatcherRingBuffer_headSeq b1) = length (pushed_by es1)"
    using r1 by (rule scnr.rep_head)
  show ?thesis
    using scnr.run_lossless [OF r1 _ assms(2) _ assms(5)] h cap assms(3) by simp
qed

theorem scan_ring_lossless_witness:
  "[''b'', ''c''] @ drop 3 [''a'', ''b'', ''c''] = [''b'', ''c'']"
proof -
  let ?b0 = "ScanDispatcherRingBuffer_create True True True 2"
  let ?es1 = "[Push_Event ''a'']"
  let ?es2 = "[Push_Event ''b'', Push_Event ''c'', Read_Event, Read_Event]"
  let ?b1 = "Some \<lparr>scan_slots = [Some ''a'', None], scan_capacity = 2, scan_head = 1\<rparr>"
  let ?b2 = "Some \<lparr>scan_slots = [Some ''c'', Some ''b''], scan_capacity = 2, scan_head = 3\<rparr>"
  have r1: "scan_run ?b0 0 ?es1 = (?b1, 0, [], 0)"
    by (simp add: ring_simps Let_def ring_slot_def numeral_2_eq_2)
  have r2: "scan_run ?b1 (ScanDispatcherRingBuffer_headSeq ?b1) ?es2 = (?b2, 3, [''b'', ''c''], 0)"
    by (simp add: ring_simps Let_def ring_slot_def oldest_available_def word_le_nat_alt)
  from scan_ring_lossless [OF _ _ _ r1 r2] show ?thesis by (simp add: c_int_pos_def)
qed

end
