(* ===== verification/Json.thy ===== *)
theory Json
  imports Prelude
begin

text \<open>
  The JSON texts the dispatchers write, shared by their JSON writers.
\<close>

text \<open>
  The tree a writer builds with cJSON. A number keeps the C value it was converted from:
  the conversion to \<open>double\<close> and the printing are the argument \<open>prn\<close>. The allocations of
  cJSON are taken to succeed but for those of the root and of the printed text.
\<close>

datatype json =
    JNull
  | JBool bool
  | JInt64 u64
  | JUint64 u64
  | JDouble u64
  | JString string
  | JArray "json list"
  | JObject "(string \<times> json) list"

definition jstr :: "string option \<Rightarrow> json" where
  "jstr s = (case s of None \<Rightarrow> JNull | Some t \<Rightarrow> JString t)"

end
