(* ===== verification/Websocket.thy ===== *)
theory Websocket
  imports Prelude
begin

text \<open>
  What the websocket servers of the three dispatchers share: the reasons libwebsockets calls them
  for and what a call asks of it. The library is the environment: it decides which callback comes
  when, except that a connection has a writable turn only after one was asked for.
\<close>

text \<open>A reception carries a fragment and whether it is the last of its message.\<close>

datatype lws_reason =
    LWS_CALLBACK_ESTABLISHED
  | LWS_CALLBACK_CLOSED
  | LWS_CALLBACK_RECEIVE string bool
  | LWS_CALLBACK_EVENT_WAIT_CANCELLED
  | LWS_CALLBACK_SERVER_WRITEABLE

record ws_effect =
  we_reject :: bool \<comment> \<open>the connection is refused\<close>
  we_written :: "string option" \<comment> \<open>the text written to the connection\<close>
  we_again :: bool \<comment> \<open>another writable turn for this connection\<close>
  we_all :: bool \<comment> \<open>a writable turn for every connection\<close>

definition no_effect :: ws_effect where
  "no_effect = \<lparr>we_reject = False, we_written = None, we_again = False, we_all = False\<rparr>"

end
