(* ===== verification/Scan_Dispatcher.thy ===== *)
theory Scan_Dispatcher
  imports Scan_Ring_Buffer Json Websocket
begin

text \<open>
  The \<open>scan_dispatcher\<close> feature: the "device found" events of the scans as JSON texts in a ring
  that the clients of one websocket read. \<open>domain/scan_dispatcher_usecases.c\<close>,
  \<open>data/scan_dispatcher_json_writer.c\<close>, \<open>data/scan_dispatcher_adapter.c\<close>,
  \<open>service/scan_dispatcher_api.c\<close> and the callback of \<open>data/scan_dispatcher_ws_server.c\<close>. What
  libwebsockets answers to the creation of its context and to the start of its thread is an
  argument, as is the cJSON printer.
\<close>

section \<open>Data\<close>

datatype ScanDispatcherError =
    SCAN_DISPATCHER_OK | SCAN_DISPATCHER_ERR_INVALID_ARGUMENT | SCAN_DISPATCHER_ERR_OUT_OF_MEMORY
  | SCAN_DISPATCHER_ERR_THREAD_CREATE_FAILED | SCAN_DISPATCHER_ERR_SOCKET_BIND_FAILED
  | SCAN_DISPATCHER_ERR_ALREADY_RUNNING

record ScanDispatcherConfig =
  sd_port :: u16
  sd_ringBufferCapacity :: int
  sd_maxConnections :: int

record ScanDeviceFoundEvent =
  sv_scanId :: u64
  sv_host :: string
  sv_mmsPort :: int
  sv_discoveredAtMs :: u64
  sv_authRequired :: bool

text \<open>The websocket server, once created: the number of connections it counts.\<close>

record scan_dispatcher =
  sp_config :: ScanDispatcherConfig
  sp_ringBuffer :: "scan_ring option"
  sp_wsServer :: "int option"
  sp_running :: bool

section \<open>Events\<close>

definition ScanDispatcherUseCases_assembleEvent ::
    "bool \<Rightarrow> u64 \<Rightarrow> string option \<Rightarrow> int \<Rightarrow> u64 \<Rightarrow> bool \<Rightarrow> ScanDeviceFoundEvent option" where
  "ScanDispatcherUseCases_assembleEvent okAlloc scanId host mmsPort discoveredAtMs authRequired =
     (case host of
        Some (c # cs) \<Rightarrow>
          if okAlloc then Some \<lparr>sv_scanId = scanId, sv_host = c # cs, sv_mmsPort = mmsPort,
            sv_discoveredAtMs = discoveredAtMs, sv_authRequired = authRequired\<rparr> else None
      | _ \<Rightarrow> None)"

definition scan_event_json :: "ScanDeviceFoundEvent \<Rightarrow> json" where
  "scan_event_json event = JObject
     [(''schemaVersion'', JUint64 1),
      (''type'', JString ''SCAN_RESULT''),
      (''scanId'', JUint64 (sv_scanId event)),
      (''host'', JString (sv_host event)),
      (''mmsPort'', JInt64 (word_of_int (sv_mmsPort event))),
      (''discoveredAtMs'', JUint64 (sv_discoveredAtMs event)),
      (''authRequired'', JBool (sv_authRequired event))]"

definition ScanDispatcherJsonWriter_write :: "bool \<Rightarrow> (json \<Rightarrow> string option) \<Rightarrow> ScanDeviceFoundEvent option \<Rightarrow> string option" where
  "ScanDispatcherJsonWriter_write okRoot prn event =
     (case event of None \<Rightarrow> None | Some e \<Rightarrow> if okRoot then prn (scan_event_json e) else None)"

text \<open>\<open>okEvent\<close> and \<open>okRoot\<close>: the event and the JSON root are allocated; \<open>now\<close> is \<open>Hal_getTimeInMs\<close>.\<close>

definition ScanDispatcherAdapter_publishDeviceFound ::
    "bool \<Rightarrow> bool \<Rightarrow> (json \<Rightarrow> string option) \<Rightarrow> u64 \<Rightarrow> scan_dispatcher option \<Rightarrow> u64 \<Rightarrow> string option \<Rightarrow> int \<Rightarrow> bool
      \<Rightarrow> scan_dispatcher option" where
  "ScanDispatcherAdapter_publishDeviceFound okEvent okRoot prn now handle scanId host mmsPort authRequired =
     (case handle of
        None \<Rightarrow> None
      | Some h \<Rightarrow>
          if \<not> sp_running h then handle
          else (case ScanDispatcherUseCases_assembleEvent okEvent scanId host mmsPort now authRequired of
             None \<Rightarrow> handle
           | Some event \<Rightarrow>
               (case ScanDispatcherJsonWriter_write okRoot prn (Some event) of
                  None \<Rightarrow> handle
                | Some txt \<Rightarrow>
                    Some (h\<lparr>sp_ringBuffer := fst (ScanDispatcherRingBuffer_push (sp_ringBuffer h) (Some txt))\<rparr>))))"

section \<open>The life cycle\<close>

definition ScanDispatcherConfig_defaults :: ScanDispatcherConfig where
  "ScanDispatcherConfig_defaults = \<lparr>sd_port = 8766, sd_ringBufferCapacity = 256, sd_maxConnections = 16\<rparr>"

definition ScanDispatcher_create ::
    "bool \<Rightarrow> bool \<times> bool \<times> bool \<Rightarrow> ScanDispatcherConfig option \<Rightarrow> ScanDispatcherError \<times> scan_dispatcher option" where
  "ScanDispatcher_create okHandle okRing config =
     (if \<not> okHandle then (SCAN_DISPATCHER_ERR_OUT_OF_MEMORY, None)
      else
        let cfg = (case config of Some c \<Rightarrow> c | None \<Rightarrow> ScanDispatcherConfig_defaults) in
        if sd_ringBufferCapacity cfg \<le> 0 \<or> sd_maxConnections cfg \<le> 0 then
          (SCAN_DISPATCHER_ERR_INVALID_ARGUMENT, None)
        else case ScanDispatcherRingBuffer_create (fst okRing) (fst (snd okRing)) (snd (snd okRing))
                    (sd_ringBufferCapacity cfg) of
          None \<Rightarrow> (SCAN_DISPATCHER_ERR_OUT_OF_MEMORY, None)
        | Some ring \<Rightarrow>
            (SCAN_DISPATCHER_OK, Some \<lparr>sp_config = cfg, sp_ringBuffer = Some ring, sp_wsServer = None, sp_running = False\<rparr>))"

text \<open>
  A server is the number of its connections. \<open>okBind\<close>: \<open>lws_create_context\<close> binds its port.
\<close>

definition ScanDispatcherWsServer_create ::
    "bool \<Rightarrow> bool \<Rightarrow> int \<Rightarrow> scan_ring option \<Rightarrow> ScanDispatcherError \<times> int option" where
  "ScanDispatcherWsServer_create okAlloc okBind maxConnections ringBuffer =
     (if ringBuffer = None \<or> maxConnections \<le> 0 then (SCAN_DISPATCHER_ERR_INVALID_ARGUMENT, None)
      else if \<not> okAlloc then (SCAN_DISPATCHER_ERR_OUT_OF_MEMORY, None)
      else if \<not> okBind then (SCAN_DISPATCHER_ERR_SOCKET_BIND_FAILED, None)
      else (SCAN_DISPATCHER_OK, Some 0))"

definition ScanDispatcherWsServer_start :: "bool \<Rightarrow> int option \<Rightarrow> ScanDispatcherError" where
  "ScanDispatcherWsServer_start okThread server =
     (if server = None then SCAN_DISPATCHER_ERR_INVALID_ARGUMENT
      else if \<not> okThread then SCAN_DISPATCHER_ERR_THREAD_CREATE_FAILED else SCAN_DISPATCHER_OK)"

text \<open>\<open>ws\<close>: the server is allocated, it binds, its thread is created.\<close>

definition ScanDispatcher_start ::
    "bool \<times> bool \<times> bool \<Rightarrow> scan_dispatcher option \<Rightarrow> ScanDispatcherError \<times> scan_dispatcher option" where
  "ScanDispatcher_start ws handle =
     (case handle of
        None \<Rightarrow> (SCAN_DISPATCHER_ERR_INVALID_ARGUMENT, None)
      | Some h \<Rightarrow>
          if sp_running h then (SCAN_DISPATCHER_ERR_ALREADY_RUNNING, handle)
          else (case ScanDispatcherWsServer_create (fst ws) (fst (snd ws)) (sd_maxConnections (sp_config h)) (sp_ringBuffer h) of
             (err, None) \<Rightarrow> (err, Some (h\<lparr>sp_wsServer := None\<rparr>))
           | (_, server) \<Rightarrow>
               let err = ScanDispatcherWsServer_start (snd (snd ws)) server
               in if err \<noteq> SCAN_DISPATCHER_OK then (err, Some (h\<lparr>sp_wsServer := None\<rparr>))
                  else (SCAN_DISPATCHER_OK, Some (h\<lparr>sp_wsServer := server, sp_running := True\<rparr>))))"

definition ScanDispatcher_stop :: "scan_dispatcher option \<Rightarrow> scan_dispatcher option" where
  "ScanDispatcher_stop handle = map_option (\<lambda>h. h\<lparr>sp_wsServer := None, sp_running := False\<rparr>) handle"

text \<open>The strings \<open>ScanDispatcher_destroy\<close> frees with the ring.\<close>

definition ScanDispatcher_destroy :: "scan_dispatcher option \<Rightarrow> string list" where
  "ScanDispatcher_destroy handle =
     (case handle of
        None \<Rightarrow> []
      | Some h \<Rightarrow> (case sp_ringBuffer h of None \<Rightarrow> [] | Some r \<Rightarrow> ScanDispatcherRingBuffer_destroy (Some r)))"

section \<open>The websocket callback\<close>

text \<open>A connection is its read cursor.\<close>

text \<open>\<open>okCopy\<close>: the copy of the message, \<open>okBuf\<close>: the send buffer.\<close>

definition scanDispatcherCallback ::
    "bool \<Rightarrow> bool \<Rightarrow> scan_dispatcher \<Rightarrow> lws_reason \<Rightarrow> u64 option \<Rightarrow> scan_dispatcher \<times> u64 option \<times> ws_effect" where
  "scanDispatcherCallback okCopy okBuf h reason session =
     (case reason of
        LWS_CALLBACK_ESTABLISHED \<Rightarrow>
          (case sp_wsServer h of
             None \<Rightarrow> (h, session, no_effect)
           | Some n \<Rightarrow>
               if n \<ge> sd_maxConnections (sp_config h) then (h, session, no_effect\<lparr>we_reject := True\<rparr>)
               else (h\<lparr>sp_wsServer := Some (n + 1)\<rparr>,
                     map_option (\<lambda>_. ScanDispatcherRingBuffer_headSeq (sp_ringBuffer h)) session, no_effect))
      | LWS_CALLBACK_CLOSED \<Rightarrow> (h\<lparr>sp_wsServer := map_option (\<lambda>n. n - 1) (sp_wsServer h)\<rparr>, session, no_effect)
      | LWS_CALLBACK_RECEIVE payload final \<Rightarrow> (h, session, no_effect)
      | LWS_CALLBACK_EVENT_WAIT_CANCELLED \<Rightarrow> (h, session, no_effect\<lparr>we_all := True\<rparr>)
      | LWS_CALLBACK_SERVER_WRITEABLE \<Rightarrow>
          (case session of
             None \<Rightarrow> (h, session, no_effect)
           | Some cursor \<Rightarrow>
               let (json, cursor', dropped) = ScanDispatcherRingBuffer_readNext okCopy (sp_ringBuffer h) cursor
               in (h, Some cursor', case json of
                     None \<Rightarrow> no_effect
                   | Some txt \<Rightarrow> no_effect\<lparr>we_written := (if okBuf then Some txt else None),
                       we_again := (ScanDispatcherRingBuffer_headSeq (sp_ringBuffer h) \<noteq> cursor')\<rparr>)))"

section \<open>Draining a connection\<close>

text \<open>
  After a wake every connection is given a writable turn, and another one as long as it asks for
  it. \<open>n\<close> bounds the turns.
\<close>

fun drain :: "nat \<Rightarrow> scan_dispatcher \<Rightarrow> u64 \<Rightarrow> u64 \<times> string list" where
  "drain 0 h cursor = (cursor, [])"
| "drain (Suc n) h cursor =
     (case scanDispatcherCallback True True h LWS_CALLBACK_SERVER_WRITEABLE (Some cursor) of
        (h', s', eff) \<Rightarrow>
          let out = (case we_written eff of None \<Rightarrow> [] | Some t \<Rightarrow> [t])
          in if we_again eff then (case drain n h' (the s') of (c, ms) \<Rightarrow> (c, out @ ms))
             else (the s', out))"

lemma writable_turn:
  assumes "scan_ring_rep (sp_ringBuffer h) log" and "unat c < length log"
    and i: "i = max (unat c) (length log - scan_ring_cap (sp_ringBuffer h))"
  shows "scanDispatcherCallback True True h LWS_CALLBACK_SERVER_WRITEABLE (Some c)
    = (h, Some (of_nat (Suc i)),
       no_effect\<lparr>we_written := Some (log ! i), we_again := (Suc i \<noteq> length log)\<rparr>)"
proof -
  have il: "i < length log" using assms(2) scnr.cap_pos [OF assms(1)] i by auto
  have "unat (of_nat (Suc i) :: u64) = Suc i"
    by (rule scnr.unat_of_nat_log [OF assms(1)]) (use il in simp)
  moreover have "unat (ScanDispatcherRingBuffer_headSeq (sp_ringBuffer h)) = length log"
    by (rule scnr.rep_head [OF assms(1)])
  ultimately have "(ScanDispatcherRingBuffer_headSeq (sp_ringBuffer h) \<noteq> of_nat (Suc i)) = (Suc i \<noteq> length log)"
    by (metis word_unat_eq_iff)
  then show ?thesis
    using scan_read_some [OF assms] by (simp add: scanDispatcherCallback_def del: of_nat_Suc)
qed

lemma drain_from:
  assumes "scan_ring_rep (sp_ringBuffer h) log" and "unat c < length log"
    and "length log - unat c \<le> n"
  shows "drain n h c = (of_nat (length log), drop (max (unat c) (length log - scan_ring_cap (sp_ringBuffer h))) log)"
  using assms
proof (induction n arbitrary: c)
  case (Suc n)
  define i where "i = max (unat c) (length log - scan_ring_cap (sp_ringBuffer h))"
  note turn = writable_turn [OF Suc.prems(1,2) i_def]
  have il: "i < length log" using Suc.prems(2) scnr.cap_pos [OF Suc.prems(1)] by (auto simp: i_def)
  show ?case
  proof (cases "Suc i = length log")
    case True
    then have "drop i log = [log ! i]" using il by (simp add: Cons_nth_drop_Suc [symmetric])
    with True turn show ?thesis by (simp add: i_def [symmetric] no_effect_def)
  next
    case False
    have u: "unat (of_nat (Suc i) :: u64) = Suc i"
      by (rule scnr.unat_of_nat_log [OF Suc.prems(1)]) (use il in simp)
    moreover have "unat c \<le> i" by (simp add: i_def)
    ultimately have "unat (of_nat (Suc i) :: u64) < length log" and "length log - unat (of_nat (Suc i) :: u64) \<le> n"
      using il False Suc.prems(3) by (simp_all del: of_nat_Suc)
    from Suc.IH [OF Suc.prems(1) this]
    have "drain n h (of_nat (Suc i)) = (of_nat (length log), drop (Suc i) log)"
      using u by (simp add: i_def max_def del: of_nat_Suc)
    then show ?thesis
      using turn False il
      by (simp add: i_def [symmetric] no_effect_def Cons_nth_drop_Suc [symmetric] del: of_nat_Suc)
  qed
qed simp

text \<open>One wake is enough: whatever a connection has not read yet and the ring still holds is
  written to it in the turns that follow, in order, and it ends at the head of the stream. The
  events of a scan reach a client without a second wake, however many hosts one sweep found.\<close>

theorem drain_complete:
  assumes "scan_ring_rep (sp_ringBuffer h) log" and "unat c < length log"
    and "length log - unat c \<le> n"
  shows "drain n h c = (ScanDispatcherRingBuffer_headSeq (sp_ringBuffer h),
    drop (max (unat c) (length log - scan_ring_cap (sp_ringBuffer h))) log)"
  proof -
  have "ScanDispatcherRingBuffer_headSeq (sp_ringBuffer h) = of_nat (length log)"
    by (simp add: scnr.rep_head [OF assms(1), symmetric])
  with drain_from [OF assms] show ?thesis by simp
qed

theorem drain_complete_witness:
  "drain 5 \<lparr>sp_config = ScanDispatcherConfig_defaults, sp_ringBuffer = Some
       \<lparr>scan_slots = [Some ''c'', Some ''b''], scan_capacity = 2, scan_head = 3\<rparr>, sp_wsServer = Some 1, sp_running = True\<rparr> 0
     = (3, [''b'', ''c''])"
proof -
  let ?r = "Some \<lparr>scan_slots = [Some ''c'', Some ''b''], scan_capacity = 2, scan_head = 3\<rparr>"
  let ?h = "\<lparr>sp_config = ScanDispatcherConfig_defaults, sp_ringBuffer = ?r, sp_wsServer = Some 1, sp_running = True\<rparr>"
  have "scan_ring_rep ?r [''a'', ''b'', ''c'']"
    by (auto simp: scan_ring_rep_def scan_ring_ok_def c_int_pos_def less_Suc_eq)
  then have "scan_ring_rep (sp_ringBuffer ?h) [''a'', ''b'', ''c'']" by simp
  from drain_complete [OF this, of 0 5]
  have "drain 5 ?h 0 = (ScanDispatcherRingBuffer_headSeq ?r, drop (length [''a'', ''b'', ''c''] - scan_ring_cap ?r) [''a'', ''b'', ''c''])"
    by (simp del: drain.simps)
  then show ?thesis by (simp add: ring_simps scan_ring_cap_def del: drain.simps)
qed

end
