(* ===== verification/Scan_Worker.thy ===== *)
theory Scan_Worker
  imports Ied_Discovery Scan_Dispatcher "HOL-Library.Sublist"
begin

text \<open>
  \<open>scan_orchestration/data/scan_orchestration_worker.c\<close> and the test for a new host of
  \<open>domain/scan_orchestration_usecases.c\<close>: the background thread of a scan, which sweeps the subnet
  again and again and announces every host once. The sweeps are what \<open>IedDiscovery_scanSubnet\<close>
  returned, in order. The flag \<open>stopRequested\<close> is set once, by another thread, at any moment: the
  model counts the reads that still see it clear, so every moment is a number.
\<close>

section \<open>Data\<close>

datatype ScanOrchestrationError =
    SCAN_ORCHESTRATION_OK | SCAN_ORCHESTRATION_ERR_INVALID_ARGUMENT | SCAN_ORCHESTRATION_ERR_OUT_OF_MEMORY
  | SCAN_ORCHESTRATION_ERR_DISPATCHER_START_FAILED | SCAN_ORCHESTRATION_ERR_THREAD_CREATE_FAILED
  | SCAN_ORCHESTRATION_ERR_DISCOVERY_CREATE_FAILED | SCAN_ORCHESTRATION_ERR_SCAN_NOT_FOUND

record ScanRequest =
  sq_interfaceId :: "string option"
  sq_mmsPort :: int
  sq_sweepIntervalMs :: u32
  sq_acseAuthPassword :: "string option"

record scan_worker =
  sw_scanId :: u64
  sw_interfaceId :: string
  sw_mmsPort :: int
  sw_sweepIntervalMs :: u32
  sw_discoveryHandle :: ied_discovery_handle
  sw_seenHosts :: "string list"
  sw_seenCapacity :: nat
  sw_reads :: nat \<comment> \<open>reads of \<open>stopRequested\<close> that still see it clear\<close>
  sw_announced :: "(u64 \<times> string option \<times> int \<times> bool) list" \<comment> \<open>published, in order\<close>

text \<open>\<open>okWorker\<close>, \<open>okName\<close>, \<open>okLock\<close>: the allocations; \<open>okDisc\<close>: those of the discovery handle.\<close>

definition ScanOrchestrationWorker_create ::
    "bool \<Rightarrow> bool \<Rightarrow> bool \<Rightarrow> bool \<times> bool \<Rightarrow> u64 \<Rightarrow> ScanRequest option \<Rightarrow> IedDiscoveryConfig option \<Rightarrow> u32
      \<Rightarrow> ScanOrchestrationError \<times> scan_worker option" where
  "ScanOrchestrationWorker_create okWorker okName okLock okDisc scanId request discoveryConfigTemplate defaultSweepIntervalMs =
     (case (request, discoveryConfigTemplate) of
        (Some r, Some cfg) \<Rightarrow>
          (case sq_interfaceId r of
             Some (c # cs) \<Rightarrow>
               if sq_mmsPort r \<le> 0 then (SCAN_ORCHESTRATION_ERR_INVALID_ARGUMENT, None)
               else if \<not> okWorker \<or> \<not> okName \<or> \<not> okLock then (SCAN_ORCHESTRATION_ERR_OUT_OF_MEMORY, None)
               else (case IedDiscovery_create (fst okDisc) (snd okDisc) (Some (cfg\<lparr>id_acseAuthPassword := sq_acseAuthPassword r\<rparr>)) of
                  (_, None) \<Rightarrow> (SCAN_ORCHESTRATION_ERR_DISCOVERY_CREATE_FAILED, None)
                | (_, Some d) \<Rightarrow>
                    (SCAN_ORCHESTRATION_OK, Some \<lparr>sw_scanId = scanId, sw_interfaceId = c # cs, sw_mmsPort = sq_mmsPort r,
                       sw_sweepIntervalMs = (if sq_sweepIntervalMs r > 0 then sq_sweepIntervalMs r else defaultSweepIntervalMs),
                       sw_discoveryHandle = d, sw_seenHosts = [], sw_seenCapacity = 0, sw_reads = 0, sw_announced = []\<rparr>))
           | _ \<Rightarrow> (SCAN_ORCHESTRATION_ERR_INVALID_ARGUMENT, None))
      | _ \<Rightarrow> (SCAN_ORCHESTRATION_ERR_INVALID_ARGUMENT, None))"

section \<open>The thread\<close>

definition SCAN_ORCHESTRATION_INITIAL_SWEEP_GRACE_MS :: u32 where
  "SCAN_ORCHESTRATION_INITIAL_SWEEP_GRACE_MS = 300"

definition stopRequested :: "scan_worker \<Rightarrow> bool" where
  "stopRequested w \<longleftrightarrow> sw_reads w = 0"

text \<open>A read that saw the flag clear.\<close>

definition seen_clear :: "scan_worker \<Rightarrow> scan_worker" where
  "seen_clear w = w\<lparr>sw_reads := sw_reads w - 1\<rparr>"

function scanInterruptibleSleep :: "u32 \<Rightarrow> u32 \<Rightarrow> scan_worker \<Rightarrow> scan_worker" where
  "scanInterruptibleSleep totalMs sleptMs w =
     (if \<not> sleptMs < totalMs \<or> stopRequested w then w
      else scanInterruptibleSleep totalMs (sleptMs + (if totalMs - sleptMs < 20 then totalMs - sleptMs else 20)) (seen_clear w))"
  by pat_completeness auto
termination
  by (relation "measure (\<lambda>(t, s, w). sw_reads w)") (auto simp: stopRequested_def seen_clear_def)

declare scanInterruptibleSleep.simps [simp del]

definition ScanOrchestrationUseCases_isHostNew :: "string list \<Rightarrow> string option \<Rightarrow> bool" where
  "ScanOrchestrationUseCases_isHostNew seenHosts host =
     (case host of None \<Rightarrow> True | Some h \<Rightarrow> h = [] \<or> h \<notin> set seenHosts)"

text \<open>
  The flags are the \<open>realloc\<close> and the \<open>strdup\<close>. Copying a name that is \<open>NULL\<close> is \<open>None\<close>: an
  invalid access.
\<close>

definition appendToSeenSet :: "bool \<Rightarrow> bool \<Rightarrow> scan_worker \<Rightarrow> string option \<Rightarrow> scan_worker option" where
  "appendToSeenSet okGrow okCopy w host =
     (if length (sw_seenHosts w) \<ge> sw_seenCapacity w \<and> \<not> okGrow then Some w
      else
        let w1 = (if length (sw_seenHosts w) \<ge> sw_seenCapacity w
                  then w\<lparr>sw_seenCapacity := (if sw_seenCapacity w > 0 then sw_seenCapacity w * 2 else 16)\<rparr> else w)
        in case host of
             None \<Rightarrow> None
           | Some h \<Rightarrow> Some (if okCopy then w1\<lparr>sw_seenHosts := sw_seenHosts w1 @ [h]\<rparr> else w1))"

fun announce :: "(nat \<Rightarrow> bool \<times> bool) \<Rightarrow> IedDiscoveredHost list \<Rightarrow> scan_worker \<Rightarrow> scan_worker option" where
  "announce ok [] w = Some w"
| "announce ok (d # rest) w =
     (if stopRequested w then Some w
      else if \<not> ScanOrchestrationUseCases_isHostNew (sw_seenHosts w) (idh_host d) then announce ok rest (seen_clear w)
      else (case appendToSeenSet (fst (ok (length rest))) (snd (ok (length rest))) (seen_clear w) (idh_host d) of
          None \<Rightarrow> None
        | Some w \<Rightarrow>
            if stopRequested w then announce ok rest w
            else announce ok rest (seen_clear w\<lparr>sw_announced := sw_announced w
              @ [(sw_scanId w, idh_host d, sw_mmsPort w, idh_authRequired d)]\<rparr>)))"

lemma seen_clear_fields [simp]:
  "sw_reads (seen_clear w) = sw_reads w - 1" "sw_seenHosts (seen_clear w) = sw_seenHosts w"
  "sw_announced (seen_clear w) = sw_announced w" "sw_scanId (seen_clear w) = sw_scanId w"
  "sw_mmsPort (seen_clear w) = sw_mmsPort w" "sw_sweepIntervalMs (seen_clear w) = sw_sweepIntervalMs w"
  "sw_seenCapacity (seen_clear w) = sw_seenCapacity w"
  by (simp_all add: seen_clear_def)

lemma sleep_fields:
  "sw_reads (scanInterruptibleSleep t s w) \<le> sw_reads w
    \<and> sw_seenHosts (scanInterruptibleSleep t s w) = sw_seenHosts w
    \<and> sw_announced (scanInterruptibleSleep t s w) = sw_announced w
    \<and> sw_scanId (scanInterruptibleSleep t s w) = sw_scanId w \<and> sw_mmsPort (scanInterruptibleSleep t s w) = sw_mmsPort w"
  by (induction t s w rule: scanInterruptibleSleep.induct) (subst (1 2 3 4 5) scanInterruptibleSleep.simps, auto)

lemma append_reads: "appendToSeenSet a b w h = Some w' \<Longrightarrow> sw_reads w' = sw_reads w"
  by (auto simp: appendToSeenSet_def Let_def split: if_splits option.splits)

lemma announce_reads_le: "announce ok ds w = Some w' \<Longrightarrow> sw_reads w' \<le> sw_reads w"
  by (induction ok ds w rule: announce.induct)
    (fastforce dest: append_reads split: if_splits option.splits)+

text \<open>
  \<open>sweeps k\<close>: what the \<open>k\<close>-th call of \<open>IedDiscovery_scanSubnet\<close> returned (\<open>None\<close> for \<open>NULL\<close>), and
  \<open>ok k\<close> the allocations while its result is handled.
\<close>

definition one_sweep ::
    "(nat \<Rightarrow> IedDiscoveredHost list option) \<Rightarrow> (nat \<Rightarrow> nat \<Rightarrow> bool \<times> bool) \<Rightarrow> nat \<Rightarrow> scan_worker \<Rightarrow> scan_worker option" where
  "one_sweep sweeps ok k w =
     map_option (\<lambda>w. scanInterruptibleSleep (sw_sweepIntervalMs w) 0 w)
       (case sweeps k of None \<Rightarrow> Some w | Some results \<Rightarrow> announce (ok k) results w)"

lemma one_sweep_reads_le: "one_sweep sweeps ok k w = Some w' \<Longrightarrow> sw_reads w' \<le> sw_reads w"
  by (auto simp: one_sweep_def split: option.splits intro!: le_trans [OF conjunct1 [OF sleep_fields]]
      dest: announce_reads_le)

function sweep_loop ::
    "(nat \<Rightarrow> IedDiscoveredHost list option) \<Rightarrow> (nat \<Rightarrow> nat \<Rightarrow> bool \<times> bool) \<Rightarrow> nat \<Rightarrow> scan_worker \<Rightarrow> scan_worker option" where
  "sweep_loop sweeps ok k w =
     (if stopRequested w then Some w
      else (case one_sweep sweeps ok k (seen_clear w) of
          None \<Rightarrow> None
        | Some w \<Rightarrow> sweep_loop sweeps ok (k + 1) w))"
  by pat_completeness auto
termination
  by (relation "measure (\<lambda>(s, ok, k, w). sw_reads w)")
    (auto simp: stopRequested_def dest!: one_sweep_reads_le)

declare sweep_loop.simps [simp del]

definition sweepLoop ::
    "(nat \<Rightarrow> IedDiscoveredHost list option) \<Rightarrow> (nat \<Rightarrow> nat \<Rightarrow> bool \<times> bool) \<Rightarrow> scan_worker \<Rightarrow> scan_worker option" where
  "sweepLoop sweeps ok w =
     sweep_loop sweeps ok 0 (scanInterruptibleSleep SCAN_ORCHESTRATION_INITIAL_SWEEP_GRACE_MS 0 w)"

text \<open>The copies of the names; \<open>okList\<close>: the array.\<close>

definition ScanOrchestrationWorker_snapshotHosts :: "bool \<Rightarrow> scan_worker option \<Rightarrow> string list" where
  "ScanOrchestrationWorker_snapshotHosts okList worker =
     (case worker of None \<Rightarrow> [] | Some w \<Rightarrow> if okList then sw_seenHosts w else [])"

section \<open>What a scan announces\<close>

abbreviation announced_hosts :: "scan_worker \<Rightarrow> string option list" where
  "announced_hosts w \<equiv> map (\<lambda>(i, h, p, a). h) (sw_announced w)"

definition sweep_names :: "(nat \<Rightarrow> IedDiscoveredHost list option) \<Rightarrow> nat \<Rightarrow> string list" where
  "sweep_names sweeps k = (case sweeps k of None \<Rightarrow> [] | Some ds \<Rightarrow> map (\<lambda>d. the (idh_host d)) ds)"

definition names_upto :: "(nat \<Rightarrow> IedDiscoveredHost list option) \<Rightarrow> nat \<Rightarrow> string list" where
  "names_upto sweeps k = concat (map (sweep_names sweeps) [0..<k])"

definition first_occurrences :: "string list \<Rightarrow> string list" where
  "first_occurrences hs = rev (remdups (rev hs))"

lemma first_occurrences_snoc [simp]:
  "first_occurrences (hs @ [h]) = (if h \<in> set hs then first_occurrences hs else first_occurrences hs @ [h])"
  by (simp add: first_occurrences_def)

lemma first_occurrences_set [simp]: "set (first_occurrences hs) = set hs"
  by (simp add: first_occurrences_def)

lemma first_occurrences_distinct: "distinct (first_occurrences hs)"
  by (simp add: first_occurrences_def)

lemma first_occurrences_Nil [simp]: "first_occurrences [] = []"
  by (simp add: first_occurrences_def)

text \<open>Every host of a sweep has a name, as those of \<open>IedDiscovery_scanSubnet\<close> do.\<close>

definition named_hosts :: "IedDiscoveredHost list \<Rightarrow> bool" where
  "named_hosts ds \<longleftrightarrow> (\<forall>d \<in> set ds. \<exists>h. idh_host d = Some h \<and> h \<noteq> [])"

text \<open>After the names \<open>p\<close> were handled: the last one may be seen and not announced, if the stop came
  between the two.\<close>

definition announced_upto :: "string list \<Rightarrow> scan_worker \<Rightarrow> bool" where
  "announced_upto p w \<longleftrightarrow> sw_seenHosts w = first_occurrences p
     \<and> (announced_hosts w = map Some (first_occurrences p)
        \<or> stopRequested w \<and> announced_hosts w = map Some (butlast (first_occurrences p)))"

abbreviation all_ok :: "nat \<Rightarrow> bool \<times> bool" where
  "all_ok \<equiv> \<lambda>_. (True, True)"

lemma append_all_ok:
  "\<exists>c. appendToSeenSet True True w (Some h) = Some (w\<lparr>sw_seenHosts := sw_seenHosts w @ [h], sw_seenCapacity := c\<rparr>)"
  by (cases w) (auto simp: appendToSeenSet_def Let_def)

lemma announce_one:
  assumes "announced_upto p w" and "\<not> stopRequested w" and "idh_host d = Some h" and "h \<noteq> []"
  obtains w' where "announce all_ok (d # ds) w = announce all_ok ds w'"
    and "announced_upto (p @ [h]) w'" and "sw_reads w \<le> sw_reads w' + 2"
    and "sw_sweepIntervalMs w' = sw_sweepIntervalMs w"
proof (cases "h \<in> set p")
  case True
  then show thesis
    using assms by (intro that [of "seen_clear w"])
      (auto simp: announced_upto_def ScanOrchestrationUseCases_isHostNew_def)
next
  case False
  obtain c where c: "appendToSeenSet True True (seen_clear w) (Some h)
      = Some (seen_clear w\<lparr>sw_seenHosts := sw_seenHosts w @ [h], sw_seenCapacity := c\<rparr>)"
    using append_all_ok [of "seen_clear w" h] by auto
  let ?w1 = "seen_clear w\<lparr>sw_seenHosts := sw_seenHosts w @ [h], sw_seenCapacity := c\<rparr>"
  let ?w2 = "if stopRequested ?w1 then ?w1 else seen_clear ?w1\<lparr>sw_announced := sw_announced ?w1
    @ [(sw_scanId ?w1, Some h, sw_mmsPort ?w1, idh_authRequired d)]\<rparr>"
  have "ScanOrchestrationUseCases_isHostNew (sw_seenHosts w) (Some h)"
    using False assms by (simp add: announced_upto_def ScanOrchestrationUseCases_isHostNew_def)
  then have "announce all_ok (d # ds) w = announce all_ok ds ?w2"
    using assms(2,3) c by simp
  moreover have "announced_upto (p @ [h]) ?w2"
    using assms(1,2) False by (auto simp: announced_upto_def)
  ultimately show thesis by (rule that) (auto simp: seen_clear_def)
qed

lemma announce_exact:
  assumes "announced_upto p w" and "named_hosts ds"
  shows "\<exists>w' q. announce all_ok ds w = Some w' \<and> prefix q (map (\<lambda>d. the (idh_host d)) ds)
    \<and> announced_upto (p @ q) w' \<and> (stopRequested w' \<or> q = map (\<lambda>d. the (idh_host d)) ds)
    \<and> sw_reads w \<le> sw_reads w' + 2 * length ds \<and> sw_sweepIntervalMs w' = sw_sweepIntervalMs w"
  using assms
proof (induction ds arbitrary: p w)
  case Nil
  then show ?case by simp
next
  case (Cons d ds)
  show ?case
  proof (cases "stopRequested w")
    case True
    with Cons.prems(1) show ?thesis
      by (intro exI [of _ w] exI [of _ "[]"]) simp
  next
    case False
    obtain h where h: "idh_host d = Some h" "h \<noteq> []" and nd: "named_hosts ds"
      using Cons.prems(2) by (auto simp: named_hosts_def)
    obtain w1 where w1: "announce all_ok (d # ds) w = announce all_ok ds w1" "announced_upto (p @ [h]) w1"
      "sw_reads w \<le> sw_reads w1 + 2" "sw_sweepIntervalMs w1 = sw_sweepIntervalMs w"
      by (rule announce_one [OF Cons.prems(1) False h])
    from Cons.IH [OF w1(2) nd] obtain w' q where r: "announce all_ok ds w1 = Some w'"
      "prefix q (map (\<lambda>d. the (idh_host d)) ds)" "announced_upto ((p @ [h]) @ q) w'"
      "stopRequested w' \<or> q = map (\<lambda>d. the (idh_host d)) ds" "sw_reads w1 \<le> sw_reads w' + 2 * length ds"
      "sw_sweepIntervalMs w' = sw_sweepIntervalMs w1"
      by (elim exE conjE)
    show ?thesis
      using w1 r h by (intro exI [of _ w'] exI [of _ "h # q"]) (auto simp del: announce.simps)
  qed
qed

definition good_sweeps :: "(nat \<Rightarrow> IedDiscoveredHost list option) \<Rightarrow> bool" where
  "good_sweeps sweeps \<longleftrightarrow> (\<forall>k. named_hosts (case sweeps k of None \<Rightarrow> [] | Some ds \<Rightarrow> ds))"

lemma budget_step: "a - 1 \<le> x + (t - s') \<Longrightarrow> 0 < a \<Longrightarrow> s < s' \<Longrightarrow> s' \<le> t \<Longrightarrow> a \<le> x + (t - s)" for a :: nat
  by arith

lemma sleep_cost: "sw_reads w \<le> sw_reads (scanInterruptibleSleep t s w) + (unat t - unat s)"
proof (induction t s w rule: scanInterruptibleSleep.induct)
  case (1 t s w)
  define s' where "s' = s + (if t - s < 20 then t - s else 20)"
  show ?case
  proof (cases "\<not> s < t \<or> stopRequested w")
    case True
    then show ?thesis by (subst scanInterruptibleSleep.simps) simp
  next
    case False
    then have st: "unat s < unat t" by (simp add: word_less_nat_alt)
    then have d: "unat (t - s) = unat t - unat s" by (simp add: unat_sub word_le_nat_alt)
    have "unat s < unat s' \<and> unat s' \<le> unat t"
    proof (cases "t - s < 20")
      case True
      then show ?thesis using st by (simp add: s'_def)
    next
      case f: False
      then have "20 \<le> unat t - unat s" using d by (simp add: word_less_nat_alt)
      moreover have "unat t < 2 ^ 32" using unsigned_less [of t] by simp
      ultimately have "unat (s + 20) = unat s + 20" using st by (simp add: unat_word_ariths)
      with f st \<open>20 \<le> _\<close> show ?thesis by (simp add: s'_def)
    qed
    moreover have "scanInterruptibleSleep t s w = scanInterruptibleSleep t s' (seen_clear w)"
      using False by (subst scanInterruptibleSleep.simps) (simp add: s'_def)
    moreover have "sw_reads (seen_clear w) \<le> sw_reads (scanInterruptibleSleep t s' (seen_clear w)) + (unat t - unat s')"
      using 1 [OF False] by (simp add: s'_def)
    moreover have "0 < sw_reads w" using False by (simp add: stopRequested_def)
    ultimately show ?thesis
      using budget_step [of "sw_reads w" _ "unat t" "unat s'" "unat s"] unfolding seen_clear_fields by metis
  qed
qed

lemma sleep_announced:
  "announced_upto p w \<Longrightarrow> announced_upto p (scanInterruptibleSleep t s w)"
  using sleep_fields [of t s w] by (auto simp: announced_upto_def stopRequested_def)

lemma sleep_interval: "sw_sweepIntervalMs (scanInterruptibleSleep t s w) = sw_sweepIntervalMs w"
  by (induction t s w rule: scanInterruptibleSleep.induct) (subst scanInterruptibleSleep.simps, auto)

lemma one_sweep_exact:
  assumes "announced_upto p w" and "good_sweeps sweeps"
  shows "\<exists>w' q. one_sweep sweeps (\<lambda>_. all_ok) k w = Some w' \<and> prefix q (sweep_names sweeps k)
    \<and> announced_upto (p @ q) w' \<and> (stopRequested w' \<or> q = sweep_names sweeps k)
    \<and> sw_reads w \<le> sw_reads w' + 2 * length (sweep_names sweeps k) + unat (sw_sweepIntervalMs w)
    \<and> sw_sweepIntervalMs w' = sw_sweepIntervalMs w"
proof -
  define ds where "ds = (case sweeps k of None \<Rightarrow> [] | Some ds \<Rightarrow> ds)"
  have names: "sweep_names sweeps k = map (\<lambda>d. the (idh_host d)) ds"
    and run: "one_sweep sweeps (\<lambda>_. all_ok) k w
      = map_option (\<lambda>w. scanInterruptibleSleep (sw_sweepIntervalMs w) 0 w) (announce all_ok ds w)"
    by (simp_all add: sweep_names_def one_sweep_def ds_def split: option.splits)
  have "named_hosts ds" using assms(2) by (simp add: good_sweeps_def ds_def)
  from announce_exact [OF assms(1) this] obtain w1 q where r: "announce all_ok ds w = Some w1"
    "prefix q (map (\<lambda>d. the (idh_host d)) ds)" "announced_upto (p @ q) w1"
    "stopRequested w1 \<or> q = map (\<lambda>d. the (idh_host d)) ds"
    "sw_reads w \<le> sw_reads w1 + 2 * length ds" "sw_sweepIntervalMs w1 = sw_sweepIntervalMs w"
    by (elim exE conjE)
  let ?w' = "scanInterruptibleSleep (sw_sweepIntervalMs w1) 0 w1"
  have "stopRequested w1 \<Longrightarrow> stopRequested ?w'"
    using sleep_fields [of "sw_sweepIntervalMs w1" 0 w1] by (simp add: stopRequested_def)
  moreover have "sw_reads w1 \<le> sw_reads ?w' + unat (sw_sweepIntervalMs w1)"
    using sleep_cost [of w1 "sw_sweepIntervalMs w1" 0] by simp
  ultimately show ?thesis
    using r sleep_announced [OF r(3)] unfolding run names
    by (intro exI [of _ ?w'] exI [of _ q]) (auto simp: sleep_interval)
qed

lemma announce_grows: "announce ok ds w = Some w' \<Longrightarrow> set (sw_announced w) \<subseteq> set (sw_announced w')"
proof (induction ok ds w rule: announce.induct)
  case (2 ok d rest w)
  have *: "appendToSeenSet a b w h = Some w1 \<Longrightarrow> sw_announced w1 = sw_announced w" for a b w h w1
    by (auto simp: appendToSeenSet_def Let_def split: if_splits option.splits)
  from 2 show ?case by (fastforce dest: * split: if_splits option.splits)
qed simp

lemma one_sweep_grows:
  "one_sweep sweeps ok k w = Some w' \<Longrightarrow> set (sw_announced w) \<subseteq> set (sw_announced w')"
  by (auto simp: one_sweep_def sleep_fields split: option.splits dest: subsetD [OF announce_grows])

lemma sweep_loop_grows:
  "sweep_loop sweeps ok k w = Some w' \<Longrightarrow> set (sw_announced w) \<subseteq> set (sw_announced w')"
proof (induction sweeps ok k w rule: sweep_loop.induct)
  case (1 sweeps ok k w)
  show ?case
  proof (cases "stopRequested w")
    case True
    with 1(2) show ?thesis by (simp add: sweep_loop.simps)
  next
    case False
    then obtain w1 where w1: "one_sweep sweeps ok k (seen_clear w) = Some w1" "sweep_loop sweeps ok (k + 1) w1 = Some w'"
      using 1(2) by (subst (asm) sweep_loop.simps) (auto split: option.splits)
    from 1(1) [OF False w1] one_sweep_grows [OF w1(1)] show ?thesis by auto
  qed
qed

text \<open>Reads of the flag that surely see a scan through its first \<open>m\<close> sweeps.\<close>

definition reads_for :: "(nat \<Rightarrow> IedDiscoveredHost list option) \<Rightarrow> u32 \<Rightarrow> nat \<Rightarrow> nat \<Rightarrow> nat" where
  "reads_for sweeps interval k m =
     (\<Sum>i \<leftarrow> [k..<m]. 1 + 2 * length (sweep_names sweeps i) + unat interval)"

lemma reads_for_step: "k < m \<Longrightarrow> reads_for sweeps interval k m
    = 1 + 2 * length (sweep_names sweeps k) + unat interval + reads_for sweeps interval (k + 1) m"
  by (simp add: reads_for_def upt_conv_Cons)

lemma names_upto_Suc [simp]: "names_upto sweeps (Suc k) = names_upto sweeps k @ sweep_names sweeps k"
  by (simp add: names_upto_def)

lemma announced_set:
  "announced_upto p w \<Longrightarrow> \<not> stopRequested w \<Longrightarrow> Some ` set p = set (announced_hosts w)"
  by (auto simp: announced_upto_def)

lemma sweep_loop_exact:
  assumes "announced_upto p w" and "good_sweeps sweeps"
    and "prefix p (names_upto sweeps k)" and "stopRequested w \<or> p = names_upto sweeps k"
  shows "\<exists>w' q k'. sweep_loop sweeps (\<lambda>_. all_ok) k w = Some w' \<and> announced_upto q w'
    \<and> prefix q (names_upto sweeps k')
    \<and> (\<forall>m \<ge> k. reads_for sweeps (sw_sweepIntervalMs w) k m < sw_reads w
        \<longrightarrow> Some ` set (names_upto sweeps m) \<subseteq> set (announced_hosts w'))"
  using assms
proof (induction sweeps "\<lambda>_::nat. all_ok" k w arbitrary: p rule: sweep_loop.induct)
  case (1 sweeps k w)
  show ?case
  proof (cases "stopRequested w")
    case True
    with 1(2,4) show ?thesis
      by (intro exI [of _ w] exI [of _ p] exI [of _ k]) (simp add: sweep_loop.simps stopRequested_def)
  next
    case False
    have "announced_upto p (seen_clear w)"
      using 1(2) False by (auto simp: announced_upto_def)
    from one_sweep_exact [OF this 1(3), of k] obtain w1 q where
      s: "one_sweep sweeps (\<lambda>_. all_ok) k (seen_clear w) = Some w1" "prefix q (sweep_names sweeps k)"
      and a: "announced_upto (p @ q) w1" "stopRequested w1 \<or> q = sweep_names sweeps k"
      and c: "sw_reads (seen_clear w) \<le> sw_reads w1 + 2 * length (sweep_names sweeps k) + unat (sw_sweepIntervalMs (seen_clear w))"
        "sw_sweepIntervalMs w1 = sw_sweepIntervalMs (seen_clear w)"
      by (elim exE conjE)
    have p: "p = names_upto sweeps k" using 1(5) False by blast
    with a(2) s(2) have "prefix (p @ q) (names_upto sweeps (k + 1))"
      and "stopRequested w1 \<or> p @ q = names_upto sweeps (k + 1)" by auto
    from 1(1) [OF False s(1) a(1) 1(3) this] obtain w' q' k' where
      r: "sweep_loop sweeps (\<lambda>_. all_ok) (k + 1) w1 = Some w'" "announced_upto q' w'" "prefix q' (names_upto sweeps k')"
      and live: "\<And>m. k + 1 \<le> m \<Longrightarrow> reads_for sweeps (sw_sweepIntervalMs w1) (k + 1) m < sw_reads w1 \<Longrightarrow>
        Some ` set (names_upto sweeps m) \<subseteq> set (announced_hosts w')" by blast
    have loop: "sweep_loop sweeps (\<lambda>_. all_ok) k w = Some w'"
      using False s(1) r(1) by (subst sweep_loop.simps) simp
    have "Some ` set (names_upto sweeps m) \<subseteq> set (announced_hosts w')"
      if m: "k \<le> m" "reads_for sweeps (sw_sweepIntervalMs w) k m < sw_reads w" for m
    proof (cases "m = k")
      case True
      have "set (announced_hosts w) \<subseteq> set (announced_hosts w')"
        unfolding set_map by (rule image_mono [OF sweep_loop_grows [OF loop]])
      with announced_set [OF 1(2) False] p True show ?thesis by simp
    next
      case f: False
      with m(1) have "k < m" by simp
      with m(2) c show ?thesis
        by (intro live) (simp_all add: reads_for_step stopRequested_def)
    qed
    with loop r(2,3) show ?thesis by blast
  qed
qed

definition all_announced ::
    "(nat \<Rightarrow> IedDiscoveredHost list option) \<Rightarrow> scan_worker \<Rightarrow> scan_worker \<Rightarrow> nat \<Rightarrow> bool" where
  "all_announced sweeps w w' m \<longleftrightarrow>
     (unat SCAN_ORCHESTRATION_INITIAL_SWEEP_GRACE_MS + reads_for sweeps (sw_sweepIntervalMs w) 0 m < sw_reads w
      \<longrightarrow> Some ` set (names_upto sweeps m) \<subseteq> set (announced_hosts w'))"

text \<open>C32. The thread of a scan ends once its stop is requested, whenever that is, and with the
  allocations it makes it has announced the hosts of its sweeps in the order of their first
  appearance, each at most once however often it was swept again; only the last may be missing,
  if the stop came just then. A host of the first \<open>m\<close> sweeps is announced if the stop comes late enough
  for \<open>m\<close> sweeps.\<close>

theorem scan_announces_once:
  assumes "sw_seenHosts w = []" and "sw_announced w = []" and "good_sweeps sweeps"
  shows "\<exists>w' q k. sweepLoop sweeps (\<lambda>_. all_ok) w = Some w' \<and> prefix q (names_upto sweeps k)
    \<and> (announced_hosts w' = map Some (first_occurrences q) \<or> announced_hosts w' = map Some (butlast (first_occurrences q)))
    \<and> distinct (announced_hosts w') \<and> (\<forall>m. all_announced sweeps w w' m)"
proof -
  let ?w = "scanInterruptibleSleep SCAN_ORCHESTRATION_INITIAL_SWEEP_GRACE_MS 0 w"
  have "announced_upto [] ?w"
    using assms(1,2) by (intro sleep_announced) (simp add: announced_upto_def)
  then have "\<exists>w' q k'. sweep_loop sweeps (\<lambda>_. all_ok) 0 ?w = Some w' \<and> announced_upto q w'
    \<and> prefix q (names_upto sweeps k')
    \<and> (\<forall>m \<ge> 0. reads_for sweeps (sw_sweepIntervalMs ?w) 0 m < sw_reads ?w
        \<longrightarrow> Some ` set (names_upto sweeps m) \<subseteq> set (announced_hosts w'))"
    using assms(3) by (intro sweep_loop_exact [where p = "[]"]) (simp_all add: names_upto_def)
  then obtain w' q k where r: "sweep_loop sweeps (\<lambda>_. all_ok) 0 ?w = Some w'" "announced_upto q w'"
    "prefix q (names_upto sweeps k)" "\<forall>m \<ge> 0. reads_for sweeps (sw_sweepIntervalMs ?w) 0 m < sw_reads ?w \<longrightarrow>
      Some ` set (names_upto sweeps m) \<subseteq> set (announced_hosts w')"
    by (elim exE conjE)
  have h: "announced_hosts w' = map Some (first_occurrences q) \<or> announced_hosts w' = map Some (butlast (first_occurrences q))"
    using r(2) by (auto simp: announced_upto_def)
  have "distinct (map Some (first_occurrences q))" and "distinct (map Some (butlast (first_occurrences q)))"
    using first_occurrences_distinct [of q] by (simp_all add: distinct_map distinct_butlast)
  with h have "distinct (announced_hosts w')" by metis
  moreover have "all_announced sweeps w w' m" for m
    using sleep_cost [of w SCAN_ORCHESTRATION_INITIAL_SWEEP_GRACE_MS 0] r(4) [rule_format, of m]
    by (simp add: all_announced_def sleep_interval)
  ultimately show ?thesis using r(1,3) h unfolding sweepLoop_def by blast
qed

theorem scan_announces_once_witness:
  "\<exists>w'. sweepLoop (\<lambda>k. Some [\<lparr>idh_host = Some ''10.0.0.7'', idh_authRequired = False\<rparr>,
         \<lparr>idh_host = Some ''10.0.0.9'', idh_authRequired = True\<rparr>]) (\<lambda>_. all_ok)
       \<lparr>sw_scanId = 1, sw_interfaceId = ''eth0'', sw_mmsPort = 102, sw_sweepIntervalMs = 100,
        sw_discoveryHandle = undefined, sw_seenHosts = [], sw_seenCapacity = 0, sw_reads = 1000, sw_announced = []\<rparr> = Some w'
     \<and> distinct (announced_hosts w') \<and> {Some ''10.0.0.7'', Some ''10.0.0.9''} \<subseteq> set (announced_hosts w')"
proof -
  let ?s = "\<lambda>k::nat. Some [\<lparr>idh_host = Some ''10.0.0.7'', idh_authRequired = False\<rparr>,
    \<lparr>idh_host = Some ''10.0.0.9'', idh_authRequired = True\<rparr>]"
  let ?w = "\<lparr>sw_scanId = 1, sw_interfaceId = ''eth0'', sw_mmsPort = 102, sw_sweepIntervalMs = 100,
    sw_discoveryHandle = undefined, sw_seenHosts = [], sw_seenCapacity = 0, sw_reads = 1000, sw_announced = []\<rparr>"
  have "good_sweeps ?s" by (simp add: good_sweeps_def named_hosts_def)
  then obtain w' where w': "sweepLoop ?s (\<lambda>_. all_ok) ?w = Some w'" "distinct (announced_hosts w')" "all_announced ?s ?w w' 1"
    using scan_announces_once [of ?w ?s] by auto
  from w'(3) have "Some ` set (names_upto ?s 1) \<subseteq> set (announced_hosts w')"
    unfolding all_announced_def
    by (rule mp) (simp add: SCAN_ORCHESTRATION_INITIAL_SWEEP_GRACE_MS_def reads_for_def sweep_names_def)
  then have "{Some ''10.0.0.7'', Some ''10.0.0.9''} \<subseteq> set (announced_hosts w')"
    by (simp add: names_upto_def sweep_names_def)
  with w' show ?thesis by blast
qed

end
