(* ===== verification/Scan_Orchestration.thy ===== *)
theory Scan_Orchestration
  imports Scan_Worker
begin

text \<open>
  \<open>scan_orchestration/data/scan_orchestration_registry.c\<close> and
  \<open>service/scan_orchestration_api.c\<close>: the running scans and the dispatcher they share, which is
  started by the first of them and stopped after the last. The calls come from several threads: a
  call is a sequence of atomic parts (what happens under the lock of the registry, the stop of the
  dispatcher), and \<open>scans_reach\<close> is what any interleaving of them reaches.
\<close>

section \<open>The registry\<close>

record scan_registry =
  sg_entries :: "(u64 \<times> scan_worker) list"
  sg_capacity :: nat
  sg_nextScanId :: u64

definition ScanOrchestrationRegistry_create :: "bool \<Rightarrow> bool \<Rightarrow> scan_registry option" where
  "ScanOrchestrationRegistry_create okRegistry okLock =
     (if okRegistry \<and> okLock then Some \<lparr>sg_entries = [], sg_capacity = 0, sg_nextScanId = 1\<rparr> else None)"

definition ScanOrchestrationRegistry_nextScanId :: "scan_registry \<Rightarrow> u64 \<times> scan_registry" where
  "ScanOrchestrationRegistry_nextScanId g = (sg_nextScanId g, g\<lparr>sg_nextScanId := sg_nextScanId g + 1\<rparr>)"

definition appendScanEntry :: "bool \<Rightarrow> scan_registry \<Rightarrow> u64 \<Rightarrow> scan_worker \<Rightarrow> scan_registry option" where
  "appendScanEntry okGrow g scanId worker =
     (if length (sg_entries g) \<ge> sg_capacity g then
        if okGrow then Some (g\<lparr>sg_entries := sg_entries g @ [(scanId, worker)],
          sg_capacity := (if sg_capacity g > 0 then sg_capacity g * 2 else 8)\<rparr>)
        else None
      else Some (g\<lparr>sg_entries := sg_entries g @ [(scanId, worker)]\<rparr>))"

text \<open>
  \<open>ws\<close>: the answers to the websocket server, if the dispatcher is started.
\<close>

definition ScanOrchestrationRegistry_addAndMaybeStartDispatcher ::
    "bool \<Rightarrow> bool \<times> bool \<times> bool \<Rightarrow> scan_registry \<Rightarrow> scan_dispatcher option \<Rightarrow> scan_worker
      \<Rightarrow> ScanOrchestrationError \<times> scan_registry \<times> scan_dispatcher option" where
  "ScanOrchestrationRegistry_addAndMaybeStartDispatcher okGrow ws g scanDispatcher worker =
     (let (dispatcherErr, d) = (if sg_entries g = [] then ScanDispatcher_start ws scanDispatcher
                                else (SCAN_DISPATCHER_OK, scanDispatcher))
      in if dispatcherErr \<noteq> SCAN_DISPATCHER_OK then (SCAN_ORCHESTRATION_ERR_DISPATCHER_START_FAILED, g, d)
         else (case appendScanEntry okGrow g (sw_scanId worker) worker of
            Some g' \<Rightarrow> (SCAN_ORCHESTRATION_OK, g', d)
          | None \<Rightarrow> (SCAN_ORCHESTRATION_ERR_OUT_OF_MEMORY, g,
              if sg_entries g = [] then ScanDispatcher_stop d else d)))"

fun find_scan :: "u64 \<Rightarrow> (u64 \<times> scan_worker) list \<Rightarrow> nat option" where
  "find_scan scanId [] = None"
| "find_scan scanId ((i, w) # es) = (if i = scanId then Some 0 else map_option Suc (find_scan scanId es))"

text \<open>The worker handed out, and whether the registry is now empty.\<close>

definition ScanOrchestrationRegistry_remove :: "scan_registry \<Rightarrow> u64 \<Rightarrow> scan_registry \<times> (scan_worker \<times> bool) option" where
  "ScanOrchestrationRegistry_remove g scanId =
     (case find_scan scanId (sg_entries g) of
        None \<Rightarrow> (g, None)
      | Some foundIndex \<Rightarrow>
          let es = butlast ((sg_entries g)[foundIndex := last (sg_entries g)])
          in (g\<lparr>sg_entries := es\<rparr>, Some (snd (sg_entries g ! foundIndex), es = [])))"

definition ScanOrchestrationRegistry_find :: "scan_registry \<Rightarrow> u64 \<Rightarrow> scan_worker option" where
  "ScanOrchestrationRegistry_find g scanId =
     map_option (\<lambda>i. snd (sg_entries g ! i)) (find_scan scanId (sg_entries g))"

definition ScanOrchestrationRegistry_activeCount :: "scan_registry \<Rightarrow> nat" where
  "ScanOrchestrationRegistry_activeCount g = length (sg_entries g)"

definition ScanOrchestrationRegistry_anyActiveScanId :: "scan_registry \<Rightarrow> u64" where
  "ScanOrchestrationRegistry_anyActiveScanId g = (case sg_entries g of [] \<Rightarrow> 0 | e # _ \<Rightarrow> fst e)"

lemma find_scan_Some:
  "find_scan i es = Some k \<Longrightarrow> k < length es \<and> fst (es ! k) = i"
  by (induction es arbitrary: k) (auto split: if_splits)

lemma find_scan_None: "find_scan i es = None \<longleftrightarrow> i \<notin> fst ` set es"
  by (induction es) force+

lemma swap_remove_mset:
  "k < length es \<Longrightarrow> add_mset (es ! k) (mset (butlast (es[k := last es]))) = mset es"
proof (cases es rule: rev_cases)
  case (snoc ys y)
  moreover assume "k < length es"
  ultimately show ?thesis
    by (cases "k = length ys") (auto simp: nth_append list_update_append mset_update butlast_append split: nat.splits)
qed simp

lemma remove_Some:
  assumes "ScanOrchestrationRegistry_remove g scanId = (g', Some (w, em))"
  shows "add_mset (scanId, w) (mset (sg_entries g')) = mset (sg_entries g) \<and> (em \<longleftrightarrow> sg_entries g' = [])
    \<and> sg_nextScanId g' = sg_nextScanId g"
proof -
  obtain k where k: "find_scan scanId (sg_entries g) = Some k"
    and g': "g' = g\<lparr>sg_entries := butlast ((sg_entries g)[k := last (sg_entries g)])\<rparr>"
    and w: "w = snd (sg_entries g ! k)" and em: "em \<longleftrightarrow> sg_entries g' = []"
    using assms by (auto simp: ScanOrchestrationRegistry_remove_def Let_def split: option.splits)
  from find_scan_Some [OF k] w have "sg_entries g ! k = (scanId, w)" by (cases "sg_entries g ! k") simp
  with swap_remove_mset [of k "sg_entries g"] find_scan_Some [OF k] g' em show ?thesis by simp
qed

lemma remove_None:
  "ScanOrchestrationRegistry_remove g scanId = (g', None) \<Longrightarrow> g' = g \<and> scanId \<notin> fst ` set (sg_entries g)"
  by (auto simp: ScanOrchestrationRegistry_remove_def Let_def find_scan_None split: option.splits)

section \<open>The service\<close>

record ScanOrchestrationConfig =
  oc_scanDispatcherConfig :: ScanDispatcherConfig
  oc_defaultSweepIntervalMs :: u32
  oc_discoveryConfigTemplate :: IedDiscoveryConfig

record scan_orchestration =
  so_config :: ScanOrchestrationConfig
  so_registry :: scan_registry
  so_scanDispatcher :: "scan_dispatcher option"

definition ScanOrchestrationConfig_defaults :: ScanOrchestrationConfig where
  "ScanOrchestrationConfig_defaults = \<lparr>oc_scanDispatcherConfig = ScanDispatcherConfig_defaults,
     oc_defaultSweepIntervalMs = 10000, oc_discoveryConfigTemplate = IedDiscoveryConfig_defaults\<rparr>"

definition ScanOrchestration_create ::
    "bool \<Rightarrow> bool \<times> bool \<Rightarrow> bool \<Rightarrow> bool \<times> bool \<times> bool \<Rightarrow> ScanOrchestrationConfig option
      \<Rightarrow> ScanOrchestrationError \<times> scan_orchestration option" where
  "ScanOrchestration_create okHandle okReg okDisp okRing config =
     (if \<not> okHandle then (SCAN_ORCHESTRATION_ERR_OUT_OF_MEMORY, None)
      else
        let cfg = (case config of Some c \<Rightarrow> c | None \<Rightarrow> ScanOrchestrationConfig_defaults) in
        case ScanOrchestrationRegistry_create (fst okReg) (snd okReg) of
          None \<Rightarrow> (SCAN_ORCHESTRATION_ERR_OUT_OF_MEMORY, None)
        | Some g \<Rightarrow>
            (case ScanDispatcher_create okDisp okRing (Some (oc_scanDispatcherConfig cfg)) of
               (_, None) \<Rightarrow> (SCAN_ORCHESTRATION_ERR_OUT_OF_MEMORY, None)
             | (_, Some d) \<Rightarrow>
                 (SCAN_ORCHESTRATION_OK, Some \<lparr>so_config = cfg, so_registry = g, so_scanDispatcher = Some d\<rparr>)))"

text \<open>The answers a start gets: the allocations of the worker and of the registry, the websocket
  server, the thread.\<close>

record start_env =
  sx_worker :: "bool \<times> bool \<times> bool \<times> bool \<times> bool"
  sx_grow :: bool
  sx_ws :: "bool \<times> bool \<times> bool"
  sx_thread :: bool

definition create_scan_worker ::
    "start_env \<Rightarrow> ScanOrchestrationConfig \<Rightarrow> u64 \<Rightarrow> ScanRequest \<Rightarrow> ScanOrchestrationError \<times> scan_worker option" where
  "create_scan_worker env cfg scanId request =
     (case sx_worker env of (okWorker, okName, okLock, okDisc) \<Rightarrow>
        ScanOrchestrationWorker_create okWorker okName okLock okDisc scanId (Some request)
          (Some (oc_discoveryConfigTemplate cfg)) (oc_defaultSweepIntervalMs cfg))"

text \<open>
  A started worker runs by itself. Results: the error, the identifier on success, the state and the
  workers destroyed.
\<close>

definition ScanOrchestration_startScan ::
    "start_env \<Rightarrow> scan_orchestration \<Rightarrow> ScanRequest option
      \<Rightarrow> ScanOrchestrationError \<times> u64 option \<times> scan_orchestration \<times> scan_worker list" where
  "ScanOrchestration_startScan env h request =
     (case request of
        None \<Rightarrow> (SCAN_ORCHESTRATION_ERR_INVALID_ARGUMENT, None, h, [])
      | Some rq \<Rightarrow>
          let (scanId, g) = ScanOrchestrationRegistry_nextScanId (so_registry h);
              h = h\<lparr>so_registry := g\<rparr>
          in case create_scan_worker env (so_config h) scanId rq of
               (err, None) \<Rightarrow> (err, None, h, [])
             | (_, Some worker) \<Rightarrow>
                 let (err, g, d) = ScanOrchestrationRegistry_addAndMaybeStartDispatcher (sx_grow env) (sx_ws env)
                                     (so_registry h) (so_scanDispatcher h) worker;
                     h = h\<lparr>so_registry := g, so_scanDispatcher := d\<rparr>
                 in if err \<noteq> SCAN_ORCHESTRATION_OK then (err, None, h, [worker])
                    else if \<not> sx_thread env then
                      (let (g, removed) = ScanOrchestrationRegistry_remove (so_registry h) scanId;
                           nowEmpty = (case removed of None \<Rightarrow> False | Some (_, em) \<Rightarrow> em)
                       in (SCAN_ORCHESTRATION_ERR_THREAD_CREATE_FAILED, None,
                           h\<lparr>so_registry := g,
                             so_scanDispatcher := (if nowEmpty then ScanDispatcher_stop (so_scanDispatcher h)
                                                   else so_scanDispatcher h)\<rparr>, [worker]))
                    else (SCAN_ORCHESTRATION_OK, Some scanId, h, []))"

definition ScanOrchestration_stopScan ::
    "scan_orchestration \<Rightarrow> u64 \<Rightarrow> ScanOrchestrationError \<times> scan_orchestration \<times> scan_worker list" where
  "ScanOrchestration_stopScan h scanId =
     (case ScanOrchestrationRegistry_remove (so_registry h) scanId of
        (_, None) \<Rightarrow> (SCAN_ORCHESTRATION_ERR_SCAN_NOT_FOUND, h, [])
      | (g, Some (worker, nowEmpty)) \<Rightarrow>
          (SCAN_ORCHESTRATION_OK,
           h\<lparr>so_registry := g,
             so_scanDispatcher := (if nowEmpty then ScanDispatcher_stop (so_scanDispatcher h) else so_scanDispatcher h)\<rparr>,
           [worker]))"

definition ScanOrchestration_snapshotDiscoveredHosts ::
    "bool \<Rightarrow> scan_orchestration \<Rightarrow> u64 \<Rightarrow> ScanOrchestrationError \<times> string list" where
  "ScanOrchestration_snapshotDiscoveredHosts okList h scanId =
     (case ScanOrchestrationRegistry_find (so_registry h) scanId of
        None \<Rightarrow> (SCAN_ORCHESTRATION_ERR_SCAN_NOT_FOUND, [])
      | Some worker \<Rightarrow> (SCAN_ORCHESTRATION_OK, ScanOrchestrationWorker_snapshotHosts okList (Some worker)))"

lemma stopScan_removes:
  assumes "ScanOrchestration_stopScan h (ScanOrchestrationRegistry_anyActiveScanId (so_registry h)) = (err, h', ws)"
    and "ScanOrchestrationRegistry_anyActiveScanId (so_registry h) \<noteq> 0"
  shows "length (sg_entries (so_registry h)) = Suc (length (sg_entries (so_registry h')))
    \<and> mset (map snd (sg_entries (so_registry h'))) + mset ws = mset (map snd (sg_entries (so_registry h)))
    \<and> set (sg_entries (so_registry h')) \<subseteq> set (sg_entries (so_registry h))"
proof -
  obtain e es where es: "sg_entries (so_registry h) = e # es"
    using assms(2) by (cases "sg_entries (so_registry h)") (auto simp: ScanOrchestrationRegistry_anyActiveScanId_def)
  then have a: "ScanOrchestrationRegistry_anyActiveScanId (so_registry h) = fst e"
    by (simp add: ScanOrchestrationRegistry_anyActiveScanId_def)
  obtain g' w em where r: "ScanOrchestrationRegistry_remove (so_registry h) (fst e) = (g', Some (w, em))"
    using remove_None [of "so_registry h" "fst e"] es
    by (cases "ScanOrchestrationRegistry_remove (so_registry h) (fst e)"; cases "snd (ScanOrchestrationRegistry_remove (so_registry h) (fst e))") auto
  with assms(1) a have h': "so_registry h' = g'" "ws = [w]" by (auto simp: ScanOrchestration_stopScan_def)
  from remove_Some [OF r] have m: "add_mset (fst e, w) (mset (sg_entries g')) = mset (sg_entries (so_registry h))" by simp
  have "length (sg_entries (so_registry h)) = Suc (length (sg_entries g'))"
    using arg_cong [OF m, of size] by simp
  moreover have "mset (map snd (sg_entries (so_registry h))) = add_mset w (mset (map snd (sg_entries g')))"
    unfolding mset_map m [symmetric] by simp
  moreover have "set (sg_entries g') \<subseteq> set (sg_entries (so_registry h))"
    unfolding set_mset_mset [symmetric] m [symmetric] by auto
  ultimately show ?thesis using h' by simp
qed

text \<open>The workers destroyed, in order, and what is left.\<close>

function stop_all_scans :: "scan_orchestration \<Rightarrow> scan_worker list \<times> scan_orchestration" where
  "stop_all_scans h =
     (let scanId = ScanOrchestrationRegistry_anyActiveScanId (so_registry h) in
      if scanId = 0 then ([], h)
      else (case ScanOrchestration_stopScan h scanId of (_, h', ws) \<Rightarrow>
        (case stop_all_scans h' of (ws', h'') \<Rightarrow> (ws @ ws', h''))))"
  by pat_completeness auto
termination
  by (relation "measure (\<lambda>h. length (sg_entries (so_registry h)))") (auto dest!: stopScan_removes [OF sym])

declare stop_all_scans.simps [simp del]

text \<open>The workers and the buffered texts freed.\<close>

definition ScanOrchestration_destroy :: "scan_orchestration option \<Rightarrow> scan_worker list \<times> string list" where
  "ScanOrchestration_destroy handle =
     (case handle of
        None \<Rightarrow> ([], [])
      | Some h \<Rightarrow> (case stop_all_scans h of (ws, h') \<Rightarrow> (ws, ScanDispatcher_destroy (so_scanDispatcher h'))))"

section \<open>Any interleaving\<close>

text \<open>
  Between its atomic parts a call holds a worker of its own: one it created and has not registered
  (\<open>ss_drafts\<close>), or one it took out of the registry (\<open>ss_stopping\<close>), with what it learnt: whether
  it has to stop the dispatcher. \<open>ss_taken\<close> counts the identifiers given out.
\<close>

record scans_state =
  ss_service :: scan_orchestration
  ss_drafts :: "scan_worker list"
  ss_stopping :: "(scan_worker \<times> bool) list"
  ss_taken :: nat

inductive scans_step :: "scans_state \<Rightarrow> scans_state \<Rightarrow> bool" where
  take_id: "ScanOrchestrationRegistry_nextScanId (so_registry (ss_service s)) = (i, g) \<Longrightarrow>
    create_scan_worker env (so_config (ss_service s)) i rq = (err, made) \<Longrightarrow>
    scans_step s (s\<lparr>ss_service := (ss_service s)\<lparr>so_registry := g\<rparr>,
      ss_drafts := (case made of None \<Rightarrow> ss_drafts s | Some w \<Rightarrow> w # ss_drafts s), ss_taken := Suc (ss_taken s)\<rparr>)"
| add_draft: "w \<in> set (ss_drafts s) \<Longrightarrow>
    ScanOrchestrationRegistry_addAndMaybeStartDispatcher okGrow ws (so_registry (ss_service s))
      (so_scanDispatcher (ss_service s)) w = (err, g, d) \<Longrightarrow>
    scans_step s (s\<lparr>ss_service := (ss_service s)\<lparr>so_registry := g, so_scanDispatcher := d\<rparr>,
      ss_drafts := remove1 w (ss_drafts s)\<rparr>)"
| take_out: "ScanOrchestrationRegistry_remove (so_registry (ss_service s)) i = (g, Some (w, nowEmpty)) \<Longrightarrow>
    scans_step s (s\<lparr>ss_service := (ss_service s)\<lparr>so_registry := g\<rparr>, ss_stopping := (w, nowEmpty) # ss_stopping s\<rparr>)"
| finish: "(w, nowEmpty) \<in> set (ss_stopping s) \<Longrightarrow>
    scans_step s (s\<lparr>ss_service := (if nowEmpty then (ss_service s)\<lparr>so_scanDispatcher := ScanDispatcher_stop (so_scanDispatcher (ss_service s))\<rparr>
        else ss_service s),
      ss_stopping := remove1 (w, nowEmpty) (ss_stopping s)\<rparr>)"

inductive scans_reach :: "scans_state \<Rightarrow> bool" where
  created: "ScanOrchestration_create a b c d config = (err, Some h) \<Longrightarrow>
    scans_reach \<lparr>ss_service = h, ss_drafts = [], ss_stopping = [], ss_taken = 0\<rparr>"
| stepped: "scans_reach s \<Longrightarrow> scans_step s s' \<Longrightarrow> scans_reach s'"

definition pending_stops :: "(scan_worker \<times> bool) list \<Rightarrow> nat" where
  "pending_stops st = length (filter snd st)"

definition dispatcher_running :: "scan_orchestration \<Rightarrow> bool" where
  "dispatcher_running h \<longleftrightarrow> (case so_scanDispatcher h of None \<Rightarrow> False | Some d \<Rightarrow> sp_running d)"

definition dispatcher_counted :: "scans_state \<Rightarrow> bool" where
  "dispatcher_counted s \<longleftrightarrow> so_scanDispatcher (ss_service s) \<noteq> None
     \<and> (dispatcher_running (ss_service s) \<longleftrightarrow> sg_entries (so_registry (ss_service s)) \<noteq> [] \<or> pending_stops (ss_stopping s) > 0)
     \<and> (sg_entries (so_registry (ss_service s)) \<noteq> [] \<longrightarrow> pending_stops (ss_stopping s) = 0) \<and> pending_stops (ss_stopping s) \<le> 1"

lemma start_running:
  assumes "ScanDispatcher_start ws (Some d) = (err, d')"
  shows "\<exists>d1. d' = Some d1 \<and> (if sp_running d then err = SCAN_DISPATCHER_ERR_ALREADY_RUNNING \<and> d1 = d
    else (sp_running d1 \<longleftrightarrow> err = SCAN_DISPATCHER_OK))"
  using assms by (auto simp: ScanDispatcher_start_def ScanDispatcherWsServer_create_def ScanDispatcherWsServer_start_def
      Let_def split: if_splits)

lemma stop_running [simp]: "ScanDispatcher_stop (Some d) = Some (d\<lparr>sp_wsServer := None, sp_running := False\<rparr>)"
  by (simp add: ScanDispatcher_stop_def)

lemma append_entries:
  "appendScanEntry okGrow g i w = Some g' \<Longrightarrow> sg_entries g' = sg_entries g @ [(i, w)] \<and> sg_nextScanId g' = sg_nextScanId g"
  by (auto simp: appendScanEntry_def split: if_splits)

lemma add_cases:
  assumes "ScanOrchestrationRegistry_addAndMaybeStartDispatcher okGrow ws g (Some d) w = (err, g', d')"
  obtains (refused) d1 where "err \<noteq> SCAN_ORCHESTRATION_OK" "g' = g" "d' = Some d1" "sp_running d1 = sp_running d"
  | (added) d1 where "err = SCAN_ORCHESTRATION_OK" "sg_entries g' = sg_entries g @ [(sw_scanId w, w)]"
      "sg_nextScanId g' = sg_nextScanId g" "d' = Some d1" "if sg_entries g = [] then sp_running d1 \<and> \<not> sp_running d else d1 = d"
proof (cases "sg_entries g = []")
  case False
  with assms show thesis
    by (cases "appendScanEntry okGrow g (sw_scanId w) w")
      (auto simp: ScanOrchestrationRegistry_addAndMaybeStartDispatcher_def dest!: append_entries
        intro: refused added)
next
  case True
  obtain e d1 where st: "ScanDispatcher_start ws (Some d) = (e, Some d1)"
    using start_running by (cases "ScanDispatcher_start ws (Some d)") blast
  note run = start_running [OF st]
  show thesis
  proof (cases "e = SCAN_DISPATCHER_OK \<and> appendScanEntry okGrow g (sw_scanId w) w \<noteq> None")
    case ok: True
    then obtain g1 where "appendScanEntry okGrow g (sw_scanId w) w = Some g1" by auto
    with assms True st ok run show thesis
      by (intro added [of d1])
        (auto simp: ScanOrchestrationRegistry_addAndMaybeStartDispatcher_def append_entries split: if_splits)
  next
    case f: False
    have "\<exists>d2. err \<noteq> SCAN_ORCHESTRATION_OK \<and> g' = g \<and> d' = Some d2 \<and> sp_running d2 = sp_running d"
      using assms True st f run
      by (auto simp: ScanOrchestrationRegistry_addAndMaybeStartDispatcher_def split: if_splits option.splits)
    then show thesis using refused by blast
  qed
qed

lemma pending_remove1:
  "(w, em) \<in> set st \<Longrightarrow> pending_stops (remove1 (w, em) st) = pending_stops st - (if em then 1 else 0)"
  by (auto simp: pending_stops_def filter_remove1 length_remove1)

lemma pending_pos: "(w, True) \<in> set st \<Longrightarrow> 0 < pending_stops st"
  by (force simp: pending_stops_def filter_empty_conv)

lemma dispatcher_counted_step:
  assumes "scans_step s s'" and "dispatcher_counted s"
  shows "dispatcher_counted s'"
  using assms
proof cases
  case (take_id i g env rq err made)
  with assms(2) show ?thesis
    by (auto simp: dispatcher_counted_def dispatcher_running_def pending_stops_def ScanOrchestrationRegistry_nextScanId_def)
next
  case (add_draft w okGrow ws err g d)
  obtain d0 where d0: "so_scanDispatcher (ss_service s) = Some d0" using assms(2) by (auto simp: dispatcher_counted_def)
  from add_draft(3) [unfolded d0] show ?thesis
  proof (cases rule: add_cases)
    case (refused d1)
    with add_draft(1) d0 assms(2) show ?thesis
      by (simp add: dispatcher_counted_def dispatcher_running_def pending_stops_def)
  next
    case (added d1)
    with add_draft(1) d0 assms(2) show ?thesis
      by (auto simp: dispatcher_counted_def dispatcher_running_def pending_stops_def split: if_splits)
  qed
next
  case (take_out i g w nowEmpty)
  from remove_Some [OF take_out(2)] have "sg_entries (so_registry (ss_service s)) \<noteq> []"
    and "nowEmpty \<longleftrightarrow> sg_entries g = []" by (auto dest: arg_cong [of _ _ size])
  with take_out(1) assms(2) show ?thesis
    by (auto simp: dispatcher_counted_def dispatcher_running_def pending_stops_def)
next
  case (finish w nowEmpty)
  with assms(2) pending_remove1 [OF finish(2)] pending_pos [of w "ss_stopping s"] show ?thesis
    by (cases nowEmpty) (auto simp: dispatcher_counted_def dispatcher_running_def)
qed

definition scan_ids :: "scans_state \<Rightarrow> u64 list" where
  "scan_ids s = map sw_scanId (ss_drafts s @ map snd (sg_entries (so_registry (ss_service s))) @ map fst (ss_stopping s))"

definition scan_ids_ok :: "scans_state \<Rightarrow> bool" where
  "scan_ids_ok s \<longleftrightarrow> unat (sg_nextScanId (so_registry (ss_service s))) = Suc (ss_taken s)
     \<and> distinct (scan_ids s) \<and> (\<forall>i \<in> set (scan_ids s). 0 < unat i \<and> unat i \<le> ss_taken s)
     \<and> (\<forall>e \<in> set (sg_entries (so_registry (ss_service s))). fst e = sw_scanId (snd e))"

text \<open>The identifiers in use as a multiset.\<close>

definition ids_in_use :: "scans_state \<Rightarrow> u64 multiset" where
  "ids_in_use s = image_mset sw_scanId (mset (ss_drafts s) + image_mset snd (mset (sg_entries (so_registry (ss_service s))))
     + image_mset fst (mset (ss_stopping s)))"

lemma distinct_count_le: "distinct xs \<longleftrightarrow> (\<forall>i. count (mset xs) i \<le> 1)"
proof -
  have "count (mset xs) a = (if a \<in> set xs then 1 else 0) \<longleftrightarrow> count (mset xs) a \<le> 1" for a
  proof (cases "a \<in> set xs")
    case True
    then have "0 < count (mset xs) a" by (rule count_mset_gt_0)
    then show ?thesis by (simp only: True if_True) arith
  next
    case False
    then have "count (mset xs) a = 0" by (simp only: count_mset_0_iff not_False_eq_True)
    then show ?thesis using False by (metis zero_le)
  qed
  then show ?thesis unfolding distinct_count_atmost_1 by simp
qed

lemma scan_ids_ok_alt:
  "scan_ids_ok s \<longleftrightarrow> unat (sg_nextScanId (so_registry (ss_service s))) = Suc (ss_taken s)
     \<and> (\<forall>i. count (ids_in_use s) i \<le> 1) \<and> (\<forall>i \<in># ids_in_use s. 0 < unat i \<and> unat i \<le> ss_taken s)
     \<and> (\<forall>e \<in># mset (sg_entries (so_registry (ss_service s))). fst e = sw_scanId (snd e))"
proof -
  have "ids_in_use s = mset (scan_ids s)" by (simp add: ids_in_use_def scan_ids_def multiset.map_comp)
  moreover have "distinct (scan_ids s) \<longleftrightarrow> (\<forall>i. count (mset (scan_ids s)) i \<le> 1)"
    by (rule distinct_count_le)
  ultimately show ?thesis by (simp add: scan_ids_ok_def)
qed

lemma create_worker_id:
  "create_scan_worker env cfg i rq = (err, Some w) \<Longrightarrow> sw_scanId w = i"
  by (auto simp: create_scan_worker_def ScanOrchestrationWorker_create_def split: prod.splits option.splits list.splits if_splits)

lemma ids_ok_sub:
  assumes "scan_ids_ok s" and "ids_in_use s' \<subseteq># ids_in_use s" and "ss_taken s' = ss_taken s"
    and "sg_nextScanId (so_registry (ss_service s')) = sg_nextScanId (so_registry (ss_service s))"
    and "\<forall>e \<in># mset (sg_entries (so_registry (ss_service s'))). fst e = sw_scanId (snd e)"
  shows "scan_ids_ok s'"
proof -
  have "count (ids_in_use s') i \<le> 1" for i
    using assms(1) mset_subset_eq_count [OF assms(2), of i] unfolding scan_ids_ok_alt by (meson le_trans)
  moreover have "0 < unat i \<and> unat i \<le> ss_taken s" if "i \<in># ids_in_use s'" for i
    using assms(1) mset_subset_eqD [OF assms(2) that] unfolding scan_ids_ok_alt by blast
  ultimately show ?thesis using assms(1,3,4,5) unfolding scan_ids_ok_alt by simp
qed

lemma image_mset_remove1:
  "x \<in> set xs \<Longrightarrow> image_mset f (mset xs) = add_mset (f x) (image_mset f (mset (remove1 x xs)))"
proof -
  assume "x \<in> set xs"
  then have "mset xs = add_mset x (mset (remove1 x xs))" by simp
  then show ?thesis by (metis image_mset_add_mset)
qed

lemma scan_ids_step:
  assumes "scans_step s s'" and "scan_ids_ok s" and "dispatcher_counted s" and "Suc (ss_taken s') < 2 ^ 64"
  shows "scan_ids_ok s'"
  using assms(1)
proof cases
  case (take_id i g env rq err made)
  have i: "i = sg_nextScanId (so_registry (ss_service s))" "g = (so_registry (ss_service s))\<lparr>sg_nextScanId := i + 1\<rparr>"
    using take_id(2) by (auto simp: ScanOrchestrationRegistry_nextScanId_def)
  have u: "unat i = Suc (ss_taken s)" using assms(2) i by (simp add: scan_ids_ok_def)
  have ids: "ids_in_use s' = ids_in_use s \<or> ids_in_use s' = add_mset i (ids_in_use s)"
    using take_id(1,3) i create_worker_id by (auto simp: ids_in_use_def split: option.splits)
  have "i \<notin># ids_in_use s" using u assms(2) by (auto simp: scan_ids_ok_alt)
  then have "count (ids_in_use s') j \<le> 1" for j
    using ids assms(2) by (auto simp: scan_ids_ok_alt not_in_iff)
  moreover have "0 < unat j \<and> unat j \<le> Suc (ss_taken s)" if "j \<in># ids_in_use s'" for j
    using that ids assms(2) u by (auto simp: scan_ids_ok_alt le_SucI)
  moreover have "unat (i + 1) = Suc (Suc (ss_taken s))"
    using u assms(4) take_id(1) by (simp add: unat_word_ariths)
  ultimately show ?thesis
    using assms(2) take_id(1) i by (simp add: scan_ids_ok_alt)
next
  case (add_draft w okGrow ws err g d)
  obtain d0 where d0: "so_scanDispatcher (ss_service s) = Some d0" using assms(3) by (auto simp: dispatcher_counted_def)
  have w: "image_mset f (mset (ss_drafts s)) = add_mset (f w) (image_mset f (mset (remove1 w (ss_drafts s))))"
    for f :: "scan_worker \<Rightarrow> u64" using image_mset_remove1 [OF add_draft(2)] .
  from add_draft(3) [unfolded d0] show ?thesis
  proof (cases rule: add_cases)
    case (refused d1)
    with add_draft(1) assms(2) w show ?thesis
      by (intro ids_ok_sub [OF assms(2)]) (simp_all add: ids_in_use_def scan_ids_ok_alt)
  next
    case (added d1)
    with add_draft(1) assms(2) w show ?thesis
      by (intro ids_ok_sub [OF assms(2)]) (simp_all add: ids_in_use_def scan_ids_ok_alt)
  qed
next
  case (take_out i g w nowEmpty)
  from remove_Some [OF take_out(2)] have m: "mset (sg_entries (so_registry (ss_service s))) = add_mset (i, w) (mset (sg_entries g))"
    and n: "sg_nextScanId g = sg_nextScanId (so_registry (ss_service s))" by simp_all
  have "\<forall>e \<in># mset (sg_entries g). fst e = sw_scanId (snd e)"
    using assms(2) by (auto simp: scan_ids_ok_alt m)
  with take_out(1) m n show ?thesis
    by (intro ids_ok_sub [OF assms(2)]) (simp_all add: ids_in_use_def)
next
  case (finish w nowEmpty)
  have "image_mset fst (mset (ss_stopping s)) = add_mset w (image_mset fst (mset (remove1 (w, nowEmpty) (ss_stopping s))))"
    using image_mset_remove1 [OF finish(2), of fst] by simp
  with finish(1) assms(2) show ?thesis
    by (intro ids_ok_sub [OF assms(2)]) (simp_all add: ids_in_use_def scan_ids_ok_alt)
qed

lemma taken_mono: "scans_step s s' \<Longrightarrow> ss_taken s \<le> ss_taken s'"
  by (cases rule: scans_step.cases) auto

text \<open>C31. However the calls that start and stop scans interleave, the shared dispatcher runs exactly
  while a scan is registered or the stop of the last one is still to come, at most one such stop is
  pending, and no two scans ever hold one identifier, none of them 0 (as long as fewer than
  2^64 - 1 scans were asked for).\<close>

theorem scans_invariant:
  assumes "scans_reach s"
  shows "dispatcher_counted s \<and> (Suc (ss_taken s) < 2 ^ 64 \<longrightarrow> scan_ids_ok s)"
  using assms
proof induction
  case (created a b c d config err h)
  then show ?case
    by (auto simp: ScanOrchestration_create_def ScanDispatcher_create_def ScanOrchestrationRegistry_create_def Let_def
        dispatcher_counted_def dispatcher_running_def pending_stops_def scan_ids_ok_def scan_ids_def split: if_splits option.splits)
next
  case (stepped s s')
  then show ?case
    using dispatcher_counted_step scan_ids_step taken_mono by (meson Suc_le_mono le_less_trans)
qed

theorem scans_invariant_witness:
  "\<exists>s. scans_reach s \<and> length (sg_entries (so_registry (ss_service s))) = 1 \<and> dispatcher_counted s \<and> scan_ids_ok s"
proof -
  let ?rq = "\<lparr>sq_interfaceId = Some ''eth0'', sq_mmsPort = 102, sq_sweepIntervalMs = 0, sq_acseAuthPassword = None\<rparr>"
  let ?env = "\<lparr>sx_worker = (True, True, True, True, True), sx_grow = True, sx_ws = (True, True, True), sx_thread = True\<rparr>"
  obtain h where c: "ScanOrchestration_create True (True, True) True (True, True, True) None = (SCAN_ORCHESTRATION_OK, Some h)"
    and h: "so_registry h = \<lparr>sg_entries = [], sg_capacity = 0, sg_nextScanId = 1\<rparr>" "so_config h = ScanOrchestrationConfig_defaults"
      "\<exists>d r. so_scanDispatcher h = Some d \<and> \<not> sp_running d \<and> sp_ringBuffer d = Some r \<and> sd_maxConnections (sp_config d) = 16"
    by (auto simp: ScanOrchestration_create_def ScanOrchestrationRegistry_create_def ScanDispatcher_create_def Let_def
        ScanOrchestrationConfig_defaults_def ScanDispatcherConfig_defaults_def ScanDispatcherRingBuffer_create_def)
  let ?s0 = "\<lparr>ss_service = h, ss_drafts = [], ss_stopping = [], ss_taken = 0\<rparr>"
  have r0: "scans_reach ?s0" by (rule created [OF c])
  obtain w where w: "create_scan_worker ?env (so_config h) 1 ?rq = (SCAN_ORCHESTRATION_OK, Some w)"
    by (auto simp: create_scan_worker_def ScanOrchestrationWorker_create_def h ScanOrchestrationConfig_defaults_def
        IedDiscovery_create_def IedDiscoveryConfig_defaults_def SclBootstrap_create_def Let_def)
  let ?g1 = "(so_registry h)\<lparr>sg_nextScanId := 2\<rparr>"
  let ?s1 = "?s0\<lparr>ss_service := h\<lparr>so_registry := ?g1\<rparr>, ss_drafts := [w], ss_taken := 1\<rparr>"
  have "scans_step ?s0 ?s1"
    using take_id [where s = ?s0 and env = ?env and rq = ?rq and made = "Some w"] w h(1)
    by (simp add: ScanOrchestrationRegistry_nextScanId_def)
  with r0 have r1: "scans_reach ?s1" by (rule stepped)
  obtain d r where d: "so_scanDispatcher h = Some d" "\<not> sp_running d" "sp_ringBuffer d = Some r"
    "sd_maxConnections (sp_config d) = 16" using h(3) by auto
  let ?d2 = "d\<lparr>sp_wsServer := Some 0, sp_running := True\<rparr>"
  let ?g2 = "?g1\<lparr>sg_entries := [(sw_scanId w, w)], sg_capacity := 8\<rparr>"
  let ?s2 = "?s1\<lparr>ss_service := h\<lparr>so_registry := ?g2, so_scanDispatcher := Some ?d2\<rparr>, ss_drafts := []\<rparr>"
  have "ScanOrchestrationRegistry_addAndMaybeStartDispatcher True (True, True, True)
      ?g1 (Some d) w = (SCAN_ORCHESTRATION_OK, ?g2, Some ?d2)"
    using d h(1) by (simp add: ScanOrchestrationRegistry_addAndMaybeStartDispatcher_def ScanDispatcher_start_def
        ScanDispatcherWsServer_create_def ScanDispatcherWsServer_start_def appendScanEntry_def)
  then have "scans_step ?s1 ?s2"
    using add_draft [where s = ?s1 and w = w and okGrow = True and ws = "(True, True, True)"] d
    by simp
  with r1 have "scans_reach ?s2" by (rule stepped)
  from scans_invariant [OF this] this show ?thesis by (intro exI [of _ ?s2]) simp
qed

text \<open>While the last scan is being stopped no scan can be started, whatever the websocket server answers.\<close>

lemma start_refused_while_last_stops:
  assumes "dispatcher_counted s" and "0 < pending_stops (ss_stopping s)"
  shows "fst (ScanOrchestrationRegistry_addAndMaybeStartDispatcher okGrow ws (so_registry (ss_service s))
    (so_scanDispatcher (ss_service s)) w) = SCAN_ORCHESTRATION_ERR_DISPATCHER_START_FAILED"
proof -
  obtain d where "so_scanDispatcher (ss_service s) = Some d" "sp_running d" "sg_entries (so_registry (ss_service s)) = []"
    using assms by (auto simp: dispatcher_counted_def dispatcher_running_def)
  then show ?thesis
    by (simp add: ScanOrchestrationRegistry_addAndMaybeStartDispatcher_def ScanDispatcher_start_def)
qed

section \<open>One caller at a time\<close>

text \<open>Between calls of one thread: no scan is half started or half stopped.\<close>

definition scans_quiet :: "scan_orchestration \<Rightarrow> bool" where
  "scans_quiet h \<longleftrightarrow> so_scanDispatcher h \<noteq> None
     \<and> (dispatcher_running h \<longleftrightarrow> sg_entries (so_registry h) \<noteq> [])
     \<and> (\<forall>e \<in> set (sg_entries (so_registry h)). fst e = sw_scanId (snd e) \<and> 0 < unat (fst e)
          \<and> unat (fst e) < unat (sg_nextScanId (so_registry h)))"

lemma remove_appended:
  assumes "scanId \<notin> fst ` set es" and "sg_entries g = es @ [(scanId, w)]"
  shows "ScanOrchestrationRegistry_remove g scanId = (g\<lparr>sg_entries := es\<rparr>, Some (w, es = []))"
proof -
  have "find_scan scanId (es @ [(scanId, w)]) = Some (length es)"
    using assms(1) by (induction es) force+
  then show ?thesis using assms(2)
    by (simp add: ScanOrchestrationRegistry_remove_def Let_def)
qed

definition scan_started ::
    "scan_orchestration \<Rightarrow> ScanOrchestrationError \<times> u64 option \<times> scan_orchestration \<times> scan_worker list \<Rightarrow> bool" where
  "scan_started h r = (case r of (err, outId, h', destroyed) \<Rightarrow>
     if err = SCAN_ORCHESTRATION_OK then destroyed = [] \<and> outId = Some (sg_nextScanId (so_registry h))
       \<and> (\<exists>w. sw_scanId w = sg_nextScanId (so_registry h)
            \<and> sg_entries (so_registry h') = sg_entries (so_registry h) @ [(sg_nextScanId (so_registry h), w)])
     else outId = None \<and> sg_entries (so_registry h') = sg_entries (so_registry h))"

lemma startScan_exact:
  assumes q: "scans_quiet h" and n: "unat (sg_nextScanId (so_registry h)) + 1 < 2 ^ 64" "0 < unat (sg_nextScanId (so_registry h))"
    and r: "ScanOrchestration_startScan env h (Some rq) = (err, i, h', ws)"
  shows "scans_quiet h' \<and> scan_started h (err, i, h', ws)"
proof -
  define g0 where "g0 = (so_registry h)\<lparr>sg_nextScanId := sg_nextScanId (so_registry h) + 1\<rparr>"
  define nid where "nid = sg_nextScanId (so_registry h)"
  have nx: "ScanOrchestrationRegistry_nextScanId (so_registry h) = (nid, g0)"
    by (simp add: ScanOrchestrationRegistry_nextScanId_def g0_def nid_def)
  have un: "unat (nid + 1) = unat nid + 1" using n(1) by (simp add: unat_word_ariths nid_def)
  obtain d where d: "so_scanDispatcher h = Some d" using q by (auto simp: scans_quiet_def)
  have ids: "fst e = sw_scanId (snd e) \<and> 0 < unat (fst e) \<and> unat (fst e) < unat (nid + 1)"
    if "e \<in> set (sg_entries (so_registry h))" for e
    using q that un by (force simp: scans_quiet_def nid_def)
  have fresh: "nid \<notin> fst ` set (sg_entries (so_registry h))" using q by (auto simp: scans_quiet_def nid_def)
  obtain e made where w: "create_scan_worker env (so_config h) nid rq = (e, made)" by fastforce
  show ?thesis
  proof (cases made)
    case None
    moreover have "e \<noteq> SCAN_ORCHESTRATION_OK"
      using w None by (auto simp: create_scan_worker_def ScanOrchestrationWorker_create_def
          split: prod.splits option.splits list.splits if_splits)
    ultimately show ?thesis
      using r nx w q ids d
      by (auto simp: ScanOrchestration_startScan_def scan_started_def scans_quiet_def dispatcher_running_def g0_def nid_def)
  next
    case (Some wk)
    have wid: "sw_scanId wk = nid" using create_worker_id w Some by blast
    obtain e2 g1 d1 where add: "ScanOrchestrationRegistry_addAndMaybeStartDispatcher (sx_grow env) (sx_ws env) g0 (Some d) wk
      = (e2, g1, d1)" by (metis prod_cases3)
    from add show ?thesis
    proof (cases rule: add_cases)
      case (refused d2)
      with r nx w Some add d q ids show ?thesis
        by (auto simp: ScanOrchestration_startScan_def scan_started_def scans_quiet_def dispatcher_running_def g0_def nid_def)
    next
      case (added d2)
      let ?es = "sg_entries (so_registry h)"
      have es: "sg_entries g1 = ?es @ [(nid, wk)]" "sg_nextScanId g1 = nid + 1"
        using added wid by (simp_all add: g0_def nid_def)
      note rem = remove_appended [OF fresh es(1)]
      have run: "sp_running d2" using added(5) q d by (auto simp: scans_quiet_def dispatcher_running_def g0_def split: if_splits)
      show ?thesis
      proof (cases "sx_thread env")
        case True
        with r nx w Some add d added have "err = SCAN_ORCHESTRATION_OK" "i = Some nid" "ws = []"
          "h' = h\<lparr>so_registry := g1, so_scanDispatcher := Some d2\<rparr>"
          by (simp_all add: ScanOrchestration_startScan_def Let_def)
        with es ids wid run n(2) un show ?thesis
          by (auto simp: scan_started_def scans_quiet_def dispatcher_running_def nid_def)
      next
        case False
        with r nx w Some add d added rem have "err = SCAN_ORCHESTRATION_ERR_THREAD_CREATE_FAILED" "i = None"
          "h' = h\<lparr>so_registry := g1\<lparr>sg_entries := ?es\<rparr>, so_scanDispatcher := (if ?es = [] then ScanDispatcher_stop (Some d2) else Some d2)\<rparr>"
          by (auto simp: ScanOrchestration_startScan_def Let_def)
        with es ids run show ?thesis
          by (auto simp: scan_started_def scans_quiet_def dispatcher_running_def)
      qed
    qed
  qed
qed

lemma stopScan_quiet:
  assumes q: "scans_quiet h" and st: "ScanOrchestration_stopScan h i = (err, h1, w1)"
  shows "scans_quiet h1 \<and> map_option sp_ringBuffer (so_scanDispatcher h1) = map_option sp_ringBuffer (so_scanDispatcher h)"
proof -
  obtain d where d: "so_scanDispatcher h = Some d" using q by (auto simp: scans_quiet_def)
  show ?thesis
  proof (cases "snd (ScanOrchestrationRegistry_remove (so_registry h) i)")
    case None
    with st q show ?thesis
      by (cases "ScanOrchestrationRegistry_remove (so_registry h) i") (auto simp: ScanOrchestration_stopScan_def)
  next
    case (Some r)
    then obtain g w em where rem: "ScanOrchestrationRegistry_remove (so_registry h) i = (g, Some (w, em))"
      by (metis prod.collapse)
    from remove_Some [OF rem] have m: "add_mset (i, w) (mset (sg_entries g)) = mset (sg_entries (so_registry h))"
      and e: "em \<longleftrightarrow> sg_entries g = []" and n: "sg_nextScanId g = sg_nextScanId (so_registry h)" by simp_all
    have sub: "set (sg_entries g) \<subseteq> set (sg_entries (so_registry h))"
      unfolding set_mset_mset [symmetric] m [symmetric] by auto
    have ne: "sg_entries (so_registry h) \<noteq> []" using m by auto
    have "h1 = h\<lparr>so_registry := g, so_scanDispatcher := (if em then ScanDispatcher_stop (Some d) else Some d)\<rparr>"
      using st rem d by (auto simp: ScanOrchestration_stopScan_def)
    with q d e n sub ne show ?thesis
      by (auto simp: scans_quiet_def dispatcher_running_def)
  qed
qed

lemma stop_all_workers:
  assumes "scans_quiet h" and "stop_all_scans h = (ws, h')"
  shows "sg_entries (so_registry h') = [] \<and> mset ws = mset (map snd (sg_entries (so_registry h)))
    \<and> map_option sp_ringBuffer (so_scanDispatcher h') = map_option sp_ringBuffer (so_scanDispatcher h)
    \<and> \<not> dispatcher_running h'"
  using assms
proof (induction h arbitrary: ws rule: stop_all_scans.induct)
  case (1 h)
  let ?i = "ScanOrchestrationRegistry_anyActiveScanId (so_registry h)"
  show ?case
  proof (cases "?i = 0")
    case True
    then have "sg_entries (so_registry h) = []"
      using 1(2) by (cases "sg_entries (so_registry h)")
        (auto simp: scans_quiet_def ScanOrchestrationRegistry_anyActiveScanId_def)
    with True 1(2,3) show ?thesis
      by (auto simp: scans_quiet_def stop_all_scans.simps [of h])
  next
    case False
    obtain err h1 w1 where st: "ScanOrchestration_stopScan h ?i = (err, h1, w1)" by (metis prod_cases3)
    obtain ws2 h2 where rest: "stop_all_scans h1 = (ws2, h2)" by fastforce
    have out: "ws = w1 @ ws2" "h' = h2"
      using 1(3) False st rest by (simp_all add: stop_all_scans.simps [of h] Let_def)
    note rm = stopScan_removes [OF st False]
    note q = stopScan_quiet [OF 1(2) st]
    from 1(1) [OF refl False st [symmetric] refl conjunct1 [OF q]] rest rm out q show ?thesis by (auto simp: add.commute)
  qed
qed

text \<open>C33. Starting a scan is all or nothing. On success the scan is registered under a new identifier
  with the dispatcher running; after any failure (a bad request, no memory, a dispatcher that does not
  bind, a thread that does not start) the registered scans are the ones there were, and the dispatcher
  runs only if one of them needs it.\<close>

theorem start_scan_all_or_nothing:
  assumes "scans_quiet h" and "0 < unat (sg_nextScanId (so_registry h))" and "unat (sg_nextScanId (so_registry h)) + 1 < 2 ^ 64"
  shows "scans_quiet (fst (snd (snd (ScanOrchestration_startScan env h (Some rq)))))
    \<and> scan_started h (ScanOrchestration_startScan env h (Some rq))"
  by (cases "ScanOrchestration_startScan env h (Some rq)") (use startScan_exact [OF assms(1,3,2)] in auto)

definition service_with :: "(u64 \<times> scan_worker) list \<Rightarrow> bool \<Rightarrow> scan_orchestration" where
  "service_with es run = \<lparr>so_config = ScanOrchestrationConfig_defaults,
     so_registry = \<lparr>sg_entries = es, sg_capacity = 8, sg_nextScanId = 5\<rparr>,
     so_scanDispatcher = Some \<lparr>sp_config = ScanDispatcherConfig_defaults,
       sp_ringBuffer = Some \<lparr>scan_slots = [Some ''a'', None], scan_capacity = 2, scan_head = 1\<rparr>,
       sp_wsServer = (if run then Some 1 else None), sp_running = run\<rparr>\<rparr>"

theorem start_scan_all_or_nothing_witness:
  "scan_started (service_with [] False)
     (ScanOrchestration_startScan \<lparr>sx_worker = (True, True, True, True, True), sx_grow = True,
        sx_ws = (True, True, True), sx_thread = False\<rparr> (service_with [] False)
       (Some \<lparr>sq_interfaceId = Some ''eth0'', sq_mmsPort = 102, sq_sweepIntervalMs = 0, sq_acseAuthPassword = None\<rparr>))"
proof -
  have "scans_quiet (service_with [] False)"
    by (simp add: scans_quiet_def service_with_def dispatcher_running_def)
  from start_scan_all_or_nothing [OF this] show ?thesis by (simp add: service_with_def)
qed

text \<open>Destroying the service ends: every scan is stopped, each worker is destroyed exactly once,
  and every text still in the ring is freed.\<close>

theorem destroy_stops_every_scan:
  assumes "scans_quiet h"
  shows "mset (fst (ScanOrchestration_destroy (Some h))) = mset (map snd (sg_entries (so_registry h)))
    \<and> snd (ScanOrchestration_destroy (Some h)) = ScanDispatcher_destroy (so_scanDispatcher h)"
proof -
  obtain ws h' where s: "stop_all_scans h = (ws, h')" by fastforce
  note r = stop_all_workers [OF assms s]
  then have "ScanDispatcher_destroy (so_scanDispatcher h') = ScanDispatcher_destroy (so_scanDispatcher h)"
    by (cases "so_scanDispatcher h'"; cases "so_scanDispatcher h") (auto simp: ScanDispatcher_destroy_def)
  with r s show ?thesis by (simp add: ScanOrchestration_destroy_def)
qed

definition demo_worker :: "u64 \<Rightarrow> scan_worker" where
  "demo_worker i = \<lparr>sw_scanId = i, sw_interfaceId = ''eth0'', sw_mmsPort = 102, sw_sweepIntervalMs = 100,
     sw_discoveryHandle = undefined, sw_seenHosts = [], sw_seenCapacity = 0, sw_reads = 0, sw_announced = []\<rparr>"

theorem destroy_stops_every_scan_witness:
  "mset (fst (ScanOrchestration_destroy (Some (service_with [(3, demo_worker 3), (4, demo_worker 4)] True))))
     = {#demo_worker 3, demo_worker 4#}
   \<and> snd (ScanOrchestration_destroy (Some (service_with [(3, demo_worker 3), (4, demo_worker 4)] True))) = [''a'']"
proof -
  have "scans_quiet (service_with [(3, demo_worker 3), (4, demo_worker 4)] True)"
    by (simp add: scans_quiet_def service_with_def dispatcher_running_def demo_worker_def)
  from destroy_stops_every_scan [OF this] show ?thesis
    by (simp add: service_with_def ScanDispatcher_destroy_def ring_simps map_filter_simps)
qed

end
