(* ===== verification/Control_Process.thy ===== *)
theory Control_Process
  imports Control_Request Orchestration_Utils Scan_Orchestration
begin

text \<open>
  \<open>control_dispatcher/domain/control_dispatcher_usecases.c\<close> and
  \<open>data/control_dispatcher_json_writer.c\<close>: carrying out a request with the device manager and the
  scan service, and the answer to it. cJSON's printer is the argument \<open>prn\<close>; of cJSON's
  allocations that of the root may fail.
\<close>

section \<open>Answers\<close>

definition newEnvelope :: "string option \<Rightarrow> string option \<Rightarrow> bool \<Rightarrow> (string \<times> json) list" where
  "newEnvelope requestId action success =
     [(''schemaVersion'', JUint64 1), (''requestId'', jstr requestId), (''action'', jstr action), (''success'', JBool success)]"

definition ControlDispatcherJsonWriter_writeStartSuccess ::
    "string option \<Rightarrow> u64 \<Rightarrow> u16 \<Rightarrow> bool \<Rightarrow> bool \<Rightarrow> json" where
  "ControlDispatcherJsonWriter_writeStartSuccess requestId deviceId wsPort mmsAvailable gooseAvailable =
     JObject (newEnvelope requestId (Some ''START_REPORTING'') True
       @ [(''result'', JObject [(''deviceId'', JUint64 deviceId), (''wsPort'', JUint64 (ucast wsPort)),
            (''mmsAvailable'', JBool mmsAvailable), (''gooseAvailable'', JBool gooseAvailable)]), (''error'', JNull)])"

definition ControlDispatcherJsonWriter_writeStopSuccess :: "string option \<Rightarrow> u64 \<Rightarrow> json" where
  "ControlDispatcherJsonWriter_writeStopSuccess requestId deviceId =
     JObject (newEnvelope requestId (Some ''STOP_REPORTING'') True
       @ [(''result'', JObject [(''deviceId'', JUint64 deviceId)]), (''error'', JNull)])"

definition ControlDispatcherJsonWriter_writeScanStartSuccess :: "string option \<Rightarrow> u64 \<Rightarrow> json" where
  "ControlDispatcherJsonWriter_writeScanStartSuccess requestId scanId =
     JObject (newEnvelope requestId (Some ''START_SCAN'') True
       @ [(''result'', JObject [(''scanId'', JUint64 scanId)]), (''error'', JNull)])"

definition ControlDispatcherJsonWriter_writeScanStopSuccess :: "string option \<Rightarrow> u64 \<Rightarrow> json" where
  "ControlDispatcherJsonWriter_writeScanStopSuccess requestId scanId =
     JObject (newEnvelope requestId (Some ''STOP_SCAN'') True
       @ [(''result'', JObject [(''scanId'', JUint64 scanId)]), (''error'', JNull)])"

definition ControlDispatcherJsonWriter_writeError ::
    "string option \<Rightarrow> string option \<Rightarrow> string option \<Rightarrow> string option \<Rightarrow> string option \<Rightarrow> string option \<Rightarrow> json" where
  "ControlDispatcherJsonWriter_writeError requestId action errorCode message stage detail =
     JObject (newEnvelope requestId action False
       @ [(''result'', JNull),
          (''error'', JObject ([(''code'', JString (case errorCode of None \<Rightarrow> ''UNKNOWN_ERROR'' | Some c \<Rightarrow> c)),
             (''message'', JString (case message of None \<Rightarrow> '''' | Some m \<Rightarrow> m))]
             @ (case stage of None \<Rightarrow> [] | Some t \<Rightarrow> [(''stage'', JString t)])
             @ (case detail of None \<Rightarrow> [] | Some t \<Rightarrow> [(''detail'', JString t)])))])"

section \<open>The texts of the errors\<close>

definition deviceManagerErrorToCode :: "DeviceManagerError \<Rightarrow> string" where
  "deviceManagerErrorToCode err =
     (case err of
        DEVICE_MANAGER_OK \<Rightarrow> ''OK''
      | DEVICE_MANAGER_ERR_INVALID_ARGUMENT \<Rightarrow> ''INVALID_ARGUMENT''
      | DEVICE_MANAGER_ERR_OUT_OF_MEMORY \<Rightarrow> ''OUT_OF_MEMORY''
      | DEVICE_MANAGER_ERR_PORT_EXHAUSTED \<Rightarrow> ''PORT_EXHAUSTED''
      | DEVICE_MANAGER_ERR_HOST_ALREADY_RUNNING \<Rightarrow> ''HOST_ALREADY_RUNNING''
      | DEVICE_MANAGER_ERR_ORCHESTRATION_FAILED \<Rightarrow> ''ORCHESTRATION_FAILED''
      | DEVICE_MANAGER_ERR_DEVICE_NOT_FOUND \<Rightarrow> ''DEVICE_NOT_FOUND''
      | DEVICE_MANAGER_ERR_START_IN_PROGRESS \<Rightarrow> ''START_IN_PROGRESS'')"

definition deviceManagerErrorToMessage :: "DeviceManagerError \<Rightarrow> string" where
  "deviceManagerErrorToMessage err =
     (case err of
        DEVICE_MANAGER_ERR_INVALID_ARGUMENT \<Rightarrow> ''invalid argument''
      | DEVICE_MANAGER_ERR_OUT_OF_MEMORY \<Rightarrow> ''out of memory''
      | DEVICE_MANAGER_ERR_PORT_EXHAUSTED \<Rightarrow> ''no free websocket port left in the configured range''
      | DEVICE_MANAGER_ERR_HOST_ALREADY_RUNNING \<Rightarrow> ''this host/mmsPort is already running or starting''
      | DEVICE_MANAGER_ERR_ORCHESTRATION_FAILED \<Rightarrow> ''orchestration failed''
      | DEVICE_MANAGER_ERR_DEVICE_NOT_FOUND \<Rightarrow> ''unknown or already-stopped deviceId''
      | DEVICE_MANAGER_ERR_START_IN_PROGRESS \<Rightarrow> ''device is still starting on another request - retry shortly''
      | _ \<Rightarrow> ''unknown device_manager error'')"

definition scanOrchestrationErrorToCode :: "ScanOrchestrationError \<Rightarrow> string" where
  "scanOrchestrationErrorToCode err =
     (case err of
        SCAN_ORCHESTRATION_OK \<Rightarrow> ''OK''
      | SCAN_ORCHESTRATION_ERR_INVALID_ARGUMENT \<Rightarrow> ''INVALID_ARGUMENT''
      | SCAN_ORCHESTRATION_ERR_OUT_OF_MEMORY \<Rightarrow> ''OUT_OF_MEMORY''
      | SCAN_ORCHESTRATION_ERR_DISPATCHER_START_FAILED \<Rightarrow> ''DISPATCHER_START_FAILED''
      | SCAN_ORCHESTRATION_ERR_THREAD_CREATE_FAILED \<Rightarrow> ''THREAD_CREATE_FAILED''
      | SCAN_ORCHESTRATION_ERR_DISCOVERY_CREATE_FAILED \<Rightarrow> ''DISCOVERY_CREATE_FAILED''
      | SCAN_ORCHESTRATION_ERR_SCAN_NOT_FOUND \<Rightarrow> ''SCAN_NOT_FOUND'')"

definition scanOrchestrationErrorToMessage :: "ScanOrchestrationError \<Rightarrow> string" where
  "scanOrchestrationErrorToMessage err =
     (case err of
        SCAN_ORCHESTRATION_ERR_INVALID_ARGUMENT \<Rightarrow> ''invalid argument (check interfaceId/mmsPort)''
      | SCAN_ORCHESTRATION_ERR_OUT_OF_MEMORY \<Rightarrow> ''out of memory''
      | SCAN_ORCHESTRATION_ERR_DISPATCHER_START_FAILED \<Rightarrow> ''scan_dispatcher websocket failed to bind''
      | SCAN_ORCHESTRATION_ERR_THREAD_CREATE_FAILED \<Rightarrow> ''failed to start the scan's worker thread''
      | SCAN_ORCHESTRATION_ERR_DISCOVERY_CREATE_FAILED \<Rightarrow> ''failed to create the underlying discovery handle''
      | SCAN_ORCHESTRATION_ERR_SCAN_NOT_FOUND \<Rightarrow> ''unknown or already-stopped scanId''
      | _ \<Rightarrow> ''unknown scan_orchestration error'')"

section \<open>Carrying out a request\<close>

record DeviceManagerErrorDetail =
  dd_stage :: OrchestrationStage
  dd_lastCandidateStatus :: SclBootstrapCandidateStatus

definition buildStartResponse ::
    "string option \<Rightarrow> DeviceManagerError \<Rightarrow> u64 \<Rightarrow> u16 \<Rightarrow> DeviceManagerErrorDetail \<Rightarrow> bool \<Rightarrow> bool \<Rightarrow> json" where
  "buildStartResponse requestId err deviceId wsPort detail mmsAvailable gooseAvailable =
     (if err = DEVICE_MANAGER_OK then
        ControlDispatcherJsonWriter_writeStartSuccess requestId deviceId wsPort mmsAvailable gooseAvailable
      else
        let failed = (err = DEVICE_MANAGER_ERR_ORCHESTRATION_FAILED);
            stage = (if failed then Some (OrchestrationUtils_stageToString (dd_stage detail)) else None);
            detailStr = (if failed \<and> dd_stage detail = ORCHESTRATION_STAGE_BOOTSTRAP
              then Some (OrchestrationUtils_candidateStatusToString (dd_lastCandidateStatus detail)) else None)
        in ControlDispatcherJsonWriter_writeError requestId (Some ''START_REPORTING'')
             (Some (deviceManagerErrorToCode err)) (Some (deviceManagerErrorToMessage err)) stage detailStr)"

definition buildStopResponse :: "string option \<Rightarrow> DeviceManagerError \<Rightarrow> u64 \<Rightarrow> json" where
  "buildStopResponse requestId err deviceId =
     (if err = DEVICE_MANAGER_OK then ControlDispatcherJsonWriter_writeStopSuccess requestId deviceId
      else ControlDispatcherJsonWriter_writeError requestId (Some ''STOP_REPORTING'')
             (Some (deviceManagerErrorToCode err)) (Some (deviceManagerErrorToMessage err)) None None)"

definition buildScanStartResponse :: "string option \<Rightarrow> ScanOrchestrationError \<Rightarrow> u64 \<Rightarrow> json" where
  "buildScanStartResponse requestId err scanId =
     (if err = SCAN_ORCHESTRATION_OK then ControlDispatcherJsonWriter_writeScanStartSuccess requestId scanId
      else ControlDispatcherJsonWriter_writeError requestId (Some ''START_SCAN'')
             (Some (scanOrchestrationErrorToCode err)) (Some (scanOrchestrationErrorToMessage err)) None None)"

definition buildScanStopResponse :: "string option \<Rightarrow> ScanOrchestrationError \<Rightarrow> u64 \<Rightarrow> json" where
  "buildScanStopResponse requestId err scanId =
     (if err = SCAN_ORCHESTRATION_OK then ControlDispatcherJsonWriter_writeScanStopSuccess requestId scanId
      else ControlDispatcherJsonWriter_writeError requestId (Some ''STOP_SCAN'')
             (Some (scanOrchestrationErrorToCode err)) (Some (scanOrchestrationErrorToMessage err)) None None)"

text \<open>
  What the environment answers while a request is carried out: the orchestration services, the
  allocations of the device manager and of the scan service, what else the registry of devices sees
  during the slow part of a call, and what the manager reports beside its error.
\<close>

record 'h control_env =
  ce_services :: "'h orch_services"
  ce_start :: "bool \<times> bool \<times> bool \<times> bool"
  ce_mid :: "'h dev_registry \<Rightarrow> 'h dev_registry"
  ce_free :: bool
  ce_detail :: DeviceManagerErrorDetail
  ce_mmsAvailable :: bool
  ce_gooseAvailable :: bool
  ce_scan :: start_env

record 'h control_backend =
  cb_deviceManager :: "'h dev_registry option"
  cb_scanOrchestration :: scan_orchestration

definition start_request_of :: "ControlRequest \<Rightarrow> start_request" where
  "start_request_of q = \<lparr>sr_host = cq_host q, sr_mmsPort = cq_mmsPort q, sr_iedName = cq_iedName q,
     sr_interfaceId = cq_interfaceId q, sr_sclFilePath = cq_sclFilePath q, sr_acseAuthPassword = cq_acseAuthPassword q,
     sr_accessMode = cq_accessMode q, sr_lnCategoryFilter = cq_lnCategoryFilter q\<rparr>"

text \<open>The answer, before it is printed, and the services after the call.\<close>

definition ControlDispatcherUseCases_processRequest ::
    "'h control_env \<Rightarrow> ControlRequest \<Rightarrow> 'h control_backend \<Rightarrow> json \<times> 'h control_backend" where
  "ControlDispatcherUseCases_processRequest env q b =
     (case cq_type q of
        CONTROL_REQ_START_REPORTING \<Rightarrow>
          (case DeviceManager_startReporting (ce_services env) (ce_start env) (ce_mid env) (cb_deviceManager b) (start_request_of q) of
             (err, out, _, dm) \<Rightarrow>
               let (deviceId, wsPort) = (case out of None \<Rightarrow> (0, 0) | Some x \<Rightarrow> x)
               in (buildStartResponse (cq_requestId q) err deviceId wsPort (ce_detail env) (ce_mmsAvailable env) (ce_gooseAvailable env),
                   b\<lparr>cb_deviceManager := dm\<rparr>))
      | CONTROL_REQ_STOP_REPORTING \<Rightarrow>
          if cq_host q \<noteq> None then
            (case DeviceManager_stopReportingByAddress (ce_free env) (ce_mid env) (cb_deviceManager b) (cq_host q) (cq_mmsPort q) of
               (err, resolved, dm, _) \<Rightarrow>
                 (buildStopResponse (cq_requestId q) err (case resolved of None \<Rightarrow> 0 | Some i \<Rightarrow> i), b\<lparr>cb_deviceManager := dm\<rparr>))
          else
            (case DeviceManager_stopReporting (ce_free env) (ce_mid env) (cb_deviceManager b) (cq_deviceId q) of
               (err, dm, _) \<Rightarrow> (buildStopResponse (cq_requestId q) err (cq_deviceId q), b\<lparr>cb_deviceManager := dm\<rparr>))
      | CONTROL_REQ_START_SCAN \<Rightarrow>
          (case ScanOrchestration_startScan (ce_scan env) (cb_scanOrchestration b)
                  (Some \<lparr>sq_interfaceId = cq_interfaceId q, sq_mmsPort = cq_mmsPort q,
                         sq_sweepIntervalMs = cq_sweepIntervalMs q, sq_acseAuthPassword = None\<rparr>) of
             (err, out, so, _) \<Rightarrow>
               (buildScanStartResponse (cq_requestId q) err (case out of None \<Rightarrow> 0 | Some i \<Rightarrow> i), b\<lparr>cb_scanOrchestration := so\<rparr>))
      | CONTROL_REQ_STOP_SCAN \<Rightarrow>
          (case ScanOrchestration_stopScan (cb_scanOrchestration b) (cq_scanId q) of
             (err, so, _) \<Rightarrow> (buildScanStopResponse (cq_requestId q) err (cq_scanId q), b\<lparr>cb_scanOrchestration := so\<rparr>)))"

section \<open>Reading an answer\<close>

fun jfield :: "json \<Rightarrow> string \<Rightarrow> json option" where
  "jfield (JObject members) k = map_of members k"
| "jfield _ k = None"

definition answer_success :: "json \<Rightarrow> bool" where
  "answer_success j \<longleftrightarrow> jfield j ''success'' = Some (JBool True)"

definition answer_device :: "json \<Rightarrow> u64 option" where
  "answer_device j = (case jfield j ''result'' of None \<Rightarrow> None
     | Some r \<Rightarrow> (case jfield r ''deviceId'' of Some (JUint64 d) \<Rightarrow> Some d | _ \<Rightarrow> None))"

lemmas answer_defs = newEnvelope_def ControlDispatcherJsonWriter_writeStartSuccess_def
  ControlDispatcherJsonWriter_writeStopSuccess_def ControlDispatcherJsonWriter_writeScanStartSuccess_def
  ControlDispatcherJsonWriter_writeScanStopSuccess_def ControlDispatcherJsonWriter_writeError_def
  buildStartResponse_def buildStopResponse_def buildScanStartResponse_def buildScanStopResponse_def

lemma start_answer:
  "answer_success (buildStartResponse i err d p det m g) \<longleftrightarrow> err = DEVICE_MANAGER_OK"
  "answer_device (buildStartResponse i DEVICE_MANAGER_OK d p det m g) = Some d"
  by (auto simp: answer_defs answer_success_def answer_device_def Let_def)

lemma stop_answer:
  "answer_success (buildStopResponse i err d) \<longleftrightarrow> err = DEVICE_MANAGER_OK"
  by (auto simp: answer_defs answer_success_def)

lemma answer_names:
  "jfield (fst (ControlDispatcherUseCases_processRequest env q b)) ''requestId'' = Some (jstr (cq_requestId q))
   \<and> jfield (fst (ControlDispatcherUseCases_processRequest env q b)) ''action'' = Some (JString (type_name (cq_type q)))"
  by (cases "cq_type q")
    (auto simp: ControlDispatcherUseCases_processRequest_def answer_defs Let_def jstr_def type_name_def
      split: prod.splits option.splits)

text \<open>Whatever the services answer and whatever becomes of the request, its answer carries the
  identifier of the request and the name of its action, so that a client can match the two.\<close>

theorem answer_names_request:
  "jfield (fst (ControlDispatcherUseCases_processRequest env q b)) ''requestId'' = Some (jstr (cq_requestId q))
   \<and> jfield (fst (ControlDispatcherUseCases_processRequest env q b)) ''action'' = Some (JString (type_name (cq_type q)))"
  by (rule answer_names)

lemma start_success:
  assumes "cq_type q = CONTROL_REQ_START_REPORTING" and "cb_deviceManager b = Some reg" and "ce_mid env = id"
    and "ControlDispatcherUseCases_processRequest env q b = (j, b1)" and "answer_success j"
  obtains d p oe reg1 where "DeviceManager_startReporting (ce_services env) (ce_start env) id (Some reg) (start_request_of q)
      = (DEVICE_MANAGER_OK, Some (d, p), oe, Some reg1)" and "answer_device j = Some d" and "cb_deviceManager b1 = Some reg1"
proof -
  obtain err out oe dm where st: "DeviceManager_startReporting (ce_services env) (ce_start env) id (Some reg) (start_request_of q)
      = (err, out, oe, dm)" by (metis prod_cases4)
  from assms st have ok: "err = DEVICE_MANAGER_OK"
    by (auto simp: ControlDispatcherUseCases_processRequest_def start_answer split: prod.splits)
  obtain o1 o2 o3 o4 where o: "ce_start env = (o1, o2, o3, o4)" by (metis prod_cases4)
  have "\<exists>d p reg1. out = Some (d, p) \<and> dm = Some reg1"
    using st unfolding o
  proof (cases rule: startReporting_cases)
    case (refused host pw reg1)
    with ok show ?thesis
      by (auto simp: DeviceManagerRegistry_reserve_def Let_def split: if_splits option.splits prod.splits)
  qed (use ok in auto)
  then obtain d p reg1 where "out = Some (d, p)" "dm = Some reg1" by blast
  with assms st ok show thesis
    by (intro that) (auto simp: ControlDispatcherUseCases_processRequest_def start_answer)
qed



end
