(* ===== verification/Control_Ring_Buffer.thy ===== *)
theory Control_Ring_Buffer
  imports Ring_Spec
begin

text \<open>
  \<open>features/control_dispatcher/data/control_dispatcher_ring_buffer.c\<close>: the ring of
  serialised control responses. As with the scan ring, the source duplicates the code and
  the model duplicates the definitions; the shared interfaces are proved for this copy too.
\<close>

record ctl_ring =
  ctl_slots :: "string option list"
  ctl_capacity :: int
  ctl_head :: u64

text \<open>The three allocations (ring, slot array, semaphore) are the Boolean arguments.\<close>

definition ControlDispatcherRingBuffer_create :: "bool \<Rightarrow> bool \<Rightarrow> bool \<Rightarrow> int \<Rightarrow> ctl_ring option" where
  "ControlDispatcherRingBuffer_create okRing okSlots okLock capacity =
     (if capacity \<le> 0 then None
      else if \<not> okRing then None
      else if \<not> okSlots then None
      else if \<not> okLock then None
      else Some \<lparr>ctl_slots = replicate (nat capacity) None, ctl_capacity = capacity, ctl_head = 0\<rparr>)"

text \<open>The strings \<open>destroy\<close> frees.\<close>

definition ControlDispatcherRingBuffer_destroy :: "ctl_ring option \<Rightarrow> string list" where
  "ControlDispatcherRingBuffer_destroy buffer =
     (case buffer of None \<Rightarrow> [] | Some b \<Rightarrow> List.map_filter id (ctl_slots b))"

text \<open>The second component is the string \<open>push\<close> frees.\<close>

definition ControlDispatcherRingBuffer_push ::
    "ctl_ring option \<Rightarrow> string option \<Rightarrow> ctl_ring option \<times> string option" where
  "ControlDispatcherRingBuffer_push buffer json =
     (case buffer of
        None \<Rightarrow> (None, json)
      | Some b \<Rightarrow>
          let slot = ring_slot (ctl_head b) (ctl_capacity b)
          in (Some (b\<lparr>ctl_slots := (ctl_slots b)[slot := json], ctl_head := ctl_head b + 1\<rparr>),
              ctl_slots b ! slot))"

text \<open>
  \<open>okCopy\<close> is the allocation of the returned copy. The result is the message, the advanced
  cursor and the number of messages skipped.
\<close>

definition ControlDispatcherRingBuffer_readNext ::
    "bool \<Rightarrow> ctl_ring option \<Rightarrow> u64 \<Rightarrow> string option \<times> u64 \<times> u64" where
  "ControlDispatcherRingBuffer_readNext okCopy buffer cursor =
     (case buffer of
        None \<Rightarrow> (None, cursor, 0)
      | Some b \<Rightarrow>
          if cursor \<ge> ctl_head b then (None, cursor, 0)
          else
            let oldestAvailable = oldest_available (ctl_head b) (ctl_capacity b);
                dropped = (if cursor < oldestAvailable then oldestAvailable - cursor else 0);
                cursor1 = (if cursor < oldestAvailable then oldestAvailable else cursor);
                slotValue = ctl_slots b ! ring_slot cursor1 (ctl_capacity b)
            in ((if okCopy then slotValue else None), cursor1 + 1, dropped))"

definition ControlDispatcherRingBuffer_headSeq :: "ctl_ring option \<Rightarrow> u64" where
  "ControlDispatcherRingBuffer_headSeq buffer = (case buffer of None \<Rightarrow> 0 | Some b \<Rightarrow> ctl_head b)"

declare ControlDispatcherRingBuffer_create_def [ring_simps]
  and ControlDispatcherRingBuffer_destroy_def [ring_simps]
  and ControlDispatcherRingBuffer_push_def [ring_simps]
  and ControlDispatcherRingBuffer_readNext_def [ring_simps]
  and ControlDispatcherRingBuffer_headSeq_def [ring_simps]

section \<open>Invariant and abstraction\<close>

definition ctl_ring_ok :: "ctl_ring \<Rightarrow> bool" where
  "ctl_ring_ok b \<longleftrightarrow> c_int_pos (ctl_capacity b) \<and> length (ctl_slots b) = nat (ctl_capacity b)"

definition ctl_ring_live :: "ctl_ring option \<Rightarrow> bool" where
  "ctl_ring_live buffer \<longleftrightarrow> (\<exists>b. buffer = Some b \<and> ctl_ring_ok b)"

definition ctl_ring_cap :: "ctl_ring option \<Rightarrow> nat" where
  "ctl_ring_cap buffer = (case buffer of None \<Rightarrow> 0 | Some b \<Rightarrow> nat (ctl_capacity b))"

definition ctl_ring_contents :: "ctl_ring option \<Rightarrow> string multiset" where
  "ctl_ring_contents buffer = (case buffer of None \<Rightarrow> {#} | Some b \<Rightarrow> slot_contents (ctl_slots b))"

text \<open>\<open>ctl_ring_rep buffer log\<close>: the ring holds the last \<open>capacity\<close> messages of \<open>log\<close>.\<close>

definition ctl_ring_rep :: "ctl_ring option \<Rightarrow> string list \<Rightarrow> bool" where
  "ctl_ring_rep buffer log \<longleftrightarrow> (\<exists>b. buffer = Some b \<and> ctl_ring_ok b
     \<and> unat (ctl_head b) = length log
     \<and> (\<forall>i < length log. length log - nat (ctl_capacity b) \<le> i \<longrightarrow>
          ctl_slots b ! (i mod nat (ctl_capacity b)) = Some (log ! i)))"

lemma ctl_slot_bound: "ctl_ring_ok b \<Longrightarrow> ring_slot sq (ctl_capacity b) < length (ctl_slots b)"
  by (simp add: ctl_ring_ok_def ring_slot_eq c_int_pos_def)

lemma ctl_push_rep:
  assumes "ctl_ring_rep buffer log" and "Suc (length log) < 2 ^ 64"
  shows "ctl_ring_rep (fst (ControlDispatcherRingBuffer_push buffer (Some x))) (log @ [x])"
proof -
  obtain b where b: "buffer = Some b" "ctl_ring_ok b" "unat (ctl_head b) = length log"
    and sl: "\<And>i. i < length log \<Longrightarrow> length log - nat (ctl_capacity b) \<le> i \<Longrightarrow>
      ctl_slots b ! (i mod nat (ctl_capacity b)) = Some (log ! i)"
    using assms(1) by (auto simp: ctl_ring_rep_def)
  let ?n = "length log" and ?c = "nat (ctl_capacity b)"
  have cap: "c_int_pos (ctl_capacity b)" "length (ctl_slots b) = ?c" "0 < ?c"
    using b(2) by (auto simp: ctl_ring_ok_def c_int_pos_def)
  have slot: "ring_slot (ctl_head b) (ctl_capacity b) = ?n mod ?c"
    using ring_slot_eq [OF cap(1)] b(3) by simp
  have hd: "unat (ctl_head b + 1) = Suc ?n"
    using b(3) assms(2) by (simp add: unat_word_ariths)
  have "(ctl_slots b)[?n mod ?c := Some x] ! (i mod ?c) = Some ((log @ [x]) ! i)"
    if i: "i < Suc ?n" "Suc ?n - ?c \<le> i" for i
  proof (cases "i = ?n")
    case True
    then show ?thesis using cap by simp
  next
    case False
    with i have il: "i < ?n" "?n - ?c \<le> i" "?n < i + ?c" by auto
    then have "i mod ?c \<noteq> ?n mod ?c" using ring_window_inj by blast
    then show ?thesis using sl [OF il(1,2)] il(1) by (simp add: nth_append)
  qed
  then show ?thesis
    using b hd cap by (auto simp: ring_simps ctl_ring_rep_def ctl_ring_ok_def slot Let_def)
qed

lemma ctl_read_some:
  assumes "ctl_ring_rep buffer log" and "unat c < length log"
    and i: "i = max (unat c) (length log - ctl_ring_cap buffer)"
  shows "ControlDispatcherRingBuffer_readNext True buffer c
    = (Some (log ! i), of_nat (Suc i), of_nat (i - unat c))"
proof -
  obtain b where b: "buffer = Some b" "ctl_ring_ok b" "unat (ctl_head b) = length log"
    and sl: "\<And>i. i < length log \<Longrightarrow> length log - nat (ctl_capacity b) \<le> i \<Longrightarrow>
      ctl_slots b ! (i mod nat (ctl_capacity b)) = Some (log ! i)"
    using assms(1) by (auto simp: ctl_ring_rep_def)
  have cap: "c_int_pos (ctl_capacity b)" using b(2) by (simp add: ctl_ring_ok_def)
  define old where "old = oldest_available (ctl_head b) (ctl_capacity b)"
  define c1 where "c1 = (if c < old then old else c)"
  have uold: "unat old = length log - nat (ctl_capacity b)"
    unfolding old_def using unat_oldest_available [OF cap] b(3) by simp
  have c1i: "unat c1 = i"
    unfolding c1_def i using uold b(1) by (auto simp: word_less_nat_alt ctl_ring_cap_def max_def)
  have il: "i < length log" using assms(2) cap by (auto simp: i b(1) ctl_ring_cap_def c_int_pos_def)
  have val: "ctl_slots b ! ring_slot c1 (ctl_capacity b) = Some (log ! i)"
    using sl [OF il] ring_slot_eq [OF cap] c1i by (simp add: i b(1) ctl_ring_cap_def)
  have dr: "(if c < old then old - c else 0) = of_nat (i - unat c)"
  proof (cases "c < old")
    case True
    then have "c1 = old" by (simp add: c1_def)
    with c1i have io: "unat old = i" by simp
    have "i - unat c < 2 ^ 64"
      unfolding io [symmetric] by (rule le_less_trans [OF diff_le_self unat_u64_less])
    with True io show ?thesis
      by (simp add: word_unat_eq_iff unat_sub less_imp_le unat_of_nat_u64)
  next
    case False
    then have "i - unat c = 0" using c1i by (simp add: c1_def)
    with False show ?thesis by simp
  qed
  have "\<not> ctl_head b \<le> c" using assms(2) b(3) by (simp add: word_le_nat_alt)
  then have "ControlDispatcherRingBuffer_readNext True buffer c
      = (ctl_slots b ! ring_slot c1 (ctl_capacity b), c1 + 1, if c < old then old - c else 0)"
    unfolding c1_def old_def using b(1) by (simp add: ring_simps Let_def)
  moreover have "c1 + 1 = of_nat (Suc i)" using c1i by auto
  ultimately show ?thesis by (simp only: val dr)
qed

interpretation ctlr: broadcast_ring ctl_ring_rep ctl_ring_cap
  "\<lambda>b x. fst (ControlDispatcherRingBuffer_push b x)" "ControlDispatcherRingBuffer_readNext True"
  ControlDispatcherRingBuffer_headSeq
proof unfold_locales
  fix b log x c i
  assume r: "ctl_ring_rep b log"
  show "0 < ctl_ring_cap b"
    using r by (auto simp: ctl_ring_rep_def ctl_ring_cap_def ctl_ring_ok_def c_int_pos_def)
  show "ctl_ring_cap (fst (ControlDispatcherRingBuffer_push b (Some x))) = ctl_ring_cap b"
    by (simp add: ring_simps ctl_ring_cap_def Let_def split: option.splits)
  show "ctl_ring_rep (fst (ControlDispatcherRingBuffer_push b (Some x))) (log @ [x])"
    if "Suc (length log) < 2 ^ 64" using r that by (rule ctl_push_rep)
  show "unat (ControlDispatcherRingBuffer_headSeq b) = length log"
    using r by (auto simp: ctl_ring_rep_def ring_simps)
  show "ControlDispatcherRingBuffer_readNext True b c = (None, c, 0)" if "length log \<le> unat c"
    using r that by (auto simp: ctl_ring_rep_def ring_simps word_le_nat_alt)
  show "ControlDispatcherRingBuffer_readNext True b c = (Some (log ! i), of_nat (Suc i), of_nat (i - unat c))"
    if "unat c < length log" "i = max (unat c) (length log - ctl_ring_cap b)"
    using r that by (rule ctl_read_some)
qed

interpretation ctlo: owning_ring ctl_ring_live ctl_ring_contents ControlDispatcherRingBuffer_push
  ControlDispatcherRingBuffer_destroy
proof unfold_locales
  fix b x
  assume "ctl_ring_live b"
  then obtain r where r: "b = Some r" "ctl_ring_ok r" by (auto simp: ctl_ring_live_def)
  show "ctl_ring_live (fst (ControlDispatcherRingBuffer_push b (Some x)))"
    using r by (simp add: ring_simps ctl_ring_live_def ctl_ring_ok_def Let_def)
  show "ctl_ring_contents (fst (ControlDispatcherRingBuffer_push b (Some x)))
      + freed_one (snd (ControlDispatcherRingBuffer_push b (Some x))) = add_mset x (ctl_ring_contents b)"
    using r slot_contents_update [OF ctl_slot_bound [OF r(2)]]
    by (simp add: ring_simps ctl_ring_contents_def Let_def)
  show "mset (ControlDispatcherRingBuffer_destroy b) = ctl_ring_contents b"
    using r by (simp add: ring_simps ctl_ring_contents_def slot_contents_def)
qed

lemma ctl_create_rep:
  "c_int_pos n \<Longrightarrow> ctl_ring_rep (ControlDispatcherRingBuffer_create True True True n) []"
  by (simp add: ring_simps ctl_ring_rep_def ctl_ring_ok_def c_int_pos_def)

lemma ctl_create_live:
  "ControlDispatcherRingBuffer_create o1 o2 o3 n = Some b \<Longrightarrow> n < 2 ^ 31 \<Longrightarrow>
     ctl_ring_live (Some b) \<and> ctl_ring_contents (Some b) = {#}"
  by (auto simp: ring_simps ctl_ring_live_def ctl_ring_ok_def c_int_pos_def ctl_ring_contents_def
      split: if_splits)

section \<open>Every response string is freed once\<close>

text \<open>Ownership of the control responses: over any sequence of pushes into a created ring
  followed by \<open>destroy\<close>, the strings freed (by overwriting a slot, and by \<open>destroy\<close>) are
  exactly the strings pushed, each exactly as often: nothing leaks and nothing is freed
  twice.\<close>

theorem control_ring_frees_once:
  assumes "ControlDispatcherRingBuffer_create okRing okSlots okLock n = Some b" and "n < 2 ^ 31"
    and "push_all ControlDispatcherRingBuffer_push (Some b) xs = (b', freed)"
  shows "mset (freed @ ControlDispatcherRingBuffer_destroy b') = mset xs"
  using ctlo.no_leak_no_double_free [OF _ assms(3)] ctl_create_live [OF assms(1,2)] by simp

theorem control_ring_frees_once_witness:
  "mset ([''a''] @ [''c'', ''b'']) = mset [''a'', ''b'', ''c'']"
proof -
  let ?b0 = "\<lparr>ctl_slots = [None, None], ctl_capacity = 2, ctl_head = 0\<rparr>"
  let ?b1 = "Some \<lparr>ctl_slots = [Some ''c'', Some ''b''], ctl_capacity = 2, ctl_head = 3\<rparr>"
  have c: "ControlDispatcherRingBuffer_create True True True 2 = Some ?b0"
    by (simp add: ring_simps numeral_2_eq_2)
  have p: "push_all ControlDispatcherRingBuffer_push (Some ?b0) [''a'', ''b'', ''c''] = (?b1, [''a''])"
    by (simp add: ring_simps Let_def ring_slot_def)
  have "mset ([''a''] @ ControlDispatcherRingBuffer_destroy ?b1) = mset [''a'', ''b'', ''c'']"
    by (rule control_ring_frees_once [OF c _ p]) simp
  then show ?thesis by (simp add: ring_simps map_filter_simps)
qed

end
