(* ===== verification/Request_Queue.thy ===== *)
theory Request_Queue
  imports Prelude
begin

text \<open>
  \<open>features/control_dispatcher/data/control_dispatcher_request_queue.c\<close>: the bounded queue
  that hands parsed control requests from the websocket thread to the worker thread. The
  locale states the contract of a bounded queue that refuses when full (the control worker
  relies on it); the circular array is shown to meet it.
\<close>

section \<open>The contract of a bounded queue\<close>

datatype 'r queue_event = Enqueue 'r | Dequeue

text \<open>
  A run of enqueue attempts and dequeues: the final queue, the accepted requests in order,
  the requests handed out in order.
\<close>

fun queue_run :: "('q \<Rightarrow> 'r \<Rightarrow> 'q \<times> bool) \<Rightarrow> ('q \<Rightarrow> 'q \<times> 'r option) \<Rightarrow> 'q
    \<Rightarrow> 'r queue_event list \<Rightarrow> 'q \<times> 'r list \<times> 'r list" where
  "queue_run enq deq q [] = (q, [], [])"
| "queue_run enq deq q (Enqueue r # es) =
     (let (q1, ok) = enq q r; (q2, accepted, out) = queue_run enq deq q1 es
      in (q2, if ok then r # accepted else accepted, out))"
| "queue_run enq deq q (Dequeue # es) =
     (let (q1, r) = deq q; (q2, accepted, out) = queue_run enq deq q1 es
      in (q2, accepted, case r of None \<Rightarrow> out | Some x \<Rightarrow> x # out))"

locale bounded_queue =
  fixes invar :: "'q \<Rightarrow> bool"
    and items :: "'q \<Rightarrow> 'r list"
    and bound :: "'q \<Rightarrow> nat"
    and enq :: "'q \<Rightarrow> 'r \<Rightarrow> 'q \<times> bool"
    and deq :: "'q \<Rightarrow> 'q \<times> 'r option"
  assumes items_bound: "invar q \<Longrightarrow> length (items q) \<le> bound q"
    and enq_ok: "invar q \<Longrightarrow> length (items q) < bound q \<Longrightarrow> enq q r = (q', ok) \<Longrightarrow>
      ok \<and> invar q' \<and> items q' = items q @ [r] \<and> bound q' = bound q"
    and enq_full: "invar q \<Longrightarrow> length (items q) = bound q \<Longrightarrow> enq q r = (q, False)"
    and deq_empty: "invar q \<Longrightarrow> items q = [] \<Longrightarrow> deq q = (q, None)"
    and deq_ok: "invar q \<Longrightarrow> items q = r # rs \<Longrightarrow> deq q = (q', x) \<Longrightarrow>
      x = Some r \<and> invar q' \<and> items q' = rs \<and> bound q' = bound q"
begin

lemma run_fifo:
  assumes "invar q" and "queue_run enq deq q es = (q', accepted, out)"
  shows "invar q' \<and> bound q' = bound q \<and> items q @ accepted = out @ items q'"
  using assms
proof (induction es arbitrary: q accepted out)
  case Nil
  then show ?case by simp
next
  case (Cons e es)
  show ?case
  proof (cases e)
    case (Enqueue r)
    obtain q1 ok where e1: "enq q r = (q1, ok)" by fastforce
    obtain acc where run: "queue_run enq deq q1 es = (q', acc, out)"
      and acc: "accepted = (if ok then r # acc else acc)"
      using Cons.prems(2) Enqueue e1 by (auto split: prod.splits)
    show ?thesis
    proof (cases "length (items q) < bound q")
      case True
      from enq_ok [OF Cons.prems(1) True e1] Cons.IH [OF _ run] acc show ?thesis by auto
    next
      case False
      with items_bound [OF Cons.prems(1)] have "length (items q) = bound q" by simp
      from enq_full [OF Cons.prems(1) this, of r] e1 Cons.IH [OF _ run] acc Cons.prems(1)
      show ?thesis by auto
    qed
  next
    case Dequeue
    obtain q1 x where d1: "deq q = (q1, x)" by fastforce
    obtain o1 where run: "queue_run enq deq q1 es = (q', accepted, o1)"
      and out: "out = (case x of None \<Rightarrow> o1 | Some y \<Rightarrow> y # o1)"
      using Cons.prems(2) Dequeue d1 by (auto split: prod.splits)
    show ?thesis
    proof (cases "items q")
      case Nil
      from deq_empty [OF Cons.prems(1) Nil] d1 Cons.IH [OF _ run] out Cons.prems(1)
      show ?thesis by auto
    next
      case (Cons r rs)
      from deq_ok [OF Cons.prems(1) Cons d1] Cons.IH [OF _ run] out Cons
      show ?thesis by auto
    qed
  qed
qed

end

section \<open>The circular array\<close>

record 'r request_queue =
  rq_slots :: "'r option list"
  rq_capacity :: nat
  rq_head :: nat
  rq_count :: nat

definition ControlDispatcherRequestQueue_create ::
    "bool \<Rightarrow> bool \<Rightarrow> bool \<Rightarrow> int \<Rightarrow> 'r request_queue option" where
  "ControlDispatcherRequestQueue_create okQueue okSlots okLock capacity =
     (if capacity \<le> 0 then None
      else if \<not> okQueue then None
      else if \<not> okSlots then None
      else if \<not> okLock then None
      else Some \<lparr>rq_slots = replicate (nat capacity) None, rq_capacity = nat capacity,
                 rq_head = 0, rq_count = 0\<rparr>)"

definition ControlDispatcherRequestQueue_push ::
    "'r request_queue option \<Rightarrow> 'r option \<Rightarrow> 'r request_queue option \<times> bool" where
  "ControlDispatcherRequestQueue_push queue request =
     (case (queue, request) of
        (Some q, Some r) \<Rightarrow>
          if rq_count q \<ge> rq_capacity q then (queue, False)
          else
            let tail = (rq_head q + rq_count q) mod rq_capacity q
            in (Some (q\<lparr>rq_slots := (rq_slots q)[tail := Some r], rq_count := rq_count q + 1\<rparr>), True)
      | _ \<Rightarrow> (queue, False))"

definition ControlDispatcherRequestQueue_pop ::
    "'r request_queue option \<Rightarrow> 'r request_queue option \<times> 'r option" where
  "ControlDispatcherRequestQueue_pop queue =
     (case queue of
        None \<Rightarrow> (None, None)
      | Some q \<Rightarrow>
          if rq_count q = 0 then (queue, None)
          else
            (Some (q\<lparr>rq_slots := (rq_slots q)[rq_head q := None],
                     rq_head := (rq_head q + 1) mod rq_capacity q,
                     rq_count := rq_count q - 1\<rparr>),
             rq_slots q ! rq_head q))"

text \<open>The requests \<open>destroy\<close> destroys: the unread ones, oldest first.\<close>

definition ControlDispatcherRequestQueue_destroy :: "'r request_queue option \<Rightarrow> 'r option list" where
  "ControlDispatcherRequestQueue_destroy queue =
     (case queue of
        None \<Rightarrow> []
      | Some q \<Rightarrow> map (\<lambda>i. rq_slots q ! ((rq_head q + i) mod rq_capacity q)) [0..<rq_count q])"

definition rq_ok :: "'r request_queue \<Rightarrow> bool" where
  "rq_ok q \<longleftrightarrow> 0 < rq_capacity q \<and> rq_capacity q \<le> 2 ^ 30 \<and> length (rq_slots q) = rq_capacity q
     \<and> rq_head q < rq_capacity q \<and> rq_count q \<le> rq_capacity q
     \<and> (\<forall>i < rq_count q. rq_slots q ! ((rq_head q + i) mod rq_capacity q) \<noteq> None)"

definition rq_items :: "'r request_queue option \<Rightarrow> 'r list" where
  "rq_items queue = map the (ControlDispatcherRequestQueue_destroy queue)"

definition rq_live :: "'r request_queue option \<Rightarrow> bool" where
  "rq_live queue \<longleftrightarrow> (\<exists>q. queue = Some q \<and> rq_ok q)"

definition rq_bound :: "'r request_queue option \<Rightarrow> nat" where
  "rq_bound queue = (case queue of None \<Rightarrow> 0 | Some q \<Rightarrow> rq_capacity q)"

lemmas rq_defs = ControlDispatcherRequestQueue_create_def ControlDispatcherRequestQueue_push_def
  ControlDispatcherRequestQueue_pop_def ControlDispatcherRequestQueue_destroy_def
  rq_items_def rq_live_def rq_bound_def

text \<open>The tail slot is none of the occupied ones.\<close>

lemma rq_tail_free:
  assumes "i < n" and "n < c"
  shows "(h + i) mod c \<noteq> (h + n) mod (c :: nat)"
proof
  assume eq: "(h + i) mod c = (h + n) mod c"
  then have "c dvd (h + n) - (h + i)"
    using assms(1) by (metis add_le_cancel_left less_imp_le mod_eq_dvd_iff_nat)
  moreover have "0 < n - i" "n - i < c" using assms by auto
  ultimately show False by (auto dest: dvd_imp_le)
qed

lemma rq_push_items:
  assumes "rq_ok q" and "rq_count q < rq_capacity q"
    and "ControlDispatcherRequestQueue_push (Some q) (Some r) = (q', ok)"
  shows "ok \<and> rq_live q' \<and> rq_items q' = rq_items (Some q) @ [r] \<and> rq_bound q' = rq_capacity q"
proof -
  let ?t = "(rq_head q + rq_count q) mod rq_capacity q"
  have t: "?t < length (rq_slots q)" using assms(1) by (simp add: rq_ok_def)
  have q': "ok" "q' = Some (q\<lparr>rq_slots := (rq_slots q)[?t := Some r], rq_count := rq_count q + 1\<rparr>)"
    using assms(2,3) by (auto simp: rq_defs Let_def)
  have same: "(rq_slots q)[?t := Some r] ! ((rq_head q + i) mod rq_capacity q)
      = rq_slots q ! ((rq_head q + i) mod rq_capacity q)" if "i < rq_count q" for i
    using rq_tail_free [OF that assms(2), of "rq_head q"] by simp
  have "rq_live q'" using assms(1,2) q' t same
    by (auto simp: rq_live_def rq_ok_def less_Suc_eq)
  moreover have "rq_items q' = rq_items (Some q) @ [r]"
    using q'(2) t same by (simp add: rq_items_def ControlDispatcherRequestQueue_destroy_def)
  ultimately show ?thesis using q' by (simp add: rq_bound_def)
qed

lemma rq_pop_items:
  assumes "rq_ok q" and "rq_count q = Suc n"
    and "ControlDispatcherRequestQueue_pop (Some q) = (q', x)"
  shows "x = Some (hd (rq_items (Some q))) \<and> rq_live q' \<and> rq_items q' = tl (rq_items (Some q))
    \<and> rq_bound q' = rq_capacity q"
proof -
  let ?c = "rq_capacity q" and ?h = "rq_head q"
  have h: "?h < ?c" "length (rq_slots q) = ?c" "Suc n \<le> ?c" and
    occ: "\<And>i. i \<le> n \<Longrightarrow> rq_slots q ! ((?h + i) mod ?c) \<noteq> None"
    using assms(1,2) by (auto simp: rq_ok_def)
  have q': "q' = Some (q\<lparr>rq_slots := (rq_slots q)[?h := None], rq_head := (?h + 1) mod ?c,
      rq_count := n\<rparr>)" and x: "x = rq_slots q ! ?h"
    using assms(2,3) by (auto simp: rq_defs)
  have idx: "((?h + 1) mod ?c + i) mod ?c = (?h + Suc i) mod ?c" for i
    by (simp add: mod_add_left_eq)
  have same: "(rq_slots q)[?h := None] ! ((?h + Suc i) mod ?c) = rq_slots q ! ((?h + Suc i) mod ?c)"
    if "i < n" for i
  proof -
    have "(?h + 0) mod ?c \<noteq> (?h + Suc i) mod ?c"
      by (rule rq_tail_free) (use that h(3) in auto)
    then show ?thesis using h(1) by simp
  qed
  have occS: "rq_slots q ! ((?h + Suc i) mod ?c) \<noteq> None" if "i < n" for i
    using occ [of "Suc i"] that by simp
  have items: "rq_items (Some q)
      = the (rq_slots q ! ?h) # map (\<lambda>i. the (rq_slots q ! ((?h + Suc i) mod ?c))) [0..<n]"
  proof -
    have "[0..<Suc n] = 0 # map Suc [0..<n]" by (simp add: map_Suc_upt upt_conv_Cons del: upt_Suc)
    then show ?thesis using assms(2) h(1)
      by (simp add: rq_items_def ControlDispatcherRequestQueue_destroy_def comp_def del: upt_Suc)
  qed
  have "rq_items q' = tl (rq_items (Some q))"
    unfolding items using q' same idx
    by (simp add: rq_items_def ControlDispatcherRequestQueue_destroy_def)
  moreover have "rq_live q'"
    using q' assms(1,2) h same idx occS by (auto simp: rq_live_def rq_ok_def)
  moreover have "x = Some (hd (rq_items (Some q)))"
    unfolding items using x occ [of 0] h(1) by auto
  ultimately show ?thesis using q' by (simp add: rq_bound_def)
qed

lemma length_rq_items [simp]: "length (rq_items (Some q)) = rq_count q"
  by (simp add: rq_items_def ControlDispatcherRequestQueue_destroy_def)

interpretation crq: bounded_queue rq_live rq_items rq_bound
  "\<lambda>q r. ControlDispatcherRequestQueue_push q (Some r)" ControlDispatcherRequestQueue_pop
proof (unfold_locales, goal_cases)
  case (1 q)
  then show ?case by (auto simp: rq_live_def rq_bound_def rq_ok_def)
next
  case (2 q r q' ok)
  then show ?case using rq_push_items by (fastforce simp: rq_live_def rq_bound_def)
next
  case (3 q r)
  then show ?case by (auto simp: rq_live_def rq_bound_def ControlDispatcherRequestQueue_push_def)
next
  case (4 q)
  then obtain q0 where q0: "q = Some q0" by (auto simp: rq_live_def)
  with 4 have "rq_count q0 = 0" using length_rq_items [of q0] by simp
  with q0 show ?case by (simp add: ControlDispatcherRequestQueue_pop_def)
next
  case (5 q r rs q' x)
  then obtain q0 where q0: "q = Some q0" "rq_ok q0" by (auto simp: rq_live_def)
  have "length (rq_items q) = Suc (length rs)" using 5 by simp
  then have "rq_count q0 = Suc (length rs)" using q0 by simp
  from rq_pop_items [OF q0(2) this] 5 q0 show ?case by (simp add: rq_bound_def)
qed

section \<open>Requests are served in order\<close>

text \<open>Over any interleaving of \<open>push\<close> attempts by the websocket thread and \<open>pop\<close>s by the
  worker, the requests handed to the worker followed by those \<open>destroy\<close> would still find are
  exactly the accepted requests in acceptance order: none is lost, duplicated or reordered,
  whatever the capacity and however often a full queue refused one.\<close>

theorem request_queue_fifo:
  assumes "0 < n" and "n \<le> 2 ^ 30"
    and "queue_run (\<lambda>q r. ControlDispatcherRequestQueue_push q (Some r))
           ControlDispatcherRequestQueue_pop
           (ControlDispatcherRequestQueue_create True True True n) es = (q', accepted, out)"
  shows "map Some accepted = map Some out @ ControlDispatcherRequestQueue_destroy q'
    \<and> length accepted - length out \<le> nat n"
proof -
  let ?q = "ControlDispatcherRequestQueue_create True True True n :: 'a request_queue option"
  have q: "rq_live ?q" "rq_items ?q = []" "rq_bound ?q = nat n"
    using assms(1,2) by (auto simp: rq_defs rq_ok_def nat_le_iff)
  from crq.run_fifo [OF q(1) assms(3)] q
  have r: "rq_live q'" "accepted = out @ rq_items q'" "rq_bound q' = nat n" by simp_all
  then have "map Some (rq_items q') = ControlDispatcherRequestQueue_destroy q'"
    by (auto simp: rq_live_def rq_ok_def rq_items_def ControlDispatcherRequestQueue_destroy_def)
  moreover have "length (rq_items q') \<le> nat n" using crq.items_bound [OF r(1)] r(3) by simp
  ultimately show ?thesis using r(2) by simp
qed

theorem request_queue_fifo_witness:
  "map Some [1, 2, 4] = map Some [1, 2] @ [Some (4 :: nat)] \<and> length [1::nat, 2, 4] - length [1::nat, 2] \<le> nat 2"
proof -
  let ?es = "[Enqueue 1, Enqueue 2, Enqueue 3, Dequeue, Enqueue 4, Dequeue] :: nat queue_event list"
  let ?q = "Some \<lparr>rq_slots = [Some 4, None], rq_capacity = 2, rq_head = 0, rq_count = 1\<rparr>"
  have run: "queue_run (\<lambda>q r. ControlDispatcherRequestQueue_push q (Some r))
      ControlDispatcherRequestQueue_pop (ControlDispatcherRequestQueue_create True True True 2) ?es
      = (?q, [1, 2, 4], [1, 2])"
    by (simp add: rq_defs Let_def numeral_2_eq_2)
  from request_queue_fifo [OF _ _ run] show ?thesis
    by (simp add: ControlDispatcherRequestQueue_destroy_def)
qed

end
