(* ===== verification/Control_Dispatcher.thy ===== *)
theory Control_Dispatcher
  imports Control_Process Control_Ring_Buffer Request_Queue
begin

text \<open>
  The control channel of the daemon: \<open>control_dispatcher/data/control_dispatcher_ws_server.c\<close> (one
  thread: fragments to messages, messages to queued requests), \<open>data/control_dispatcher_worker.c\<close>
  (one thread: requests to answers) and \<open>service/control_dispatcher_api.c\<close>. The threads share the
  queue, the ring of answers and a semaphore; \<open>ctl_reach\<close> is what any interleaving reaches.
\<close>

section \<open>Data\<close>

datatype ControlDispatcherError =
    CONTROL_DISPATCHER_OK | CONTROL_DISPATCHER_ERR_INVALID_ARGUMENT | CONTROL_DISPATCHER_ERR_OUT_OF_MEMORY
  | CONTROL_DISPATCHER_ERR_THREAD_CREATE_FAILED | CONTROL_DISPATCHER_ERR_SOCKET_BIND_FAILED
  | CONTROL_DISPATCHER_ERR_ALREADY_RUNNING

record ControlDispatcherConfig =
  cd_port :: u16
  cd_ringBufferCapacity :: int
  cd_maxConnections :: int
  cd_requestQueueCapacity :: int

definition CONTROL_DISPATCHER_MAX_MESSAGE_SIZE :: nat where
  "CONTROL_DISPATCHER_MAX_MESSAGE_SIZE = 8192"

text \<open>\<open>accumBuf\<close> up to \<open>accumLen\<close> is the list \<open>cs_accum\<close>.\<close>

record ControlDispatcherSession =
  cs_cursor :: u64
  cs_accum :: string
  cs_overflowed :: bool

record control_ws_server =
  cv_maxConnections :: int
  cv_currentConnections :: int

type_synonym request_q = "ControlRequest request_queue option"

section \<open>Messages\<close>

definition parseErrorToCode :: "ControlParseError \<Rightarrow> string" where
  "parseErrorToCode err =
     (case err of
        CONTROL_PARSE_ERR_MALFORMED_JSON \<Rightarrow> ''MALFORMED_REQUEST''
      | CONTROL_PARSE_ERR_MISSING_REQUEST_ID \<Rightarrow> ''MALFORMED_REQUEST''
      | CONTROL_PARSE_ERR_UNKNOWN_ACTION \<Rightarrow> ''UNKNOWN_ACTION''
      | CONTROL_PARSE_ERR_INVALID_PARAMS \<Rightarrow> ''INVALID_ARGUMENT''
      | _ \<Rightarrow> ''MALFORMED_REQUEST'')"

definition parseErrorToMessage :: "ControlParseError \<Rightarrow> string" where
  "parseErrorToMessage err =
     (case err of
        CONTROL_PARSE_ERR_MALFORMED_JSON \<Rightarrow> ''invalid JSON''
      | CONTROL_PARSE_ERR_MISSING_REQUEST_ID \<Rightarrow> ''missing or empty \"requestId\"''
      | CONTROL_PARSE_ERR_UNKNOWN_ACTION \<Rightarrow> ''missing or unrecognized \"action\"''
      | CONTROL_PARSE_ERR_INVALID_PARAMS \<Rightarrow> ''missing/invalid \"params\" for the given action''
      | _ \<Rightarrow> ''malformed request'')"

text \<open>\<open>prn\<close> prints an answer (\<open>None\<close> where cJSON has no memory for it).\<close>

definition pushAndTriggerWritable :: "string option \<Rightarrow> ctl_ring option \<Rightarrow> ctl_ring option" where
  "pushAndTriggerWritable json ring =
     (case json of None \<Rightarrow> ring | Some t \<Rightarrow> fst (ControlDispatcherRingBuffer_push ring (Some t)))"

record parse_env =
  pe_parse :: "string \<Rightarrow> cjson option"
  pe_dup :: dup_ok
  pe_print :: "json \<Rightarrow> string option"

text \<open>
  The last component is the request the queue took, of which the worker is still to be notified.
  The two actions named by \<open>SERVER_BUSY\<close> are those of the source.
\<close>

definition handleCompleteMessage ::
    "parse_env \<Rightarrow> ctl_ring option \<Rightarrow> request_q \<Rightarrow> string \<Rightarrow> (ctl_ring option \<times> request_q \<times> ControlRequest option) option" where
  "handleCompleteMessage env ring queue buf =
     (case ControlDispatcherJsonParser_parse (pe_parse env) (pe_dup env) buf of
        None \<Rightarrow> None
      | Some (parseErr, recoveredRequestId, recoveredAction, outRequest) \<Rightarrow>
          if parseErr \<noteq> CONTROL_PARSE_OK then
            Some (pushAndTriggerWritable (pe_print env (ControlDispatcherJsonWriter_writeError recoveredRequestId recoveredAction
                    (Some (parseErrorToCode parseErr)) (Some (parseErrorToMessage parseErr)) None None)) ring, queue, None)
          else
            (case ControlDispatcherRequestQueue_push queue outRequest of
               (queue', True) \<Rightarrow> Some (ring, queue', outRequest)
             | (queue', False) \<Rightarrow>
                 let request = the outRequest;
                     action = (if cq_type request = CONTROL_REQ_START_REPORTING then ''START_REPORTING'' else ''STOP_REPORTING'')
                 in Some (pushAndTriggerWritable (pe_print env (ControlDispatcherJsonWriter_writeError (cq_requestId request) (Some action)
                      (Some ''SERVER_BUSY'') (Some ''request queue is full - try again shortly'') None None)) ring, queue', None)))"

text \<open>One reception.\<close>

definition receiveFragment ::
    "parse_env \<Rightarrow> ctl_ring option \<Rightarrow> request_q \<Rightarrow> ControlDispatcherSession \<Rightarrow> string \<Rightarrow> bool
      \<Rightarrow> (ctl_ring option \<times> request_q \<times> ControlRequest option \<times> ControlDispatcherSession) option" where
  "receiveFragment env ring queue session inb final =
     (let session = (if length (cs_accum session) + length inb > CONTROL_DISPATCHER_MAX_MESSAGE_SIZE
                     then session\<lparr>cs_overflowed := True\<rparr> else session\<lparr>cs_accum := cs_accum session @ inb\<rparr>)
      in if final then
           (case (if cs_overflowed session then
                    Some (pushAndTriggerWritable (pe_print env (ControlDispatcherJsonWriter_writeError None None
                      (Some ''MALFORMED_REQUEST'') (Some ''request exceeds maximum message size'') None None)) ring, queue, None)
                  else handleCompleteMessage env ring queue (cs_accum session)) of
              None \<Rightarrow> None
            | Some (ring, queue, taken) \<Rightarrow> Some (ring, queue, taken, session\<lparr>cs_accum := [], cs_overflowed := False\<rparr>))
         else Some (ring, queue, None, session))"

text \<open>\<open>okCopy\<close>: the copy of the answer, \<open>okBuf\<close>: the send buffer.\<close>

definition controlDispatcherCallback ::
    "parse_env \<Rightarrow> bool \<Rightarrow> bool \<Rightarrow> ctl_ring option \<Rightarrow> request_q \<Rightarrow> control_ws_server \<Rightarrow> lws_reason \<Rightarrow> ControlDispatcherSession option
      \<Rightarrow> (ctl_ring option \<times> request_q \<times> control_ws_server \<times> ControlDispatcherSession option \<times> ControlRequest option \<times> ws_effect) option" where
  "controlDispatcherCallback env okCopy okBuf ring queue server reason session =
     (case reason of
        LWS_CALLBACK_ESTABLISHED \<Rightarrow>
          if cv_currentConnections server \<ge> cv_maxConnections server
          then Some (ring, queue, server, session, None, no_effect\<lparr>we_reject := True\<rparr>)
          else Some (ring, queue, server\<lparr>cv_currentConnections := cv_currentConnections server + 1\<rparr>,
                 map_option (\<lambda>s. s\<lparr>cs_cursor := ControlDispatcherRingBuffer_headSeq ring, cs_accum := [], cs_overflowed := False\<rparr>) session,
                 None, no_effect)
      | LWS_CALLBACK_CLOSED \<Rightarrow>
          Some (ring, queue, server\<lparr>cv_currentConnections := cv_currentConnections server - 1\<rparr>, session, None, no_effect)
      | LWS_CALLBACK_RECEIVE inb final \<Rightarrow>
          (case session of
             None \<Rightarrow> Some (ring, queue, server, session, None, no_effect)
           | Some s \<Rightarrow>
               (case receiveFragment env ring queue s inb final of
                  None \<Rightarrow> None
                | Some (ring', queue', taken, s') \<Rightarrow>
                    Some (ring', queue', server, Some s', taken, no_effect\<lparr>we_all := (ring' \<noteq> ring)\<rparr>)))
      | LWS_CALLBACK_EVENT_WAIT_CANCELLED \<Rightarrow> Some (ring, queue, server, session, None, no_effect\<lparr>we_all := True\<rparr>)
      | LWS_CALLBACK_SERVER_WRITEABLE \<Rightarrow>
          (case session of
             None \<Rightarrow> Some (ring, queue, server, session, None, no_effect)
           | Some s \<Rightarrow>
               let (json, cursor', dropped) = ControlDispatcherRingBuffer_readNext okCopy ring (cs_cursor s)
               in Some (ring, queue, server, Some (s\<lparr>cs_cursor := cursor'\<rparr>), None,
                    case json of
                      None \<Rightarrow> no_effect
                    | Some txt \<Rightarrow> no_effect\<lparr>we_written := (if okBuf then Some txt else None),
                        we_again := (ControlDispatcherRingBuffer_headSeq ring \<noteq> cursor')\<rparr>)))"

section \<open>A message in fragments\<close>

fun receive_fragments ::
    "parse_env \<Rightarrow> ctl_ring option \<Rightarrow> request_q \<Rightarrow> ControlDispatcherSession \<Rightarrow> string list
      \<Rightarrow> (ctl_ring option \<times> request_q \<times> ControlRequest option \<times> ControlDispatcherSession) option" where
  "receive_fragments env ring queue s [] = Some (ring, queue, None, s)"
| "receive_fragments env ring queue s [f] = receiveFragment env ring queue s f True"
| "receive_fragments env ring queue s (f # g # fs) =
     (case receiveFragment env ring queue s f False of
        None \<Rightarrow> None
      | Some (ring', queue', taken, s') \<Rightarrow> receive_fragments env ring' queue' s' (g # fs))"

definition receive_whole ::
    "parse_env \<Rightarrow> ctl_ring option \<Rightarrow> request_q \<Rightarrow> ControlDispatcherSession \<Rightarrow> string
      \<Rightarrow> (ctl_ring option \<times> request_q \<times> ControlRequest option \<times> ControlDispatcherSession) option" where
  "receive_whole env ring queue s message =
     map_option (\<lambda>(r, q, t). (r, q, t, s\<lparr>cs_accum := [], cs_overflowed := False\<rparr>))
       (if length message > CONTROL_DISPATCHER_MAX_MESSAGE_SIZE
        then Some (pushAndTriggerWritable (pe_print env (ControlDispatcherJsonWriter_writeError None None
                (Some ''MALFORMED_REQUEST'') (Some ''request exceeds maximum message size'') None None)) ring, queue, None)
        else handleCompleteMessage env ring queue message)"

text \<open>The session after the fragments \<open>p\<close> of a message.\<close>

definition accumulated :: "string \<Rightarrow> ControlDispatcherSession \<Rightarrow> bool" where
  "accumulated p s \<longleftrightarrow> length (cs_accum s) \<le> CONTROL_DISPATCHER_MAX_MESSAGE_SIZE \<and> length (cs_accum s) \<le> length p
     \<and> (if cs_overflowed s then length p > CONTROL_DISPATCHER_MAX_MESSAGE_SIZE else cs_accum s = p)"

lemma fragments_from:
  "accumulated p s \<Longrightarrow> fs \<noteq> [] \<Longrightarrow>
     receive_fragments env ring queue s fs = receive_whole env ring queue s (p @ concat fs)"
proof (induction env ring queue s fs arbitrary: p rule: receive_fragments.induct)
  case (2 env ring queue s f)
  then show ?case
    by (auto simp: receiveFragment_def receive_whole_def accumulated_def Let_def split: option.splits if_splits)
next
  case (3 env ring queue s f g fs)
  define s' where "s' = (if length (cs_accum s) + length f > CONTROL_DISPATCHER_MAX_MESSAGE_SIZE
    then s\<lparr>cs_overflowed := True\<rparr> else s\<lparr>cs_accum := cs_accum s @ f\<rparr>)"
  have step: "receiveFragment env ring queue s f False = Some (ring, queue, None, s')"
    by (simp add: receiveFragment_def s'_def Let_def)
  have "accumulated (p @ f) s'" using 3(2) by (auto simp: accumulated_def s'_def)
  from 3(1) [OF step refl refl refl this] step
  have "receive_fragments env ring queue s (f # g # fs) = receive_whole env ring queue s' ((p @ f) @ concat (g # fs))"
    by simp
  also have "\<dots> = receive_whole env ring queue s (p @ concat (f # g # fs))"
    by (simp add: receive_whole_def s'_def)
  finally show ?case .
qed simp

text \<open>C39. However a message is cut into fragments, the effect is that of the whole message: up to 8192 bytes it is
  handled once, complete; a longer one gives one error answer and no request; and the connection is ready for the
  next message either way.\<close>

theorem fragments_as_whole:
  assumes "cs_accum s = []" and "\<not> cs_overflowed s" and "fs \<noteq> []"
  shows "receive_fragments env ring queue s fs = receive_whole env ring queue s (concat fs)"
  using fragments_from [of "[]" s fs env ring queue] assms by (simp add: accumulated_def)

theorem fragments_as_whole_witness:
  "receive_fragments \<lparr>pe_parse = \<lambda>_. None, pe_dup = \<lambda>_. True, pe_print = \<lambda>j. Some ''answer''\<rparr>
      None None \<lparr>cs_cursor = 0, cs_accum = [], cs_overflowed = False\<rparr> [''{'', ''}'']
   = Some (None, None, None, \<lparr>cs_cursor = 0, cs_accum = [], cs_overflowed = False\<rparr>)"
  by (subst fragments_as_whole)
    (simp_all add: receive_whole_def handleCompleteMessage_def ControlDispatcherJsonParser_parse_def
      CONTROL_DISPATCHER_MAX_MESSAGE_SIZE_def pushAndTriggerWritable_def ring_simps)

section \<open>The life cycle\<close>

record control_dispatcher =
  ch_config :: ControlDispatcherConfig
  ch_ringBuffer :: "ctl_ring option"
  ch_requestQueue :: request_q
  ch_wsServer :: "control_ws_server option"
  ch_worker :: bool
  ch_running :: bool

definition ControlDispatcherConfig_defaults :: ControlDispatcherConfig where
  "ControlDispatcherConfig_defaults = \<lparr>cd_port = 8767, cd_ringBufferCapacity = 256, cd_maxConnections = 16,
     cd_requestQueueCapacity = 64\<rparr>"

text \<open>\<open>backend\<close>: a device manager and a scan service are given.\<close>

definition ControlDispatcher_create ::
    "bool \<Rightarrow> bool \<times> bool \<times> bool \<Rightarrow> bool \<times> bool \<times> bool \<Rightarrow> ControlDispatcherConfig option \<Rightarrow> bool
      \<Rightarrow> ControlDispatcherError \<times> control_dispatcher option" where
  "ControlDispatcher_create okHandle okRing okQueue config backend =
     (if \<not> backend then (CONTROL_DISPATCHER_ERR_INVALID_ARGUMENT, None)
      else if \<not> okHandle then (CONTROL_DISPATCHER_ERR_OUT_OF_MEMORY, None)
      else
        let cfg = (case config of Some c \<Rightarrow> c | None \<Rightarrow> ControlDispatcherConfig_defaults) in
        if cd_ringBufferCapacity cfg \<le> 0 \<or> cd_maxConnections cfg \<le> 0 \<or> cd_requestQueueCapacity cfg \<le> 0 then
          (CONTROL_DISPATCHER_ERR_INVALID_ARGUMENT, None)
        else case ControlDispatcherRingBuffer_create (fst okRing) (fst (snd okRing)) (snd (snd okRing))
                    (cd_ringBufferCapacity cfg) of
          None \<Rightarrow> (CONTROL_DISPATCHER_ERR_OUT_OF_MEMORY, None)
        | Some ring \<Rightarrow>
            (case ControlDispatcherRequestQueue_create (fst okQueue) (fst (snd okQueue)) (snd (snd okQueue))
                    (cd_requestQueueCapacity cfg) of
               None \<Rightarrow> (CONTROL_DISPATCHER_ERR_OUT_OF_MEMORY, None)
             | Some queue \<Rightarrow>
                 (CONTROL_DISPATCHER_OK, Some \<lparr>ch_config = cfg, ch_ringBuffer = Some ring, ch_requestQueue = Some queue,
                    ch_wsServer = None, ch_worker = False, ch_running = False\<rparr>)))"

definition ControlDispatcherWsServer_create ::
    "bool \<Rightarrow> bool \<Rightarrow> int \<Rightarrow> ctl_ring option \<Rightarrow> request_q \<Rightarrow> ControlDispatcherError \<times> control_ws_server option" where
  "ControlDispatcherWsServer_create okAlloc okBind maxConnections ring queue =
     (if ring = None \<or> queue = None \<or> maxConnections \<le> 0 then (CONTROL_DISPATCHER_ERR_INVALID_ARGUMENT, None)
      else if \<not> okAlloc then (CONTROL_DISPATCHER_ERR_OUT_OF_MEMORY, None)
      else if \<not> okBind then (CONTROL_DISPATCHER_ERR_SOCKET_BIND_FAILED, None)
      else (CONTROL_DISPATCHER_OK, Some \<lparr>cv_maxConnections = maxConnections, cv_currentConnections = 0\<rparr>))"

text \<open>The worker is allocated with a semaphore at 0; the second component is that semaphore.\<close>

definition ControlDispatcherWorker_create ::
    "bool \<Rightarrow> bool \<Rightarrow> request_q \<Rightarrow> ctl_ring option \<Rightarrow> control_ws_server option \<Rightarrow> ControlDispatcherError \<times> nat option" where
  "ControlDispatcherWorker_create okAlloc okSemaphore queue ring server =
     (if queue = None \<or> ring = None \<or> server = None then (CONTROL_DISPATCHER_ERR_INVALID_ARGUMENT, None)
      else if \<not> okAlloc \<or> \<not> okSemaphore then (CONTROL_DISPATCHER_ERR_OUT_OF_MEMORY, None)
      else (CONTROL_DISPATCHER_OK, Some 0))"

record control_start_env =
  ck_server :: "bool \<times> bool"
  ck_worker :: "bool \<times> bool"
  ck_serverThread :: bool
  ck_workerThread :: bool

definition ControlDispatcher_start ::
    "control_start_env \<Rightarrow> control_dispatcher option \<Rightarrow> ControlDispatcherError \<times> control_dispatcher option" where
  "ControlDispatcher_start env handle =
     (case handle of
        None \<Rightarrow> (CONTROL_DISPATCHER_ERR_INVALID_ARGUMENT, None)
      | Some h \<Rightarrow>
          if ch_running h then (CONTROL_DISPATCHER_ERR_ALREADY_RUNNING, handle)
          else (case ControlDispatcherWsServer_create (fst (ck_server env)) (snd (ck_server env))
                       (cd_maxConnections (ch_config h)) (ch_ringBuffer h) (ch_requestQueue h) of
             (err, None) \<Rightarrow> (err, handle)
           | (_, Some server) \<Rightarrow>
               (case ControlDispatcherWorker_create (fst (ck_worker env)) (snd (ck_worker env))
                       (ch_requestQueue h) (ch_ringBuffer h) (Some server) of
                  (err, None) \<Rightarrow> (err, handle)
                | (_, Some sem) \<Rightarrow>
                    if \<not> ck_serverThread env then (CONTROL_DISPATCHER_ERR_THREAD_CREATE_FAILED, handle)
                    else if \<not> ck_workerThread env then (CONTROL_DISPATCHER_ERR_THREAD_CREATE_FAILED, handle)
                    else (CONTROL_DISPATCHER_OK, Some (h\<lparr>ch_wsServer := Some server, ch_worker := True, ch_running := True\<rparr>)))))"

text \<open>The queue and the ring outlive a stop.\<close>

definition ControlDispatcher_stop :: "control_dispatcher option \<Rightarrow> control_dispatcher option" where
  "ControlDispatcher_stop handle = map_option (\<lambda>h. h\<lparr>ch_worker := False, ch_wsServer := None, ch_running := False\<rparr>) handle"

text \<open>The answers and the requests freed.\<close>

definition ControlDispatcher_destroy :: "control_dispatcher option \<Rightarrow> string list \<times> ControlRequest option list" where
  "ControlDispatcher_destroy handle =
     (case handle of
        None \<Rightarrow> ([], [])
      | Some h \<Rightarrow> (case ch_ringBuffer h of None \<Rightarrow> [] | Some r \<Rightarrow> ControlDispatcherRingBuffer_destroy (Some r),
                   ControlDispatcherRequestQueue_destroy (ch_requestQueue h)))"

section \<open>The two threads\<close>

text \<open>Where the worker thread stands in \<open>workerLoop\<close>.\<close>

datatype worker_pc = WP_Check | WP_Wait | WP_Woken | WP_Busy ControlRequest | WP_Exited

text \<open>
  \<open>cm_pending\<close>: the websocket thread has queued a request and not yet notified the worker;
  \<open>cm_stopPending\<close>: a stop set its flag and has not yet posted. \<open>cm_accepted\<close>, \<open>cm_done\<close> and \<open>cm_answers\<close>
  record what was queued, processed and answered.
\<close>

record 'h control_run =
  cm_ring :: "ctl_ring option"
  cm_queue :: request_q
  cm_backend :: "'h control_backend"
  cm_wakeSignal :: nat
  cm_pending :: bool
  cm_pc :: worker_pc
  cm_stopRequested :: bool
  cm_stopPending :: bool
  cm_accepted :: "ControlRequest list"
  cm_done :: "ControlRequest list"
  cm_answers :: "json list"

text \<open>\<open>workerLoop\<close>, one part at a time; \<open>None\<close>: the thread blocks, or has ended.\<close>

definition worker_turn :: "'h control_env \<Rightarrow> (json \<Rightarrow> string option) \<Rightarrow> 'h control_run \<Rightarrow> 'h control_run option" where
  "worker_turn env prn m =
     (case cm_pc m of
        WP_Check \<Rightarrow> Some (m\<lparr>cm_pc := (if cm_stopRequested m then WP_Exited else WP_Wait)\<rparr>)
      | WP_Wait \<Rightarrow> if cm_wakeSignal m = 0 then None
                   else Some (m\<lparr>cm_wakeSignal := cm_wakeSignal m - 1, cm_pc := WP_Woken\<rparr>)
      | WP_Woken \<Rightarrow>
          if cm_stopRequested m then Some (m\<lparr>cm_pc := WP_Exited\<rparr>)
          else (case ControlDispatcherRequestQueue_pop (cm_queue m) of
             (queue, None) \<Rightarrow> Some (m\<lparr>cm_queue := queue, cm_pc := WP_Check\<rparr>)
           | (queue, Some request) \<Rightarrow> Some (m\<lparr>cm_queue := queue, cm_pc := WP_Busy request\<rparr>))
      | WP_Busy request \<Rightarrow>
          (case ControlDispatcherUseCases_processRequest env request (cm_backend m) of
             (answer, backend) \<Rightarrow>
               Some (m\<lparr>cm_backend := backend, cm_ring := pushAndTriggerWritable (prn answer) (cm_ring m), cm_pc := WP_Check,
                       cm_done := cm_done m @ [request], cm_answers := cm_answers m @ [answer]\<rparr>))
      | WP_Exited \<Rightarrow> None)"

inductive ctl_step :: "'h control_run \<Rightarrow> 'h control_run \<Rightarrow> bool" where
  message: "\<not> cm_pending m \<Longrightarrow> handleCompleteMessage penv (cm_ring m) (cm_queue m) buf = Some (ring, queue, taken) \<Longrightarrow>
    ctl_step m (m\<lparr>cm_ring := ring, cm_queue := queue, cm_pending := (taken \<noteq> None),
      cm_accepted := cm_accepted m @ (case taken of None \<Rightarrow> [] | Some q \<Rightarrow> [q])\<rparr>)"
| too_long: "ctl_step m (m\<lparr>cm_ring := pushAndTriggerWritable json (cm_ring m)\<rparr>)"
| notify: "cm_pending m \<Longrightarrow> ctl_step m (m\<lparr>cm_pending := False, cm_wakeSignal := cm_wakeSignal m + 1\<rparr>)"
| worker: "worker_turn env prn m = Some m' \<Longrightarrow> ctl_step m m'"
| stop: "\<not> cm_stopRequested m \<Longrightarrow> ctl_step m (m\<lparr>cm_stopRequested := True, cm_stopPending := True\<rparr>)"
| stop_post: "cm_stopPending m \<Longrightarrow> ctl_step m (m\<lparr>cm_stopPending := False, cm_wakeSignal := cm_wakeSignal m + 1\<rparr>)"

inductive ctl_reach :: "'h control_run \<Rightarrow> bool" where
  started: "ControlDispatcher_create okh okr okq config backend = (err, Some h) \<Longrightarrow> cd_requestQueueCapacity (ch_config h) \<le> 2 ^ 30 \<Longrightarrow>
    ctl_reach \<lparr>cm_ring = ch_ringBuffer h, cm_queue = ch_requestQueue h, cm_backend = b, cm_wakeSignal = 0, cm_pending = False,
      cm_pc = WP_Check, cm_stopRequested = False, cm_stopPending = False, cm_accepted = [], cm_done = [], cm_answers = []\<rparr>"
| stepped: "ctl_reach m \<Longrightarrow> ctl_step m m' \<Longrightarrow> ctl_reach m'"

inductive_cases ctl_stepE: "ctl_step m m'"

definition busy_with :: "worker_pc \<Rightarrow> ControlRequest list" where
  "busy_with pc = (case pc of WP_Busy q \<Rightarrow> [q] | _ \<Rightarrow> [])"

text \<open>Every queued request is matched by one post, made or to come, and so is a stop.\<close>

definition posts_match :: "'h control_run \<Rightarrow> bool" where
  "posts_match m \<longleftrightarrow> cm_pc m = WP_Exited \<or>
     cm_wakeSignal m + of_bool (cm_pending m) + of_bool (cm_pc m = WP_Woken) + of_bool (cm_stopPending m)
       = length (rq_items (cm_queue m)) + of_bool (cm_stopRequested m)"

definition ctl_ok :: "'h control_run \<Rightarrow> bool" where
  "ctl_ok m \<longleftrightarrow> rq_live (cm_queue m) \<and> cm_accepted m = cm_done m @ busy_with (cm_pc m) @ rq_items (cm_queue m)
     \<and> list_all request_ok (cm_accepted m)
     \<and> list_all2 (\<lambda>q j. jfield j ''requestId'' = Some (jstr (cq_requestId q))) (cm_done m) (cm_answers m)
     \<and> posts_match m \<and> (cm_stopPending m \<or> cm_pc m = WP_Exited \<longrightarrow> cm_stopRequested m)"

lemma handle_shape:
  assumes "handleCompleteMessage env ring queue buf = Some (ring', queue', taken)" and "rq_live queue"
  shows "rq_live queue' \<and> (case taken of None \<Rightarrow> rq_items queue' = rq_items queue
    | Some q \<Rightarrow> rq_items queue' = rq_items queue @ [q] \<and> request_ok q)"
proof -
  obtain err i a out where p: "ControlDispatcherJsonParser_parse (pe_parse env) (pe_dup env) buf = Some (err, i, a, out)"
    using assms(1) by (cases "ControlDispatcherJsonParser_parse (pe_parse env) (pe_dup env) buf") (auto simp: handleCompleteMessage_def)
  note typed = parsed_request [OF p]
  show ?thesis
  proof (cases "err = CONTROL_PARSE_OK")
    case False
    with assms p show ?thesis by (simp add: handleCompleteMessage_def)
  next
    case True
    with typed obtain q where q: "out = Some q" "request_ok q" by auto
    obtain queue1 ok where push: "ControlDispatcherRequestQueue_push queue (Some q) = (queue1, ok)" by fastforce
    show ?thesis
    proof (cases "length (rq_items queue) < rq_bound queue")
      case room: True
      from crq.enq_ok [OF assms(2) room push] assms(1) p True q push show ?thesis
        by (auto simp: handleCompleteMessage_def)
    next
      case False
      then have "length (rq_items queue) = rq_bound queue" using crq.items_bound [OF assms(2)] by simp
      from crq.enq_full [OF assms(2) this, of q] push have "queue1 = queue" "\<not> ok" by simp_all
      with assms p True q push show ?thesis by (simp add: handleCompleteMessage_def Let_def)
    qed
  qed
qed

lemma worker_turn_ok:
  assumes "worker_turn env prn m = Some m'" and "ctl_ok m"
  shows "ctl_ok m'"
proof (cases "cm_pc m")
  case WP_Check
  with assms show ?thesis by (auto simp: worker_turn_def ctl_ok_def posts_match_def busy_with_def)
next
  case WP_Wait
  with assms show ?thesis by (auto simp: worker_turn_def ctl_ok_def posts_match_def busy_with_def split: if_splits)
next
  case WP_Woken
  show ?thesis
  proof (cases "cm_stopRequested m")
    case True
    with WP_Woken assms show ?thesis by (auto simp: worker_turn_def ctl_ok_def posts_match_def busy_with_def)
  next
    case False
    with WP_Woken assms(2) have "rq_items (cm_queue m) \<noteq> []" and live: "rq_live (cm_queue m)"
      by (auto simp: ctl_ok_def posts_match_def)
    then obtain q qs where items: "rq_items (cm_queue m) = q # qs" by (cases "rq_items (cm_queue m)") auto
    obtain queue x where pop: "ControlDispatcherRequestQueue_pop (cm_queue m) = (queue, x)" by fastforce
    from crq.deq_ok [OF live items pop] have x: "x = Some q" "rq_live queue" "rq_items queue = qs" by auto
    with assms(1) WP_Woken False pop have "m' = m\<lparr>cm_queue := queue, cm_pc := WP_Busy q\<rparr>"
      by (simp add: worker_turn_def)
    with assms(2) WP_Woken False items x show ?thesis
      by (auto simp: ctl_ok_def posts_match_def busy_with_def)
  qed
next
  case (WP_Busy q)
  obtain j b where p: "ControlDispatcherUseCases_processRequest env q (cm_backend m) = (j, b)" by fastforce
  have "jfield j ''requestId'' = Some (jstr (cq_requestId q))"
    using answer_names [of env q "cm_backend m"] p by simp
  with WP_Busy assms p show ?thesis
    by (auto simp: worker_turn_def ctl_ok_def posts_match_def busy_with_def intro: list_all2_appendI)
next
  case WP_Exited
  with assms show ?thesis by (simp add: worker_turn_def)
qed

lemma ctl_step_ok: "ctl_step m m' \<Longrightarrow> ctl_ok m \<Longrightarrow> ctl_ok m'"
proof (induction rule: ctl_step.induct)
  case (message m penv buf ring queue taken)
  then have live: "rq_live (cm_queue m)" by (simp add: ctl_ok_def)
  from handle_shape [OF message(2) live] message(1,3) show ?case
    by (auto simp: ctl_ok_def posts_match_def split: option.splits)
next
  case (worker env prn m m')
  then show ?case using worker_turn_ok by blast
qed (auto simp: ctl_ok_def posts_match_def)

lemma created_queue:
  assumes "ControlDispatcher_create okh okr okq config backend = (err, Some h)" and "cd_requestQueueCapacity (ch_config h) \<le> 2 ^ 30"
  shows "rq_live (ch_requestQueue h) \<and> rq_items (ch_requestQueue h) = []"
  using assms
  by (auto simp: ControlDispatcher_create_def Let_def rq_defs rq_ok_def split: if_splits option.splits)

lemma reach_ok: "ctl_reach m \<Longrightarrow> ctl_ok m"
proof (induction rule: ctl_reach.induct)
  case (started okh okr okq config backend err h b)
  from created_queue [OF started] show ?case
    by (simp add: ctl_ok_def posts_match_def busy_with_def)
next
  case (stepped m m')
  then show ?case using ctl_step_ok by blast
qed

lemma dispatcher_demo_run:
  obtains m :: "'h control_run" where "ctl_reach m" and "length (cm_accepted m) = 1" and "cm_pc m = WP_Check"
    and "cm_pending m" and "\<not> cm_stopRequested m"
proof -
  let ?penv = "\<lparr>pe_parse = \<lambda>_. Some (CJ_Object [(''requestId'', CJ_String ''r1''), (''action'', CJ_String ''STOP_SCAN''),
    (''params'', CJ_Object [(''scanId'', CJ_Number (Finite 7))])]), pe_dup = \<lambda>_. True, pe_print = \<lambda>_. None\<rparr>"
  let ?q = "(zero_request CONTROL_REQ_STOP_SCAN (Some ''r1''))\<lparr>cq_scanId := 7\<rparr>"
  let ?cfg = "\<lparr>cd_port = 8767, cd_ringBufferCapacity = 2, cd_maxConnections = 1, cd_requestQueueCapacity = 2\<rparr>"
  obtain h :: control_dispatcher where h: "ControlDispatcher_create True (True, True, True) (True, True, True) (Some ?cfg) True
      = (CONTROL_DISPATCHER_OK, Some h)" "ch_config h = ?cfg"
      "ch_requestQueue h = Some \<lparr>rq_slots = [None, None], rq_capacity = 2, rq_head = 0, rq_count = 0\<rparr>"
    by (auto simp: ControlDispatcher_create_def ring_simps ControlDispatcherRequestQueue_create_def numeral_2_eq_2)
  let ?b = "\<lparr>cb_deviceManager = None, cb_scanOrchestration = undefined\<rparr> :: 'h control_backend"
  let ?m0 = "\<lparr>cm_ring = ch_ringBuffer h, cm_queue = ch_requestQueue h, cm_backend = ?b, cm_wakeSignal = 0, cm_pending = False,
      cm_pc = WP_Check, cm_stopRequested = False, cm_stopPending = False, cm_accepted = [], cm_done = [], cm_answers = []\<rparr>"
  have r0: "ctl_reach ?m0" by (rule started [OF h(1)]) (simp add: h(2))
  let ?queue = "Some \<lparr>rq_slots = [Some ?q, None], rq_capacity = 2, rq_head = 0, rq_count = 1\<rparr>"
  have "handleCompleteMessage ?penv (ch_ringBuffer h) (ch_requestQueue h) [] = Some (ch_ringBuffer h, ?queue, Some ?q)"
    by (simp add: handleCompleteMessage_def ControlDispatcherJsonParser_parse_def Let_def safeStringDup_def action_type_def
        parse_params_def parseStopScanParams_def u64_of_double_def h(3) ControlDispatcherRequestQueue_push_def)
  then have "ctl_step ?m0 (?m0\<lparr>cm_ring := ch_ringBuffer h, cm_queue := ?queue, cm_pending := (Some ?q \<noteq> None),
      cm_accepted := cm_accepted ?m0 @ (case Some ?q of None \<Rightarrow> [] | Some q \<Rightarrow> [q])\<rparr>)" (is "ctl_step _ ?m1")
    by (intro message) simp_all
  with r0 have "ctl_reach ?m1" by (rule ctl_reach.stepped)
  then show thesis by (rule that) simp_all
qed

text \<open>C34. Whatever the two threads and a stop do in whatever order, the requests are worked off in the order in which
  the queue took them, each once and each well formed; every answer carries the identifier of its request; and the worker
  never sleeps over work: when it blocks with nothing under way, no request is left in the queue and no stop was asked for.\<close>

theorem no_request_forgotten:
  assumes "ctl_reach m"
  shows "cm_accepted m = cm_done m @ busy_with (cm_pc m) @ rq_items (cm_queue m)
    \<and> list_all request_ok (cm_accepted m)
    \<and> list_all2 (\<lambda>q j. jfield j ''requestId'' = Some (jstr (cq_requestId q))) (cm_done m) (cm_answers m)
    \<and> (cm_pc m = WP_Wait \<and> cm_wakeSignal m = 0 \<and> \<not> cm_pending m \<and> \<not> cm_stopPending m
        \<longrightarrow> rq_items (cm_queue m) = [] \<and> \<not> cm_stopRequested m)"
  using reach_ok [OF assms] by (auto simp: ctl_ok_def posts_match_def)

theorem no_request_forgotten_witness:
  "\<exists>m :: nat control_run. ctl_reach m \<and> length (cm_accepted m) = 1 \<and> cm_pc m = WP_Check
     \<and> cm_accepted m = cm_done m @ busy_with (cm_pc m) @ rq_items (cm_queue m) \<and> list_all request_ok (cm_accepted m)"
proof -
  obtain m :: "nat control_run" where "ctl_reach m" "length (cm_accepted m) = 1" "cm_pc m = WP_Check" "cm_pending m"
    by (rule dispatcher_demo_run)
  with no_request_forgotten show ?thesis by blast
qed

section \<open>The worker catches up\<close>

fun worker_turns :: "nat \<Rightarrow> 'h control_env \<Rightarrow> (json \<Rightarrow> string option) \<Rightarrow> 'h control_run \<Rightarrow> 'h control_run option" where
  "worker_turns 0 env prn m = Some m"
| "worker_turns (Suc n) env prn m = (case worker_turn env prn m of None \<Rightarrow> None | Some m' \<Rightarrow> worker_turns n env prn m')"

definition work_left :: "'h control_run \<Rightarrow> nat" where
  "work_left m = 4 * length (rq_items (cm_queue m))
     + (case cm_pc m of WP_Check \<Rightarrow> 3 | WP_Wait \<Rightarrow> 2 | WP_Woken \<Rightarrow> 1 | WP_Busy _ \<Rightarrow> 4 | WP_Exited \<Rightarrow> 0)"

lemma worker_turn_progress:
  assumes "ctl_ok m" and "\<not> cm_stopRequested m" and "\<not> cm_pending m" and "cm_done m \<noteq> cm_accepted m"
  obtains m' where "worker_turn env prn m = Some m'" and "work_left m' < work_left m" and "\<not> cm_stopRequested m'"
    and "\<not> cm_pending m'" and "cm_accepted m' = cm_accepted m"
proof -
  have ok: "rq_live (cm_queue m)" "cm_accepted m = cm_done m @ busy_with (cm_pc m) @ rq_items (cm_queue m)"
    "cm_pc m \<noteq> WP_Exited" "\<not> cm_stopPending m"
    "cm_wakeSignal m + of_bool (cm_pc m = WP_Woken) = length (rq_items (cm_queue m))"
    using assms by (auto simp: ctl_ok_def posts_match_def)
  show thesis
  proof (cases "cm_pc m")
    case WP_Check
    with assms show thesis by (intro that [of "m\<lparr>cm_pc := WP_Wait\<rparr>"]) (auto simp: worker_turn_def work_left_def)
  next
    case WP_Wait
    with ok assms have "cm_wakeSignal m \<noteq> 0" by (auto simp: busy_with_def)
    with WP_Wait assms show thesis by (intro that [of "the (worker_turn env prn m)"]) (auto simp: worker_turn_def work_left_def)
  next
    case WP_Woken
    with ok obtain q qs where items: "rq_items (cm_queue m) = q # qs" by (cases "rq_items (cm_queue m)") auto
    obtain queue x where pop: "ControlDispatcherRequestQueue_pop (cm_queue m) = (queue, x)" by fastforce
    from crq.deq_ok [OF ok(1) items pop] have "x = Some q" "rq_items queue = qs" by auto
    with WP_Woken assms items pop show thesis by (intro that [of "the (worker_turn env prn m)"]) (auto simp: worker_turn_def work_left_def)
  next
    case (WP_Busy q)
    with assms show thesis by (intro that [of "the (worker_turn env prn m)"]) (auto simp: worker_turn_def work_left_def split: prod.splits)
  qed (use ok in simp)
qed

lemma catches_up:
  assumes "ctl_ok m" and "\<not> cm_stopRequested m" and "\<not> cm_pending m"
  shows "\<exists>n m'. n \<le> work_left m \<and> worker_turns n env prn m = Some m' \<and> cm_accepted m' = cm_accepted m
    \<and> cm_done m' = cm_accepted m \<and> ctl_ok m'"
  using assms
proof (induction "work_left m" arbitrary: m rule: less_induct)
  case less
  show ?case
  proof (cases "cm_done m = cm_accepted m")
    case True
    then show ?thesis using less.prems by (intro exI [of _ 0] exI [of _ m]) simp
  next
    case False
    obtain m1 where m1: "worker_turn env prn m = Some m1" "work_left m1 < work_left m" "\<not> cm_stopRequested m1"
      "\<not> cm_pending m1" "cm_accepted m1 = cm_accepted m"
      by (rule worker_turn_progress [OF less.prems(1,2,3) False])
    from less.hyps [OF m1(2) worker_turn_ok [OF m1(1) less.prems(1)] m1(3,4)] obtain n m2 where
      "n \<le> work_left m1" "worker_turns n env prn m1 = Some m2" "cm_accepted m2 = cm_accepted m1"
      "cm_done m2 = cm_accepted m1" "ctl_ok m2" by blast
    with m1 show ?thesis by (intro exI [of _ "Suc n"] exI [of _ m2]) simp
  qed
qed



section \<open>A stop forgets nothing, and a new start lags behind\<close>

text \<open>
  What a new start finds: the queue outlived the stop, and the new worker's semaphore is at 0. A request
  from before the stop is only processed when a later one is queued.
\<close>

lemma backlog_sleeps:
  assumes "cm_pc m = WP_Check" and "\<not> cm_stopRequested m" and "cm_wakeSignal m = 0"
  shows "\<exists>m'. worker_turn env prn m = Some m' \<and> worker_turn env prn m' = None \<and> cm_queue m' = cm_queue m"
  using assms by (auto simp: worker_turn_def)

end
