(* ===== verification/Ipc_Pairing.thy ===== *)
theory Ipc_Pairing
  imports Prelude
begin

text \<open>
  \<open>ipc_dispatcher/domain/ipc_dispatcher_usecases.c\<close> and \<open>ipc_dispatcher_types.h\<close>, first half:
  the values and qualities of the outbound messages, the split of a reference at its last
  separator, the pairing of every value entry with the quality entry of its nearest ancestor,
  and the assembly of a message. Copies of strings are taken to succeed; the allocations
  whose failure the code handles are arguments.
\<close>

section \<open>Data\<close>

datatype IpcQualityValidity =
    IPC_QUALITY_GOOD
  | IPC_QUALITY_RESERVED
  | IPC_QUALITY_INVALID
  | IPC_QUALITY_QUESTIONABLE

record IpcQuality =
  q_validity :: IpcQualityValidity
  q_detailFlags :: u16

text \<open>A double is its IEEE 754 bit pattern; the pointer of a string or raw value may be NULL.\<close>

datatype IpcScalarValue =
    IPC_SCALAR_BOOL bool
  | IPC_SCALAR_INT64 u64
  | IPC_SCALAR_UINT64 u64
  | IPC_SCALAR_DOUBLE u64
  | IPC_SCALAR_STRING "string option"
  | IPC_SCALAR_RAW "string option"

datatype IpcSourceType = IPC_SOURCE_MMS_REPORT | IPC_SOURCE_GOOSE

record IpcDataPoint =
  dp_reference :: "string option"
  dp_value :: IpcScalarValue
  dp_hasQuality :: bool
  dp_quality :: IpcQuality
  dp_hasPreviousValue :: bool
  dp_previousValue :: IpcScalarValue
  dp_hasPreviousQuality :: bool
  dp_previousQuality :: IpcQuality
  dp_hasLabel :: bool
  dp_label :: "string option"
  dp_hasPreviousLabel :: bool
  dp_previousLabel :: "string option"
  dp_category :: "string option"
  dp_hasDescription :: bool
  dp_description :: "string option"

text \<open>Every array of the bundle may be NULL.\<close>

record IpcDataPointExtras =
  ex_pointHasPreviousValue :: "bool list option"
  ex_pointPreviousValue :: "IpcScalarValue list option"
  ex_pointHasPreviousQuality :: "bool list option"
  ex_pointPreviousQuality :: "IpcQuality list option"
  ex_pointHasLabel :: "bool list option"
  ex_pointLabel :: "string option list option"
  ex_pointHasPreviousLabel :: "bool list option"
  ex_pointPreviousLabel :: "string option list option"
  ex_pointCategory :: "string option list option"
  ex_pointHasDescription :: "bool list option"
  ex_pointDescription :: "string option list option"

record IpcMessage =
  msg_sourceType :: IpcSourceType
  msg_sourceReference :: "string option"
  msg_hasBuffered :: bool
  msg_buffered :: bool
  msg_hasTimestamp :: bool
  msg_timestampMs :: u64
  msg_dataPoints :: "IpcDataPoint list"

text \<open>Zeroed memory of \<open>calloc\<close>.\<close>

definition zero_quality :: IpcQuality where
  "zero_quality = \<lparr>q_validity = IPC_QUALITY_GOOD, q_detailFlags = 0\<rparr>"

definition zero_scalar :: IpcScalarValue where
  "zero_scalar = IPC_SCALAR_BOOL False"

section \<open>Operations\<close>

text \<open>The prefix length and the name after the last separator.\<close>

definition IpcDispatcherUseCases_splitReference :: "string option \<Rightarrow> (nat \<times> string) option" where
  "IpcDispatcherUseCases_splitReference reference =
     (case reference of
        None \<Rightarrow> None
      | Some r \<Rightarrow>
          (case strrchr r (CHR ''$'') of
             None \<Rightarrow> None
           | Some i \<Rightarrow> Some (i, drop (Suc i) r)))"

text \<open>The test of the inner loop on entry \<open>j\<close>.\<close>

definition isQualityAt :: "string \<Rightarrow> nat \<Rightarrow> nat \<Rightarrow> nat \<times> string option \<Rightarrow> bool" where
  "isQualityAt ref valueIndex searchLen entry =
     (case entry of (j, other) \<Rightarrow>
        j \<noteq> valueIndex
        \<and> (case IpcDispatcherUseCases_splitReference other of
             None \<Rightarrow> False
           | Some (otherPrefixLen, otherDaName) \<Rightarrow>
               otherDaName = ''q'' \<and> otherPrefixLen = searchLen
               \<and> (case other of None \<Rightarrow> False | Some o' \<Rightarrow> strneq o' ref searchLen)))"

text \<open>The outer loop, from search length \<open>searchLen\<close> to ever shorter ancestors.\<close>

function qualitySearch :: "string option list \<Rightarrow> string \<Rightarrow> nat \<Rightarrow> nat \<Rightarrow> nat option" where
  "qualitySearch references ref valueIndex searchLen =
     (case find_index (isQualityAt ref valueIndex searchLen) (enumerate 0 references) of
        Some j \<Rightarrow> Some j
      | None \<Rightarrow>
          (case strrchr (take searchLen ref) (CHR ''$'') of
             None \<Rightarrow> None
           | Some lastDollarPos \<Rightarrow> qualitySearch references ref valueIndex lastDollarPos))"
  by pat_completeness auto
termination
  by (relation "measure (\<lambda>(rs, r, i, n). n)") (auto dest!: strrchr_SomeD)

declare qualitySearch.simps [simp del]

definition findQualityIndexForValue :: "string option list \<Rightarrow> nat \<Rightarrow> nat \<Rightarrow> nat option" where
  "findQualityIndexForValue references valueIndex valuePrefixLen =
     (case references ! valueIndex of
        None \<Rightarrow> None
      | Some ref \<Rightarrow> qualitySearch references ref valueIndex valuePrefixLen)"

text \<open>One step of the pairing loop: the output pair of entry \<open>i\<close>, if it is a value.\<close>

definition pairStep :: "string option list \<Rightarrow> nat \<Rightarrow> (nat \<times> nat option) list" where
  "pairStep references i =
     (case IpcDispatcherUseCases_splitReference (references ! i) of
        None \<Rightarrow> [(i, None)]
      | Some (prefixLen, daName) \<Rightarrow>
          if daName = ''q'' then []
          else [(i, findQualityIndexForValue references i prefixLen)])"

text \<open>\<open>outValueIndices\<close> and \<open>outQualityIndexForValue\<close> as one list of pairs, \<open>None\<close> for -1.\<close>

definition IpcDispatcherUseCases_pairQuality :: "string option list \<Rightarrow> (nat \<times> nat option) list" where
  "IpcDispatcherUseCases_pairQuality references = concat (map (pairStep references) [0..<length references])"

definition IpcDispatcherUseCases_shouldIncludeValuePoint :: "bool \<Rightarrow> bool \<Rightarrow> bool \<Rightarrow> bool" where
  "IpcDispatcherUseCases_shouldIncludeValuePoint valueOwnChangeDetected hasQualityPair qualityOwnChangeDetected
     \<longleftrightarrow> valueOwnChangeDetected \<or> (hasQualityPair \<and> qualityOwnChangeDetected)"

text \<open>\<open>extras && extras->flags && extras->flags[i]\<close>, and the entry it guards.\<close>

definition extra_flag :: "IpcDataPointExtras option \<Rightarrow> (IpcDataPointExtras \<Rightarrow> bool list option) \<Rightarrow> nat \<Rightarrow> bool" where
  "extra_flag extras sel i =
     (case extras of None \<Rightarrow> False | Some e \<Rightarrow> (case sel e of None \<Rightarrow> False | Some fs \<Rightarrow> fs ! i))"

definition extra_item :: "IpcDataPointExtras option \<Rightarrow> (IpcDataPointExtras \<Rightarrow> 'a list option) \<Rightarrow> 'a \<Rightarrow> nat \<Rightarrow> 'a" where
  "extra_item extras sel dflt i =
     (case extras of None \<Rightarrow> dflt | Some e \<Rightarrow> (case sel e of None \<Rightarrow> dflt | Some xs \<Rightarrow> xs ! i))"

definition assemblePoint ::
    "string option list \<Rightarrow> IpcScalarValue list \<Rightarrow> bool list option \<Rightarrow> IpcQuality list
     \<Rightarrow> IpcDataPointExtras option \<Rightarrow> nat \<Rightarrow> IpcDataPoint" where
  "assemblePoint pointReferences pointValues pointHasQuality pointQuality extras i =
     (let hasQ = (case pointHasQuality of None \<Rightarrow> False | Some fs \<Rightarrow> fs ! i);
          hasPV = extra_flag extras ex_pointHasPreviousValue i;
          hasPQ = extra_flag extras ex_pointHasPreviousQuality i;
          hasL = extra_flag extras ex_pointHasLabel i;
          hasPL = extra_flag extras ex_pointHasPreviousLabel i;
          hasD = extra_flag extras ex_pointHasDescription i
      in \<lparr>dp_reference = pointReferences ! i,
          dp_value = pointValues ! i,
          dp_hasQuality = hasQ,
          dp_quality = (if hasQ then pointQuality ! i else zero_quality),
          dp_hasPreviousValue = hasPV,
          dp_previousValue = (if hasPV then extra_item extras ex_pointPreviousValue zero_scalar i else zero_scalar),
          dp_hasPreviousQuality = hasPQ,
          dp_previousQuality = (if hasPQ then extra_item extras ex_pointPreviousQuality zero_quality i else zero_quality),
          dp_hasLabel = hasL,
          dp_label = (if hasL then extra_item extras ex_pointLabel None i else None),
          dp_hasPreviousLabel = hasPL,
          dp_previousLabel = (if hasPL then extra_item extras ex_pointPreviousLabel None i else None),
          dp_category = extra_item extras ex_pointCategory (Some ''OTHER'') i,
          dp_hasDescription = hasD,
          dp_description = (if hasD then extra_item extras ex_pointDescription None i else None)\<rparr>)"

definition IpcDispatcherUseCases_assembleMessage ::
    "bool \<Rightarrow> bool \<Rightarrow> IpcSourceType \<Rightarrow> string option \<Rightarrow> bool \<Rightarrow> bool \<Rightarrow> bool \<Rightarrow> u64
     \<Rightarrow> string option list \<Rightarrow> IpcScalarValue list \<Rightarrow> bool list option \<Rightarrow> IpcQuality list
     \<Rightarrow> IpcDataPointExtras option \<Rightarrow> nat \<Rightarrow> IpcMessage option" where
  "IpcDispatcherUseCases_assembleMessage okMessage okPoints sourceType sourceReference hasBuffered buffered
       hasTimestamp timestampMs pointReferences pointValues pointHasQuality pointQuality extras pointCount =
     (if \<not> okMessage then None
      else if pointCount > 0 \<and> \<not> okPoints then None
      else Some \<lparr>msg_sourceType = sourceType, msg_sourceReference = sourceReference,
                 msg_hasBuffered = hasBuffered, msg_buffered = buffered,
                 msg_hasTimestamp = hasTimestamp, msg_timestampMs = timestampMs,
                 msg_dataPoints = map (assemblePoint pointReferences pointValues pointHasQuality
                                         pointQuality extras) [0..<pointCount]\<rparr>)"

section \<open>The pairing finds the quality of the nearest ancestor\<close>

text \<open>
  The ancestor prefixes of \<open>ref\<close> the search visits from length \<open>n\<close>: \<open>n\<close> itself and every
  position of a separator before it.
\<close>

definition ancestor :: "string \<Rightarrow> nat \<Rightarrow> nat \<Rightarrow> bool" where
  "ancestor ref n l \<longleftrightarrow> l = n \<or> (l < n \<and> l < length ref \<and> ref ! l = CHR ''$'')"

text \<open>Entry \<open>j\<close> is the quality attribute of prefix \<open>l\<close> of \<open>ref\<close>.\<close>

definition quality_of :: "string option list \<Rightarrow> string \<Rightarrow> nat \<Rightarrow> nat \<Rightarrow> bool" where
  "quality_of refs ref l j \<longleftrightarrow> j < length refs \<and> refs ! j = Some (take l ref @ ''$q'')"

lemma splitReference_iff:
  "IpcDispatcherUseCases_splitReference r = Some (n, da) \<longleftrightarrow>
     (\<exists>p. r = Some (p @ CHR ''$'' # da) \<and> CHR ''$'' \<notin> set da \<and> n = length p)"
proof
  assume "IpcDispatcherUseCases_splitReference r = Some (n, da)"
  then show "\<exists>p. r = Some (p @ CHR ''$'' # da) \<and> CHR ''$'' \<notin> set da \<and> n = length p"
    by (auto simp: IpcDispatcherUseCases_splitReference_def strrchr_Some_iff split: option.splits)
next
  assume "\<exists>p. r = Some (p @ CHR ''$'' # da) \<and> CHR ''$'' \<notin> set da \<and> n = length p"
  then show "IpcDispatcherUseCases_splitReference r = Some (n, da)"
    by (auto simp: IpcDispatcherUseCases_splitReference_def strrchr_append_dollar)
qed

lemma isQualityAt_iff:
  assumes "l \<le> length ref"
  shows "isQualityAt ref vi l (j, other) \<longleftrightarrow> j \<noteq> vi \<and> other = Some (take l ref @ ''$q'')"
proof
  assume "isQualityAt ref vi l (j, other)"
  then obtain p where "j \<noteq> vi" "other = Some (p @ ''$q'')" "length p = l" "strneq (p @ ''$q'') ref l"
    by (auto simp: isQualityAt_def splitReference_iff split: option.splits)
  then show "j \<noteq> vi \<and> other = Some (take l ref @ ''$q'')" by (simp add: strneq_def)
next
  assume a: "j \<noteq> vi \<and> other = Some (take l ref @ ''$q'')"
  have "IpcDispatcherUseCases_splitReference other = Some (l, ''q'')"
    unfolding splitReference_iff using a assms by auto
  with a assms show "isQualityAt ref vi l (j, other)" by (simp add: isQualityAt_def strneq_def)
qed

lemma level_search_None:
  assumes "l \<le> length ref"
  shows "find_index (isQualityAt ref vi l) (enumerate 0 refs) = None \<longleftrightarrow> (\<forall>j. j \<noteq> vi \<longrightarrow> \<not> quality_of refs ref l j)"
proof -
  have "(\<forall>x \<in> set (enumerate 0 refs). \<not> isQualityAt ref vi l x) \<longleftrightarrow>
      (\<forall>j < length refs. \<not> isQualityAt ref vi l (j, refs ! j))"
    by (auto simp: in_set_enumerate_eq)
  then show ?thesis by (auto simp: isQualityAt_iff [OF assms] quality_of_def)
qed

lemma level_search_Some:
  assumes "l \<le> length ref" and "find_index (isQualityAt ref vi l) (enumerate 0 refs) = Some j"
  shows "quality_of refs ref l j \<and> j \<noteq> vi \<and> (\<forall>i < j. i \<noteq> vi \<longrightarrow> \<not> quality_of refs ref l i)"
proof -
  from find_index_SomeD [OF assms(2)] have j: "j < length refs" "isQualityAt ref vi l (j, refs ! j)"
    and m: "\<forall>i < j. \<not> isQualityAt ref vi l (i, refs ! i)"
    by (auto simp: nth_enumerate_eq)
  then show ?thesis by (auto simp: isQualityAt_iff [OF assms(1)] quality_of_def)
qed

text \<open>What the search returns from length \<open>n\<close>: the first quality entry of the deepest ancestor that has one.\<close>

definition nearest_quality :: "string option list \<Rightarrow> string \<Rightarrow> nat \<Rightarrow> nat \<Rightarrow> nat option \<Rightarrow> bool" where
  "nearest_quality refs ref vi n result \<longleftrightarrow>
     (case result of
        None \<Rightarrow> \<forall>l j. ancestor ref n l \<longrightarrow> j \<noteq> vi \<longrightarrow> \<not> quality_of refs ref l j
      | Some j \<Rightarrow> \<exists>l. ancestor ref n l \<and> j \<noteq> vi \<and> quality_of refs ref l j
          \<and> (\<forall>i < j. i \<noteq> vi \<longrightarrow> \<not> quality_of refs ref l i)
          \<and> (\<forall>l' i. ancestor ref n l' \<longrightarrow> l < l' \<longrightarrow> i \<noteq> vi \<longrightarrow> \<not> quality_of refs ref l' i))"

lemma ancestor_step:
  assumes "strrchr (take n ref) (CHR ''$'') = Some k" and "n \<le> length ref"
  shows "ancestor ref n l \<longleftrightarrow> l = n \<or> ancestor ref k l" and "k < n"
proof -
  from strrchr_SomeD [OF assms(1)] assms(2) have k: "k < n" "ref ! k = CHR ''$''"
    "CHR ''$'' \<notin> set (drop (Suc k) (take n ref))" by auto
  have "ref ! l \<noteq> CHR ''$''" if "k < l" "l < n" for l
  proof
    assume "ref ! l = CHR ''$''"
    then have "drop (Suc k) (take n ref) ! (l - Suc k) = CHR ''$''" using that assms(2) by simp
    moreover have "l - Suc k < length (drop (Suc k) (take n ref))" using that assms(2) by simp
    ultimately show False using k(3) nth_mem by metis
  qed
  then show "ancestor ref n l \<longleftrightarrow> l = n \<or> ancestor ref k l"
    using k(1,2) assms(2) unfolding ancestor_def by (metis le_trans less_trans linorder_neqE_nat not_le)
  show "k < n" by (rule k(1))
qed

lemma qualitySearch_nearest:
  "n \<le> length ref \<Longrightarrow> nearest_quality refs ref vi n (qualitySearch refs ref vi n)"
proof (induction refs ref vi n rule: qualitySearch.induct)
  case (1 refs ref vi n)
  show ?case
  proof (cases "find_index (isQualityAt ref vi n) (enumerate 0 refs)")
    case (Some j)
    from level_search_Some [OF 1(2) Some] show ?thesis
      unfolding qualitySearch.simps [of refs ref vi n] nearest_quality_def
      by (auto simp: Some ancestor_def)
  next
    case None
    note here = level_search_None [OF 1(2), of vi refs, THEN iffD1, OF None]
    show ?thesis
    proof (cases "strrchr (take n ref) (CHR ''$'')")
      case None': None
      then have "CHR ''$'' \<notin> set (take n ref)" by simp
      then have "l = n" if "ancestor ref n l" for l
        using that 1(2) by (auto simp: ancestor_def in_set_conv_nth)
      with here show ?thesis
        unfolding qualitySearch.simps [of refs ref vi n] nearest_quality_def by (auto simp: None None' simp del: find_index_None_iff)
    next
      case (Some k)
      note st = ancestor_step [OF Some 1(2)]
      have IH: "nearest_quality refs ref vi k (qualitySearch refs ref vi k)"
        using 1(1) [OF None Some] st(2) 1(2) by simp
      have "qualitySearch refs ref vi n = qualitySearch refs ref vi k"
        using None Some by (simp add: qualitySearch.simps [of refs ref vi n] del: find_index_None_iff)
      with IH here st show ?thesis
        unfolding nearest_quality_def by (auto split: option.splits)
    qed
  qed
qed

lemma splitReference_None_iff:
  "IpcDispatcherUseCases_splitReference r = None \<longleftrightarrow> (\<forall>s. r = Some s \<longrightarrow> CHR ''$'' \<notin> set s)"
  by (auto simp: IpcDispatcherUseCases_splitReference_def strrchr_Some_iff split: option.splits)

lemma last_separator_unique:
  assumes "p' @ CHR ''$'' # da' = p @ CHR ''$'' # da" and "CHR ''$'' \<notin> set da'" and "CHR ''$'' \<notin> set da"
  shows "p' = p \<and> da' = da"
proof -
  have "length p' = length p"
    using strrchr_append_dollar [OF assms(2), of p'] strrchr_append_dollar [OF assms(3), of p] assms(1) by simp
  with assms(1) show ?thesis by simp
qed

lemma is_q_iff:
  "(\<exists>p. r = Some (p @ ''$q'')) \<longleftrightarrow> (\<exists>n. IpcDispatcherUseCases_splitReference r = Some (n, ''q''))"
  by (auto simp: splitReference_iff)

lemma pairStep_fst:
  "map fst (pairStep refs i) = (if \<exists>p. refs ! i = Some (p @ ''$q'') then [] else [i])"
  unfolding is_q_iff by (auto simp: pairStep_def split: option.splits)

lemma pairStep_quality:
  assumes "(k, qi) \<in> set (pairStep refs i)"
  shows "k = i \<and> (\<forall>p da. refs ! i = Some (p @ CHR ''$'' # da) \<and> CHR ''$'' \<notin> set da
      \<longrightarrow> nearest_quality refs (p @ CHR ''$'' # da) i (length p) qi)
    \<and> ((\<forall>s. refs ! i = Some s \<longrightarrow> CHR ''$'' \<notin> set s) \<longrightarrow> qi = None)"
proof (cases "IpcDispatcherUseCases_splitReference (refs ! i)")
  case None
  with assms show ?thesis using splitReference_None_iff [of "refs ! i"] by (auto simp: pairStep_def)
next
  case (Some pd)
  obtain n da where pd: "pd = (n, da)" by fastforce
  from Some pd obtain p where p: "refs ! i = Some (p @ CHR ''$'' # da)" "CHR ''$'' \<notin> set da" "n = length p"
    by (auto simp: splitReference_iff)
  have k: "k = i" "qi = qualitySearch refs (p @ CHR ''$'' # da) i (length p)"
    using assms Some pd p by (auto simp: pairStep_def findQualityIndexForValue_def split: if_splits)
  have n: "nearest_quality refs (p @ CHR ''$'' # da) i (length p) qi"
    unfolding k(2) by (rule qualitySearch_nearest) simp
  have "nearest_quality refs (p' @ CHR ''$'' # da') i (length p') qi"
    if "refs ! i = Some (p' @ CHR ''$'' # da')" "CHR ''$'' \<notin> set da'" for p' da'
  proof -
    have "p' = p \<and> da' = da" using that p(1,2) by (intro last_separator_unique) simp_all
    with n show ?thesis by simp
  qed
  moreover have "\<not> (\<forall>s. refs ! i = Some s \<longrightarrow> CHR ''$'' \<notin> set s)" using p(1) by simp
  ultimately show ?thesis using k(1) by blast
qed

text \<open>Every value entry is emitted once, in order, and quality entries are never emitted
  themselves; the quality paired with a value is the first quality attribute of its nearest
  ancestor (the data attribute's own level first, then one separator further up each time)
  and there is none exactly when no ancestor level has a quality attribute, or the reference
  is NULL or has no separator.\<close>

theorem pair_quality_nearest:
  "map fst (IpcDispatcherUseCases_pairQuality refs)
     = filter (\<lambda>i. \<not> (\<exists>p. refs ! i = Some (p @ ''$q''))) [0..<length refs]
   \<and> (\<forall>(i, qi) \<in> set (IpcDispatcherUseCases_pairQuality refs).
       (\<forall>p da. refs ! i = Some (p @ CHR ''$'' # da) \<and> CHR ''$'' \<notin> set da
          \<longrightarrow> nearest_quality refs (p @ CHR ''$'' # da) i (length p) qi)
       \<and> ((\<forall>s. refs ! i = Some s \<longrightarrow> CHR ''$'' \<notin> set s) \<longrightarrow> qi = None))"
proof
  have "concat (map (\<lambda>i. map fst (pairStep refs i)) is)
      = filter (\<lambda>i. \<not> (\<exists>p. refs ! i = Some (p @ ''$q''))) is" for "is"
    unfolding pairStep_fst by (induction "is") auto
  then show "map fst (IpcDispatcherUseCases_pairQuality refs)
     = filter (\<lambda>i. \<not> (\<exists>p. refs ! i = Some (p @ ''$q''))) [0..<length refs]"
    unfolding IpcDispatcherUseCases_pairQuality_def map_concat map_map comp_def .
next
  show "\<forall>(i, qi) \<in> set (IpcDispatcherUseCases_pairQuality refs).
       (\<forall>p da. refs ! i = Some (p @ CHR ''$'' # da) \<and> CHR ''$'' \<notin> set da
          \<longrightarrow> nearest_quality refs (p @ CHR ''$'' # da) i (length p) qi)
       \<and> ((\<forall>s. refs ! i = Some s \<longrightarrow> CHR ''$'' \<notin> set s) \<longrightarrow> qi = None)"
    unfolding IpcDispatcherUseCases_pairQuality_def using pairStep_quality [of _ _ refs] by fastforce
qed

text \<open>A measurement two levels below its quality: the search passes \<open>A$mag\<close> and finds \<open>A$q\<close>.\<close>

lemma pair_quality_nearest_witness:
  "IpcDispatcherUseCases_pairQuality [Some ''A$mag$f'', Some ''A$q''] = [(0, Some 1)]
   \<and> nearest_quality [Some ''A$mag$f'', Some ''A$q''] ''A$mag$f'' 0 5 (Some 1)"
proof -
  have "IpcDispatcherUseCases_pairQuality [Some ''A$mag$f'', Some ''A$q''] = [(0, Some 1)]"
    by (simp add: IpcDispatcherUseCases_pairQuality_def pairStep_def IpcDispatcherUseCases_splitReference_def
        findQualityIndexForValue_def qualitySearch.simps isQualityAt_def strneq_def upt_rec
        del: find_index_None_iff)
  moreover from this have "(0, Some 1) \<in> set (IpcDispatcherUseCases_pairQuality [Some ''A$mag$f'', Some ''A$q''])"
    by simp
  with pair_quality_nearest [of "[Some ''A$mag$f'', Some ''A$q'']"]
  have "[Some ''A$mag$f'', Some ''A$q''] ! 0 = Some (''A$mag'' @ CHR ''$'' # ''f'') \<and> CHR ''$'' \<notin> set ''f''
      \<longrightarrow> nearest_quality [Some ''A$mag$f'', Some ''A$q''] (''A$mag'' @ CHR ''$'' # ''f'') 0 (length ''A$mag'') (Some 1)"
    by blast
  then have "nearest_quality [Some ''A$mag$f'', Some ''A$q''] ''A$mag$f'' 0 5 (Some 1)"
    by (simp add: eval_nat_numeral)
  ultimately show ?thesis by simp
qed

end
