(* ===== verification/Ipc_Dedup.thy ===== *)
theory Ipc_Dedup
  imports Ipc_Pairing
begin

text \<open>
  \<open>ipc_dispatcher/domain/ipc_dispatcher_usecases.c\<close>, second half, and
  \<open>ipc_dispatcher/data/ipc_dispatcher_dedup_cache.c\<close>: suppression of a change that another
  source of the same protocol already forwarded, with a ring of the last 128 forwarded
  points. A call is one critical section of the cache's lock.
\<close>

section \<open>State and operations\<close>

definition IPC_DISPATCHER_DEDUP_CAPACITY :: nat where
  "IPC_DISPATCHER_DEDUP_CAPACITY = 128"

record IpcDispatcherDedupEntry =
  dd_sourceId :: "string option"
  dd_reference :: "string option"
  dd_value :: IpcScalarValue
  dd_hasQuality :: bool
  dd_quality :: IpcQuality

definition zero_entry :: IpcDispatcherDedupEntry where
  "zero_entry = \<lparr>dd_sourceId = None, dd_reference = None, dd_value = zero_scalar,
     dd_hasQuality = False, dd_quality = zero_quality\<rparr>"

record IpcDispatcherDedupCache =
  dc_history :: "IpcDispatcherDedupEntry list"
  dc_count :: nat
  dc_nextSlot :: nat

text \<open>\<open>==\<close> on doubles, on their bit patterns: a NaN equals nothing, the two zeros are equal.\<close>

definition double_nan :: "u64 \<Rightarrow> bool" where
  "double_nan w \<longleftrightarrow> (unat w div 2 ^ 52) mod 2 ^ 11 = 2 ^ 11 - 1 \<and> unat w mod 2 ^ 52 \<noteq> 0"

definition double_zero :: "u64 \<Rightarrow> bool" where
  "double_zero w \<longleftrightarrow> unat w mod 2 ^ 63 = 0"

definition double_eq :: "u64 \<Rightarrow> u64 \<Rightarrow> bool" where
  "double_eq a b \<longleftrightarrow> \<not> double_nan a \<and> \<not> double_nan b \<and> (a = b \<or> (double_zero a \<and> double_zero b))"

fun scalarValuesEqual :: "IpcScalarValue \<Rightarrow> IpcScalarValue \<Rightarrow> bool" where
  "scalarValuesEqual (IPC_SCALAR_BOOL a) (IPC_SCALAR_BOOL b) = (a = b)"
| "scalarValuesEqual (IPC_SCALAR_INT64 a) (IPC_SCALAR_INT64 b) = (a = b)"
| "scalarValuesEqual (IPC_SCALAR_UINT64 a) (IPC_SCALAR_UINT64 b) = (a = b)"
| "scalarValuesEqual (IPC_SCALAR_DOUBLE a) (IPC_SCALAR_DOUBLE b) = double_eq a b"
| "scalarValuesEqual (IPC_SCALAR_STRING a) (IPC_SCALAR_STRING b) = (a = b)"
| "scalarValuesEqual (IPC_SCALAR_RAW a) (IPC_SCALAR_RAW b) = (a = b)"
| "scalarValuesEqual _ _ = False"

definition dedupEntryMatches ::
    "IpcDispatcherDedupEntry \<Rightarrow> string option \<Rightarrow> string option \<Rightarrow> IpcScalarValue \<Rightarrow> bool \<Rightarrow> IpcQuality \<Rightarrow> bool" where
  "dedupEntryMatches slot sourceId reference val hasQuality quality =
     (if dd_sourceId slot = None \<or> sourceId = None \<or> dd_sourceId slot = sourceId then False
      else if (dd_reference slot = None) \<noteq> (reference = None) then False
      else if dd_reference slot \<noteq> None \<and> reference \<noteq> None \<and> dd_reference slot \<noteq> reference then False
      else if \<not> scalarValuesEqual (dd_value slot) val then False
      else if dd_hasQuality slot \<noteq> hasQuality then False
      else if hasQuality \<and> (q_validity (dd_quality slot) \<noteq> q_validity quality
                             \<or> q_detailFlags (dd_quality slot) \<noteq> q_detailFlags quality) then False
      else True)"

definition pushDedupEntry ::
    "IpcDispatcherDedupCache \<Rightarrow> string option \<Rightarrow> string option \<Rightarrow> IpcScalarValue \<Rightarrow> bool \<Rightarrow> IpcQuality
     \<Rightarrow> IpcDispatcherDedupCache" where
  "pushDedupEntry cache sourceId reference val hasQuality quality =
     \<lparr>dc_history = (dc_history cache)[dc_nextSlot cache :=
        \<lparr>dd_sourceId = sourceId, dd_reference = reference, dd_value = val,
         dd_hasQuality = hasQuality, dd_quality = quality\<rparr>],
      dc_count = (if dc_count cache < IPC_DISPATCHER_DEDUP_CAPACITY then dc_count cache + 1 else dc_count cache),
      dc_nextSlot = (dc_nextSlot cache + 1) mod IPC_DISPATCHER_DEDUP_CAPACITY\<rparr>"

definition IpcDispatcherUseCases_shouldForwardWithinProtocol ::
    "IpcDispatcherDedupCache option \<Rightarrow> string option \<Rightarrow> string option \<Rightarrow> IpcScalarValue \<Rightarrow> bool \<Rightarrow> IpcQuality
     \<Rightarrow> bool \<times> IpcDispatcherDedupCache option" where
  "IpcDispatcherUseCases_shouldForwardWithinProtocol cache sourceId reference val hasQuality quality =
     (case cache of
        None \<Rightarrow> (True, None)
      | Some c \<Rightarrow>
          if list_ex (\<lambda>slot. dedupEntryMatches slot sourceId reference val hasQuality quality)
               (take (dc_count c) (dc_history c))
          then (False, Some c)
          else (True, Some (pushDedupEntry c sourceId reference val hasQuality quality)))"

text \<open>The cache after \<open>destroyDedupCache\<close>: every used slot zeroed.\<close>

definition IpcDispatcherUseCases_destroyDedupCache ::
    "IpcDispatcherDedupCache option \<Rightarrow> IpcDispatcherDedupCache option" where
  "IpcDispatcherUseCases_destroyDedupCache cache =
     map_option (\<lambda>c. \<lparr>dc_history = replicate (dc_count c) zero_entry @ drop (dc_count c) (dc_history c),
        dc_count = 0, dc_nextSlot = 0\<rparr>) cache"

definition IpcDispatcherDedupCache_create :: "bool \<Rightarrow> IpcDispatcherDedupCache option" where
  "IpcDispatcherDedupCache_create okAlloc =
     (if \<not> okAlloc then None
      else Some \<lparr>dc_history = replicate IPC_DISPATCHER_DEDUP_CAPACITY zero_entry, dc_count = 0, dc_nextSlot = 0\<rparr>)"

definition IpcDispatcherDedupCache_shouldForward ::
    "IpcDispatcherDedupCache option \<Rightarrow> string option \<Rightarrow> string option \<Rightarrow> IpcScalarValue \<Rightarrow> bool \<Rightarrow> IpcQuality
     \<Rightarrow> bool \<times> IpcDispatcherDedupCache option" where
  "IpcDispatcherDedupCache_shouldForward handle sourceId reference val hasQuality quality =
     (case handle of
        None \<Rightarrow> (True, None)
      | Some c \<Rightarrow> IpcDispatcherUseCases_shouldForwardWithinProtocol (Some c) sourceId reference val hasQuality quality)"

declare IpcDispatcherUseCases_shouldForwardWithinProtocol_def [dedup_simps]
  and IpcDispatcherDedupCache_shouldForward_def [dedup_simps]
  and pushDedupEntry_def [dedup_simps]

section \<open>Content of a point\<close>

type_synonym content = "string option \<times> IpcScalarValue \<times> bool \<times> IpcQuality"

definition content_of :: "IpcDispatcherDedupEntry \<Rightarrow> content" where
  "content_of e = (dd_reference e, dd_value e, dd_hasQuality e, dd_quality e)"

fun same_content :: "content \<Rightarrow> content \<Rightarrow> bool" where
  "same_content (r, v, h, q) (r', v', h', q') \<longleftrightarrow>
     r = r' \<and> scalarValuesEqual v v' \<and> h = h' \<and> (h \<longrightarrow> q = q')"

lemma double_eq_sym: "double_eq a b \<Longrightarrow> double_eq b a"
  by (auto simp: double_eq_def)

lemma double_eq_trans: "double_eq a b \<Longrightarrow> double_eq b c \<Longrightarrow> double_eq a c"
  by (auto simp: double_eq_def)

lemma scalar_eq_sym: "scalarValuesEqual a b \<Longrightarrow> scalarValuesEqual b a"
  by (induction a b rule: scalarValuesEqual.induct) (auto simp: double_eq_sym)

lemma scalar_eq_trans: "scalarValuesEqual a b \<Longrightarrow> scalarValuesEqual b c \<Longrightarrow> scalarValuesEqual a c"
  by (cases a; cases b; cases c) (auto intro: double_eq_trans)

lemma same_content_sym: "same_content c d \<Longrightarrow> same_content d c"
  by (cases c; cases d) (auto intro: scalar_eq_sym)

lemma same_content_trans: "same_content c d \<Longrightarrow> same_content d e \<Longrightarrow> same_content c e"
  by (cases c; cases d; cases e) (auto intro: scalar_eq_trans)

lemma matches_iff:
  "dedupEntryMatches slot src r v h q \<longleftrightarrow>
     dd_sourceId slot \<noteq> None \<and> src \<noteq> None \<and> dd_sourceId slot \<noteq> src \<and> same_content (content_of slot) (r, v, h, q)"
proof -
  have "a = b \<longleftrightarrow> q_validity a = q_validity b \<and> q_detailFlags a = q_detailFlags b" for a b :: IpcQuality
    by (cases a; cases b) simp
  then show ?thesis by (auto simp: dedupEntryMatches_def content_of_def)
qed


section \<open>Filters with one owner per content\<close>

fun report_all :: "('c \<Rightarrow> 's \<Rightarrow> 'k \<Rightarrow> bool \<times> 'c) \<Rightarrow> 'c \<Rightarrow> ('s \<times> 'k) list \<Rightarrow> bool list \<times> 'c" where
  "report_all step c [] = ([], c)"
| "report_all step c ((s, k) # rs) =
     (let (f, c') = step c s k; (fs, c'') = report_all step c' rs in (f # fs, c''))"

text \<open>
  The contract of a filter that drops a report only when another source owns its content:
  an owner is never dropped, a content has at most one owner, only a source that reported
  becomes an owner, and dropping changes nothing.
\<close>

locale source_filter =
  fixes finv :: "'c \<Rightarrow> bool"
    and owns :: "'c \<Rightarrow> 'k \<Rightarrow> 's \<Rightarrow> bool"
    and step :: "'c \<Rightarrow> 's \<Rightarrow> 'k \<Rightarrow> bool \<times> 'c"
  assumes dropped: "finv c \<Longrightarrow> step c s k = (False, c') \<Longrightarrow> c' = c \<and> (\<exists>s'. owns c k s' \<and> s' \<noteq> s)"
    and one_owner: "finv c \<Longrightarrow> owns c k s \<Longrightarrow> owns c k s' \<Longrightarrow> s = s'"
    and step_inv: "finv c \<Longrightarrow> finv (snd (step c s k))"
    and step_owns: "finv c \<Longrightarrow> owns (snd (step c s k)) k' s' \<Longrightarrow> owns c k' s' \<or> s' = s"
begin

lemma report_all_inv: "finv c \<Longrightarrow> finv (snd (report_all step c rs))"
proof (induction rs arbitrary: c)
  case (Cons r rs)
  then show ?case
    using step_inv [of c "fst r" "snd r"] by (cases r) (auto simp: split_beta)
qed simp

lemma report_all_owns:
  "finv c \<Longrightarrow> owns (snd (report_all step c rs)) k s \<Longrightarrow> owns c k s \<or> s \<in> fst ` set rs"
proof (induction rs arbitrary: c)
  case (Cons r rs)
  obtain s0 k0 where r: "r = (s0, k0)" by fastforce
  have "owns (snd (step c s0 k0)) k s \<or> s \<in> fst ` set rs"
    using Cons.IH [of "snd (step c s0 k0)"] Cons.prems step_inv [of c s0 k0] by (simp add: r split_beta)
  then show ?case using step_owns [OF Cons.prems(1), of s0 k0 k s] by (auto simp: r)
qed simp

text \<open>If every owner reports the content, someone is let through.\<close>

lemma some_report_passes:
  assumes "finv c" and "ss \<noteq> []" and "\<And>s. owns c k s \<Longrightarrow> s \<in> set ss"
  shows "True \<in> set (fst (report_all step c (map (\<lambda>s. (s, k)) ss)))"
proof (rule ccontr)
  assume no: "True \<notin> set (fst (report_all step c (map (\<lambda>s. (s, k)) ss)))"
  have all: "\<forall>s \<in> set ss. \<exists>s'. owns c k s' \<and> s' \<noteq> s"
    using no
  proof (induction ss)
    case (Cons s ss)
    obtain f c' where st: "step c s k = (f, c')" by fastforce
    with Cons.prems have f: "\<not> f" by (auto simp: split_beta)
    with st dropped [OF assms(1), of s k c'] have "c' = c" "\<exists>s'. owns c k s' \<and> s' \<noteq> s" by auto
    with Cons st show ?case by (auto simp: split_beta)
  qed simp
  obtain s0 where "s0 \<in> set ss" using assms(2) by (cases ss) auto
  then obtain s1 where s1: "owns c k s1" using all by blast
  with assms(3) all obtain s2 where "owns c k s2" "s2 \<noteq> s1" by blast
  with one_owner [OF assms(1) s1] show False by blast
qed

end

section \<open>The cache is such a filter\<close>

definition dedup_report :: "IpcDispatcherDedupCache \<Rightarrow> string \<Rightarrow> content \<Rightarrow> bool \<times> IpcDispatcherDedupCache" where
  "dedup_report c s k =
     (case k of (r, v, h, q) \<Rightarrow> map_prod id the (IpcDispatcherDedupCache_shouldForward (Some c) (Some s) r v h q))"

abbreviation dedup_live :: "IpcDispatcherDedupCache \<Rightarrow> IpcDispatcherDedupEntry list" where
  "dedup_live c \<equiv> take (dc_count c) (dc_history c)"

definition dedup_owns :: "IpcDispatcherDedupCache \<Rightarrow> content \<Rightarrow> string \<Rightarrow> bool" where
  "dedup_owns c k s \<longleftrightarrow> (\<exists>e \<in> set (dedup_live c). dd_sourceId e = Some s \<and> same_content (content_of e) k)"

definition dedup_ok :: "IpcDispatcherDedupCache \<Rightarrow> bool" where
  "dedup_ok c \<longleftrightarrow> length (dc_history c) = IPC_DISPATCHER_DEDUP_CAPACITY
     \<and> dc_count c \<le> IPC_DISPATCHER_DEDUP_CAPACITY \<and> dc_nextSlot c < IPC_DISPATCHER_DEDUP_CAPACITY
     \<and> (dc_count c < IPC_DISPATCHER_DEDUP_CAPACITY \<longrightarrow> dc_nextSlot c = dc_count c)"

definition dedup_inv :: "IpcDispatcherDedupCache \<Rightarrow> bool" where
  "dedup_inv c \<longleftrightarrow> dedup_ok c \<and> (\<forall>k s s'. dedup_owns c k s \<longrightarrow> dedup_owns c k s' \<longrightarrow> s = s')"

definition new_entry :: "string \<Rightarrow> content \<Rightarrow> IpcDispatcherDedupEntry" where
  "new_entry s k = (case k of (r, v, h, q) \<Rightarrow> \<lparr>dd_sourceId = Some s, dd_reference = r, dd_value = v,
     dd_hasQuality = h, dd_quality = q\<rparr>)"

definition push_new :: "IpcDispatcherDedupCache \<Rightarrow> string \<Rightarrow> content \<Rightarrow> IpcDispatcherDedupCache" where
  "push_new c s k = (case k of (r, v, h, q) \<Rightarrow> pushDedupEntry c (Some s) r v h q)"

lemma new_entry_simps [simp]: "dd_sourceId (new_entry s k) = Some s" "content_of (new_entry s k) = k"
  by (cases k, simp add: new_entry_def content_of_def)+

lemma push_new_simps:
  "dc_history (push_new c s k) = (dc_history c)[dc_nextSlot c := new_entry s k]"
  "dc_count (push_new c s k) = (if dc_count c < IPC_DISPATCHER_DEDUP_CAPACITY then dc_count c + 1 else dc_count c)"
  "dc_nextSlot (push_new c s k) = (dc_nextSlot c + 1) mod IPC_DISPATCHER_DEDUP_CAPACITY"
  by (cases k, simp add: push_new_def new_entry_def pushDedupEntry_def)+

text \<open>A report is dropped exactly when another source owns its content.\<close>

lemma dedup_report_eq:
  "dedup_report c s k =
     (if \<exists>s'. dedup_owns c k s' \<and> s' \<noteq> s then (False, c) else (True, push_new c s k))"
proof -
  obtain r v h q where k: "k = (r, v, h, q)" by (metis prod_cases4)
  have "list_ex (\<lambda>slot. dedupEntryMatches slot (Some s) r v h q) (dedup_live c)
      \<longleftrightarrow> (\<exists>s'. dedup_owns c k s' \<and> s' \<noteq> s)"
    unfolding list_ex_iff matches_iff dedup_owns_def k by auto
  then show ?thesis by (simp add: dedup_report_def dedup_simps push_new_def k)
qed

lemma push_new_ok: "dedup_ok c \<Longrightarrow> dedup_ok (push_new c s k)"
  by (auto simp: dedup_ok_def push_new_simps IPC_DISPATCHER_DEDUP_CAPACITY_def)

lemma push_new_live:
  assumes "dedup_ok c"
  shows "set (dedup_live (push_new c s k)) \<subseteq> insert (new_entry s k) (set (dedup_live c))"
proof (cases "dc_count c < IPC_DISPATCHER_DEDUP_CAPACITY")
  case True
  with assms have "dedup_live (push_new c s k) = dedup_live c @ [new_entry s k]"
    by (simp add: dedup_ok_def push_new_simps take_Suc_conv_app_nth take_update_cancel)
  then show ?thesis by simp
next
  case False
  with assms have "dedup_live (push_new c s k) = (dedup_live c)[dc_nextSlot c := new_entry s k]"
    by (simp add: dedup_ok_def push_new_simps)
  then show ?thesis using set_update_subset_insert [of "dedup_live c"] by simp
qed

lemma push_new_owns:
  assumes "dedup_ok c" and "dedup_owns (push_new c s k) k' s'"
  shows "dedup_owns c k' s' \<or> (s' = s \<and> same_content k k')"
  using assms(2) push_new_live [OF assms(1), of s k] unfolding dedup_owns_def by fastforce

lemma push_new_inv:
  assumes "dedup_inv c" and "\<And>s'. dedup_owns c k s' \<Longrightarrow> s' = s"
  shows "dedup_inv (push_new c s k)"
proof -
  have ok: "dedup_ok c" and u: "\<And>k s s'. dedup_owns c k s \<Longrightarrow> dedup_owns c k s' \<Longrightarrow> s = s'"
    using assms(1) by (auto simp: dedup_inv_def)
  have move: "dedup_owns c k s'" if "dedup_owns c k' s'" "same_content k k'" for k' s'
    using that unfolding dedup_owns_def by (blast intro: same_content_trans same_content_sym)
  have "a = b" if "dedup_owns (push_new c s k) k' a" "dedup_owns (push_new c s k) k' b" for k' a b
    using push_new_owns [OF ok that(1)] push_new_owns [OF ok that(2)] u assms(2) move by blast
  with push_new_ok [OF ok] show ?thesis by (auto simp: dedup_inv_def)
qed

interpretation ddp: source_filter dedup_inv dedup_owns dedup_report
proof (unfold_locales, goal_cases)
  case (1 c s k c')
  then show ?case by (auto simp: dedup_report_eq split: if_splits)
next
  case (2 c k s s')
  then show ?case unfolding dedup_inv_def by blast
next
  case (3 c s k)
  then show ?case using push_new_inv [OF 3, of k s] by (auto simp: dedup_report_eq)
next
  case (4 c s k k' s')
  then have "dedup_ok c" by (simp add: dedup_inv_def)
  with 4 push_new_owns [of c s k k' s'] show ?case by (auto simp: dedup_report_eq split: if_splits)
qed

definition fresh_dedup :: IpcDispatcherDedupCache where
  "fresh_dedup = the (IpcDispatcherDedupCache_create True)"

lemma fresh_dedup_inv: "dedup_inv fresh_dedup" and fresh_owns: "\<not> dedup_owns fresh_dedup k s"
  by (simp_all add: fresh_dedup_def IpcDispatcherDedupCache_create_def dedup_inv_def dedup_ok_def
      dedup_owns_def IPC_DISPATCHER_DEDUP_CAPACITY_def)

text \<open>C4. Suppression loses no change that every source reports: after any history of reports,
  when the sources of the history all report a content (in any order, possibly among others),
  at least one of these reports is forwarded.\<close>

theorem dedup_no_change_lost:
  assumes "set (map fst history) \<subseteq> set sources" and "sources \<noteq> []"
    and "cache = snd (report_all dedup_report fresh_dedup history)"
  shows "True \<in> set (fst (report_all dedup_report cache (map (\<lambda>s. (s, k)) sources)))"
proof (rule ddp.some_report_passes)
  show "dedup_inv cache" unfolding assms(3) by (rule ddp.report_all_inv [OF fresh_dedup_inv])
  show "s \<in> set sources" if "dedup_owns cache k s" for s
    using ddp.report_all_owns [OF fresh_dedup_inv that [unfolded assms(3)]] fresh_owns assms(1) by auto
qed (rule assms(2))

section \<open>How long a point is remembered\<close>

text \<open>The pushes slot \<open>i\<close> survives before it is overwritten.\<close>

definition room :: "IpcDispatcherDedupCache \<Rightarrow> nat \<Rightarrow> nat" where
  "room c i = (i + IPC_DISPATCHER_DEDUP_CAPACITY - dc_nextSlot c) mod IPC_DISPATCHER_DEDUP_CAPACITY"

lemma room_push:
  assumes "dedup_ok c" and "i < IPC_DISPATCHER_DEDUP_CAPACITY" and "0 < room c i"
  shows "room (push_new c s k) i = room c i - 1" and "i \<noteq> dc_nextSlot c"
proof -
  show ne: "i \<noteq> dc_nextSlot c"
    using assms by (auto simp: room_def dedup_ok_def)
  have n: "dc_nextSlot c < 128" "i < 128" using assms by (simp_all add: dedup_ok_def IPC_DISPATCHER_DEDUP_CAPACITY_def)
  have "(i + 128 - (dc_nextSlot c + 1) mod 128) mod 128 = (i + 128 - dc_nextSlot c) mod 128 - 1"
  proof (cases "i < dc_nextSlot c")
    case True
    then show ?thesis
      using n by (cases "dc_nextSlot c = 127") (simp_all add: less_Suc_eq_le Suc_diff_le)
  next
    case False
    then obtain d where "i = dc_nextSlot c + Suc d" using ne less_imp_Suc_add [of "dc_nextSlot c" i] by auto
    moreover from this n(2) have "(129 + d) mod 128 = Suc d"
      using mod_add_self1 [of 128 "Suc d"] by simp
    ultimately show ?thesis using n by simp
  qed
  then show "room (push_new c s k) i = room c i - 1"
    by (simp add: room_def push_new_simps IPC_DISPATCHER_DEDUP_CAPACITY_def)
qed

lemma reports_keep_slot:
  assumes "dedup_inv c" and "i < dc_count c" and "dc_history c ! i = e"
    and "length (filter (\<lambda>b. b) (fst (report_all dedup_report c rs))) \<le> room c i"
  shows "i < dc_count (snd (report_all dedup_report c rs))
    \<and> dc_history (snd (report_all dedup_report c rs)) ! i = e"
  using assms
proof (induction rs arbitrary: c)
  case (Cons r rs)
  obtain t k where r: "r = (t, k)" by (cases r)
  have ok: "dedup_ok c" using Cons.prems(1) by (simp add: dedup_inv_def)
  have i: "i < IPC_DISPATCHER_DEDUP_CAPACITY" using ok Cons.prems(2) by (simp add: dedup_ok_def)
  obtain f c1 where st: "dedup_report c t k = (f, c1)" by fastforce
  have inv1: "dedup_inv c1" using ddp.step_inv [OF Cons.prems(1), of t k] st by simp
  show ?case
  proof (cases f)
    case False
    with st have "c1 = c" by (auto simp: dedup_report_eq split: if_splits)
    then show ?thesis
      using Cons.IH [OF Cons.prems(1-3)] Cons.prems(4) st False by (simp add: r split_beta)
  next
    case True
    with st have c1: "c1 = push_new c t k" by (auto simp: dedup_report_eq split: if_splits)
    have pos: "0 < room c i" and le: "length (filter (\<lambda>b. b) (fst (report_all dedup_report c1 rs))) \<le> room c i - 1"
      using Cons.prems(4) st True by (simp_all add: r split_beta)
    note rp = room_push(1) [OF ok i pos, of t k] room_push(2) [OF ok i pos]
    have "i < dc_count c1" "dc_history c1 ! i = e"
      using Cons.prems(2,3) rp(2) by (simp_all add: c1 push_new_simps)
    then show ?thesis using Cons.IH [OF inv1] le rp(1) st by (simp add: r split_beta c1)
  qed
qed simp

text \<open>A forwarded point suppresses its duplicates for as long as promised: after a report
  was forwarded, and after any further reports of which fewer than 128 were forwarded, a
  report of the same content by another source is dropped (a NaN, which equals nothing, is
  the exception the hypothesis names).\<close>

theorem dedup_window:
  assumes "cache = snd (report_all dedup_report fresh_dedup history)"
    and "dedup_report cache s k = (True, cache1)" and "same_content k k"
    and "report_all dedup_report cache1 between = (forwarded, cache2)"
    and "length (filter (\<lambda>b. b) forwarded) < IPC_DISPATCHER_DEDUP_CAPACITY" and "t \<noteq> s"
  shows "dedup_report cache2 t k = (False, cache2)"
proof -
  have inv: "dedup_inv cache" unfolding assms(1) by (rule ddp.report_all_inv [OF fresh_dedup_inv])
  have inv1: "dedup_inv cache1" using ddp.step_inv [OF inv, of s k] assms(2) by simp
  have ok: "dedup_ok cache" using inv by (simp add: dedup_inv_def)
  have c1: "cache1 = push_new cache s k" using assms(2) by (auto simp: dedup_report_eq split: if_splits)
  let ?i = "dc_nextSlot cache"
  have i: "?i < 128" "length (dc_history cache) = 128" using ok by (simp_all add: dedup_ok_def IPC_DISPATCHER_DEDUP_CAPACITY_def)
  have h: "dc_history cache1 ! ?i = new_entry s k" using i by (simp add: c1 push_new_simps)
  have cnt: "?i < dc_count cache1"
    using ok by (auto simp: c1 push_new_simps dedup_ok_def IPC_DISPATCHER_DEDUP_CAPACITY_def)
  have "room cache1 ?i = 127"
    using i by (cases "?i = 127") (simp_all add: room_def c1 push_new_simps IPC_DISPATCHER_DEDUP_CAPACITY_def)
  then have "?i < dc_count cache2 \<and> dc_history cache2 ! ?i = new_entry s k"
    using reports_keep_slot [OF inv1 cnt h, of between] assms(4,5) by (simp add: IPC_DISPATCHER_DEDUP_CAPACITY_def)
  moreover have "length (dc_history cache2) = 128"
    using ddp.report_all_inv [OF inv1, of between] assms(4)
    by (simp add: dedup_inv_def dedup_ok_def IPC_DISPATCHER_DEDUP_CAPACITY_def)
  ultimately have "new_entry s k \<in> set (dedup_live cache2)"
    using i(1) by (auto simp: in_set_conv_nth intro!: exI [of _ ?i])
  then have "dedup_owns cache2 k s" using assms(3) unfolding dedup_owns_def by (intro bexI) simp_all
  with assms(6) show ?thesis by (auto simp: dedup_report_eq)
qed

text \<open>What the bounded memory costs: the cache does not know which content of a reference is
  the current one. Two sources A and B report a switch that closes (1), opens (0) and closes
  again; A stops reporting after the first change. The first report of B is dropped as a
  duplicate, its second one is forwarded, and its third one is dropped because of A's report
  of the first change, although the last value forwarded was 0.\<close>

theorem dedup_drops_return_to_old_value:
  defines "closed \<equiv> (Some ''XCBR1$Pos$stVal'', IPC_SCALAR_UINT64 1, False, zero_quality)"
    and "opened \<equiv> (Some ''XCBR1$Pos$stVal'', IPC_SCALAR_UINT64 0, False, zero_quality)"
  shows "fst (report_all dedup_report fresh_dedup
      [(''A'', closed), (''B'', closed), (''B'', opened), (''B'', closed)]) = [True, False, True, False]"
proof -
  define c1 where "c1 = push_new fresh_dedup ''A'' closed"
  define c2 where "c2 = push_new c1 ''B'' opened"
  have l0: "dedup_live fresh_dedup = []" "dc_nextSlot fresh_dedup = 0" "dc_count fresh_dedup = 0"
    "length (dc_history fresh_dedup) = 128"
    by (simp_all add: fresh_dedup_def IpcDispatcherDedupCache_create_def IPC_DISPATCHER_DEDUP_CAPACITY_def)
  have l1: "dedup_live c1 = [new_entry ''A'' closed]" "dc_nextSlot c1 = 1" "dc_count c1 = 1"
    "length (dc_history c1) = 128"
    using l0 by (simp_all add: c1_def push_new_simps IPC_DISPATCHER_DEDUP_CAPACITY_def take_Suc_conv_app_nth)
  have l2: "dedup_live c2 = [new_entry ''A'' closed, new_entry ''B'' opened]"
    using l1 by (simp add: c2_def push_new_simps IPC_DISPATCHER_DEDUP_CAPACITY_def numeral_2_eq_2
        take_Suc_conv_app_nth)
  have "dedup_report fresh_dedup ''A'' closed = (True, c1)"
    by (simp add: dedup_report_eq fresh_owns c1_def)
  moreover have "dedup_report c1 ''B'' closed = (False, c1)"
    unfolding dedup_report_eq dedup_owns_def l1(1) by (auto simp: closed_def)
  moreover have "dedup_report c1 ''B'' opened = (True, c2)"
    unfolding dedup_report_eq dedup_owns_def l1(1) by (auto simp: closed_def opened_def c2_def)
  moreover have "dedup_report c2 ''B'' closed = (False, c2)"
    unfolding dedup_report_eq dedup_owns_def l2 by (auto simp: closed_def opened_def)
  ultimately show ?thesis by simp
qed

lemma dedup_no_change_lost_witness:
  "True \<in> set (fst (report_all dedup_report
     (snd (report_all dedup_report fresh_dedup [(''A'', (Some ''r'', IPC_SCALAR_BOOL True, False, zero_quality))]))
     (map (\<lambda>s. (s, (Some ''r'', IPC_SCALAR_BOOL True, False, zero_quality))) [''B'', ''A''])))"
  by (rule dedup_no_change_lost [OF _ _ refl]) simp_all

lemma dedup_window_witness:
  "dedup_report (snd (dedup_report fresh_dedup ''A'' (Some ''r'', IPC_SCALAR_BOOL True, False, zero_quality)))
     ''B'' (Some ''r'', IPC_SCALAR_BOOL True, False, zero_quality)
   = (False, snd (dedup_report fresh_dedup ''A'' (Some ''r'', IPC_SCALAR_BOOL True, False, zero_quality)))"
  by (rule dedup_window [of fresh_dedup "[]" "''A''" _ _ "[]" "[]"])
    (simp_all add: dedup_report_eq fresh_owns IPC_DISPATCHER_DEDUP_CAPACITY_def)

end
