(* ===== verification/Ipc_Ring_Buffer.thy ===== *)
theory Ipc_Ring_Buffer
  imports Ring_Spec
begin

text \<open>
  \<open>features/ipc_dispatcher/data/ipc_dispatcher_ring_buffer.c\<close>: the bounded broadcast ring
  of serialised messages between the report producers and the websocket service loop. The
  state is the slot array, the capacity and the 64-bit count of messages ever pushed; a
  message is a NULL-able string. Both ring interfaces are interpreted on its operations.
\<close>

record ipc_ring =
  ipc_slots :: "string option list"
  ipc_capacity :: int
  ipc_head :: u64

text \<open>The three allocations (ring, slot array, semaphore) are the Boolean arguments.\<close>

definition IpcDispatcherRingBuffer_create :: "bool \<Rightarrow> bool \<Rightarrow> bool \<Rightarrow> int \<Rightarrow> ipc_ring option" where
  "IpcDispatcherRingBuffer_create okRing okSlots okLock capacity =
     (if capacity \<le> 0 then None
      else if \<not> okRing then None
      else if \<not> okSlots then None
      else if \<not> okLock then None
      else Some \<lparr>ipc_slots = replicate (nat capacity) None, ipc_capacity = capacity, ipc_head = 0\<rparr>)"

text \<open>The strings \<open>destroy\<close> frees.\<close>

definition IpcDispatcherRingBuffer_destroy :: "ipc_ring option \<Rightarrow> string list" where
  "IpcDispatcherRingBuffer_destroy buffer =
     (case buffer of None \<Rightarrow> [] | Some b \<Rightarrow> List.map_filter id (ipc_slots b))"

text \<open>The second component is the string \<open>push\<close> frees.\<close>

definition IpcDispatcherRingBuffer_push ::
    "ipc_ring option \<Rightarrow> string option \<Rightarrow> ipc_ring option \<times> string option" where
  "IpcDispatcherRingBuffer_push buffer json =
     (case buffer of
        None \<Rightarrow> (None, json)
      | Some b \<Rightarrow>
          let slot = ring_slot (ipc_head b) (ipc_capacity b)
          in (Some (b\<lparr>ipc_slots := (ipc_slots b)[slot := json], ipc_head := ipc_head b + 1\<rparr>),
              ipc_slots b ! slot))"

text \<open>
  \<open>okCopy\<close> is the allocation of the returned copy. The result is the message, the advanced
  cursor and the number of messages skipped.
\<close>

definition IpcDispatcherRingBuffer_readNext ::
    "bool \<Rightarrow> ipc_ring option \<Rightarrow> u64 \<Rightarrow> string option \<times> u64 \<times> u64" where
  "IpcDispatcherRingBuffer_readNext okCopy buffer cursor =
     (case buffer of
        None \<Rightarrow> (None, cursor, 0)
      | Some b \<Rightarrow>
          if cursor \<ge> ipc_head b then (None, cursor, 0)
          else
            let oldestAvailable = oldest_available (ipc_head b) (ipc_capacity b);
                dropped = (if cursor < oldestAvailable then oldestAvailable - cursor else 0);
                cursor1 = (if cursor < oldestAvailable then oldestAvailable else cursor);
                slotValue = ipc_slots b ! ring_slot cursor1 (ipc_capacity b)
            in ((if okCopy then slotValue else None), cursor1 + 1, dropped))"

definition IpcDispatcherRingBuffer_headSeq :: "ipc_ring option \<Rightarrow> u64" where
  "IpcDispatcherRingBuffer_headSeq buffer = (case buffer of None \<Rightarrow> 0 | Some b \<Rightarrow> ipc_head b)"

definition IpcDispatcherRingBuffer_totalPushes :: "ipc_ring option \<Rightarrow> u64" where
  "IpcDispatcherRingBuffer_totalPushes buffer = IpcDispatcherRingBuffer_headSeq buffer"

declare IpcDispatcherRingBuffer_create_def [ring_simps]
  and IpcDispatcherRingBuffer_destroy_def [ring_simps]
  and IpcDispatcherRingBuffer_push_def [ring_simps]
  and IpcDispatcherRingBuffer_readNext_def [ring_simps]
  and IpcDispatcherRingBuffer_headSeq_def [ring_simps]

section \<open>Invariant and abstraction\<close>

definition ipc_ring_ok :: "ipc_ring \<Rightarrow> bool" where
  "ipc_ring_ok b \<longleftrightarrow> c_int_pos (ipc_capacity b) \<and> length (ipc_slots b) = nat (ipc_capacity b)"

definition ipc_ring_live :: "ipc_ring option \<Rightarrow> bool" where
  "ipc_ring_live buffer \<longleftrightarrow> (\<exists>b. buffer = Some b \<and> ipc_ring_ok b)"

definition ipc_ring_cap :: "ipc_ring option \<Rightarrow> nat" where
  "ipc_ring_cap buffer = (case buffer of None \<Rightarrow> 0 | Some b \<Rightarrow> nat (ipc_capacity b))"

definition ipc_ring_contents :: "ipc_ring option \<Rightarrow> string multiset" where
  "ipc_ring_contents buffer = (case buffer of None \<Rightarrow> {#} | Some b \<Rightarrow> slot_contents (ipc_slots b))"

text \<open>\<open>ipc_ring_rep buffer log\<close>: the ring holds the last \<open>capacity\<close> messages of \<open>log\<close>.\<close>

definition ipc_ring_rep :: "ipc_ring option \<Rightarrow> string list \<Rightarrow> bool" where
  "ipc_ring_rep buffer log \<longleftrightarrow> (\<exists>b. buffer = Some b \<and> ipc_ring_ok b
     \<and> unat (ipc_head b) = length log
     \<and> (\<forall>i < length log. length log - nat (ipc_capacity b) \<le> i \<longrightarrow>
          ipc_slots b ! (i mod nat (ipc_capacity b)) = Some (log ! i)))"

lemma ipc_slot_bound: "ipc_ring_ok b \<Longrightarrow> ring_slot sq (ipc_capacity b) < length (ipc_slots b)"
  by (simp add: ipc_ring_ok_def ring_slot_eq c_int_pos_def)

lemma ipc_push_rep:
  assumes "ipc_ring_rep buffer log" and "Suc (length log) < 2 ^ 64"
  shows "ipc_ring_rep (fst (IpcDispatcherRingBuffer_push buffer (Some x))) (log @ [x])"
proof -
  obtain b where b: "buffer = Some b" "ipc_ring_ok b" "unat (ipc_head b) = length log"
    and sl: "\<And>i. i < length log \<Longrightarrow> length log - nat (ipc_capacity b) \<le> i \<Longrightarrow>
      ipc_slots b ! (i mod nat (ipc_capacity b)) = Some (log ! i)"
    using assms(1) by (auto simp: ipc_ring_rep_def)
  let ?n = "length log" and ?c = "nat (ipc_capacity b)"
  have cap: "c_int_pos (ipc_capacity b)" "length (ipc_slots b) = ?c" "0 < ?c"
    using b(2) by (auto simp: ipc_ring_ok_def c_int_pos_def)
  have slot: "ring_slot (ipc_head b) (ipc_capacity b) = ?n mod ?c"
    using ring_slot_eq [OF cap(1)] b(3) by simp
  have hd: "unat (ipc_head b + 1) = Suc ?n"
    using b(3) assms(2) by (simp add: unat_word_ariths)
  have "(ipc_slots b)[?n mod ?c := Some x] ! (i mod ?c) = Some ((log @ [x]) ! i)"
    if i: "i < Suc ?n" "Suc ?n - ?c \<le> i" for i
  proof (cases "i = ?n")
    case True
    then show ?thesis using cap by simp
  next
    case False
    with i have il: "i < ?n" "?n - ?c \<le> i" "?n < i + ?c" by auto
    then have "i mod ?c \<noteq> ?n mod ?c" using ring_window_inj by blast
    then show ?thesis using sl [OF il(1,2)] il(1) by (simp add: nth_append)
  qed
  then show ?thesis
    using b hd cap by (auto simp: ring_simps ipc_ring_rep_def ipc_ring_ok_def slot Let_def)
qed

lemma ipc_read_some:
  assumes "ipc_ring_rep buffer log" and "unat c < length log"
    and i: "i = max (unat c) (length log - ipc_ring_cap buffer)"
  shows "IpcDispatcherRingBuffer_readNext True buffer c
    = (Some (log ! i), of_nat (Suc i), of_nat (i - unat c))"
proof -
  obtain b where b: "buffer = Some b" "ipc_ring_ok b" "unat (ipc_head b) = length log"
    and sl: "\<And>i. i < length log \<Longrightarrow> length log - nat (ipc_capacity b) \<le> i \<Longrightarrow>
      ipc_slots b ! (i mod nat (ipc_capacity b)) = Some (log ! i)"
    using assms(1) by (auto simp: ipc_ring_rep_def)
  have cap: "c_int_pos (ipc_capacity b)" using b(2) by (simp add: ipc_ring_ok_def)
  define old where "old = oldest_available (ipc_head b) (ipc_capacity b)"
  define c1 where "c1 = (if c < old then old else c)"
  have uold: "unat old = length log - nat (ipc_capacity b)"
    unfolding old_def using unat_oldest_available [OF cap] b(3) by simp
  have c1i: "unat c1 = i"
    unfolding c1_def i using uold b(1) by (auto simp: word_less_nat_alt ipc_ring_cap_def max_def)
  have il: "i < length log" using assms(2) cap by (auto simp: i b(1) ipc_ring_cap_def c_int_pos_def)
  have val: "ipc_slots b ! ring_slot c1 (ipc_capacity b) = Some (log ! i)"
    using sl [OF il] ring_slot_eq [OF cap] c1i by (simp add: i b(1) ipc_ring_cap_def)
  have dr: "(if c < old then old - c else 0) = of_nat (i - unat c)"
  proof (cases "c < old")
    case True
    then have "c1 = old" by (simp add: c1_def)
    with c1i have io: "unat old = i" by simp
    have "i - unat c < 2 ^ 64"
      unfolding io [symmetric] by (rule le_less_trans [OF diff_le_self unat_u64_less])
    with True io show ?thesis
      by (simp add: word_unat_eq_iff unat_sub less_imp_le unat_of_nat_u64)
  next
    case False
    then have "i - unat c = 0" using c1i by (simp add: c1_def)
    with False show ?thesis by simp
  qed
  have "\<not> ipc_head b \<le> c" using assms(2) b(3) by (simp add: word_le_nat_alt)
  then have "IpcDispatcherRingBuffer_readNext True buffer c
      = (ipc_slots b ! ring_slot c1 (ipc_capacity b), c1 + 1, if c < old then old - c else 0)"
    unfolding c1_def old_def using b(1) by (simp add: ring_simps Let_def)
  moreover have "c1 + 1 = of_nat (Suc i)" using c1i by auto
  ultimately show ?thesis by (simp only: val dr)
qed

interpretation ipcr: broadcast_ring ipc_ring_rep ipc_ring_cap
  "\<lambda>b x. fst (IpcDispatcherRingBuffer_push b x)" "IpcDispatcherRingBuffer_readNext True"
  IpcDispatcherRingBuffer_headSeq
proof unfold_locales
  fix b log x c i
  assume r: "ipc_ring_rep b log"
  show "0 < ipc_ring_cap b"
    using r by (auto simp: ipc_ring_rep_def ipc_ring_cap_def ipc_ring_ok_def c_int_pos_def)
  show "ipc_ring_cap (fst (IpcDispatcherRingBuffer_push b (Some x))) = ipc_ring_cap b"
    by (simp add: ring_simps ipc_ring_cap_def Let_def split: option.splits)
  show "ipc_ring_rep (fst (IpcDispatcherRingBuffer_push b (Some x))) (log @ [x])"
    if "Suc (length log) < 2 ^ 64" using r that by (rule ipc_push_rep)
  show "unat (IpcDispatcherRingBuffer_headSeq b) = length log"
    using r by (auto simp: ipc_ring_rep_def ring_simps)
  show "IpcDispatcherRingBuffer_readNext True b c = (None, c, 0)" if "length log \<le> unat c"
    using r that by (auto simp: ipc_ring_rep_def ring_simps word_le_nat_alt)
  show "IpcDispatcherRingBuffer_readNext True b c = (Some (log ! i), of_nat (Suc i), of_nat (i - unat c))"
    if "unat c < length log" "i = max (unat c) (length log - ipc_ring_cap b)"
    using r that by (rule ipc_read_some)
qed

interpretation ipco: owning_ring ipc_ring_live ipc_ring_contents IpcDispatcherRingBuffer_push
  IpcDispatcherRingBuffer_destroy
proof unfold_locales
  fix b x
  assume "ipc_ring_live b"
  then obtain r where r: "b = Some r" "ipc_ring_ok r" by (auto simp: ipc_ring_live_def)
  show "ipc_ring_live (fst (IpcDispatcherRingBuffer_push b (Some x)))"
    using r by (simp add: ring_simps ipc_ring_live_def ipc_ring_ok_def Let_def)
  show "ipc_ring_contents (fst (IpcDispatcherRingBuffer_push b (Some x)))
      + freed_one (snd (IpcDispatcherRingBuffer_push b (Some x))) = add_mset x (ipc_ring_contents b)"
    using r slot_contents_update [OF ipc_slot_bound [OF r(2)]]
    by (simp add: ring_simps ipc_ring_contents_def Let_def)
  show "mset (IpcDispatcherRingBuffer_destroy b) = ipc_ring_contents b"
    using r by (simp add: ring_simps ipc_ring_contents_def slot_contents_def)
qed

lemma ipc_create_rep:
  "c_int_pos n \<Longrightarrow> ipc_ring_rep (IpcDispatcherRingBuffer_create True True True n) []"
  by (simp add: ring_simps ipc_ring_rep_def ipc_ring_ok_def c_int_pos_def)

lemma ipc_create_live:
  "IpcDispatcherRingBuffer_create o1 o2 o3 n = Some b \<Longrightarrow> n < 2 ^ 31 \<Longrightarrow>
     ipc_ring_live (Some b) \<and> ipc_ring_contents (Some b) = {#}"
  by (auto simp: ring_simps ipc_ring_live_def ipc_ring_ok_def c_int_pos_def ipc_ring_contents_def
      split: if_splits)

section \<open>What a websocket client receives\<close>

abbreviation ipc_run ::
    "ipc_ring option \<Rightarrow> u64 \<Rightarrow> ring_event list \<Rightarrow> ipc_ring option \<times> u64 \<times> string list \<times> nat" where
  "ipc_run \<equiv> ring_run (\<lambda>b x. fst (IpcDispatcherRingBuffer_push b x))
     (IpcDispatcherRingBuffer_readNext True)"



end
