(* ===== verification/Ipc_Websocket.thy ===== *)
theory Ipc_Websocket
  imports Ipc_Ring_Buffer Websocket
begin

text \<open>
  \<open>ipc_dispatcher/data/ipc_dispatcher_ws_server.c\<close>: the connections of one device's report stream.
  Beside the ring, a server retains the last connection status for connections still to come.
\<close>

datatype IpcDispatcherError =
    IPC_DISPATCHER_OK | IPC_DISPATCHER_ERR_INVALID_ARGUMENT | IPC_DISPATCHER_ERR_OUT_OF_MEMORY
  | IPC_DISPATCHER_ERR_THREAD_CREATE_FAILED | IPC_DISPATCHER_ERR_SOCKET_BIND_FAILED
  | IPC_DISPATCHER_ERR_ALREADY_RUNNING

record ipc_ws_server =
  iw_maxConnections :: int
  iw_currentConnections :: int
  iw_retainedConnStatusJson :: "string option"

record IpcDispatcherSession =
  is_cursor :: u64
  is_retainedStatusSent :: bool

text \<open>The ring is borrowed from the dispatcher. \<open>okBind\<close>: \<open>lws_create_context\<close> binds the port.\<close>

definition IpcDispatcherWsServer_create ::
    "bool \<Rightarrow> bool \<Rightarrow> bool \<Rightarrow> int \<Rightarrow> ipc_ring option \<Rightarrow> IpcDispatcherError \<times> ipc_ws_server option" where
  "IpcDispatcherWsServer_create okAlloc okLock okBind maxConnections ringBuffer =
     (if ringBuffer = None \<or> maxConnections \<le> 0 then (IPC_DISPATCHER_ERR_INVALID_ARGUMENT, None)
      else if \<not> okAlloc \<or> \<not> okLock then (IPC_DISPATCHER_ERR_OUT_OF_MEMORY, None)
      else if \<not> okBind then (IPC_DISPATCHER_ERR_SOCKET_BIND_FAILED, None)
      else (IPC_DISPATCHER_OK, Some \<lparr>iw_maxConnections = maxConnections,
              iw_currentConnections = 0, iw_retainedConnStatusJson = None\<rparr>))"

definition IpcDispatcherWsServer_start :: "bool \<Rightarrow> ipc_ws_server option \<Rightarrow> IpcDispatcherError" where
  "IpcDispatcherWsServer_start okThread server =
     (if server = None then IPC_DISPATCHER_ERR_INVALID_ARGUMENT
      else if \<not> okThread then IPC_DISPATCHER_ERR_THREAD_CREATE_FAILED else IPC_DISPATCHER_OK)"

definition IpcDispatcherWsServer_setRetainedConnStatus :: "bool \<Rightarrow> string option \<Rightarrow> ipc_ws_server option \<Rightarrow> ipc_ws_server option" where
  "IpcDispatcherWsServer_setRetainedConnStatus okCopy json server =
     map_option (\<lambda>s. s\<lparr>iw_retainedConnStatusJson := (if okCopy then json else None)\<rparr>) server"

text \<open>\<open>okStatus\<close>, \<open>okCopy\<close>: the copies of the status and of the message; \<open>okBuf\<close>: the send buffer.\<close>

definition ipcDispatcherCallback ::
    "bool \<Rightarrow> bool \<Rightarrow> bool \<Rightarrow> ipc_ring option \<Rightarrow> ipc_ws_server \<Rightarrow> lws_reason \<Rightarrow> IpcDispatcherSession option
      \<Rightarrow> ipc_ws_server \<times> IpcDispatcherSession option \<times> ws_effect" where
  "ipcDispatcherCallback okStatus okCopy okBuf ring server reason session =
     (case reason of
        LWS_CALLBACK_ESTABLISHED \<Rightarrow>
          if iw_currentConnections server \<ge> iw_maxConnections server then (server, session, no_effect\<lparr>we_reject := True\<rparr>)
          else (server\<lparr>iw_currentConnections := iw_currentConnections server + 1\<rparr>,
                map_option (\<lambda>_. \<lparr>is_cursor = IpcDispatcherRingBuffer_headSeq ring,
                                 is_retainedStatusSent = False\<rparr>) session, no_effect)
      | LWS_CALLBACK_CLOSED \<Rightarrow> (server\<lparr>iw_currentConnections := iw_currentConnections server - 1\<rparr>, session, no_effect)
      | LWS_CALLBACK_RECEIVE payload final \<Rightarrow> (server, session, no_effect)
      | LWS_CALLBACK_EVENT_WAIT_CANCELLED \<Rightarrow> (server, session, no_effect\<lparr>we_all := True\<rparr>)
      | LWS_CALLBACK_SERVER_WRITEABLE \<Rightarrow>
          (case session of
             None \<Rightarrow> (server, session, no_effect)
           | Some s \<Rightarrow>
               let retained = (if is_retainedStatusSent s then None
                               else if okStatus then iw_retainedConnStatusJson server else None);
                   s = s\<lparr>is_retainedStatusSent := True\<rparr>
               in case retained of
                    Some txt \<Rightarrow> (server, Some s, no_effect\<lparr>we_written := (if okBuf then Some txt else None), we_again := True\<rparr>)
                  | None \<Rightarrow>
                      (let (json, cursor', dropped) = IpcDispatcherRingBuffer_readNext okCopy ring (is_cursor s)
                       in (server, Some (s\<lparr>is_cursor := cursor'\<rparr>),
                           case json of
                             None \<Rightarrow> no_effect
                           | Some txt \<Rightarrow> no_effect\<lparr>we_written := (if okBuf then Some txt else None),
                               we_again := (IpcDispatcherRingBuffer_headSeq ring \<noteq> cursor')\<rparr>))))"

section \<open>The status reaches a new connection with its first turn only\<close>

text \<open>A connection is not given a turn when it is established: it waits for the next wake.\<close>

lemma no_turn_on_connect:
  "ipcDispatcherCallback a b c ring server LWS_CALLBACK_ESTABLISHED session = (server', session', eff) \<Longrightarrow>
     we_written eff = None \<and> \<not> we_again eff \<and> \<not> we_all eff"
  by (auto simp: ipcDispatcherCallback_def no_effect_def split: if_splits)

text \<open>
  The writable turns a connection has after a wake, until it asks for no more; \<open>n\<close> bounds them.
\<close>

fun ipc_drain :: "nat \<Rightarrow> ipc_ring option \<Rightarrow> ipc_ws_server \<Rightarrow> IpcDispatcherSession \<Rightarrow> IpcDispatcherSession \<times> string list" where
  "ipc_drain 0 ring server s = (s, [])"
| "ipc_drain (Suc n) ring server s =
     (case ipcDispatcherCallback True True True ring server LWS_CALLBACK_SERVER_WRITEABLE (Some s) of
        (server', s', eff) \<Rightarrow>
          let out = (case we_written eff of None \<Rightarrow> [] | Some t \<Rightarrow> [t])
          in if we_again eff then (case ipc_drain n ring server' (the s') of (s'', ms) \<Rightarrow> (s'', out @ ms))
             else (the s', out))"

lemma ipc_turn:
  assumes "ipc_ring_rep ring log" and "unat (is_cursor s) < length log" and "is_retainedStatusSent s"
    and i: "i = max (unat (is_cursor s)) (length log - ipc_ring_cap ring)"
  shows "ipcDispatcherCallback True True True ring server LWS_CALLBACK_SERVER_WRITEABLE (Some s)
    = (server, Some (s\<lparr>is_cursor := of_nat (Suc i)\<rparr>),
       no_effect\<lparr>we_written := Some (log ! i), we_again := (Suc i \<noteq> length log)\<rparr>)"
proof -
  have il: "i < length log" using assms(2) ipcr.cap_pos [OF assms(1)] i by auto
  have "unat (of_nat (Suc i) :: u64) = Suc i"
    by (rule ipcr.unat_of_nat_log [OF assms(1)]) (use il in simp)
  moreover have "unat (IpcDispatcherRingBuffer_headSeq ring) = length log"
    by (rule ipcr.rep_head [OF assms(1)])
  ultimately have "(IpcDispatcherRingBuffer_headSeq ring \<noteq> of_nat (Suc i)) = (Suc i \<noteq> length log)"
    by (metis word_unat_eq_iff)
  then show ?thesis
    using ipcr.read_some [OF assms(1,2) i] assms(3) by (cases s) (simp add: ipcDispatcherCallback_def Let_def del: of_nat_Suc)
qed

lemma ipc_drain_from:
  assumes "ipc_ring_rep ring log" and "unat (is_cursor s) < length log" and "is_retainedStatusSent s"
    and "length log - unat (is_cursor s) \<le> n"
  shows "snd (ipc_drain n ring server s) = drop (max (unat (is_cursor s)) (length log - ipc_ring_cap ring)) log"
  using assms
proof (induction n arbitrary: s)
  case (Suc n)
  define i where "i = max (unat (is_cursor s)) (length log - ipc_ring_cap ring)"
  note turn = ipc_turn [OF Suc.prems(1,2,3) i_def]
  have il: "i < length log" using Suc.prems(2) ipcr.cap_pos [OF Suc.prems(1)] by (auto simp: i_def)
  show ?case
  proof (cases "Suc i = length log")
    case True
    then have "drop i log = [log ! i]" using il by (simp add: Cons_nth_drop_Suc [symmetric])
    with True turn show ?thesis by (simp add: i_def [symmetric] no_effect_def)
  next
    case False
    let ?s = "s\<lparr>is_cursor := of_nat (Suc i)\<rparr>"
    have u: "unat (of_nat (Suc i) :: u64) = Suc i"
      by (rule ipcr.unat_of_nat_log [OF Suc.prems(1)]) (use il in simp)
    moreover have "unat (is_cursor s) \<le> i" by (simp add: i_def)
    ultimately have "unat (is_cursor ?s) < length log" and "length log - unat (is_cursor ?s) \<le> n"
      and "is_retainedStatusSent ?s"
      using il False Suc.prems(3,4) by (simp_all del: of_nat_Suc)
    from Suc.IH [OF Suc.prems(1) this(1,3,2)]
    have "snd (ipc_drain n ring server ?s) = drop (Suc i) log"
      using u by (simp add: i_def max_def del: of_nat_Suc)
    then show ?thesis
      using turn False il
      by (simp add: i_def [symmetric] no_effect_def Cons_nth_drop_Suc [symmetric] split_beta del: of_nat_Suc)
  qed
qed simp



end
