(* ===== verification/Mms_Value.thy ===== *)
theory Mms_Value
  imports Ln_Category
begin

text \<open>
  The values that travel through the system. \<open>MmsValue\<close> belongs to libiec61850; its type
  \<open>'v\<close> is a parameter, and the library functions the daemon calls on it are the fields of
  \<open>mms_lib\<close>. The constructors of \<open>MmsType\<close> are those of the library's header.
\<close>

datatype MmsType =
    MMS_ARRAY | MMS_STRUCTURE | MMS_BOOLEAN | MMS_BIT_STRING | MMS_INTEGER | MMS_UNSIGNED
  | MMS_FLOAT | MMS_OCTET_STRING | MMS_VISIBLE_STRING | MMS_GENERALIZED_TIME | MMS_BINARY_TIME
  | MMS_BCD | MMS_OBJ_ID | MMS_STRING | MMS_UTC_TIME | MMS_DATA_ACCESS_ERROR

record 'v mms_lib =
  ml_getType :: "'v \<Rightarrow> MmsType"
  ml_getTypeString :: "'v \<Rightarrow> string"
  ml_getBoolean :: "'v \<Rightarrow> bool"
  ml_toInt64 :: "'v \<Rightarrow> u64"
  ml_toUint32 :: "'v \<Rightarrow> u32"
  ml_toDouble :: "'v \<Rightarrow> u64"
  ml_toString :: "'v \<Rightarrow> string option"
  ml_getUtcTimeInMs :: "'v \<Rightarrow> u64"
  ml_getBitStringAsInteger :: "'v \<Rightarrow> u32"
  ml_dbpos :: "'v \<Rightarrow> u32"
  ml_quality :: "'v \<Rightarrow> u16"
  ml_getValidity :: "u16 \<Rightarrow> u16"
  ml_getArraySize :: "'v \<Rightarrow> nat"
  ml_getElement :: "'v \<Rightarrow> nat \<Rightarrow> 'v option"
  ml_equals :: "'v \<Rightarrow> 'v \<Rightarrow> bool"
  ml_getBitStringSize :: "'v \<Rightarrow> nat"
  ml_getOctetStringSize :: "'v \<Rightarrow> nat"
  ml_getOctetStringBuffer :: "'v \<Rightarrow> u8 list option"

datatype IedModelDaSemantic = IED_MODEL_DA_SEMANTIC_NONE | IED_MODEL_DA_SEMANTIC_DBPOS

text \<open>
  One entry of a report or GOOSE record (\<open>GooseSubscriberEntry\<close>; \<open>MmsReportEntry\<close> has two
  further fields). \<open>GooseSubscriberRecord\<close> is a whole state snapshot, \<open>MmsReportRecord\<close> a report.
\<close>

record 'v point_entry =
  pe_reference :: "string option"
  pe_value :: "'v option"
  pe_previousValue :: "'v option"
  pe_semantic :: IedModelDaSemantic
  pe_category :: LnCategory
  pe_description :: "string option"

record 'v GooseSubscriberRecord =
  gr_goCbRef :: "string option"
  gr_goId :: "string option"
  gr_dataSet :: "string option"
  gr_stNum :: u32
  gr_sqNum :: u32
  gr_confRev :: u32
  gr_test :: bool
  gr_needsCommission :: bool
  gr_timeAllowedToLiveMs :: u32
  gr_timestampMs :: u64
  gr_hasVlan :: bool
  gr_vlanId :: u16
  gr_vlanPrio :: u8
  gr_appId :: int
  gr_srcMac :: "u8 list"
  gr_dstMac :: "u8 list"
  gr_entries :: "'v point_entry list"

record 'v mms_point_entry = "'v point_entry" +
  pe_reason :: int
  pe_ownChangeDetected :: bool

record 'v MmsReportRecord =
  mr_rcbReference :: "string option"
  mr_buffered :: bool
  mr_rptId :: "string option"
  mr_hasEntryId :: bool
  mr_entryId :: "'v option"
  mr_hasTimestamp :: bool
  mr_timestampMs :: u64
  mr_hasSeqNum :: bool
  mr_seqNum :: u16
  mr_entries :: "'v mms_point_entry list"

datatype MmsReportClientConnState =
    MMS_REPORT_CLIENT_DISCONNECTED
  | MMS_REPORT_CLIENT_CONNECTING
  | MMS_REPORT_CLIENT_CONNECTED
  | MMS_REPORT_CLIENT_RECONNECT_BACKOFF
  | MMS_REPORT_CLIENT_CONNECTION_REJECTED

text \<open>A small concrete library, for evaluating the definitions on examples.\<close>

datatype demo_value =
    Demo_Bool bool
  | Demo_Int nat
  | Demo_Bits nat nat
  | Demo_Struct "demo_value list"
  | Demo_Octets "u8 list"

fun demo_type :: "demo_value \<Rightarrow> MmsType" where
  "demo_type (Demo_Bool _) = MMS_BOOLEAN"
| "demo_type (Demo_Int _) = MMS_INTEGER"
| "demo_type (Demo_Bits _ _) = MMS_BIT_STRING"
| "demo_type (Demo_Struct _) = MMS_STRUCTURE"
| "demo_type (Demo_Octets _) = MMS_OCTET_STRING"

fun demo_nat :: "demo_value \<Rightarrow> nat" where
  "demo_nat (Demo_Int n) = n"
| "demo_nat (Demo_Bits _ n) = n"
| "demo_nat _ = 0"

fun demo_octets :: "demo_value \<Rightarrow> u8 list" where
  "demo_octets (Demo_Octets bs) = bs"
| "demo_octets _ = []"

fun demo_kids :: "demo_value \<Rightarrow> demo_value list" where
  "demo_kids (Demo_Struct vs) = vs"
| "demo_kids _ = []"

definition demo_lib :: "demo_value mms_lib" where
  "demo_lib = \<lparr>ml_getType = demo_type, ml_getTypeString = (\<lambda>v. ''octet-string''),
     ml_getBoolean = (\<lambda>v. v = Demo_Bool True), ml_toInt64 = (\<lambda>v. of_nat (demo_nat v)),
     ml_toUint32 = (\<lambda>v. of_nat (demo_nat v)), ml_toDouble = (\<lambda>v. of_nat (demo_nat v)),
     ml_toString = (\<lambda>v. Some []), ml_getUtcTimeInMs = (\<lambda>v. of_nat (demo_nat v)),
     ml_getBitStringAsInteger = (\<lambda>v. of_nat (demo_nat v)), ml_dbpos = (\<lambda>v. of_nat (demo_nat v)),
     ml_quality = (\<lambda>v. of_nat (demo_nat v)), ml_getValidity = (\<lambda>q. q mod 4), ml_getArraySize = (\<lambda>v. length (demo_kids v)),
     ml_getElement = (\<lambda>v i. if i < length (demo_kids v) then Some (demo_kids v ! i) else None),
     ml_equals = (=), ml_getBitStringSize = (\<lambda>v. case v of Demo_Bits n _ \<Rightarrow> n | _ \<Rightarrow> 0),
     ml_getOctetStringSize = (\<lambda>v. length (demo_octets v)), ml_getOctetStringBuffer = (\<lambda>v. Some (demo_octets v))\<rparr>"

end
