(* ===== verification/Ipc_Adapter.thy ===== *)
theory Ipc_Adapter
  imports Ipc_Dedup Ipc_Websocket Mms_Value Ln_Category Json "HOL-Library.Sublist"
begin

text \<open>
  The producer side of the IPC dispatcher: \<open>utils/ipc_dispatcher_value_codec.c\<close>,
  \<open>data/ipc_dispatcher_mms_adapter.c\<close>, \<open>data/ipc_dispatcher_goose_adapter.c\<close>,
  \<open>data/ipc_dispatcher_json_writer.c\<close>, \<open>data/ipc_dispatcher_conn_state_adapter.c\<close> and
  \<open>service/ipc_dispatcher_api.c\<close>. A report or GOOSE record becomes one message, the message
  a JSON text, the text an element of the ring buffer of the dispatcher. libiec61850
  (\<open>mms_lib\<close>) and the cJSON printer are arguments.
\<close>

section \<open>Value codec\<close>

definition rawPlaceholder :: "string \<Rightarrow> IpcScalarValue" where
  "rawPlaceholder txt = IPC_SCALAR_RAW (Some txt)"

text \<open>\<open>snprintf\<close> into the 64-byte buffer keeps at most 63 bytes.\<close>

definition IpcDispatcherValueCodec_convert :: "'v mms_lib \<Rightarrow> 'v option \<Rightarrow> IpcScalarValue" where
  "IpcDispatcherValueCodec_convert L val =
     (case val of
        None \<Rightarrow> rawPlaceholder ''<null>''
      | Some v \<Rightarrow>
          (case ml_getType L v of
             MMS_BOOLEAN \<Rightarrow> IPC_SCALAR_BOOL (ml_getBoolean L v)
           | MMS_INTEGER \<Rightarrow> IPC_SCALAR_INT64 (ml_toInt64 L v)
           | MMS_UNSIGNED \<Rightarrow> IPC_SCALAR_UINT64 (ucast (ml_toUint32 L v))
           | MMS_FLOAT \<Rightarrow> IPC_SCALAR_DOUBLE (ml_toDouble L v)
           | MMS_VISIBLE_STRING \<Rightarrow> IPC_SCALAR_STRING (ml_toString L v)
           | MMS_STRING \<Rightarrow> IPC_SCALAR_STRING (ml_toString L v)
           | MMS_UTC_TIME \<Rightarrow> IPC_SCALAR_UINT64 (ml_getUtcTimeInMs L v)
           | MMS_BIT_STRING \<Rightarrow> IPC_SCALAR_UINT64 (ucast (ml_getBitStringAsInteger L v))
           | _ \<Rightarrow> rawPlaceholder (take 63 (''<unsupported:'' @ ml_getTypeString L v @ ''>''))))"

text \<open>The names of the four positions of a double-point status.\<close>

definition dbpos_label :: "u32 \<Rightarrow> string option" where
  "dbpos_label p =
     (if p = 0 then Some ''intermediate-state''
      else if p = 1 then Some ''off''
      else if p = 2 then Some ''on''
      else if p = 3 then Some ''bad-state''
      else None)"

text \<open>\<open>None\<close> is the result false, which leaves the output pointer alone.\<close>

definition IpcDispatcherValueCodec_decodeDbposLabel ::
    "'v mms_lib \<Rightarrow> IedModelDaSemantic \<Rightarrow> 'v option \<Rightarrow> string option" where
  "IpcDispatcherValueCodec_decodeDbposLabel L semantic val =
     (if semantic \<noteq> IED_MODEL_DA_SEMANTIC_DBPOS then None
      else case val of
        None \<Rightarrow> None
      | Some v \<Rightarrow> if ml_getType L v \<noteq> MMS_BIT_STRING then None else dbpos_label (ml_dbpos L v))"

text \<open>The switch over \<open>QUALITY_VALIDITY_*\<close>, the values of the library's header.\<close>

definition validity_of :: "u16 \<Rightarrow> IpcQualityValidity" where
  "validity_of v =
     (if v = 0 then IPC_QUALITY_GOOD
      else if v = 2 then IPC_QUALITY_INVALID
      else if v = 1 then IPC_QUALITY_RESERVED
      else if v = 3 then IPC_QUALITY_QUESTIONABLE
      else IPC_QUALITY_INVALID)"

text \<open>The result and what is stored in \<open>*outQuality\<close>.\<close>

definition IpcDispatcherValueCodec_decodeQuality :: "'v mms_lib \<Rightarrow> 'v option \<Rightarrow> bool \<times> IpcQuality" where
  "IpcDispatcherValueCodec_decodeQuality L val =
     (case val of
        None \<Rightarrow> (False, zero_quality)
      | Some v \<Rightarrow>
          if ml_getType L v \<noteq> MMS_BIT_STRING then (False, zero_quality)
          else (True, \<lparr>q_validity = validity_of (ml_getValidity L (ml_quality L v)),
                       q_detailFlags = ml_quality L v\<rparr>))"

section \<open>One slot of the point arrays\<close>

text \<open>
  The adapters fill parallel arrays at position \<open>out\<close>. A slot is one position of all of
  them. Slots below \<open>out\<close> are final; the slot at \<open>out\<close> keeps what an iteration that ended
  in a suppressed point wrote; the slots above are still as \<open>calloc\<close> left them.
\<close>

record point_slot =
  sl_ref :: "string option"
  sl_value :: IpcScalarValue
  sl_hasQuality :: bool
  sl_quality :: IpcQuality
  sl_hasPreviousValue :: bool
  sl_previousValue :: IpcScalarValue
  sl_hasPreviousQuality :: bool
  sl_previousQuality :: IpcQuality
  sl_hasLabel :: bool
  sl_label :: "string option"
  sl_hasPreviousLabel :: bool
  sl_previousLabel :: "string option"
  sl_category :: "string option"
  sl_hasDescription :: bool
  sl_description :: "string option"

definition zero_slot :: point_slot where
  "zero_slot = \<lparr>sl_ref = None, sl_value = zero_scalar, sl_hasQuality = False, sl_quality = zero_quality,
     sl_hasPreviousValue = False, sl_previousValue = zero_scalar, sl_hasPreviousQuality = False,
     sl_previousQuality = zero_quality, sl_hasLabel = False, sl_label = None, sl_hasPreviousLabel = False,
     sl_previousLabel = None, sl_category = None, sl_hasDescription = False, sl_description = None\<rparr>"

text \<open>\<open>value.u64 = ...\<close> on a scalar whose type is \<open>UINT64\<close>, which a labelled value always is.\<close>

definition set_u64 :: "IpcScalarValue \<Rightarrow> u64 \<Rightarrow> IpcScalarValue" where
  "set_u64 s n = (case s of IPC_SCALAR_UINT64 _ \<Rightarrow> IPC_SCALAR_UINT64 n | _ \<Rightarrow> s)"

definition dbpos_value :: "'v mms_lib \<Rightarrow> 'v option \<Rightarrow> u64" where
  "dbpos_value L val = (case val of None \<Rightarrow> 0 | Some v \<Rightarrow> ucast (ml_dbpos L v))"

text \<open>Reference, value and label, then the previous value and its label.\<close>

definition fill_value :: "'v mms_lib \<Rightarrow> 'v point_entry \<Rightarrow> point_slot \<Rightarrow> point_slot" where
  "fill_value L e slot =
     (let label = IpcDispatcherValueCodec_decodeDbposLabel L (pe_semantic e) (pe_value e);
          v = IpcDispatcherValueCodec_convert L (pe_value e)
      in slot\<lparr>sl_ref := pe_reference e,
              sl_value := (if label \<noteq> None then set_u64 v (dbpos_value L (pe_value e)) else v),
              sl_hasLabel := label \<noteq> None,
              sl_label := (if label \<noteq> None then label else sl_label slot)\<rparr>)"

definition fill_previous :: "'v mms_lib \<Rightarrow> 'v point_entry \<Rightarrow> point_slot \<Rightarrow> point_slot" where
  "fill_previous L e slot =
     (if pe_previousValue e = None then slot\<lparr>sl_hasPreviousValue := False\<rparr>
      else
        let label = IpcDispatcherValueCodec_decodeDbposLabel L (pe_semantic e) (pe_previousValue e);
            v = IpcDispatcherValueCodec_convert L (pe_previousValue e)
        in slot\<lparr>sl_hasPreviousValue := True,
                sl_previousValue := (if label \<noteq> None then set_u64 v (dbpos_value L (pe_previousValue e)) else v),
                sl_hasPreviousLabel := label \<noteq> None,
                sl_previousLabel := (if label \<noteq> None then label else sl_previousLabel slot)\<rparr>)"

text \<open>\<open>q\<close> is the paired quality entry, \<open>None\<close> for \<open>qi < 0\<close>.\<close>

definition fill_quality :: "'v mms_lib \<Rightarrow> 'v point_entry option \<Rightarrow> point_slot \<Rightarrow> point_slot" where
  "fill_quality L q slot =
     (case q of
        None \<Rightarrow> slot
      | Some qe \<Rightarrow>
          let (ok, quality) = IpcDispatcherValueCodec_decodeQuality L (pe_value qe);
              slot' = slot\<lparr>sl_hasQuality := ok, sl_quality := quality\<rparr>
          in if pe_previousValue qe = None then slot'
             else let (okP, previous) = IpcDispatcherValueCodec_decodeQuality L (pe_previousValue qe)
                  in slot'\<lparr>sl_hasPreviousQuality := okP, sl_previousQuality := previous\<rparr>)"

definition fill_extras :: "'v point_entry \<Rightarrow> point_slot \<Rightarrow> point_slot" where
  "fill_extras e slot =
     slot\<lparr>sl_category := Some (IedModelLnCategory_toString (pe_category e)),
          sl_hasDescription := pe_description e \<noteq> None,
          sl_description := (if pe_description e \<noteq> None then pe_description e else sl_description slot)\<rparr>"

definition fill_slot :: "'v mms_lib \<Rightarrow> 'v point_entry \<Rightarrow> 'v point_entry option \<Rightarrow> point_slot \<Rightarrow> point_slot" where
  "fill_slot L e q slot = fill_extras e (fill_quality L q (fill_previous L e (fill_value L e slot)))"

section \<open>The adapters\<close>

text \<open>
  State of the loop: the final slots, the slot at \<open>out\<close>, the cache. The loop of the GOOSE
  adapter; \<open>todo\<close> is the rest of the value/quality index pairs.
\<close>

fun goose_loop ::
    "'v mms_lib \<Rightarrow> string option \<Rightarrow> 'v point_entry list \<Rightarrow> (nat \<times> nat option) list
     \<Rightarrow> point_slot list \<Rightarrow> point_slot \<Rightarrow> IpcDispatcherDedupCache option
     \<Rightarrow> point_slot list \<times> IpcDispatcherDedupCache option" where
  "goose_loop L src es [] done cur cache = (done, cache)"
| "goose_loop L src es ((vi, qi) # todo) done cur cache =
     (let slot = fill_slot L (es ! vi) (map_option (\<lambda>i. es ! i) qi) cur;
          (fwd, cache') = IpcDispatcherDedupCache_shouldForward cache src (sl_ref slot) (sl_value slot)
                            (sl_hasQuality slot) (sl_quality slot)
      in if fwd then goose_loop L src es todo (done @ [slot]) zero_slot cache'
         else goose_loop L src es todo done slot cache')"

fun mms_loop ::
    "'v mms_lib \<Rightarrow> string option \<Rightarrow> 'v mms_point_entry list \<Rightarrow> (nat \<times> nat option) list
     \<Rightarrow> point_slot list \<Rightarrow> point_slot \<Rightarrow> IpcDispatcherDedupCache option
     \<Rightarrow> point_slot list \<times> IpcDispatcherDedupCache option" where
  "mms_loop L src es [] done cur cache = (done, cache)"
| "mms_loop L src es ((vi, qi) # todo) done cur cache =
     (let qualityOwnChange = (case qi of None \<Rightarrow> False | Some i \<Rightarrow> pe_ownChangeDetected (es ! i)) in
      if \<not> IpcDispatcherUseCases_shouldIncludeValuePoint (pe_ownChangeDetected (es ! vi)) (qi \<noteq> None) qualityOwnChange
      then mms_loop L src es todo done cur cache
      else
        let slot = fill_slot L (point_entry.truncate (es ! vi))
                     (map_option (\<lambda>i. point_entry.truncate (es ! i)) qi) cur;
            (fwd, cache') = IpcDispatcherDedupCache_shouldForward cache src (sl_ref slot) (sl_value slot)
                              (sl_hasQuality slot) (sl_quality slot)
        in if fwd then mms_loop L src es todo (done @ [slot]) zero_slot cache'
           else mms_loop L src es todo done slot cache')"

definition extras_of :: "point_slot list \<Rightarrow> IpcDataPointExtras" where
  "extras_of slots =
     \<lparr>ex_pointHasPreviousValue = Some (map sl_hasPreviousValue slots),
      ex_pointPreviousValue = Some (map sl_previousValue slots),
      ex_pointHasPreviousQuality = Some (map sl_hasPreviousQuality slots),
      ex_pointPreviousQuality = Some (map sl_previousQuality slots),
      ex_pointHasLabel = Some (map sl_hasLabel slots),
      ex_pointLabel = Some (map sl_label slots),
      ex_pointHasPreviousLabel = Some (map sl_hasPreviousLabel slots),
      ex_pointPreviousLabel = Some (map sl_previousLabel slots),
      ex_pointCategory = Some (map sl_category slots),
      ex_pointHasDescription = Some (map sl_hasDescription slots),
      ex_pointDescription = Some (map sl_description slots)\<rparr>"

text \<open>The call of \<open>assembleMessage\<close> both adapters make with their arrays.\<close>

definition assemble_slots ::
    "bool \<Rightarrow> bool \<Rightarrow> IpcSourceType \<Rightarrow> string option \<Rightarrow> bool \<Rightarrow> bool \<Rightarrow> bool \<Rightarrow> u64 \<Rightarrow> point_slot list \<Rightarrow> IpcMessage option" where
  "assemble_slots okMessage okPoints srcType src hasBuffered buffered hasTimestamp timestampMs slots =
     IpcDispatcherUseCases_assembleMessage okMessage okPoints srcType src hasBuffered buffered hasTimestamp
       timestampMs (map sl_ref slots) (map sl_value slots) (Some (map sl_hasQuality slots))
       (map sl_quality slots) (Some (extras_of slots)) (length slots)"


section \<open>The JSON text\<close>

definition sourceTypeTag :: "IpcSourceType \<Rightarrow> string" where
  "sourceTypeTag t = (if t = IPC_SOURCE_GOOSE then ''GOOSE'' else ''MMS_REPORT'')"

fun validityString :: "IpcQualityValidity \<Rightarrow> string" where
  "validityString IPC_QUALITY_GOOD = ''GOOD''"
| "validityString IPC_QUALITY_INVALID = ''INVALID''"
| "validityString IPC_QUALITY_RESERVED = ''RESERVED''"
| "validityString IPC_QUALITY_QUESTIONABLE = ''QUESTIONABLE''"

fun buildScalarValueJson :: "IpcScalarValue \<Rightarrow> json" where
  "buildScalarValueJson (IPC_SCALAR_BOOL b) = JBool b"
| "buildScalarValueJson (IPC_SCALAR_INT64 i) = JInt64 i"
| "buildScalarValueJson (IPC_SCALAR_UINT64 u) = JUint64 u"
| "buildScalarValueJson (IPC_SCALAR_DOUBLE d) = JDouble d"
| "buildScalarValueJson (IPC_SCALAR_STRING s) = JString (case s of None \<Rightarrow> [] | Some t \<Rightarrow> t)"
| "buildScalarValueJson (IPC_SCALAR_RAW s) = JString (case s of None \<Rightarrow> [] | Some t \<Rightarrow> t)"

definition buildQualityValueJson :: "bool \<Rightarrow> IpcQuality \<Rightarrow> json" where
  "buildQualityValueJson hasQuality quality =
     (if \<not> hasQuality then JNull
      else JObject [(''validity'', JString (validityString (q_validity quality))),
                    (''detailFlags'', JUint64 (ucast (q_detailFlags quality)))])"

definition buildDataPointJson :: "IpcDataPoint \<Rightarrow> json" where
  "buildDataPointJson p = JObject
     [(''reference'', jstr (dp_reference p)),
      (''value'', buildScalarValueJson (dp_value p)),
      (''quality'', buildQualityValueJson (dp_hasQuality p) (dp_quality p)),
      (''previousValue'', if dp_hasPreviousValue p then buildScalarValueJson (dp_previousValue p) else JNull),
      (''previousQuality'', buildQualityValueJson (dp_hasPreviousQuality p) (dp_previousQuality p)),
      (''label'', if dp_hasLabel p then jstr (dp_label p) else JNull),
      (''previousLabel'', if dp_hasPreviousLabel p then jstr (dp_previousLabel p) else JNull),
      (''category'', jstr (dp_category p)),
      (''description'', if dp_hasDescription p then jstr (dp_description p) else JNull)]"

definition buildSourceJson :: "IpcMessage \<Rightarrow> json" where
  "buildSourceJson m =
     (if msg_sourceType m = IPC_SOURCE_GOOSE then JObject [(''goCbRef'', jstr (msg_sourceReference m))]
      else JObject ([(''rcbReference'', jstr (msg_sourceReference m))]
             @ (if msg_hasBuffered m then [(''buffered'', JBool (msg_buffered m))] else [])))"

definition message_json :: "IpcMessage \<Rightarrow> json" where
  "message_json m = JObject
     ([(''schemaVersion'', JUint64 1), (''type'', JString (sourceTypeTag (msg_sourceType m))),
       (''source'', buildSourceJson m), (''hasTimestamp'', JBool (msg_hasTimestamp m))]
      @ (if msg_hasTimestamp m then [(''timestampMs'', JUint64 (msg_timestampMs m))] else [])
      @ [(''dataPoints'', JArray (map buildDataPointJson (msg_dataPoints m)))])"

definition IpcDispatcherJsonWriter_write :: "bool \<Rightarrow> (json \<Rightarrow> string option) \<Rightarrow> IpcMessage option \<Rightarrow> string option" where
  "IpcDispatcherJsonWriter_write okRoot prn message =
     (case message of
        None \<Rightarrow> None
      | Some m \<Rightarrow> if \<not> okRoot then None else prn (message_json m))"

definition status_json :: "string \<Rightarrow> json" where
  "status_json status = JObject [(''schemaVersion'', JUint64 1), (''type'', JString ''CONNECTION_STATUS''),
     (''status'', JString status)]"

definition IpcDispatcherJsonWriter_writeConnectionStatus ::
    "bool \<Rightarrow> (json \<Rightarrow> string option) \<Rightarrow> MmsReportClientConnState \<Rightarrow> string option" where
  "IpcDispatcherJsonWriter_writeConnectionStatus okRoot prn state =
     (case state of
        MMS_REPORT_CLIENT_CONNECTION_REJECTED \<Rightarrow> if \<not> okRoot then None else prn (status_json ''CONNECTION_REJECTED'')
      | MMS_REPORT_CLIENT_CONNECTED \<Rightarrow> if \<not> okRoot then None else prn (status_json ''CONNECTED'')
      | _ \<Rightarrow> None)"

section \<open>The dispatcher\<close>

record IpcDispatcherConfig =
  ic_port :: u16
  ic_ringBufferCapacity :: int
  ic_maxConnections :: int

record ipc_dispatcher =
  id_config :: IpcDispatcherConfig
  id_ringBuffer :: "ipc_ring option"
  id_wsServer :: "ipc_ws_server option"
  id_running :: bool
  id_mmsDedupCache :: "IpcDispatcherDedupCache option"
  id_gooseDedupCache :: "IpcDispatcherDedupCache option"

definition IpcDispatcherConfig_defaults :: IpcDispatcherConfig where
  "IpcDispatcherConfig_defaults = \<lparr>ic_port = 8765, ic_ringBufferCapacity = 256, ic_maxConnections = 16\<rparr>"

definition IpcDispatcher_create ::
    "bool \<Rightarrow> bool \<times> bool \<times> bool \<Rightarrow> bool \<Rightarrow> bool \<Rightarrow> IpcDispatcherConfig option \<Rightarrow> IpcDispatcherError \<times> ipc_dispatcher option" where
  "IpcDispatcher_create okHandle okRing okMms okGoose config =
     (if \<not> okHandle then (IPC_DISPATCHER_ERR_OUT_OF_MEMORY, None)
      else
        let cfg = (case config of Some c \<Rightarrow> c | None \<Rightarrow> IpcDispatcherConfig_defaults) in
        if ic_ringBufferCapacity cfg \<le> 0 \<or> ic_maxConnections cfg \<le> 0 then
          (IPC_DISPATCHER_ERR_INVALID_ARGUMENT, None)
        else case IpcDispatcherRingBuffer_create (fst okRing) (fst (snd okRing)) (snd (snd okRing))
                    (ic_ringBufferCapacity cfg) of
          None \<Rightarrow> (IPC_DISPATCHER_ERR_OUT_OF_MEMORY, None)
        | Some ring \<Rightarrow>
            let mms = IpcDispatcherDedupCache_create okMms; goose = IpcDispatcherDedupCache_create okGoose in
            if mms = None \<or> goose = None then (IPC_DISPATCHER_ERR_OUT_OF_MEMORY, None)
            else (IPC_DISPATCHER_OK, Some \<lparr>id_config = cfg, id_ringBuffer = Some ring, id_wsServer = None,
                    id_running = False, id_mmsDedupCache = mms, id_gooseDedupCache = goose\<rparr>))"

text \<open>\<open>ws\<close>: the server and its lock are allocated, it binds, its thread is created.\<close>

definition IpcDispatcher_start ::
    "bool \<times> bool \<times> bool \<times> bool \<Rightarrow> ipc_dispatcher option \<Rightarrow> IpcDispatcherError \<times> ipc_dispatcher option" where
  "IpcDispatcher_start ws handle =
     (case handle of
        None \<Rightarrow> (IPC_DISPATCHER_ERR_INVALID_ARGUMENT, None)
      | Some h \<Rightarrow>
          if id_running h then (IPC_DISPATCHER_ERR_ALREADY_RUNNING, handle)
          else (case ws of (okAlloc, okLock, okBind, okThread) \<Rightarrow>
            (case IpcDispatcherWsServer_create okAlloc okLock okBind (ic_maxConnections (id_config h)) (id_ringBuffer h) of
               (err, None) \<Rightarrow> (err, Some (h\<lparr>id_wsServer := None\<rparr>))
             | (_, server) \<Rightarrow>
                 let err = IpcDispatcherWsServer_start okThread server
                 in if err \<noteq> IPC_DISPATCHER_OK then (err, Some (h\<lparr>id_wsServer := None\<rparr>))
                    else (IPC_DISPATCHER_OK, Some (h\<lparr>id_wsServer := server, id_running := True\<rparr>)))))"

definition IpcDispatcher_stop :: "ipc_dispatcher option \<Rightarrow> ipc_dispatcher option" where
  "IpcDispatcher_stop handle = map_option (\<lambda>h. h\<lparr>id_wsServer := None, id_running := False\<rparr>) handle"

text \<open>The strings \<open>IpcDispatcher_destroy\<close> frees with the ring.\<close>

definition IpcDispatcher_destroy :: "ipc_dispatcher option \<Rightarrow> string list" where
  "IpcDispatcher_destroy handle =
     (case handle of
        None \<Rightarrow> []
      | Some h \<Rightarrow> (case id_ringBuffer h of None \<Rightarrow> [] | Some r \<Rightarrow> IpcDispatcherRingBuffer_destroy (Some r)))"

definition IpcDispatcherConnStateAdapter_handleConnStateChange ::
    "bool \<Rightarrow> bool \<Rightarrow> (json \<Rightarrow> string option) \<Rightarrow> ipc_dispatcher option \<Rightarrow> MmsReportClientConnState \<Rightarrow> ipc_dispatcher option" where
  "IpcDispatcherConnStateAdapter_handleConnStateChange okRoot okCopy prn handle state =
     (case handle of
        None \<Rightarrow> None
      | Some h \<Rightarrow>
          (case IpcDispatcherJsonWriter_writeConnectionStatus okRoot prn state of
             None \<Rightarrow> handle
           | Some txt \<Rightarrow>
               Some (h\<lparr>id_wsServer := IpcDispatcherWsServer_setRetainedConnStatus okCopy (Some txt) (id_wsServer h),
                       id_ringBuffer := fst (IpcDispatcherRingBuffer_push (id_ringBuffer h) (Some txt))\<rparr>)))"

text \<open>The tail of both handlers: message, text, ring.\<close>

definition publish :: "bool \<Rightarrow> (json \<Rightarrow> string option) \<Rightarrow> IpcMessage option \<Rightarrow> ipc_dispatcher \<Rightarrow> ipc_dispatcher" where
  "publish okRoot prn message h =
     (case message of
        None \<Rightarrow> h
      | Some m \<Rightarrow>
          (case IpcDispatcherJsonWriter_write okRoot prn (Some m) of
             None \<Rightarrow> h
           | Some txt \<Rightarrow> h\<lparr>id_ringBuffer := fst (IpcDispatcherRingBuffer_push (id_ringBuffer h) (Some txt))\<rparr>))"

text \<open>
  The allocations of a handler: the index arrays, the point arrays, the message, its points,
  the JSON root.
\<close>

record adapter_allocs =
  ok_index :: bool
  ok_points :: bool
  ok_message :: bool
  ok_dataPoints :: bool
  ok_root :: bool

definition goose_slots ::
    "'v mms_lib \<Rightarrow> adapter_allocs \<Rightarrow> IpcDispatcherDedupCache option \<Rightarrow> 'v GooseSubscriberRecord
     \<Rightarrow> point_slot list \<times> IpcDispatcherDedupCache option" where
  "goose_slots L ok cache rcd =
     (if ok_index ok \<and> ok_points ok then
        goose_loop L (gr_goCbRef rcd) (gr_entries rcd)
          (IpcDispatcherUseCases_pairQuality (map pe_reference (gr_entries rcd))) [] zero_slot cache
      else ([], cache))"

definition IpcDispatcherGooseAdapter_handleRecord ::
    "'v mms_lib \<Rightarrow> adapter_allocs \<Rightarrow> (json \<Rightarrow> string option) \<Rightarrow> ipc_dispatcher option
     \<Rightarrow> 'v GooseSubscriberRecord option \<Rightarrow> ipc_dispatcher option" where
  "IpcDispatcherGooseAdapter_handleRecord L ok prn handle rcd =
     (case (handle, rcd) of
        (Some h, Some r) \<Rightarrow>
          let (slots, cache) = goose_slots L ok (id_gooseDedupCache h) r
          in Some (publish (ok_root ok) prn
               (assemble_slots (ok_message ok) (ok_dataPoints ok) IPC_SOURCE_GOOSE (gr_goCbRef r)
                  False False True (gr_timestampMs r) slots)
               (h\<lparr>id_gooseDedupCache := cache\<rparr>))
      | _ \<Rightarrow> handle)"

definition mms_slots ::
    "'v mms_lib \<Rightarrow> adapter_allocs \<Rightarrow> IpcDispatcherDedupCache option \<Rightarrow> 'v MmsReportRecord
     \<Rightarrow> point_slot list \<times> IpcDispatcherDedupCache option" where
  "mms_slots L ok cache rcd =
     (if ok_index ok \<and> ok_points ok then
        mms_loop L (mr_rcbReference rcd) (mr_entries rcd)
          (IpcDispatcherUseCases_pairQuality (map pe_reference (mr_entries rcd))) [] zero_slot cache
      else ([], cache))"

definition IpcDispatcherMmsAdapter_handleReport ::
    "'v mms_lib \<Rightarrow> adapter_allocs \<Rightarrow> (json \<Rightarrow> string option) \<Rightarrow> ipc_dispatcher option
     \<Rightarrow> 'v MmsReportRecord option \<Rightarrow> ipc_dispatcher option" where
  "IpcDispatcherMmsAdapter_handleReport L ok prn handle rcd =
     (case (handle, rcd) of
        (Some h, Some r) \<Rightarrow>
          let (slots, cache) = mms_slots L ok (id_mmsDedupCache h) r
          in Some (publish (ok_root ok) prn
               (assemble_slots (ok_message ok) (ok_dataPoints ok) IPC_SOURCE_MMS_REPORT (mr_rcbReference r)
                  True (mr_buffered r) (mr_hasTimestamp r) (mr_timestampMs r) slots)
               (h\<lparr>id_mmsDedupCache := cache\<rparr>))
      | _ \<Rightarrow> handle)"


section \<open>Labels\<close>

text \<open>A labelled value is the ordinal its label names.\<close>

definition labelled :: "IpcScalarValue \<Rightarrow> string option \<Rightarrow> bool" where
  "labelled val label \<longleftrightarrow> label \<noteq> None \<and> (\<exists>n. val = IPC_SCALAR_UINT64 (ucast n) \<and> label = dbpos_label n)"

definition labels_ok :: "point_slot \<Rightarrow> bool" where
  "labels_ok slot \<longleftrightarrow> (sl_hasLabel slot \<longrightarrow> labelled (sl_value slot) (sl_label slot))
     \<and> (sl_hasPreviousValue slot \<and> sl_hasPreviousLabel slot \<longrightarrow> labelled (sl_previousValue slot) (sl_previousLabel slot))"

lemma decoded_label:
  "IpcDispatcherValueCodec_decodeDbposLabel L sem val = Some t \<Longrightarrow>
     labelled (set_u64 (IpcDispatcherValueCodec_convert L val) (dbpos_value L val)) (Some t)"
  by (auto simp: IpcDispatcherValueCodec_decodeDbposLabel_def IpcDispatcherValueCodec_convert_def labelled_def
      set_u64_def dbpos_value_def split: if_splits option.splits)

lemma fill_quality_frame:
  "sl_hasLabel (fill_quality L q slot) = sl_hasLabel slot" "sl_label (fill_quality L q slot) = sl_label slot"
  "sl_value (fill_quality L q slot) = sl_value slot" "sl_ref (fill_quality L q slot) = sl_ref slot"
  "sl_hasPreviousValue (fill_quality L q slot) = sl_hasPreviousValue slot"
  "sl_previousValue (fill_quality L q slot) = sl_previousValue slot"
  "sl_hasPreviousLabel (fill_quality L q slot) = sl_hasPreviousLabel slot"
  "sl_previousLabel (fill_quality L q slot) = sl_previousLabel slot"
  by (simp_all add: fill_quality_def split_beta Let_def split: option.split)

lemma fill_slot_labels: "labels_ok (fill_slot L e q slot)"
  using decoded_label [of L "pe_semantic e" "pe_value e"] decoded_label [of L "pe_semantic e" "pe_previousValue e"]
  by (auto simp: labels_ok_def fill_slot_def fill_extras_def fill_quality_frame fill_value_def fill_previous_def Let_def)

lemma goose_loop_labels:
  "\<forall>s \<in> set done. labels_ok s \<Longrightarrow> \<forall>s \<in> set (fst (goose_loop L src es todo done cur cache)). labels_ok s"
  by (induction L src es todo "done" cur cache rule: goose_loop.induct)
    (auto simp: fill_slot_labels Let_def split: prod.splits)

lemma mms_loop_labels:
  "\<forall>s \<in> set done. labels_ok s \<Longrightarrow> \<forall>s \<in> set (fst (mms_loop L src es todo done cur cache)). labels_ok s"
  by (induction L src es todo "done" cur cache rule: mms_loop.induct)
    (auto simp: fill_slot_labels Let_def split: prod.splits)

text \<open>The point of a message that a slot becomes.\<close>

lemma assemble_slots_points:
  assumes "assemble_slots okM okP st src hb b ht ts slots = Some m" and "p \<in> set (msg_dataPoints m)"
  shows "\<exists>s \<in> set slots. dp_reference p = sl_ref s \<and> dp_value p = sl_value s
    \<and> dp_hasLabel p = sl_hasLabel s \<and> (sl_hasLabel s \<longrightarrow> dp_label p = sl_label s)
    \<and> dp_hasPreviousValue p = sl_hasPreviousValue s \<and> (sl_hasPreviousValue s \<longrightarrow> dp_previousValue p = sl_previousValue s)
    \<and> dp_hasPreviousLabel p = sl_hasPreviousLabel s \<and> (sl_hasPreviousLabel s \<longrightarrow> dp_previousLabel p = sl_previousLabel s)"
proof -
  from assms obtain i where i: "i < length slots"
    "p = assemblePoint (map sl_ref slots) (map sl_value slots) (Some (map sl_hasQuality slots))
       (map sl_quality slots) (Some (extras_of slots)) i"
    by (auto simp: assemble_slots_def IpcDispatcherUseCases_assembleMessage_def split: if_splits)
  then show ?thesis
    by (intro bexI [of _ "slots ! i"])
      (simp_all add: assemblePoint_def extra_flag_def extra_item_def extras_of_def Let_def)
qed


section \<open>Which points are emitted\<close>

text \<open>The value/quality pairs the MMS adapter lets through to the duplicate check.\<close>

definition included :: "'v mms_point_entry list \<Rightarrow> nat \<times> nat option \<Rightarrow> bool" where
  "included es = (\<lambda>(vi, qi). pe_ownChangeDetected (es ! vi)
     \<or> (case qi of None \<Rightarrow> False | Some i \<Rightarrow> pe_ownChangeDetected (es ! i)))"

text \<open>The slot of a pair when it starts from zeroed memory.\<close>

definition own_slot :: "'v mms_lib \<Rightarrow> 'v mms_point_entry list \<Rightarrow> nat \<times> nat option \<Rightarrow> point_slot" where
  "own_slot L es = (\<lambda>(vi, qi). fill_slot L (point_entry.truncate (es ! vi))
     (map_option (\<lambda>i. point_entry.truncate (es ! i)) qi) zero_slot)"

lemma mms_loop_no_cache:
  "mms_loop L src es todo done zero_slot None = (done @ map (own_slot L es) (filter (included es) todo), None)"
proof (induction todo arbitrary: "done")
  case (Cons p todo)
  obtain vi qi where p: "p = (vi, qi)" by fastforce
  have inc: "IpcDispatcherUseCases_shouldIncludeValuePoint (pe_ownChangeDetected (es ! vi)) (qi \<noteq> None)
      (case qi of None \<Rightarrow> False | Some i \<Rightarrow> pe_ownChangeDetected (es ! i)) \<longleftrightarrow> included es p"
    by (auto simp: IpcDispatcherUseCases_shouldIncludeValuePoint_def included_def p split: option.splits)
  show ?case
    using Cons [of "done"] Cons [of "done @ [own_slot L es p]"] inc
    by (simp add: p own_slot_def dedup_simps Let_def)
qed simp

text \<open>What of a slot is written for every point: reference, value, label flag, previous-value flag, category.\<close>

definition own_fields :: "point_slot \<Rightarrow> string option \<times> IpcScalarValue \<times> bool \<times> bool \<times> string option \<times> bool" where
  "own_fields s = (sl_ref s, sl_value s, sl_hasLabel s, sl_hasPreviousValue s, sl_category s, sl_hasDescription s)"

lemma own_fields_fill: "own_fields (fill_slot L e q s) = own_fields (fill_slot L e q s')"
  by (simp add: own_fields_def fill_slot_def fill_extras_def fill_quality_frame fill_value_def fill_previous_def Let_def)

lemma mms_loop_selection:
  "\<exists>ks. subseq ks (filter (included es) todo) \<and>
     map own_fields (fst (mms_loop L src es todo done cur cache)) = map own_fields done @ map (own_fields \<circ> own_slot L es) ks"
proof (induction todo arbitrary: "done" cur cache)
  case Nil
  then show ?case by (intro exI [of _ "[]"]) simp
next
  case (Cons p todo)
  obtain vi qi where p: "p = (vi, qi)" by fastforce
  have inc: "IpcDispatcherUseCases_shouldIncludeValuePoint (pe_ownChangeDetected (es ! vi)) (qi \<noteq> None)
      (case qi of None \<Rightarrow> False | Some i \<Rightarrow> pe_ownChangeDetected (es ! i)) \<longleftrightarrow> included es p"
    by (auto simp: IpcDispatcherUseCases_shouldIncludeValuePoint_def included_def p split: option.splits)
  define slot where "slot = fill_slot L (point_entry.truncate (es ! vi))
    (map_option (\<lambda>i. point_entry.truncate (es ! i)) qi) cur"
  have own: "own_fields slot = own_fields (own_slot L es p)"
    unfolding slot_def own_slot_def p by (simp add: own_fields_fill [of L _ _ cur zero_slot])
  obtain f c' where fc: "IpcDispatcherDedupCache_shouldForward cache src (sl_ref slot) (sl_value slot)
      (sl_hasQuality slot) (sl_quality slot) = (f, c')" by fastforce
  consider "\<not> included es p" | "included es p" "\<not> f" | "included es p" "f" by blast
  then show ?case
  proof cases
    case 1
    with Cons.IH [of "done" cur cache] inc show ?thesis by (simp add: p)
  next
    case 2
    from Cons.IH [of "done" slot c'] obtain ks where ks: "subseq ks (filter (included es) todo)"
      "map own_fields (fst (mms_loop L src es todo done slot c')) = map own_fields done @ map (own_fields \<circ> own_slot L es) ks"
      by blast
    have "mms_loop L src es (p # todo) done cur cache = mms_loop L src es todo done slot c'"
      using 2 inc fc by (simp add: p slot_def Let_def)
    with ks 2(1) show ?thesis by (intro exI [of _ ks]) (auto intro: subseq_Cons')
  next
    case 3
    from Cons.IH [of "done @ [slot]" zero_slot c'] obtain ks where ks: "subseq ks (filter (included es) todo)"
      "map own_fields (fst (mms_loop L src es todo (done @ [slot]) zero_slot c'))
         = map own_fields (done @ [slot]) @ map (own_fields \<circ> own_slot L es) ks"
      by blast
    have "mms_loop L src es (p # todo) done cur cache = mms_loop L src es todo (done @ [slot]) zero_slot c'"
      using 3 inc fc by (simp add: p slot_def Let_def)
    with ks 3(1) own show ?thesis by (intro exI [of _ "p # ks"]) simp
  qed
qed


text \<open>Every emitted point is an entry's own: whatever the duplicate cache holds, the points of an
  MMS message are, in order, a selection of the included value entries (those that changed
  themselves or whose paired quality changed), and each has the reference, value, label,
  previous value and category of its entry; without a cache all included entries are there,
  every one filled from zeroed memory.\<close>

theorem mms_points_are_own_entries:
  assumes "ok_index ok" and "ok_points ok"
    and "pairs = filter (included (mr_entries rcd)) (IpcDispatcherUseCases_pairQuality (map pe_reference (mr_entries rcd)))"
  shows "(\<exists>ks. subseq ks pairs \<and> map own_fields (fst (mms_slots L ok cache rcd))
        = map (own_fields \<circ> own_slot L (mr_entries rcd)) ks)
    \<and> fst (mms_slots L ok None rcd) = map (own_slot L (mr_entries rcd)) pairs"
  using mms_loop_selection [of "mr_entries rcd" _ L "mr_rcbReference rcd" "[]" zero_slot cache] assms
  by (simp add: mms_slots_def mms_loop_no_cache)

section \<open>What a suppressed point leaves behind\<close>

lemma shouldForward_report:
  "IpcDispatcherDedupCache_shouldForward (Some c) (Some s) r v h q = map_prod id Some (dedup_report c s (r, v, h, q))"
  by (simp add: dedup_report_def dedup_simps)

lemma fresh_push_owns:
  "dedup_owns (push_new fresh_dedup s k) k' s' \<longleftrightarrow> s' = s \<and> same_content k k'"
proof -
  have "dedup_live (push_new fresh_dedup s k) = [new_entry s k]"
    by (simp add: fresh_dedup_def IpcDispatcherDedupCache_create_def push_new_simps
        IPC_DISPATCHER_DEDUP_CAPACITY_def take_Suc_conv_app_nth)
  then show ?thesis unfolding dedup_owns_def by auto
qed

text \<open>
  A breaker position with its quality, already forwarded by control block A, followed by an
  alarm bit whose reference has no separator and so no quality.
\<close>

definition leak_record :: "demo_value GooseSubscriberRecord" where
  "leak_record = \<lparr>gr_goCbRef = Some ''B'', gr_goId = None, gr_dataSet = None, gr_stNum = 1, gr_sqNum = 0,
     gr_confRev = 1, gr_test = False, gr_needsCommission = False, gr_timeAllowedToLiveMs = 2000, gr_timestampMs = 0,
     gr_hasVlan = False, gr_vlanId = 0, gr_vlanPrio = 0, gr_appId = 1, gr_srcMac = replicate 6 0,
     gr_dstMac = replicate 6 0, gr_entries =
     [\<lparr>pe_reference = Some ''P$stVal'', pe_value = Some (Demo_Bool True), pe_previousValue = None,
       pe_semantic = IED_MODEL_DA_SEMANTIC_NONE, pe_category = IED_MODEL_LN_CATEGORY_OTHER, pe_description = None\<rparr>,
      \<lparr>pe_reference = Some ''P$q'', pe_value = Some (Demo_Bits 13 2), pe_previousValue = None,
       pe_semantic = IED_MODEL_DA_SEMANTIC_NONE, pe_category = IED_MODEL_LN_CATEGORY_OTHER, pe_description = None\<rparr>,
      \<lparr>pe_reference = Some ''Alm'', pe_value = Some (Demo_Bool True), pe_previousValue = None,
       pe_semantic = IED_MODEL_DA_SEMANTIC_NONE, pe_category = IED_MODEL_LN_CATEGORY_OTHER, pe_description = None\<rparr>]\<rparr>"

definition all_ok :: adapter_allocs where
  "all_ok = \<lparr>ok_index = True, ok_points = True, ok_message = True, ok_dataPoints = True, ok_root = True\<rparr>"

text \<open>The quality of a suppressed point leaks into the next one: the arrays of the adapters are not
  cleared when a point is dropped as a duplicate, and the quality fields are written only for
  a point that has a quality entry. Here the position is dropped, and the alarm, which has no
  quality at all, is emitted with the position's quality INVALID.\<close>

theorem suppressed_quality_leaks:
  "map (\<lambda>s. (sl_ref s, sl_hasQuality s, q_validity (sl_quality s))) (fst (goose_slots demo_lib all_ok
     (Some (push_new fresh_dedup ''A'' (Some ''P$stVal'', IPC_SCALAR_BOOL True, True,
        \<lparr>q_validity = IPC_QUALITY_INVALID, q_detailFlags = 2\<rparr>))) leak_record))
   = [(Some ''Alm'', True, IPC_QUALITY_INVALID)]
   \<and> IpcDispatcherUseCases_pairQuality (map pe_reference (gr_entries leak_record)) = [(0, Some 1), (2, None)]"
proof -
  have pairs: "IpcDispatcherUseCases_pairQuality (map pe_reference (gr_entries leak_record)) = [(0, Some 1), (2, None)]"
    by (simp add: leak_record_def IpcDispatcherUseCases_pairQuality_def pairStep_def
        IpcDispatcherUseCases_splitReference_def findQualityIndexForValue_def qualitySearch.simps isQualityAt_def
        strneq_def upt_rec numeral_2_eq_2 del: find_index_None_iff)
  show ?thesis
    unfolding goose_slots_def pairs
    by (simp add: all_ok_def leak_record_def shouldForward_report dedup_report_eq fresh_push_owns fill_slot_def
        fill_value_def fill_previous_def fill_quality_def fill_extras_def Let_def zero_slot_def demo_lib_def
        IpcDispatcherValueCodec_convert_def IpcDispatcherValueCodec_decodeDbposLabel_def
        IpcDispatcherValueCodec_decodeQuality_def validity_of_def)
qed


section \<open>The properties at concrete inputs\<close>

definition demo_report :: "demo_value MmsReportRecord" where
  "demo_report = \<lparr>mr_rcbReference = Some ''R1'', mr_buffered = True, mr_rptId = None, mr_hasEntryId = False,
     mr_entryId = None, mr_hasTimestamp = False, mr_timestampMs = 0, mr_hasSeqNum = False, mr_seqNum = 0,
     mr_entries =
     [\<lparr>pe_reference = Some ''P$stVal'', pe_value = Some (Demo_Bits 2 2), pe_previousValue = None,
       pe_semantic = IED_MODEL_DA_SEMANTIC_DBPOS, pe_category = IED_MODEL_LN_CATEGORY_CONTROL,
       pe_description = None, pe_reason = 1, pe_ownChangeDetected = True\<rparr>]\<rparr>"

lemma demo_report_pairs:
  "IpcDispatcherUseCases_pairQuality (map pe_reference (mr_entries demo_report)) = [(0, None)]"
  by (simp add: demo_report_def IpcDispatcherUseCases_pairQuality_def pairStep_def
      IpcDispatcherUseCases_splitReference_def findQualityIndexForValue_def qualitySearch.simps isQualityAt_def
      strneq_def upt_rec del: find_index_None_iff)

lemma mms_points_are_own_entries_witness:
  "fst (mms_slots demo_lib all_ok None demo_report) = [own_slot demo_lib (mr_entries demo_report) (0, None)]"
proof -
  have "filter (included (mr_entries demo_report)) [(0, None)] = [(0, None)]"
    by (simp add: included_def demo_report_def)
  then show ?thesis
    using mms_points_are_own_entries [of all_ok _ demo_report demo_lib None, OF _ _ refl] demo_report_pairs
    by (simp add: all_ok_def)
qed

definition demo_point :: IpcDataPoint where
  "demo_point = hd (msg_dataPoints (the (assemble_slots True True IPC_SOURCE_MMS_REPORT (Some ''R1'') True True
     False 0 (fst (mms_slots demo_lib all_ok None demo_report)))))"

lemma demo_slots: "fst (mms_slots demo_lib all_ok None demo_report) = [own_slot demo_lib (mr_entries demo_report) (0, None)]"
  by (simp add: mms_slots_def all_ok_def demo_report_pairs mms_loop_no_cache)
    (simp add: included_def demo_report_def)


end
