(* ===== verification/Goose_Reorder.thy ===== *)
theory Goose_Reorder
  imports Mms_Value
begin

text \<open>
  Decomposition of a structured dataset member into its leaves:
  \<open>goose_subscriber/utils/goose_subscriber_utils.c\<close> (flattening) and
  \<open>reorderFlattenedToMatchReferences\<close> of \<open>goose_subscriber_usecases.c\<close>, which assigns the
  values on the wire to the leaf references: quality and timestamp leaves by their fixed
  wire type, further leaves by their expected type where it is unambiguous, the rest by
  position. The test of an expected type is \<open>ied_model_usecases.c\<close>'s. Growing the output
  array is taken to succeed.
\<close>

section \<open>Expected types\<close>

datatype DataAttributeType =
    IEC61850_UNKNOWN_TYPE | IEC61850_BOOLEAN | IEC61850_INT8 | IEC61850_INT16 | IEC61850_INT32
  | IEC61850_INT64 | IEC61850_INT128 | IEC61850_INT8U | IEC61850_INT16U | IEC61850_INT24U
  | IEC61850_INT32U | IEC61850_FLOAT32 | IEC61850_FLOAT64 | IEC61850_ENUMERATED
  | IEC61850_OCTET_STRING_64 | IEC61850_OCTET_STRING_6 | IEC61850_OCTET_STRING_8
  | IEC61850_VISIBLE_STRING_32 | IEC61850_VISIBLE_STRING_64 | IEC61850_VISIBLE_STRING_65
  | IEC61850_VISIBLE_STRING_129 | IEC61850_VISIBLE_STRING_255 | IEC61850_UNICODE_STRING_255
  | IEC61850_TIMESTAMP | IEC61850_QUALITY | IEC61850_CHECK | IEC61850_CODEDENUM
  | IEC61850_GENERIC_BITSTRING | IEC61850_CONSTRUCTED | IEC61850_ENTRY_TIME | IEC61850_PHYCOMADDR
  | IEC61850_CURRENCY | IEC61850_OPTFLDS | IEC61850_TRGOPS

definition IedModelUseCases_dataAttributeTypeMatchesMmsType :: "DataAttributeType \<Rightarrow> MmsType \<Rightarrow> bool" where
  "IedModelUseCases_dataAttributeTypeMatchesMmsType expected actual =
     (if expected = IEC61850_BOOLEAN then actual = MMS_BOOLEAN
      else if expected = IEC61850_TIMESTAMP then actual = MMS_UTC_TIME
      else if expected \<in> {IEC61850_QUALITY, IEC61850_CODEDENUM, IEC61850_CHECK, IEC61850_GENERIC_BITSTRING,
                          IEC61850_OPTFLDS, IEC61850_TRGOPS} then actual = MMS_BIT_STRING
      else if expected \<in> {IEC61850_INT8, IEC61850_INT16, IEC61850_INT32, IEC61850_INT64, IEC61850_INT128,
                          IEC61850_INT8U, IEC61850_INT16U, IEC61850_INT24U, IEC61850_INT32U,
                          IEC61850_FLOAT32, IEC61850_FLOAT64, IEC61850_ENUMERATED}
           then actual = MMS_INTEGER \<or> actual = MMS_UNSIGNED \<or> actual = MMS_FLOAT
      else if expected \<in> {IEC61850_VISIBLE_STRING_32, IEC61850_VISIBLE_STRING_64, IEC61850_VISIBLE_STRING_65,
                          IEC61850_VISIBLE_STRING_129, IEC61850_VISIBLE_STRING_255, IEC61850_UNICODE_STRING_255}
           then actual = MMS_VISIBLE_STRING \<or> actual = MMS_STRING
      else True)"

section \<open>Flattening\<close>

text \<open>
  The leaves of a value in wire order. A structure of the library is a finite tree, but
  nothing of its representation is known here: \<open>fuel\<close> bounds the nesting, and running out
  of it is \<open>None\<close>.
\<close>

fun flattenRecursive :: "'v mms_lib \<Rightarrow> nat \<Rightarrow> 'v option \<Rightarrow> 'v list option" where
  "flattenRecursive L fuel None = Some []"
| "flattenRecursive L 0 (Some v) = (if ml_getType L v = MMS_STRUCTURE then None else Some [v])"
| "flattenRecursive L (Suc fuel) (Some v) =
     (if ml_getType L v = MMS_STRUCTURE then
        map_option concat (those (map (\<lambda>i. flattenRecursive L fuel (ml_getElement L v i)) [0..<ml_getArraySize L v]))
      else Some [v])"

text \<open>The empty list stands for a NULL array: a NULL value or no leaf.\<close>

definition GooseSubscriberUtils_flattenStructure :: "'v mms_lib \<Rightarrow> nat \<Rightarrow> 'v option \<Rightarrow> 'v list option" where
  "GooseSubscriberUtils_flattenStructure L fuel val =
     (case val of None \<Rightarrow> Some [] | Some v \<Rightarrow> flattenRecursive L fuel (Some v))"

section \<open>Reordering\<close>

definition daNameOf :: "string option \<Rightarrow> string option" where
  "daNameOf ref =
     (case ref of
        None \<Rightarrow> None
      | Some r \<Rightarrow> (case strrchr r (CHR ''$'') of None \<Rightarrow> Some r | Some i \<Rightarrow> Some (drop (Suc i) r)))"

definition isQualityValue :: "'v mms_lib \<Rightarrow> 'v \<Rightarrow> bool" where
  "isQualityValue L v \<longleftrightarrow> ml_getType L v = MMS_BIT_STRING \<and> ml_getBitStringSize L v = 13"

definition isTimeValue :: "'v mms_lib \<Rightarrow> 'v \<Rightarrow> bool" where
  "isTimeValue L v \<longleftrightarrow> ml_getType L v = MMS_UTC_TIME"

text \<open>
  \<open>outReordered\<close> as indices into the wire order, \<open>None\<close> for a position not filled yet;
  \<open>used\<close> is \<open>wireUsed\<close>. The first unused wire value with a property:
\<close>

definition firstUnused :: "('v \<Rightarrow> bool) \<Rightarrow> 'v list \<Rightarrow> bool list \<Rightarrow> nat option" where
  "firstUnused p flattened used = find_index (\<lambda>(v, u). \<not> u \<and> p v) (zip flattened used)"

text \<open>First pass, over the references in order; \<open>None\<close> is \<open>ok = false\<close>.\<close>

fun fixedTypePass ::
    "'v mms_lib \<Rightarrow> 'v list \<Rightarrow> string option list \<Rightarrow> bool list \<Rightarrow> (nat option list \<times> bool list) option" where
  "fixedTypePass L flattened [] used = Some ([], used)"
| "fixedTypePass L flattened (ref # refs) used =
     (if daNameOf ref = Some ''q'' \<or> daNameOf ref = Some ''t'' then
        (case firstUnused (if daNameOf ref = Some ''q'' then isQualityValue L else isTimeValue L) flattened used of
           None \<Rightarrow> None
         | Some w \<Rightarrow> map_option (\<lambda>(outs, u). (Some w # outs, u))
                        (fixedTypePass L flattened refs (used[w := True])))
      else map_option (\<lambda>(outs, u). (None # outs, u)) (fixedTypePass L flattened refs used))"

text \<open>Second pass: the wire values an expected type admits, if there is exactly one.\<close>

definition typeMatches :: "'v mms_lib \<Rightarrow> 'v list \<Rightarrow> DataAttributeType \<Rightarrow> bool list \<Rightarrow> nat list" where
  "typeMatches L flattened expected used =
     filter (\<lambda>w. \<not> used ! w
               \<and> IedModelUseCases_dataAttributeTypeMatchesMmsType expected (ml_getType L (flattened ! w)))
       [0..<length flattened]"

fun expectedTypePass ::
    "'v mms_lib \<Rightarrow> 'v list \<Rightarrow> DataAttributeType list \<Rightarrow> nat option list \<Rightarrow> bool list \<Rightarrow> nat option list \<times> bool list" where
  "expectedTypePass L flattened types [] used = ([], used)"
| "expectedTypePass L flattened types (Some w # outs) used =
     (let (outs', u) = expectedTypePass L flattened (tl types) outs used in (Some w # outs', u))"
| "expectedTypePass L flattened types (None # outs) used =
     (case typeMatches L flattened (hd types) used of
        [w] \<Rightarrow> (let (outs', u) = expectedTypePass L flattened (tl types) outs (used[w := True]) in (Some w # outs', u))
      | _ \<Rightarrow> (let (outs', u) = expectedTypePass L flattened (tl types) outs used in (None # outs', u)))"

text \<open>Third pass: \<open>while (w < count && wireUsed[w]) w++\<close>, then take \<open>w\<close>.\<close>

definition skipUsed :: "bool list \<Rightarrow> nat \<Rightarrow> nat" where
  "skipUsed used w = w + length (takeWhile id (drop w used))"

fun positionalPass :: "nat option list \<Rightarrow> bool list \<Rightarrow> nat \<Rightarrow> nat list option" where
  "positionalPass [] used w = Some []"
| "positionalPass (Some i # outs) used w = map_option (Cons i) (positionalPass outs used w)"
| "positionalPass (None # outs) used w =
     (let w' = skipUsed used w in
      if w' \<ge> length used then None
      else map_option (Cons w') (positionalPass outs (used[w' := True]) (w' + 1)))"

definition reorderIndices ::
    "'v mms_lib \<Rightarrow> string option list \<Rightarrow> 'v list \<Rightarrow> DataAttributeType list option \<Rightarrow> nat list option" where
  "reorderIndices L leafReferences flattened expectedTypes =
     (case fixedTypePass L flattened leafReferences (replicate (length flattened) False) of
        None \<Rightarrow> None
      | Some (outs, used) \<Rightarrow>
          let (outs', used') = (case expectedTypes of
                None \<Rightarrow> (outs, used)
              | Some types \<Rightarrow> expectedTypePass L flattened types outs used)
          in positionalPass outs' used' 0)"

definition reorderFlattenedToMatchReferences ::
    "bool \<Rightarrow> 'v mms_lib \<Rightarrow> string option list \<Rightarrow> 'v list \<Rightarrow> DataAttributeType list option \<Rightarrow> 'v list option" where
  "reorderFlattenedToMatchReferences okUsed L leafReferences flattened expectedTypes =
     (if \<not> okUsed then None
      else map_option (map (\<lambda>w. flattened ! w)) (reorderIndices L leafReferences flattened expectedTypes))"

section \<open>The assignment is a permutation\<close>

text \<open>
  The passes keep a partial assignment: no wire index twice, and an index is marked used
  exactly when some position, filled before (\<open>A\<close>) or in the list, holds it.
\<close>

definition assigned :: "nat option list \<Rightarrow> nat set" where
  "assigned outs = {w. Some w \<in> set outs}"

definition used_set :: "bool list \<Rightarrow> nat set" where
  "used_set used = {w. w < length used \<and> used ! w}"

definition one_each :: "nat option list \<Rightarrow> bool" where
  "one_each outs \<longleftrightarrow> distinct (filter (\<lambda>x. x \<noteq> None) outs)"

lemma assigned_simps [simp]:
  "assigned [] = {}" "assigned (None # outs) = assigned outs" "assigned (Some w # outs) = insert w (assigned outs)"
  by (auto simp: assigned_def)

lemma one_each_simps [simp]:
  "one_each []" "one_each (None # outs) = one_each outs"
  "one_each (Some w # outs) \<longleftrightarrow> w \<notin> assigned outs \<and> one_each outs"
  by (auto simp: one_each_def assigned_def)

lemma used_set_update [simp]: "w < length used \<Longrightarrow> used_set (used[w := True]) = insert w (used_set used)"
  by (auto simp: used_set_def nth_list_update)

lemma firstUnused_SomeD:
  assumes "firstUnused p flattened used = Some w"
  shows "w < length flattened \<and> w < length used \<and> w \<notin> used_set used \<and> p (flattened ! w)"
  using find_index_SomeD [OF assms [unfolded firstUnused_def]] by (auto simp: used_set_def)

lemma fixedTypePass_ok:
  assumes "fixedTypePass L flattened refs used = Some (outs, used')" and "length used = length flattened"
  shows "length outs = length refs \<and> length used' = length flattened \<and> one_each outs
    \<and> assigned outs \<inter> used_set used = {} \<and> used_set used' = used_set used \<union> assigned outs
    \<and> (\<forall>i < length refs. (daNameOf (refs ! i) = Some ''q'' \<longrightarrow> (\<exists>w. outs ! i = Some w \<and> isQualityValue L (flattened ! w)))
         \<and> (daNameOf (refs ! i) = Some ''t'' \<longrightarrow> (\<exists>w. outs ! i = Some w \<and> isTimeValue L (flattened ! w))))"
  using assms
proof (induction refs arbitrary: used outs)
  case (Cons ref refs)
  show ?case
  proof (cases "daNameOf ref = Some ''q'' \<or> daNameOf ref = Some ''t''")
    case True
    let ?p = "if daNameOf ref = Some ''q'' then isQualityValue L else isTimeValue L"
    from Cons.prems(1) True obtain w outs1 where w: "firstUnused ?p flattened used = Some w"
      "fixedTypePass L flattened refs (used[w := True]) = Some (outs1, used')" "outs = Some w # outs1"
      by (auto split: option.splits if_splits)
    note fu = firstUnused_SomeD [OF w(1)]
    have "length (used[w := True]) = length flattened" using Cons.prems(2) by simp
    note IH = Cons.IH [OF w(2) this]
    have names: "(daNameOf ref = Some ''q'' \<longrightarrow> isQualityValue L (flattened ! w))
        \<and> (daNameOf ref = Some ''t'' \<longrightarrow> isTimeValue L (flattened ! w))" using fu by (auto split: if_splits)
    show ?thesis
      using IH fu names unfolding w(3) by (auto simp: less_Suc_eq_0_disj)
  next
    case False
    with Cons.prems(1) obtain outs1 where o1: "fixedTypePass L flattened refs used = Some (outs1, used')"
      "outs = None # outs1" by auto
    from Cons.IH [OF o1(1) Cons.prems(2)] False show ?thesis
      unfolding o1(2) by (auto simp: less_Suc_eq_0_disj)
  qed
qed (auto)

lemma typeMatches_single:
  "typeMatches L flattened ty used = [w] \<Longrightarrow> w < length flattened \<and> \<not> used ! w"
  unfolding typeMatches_def by (drule arg_cong [of _ _ set]) auto

lemma expectedTypePass_ok:
  assumes "expectedTypePass L flattened types outs used = (outs', used')"
    and "length used = length flattened" and "one_each outs" and "assigned outs \<subseteq> used_set used"
  shows "length outs' = length outs \<and> length used' = length flattened \<and> one_each outs'
    \<and> used_set used' = used_set used \<union> assigned outs'
    \<and> assigned outs' \<inter> used_set used \<subseteq> assigned outs
    \<and> (\<forall>i < length outs. \<forall>w. outs ! i = Some w \<longrightarrow> outs' ! i = Some w)"
  using assms
proof (induction outs arbitrary: types used outs' used')
  case (Cons x outs)
  have rest: "length o1 = length outs \<and> length u1 = length flattened \<and> one_each o1
      \<and> used_set u1 = used_set us \<union> assigned o1 \<and> assigned o1 \<inter> used_set us \<subseteq> assigned outs
      \<and> (\<forall>i < length outs. \<forall>w. outs ! i = Some w \<longrightarrow> o1 ! i = Some w)"
    if "expectedTypePass L flattened (tl types) outs us = (o1, u1)" "length us = length flattened"
      "used_set used \<subseteq> used_set us" for us o1 u1
    using Cons.IH [OF that(1,2)] Cons.prems(3,4) that(3) by (cases x) auto
  show ?case
  proof (cases x)
    case (Some w)
    obtain o1 u1 where r: "expectedTypePass L flattened (tl types) outs used = (o1, u1)" by fastforce
    with Cons.prems(1) Some have e: "outs' = Some w # o1" "used' = u1" by (simp_all add: Let_def)
    note IH = rest [OF r Cons.prems(2) subset_refl]
    have "w \<notin> assigned o1" using IH Cons.prems(3,4) Some by auto
    with IH Cons.prems(4) Some show ?thesis unfolding e by (auto simp: less_Suc_eq_0_disj)
  next
    case None
    show ?thesis
    proof (cases "\<exists>w. typeMatches L flattened (hd types) used = [w]")
      case True
      then obtain w where w: "typeMatches L flattened (hd types) used = [w]" by blast
      note tm = typeMatches_single [OF w]
      obtain o1 u1 where r: "expectedTypePass L flattened (tl types) outs (used[w := True]) = (o1, u1)" by fastforce
      with Cons.prems(1) None w have e: "outs' = Some w # o1" "used' = u1" by (simp_all add: Let_def)
      have us: "used_set (used[w := True]) = insert w (used_set used)" "w \<notin> used_set used"
        using tm Cons.prems(2) by (simp_all, simp add: used_set_def)
      have IH: "length o1 = length outs \<and> length u1 = length flattened \<and> one_each o1
        \<and> used_set u1 = insert w (used_set used) \<union> assigned o1
        \<and> assigned o1 \<inter> insert w (used_set used) \<subseteq> assigned outs
        \<and> (\<forall>i < length outs. \<forall>w. outs ! i = Some w \<longrightarrow> o1 ! i = Some w)"
        using rest [OF r] Cons.prems(2) us by auto
      have "w \<notin> assigned o1" using IH us(2) Cons.prems(4) None by auto
      with IH us(2) None show ?thesis unfolding e by (auto simp: less_Suc_eq_0_disj)
    next
      case False
      obtain o1 u1 where r: "expectedTypePass L flattened (tl types) outs used = (o1, u1)" by fastforce
      have "outs' = None # o1" "used' = u1"
        using Cons.prems(1) None r False by (auto simp: Let_def split: list.splits)
      with rest [OF r Cons.prems(2) subset_refl] None show ?thesis by (auto simp: less_Suc_eq_0_disj)
    qed
  qed
qed auto

definition unused :: "bool list \<Rightarrow> nat set" where
  "unused used = {w. w < length used \<and> \<not> used ! w}"

lemma skipUsed_least:
  assumes "u \<in> unused used" and "\<forall>v \<in> unused used. w \<le> v"
  shows "skipUsed used w \<in> unused used \<and> (\<forall>v \<in> unused used. skipUsed used w \<le> v)"
proof -
  define k where "k = length (takeWhile id (drop w used))"
  have uw: "w \<le> u" "u < length used" "\<not> used ! u" using assms by (auto simp: unused_def)
  have "drop w used ! (u - w) \<in> set (drop w used)" using uw by (intro nth_mem) simp
  then have "\<exists>x \<in> set (drop w used). \<not> id x" using uw by auto
  then have k: "k < length (drop w used)" unfolding k_def by (rule takeWhile_shorter)
  then have k': "\<not> drop w used ! k"
    using nth_length_takeWhile [of id "drop w used"] by (simp add: k_def)
  have below: "used ! v" if "w \<le> v" "v < w + k" for v
  proof -
    have "v - w < length (takeWhile id (drop w used))" using that by (simp add: k_def)
    then have "takeWhile id (drop w used) ! (v - w) = drop w used ! (v - w)"
      "takeWhile id (drop w used) ! (v - w) \<in> set (takeWhile id (drop w used))"
      by (rule takeWhile_nth, rule nth_mem)
    then have "drop w used ! (v - w)" using set_takeWhileD [of "drop w used ! (v - w)" id "drop w used"] by simp
    with that k show ?thesis by simp
  qed
  have "w + k \<le> v" if v: "v \<in> unused used" for v
  proof (rule ccontr)
    assume "\<not> w + k \<le> v"
    moreover have "w \<le> v" using v assms(2) by blast
    ultimately have "used ! v" using below by simp
    with v show False by (simp add: unused_def)
  qed
  with k k' show ?thesis by (auto simp: skipUsed_def k_def [symmetric] unused_def)
qed

lemma positionalPass_total:
  assumes "card (unused used) = length (filter (\<lambda>x. x = None) outs)" and "\<forall>v \<in> unused used. w \<le> v"
    and "one_each outs" and "assigned outs \<inter> unused used = {}"
  shows "\<exists>ws. positionalPass outs used w = Some ws \<and> length ws = length outs \<and> distinct ws
    \<and> set ws = assigned outs \<union> unused used \<and> (\<forall>i < length outs. \<forall>x. outs ! i = Some x \<longrightarrow> ws ! i = x)"
  using assms
proof (induction outs used w rule: positionalPass.induct)
  case (1 used w)
  moreover have "finite (unused used)" by (simp add: unused_def)
  ultimately show ?case by simp
next
  case (2 x outs used w)
  then obtain ws where "positionalPass outs used w = Some ws" "length ws = length outs" "distinct ws"
    "set ws = assigned outs \<union> unused used" "\<forall>i < length outs. \<forall>x. outs ! i = Some x \<longrightarrow> ws ! i = x" by auto
  with 2(4,5) show ?case by (auto simp: less_Suc_eq_0_disj)
next
  case (3 outs used w)
  have fin: "finite (unused used)" by (simp add: unused_def)
  have "unused used \<noteq> {}" using 3(2) by auto
  then obtain u where "u \<in> unused used" by blast
  note sk = skipUsed_least [OF this 3(3)]
  define w' where "w' = skipUsed used w"
  have w': "w' < length used" "w' \<in> unused used" "\<forall>v \<in> unused used. w' \<le> v" using sk by (auto simp: w'_def unused_def)
  have un: "unused (used[w' := True]) = unused used - {w'}"
    using w'(1) by (auto simp: unused_def nth_list_update split: if_splits)
  have "\<exists>ws. positionalPass outs (used[w' := True]) (w' + 1) = Some ws \<and> length ws = length outs \<and> distinct ws
      \<and> set ws = assigned outs \<union> (unused used - {w'}) \<and> (\<forall>i < length outs. \<forall>x. outs ! i = Some x \<longrightarrow> ws ! i = x)"
    using 3(1) [OF w'_def] w' 3(2-5) fin unfolding un
    by (force simp: le_less Suc_le_eq)
  then obtain ws where ws: "positionalPass outs (used[w' := True]) (w' + 1) = Some ws" "length ws = length outs"
    "distinct ws" "set ws = assigned outs \<union> (unused used - {w'})"
    "\<forall>i < length outs. \<forall>x. outs ! i = Some x \<longrightarrow> ws ! i = x" by blast
  have "w' \<notin> assigned outs" using 3(5) w'(2) by auto
  with ws w' show ?case by (auto simp: w'_def [symmetric] Let_def less_Suc_eq_0_disj)
qed


section \<open>Properties\<close>

lemma used_unused: "unused used = {..<length used} - used_set used"
  by (auto simp: unused_def used_set_def)

lemma card_assigned: "one_each outs \<Longrightarrow> card (assigned outs) + length (filter (\<lambda>x. x = None) outs) = length outs"
proof (induction outs)
  case (Cons x outs)
  have "finite (assigned outs)"
    by (rule finite_subset [of _ "the ` set outs"]) (force simp: assigned_def, simp)
  with Cons show ?case by (cases x) auto
qed simp

text \<open>After the first two passes the third one cannot fail.\<close>

lemma reorderIndices_total:
  assumes "fixedTypePass L flattened refs (replicate (length flattened) False) = Some (outs, used)"
    and "length refs = length flattened"
  shows "\<exists>ws. reorderIndices L refs flattened types = Some ws \<and> length ws = length flattened
    \<and> distinct ws \<and> set ws = {..<length flattened} \<and> (\<forall>i < length refs. \<forall>w. outs ! i = Some w \<longrightarrow> ws ! i = w)"
proof -
  have emp: "used_set (replicate (length flattened) False) = {}" by (auto simp: used_set_def)
  note f = fixedTypePass_ok [OF assms(1)]
  have f1: "length outs = length flattened" "length used = length flattened" "one_each outs"
    "used_set used = assigned outs" using f assms(2) emp by simp_all
  obtain outs' used' where o': "(case types of None \<Rightarrow> (outs, used)
      | Some ts \<Rightarrow> expectedTypePass L flattened ts outs used) = (outs', used')" by fastforce
  have keep: "assigned outs \<subseteq> assigned outs'"
    if "\<forall>i < length outs. \<forall>w. outs ! i = Some w \<longrightarrow> outs' ! i = Some w" "length outs' = length outs"
    using that nth_mem [of _ outs'] by (fastforce simp: assigned_def in_set_conv_nth)
  have g: "length outs' = length flattened" "length used' = length flattened" "one_each outs'"
    "used_set used' = assigned outs'" "\<forall>i < length outs. \<forall>w. outs ! i = Some w \<longrightarrow> outs' ! i = Some w"
    using f1 o' expectedTypePass_ok [of L flattened _ outs used outs' used'] keep
    by (auto split: option.splits)
  have un: "unused used' = {..<length flattened} - assigned outs'" using g by (simp add: used_unused)
  have sub: "assigned outs' \<subseteq> {..<length flattened}" using g(2,4) by (auto simp: used_set_def)
  have "card (unused used') = length (filter (\<lambda>x. x = None) outs')"
    using card_assigned [OF g(3)] g(1) sub un by (simp add: card_Diff_subset finite_subset)
  then obtain ws where ws: "positionalPass outs' used' 0 = Some ws" "length ws = length outs'" "distinct ws"
    "set ws = assigned outs' \<union> unused used'" "\<forall>i < length outs'. \<forall>x. outs' ! i = Some x \<longrightarrow> ws ! i = x"
    using positionalPass_total [of used' outs' 0] g(3) un by auto
  have "reorderIndices L refs flattened types = Some ws"
    using assms(1) o' ws(1) by (simp add: reorderIndices_def)
  with ws g f1 un sub assms(2) show ?thesis by auto
qed

text \<open>C5. Reordering never loses, duplicates or invents a value: when it succeeds the result is a
  permutation of the wire values in which every quality leaf holds a 13-bit string and every
  timestamp leaf a UTC time, and (memory aside) it fails only when the first pass finds no
  value of the fixed type left for some quality or timestamp leaf.\<close>

theorem reorder_permutes:
  assumes "length refs = length flattened"
  shows "case reorderFlattenedToMatchReferences True L refs flattened types of
      None \<Rightarrow> fixedTypePass L flattened refs (replicate (length flattened) False) = None
    | Some out \<Rightarrow> mset out = mset flattened
        \<and> (\<forall>i < length refs. (daNameOf (refs ! i) = Some ''q'' \<longrightarrow> isQualityValue L (out ! i))
             \<and> (daNameOf (refs ! i) = Some ''t'' \<longrightarrow> isTimeValue L (out ! i)))"
proof (cases "fixedTypePass L flattened refs (replicate (length flattened) False)")
  case None
  then show ?thesis by (simp add: reorderFlattenedToMatchReferences_def reorderIndices_def)
next
  case (Some ou)
  obtain outs used where ou: "ou = (outs, used)" by fastforce
  note f = fixedTypePass_ok [OF Some [unfolded ou]]
  from reorderIndices_total [OF Some [unfolded ou] assms, of types] obtain ws where
    ws: "reorderIndices L refs flattened types = Some ws" "length ws = length flattened" "distinct ws"
      "set ws = {..<length flattened}" "\<forall>i < length refs. \<forall>w. outs ! i = Some w \<longrightarrow> ws ! i = w" by blast
  have "mset ws = mset [0..<length flattened]"
    using ws(3,4) by (intro set_eq_iff_mset_eq_distinct [THEN iffD1]) (auto simp: atLeast0LessThan)
  then have "mset (map (\<lambda>w. flattened ! w) ws) = mset (map (\<lambda>w. flattened ! w) [0..<length flattened])" by simp
  then have "mset (map (\<lambda>w. flattened ! w) ws) = mset flattened" by (simp add: map_nth)
  moreover have "(daNameOf (refs ! i) = Some ''q'' \<longrightarrow> isQualityValue L (map (\<lambda>w. flattened ! w) ws ! i))
      \<and> (daNameOf (refs ! i) = Some ''t'' \<longrightarrow> isTimeValue L (map (\<lambda>w. flattened ! w) ws ! i))"
    if "i < length refs" for i
    using f that ws(2,5) assms by fastforce
  ultimately show ?thesis using ws(1) by (simp add: reorderFlattenedToMatchReferences_def)
qed

lemma reorder_permutes_witness:
  "mset (the (reorderFlattenedToMatchReferences True demo_lib [Some ''P$stVal'', Some ''P$q'']
     [Demo_Bits 13 0, Demo_Bool True] (Some [IEC61850_BOOLEAN, IEC61850_QUALITY])))
   = {#Demo_Bits 13 0, Demo_Bool True#}"
proof -
  have r: "reorderFlattenedToMatchReferences True demo_lib [Some ''P$stVal'', Some ''P$q'']
     [Demo_Bits 13 0, Demo_Bool True] (Some [IEC61850_BOOLEAN, IEC61850_QUALITY])
     = Some [Demo_Bool True, Demo_Bits 13 0]"
    by (simp add: reorderFlattenedToMatchReferences_def reorderIndices_def daNameOf_def firstUnused_def
        isQualityValue_def demo_lib_def typeMatches_def upt_rec
        IedModelUseCases_dataAttributeTypeMatchesMmsType_def)
  have "length [Some ''P$stVal'', Some ''P$q''] = length [Demo_Bits 13 0, Demo_Bool True]" by simp
  from reorder_permutes [OF this, of demo_lib "Some [IEC61850_BOOLEAN, IEC61850_QUALITY]"]
  show ?thesis unfolding r by simp
qed

text \<open>Flattening terminates on every finite value: if a measure of the library's values decreases
  from a structure to its elements, fuel beyond the measure of a value is enough, the result
  has no structure in it, and more fuel does not change it.\<close>

theorem flatten_total:
  assumes "\<And>v i x. ml_getType L v = MMS_STRUCTURE \<Longrightarrow> ml_getElement L v i = Some x \<Longrightarrow> h x < (h v :: nat)"
    and "h v < fuel"
  shows "\<exists>ls. flattenRecursive L fuel (Some v) = Some ls \<and> (\<forall>x \<in> set ls. ml_getType L x \<noteq> MMS_STRUCTURE)
    \<and> flattenRecursive L (Suc fuel) (Some v) = Some ls"
  using assms(2)
proof (induction fuel arbitrary: v)
  case (Suc fuel)
  show ?case
  proof (cases "ml_getType L v = MMS_STRUCTURE")
    case False
    then show ?thesis by simp
  next
    case True
    have el: "\<exists>ls. flattenRecursive L fuel (ml_getElement L v i) = Some ls
        \<and> (\<forall>x \<in> set ls. ml_getType L x \<noteq> MMS_STRUCTURE)
        \<and> flattenRecursive L (Suc fuel) (ml_getElement L v i) = Some ls" for i
      using assms(1) [OF True, of i] Suc by (cases "ml_getElement L v i") force+
    have "\<exists>lss. those (map (\<lambda>i. flattenRecursive L fuel (ml_getElement L v i)) is) = Some lss
        \<and> (\<forall>x \<in> set (concat lss). ml_getType L x \<noteq> MMS_STRUCTURE)
        \<and> those (map (\<lambda>i. flattenRecursive L (Suc fuel) (ml_getElement L v i)) is) = Some lss" for "is"
    proof (induction "is")
      case (Cons i "is")
      from el [of i] Cons show ?case by fastforce
    qed simp
    from this [of "[0..<ml_getArraySize L v]"] True show ?thesis
      by (auto simp del: flattenRecursive.simps(3) simp: flattenRecursive.simps(3) [of L fuel] flattenRecursive.simps(3) [of L "Suc fuel"])
  qed
qed simp

lemma flatten_total_witness:
  "flattenRecursive demo_lib 9 (Some (Demo_Struct [Demo_Bool True, Demo_Struct [Demo_Int 3]]))
     = Some [Demo_Bool True, Demo_Int 3]"
proof -
  have kid: "x \<in> set (demo_kids v) \<Longrightarrow> size x < size v" for x v
    by (cases v) (auto simp: less_Suc_eq_le size_list_estimation')
  have "\<exists>ls. flattenRecursive demo_lib 9 (Some (Demo_Struct [Demo_Bool True, Demo_Struct [Demo_Int 3]])) = Some ls"
  proof -
    have "h < size v" if "ml_getElement demo_lib v i = Some x" "h = size x" for v i x h
      using that kid by (auto simp: demo_lib_def split: if_splits)
    then show ?thesis
      using flatten_total [of demo_lib size "Demo_Struct [Demo_Bool True, Demo_Struct [Demo_Int 3]]" 9] by auto
  qed
  then show ?thesis by (simp add: demo_lib_def upt_rec eval_nat_numeral)
qed

end
