(* ===== verification/Goose_Filter.thy ===== *)
theory Goose_Filter
  imports Goose_Reorder
begin

text \<open>
  \<open>goose_subscriber/domain/goose_subscriber_usecases.c\<close>: which entries of a GOOSE frame are
  forwarded. Every leaf of the frame is compared with the last value forwarded from the same
  position, and the leaves that share a quality attribute travel together. \<open>MmsValue_clone\<close>
  is the identity on values. A read through the NULL array of cached values is the result
  \<open>None\<close> of the operation; copies of strings and the growth of the work lists are taken to
  succeed, the three work arrays of \<open>buildEntries\<close> may fail.
\<close>

section \<open>State\<close>

text \<open>Every array of the cache may be NULL; a leaf array of a member too.\<close>

record 'v GooseSubscriberMemberRefCache =
  mc_memberReferences :: "string option list option"
  mc_memberCount :: nat
  mc_memberLeafReferences :: "string option list option list option"
  mc_memberLeafCounts :: "nat list"
  mc_memberLeafWireTypes :: "DataAttributeType list option list option"
  mc_leafSlotOffsets :: "nat list option"
  mc_totalLeafSlots :: nat
  mc_lastForwardedValues :: "'v option list option"
  mc_leafSemantics :: "IedModelDaSemantic list option"
  mc_leafCategories :: "LnCategory list option"
  mc_leafAlwaysInclude :: "bool list option"
  mc_categoryFilter :: u8
  mc_leafDescriptions :: "string option list option"
  mc_everPopulated :: bool

record 'v EntryCandidate =
  ec_value :: "'v option"
  ec_reference :: "string option"
  ec_slot :: "nat option" \<comment> \<open>\<open>None\<close> for -1\<close>
  ec_previousValue :: "'v option"
  ec_semantic :: IedModelDaSemantic
  ec_category :: LnCategory
  ec_description :: "string option"

section \<open>The value-diff cache\<close>

definition valuesAreSemanticallyEqual :: "'v mms_lib \<Rightarrow> 'v \<Rightarrow> 'v \<Rightarrow> bool" where
  "valuesAreSemanticallyEqual L cached new =
     (if ml_getType L cached \<noteq> ml_getType L new then False
      else case ml_getType L cached of
        MMS_UTC_TIME \<Rightarrow> ml_getUtcTimeInMs L cached = ml_getUtcTimeInMs L new
      | MMS_BIT_STRING \<Rightarrow> ml_getBitStringSize L cached = ml_getBitStringSize L new
            \<and> ml_getBitStringAsInteger L cached = ml_getBitStringAsInteger L new
      | _ \<Rightarrow> ml_equals L cached new)"

definition GooseSubscriberUseCases_isDuplicateValue :: "'v mms_lib \<Rightarrow> 'v option \<Rightarrow> 'v option \<Rightarrow> bool" where
  "GooseSubscriberUseCases_isDuplicateValue L cached new =
     (case (cached, new) of (Some c, Some n) \<Rightarrow> valuesAreSemanticallyEqual L c n | _ \<Rightarrow> False)"

definition updateValueDiffCache ::
    "'v GooseSubscriberMemberRefCache option \<Rightarrow> nat option \<Rightarrow> 'v option \<Rightarrow> 'v GooseSubscriberMemberRefCache option" where
  "updateValueDiffCache mc slot new =
     (case (mc, slot) of
        (Some m, Some s) \<Rightarrow>
          (case mc_lastForwardedValues m of
             None \<Rightarrow> mc
           | Some vs \<Rightarrow> if s \<ge> mc_totalLeafSlots m then mc
                        else Some (m\<lparr>mc_lastForwardedValues := Some (vs[s := new])\<rparr>))
      | _ \<Rightarrow> mc)"

text \<open>
  The decision, the previous value and the cache. A candidate has a slot only when there is
  a cache, so the case of a slot without a cache does not arise in the program.
\<close>

definition shouldForwardAndUpdateCache ::
    "'v mms_lib \<Rightarrow> 'v GooseSubscriberMemberRefCache option \<Rightarrow> nat option \<Rightarrow> 'v option
     \<Rightarrow> (bool \<times> 'v option \<times> 'v GooseSubscriberMemberRefCache option) option" where
  "shouldForwardAndUpdateCache L mc slot val =
     (case slot of
        None \<Rightarrow> Some (True, None, mc)
      | Some s \<Rightarrow>
          (case mc of
             None \<Rightarrow> None
           | Some m \<Rightarrow>
               (case mc_lastForwardedValues m of
                  None \<Rightarrow> None
                | Some vs \<Rightarrow>
                    let cached = vs ! s in
                    if val = None then Some (False, cached, mc)
                    else if cached = None then Some (False, None, updateValueDiffCache mc slot val)
                    else if GooseSubscriberUseCases_isDuplicateValue L cached val then Some (False, cached, mc)
                    else Some (True, cached, updateValueDiffCache mc slot val))))"

section \<open>Candidates\<close>

definition lookupSemanticForSlot :: "'v GooseSubscriberMemberRefCache option \<Rightarrow> nat option \<Rightarrow> IedModelDaSemantic" where
  "lookupSemanticForSlot mc slot =
     (case (mc, slot) of
        (Some m, Some s) \<Rightarrow>
          (case mc_leafSemantics m of
             None \<Rightarrow> IED_MODEL_DA_SEMANTIC_NONE
           | Some xs \<Rightarrow> if s \<ge> mc_totalLeafSlots m then IED_MODEL_DA_SEMANTIC_NONE else xs ! s)
      | _ \<Rightarrow> IED_MODEL_DA_SEMANTIC_NONE)"

definition lookupCategoryForSlot :: "'v GooseSubscriberMemberRefCache option \<Rightarrow> nat option \<Rightarrow> LnCategory" where
  "lookupCategoryForSlot mc slot =
     (case (mc, slot) of
        (Some m, Some s) \<Rightarrow>
          (case mc_leafCategories m of
             None \<Rightarrow> IED_MODEL_LN_CATEGORY_OTHER
           | Some xs \<Rightarrow> if s \<ge> mc_totalLeafSlots m then IED_MODEL_LN_CATEGORY_OTHER else xs ! s)
      | _ \<Rightarrow> IED_MODEL_LN_CATEGORY_OTHER)"

definition lookupAlwaysIncludeForSlot :: "'v GooseSubscriberMemberRefCache option \<Rightarrow> nat option \<Rightarrow> bool" where
  "lookupAlwaysIncludeForSlot mc slot =
     (case (mc, slot) of
        (Some m, Some s) \<Rightarrow>
          (case mc_leafAlwaysInclude m of
             None \<Rightarrow> False
           | Some xs \<Rightarrow> if s \<ge> mc_totalLeafSlots m then False else xs ! s)
      | _ \<Rightarrow> False)"

unbundle bit_operations_syntax

definition passesCategoryFilter ::
    "'v GooseSubscriberMemberRefCache option \<Rightarrow> nat option \<Rightarrow> LnCategory \<Rightarrow> bool" where
  "passesCategoryFilter mc slot category =
     (case mc of
        None \<Rightarrow> True
      | Some m \<Rightarrow>
          if mc_categoryFilter m = 0 then True
          else if lookupAlwaysIncludeForSlot mc slot then True
          else mc_categoryFilter m AND ln_category_bit category \<noteq> 0)"

definition lookupDescriptionForSlot :: "'v GooseSubscriberMemberRefCache option \<Rightarrow> nat option \<Rightarrow> string option" where
  "lookupDescriptionForSlot mc slot =
     (case (mc, slot) of
        (Some m, Some s) \<Rightarrow>
          (case mc_leafDescriptions m of
             None \<Rightarrow> None
           | Some xs \<Rightarrow> if s \<ge> mc_totalLeafSlots m then None else xs ! s)
      | _ \<Rightarrow> None)"

text \<open>The filter and \<open>appendCandidate\<close> for one leaf.\<close>

definition candidateFor ::
    "'v GooseSubscriberMemberRefCache option \<Rightarrow> 'v option \<Rightarrow> string option \<Rightarrow> nat option \<Rightarrow> 'v EntryCandidate list" where
  "candidateFor mc val ref slot =
     (let category = lookupCategoryForSlot mc slot in
      if \<not> passesCategoryFilter mc slot category then []
      else [\<lparr>ec_value = val, ec_reference = ref, ec_slot = slot, ec_previousValue = None,
             ec_semantic = lookupSemanticForSlot mc slot, ec_category = category,
             ec_description = lookupDescriptionForSlot mc slot\<rparr>])"

text \<open>
  The candidates of dataset position \<open>i\<close>. \<open>okReorder\<close> covers the two allocations of the
  reordering, \<open>fuel\<close> the nesting of the value.
\<close>

definition memberCandidates ::
    "'v mms_lib \<Rightarrow> bool \<Rightarrow> nat \<Rightarrow> 'v GooseSubscriberMemberRefCache option \<Rightarrow> nat \<Rightarrow> 'v option \<Rightarrow> 'v EntryCandidate list" where
  "memberCandidates L okReorder fuel mc i rawValue =
     (let hasCacheEntry = (case mc of None \<Rightarrow> False | Some m \<Rightarrow> i < mc_memberCount m);
          leafRefs = (if hasCacheEntry then
                        (case mc_memberLeafReferences (the mc) of None \<Rightarrow> None | Some rs \<Rightarrow> rs ! i)
                      else None);
          offset = (if hasCacheEntry then map_option (\<lambda>os. os ! i) (mc_leafSlotOffsets (the mc)) else None);
          plain = candidateFor mc rawValue
                    (if hasCacheEntry then
                       (case mc_memberReferences (the mc) of None \<Rightarrow> None | Some rs \<Rightarrow> rs ! i)
                     else None) offset
      in case leafRefs of
           None \<Rightarrow> plain
         | Some refs \<Rightarrow>
             (case GooseSubscriberUtils_flattenStructure L fuel rawValue of
                None \<Rightarrow> plain
              | Some flattened \<Rightarrow>
                  if flattened \<noteq> [] \<and> length flattened = mc_memberLeafCounts (the mc) ! i then
                    (case reorderFlattenedToMatchReferences okReorder L (take (length flattened) refs) flattened
                            (case mc_memberLeafWireTypes (the mc) of None \<Rightarrow> None | Some ts \<Rightarrow> ts ! i) of
                       None \<Rightarrow> plain
                     | Some reordered \<Rightarrow>
                         concat (map (\<lambda>k. candidateFor mc (Some (reordered ! k)) (refs ! k)
                                            (map_option (\<lambda>off. off + k) offset)) [0..<length flattened]))
                  else plain))"

definition collectCandidates ::
    "'v mms_lib \<Rightarrow> bool \<Rightarrow> nat \<Rightarrow> 'v option \<Rightarrow> 'v GooseSubscriberMemberRefCache option \<Rightarrow> nat \<Rightarrow> 'v EntryCandidate list" where
  "collectCandidates L okReorder fuel dataSetValues mc entryCount =
     concat (map (\<lambda>i. memberCandidates L okReorder fuel mc i
                        (case dataSetValues of None \<Rightarrow> None | Some d \<Rightarrow> ml_getElement L d i)) [0..<entryCount])"

section \<open>Groups\<close>

definition splitReference :: "string option \<Rightarrow> (nat \<times> string) option" where
  "splitReference reference =
     (case reference of
        None \<Rightarrow> None
      | Some r \<Rightarrow>
          (case strrchr r (CHR ''$'') of
             None \<Rightarrow> None
           | Some i \<Rightarrow> Some (i, drop (Suc i) r)))"

text \<open>The reference and prefix length of every quality candidate, in order.\<close>

definition groupAnchors :: "'v EntryCandidate list \<Rightarrow> (string \<times> nat) list" where
  "groupAnchors cs = List.map_filter (\<lambda>c.
     (case splitReference (ec_reference c) of
        None \<Rightarrow> None
      | Some (prefixLen, daName) \<Rightarrow>
          if daName \<noteq> ''q'' then None else Some (the (ec_reference c), prefixLen))) cs"

text \<open>The loop over the anchors, from index \<open>i\<close> with the best one so far.\<close>

fun anchorLoop :: "string \<Rightarrow> (string \<times> nat) list \<Rightarrow> nat \<Rightarrow> (nat \<times> nat) option \<Rightarrow> (nat \<times> nat) option" where
  "anchorLoop reference [] i best = best"
| "anchorLoop reference ((aref, len) # anchors) i best =
     (if length reference \<le> len then anchorLoop reference anchors (i + 1) best
      else if reference ! len \<noteq> CHR ''$'' then anchorLoop reference anchors (i + 1) best
      else if \<not> strneq reference aref len then anchorLoop reference anchors (i + 1) best
      else if (case best of None \<Rightarrow> True | Some (_, bestLen) \<Rightarrow> len > bestLen)
           then anchorLoop reference anchors (i + 1) (Some (i, len))
      else anchorLoop reference anchors (i + 1) best)"

definition resolveGroupAnchor :: "string option \<Rightarrow> (string \<times> nat) list \<Rightarrow> nat option" where
  "resolveGroupAnchor reference anchors =
     (case reference of
        None \<Rightarrow> None
      | Some r \<Rightarrow> map_option fst (anchorLoop r anchors 0 None))"

section \<open>Building the entries\<close>

text \<open>First half of the decision: every candidate on its own, in order.\<close>

fun decideEach ::
    "'v mms_lib \<Rightarrow> 'v GooseSubscriberMemberRefCache option \<Rightarrow> 'v EntryCandidate list
     \<Rightarrow> (bool list \<times> 'v EntryCandidate list \<times> 'v GooseSubscriberMemberRefCache option) option" where
  "decideEach L mc [] = Some ([], [], mc)"
| "decideEach L mc (c # cs) =
     (case shouldForwardAndUpdateCache L mc (ec_slot c) (ec_value c) of
        None \<Rightarrow> None
      | Some (f, prev, mc') \<Rightarrow>
          (case decideEach L mc' cs of
             None \<Rightarrow> None
           | Some (fs, cs', mc'') \<Rightarrow> Some (f # fs, c\<lparr>ec_previousValue := prev\<rparr> # cs', mc'')))"

text \<open>Second half, one index of the loop that works on \<open>forward\<close> in place.\<close>

definition extendAt :: "'v EntryCandidate list \<Rightarrow> nat option list \<Rightarrow> nat \<Rightarrow> bool list \<Rightarrow> bool list" where
  "extendAt cs groupIdx i forward =
     (if forward ! i \<or> groupIdx ! i = None then forward
      else if ec_value (cs ! i) = None then forward
      else if list_ex (\<lambda>j. j \<noteq> i \<and> forward ! j \<and> groupIdx ! j = groupIdx ! i) [0..<length forward]
           then forward[i := True]
      else forward)"

definition extendGroups :: "'v EntryCandidate list \<Rightarrow> nat option list \<Rightarrow> bool list \<Rightarrow> bool list" where
  "extendGroups cs groupIdx forward = fold (extendAt cs groupIdx) [0..<length forward] forward"

text \<open>Last phase: emit the forwarded candidates and store their values.\<close>

fun emitEntries ::
    "'v GooseSubscriberMemberRefCache option \<Rightarrow> ('v EntryCandidate \<times> bool) list
     \<Rightarrow> 'v point_entry list \<times> 'v GooseSubscriberMemberRefCache option" where
  "emitEntries mc [] = ([], mc)"
| "emitEntries mc ((c, f) # cfs) =
     (if \<not> f then emitEntries mc cfs
      else
        let (es, mc') = emitEntries (updateValueDiffCache mc (ec_slot c) (ec_value c)) cfs
        in (\<lparr>pe_reference = ec_reference c, pe_value = ec_value c, pe_previousValue = ec_previousValue c,
             pe_semantic = ec_semantic c, pe_category = ec_category c, pe_description = ec_description c\<rparr> # es, mc'))"

record build_allocs =
  ok_reorder :: bool
  ok_anchors :: bool
  ok_group :: bool
  ok_forward :: bool

text \<open>\<open>buildEntries\<close> after the candidates are collected.\<close>

definition filterEntries ::
    "'v mms_lib \<Rightarrow> build_allocs \<Rightarrow> 'v EntryCandidate list \<Rightarrow> 'v GooseSubscriberMemberRefCache option
     \<Rightarrow> ('v point_entry list \<times> 'v GooseSubscriberMemberRefCache option) option" where
  "filterEntries L ok cs mc =
     (let anchors = (if ok_anchors ok then groupAnchors cs else []);
          groupIdx = map (\<lambda>c. resolveGroupAnchor (ec_reference c) anchors) cs;
          populated = map_option (\<lambda>m. if cs \<noteq> [] then m\<lparr>mc_everPopulated := True\<rparr> else m)
      in if \<not> ok_forward ok then Some ([], populated mc)
         else case decideEach L mc cs of
           None \<Rightarrow> None
         | Some (forward, cs', mc') \<Rightarrow>
             let forward' = (if ok_group ok then extendGroups cs' groupIdx forward else forward);
                 (es, mc'') = emitEntries mc' (zip cs' forward')
             in Some (es, populated mc''))"

definition buildEntries ::
    "'v mms_lib \<Rightarrow> build_allocs \<Rightarrow> nat \<Rightarrow> 'v option \<Rightarrow> 'v GooseSubscriberMemberRefCache option \<Rightarrow> int
     \<Rightarrow> ('v point_entry list \<times> 'v GooseSubscriberMemberRefCache option) option" where
  "buildEntries L ok fuel dataSetValues mc entryCount =
     (if entryCount \<le> 0 then Some ([], mc)
      else filterEntries L ok (collectCandidates L (ok_reorder ok) fuel dataSetValues mc (nat entryCount)) mc)"

definition GooseSubscriberUseCases_buildRecord ::
    "'v mms_lib \<Rightarrow> bool \<Rightarrow> build_allocs \<Rightarrow> nat \<Rightarrow> 'v GooseSubscriberRecord \<Rightarrow> 'v option
     \<Rightarrow> 'v GooseSubscriberMemberRefCache option \<Rightarrow> int
     \<Rightarrow> ('v GooseSubscriberRecord option \<times> 'v GooseSubscriberMemberRefCache option) option" where
  "GooseSubscriberUseCases_buildRecord L okRecord ok fuel hdr dataSetValues mc entryCount =
     (if \<not> okRecord then Some (None, mc)
      else case buildEntries L ok fuel dataSetValues mc entryCount of
        None \<Rightarrow> None
      | Some (es, mc') \<Rightarrow>
          Some (Some (hdr\<lparr>gr_vlanId := (if gr_hasVlan hdr then gr_vlanId hdr else 0),
                          gr_vlanPrio := (if gr_hasVlan hdr then gr_vlanPrio hdr else 0),
                          gr_entries := es\<rparr>), mc'))"

section \<open>Liveness arithmetic\<close>

datatype GooseSubscriberStatus =
    GOOSE_SUBSCRIBER_STATUS_VALID
  | GOOSE_SUBSCRIBER_STATUS_STALE
  | GOOSE_SUBSCRIBER_STATUS_INVALID_STATE

definition GooseSubscriberUseCases_detectStatusTransition :: "bool \<Rightarrow> bool \<Rightarrow> GooseSubscriberStatus option" where
  "GooseSubscriberUseCases_detectStatusTransition wasValid isValid =
     (if wasValid = isValid then None
      else Some (if isValid then GOOSE_SUBSCRIBER_STATUS_VALID else GOOSE_SUBSCRIBER_STATUS_STALE))"

definition GooseSubscriberUseCases_computeLivenessPollIntervalMs :: "u32 \<Rightarrow> int \<Rightarrow> u32" where
  "GooseSubscriberUseCases_computeLivenessPollIntervalMs configuredMs minTalMs =
     (if configuredMs > 0 then configuredMs
      else if minTalMs \<le> 0 then 1000
      else let derived = (of_int minTalMs :: u32) div 4 in if derived < 50 then 50 else derived)"

definition GooseSubscriberUseCases_isDuplicateStNum :: "bool \<Rightarrow> u32 \<Rightarrow> u32 \<Rightarrow> bool" where
  "GooseSubscriberUseCases_isDuplicateStNum hasForwardedStNum lastForwardedStNum newStNum \<longleftrightarrow>
     hasForwardedStNum \<and> lastForwardedStNum = newStNum"


section \<open>Groups travel together\<close>

lemma fold_extendAt_length [simp]: "length (fold (extendAt cs g) is fw) = length fw"
  by (induction "is" arbitrary: fw) (auto simp: extendAt_def)

lemma extendAt_nth:
  "n < length fw \<Longrightarrow> i < length fw \<Longrightarrow> extendAt cs g n fw ! i \<longleftrightarrow>
     fw ! i \<or> (i = n \<and> g ! n \<noteq> None \<and> ec_value (cs ! n) \<noteq> None \<and> (\<exists>j < length fw. j \<noteq> n \<and> fw ! j \<and> g ! j = g ! n))"
  by (auto simp: extendAt_def list_ex_iff nth_list_update)

text \<open>The flags after the indices below \<open>n\<close> were visited, in terms of the flags before the loop.\<close>

lemma extend_prefix:
  assumes "n \<le> length fw" and "i < length fw"
  shows "fold (extendAt cs g) [0..<n] fw ! i \<longleftrightarrow>
    fw ! i \<or> (i < n \<and> g ! i \<noteq> None \<and> ec_value (cs ! i) \<noteq> None \<and> (\<exists>j < length fw. fw ! j \<and> g ! j = g ! i))"
  using assms
proof (induction n arbitrary: i)
  case (Suc n)
  define fn where "fn = fold (extendAt cs g) [0..<n] fw"
  have IH: "fn ! k \<longleftrightarrow> fw ! k \<or> (k < n \<and> g ! k \<noteq> None \<and> ec_value (cs ! k) \<noteq> None
      \<and> (\<exists>j < length fw. fw ! j \<and> g ! j = g ! k))" if "k < length fw" for k
    using Suc.IH [of k] Suc.prems(1) that by (simp add: fn_def)
  have len: "length fn = length fw" by (simp add: fn_def)
  have step: "fold (extendAt cs g) [0..<Suc n] fw = extendAt cs g n fn" by (simp add: fn_def)
  have some: "(\<exists>j < length fw. j \<noteq> n \<and> fn ! j \<and> g ! j = g ! n) \<longleftrightarrow> (\<exists>j < length fw. fw ! j \<and> g ! j = g ! n)"
    if "\<not> fn ! n" using IH that Suc.prems(1) by (metis Suc_le_lessD)
  have "extendAt cs g n fn ! i \<longleftrightarrow> fn ! i \<or> (i = n \<and> g ! n \<noteq> None \<and> ec_value (cs ! n) \<noteq> None
      \<and> (\<exists>j < length fw. j \<noteq> n \<and> fn ! j \<and> g ! j = g ! n))"
    using extendAt_nth [of n fn i] Suc.prems len by simp
  then show ?case
    unfolding step using IH [of i] IH [of n] some Suc.prems
    by (cases "i = n") auto
qed simp

lemma extended_iff:
  "i < length forward \<Longrightarrow> extendGroups cs grp forward ! i \<longleftrightarrow>
    forward ! i \<or> (grp ! i \<noteq> None \<and> ec_value (cs ! i) \<noteq> None
      \<and> (\<exists>j < length forward. forward ! j \<and> grp ! j = grp ! i))"
  using extend_prefix [OF order_refl, of i forward cs grp] by (simp add: extendGroups_def)

text \<open>Attributes that share a quality travel together: after the in-place group pass, a candidate
  is forwarded exactly when it changed itself, or has a value and an anchor and some candidate
  with the same anchor changed itself; the order of the pass does not matter.\<close>

theorem group_extension_exact:
  assumes "i < length forward"
  shows "extendGroups cs grp forward ! i \<longleftrightarrow>
    forward ! i \<or> (grp ! i \<noteq> None \<and> ec_value (cs ! i) \<noteq> None
      \<and> (\<exists>j < length forward. forward ! j \<and> grp ! j = grp ! i))"
  by (rule extended_iff [OF assms])

text \<open>An anchor applies to a reference: the reference continues the anchor's prefix with a separator.\<close>

definition anchor_applies :: "string \<Rightarrow> string \<times> nat \<Rightarrow> bool" where
  "anchor_applies r a \<longleftrightarrow> snd a < length r \<and> r ! snd a = CHR ''$'' \<and> take (snd a) r = take (snd a) (fst a)"

lemma anchorLoop_spec:
  "anchorLoop r as i best = b \<Longrightarrow>
     (case b of
        None \<Rightarrow> best = None \<and> (\<forall>a \<in> set as. \<not> anchor_applies r a)
      | Some (k, len) \<Rightarrow>
          (best = Some (k, len) \<or> (\<exists>j < length as. k = i + j \<and> anchor_applies r (as ! j) \<and> snd (as ! j) = len))
          \<and> (\<forall>a \<in> set as. anchor_applies r a \<longrightarrow> snd a \<le> len)
          \<and> (\<forall>k' len'. best = Some (k', len') \<longrightarrow> len' \<le> len))"
proof (induction as arbitrary: i best)
  case Nil
  then show ?case by (auto split: option.splits)
next
  case (Cons a as)
  obtain aref len where a: "a = (aref, len)" by fastforce
  define best' where "best' = (if anchor_applies r a \<and> (case best of None \<Rightarrow> True | Some (_, bl) \<Rightarrow> len > bl)
    then Some (i, len) else best)"
  have "anchorLoop r as (i + 1) best' = b"
    using Cons.prems by (auto simp: a best'_def anchor_applies_def strneq_def split: if_splits)
  note IH = Cons.IH [OF this]
  show ?case
  proof (cases b)
    case None
    with IH have n: "best' = None" "\<forall>x \<in> set as. \<not> anchor_applies r x" by simp_all
    then have "best = None" "\<not> anchor_applies r a" by (auto simp: best'_def split: if_splits)
    with n None show ?thesis by simp
  next
    case (Some kl)
    obtain k l where kl: "kl = (k, l)" by fastforce
    from IH Some kl have t: "best' = Some (k, l) \<or> (\<exists>j < length as. k = i + 1 + j \<and> anchor_applies r (as ! j) \<and> snd (as ! j) = l)"
      "\<forall>x \<in> set as. anchor_applies r x \<longrightarrow> snd x \<le> l" "\<forall>k' l'. best' = Some (k', l') \<longrightarrow> l' \<le> l" by auto
    have src: "best = Some (k, l) \<or> (\<exists>j < length (a # as). k = i + j \<and> anchor_applies r ((a # as) ! j) \<and> snd ((a # as) ! j) = l)"
    proof (cases "\<exists>j < length as. k = i + 1 + j \<and> anchor_applies r (as ! j) \<and> snd (as ! j) = l")
      case True
      then obtain j where "j < length as" "k = i + 1 + j" "anchor_applies r (as ! j)" "snd (as ! j) = l" by blast
      then show ?thesis by (intro disjI2 exI [of _ "Suc j"]) simp
    next
      case False
      with t(1) have "best' = Some (k, l)" by blast
      then show ?thesis by (auto simp: best'_def a split: if_splits intro!: exI [of _ 0])
    qed
    have "anchor_applies r a \<longrightarrow> snd a \<le> l" "\<forall>k' l'. best = Some (k', l') \<longrightarrow> l' \<le> l"
      using t(3) by (auto simp: best'_def a split: if_splits option.splits)
    with src t(2) Some kl show ?thesis by auto
  qed
qed

text \<open>The group of an entry is the nearest enclosing quality scope: the anchor found is one whose
  prefix, followed by a separator, begins the reference, no applicable anchor is longer, and
  there is none exactly when no anchor applies.\<close>

theorem group_anchor_longest:
  "case resolveGroupAnchor (Some r) anchors of
     None \<Rightarrow> \<forall>a \<in> set anchors. \<not> anchor_applies r a
   | Some k \<Rightarrow> k < length anchors \<and> anchor_applies r (anchors ! k)
       \<and> (\<forall>a \<in> set anchors. anchor_applies r a \<longrightarrow> snd a \<le> snd (anchors ! k))"
  using anchorLoop_spec [of r anchors 0 None "anchorLoop r anchors 0 None", OF refl]
  by (auto simp: resolveGroupAnchor_def split: option.splits)

text \<open>The groups of a position, its quality and an unrelated value; only the position changed.\<close>

lemma group_extension_exact_witness:
  "extendGroups (replicate 3 \<lparr>ec_value = Some (1 :: nat), ec_reference = None, ec_slot = None, ec_previousValue = None,
       ec_semantic = IED_MODEL_DA_SEMANTIC_NONE, ec_category = IED_MODEL_LN_CATEGORY_OTHER, ec_description = None\<rparr>)
     [Some 0, Some 0, None] [False, True, False] ! 0"
  by (subst group_extension_exact) (auto intro!: exI [of _ 1])

lemma group_anchor_longest_witness:
  "resolveGroupAnchor (Some ''PhV$phsA$cVal'') [(''PhV$q'', 3), (''PhV$phsA$q'', 8)] = Some 1
   \<and> anchor_applies ''PhV$phsA$cVal'' (''PhV$phsA$q'', 8)"
proof -
  have "resolveGroupAnchor (Some ''PhV$phsA$cVal'') [(''PhV$q'', 3), (''PhV$phsA$q'', 8)] = Some 1"
    by (simp add: resolveGroupAnchor_def strneq_def eval_nat_numeral)
  with group_anchor_longest
      [where r = "''PhV$phsA$cVal''" and anchors = "[(''PhV$q'', 3), (''PhV$phsA$q'', 8)]"] show ?thesis by simp
qed

end
