(* ===== verification/Goose_Frame.thy ===== *)
theory Goose_Frame
  imports Goose_Filter
begin

text \<open>
  What one frame does: the value-diff filter of \<open>Goose_Filter\<close> as a function of the cached
  values, over a cache laid out the way \<open>GooseSubscription_start\<close> builds it (one slot per
  leaf, the slots of a member consecutive, members in order).
\<close>

section \<open>Layout of the slots\<close>

definition member_width :: "'v GooseSubscriberMemberRefCache \<Rightarrow> nat \<Rightarrow> nat" where
  "member_width m i =
     (case mc_memberLeafReferences m of
        None \<Rightarrow> 1
      | Some rs \<Rightarrow> (case rs ! i of None \<Rightarrow> 1 | Some refs \<Rightarrow> mc_memberLeafCounts m ! i))"

definition layout_ok :: "'v GooseSubscriberMemberRefCache \<Rightarrow> nat list \<Rightarrow> bool" where
  "layout_ok m os \<longleftrightarrow> mc_leafSlotOffsets m = Some os
     \<and> (\<forall>i < mc_memberCount m. 1 \<le> member_width m i
          \<and> os ! i + member_width m i \<le> mc_totalLeafSlots m
          \<and> (\<forall>j < i. os ! j + member_width m j \<le> os ! i))"

definition slot_of :: "'v EntryCandidate \<Rightarrow> nat" where
  "slot_of c = the (ec_slot c)"

definition slots_ok :: "nat \<Rightarrow> 'v EntryCandidate list \<Rightarrow> bool" where
  "slots_ok n cs \<longleftrightarrow> (\<forall>c \<in> set cs. \<exists>s < n. ec_slot c = Some s) \<and> distinct (map slot_of cs)"

lemma candidateFor_slot: "c \<in> set (candidateFor mc v r s) \<Longrightarrow> ec_slot c = s"
  by (auto simp: candidateFor_def Let_def split: if_splits)

lemma candidateFor_slots: "map slot_of (candidateFor mc v r (Some s)) = (if candidateFor mc v r (Some s) = [] then [] else [s])"
  by (auto simp: candidateFor_def Let_def slot_of_def)

lemma sorted_leaf_slots:
  "sorted_wrt (<) (map slot_of (concat (map (\<lambda>k. candidateFor mc (f k) (g k) (Some (off + k))) [0..<n])))
   \<and> (\<forall>c \<in> set (concat (map (\<lambda>k. candidateFor mc (f k) (g k) (Some (off + k))) [0..<n])).
        \<exists>s. ec_slot c = Some s \<and> off \<le> s \<and> s < off + n)"
proof (induction n)
  case (Suc n)
  have "slot_of c < off + n" if "c \<in> set (concat (map (\<lambda>k. candidateFor mc (f k) (g k) (Some (off + k))) [0..<n]))" for c
    using Suc that by (fastforce simp: slot_of_def)
  with Suc show ?case
    by (auto simp: sorted_wrt_append candidateFor_slots dest!: candidateFor_slot split: if_splits)
      (fastforce simp: slot_of_def)+
qed simp

text \<open>The candidates of a member have slots within the member's range, in increasing order.\<close>

lemma memberCandidates_slots:
  assumes "layout_ok m os" and "i < mc_memberCount m"
  shows "sorted_wrt (<) (map slot_of (memberCandidates L okR fuel (Some m) i raw))
    \<and> (\<forall>c \<in> set (memberCandidates L okR fuel (Some m) i raw).
         \<exists>s. ec_slot c = Some s \<and> os ! i \<le> s \<and> s < os ! i + member_width m i)"
proof -
  have w: "1 \<le> member_width m i" "mc_leafSlotOffsets m = Some os" using assms by (auto simp: layout_ok_def)
  have plain: "sorted_wrt (<) (map slot_of (candidateFor (Some m) v r (Some (os ! i))))
    \<and> (\<forall>c \<in> set (candidateFor (Some m) v r (Some (os ! i))).
         \<exists>s. ec_slot c = Some s \<and> os ! i \<le> s \<and> s < os ! i + member_width m i)" for v r
    using w(1) by (auto simp: candidateFor_slots dest: candidateFor_slot)
  show ?thesis
  proof (cases "mc_memberLeafReferences m = None \<or> the (mc_memberLeafReferences m) ! i = None")
    case True
    then show ?thesis
      using plain w(2) assms(2) unfolding memberCandidates_def by (auto simp: Let_def split: option.splits)
  next
    case False
    then obtain rs refs where rs: "mc_memberLeafReferences m = Some rs" "rs ! i = Some refs" by auto
    have wd: "member_width m i = mc_memberLeafCounts m ! i" using rs by (simp add: member_width_def)
    consider v r where "memberCandidates L okR fuel (Some m) i raw = candidateFor (Some m) v r (Some (os ! i))"
      | vals where "memberCandidates L okR fuel (Some m) i raw = concat (map (\<lambda>k.
          candidateFor (Some m) (Some (vals ! k)) (refs ! k) (Some (os ! i + k))) [0..<mc_memberLeafCounts m ! i])"
    proof -
      define plainC where "plainC = candidateFor (Some m) raw
        (case mc_memberReferences m of None \<Rightarrow> None | Some rs \<Rightarrow> rs ! i) (Some (os ! i))"
      have "memberCandidates L okR fuel (Some m) i raw =
        (case GooseSubscriberUtils_flattenStructure L fuel raw of
           None \<Rightarrow> plainC
         | Some fl \<Rightarrow>
             if fl \<noteq> [] \<and> length fl = mc_memberLeafCounts m ! i then
               (case reorderFlattenedToMatchReferences okR L (take (length fl) refs) fl
                       (case mc_memberLeafWireTypes m of None \<Rightarrow> None | Some ts \<Rightarrow> ts ! i) of
                  None \<Rightarrow> plainC
                | Some vals \<Rightarrow> concat (map (\<lambda>k.
                    candidateFor (Some m) (Some (vals ! k)) (refs ! k) (Some (os ! i + k))) [0..<length fl]))
             else plainC)"
        using rs w(2) assms(2) 
        by (simp add: memberCandidates_def Let_def plainC_def cong: option.case_cong if_cong)
      then have "memberCandidates L okR fuel (Some m) i raw = plainC
          \<or> (\<exists>vals. memberCandidates L okR fuel (Some m) i raw = concat (map (\<lambda>k.
               candidateFor (Some m) (Some (vals ! k)) (refs ! k) (Some (os ! i + k))) [0..<mc_memberLeafCounts m ! i]))"
        by (simp split: option.split if_split) metis
      then show thesis using that unfolding plainC_def by blast
    qed
    then show ?thesis
    proof cases
      case 1
      with plain show ?thesis by simp
    next
      case 2
      with sorted_leaf_slots [of "Some m" "\<lambda>k. Some (vals ! k)" "\<lambda>k. refs ! k" "os ! i" "mc_memberLeafCounts m ! i"] wd
      show ?thesis by simp
    qed
  qed
qed

lemma collect_slots_ok:
  assumes "layout_ok m os" and "n \<le> mc_memberCount m"
  shows "slots_ok (mc_totalLeafSlots m) (collectCandidates L okR fuel d (Some m) n)"
proof -
  let ?raw = "\<lambda>i. case d of None \<Rightarrow> None | Some v \<Rightarrow> ml_getElement L v i"
  let ?cs = "\<lambda>n. collectCandidates L okR fuel d (Some m) n"
  have "sorted_wrt (<) (map slot_of (?cs n)) \<and> (\<forall>c \<in> set (?cs n). \<exists>s i. ec_slot c = Some s \<and> i < n
      \<and> os ! i \<le> s \<and> s < os ! i + member_width m i)"
    using assms(2)
  proof (induction n)
    case 0
    then show ?case by (simp add: collectCandidates_def)
  next
    case (Suc n)
    have e: "?cs (Suc n) = ?cs n @ memberCandidates L okR fuel (Some m) n (?raw n)"
      by (simp add: collectCandidates_def)
    note mem = memberCandidates_slots [OF assms(1), of n L okR fuel "?raw n"]
    have IH: "sorted_wrt (<) (map slot_of (?cs n))" "\<forall>c \<in> set (?cs n). \<exists>s i. ec_slot c = Some s \<and> i < n
      \<and> os ! i \<le> s \<and> s < os ! i + member_width m i" using Suc by simp_all
    have lt: "slot_of c < slot_of c'" if c: "c \<in> set (?cs n)" and c': "c' \<in> set (memberCandidates L okR fuel (Some m) n (?raw n))" for c c'
    proof -
      obtain s i where s: "ec_slot c = Some s" "i < n" "s < os ! i + member_width m i" using IH(2) c by blast
      obtain s' where s': "ec_slot c' = Some s'" "os ! n \<le> s'" using mem c' Suc.prems by auto
      have "os ! i + member_width m i \<le> os ! n" using assms(1) s(2) Suc.prems by (simp add: layout_ok_def)
      with s s' show ?thesis by (simp add: slot_of_def)
    qed
    have mem': "sorted_wrt (<) (map slot_of (memberCandidates L okR fuel (Some m) n (?raw n)))"
      "\<forall>c \<in> set (memberCandidates L okR fuel (Some m) n (?raw n)).
         \<exists>s. ec_slot c = Some s \<and> os ! n \<le> s \<and> s < os ! n + member_width m n"
      using mem Suc.prems by simp_all
    have "sorted_wrt (<) (map slot_of (?cs (Suc n)))"
      unfolding e using IH(1) mem'(1) lt by (auto simp: sorted_wrt_append)
    moreover have "\<exists>s i. ec_slot c = Some s \<and> i < Suc n \<and> os ! i \<le> s \<and> s < os ! i + member_width m i"
      if "c \<in> set (?cs (Suc n))" for c
      using that IH(2) mem'(2) unfolding e set_append by (meson Un_iff less_Suc_eq)
    ultimately show ?case by blast
  qed
  then have s: "sorted_wrt (<) (map slot_of (?cs n))" and b: "\<forall>c \<in> set (?cs n). \<exists>s i. ec_slot c = Some s \<and> i < n
      \<and> os ! i \<le> s \<and> s < os ! i + member_width m i" by blast+
  have "\<exists>s < mc_totalLeafSlots m. ec_slot c = Some s" if "c \<in> set (?cs n)" for c
    using b that assms unfolding layout_ok_def by (meson le_trans less_le_trans not_le)
  moreover have "distinct (map slot_of (?cs n))" using s strict_sorted_iff by blast
  ultimately show ?thesis by (simp add: slots_ok_def)
qed


section \<open>One frame as a function of the cached values\<close>

abbreviation with_values :: "'v GooseSubscriberMemberRefCache \<Rightarrow> 'v option list \<Rightarrow> 'v GooseSubscriberMemberRefCache" where
  "with_values m vs \<equiv> m\<lparr>mc_lastForwardedValues := Some vs\<rparr>"

text \<open>The leaf had a value and now has a different one.\<close>

definition changed :: "'v mms_lib \<Rightarrow> 'v option list \<Rightarrow> 'v EntryCandidate \<Rightarrow> bool" where
  "changed L vs c = (case (vs ! slot_of c, ec_value c) of
     (Some old, Some new) \<Rightarrow> \<not> valuesAreSemanticallyEqual L old new | _ \<Rightarrow> False)"

text \<open>The leaf has a value and none was stored yet, or a different one.\<close>

definition news :: "'v mms_lib \<Rightarrow> 'v option list \<Rightarrow> 'v EntryCandidate \<Rightarrow> bool" where
  "news L vs c \<longleftrightarrow> ec_value c \<noteq> None \<and> (vs ! slot_of c = None \<or> changed L vs c)"

definition store :: "('v EntryCandidate \<times> bool) list \<Rightarrow> 'v option list \<Rightarrow> 'v option list" where
  "store cfs vs = fold (\<lambda>(c, f) ws. if f then ws[slot_of c := ec_value c] else ws) cfs vs"

lemma store_simps [simp]:
  "store [] vs = vs" "store ((c, f) # cfs) vs = store cfs (if f then vs[slot_of c := ec_value c] else vs)"
  by (simp_all add: store_def)

lemma length_store [simp]: "length (store cfs vs) = length vs"
  by (induction cfs arbitrary: vs) auto

lemma store_other: "s \<notin> slot_of ` fst ` set cfs \<Longrightarrow> store cfs vs ! s = vs ! s"
  by (induction cfs arbitrary: vs) auto

lemma store_nth:
  "distinct (map (slot_of \<circ> fst) cfs) \<Longrightarrow> i < length cfs \<Longrightarrow> slot_of (fst (cfs ! i)) < length vs \<Longrightarrow>
     store cfs vs ! slot_of (fst (cfs ! i)) = (if snd (cfs ! i) then ec_value (fst (cfs ! i)) else vs ! slot_of (fst (cfs ! i)))"
proof (induction cfs arbitrary: vs i)
  case (Cons cf cfs)
  obtain c f where cf: "cf = (c, f)" by fastforce
  show ?case
  proof (cases i)
    case 0
    have "slot_of c \<notin> slot_of ` fst ` set cfs" using Cons.prems(1) by (force simp: cf)
    then show ?thesis using Cons.prems(3) by (simp add: 0 cf store_other)
  next
    case (Suc k)
    have k: "k < length cfs" using Cons.prems(2) Suc by simp
    have "slot_of c \<notin> slot_of ` fst ` set cfs" using Cons.prems(1) by (simp add: cf image_comp comp_def)
    then have ne: "slot_of (fst (cfs ! k)) \<noteq> slot_of c" using nth_mem [OF k] by (metis image_eqI)
    show ?thesis
      using Cons.IH [of k "if f then vs[slot_of c := ec_value c] else vs"] Cons.prems Suc ne by (auto simp: cf)
  qed
qed simp

lemma update_with_values:
  "s < mc_totalLeafSlots m \<Longrightarrow> updateValueDiffCache (Some (with_values m vs)) (Some s) v = Some (with_values m (vs[s := v]))"
  by (simp add: updateValueDiffCache_def)

lemma shouldForward_with_values:
  assumes "ec_slot c = Some s" and "s < mc_totalLeafSlots m"
  shows "shouldForwardAndUpdateCache L (Some (with_values m vs)) (ec_slot c) (ec_value c)
    = Some (changed L vs c, vs ! s, Some (with_values m (if news L vs c then vs[s := ec_value c] else vs)))"
  using assms
  by (auto simp: shouldForwardAndUpdateCache_def changed_def news_def slot_of_def update_with_values Let_def
      GooseSubscriberUseCases_isDuplicateValue_def split: option.splits)

lemma decideEach_eq:
  assumes "slots_ok (mc_totalLeafSlots m) cs"
  shows "decideEach L (Some (with_values m vs)) cs = Some (map (changed L vs) cs,
     map (\<lambda>c. c\<lparr>ec_previousValue := vs ! slot_of c\<rparr>) cs,
     Some (with_values m (store (zip cs (map (news L vs) cs)) vs)))"
  using assms
proof (induction cs arbitrary: vs)
  case (Cons c cs)
  obtain s where s: "ec_slot c = Some s" "s < mc_totalLeafSlots m" using Cons.prems by (auto simp: slots_ok_def)
  have sc: "slot_of c = s" using s by (simp add: slot_of_def)
  have ne: "slot_of c' \<noteq> s" if "c' \<in> set cs" for c'
    using Cons.prems that sc unfolding slots_ok_def by (metis distinct.simps(2) image_eqI list.set_map list.simps(9))
  define vs' where "vs' = (if news L vs c then vs[s := ec_value c] else vs)"
  have kept: "vs' ! slot_of c' = vs ! slot_of c'" if "c' \<in> set cs" for c'
    using ne [OF that] by (auto simp: vs'_def)
  have same: "map (changed L vs') cs = map (changed L vs) cs" "map (news L vs') cs = map (news L vs) cs"
    "map (\<lambda>c. c\<lparr>ec_previousValue := vs' ! slot_of c\<rparr>) cs = map (\<lambda>c. c\<lparr>ec_previousValue := vs ! slot_of c\<rparr>) cs"
    using kept by (auto simp: changed_def news_def)
  have ok: "slots_ok (mc_totalLeafSlots m) cs" using Cons.prems by (simp add: slots_ok_def)
  note IH = Cons.IH [OF ok, of vs', unfolded same]
  have sf: "shouldForwardAndUpdateCache L (Some (with_values m vs)) (ec_slot c) (ec_value c)
      = Some (changed L vs c, vs ! s, Some (with_values m vs'))"
    using shouldForward_with_values [OF s, of L vs] unfolding vs'_def .
  have st: "store (zip (c # cs) (map (news L vs) (c # cs))) vs = store (zip cs (map (news L vs) cs)) vs'"
    by (simp add: vs'_def sc)
  show ?case
    unfolding st by (simp only: decideEach.simps sf IH option.case prod.case list.map sc)
qed simp

definition entry_of :: "'v EntryCandidate \<Rightarrow> 'v point_entry" where
  "entry_of c = \<lparr>pe_reference = ec_reference c, pe_value = ec_value c, pe_previousValue = ec_previousValue c,
     pe_semantic = ec_semantic c, pe_category = ec_category c, pe_description = ec_description c\<rparr>"

lemma emitEntries_eq:
  assumes "\<forall>(c, f) \<in> set cfs. \<exists>s < mc_totalLeafSlots m. ec_slot c = Some s"
  shows "emitEntries (Some (with_values m vs)) cfs
    = (map (entry_of \<circ> fst) (filter snd cfs), Some (with_values m (store cfs vs)))"
  using assms
proof (induction cfs arbitrary: vs)
  case (Cons cf cfs)
  obtain c f where cf: "cf = (c, f)" by fastforce
  obtain s where "ec_slot c = Some s" "s < mc_totalLeafSlots m" using Cons.prems by (auto simp: cf)
  then show ?case
    using Cons.IH [of vs] Cons.IH [of "vs[s := ec_value c]"] Cons.prems
    by (simp add: cf entry_of_def update_with_values slot_of_def)
qed simp

lemma zip_filter_snd: "length fs = length xs \<Longrightarrow> map fst (filter snd (zip xs fs)) = map ((!) xs) (filter ((!) fs) [0..<length xs])"
proof (induction xs arbitrary: fs)
  case (Cons x xs)
  then obtain f fs' where fs: "fs = f # fs'" by (cases fs) auto
  have "[0..<length (x # xs)] = 0 # map Suc [0..<length xs]"
    by (simp add: upt_conv_Cons map_Suc_upt del: upt_Suc)
  with Cons fs show ?case by (simp add: filter_map comp_def del: upt_Suc)
qed simp

text \<open>The specification: an own change, or a change of a candidate in the same group.\<close>

definition group_of :: "'v EntryCandidate list \<Rightarrow> nat \<Rightarrow> nat option" where
  "group_of cs i = resolveGroupAnchor (ec_reference (cs ! i)) (groupAnchors cs)"

definition forwards :: "'v mms_lib \<Rightarrow> 'v option list \<Rightarrow> 'v EntryCandidate list \<Rightarrow> nat \<Rightarrow> bool" where
  "forwards L vs cs i \<longleftrightarrow> changed L vs (cs ! i)
     \<or> (group_of cs i \<noteq> None \<and> ec_value (cs ! i) \<noteq> None
        \<and> (\<exists>j < length cs. changed L vs (cs ! j) \<and> group_of cs j = group_of cs i))"

text \<open>A frame over a well laid out cache.\<close>

definition frame_input :: "'v mms_lib \<Rightarrow> build_allocs \<Rightarrow> nat \<Rightarrow> 'v option \<Rightarrow> 'v GooseSubscriberMemberRefCache
    \<Rightarrow> 'v option list \<Rightarrow> nat \<Rightarrow> 'v EntryCandidate list \<Rightarrow> bool" where
  "frame_input L ok fuel d m vs n cs \<longleftrightarrow> (\<exists>os. layout_ok m os) \<and> mc_lastForwardedValues m = Some vs
     \<and> length vs = mc_totalLeafSlots m \<and> 0 < n \<and> n \<le> mc_memberCount m
     \<and> ok_anchors ok \<and> ok_group ok \<and> ok_forward ok
     \<and> cs = collectCandidates L (ok_reorder ok) fuel d (Some m) n"

lemma frame_input_slots:
  assumes "frame_input L ok fuel d m vs n cs"
  shows "slots_ok (mc_totalLeafSlots m) cs" and "length vs = mc_totalLeafSlots m" and "m = with_values m vs"
  using assms collect_slots_ok [of m _ n] by (auto simp: frame_input_def)

text \<open>The filter over candidates with distinct slots in the tables of the cache.\<close>

definition filter_input :: "build_allocs \<Rightarrow> 'v GooseSubscriberMemberRefCache \<Rightarrow> 'v option list \<Rightarrow> 'v EntryCandidate list \<Rightarrow> bool" where
  "filter_input ok m vs cs \<longleftrightarrow> slots_ok (mc_totalLeafSlots m) cs \<and> mc_lastForwardedValues m = Some vs
     \<and> length vs = mc_totalLeafSlots m \<and> ok_anchors ok \<and> ok_group ok \<and> ok_forward ok"

lemma filter_step:
  assumes "filter_input ok m vs cs"
  shows "\<exists>vs'. filterEntries L ok cs (Some m) =
      Some (map (\<lambda>i. entry_of ((cs ! i)\<lparr>ec_previousValue := vs ! slot_of (cs ! i)\<rparr>)) (filter (forwards L vs cs) [0..<length cs]),
            Some (m\<lparr>mc_lastForwardedValues := Some vs', mc_everPopulated := mc_everPopulated m \<or> cs \<noteq> []\<rparr>))
    \<and> length vs' = length vs
    \<and> (\<forall>i < length cs. vs' ! slot_of (cs ! i) =
         (if forwards L vs cs i \<or> news L vs (cs ! i) then ec_value (cs ! i) else vs ! slot_of (cs ! i)))
    \<and> (\<forall>s. s \<notin> slot_of ` set cs \<longrightarrow> vs' ! s = vs ! s)"
proof -
  have sl: "slots_ok (mc_totalLeafSlots m) cs" "length vs = mc_totalLeafSlots m" "m = with_values m vs"
    and ok: "ok_anchors ok" "ok_group ok" "ok_forward ok" using assms by (auto simp: filter_input_def)
  define ds where "ds = map (\<lambda>c. c\<lparr>ec_previousValue := vs ! slot_of c\<rparr>) cs"
  define fw where "fw = map (changed L vs) cs"
  define fw' where "fw' = extendGroups ds (map (\<lambda>c. resolveGroupAnchor (ec_reference c) (groupAnchors cs)) cs) fw"
  define vs1 where "vs1 = store (zip cs (map (news L vs) cs)) vs"
  define vs2 where "vs2 = store (zip ds fw') vs1"
  have len: "length ds = length cs" "length fw = length cs" "length fw' = length cs"
    by (simp_all add: ds_def fw_def fw'_def extendGroups_def)
  have fwd: "fw' ! i \<longleftrightarrow> forwards L vs cs i" if "i < length cs" for i
    using extended_iff [of i fw ds] that
    by (auto simp: fw'_def forwards_def group_of_def len fw_def ds_def)
  have slot_ds: "slot_of (ds ! i) = slot_of (cs ! i)" "ec_value (ds ! i) = ec_value (cs ! i)"
    if "i < length cs" for i using that by (simp_all add: ds_def slot_of_def)
  have dst: "distinct (map (slot_of \<circ> fst) (zip cs (map (news L vs) cs)))" "distinct (map (slot_of \<circ> fst) (zip ds fw'))"
  proof -
    have "map (slot_of \<circ> fst) (zip xs fs) = map slot_of xs" if "length fs = length xs"
      for xs :: "'a EntryCandidate list" and fs :: "bool list" using that by (simp flip: map_map)
    moreover have "map slot_of ds = map slot_of cs" by (simp add: ds_def slot_of_def)
    ultimately show "distinct (map (slot_of \<circ> fst) (zip cs (map (news L vs) cs)))"
      "distinct (map (slot_of \<circ> fst) (zip ds fw'))" using sl(1) len by (simp_all add: slots_ok_def)
  qed
  have bound: "slot_of (cs ! i) < length vs" if "i < length cs" for i
    using sl(1,2) nth_mem [OF that] by (auto simp: slots_ok_def slot_of_def)
  have v1: "vs1 ! slot_of (cs ! i) = (if news L vs (cs ! i) then ec_value (cs ! i) else vs ! slot_of (cs ! i))"
    if "i < length cs" for i
    using store_nth [OF dst(1), of i vs] that bound by (simp add: vs1_def)
  have v2: "vs2 ! slot_of (cs ! i) = (if forwards L vs cs i \<or> news L vs (cs ! i) then ec_value (cs ! i) else vs ! slot_of (cs ! i))"
    if "i < length cs" for i
    using store_nth [OF dst(2), of i vs1] that bound slot_ds [OF that] len v1 [OF that] fwd [OF that]
    by (auto simp: vs2_def vs1_def)
  have other: "vs2 ! s = vs ! s" if "s \<notin> slot_of ` set cs" for s
  proof -
    have "slot_of ` fst ` set (zip cs (map (news L vs) cs)) \<subseteq> slot_of ` set cs"
      "slot_of ` fst ` set (zip ds fw') \<subseteq> slot_of ` set cs"
      by (auto simp: ds_def slot_of_def dest!: set_zip_leftD)
    then have "s \<notin> slot_of ` fst ` set (zip cs (map (news L vs) cs))" "s \<notin> slot_of ` fst ` set (zip ds fw')"
      using that by blast+
    from store_other [OF this(2), of vs1] store_other [OF this(1), of vs] show ?thesis
      unfolding vs2_def vs1_def by simp
  qed
  have dec: "decideEach L (Some m) cs = Some (fw, ds, Some (with_values m vs1))"
    using decideEach_eq [OF sl(1), of L vs] unfolding sl(3) [symmetric] fw_def ds_def vs1_def .
  have "\<forall>(c, f) \<in> set (zip ds fw'). \<exists>s < mc_totalLeafSlots m. ec_slot c = Some s"
    using sl(1) by (auto simp: slots_ok_def ds_def dest!: set_zip_leftD)
  note em = emitEntries_eq [OF this, of vs1]
  have "map (entry_of \<circ> fst) (filter snd (zip ds fw')) = map entry_of (map ((!) ds) (filter ((!) fw') [0..<length ds]))"
    using zip_filter_snd [of fw' ds] len by (simp flip: map_map)
  also have "\<dots> = map (\<lambda>i. entry_of ((cs ! i)\<lparr>ec_previousValue := vs ! slot_of (cs ! i)\<rparr>)) (filter (forwards L vs cs) [0..<length cs])"
  proof -
    have "filter ((!) fw') [0..<length ds] = filter (forwards L vs cs) [0..<length cs]"
      unfolding len by (rule filter_cong [OF refl]) (simp add: fwd)
    then show ?thesis by (simp add: ds_def)
  qed
  finally have es: "map (entry_of \<circ> fst) (filter snd (zip ds fw')) = \<dots>" .
  have "filterEntries L ok cs (Some m) = Some (map (entry_of \<circ> fst) (filter snd (zip ds fw')),
      Some ((with_values m vs2)\<lparr>mc_everPopulated := mc_everPopulated m \<or> cs \<noteq> []\<rparr>))"
    using ok dec em by (simp add: filterEntries_def fw'_def vs2_def Let_def)
  with es v2 other show ?thesis
    by (intro exI [of _ vs2]) (simp add: vs2_def vs1_def)
qed

lemma frame_step:
  assumes "frame_input L ok fuel d m vs n cs"
  shows "\<exists>vs'. buildEntries L ok fuel d (Some m) (int n) =
      Some (map (\<lambda>i. entry_of ((cs ! i)\<lparr>ec_previousValue := vs ! slot_of (cs ! i)\<rparr>)) (filter (forwards L vs cs) [0..<length cs]),
            Some (m\<lparr>mc_lastForwardedValues := Some vs', mc_everPopulated := mc_everPopulated m \<or> cs \<noteq> []\<rparr>))
    \<and> length vs' = length vs
    \<and> (\<forall>i < length cs. vs' ! slot_of (cs ! i) =
         (if forwards L vs cs i \<or> news L vs (cs ! i) then ec_value (cs ! i) else vs ! slot_of (cs ! i)))
    \<and> (\<forall>s. s \<notin> slot_of ` set cs \<longrightarrow> vs' ! s = vs ! s)"
proof -
  have f: "filter_input ok m vs cs" using frame_input_slots(1,2) [OF assms] assms by (auto simp: filter_input_def frame_input_def)
  have e: "buildEntries L ok fuel d (Some m) (int n) = filterEntries L ok cs (Some m)"
    using assms by (simp add: buildEntries_def frame_input_def)
  show ?thesis unfolding e by (rule filter_step [OF f])
qed


section \<open>Properties of a frame\<close>

text \<open>C2. What a frame forwards, exactly: over a cache laid out as the subscription builds it and with
  memory available, \<open>buildEntries\<close> returns (no invalid access), its entries are in order the
  candidates that changed against the cached value or share a group with one that did, each
  with the cached value as its previous value, and afterwards the cache holds the new value
  of every forwarded or first-seen leaf and the old value everywhere else.\<close>

theorem goose_frame_exact:
  assumes "frame_input L ok fuel d m vs n cs"
  shows "\<exists>vs'. buildEntries L ok fuel d (Some m) (int n) =
      Some (map (\<lambda>i. entry_of ((cs ! i)\<lparr>ec_previousValue := vs ! slot_of (cs ! i)\<rparr>)) (filter (forwards L vs cs) [0..<length cs]),
            Some (m\<lparr>mc_lastForwardedValues := Some vs', mc_everPopulated := mc_everPopulated m \<or> cs \<noteq> []\<rparr>))
    \<and> length vs' = length vs
    \<and> (\<forall>i < length cs. vs' ! slot_of (cs ! i) =
         (if forwards L vs cs i \<or> news L vs (cs ! i) then ec_value (cs ! i) else vs ! slot_of (cs ! i)))
    \<and> (\<forall>s. s \<notin> slot_of ` set cs \<longrightarrow> vs' ! s = vs ! s)"
  by (rule frame_step [OF assms])

lemma forwards_has_value: "forwards L vs cs i \<Longrightarrow> ec_value (cs ! i) \<noteq> None"
  by (auto simp: forwards_def changed_def split: option.splits)

lemma news_has_value: "news L vs c \<Longrightarrow> ec_value c \<noteq> None"
  by (simp add: news_def)

text \<open>A stored value is never lost: whatever a frame carries (a missing element included), a leaf
  that had a cached value before the frame has one after it.\<close>

theorem goose_cache_never_lost:
  assumes "frame_input L ok fuel d m vs n cs" and "buildEntries L ok fuel d (Some m) (int n) = Some (es, Some m')"
    and "s < length vs" and "vs ! s \<noteq> None"
  shows "\<exists>vs'. mc_lastForwardedValues m' = Some vs' \<and> vs' ! s \<noteq> None"
proof -
  from frame_step [OF assms(1)] assms(2) obtain vs' where vs': "mc_lastForwardedValues m' = Some vs'"
    "\<forall>i < length cs. vs' ! slot_of (cs ! i) =
       (if forwards L vs cs i \<or> news L vs (cs ! i) then ec_value (cs ! i) else vs ! slot_of (cs ! i))"
    "\<forall>s. s \<notin> slot_of ` set cs \<longrightarrow> vs' ! s = vs ! s" by auto
  have "vs' ! s \<noteq> None"
  proof (cases "s \<in> slot_of ` set cs")
    case True
    then obtain i where "i < length cs" "s = slot_of (cs ! i)" by (auto simp: in_set_conv_nth)
    with vs'(2) assms(4) forwards_has_value [of L vs cs i] news_has_value [of L vs "cs ! i"] show ?thesis by auto
  next
    case False
    with vs'(3) assms(4) show ?thesis by simp
  qed
  with vs'(1) show ?thesis by blast
qed

text \<open>The candidates of a frame do not depend on the cached values.\<close>

lemma candidateFor_frame:
  "candidateFor (Some (m\<lparr>mc_lastForwardedValues := a, mc_everPopulated := b\<rparr>)) v r s = candidateFor (Some m) v r s"
  by (simp add: candidateFor_def passesCategoryFilter_def lookupCategoryForSlot_def lookupSemanticForSlot_def
      lookupDescriptionForSlot_def lookupAlwaysIncludeForSlot_def Let_def cong: option.case_cong if_cong)

lemma collect_frame:
  "collectCandidates L r fuel d (Some (m\<lparr>mc_lastForwardedValues := a, mc_everPopulated := b\<rparr>)) n
     = collectCandidates L r fuel d (Some m) n"
  by (simp add: collectCandidates_def memberCandidates_def candidateFor_frame Let_def cong: option.case_cong if_cong)

lemma layout_frame: "layout_ok (m\<lparr>mc_lastForwardedValues := a, mc_everPopulated := b\<rparr>) os \<longleftrightarrow> layout_ok m os"
proof -
  have "member_width (m\<lparr>mc_lastForwardedValues := a, mc_everPopulated := b\<rparr>) = member_width m"
    by (rule ext) (simp add: member_width_def cong: option.case_cong)
  then show ?thesis by (simp add: layout_ok_def)
qed

lemma frame_input_again:
  assumes "frame_input L ok fuel d m vs n cs" and "length vs' = length vs"
  shows "frame_input L ok fuel d (m\<lparr>mc_lastForwardedValues := Some vs', mc_everPopulated := b\<rparr>) vs' n cs"
  using assms
  by (auto simp: frame_input_def collect_frame layout_frame)

text \<open>Nothing is news when every value equals the cached one.\<close>

lemma frame_silent:
  assumes "frame_input L ok fuel d m vs n cs"
    and "\<And>i. i < length cs \<Longrightarrow> \<not> changed L vs (cs ! i)"
  shows "\<exists>vs'. buildEntries L ok fuel d (Some m) (int n) =
      Some ([], Some (m\<lparr>mc_lastForwardedValues := Some vs', mc_everPopulated := mc_everPopulated m \<or> cs \<noteq> []\<rparr>))
    \<and> length vs' = length vs
    \<and> (\<forall>i < length cs. vs' ! slot_of (cs ! i) = (if vs ! slot_of (cs ! i) = None then ec_value (cs ! i) else vs ! slot_of (cs ! i)))
    \<and> (\<forall>s. s \<notin> slot_of ` set cs \<longrightarrow> vs' ! s = vs ! s)"
proof -
  have no: "\<not> forwards L vs cs i" if "i < length cs" for i using assms(2) that by (auto simp: forwards_def)
  then have "filter (forwards L vs cs) [0..<length cs] = []" by (simp add: filter_empty_conv)
  moreover have "(if forwards L vs cs i \<or> news L vs (cs ! i) then ec_value (cs ! i) else vs ! slot_of (cs ! i))
      = (if vs ! slot_of (cs ! i) = None then ec_value (cs ! i) else vs ! slot_of (cs ! i))" if "i < length cs" for i
    using no [OF that] assms(2) [OF that] by (auto simp: news_def)
  ultimately show ?thesis using frame_step [OF assms(1)] by auto
qed

text \<open>The first frame is a silent snapshot: with nothing cached yet, no entry is forwarded and every
  leaf's value is stored.\<close>

theorem goose_first_frame_silent:
  assumes "frame_input L ok fuel d m vs n cs" and "\<forall>s < length vs. vs ! s = None"
  shows "\<exists>m' vs'. buildEntries L ok fuel d (Some m) (int n) = Some ([], Some m')
    \<and> mc_lastForwardedValues m' = Some vs' \<and> (\<forall>c \<in> set cs. vs' ! slot_of c = ec_value c)"
proof -
  have b: "slot_of (cs ! i) < length vs" if "i < length cs" for i
    using frame_input_slots(1,2) [OF assms(1)] nth_mem [OF that] by (auto simp: slots_ok_def slot_of_def)
  then have none: "vs ! slot_of (cs ! i) = None" if "i < length cs" for i using assms(2) that by blast
  then have "\<not> changed L vs (cs ! i)" if "i < length cs" for i using that by (simp add: changed_def)
  from frame_silent [OF assms(1) this] none show ?thesis by (fastforce simp: in_set_conv_nth)
qed

text \<open>A repeated frame is silent: after a frame was processed, processing the same frame again
  forwards nothing and leaves the cache as it is (for a library whose comparison of values is
  reflexive).\<close>

theorem goose_replay_silent:
  assumes "frame_input L ok fuel d m vs n cs" and "\<And>v. valuesAreSemanticallyEqual L v v"
    and "buildEntries L ok fuel d (Some m) (int n) = Some (es, Some m')"
  shows "buildEntries L ok fuel d (Some m') (int n) = Some ([], Some m')"
proof -
  from frame_step [OF assms(1)] assms(3) obtain vs' where m': "m' = m\<lparr>mc_lastForwardedValues := Some vs',
      mc_everPopulated := mc_everPopulated m \<or> cs \<noteq> []\<rparr>"
    and len: "length vs' = length vs" and v: "\<forall>i < length cs. vs' ! slot_of (cs ! i) =
       (if forwards L vs cs i \<or> news L vs (cs ! i) then ec_value (cs ! i) else vs ! slot_of (cs ! i))" by auto
  have fi: "frame_input L ok fuel d m' vs' n cs" unfolding m' by (rule frame_input_again [OF assms(1) len])
  have nc: "\<not> changed L vs' (cs ! i)" and nn: "vs' ! slot_of (cs ! i) = None \<longrightarrow> ec_value (cs ! i) = None"
    if i: "i < length cs" for i
  proof -
    have "\<not> changed L vs' (cs ! i) \<and> (vs' ! slot_of (cs ! i) = None \<longrightarrow> ec_value (cs ! i) = None)"
    proof (cases "forwards L vs cs i \<or> news L vs (cs ! i)")
      case True
      then have "vs' ! slot_of (cs ! i) = ec_value (cs ! i)" using v i by simp
      then show ?thesis using assms(2) by (simp add: changed_def split: option.split)
    next
      case False
      then have "vs' ! slot_of (cs ! i) = vs ! slot_of (cs ! i)" "\<not> news L vs (cs ! i)" using v i by simp_all
      then show ?thesis 
        by (cases "ec_value (cs ! i)"; cases "vs ! slot_of (cs ! i)") (simp_all add: changed_def news_def)
    qed
    then show "\<not> changed L vs' (cs ! i)" "vs' ! slot_of (cs ! i) = None \<longrightarrow> ec_value (cs ! i) = None" by blast+
  qed
  from frame_silent [OF fi nc] obtain vs'' where b: "buildEntries L ok fuel d (Some m') (int n) =
      Some ([], Some (m'\<lparr>mc_lastForwardedValues := Some vs'', mc_everPopulated := mc_everPopulated m' \<or> cs \<noteq> []\<rparr>))"
    and l2: "length vs'' = length vs'"
    and w: "\<forall>i < length cs. vs'' ! slot_of (cs ! i) =
      (if vs' ! slot_of (cs ! i) = None then ec_value (cs ! i) else vs' ! slot_of (cs ! i))"
    and o: "\<forall>s. s \<notin> slot_of ` set cs \<longrightarrow> vs'' ! s = vs' ! s" by blast
  have "vs'' ! s = vs' ! s" for s
  proof (cases "s \<in> slot_of ` set cs")
    case True
    then obtain i where "i < length cs" "s = slot_of (cs ! i)" by (auto simp: in_set_conv_nth)
    with w nn show ?thesis by auto
  next
    case False
    with o show ?thesis by blast
  qed
  then have "vs'' = vs'" using l2 by (simp add: nth_equalityI)
  then have "m'\<lparr>mc_lastForwardedValues := Some vs'', mc_everPopulated := mc_everPopulated m' \<or> cs \<noteq> []\<rparr> = m'"
    unfolding m' by simp
  with b show ?thesis by simp
qed


section \<open>A breaker position\<close>

text \<open>One structured member with its status value and quality, two slots.\<close>

definition demo_cache :: "demo_value option list option \<Rightarrow> demo_value GooseSubscriberMemberRefCache" where
  "demo_cache values = \<lparr>mc_memberReferences = Some [Some ''P''], mc_memberCount = 1,
     mc_memberLeafReferences = Some [Some [Some ''P$stVal'', Some ''P$q'']], mc_memberLeafCounts = [2],
     mc_memberLeafWireTypes = None, mc_leafSlotOffsets = Some [0], mc_totalLeafSlots = 2,
     mc_lastForwardedValues = values, mc_leafSemantics = None, mc_leafCategories = None,
     mc_leafAlwaysInclude = None, mc_categoryFilter = 0, mc_leafDescriptions = None, mc_everPopulated = True\<rparr>"

definition demo_frame :: "bool \<Rightarrow> demo_value" where
  "demo_frame b = Demo_Struct [Demo_Struct [Demo_Bool b, Demo_Bits 13 0]]"

definition demo_candidate :: "demo_value \<Rightarrow> string \<Rightarrow> nat \<Rightarrow> demo_value EntryCandidate" where
  "demo_candidate v ref s = \<lparr>ec_value = Some v, ec_reference = Some ref, ec_slot = Some s, ec_previousValue = None,
     ec_semantic = IED_MODEL_DA_SEMANTIC_NONE, ec_category = IED_MODEL_LN_CATEGORY_OTHER, ec_description = None\<rparr>"

definition demo_build_ok :: build_allocs where
  "demo_build_ok = \<lparr>ok_reorder = True, ok_anchors = True, ok_group = True, ok_forward = True\<rparr>"

lemma demo_flatten:
  "GooseSubscriberUtils_flattenStructure demo_lib 3 (Some (Demo_Struct [Demo_Bool b, Demo_Bits 13 0]))
     = Some [Demo_Bool b, Demo_Bits 13 0]"
  by (simp add: GooseSubscriberUtils_flattenStructure_def demo_lib_def upt_rec eval_nat_numeral)

lemma demo_reorder:
  "reorderFlattenedToMatchReferences True demo_lib [Some ''P$stVal'', Some ''P$q''] [Demo_Bool b, Demo_Bits 13 0] None
     = Some [Demo_Bool b, Demo_Bits 13 0]"
  by (simp add: reorderFlattenedToMatchReferences_def reorderIndices_def daNameOf_def firstUnused_def
      isQualityValue_def demo_lib_def skipUsed_def)

lemma demo_candidates:
  "collectCandidates demo_lib True 3 (Some (demo_frame b)) (Some (demo_cache vs)) 1
     = [demo_candidate (Demo_Bool b) ''P$stVal'' 0, demo_candidate (Demo_Bits 13 0) ''P$q'' 1]"
proof -
  have "ml_getElement demo_lib (demo_frame b) 0 = Some (Demo_Struct [Demo_Bool b, Demo_Bits 13 0])"
    by (simp add: demo_lib_def demo_frame_def)
  then show ?thesis
    by (simp add: collectCandidates_def memberCandidates_def demo_cache_def demo_flatten demo_reorder Let_def
        candidateFor_def lookupCategoryForSlot_def passesCategoryFilter_def lookupSemanticForSlot_def
        lookupDescriptionForSlot_def demo_candidate_def upt_rec)
qed

lemma demo_frame_input:
  assumes "length vs = 2"
  shows "frame_input demo_lib demo_build_ok 3 (Some (demo_frame b)) (demo_cache (Some vs)) vs 1
    [demo_candidate (Demo_Bool b) ''P$stVal'' 0, demo_candidate (Demo_Bits 13 0) ''P$q'' 1]"
proof -
  have "layout_ok (demo_cache (Some vs)) [0]" by (simp add: layout_ok_def member_width_def demo_cache_def)
  then show ?thesis
    using assms demo_candidates [of b "Some vs"]
    by (auto simp: frame_input_def demo_build_ok_def) (simp_all add: demo_cache_def)
qed

text \<open>Without memory for the value cache a frame is an invalid access: when the array of cached values
  could not be allocated but the slot table was, the decision on the first leaf with a slot
  reads through the NULL array (the function that updates the cache has a guard, the one that
  reads it has none).\<close>

theorem null_value_cache_crashes:
  "buildEntries demo_lib demo_build_ok 3 (Some (demo_frame True)) (Some (demo_cache None)) 1 = None"
proof -
  have "shouldForwardAndUpdateCache demo_lib (Some (demo_cache None)) (Some 0) (Some (Demo_Bool True)) = None"
    by (simp add: shouldForwardAndUpdateCache_def demo_cache_def)
  then show ?thesis
    using demo_candidates [of True None] by (simp add: buildEntries_def filterEntries_def demo_build_ok_def demo_candidate_def Let_def)
qed

lemma demo_equal_refl: "valuesAreSemanticallyEqual demo_lib v v"
  by (simp add: valuesAreSemanticallyEqual_def demo_lib_def split: MmsType.split)

lemma goose_frame_exact_witness:
  "\<exists>m'. buildEntries demo_lib demo_build_ok 3 (Some (demo_frame True))
       (Some (demo_cache (Some [Some (Demo_Bool False), Some (Demo_Bits 13 0)]))) 1
     = Some ([entry_of ((demo_candidate (Demo_Bool True) ''P$stVal'' 0)\<lparr>ec_previousValue := Some (Demo_Bool False)\<rparr>),
              entry_of ((demo_candidate (Demo_Bits 13 0) ''P$q'' 1)\<lparr>ec_previousValue := Some (Demo_Bits 13 0)\<rparr>)], m')"
proof -
  define vs where "vs = [Some (Demo_Bool False), Some (Demo_Bits 13 0)]"
  define cs where "cs = [demo_candidate (Demo_Bool True) ''P$stVal'' 0, demo_candidate (Demo_Bits 13 0) ''P$q'' 1]"
  have fi: "frame_input demo_lib demo_build_ok 3 (Some (demo_frame True)) (demo_cache (Some vs)) vs 1 cs"
    unfolding cs_def by (rule demo_frame_input) (simp add: vs_def)
  have g: "group_of cs 0 = Some 0" "group_of cs 1 = Some 0"
    by (simp_all add: cs_def group_of_def groupAnchors_def splitReference_def demo_candidate_def List.map_filter_def
        resolveGroupAnchor_def strneq_def)
  have ch: "changed demo_lib vs (cs ! 0)" "\<not> changed demo_lib vs (cs ! 1)"
    by (simp_all add: cs_def vs_def changed_def slot_of_def demo_candidate_def valuesAreSemanticallyEqual_def demo_lib_def)
  have l: "length cs = 2" and v: "ec_value (cs ! 1) \<noteq> None" by (simp_all add: cs_def demo_candidate_def)
  have f0: "forwards demo_lib vs cs 0" using ch by (simp add: forwards_def)
  have "\<exists>j < length cs. changed demo_lib vs (cs ! j) \<and> group_of cs j = group_of cs 1"
    using ch g l by (intro exI [of _ 0]) simp
  then have f1: "forwards demo_lib vs cs 1" using v g by (simp add: forwards_def)
  have ix: "filter (forwards demo_lib vs cs) [0..<length cs] = [0, 1]" using f0 f1 l by (simp add: upt_rec)
  from goose_frame_exact [OF fi] show ?thesis
    unfolding ix by (auto simp: cs_def vs_def slot_of_def demo_candidate_def)
qed

lemma goose_first_frame_silent_witness:
  "\<exists>m'. buildEntries demo_lib demo_build_ok 3 (Some (demo_frame True)) (Some (demo_cache (Some [None, None]))) 1
     = Some ([], Some m')"
proof -
  have "length [None :: demo_value option, None] = 2" by simp
  note fi = demo_frame_input [OF this, of True]
  have "\<forall>s < length [None :: demo_value option, None]. [None :: demo_value option, None] ! s = None"
    by (simp add: less_Suc_eq)
  from goose_first_frame_silent [OF fi this] show ?thesis by auto
qed

lemma goose_cache_never_lost_witness:
  "\<exists>m' vs'. buildEntries demo_lib demo_build_ok 3 (Some (demo_frame True))
       (Some (demo_cache (Some [Some (Demo_Bool False), None]))) 1 = m'
     \<and> mc_lastForwardedValues (the (snd (the m'))) = Some vs' \<and> vs' ! 0 \<noteq> None"
proof -
  note fi = demo_frame_input [of "[Some (Demo_Bool False), None]" True]
  from frame_step [OF fi] obtain es m' where b: "buildEntries demo_lib demo_build_ok 3 (Some (demo_frame True))
      (Some (demo_cache (Some [Some (Demo_Bool False), None]))) (int 1) = Some (es, Some m')" by auto
  from goose_cache_never_lost [OF fi b, of 0] b show ?thesis by auto
qed

lemma goose_replay_silent_witness:
  "\<exists>es m'. buildEntries demo_lib demo_build_ok 3 (Some (demo_frame True))
       (Some (demo_cache (Some [Some (Demo_Bool False), None]))) 1 = Some (es, Some m')
     \<and> buildEntries demo_lib demo_build_ok 3 (Some (demo_frame True)) (Some m') 1 = Some ([], Some m')"
proof -
  note fi = demo_frame_input [of "[Some (Demo_Bool False), None]" True]
  from frame_step [OF fi] obtain es m' where b: "buildEntries demo_lib demo_build_ok 3 (Some (demo_frame True))
      (Some (demo_cache (Some [Some (Demo_Bool False), None]))) (int 1) = Some (es, Some m')" by auto
  from goose_replay_silent [OF fi demo_equal_refl b] b show ?thesis by auto
qed

end
