(* ===== verification/Goose_Cache.thy ===== *)
theory Goose_Cache
  imports Goose_Frame
begin

text \<open>
  \<open>goose_subscriber/service/goose_subscriber_api.c\<close>, \<open>resolveMemberReferences\<close>: the cache of a
  subscription target is laid out from the data set the SCL file declares. One slot per leaf,
  with its last forwarded value, semantic, category, exemption and description side by side in
  five flat arrays. The accessors of \<open>ied_model\<close> that it calls are the fields of
  \<open>ied_services\<close>; a \<open>LinkedList\<close> is its list of data, NULL is \<open>None\<close>.
\<close>

section \<open>Services of the device model\<close>

record ied_services =
  is_getCategoryFilter :: u8
  is_getDataSetMemberReferences :: "string \<Rightarrow> string option list option"
  is_getDataSetMemberSemantics :: "string \<Rightarrow> IedModelDaSemantic list option"
  is_getDataSetMemberLeafReferences :: "string \<Rightarrow> nat \<Rightarrow> string option list option"
  is_getDataSetMemberLeafWireTypes :: "string \<Rightarrow> nat \<Rightarrow> DataAttributeType list option"
  is_getDataSetMemberLeafSemantics :: "string \<Rightarrow> nat \<Rightarrow> IedModelDaSemantic list option"
  is_getCategoryForMemberReference :: "string option \<Rightarrow> LnCategory"
  is_isMemberReferenceAlwaysIncluded :: "string option \<Rightarrow> bool"
  is_getDescriptionForMemberReference :: "string option \<Rightarrow> string option"
  is_getLeafDescriptionsForMemberReference :: "string option \<Rightarrow> string option list option"

text \<open>Outcomes of the allocations, the last five for the conversions of member \<open>m\<close>.\<close>

record resolve_allocs =
  ra_array :: bool
  ra_rawSemantics :: bool
  ra_rawCategories :: bool
  ra_rawAlwaysInclude :: bool
  ra_rawDescriptions :: bool
  ra_leafDescArray :: bool
  ra_leafDescCounts :: bool
  ra_leafRefsArray :: bool
  ra_leafCounts :: bool
  ra_leafOffsets :: bool
  ra_leafWireTypesArray :: bool
  ra_leafSemArray :: bool
  ra_leafSemCounts :: bool
  ra_lastForwardedValues :: bool
  ra_leafSemantics :: bool
  ra_leafCategories :: bool
  ra_leafAlwaysInclude :: bool
  ra_leafDescriptions :: bool
  ra_memberLeaves :: "nat \<Rightarrow> bool"
  ra_memberWireTypes :: "nat \<Rightarrow> bool"
  ra_memberSemantics :: "nat \<Rightarrow> bool"
  ra_memberDescriptions :: "nat \<Rightarrow> bool"

section \<open>Lists to arrays\<close>

text \<open>The result is the array; the count the code returns beside it is its length, 0 for NULL.\<close>

definition linkedListToStringArray :: "bool \<Rightarrow> string option list option \<Rightarrow> string option list option" where
  "linkedListToStringArray ok list =
     (case list of None \<Rightarrow> None | Some xs \<Rightarrow> if xs = [] then None else if \<not> ok then None else Some xs)"

definition linkedListToWireTypeArray :: "bool \<Rightarrow> DataAttributeType list option \<Rightarrow> DataAttributeType list option" where
  "linkedListToWireTypeArray ok list =
     (case list of None \<Rightarrow> None | Some xs \<Rightarrow> if xs = [] then None else if \<not> ok then None else Some xs)"

definition linkedListToSemanticArray :: "bool \<Rightarrow> IedModelDaSemantic list option \<Rightarrow> IedModelDaSemantic list option" where
  "linkedListToSemanticArray ok list =
     (case list of None \<Rightarrow> None | Some xs \<Rightarrow> if xs = [] then None else if \<not> ok then None else Some xs)"

definition linkedListToDescriptionArray :: "bool \<Rightarrow> string option list option \<Rightarrow> string option list option" where
  "linkedListToDescriptionArray ok list =
     (case list of None \<Rightarrow> None | Some xs \<Rightarrow> if xs = [] then None else if \<not> ok then None else Some xs)"

definition array_count :: "'a list option \<Rightarrow> nat" where
  "array_count a = (case a of None \<Rightarrow> 0 | Some xs \<Rightarrow> length xs)"

section \<open>Slots\<close>

definition slots_for :: "nat \<Rightarrow> nat" where
  "slots_for leafCount = (if leafCount > 0 then leafCount else 1)"

text \<open>\<open>leafOffsets[m] = totalLeafSlots; totalLeafSlots += ...\<close> over all members.\<close>

fun slotOffsets :: "nat list \<Rightarrow> nat \<Rightarrow> nat list \<times> nat" where
  "slotOffsets [] totalSlots = ([], totalSlots)"
| "slotOffsets (c # cs) totalSlots = (let (os, t) = slotOffsets cs (totalSlots + slots_for c) in (totalSlots # os, t))"

text \<open>
  The flattening loop of the four slot tables: \<open>src m\<close> is what is written for member \<open>m\<close>,
  \<open>None\<close> when the code skips it.
\<close>

definition writeMember :: "nat \<Rightarrow> nat \<Rightarrow> (nat \<Rightarrow> 'a) \<Rightarrow> 'a list \<Rightarrow> 'a list" where
  "writeMember off w f xs = fold (\<lambda>k ys. ys[off + k := f k]) [0..<w] xs"

definition flattenSlots :: "nat list \<Rightarrow> nat list \<Rightarrow> (nat \<Rightarrow> (nat \<Rightarrow> 'a) option) \<Rightarrow> 'a list \<Rightarrow> 'a list" where
  "flattenSlots os cs src xs = fold (\<lambda>m ys.
     (case src m of None \<Rightarrow> ys | Some f \<Rightarrow> writeMember (os ! m) (slots_for (cs ! m)) f ys)) [0..<length cs] xs"

section \<open>The cache of a target\<close>

definition empty_cache :: "u8 \<Rightarrow> 'v GooseSubscriberMemberRefCache" where
  "empty_cache categoryFilter = \<lparr>mc_memberReferences = None, mc_memberCount = 0, mc_memberLeafReferences = None,
     mc_memberLeafCounts = [], mc_memberLeafWireTypes = None, mc_leafSlotOffsets = None, mc_totalLeafSlots = 0,
     mc_lastForwardedValues = None, mc_leafSemantics = None, mc_leafCategories = None,
     mc_leafAlwaysInclude = None, mc_categoryFilter = categoryFilter, mc_leafDescriptions = None, mc_everPopulated = False\<rparr>"

text \<open>
  What is written to the slots of member \<open>m\<close> in \<open>leafSemantics\<close> and \<open>leafDescriptions\<close>: the
  leaf list of a decomposed member if its length is the leaf count, the member's own otherwise.
\<close>

definition semanticsOf :: "nat list \<Rightarrow> (nat \<Rightarrow> IedModelDaSemantic list option) \<Rightarrow> IedModelDaSemantic list option
    \<Rightarrow> nat \<Rightarrow> (nat \<Rightarrow> IedModelDaSemantic) option" where
  "semanticsOf counts leafSem raw m =
     (if counts ! m > 0 then
        (case leafSem m of None \<Rightarrow> None | Some ys \<Rightarrow> if length ys = counts ! m then Some (\<lambda>k. ys ! k) else None)
      else case raw of None \<Rightarrow> None | Some ys \<Rightarrow> if m < length ys then Some (\<lambda>k. ys ! m) else None)"

definition descriptionsOf :: "nat list \<Rightarrow> (nat \<Rightarrow> string option list option) \<Rightarrow> string option list option
    \<Rightarrow> nat \<Rightarrow> (nat \<Rightarrow> string option) option" where
  "descriptionsOf counts leafDesc raw m =
     (if counts ! m > 0 then
        (case leafDesc m of None \<Rightarrow> None | Some ys \<Rightarrow> if length ys = counts ! m then Some (\<lambda>k. ys ! k) else None)
      else case raw of None \<Rightarrow> None | Some ys \<Rightarrow> Some (\<lambda>k. ys ! m))"

text \<open>
  The result is the cache written to the target. \<open>leafCategories\<close> starts as zeroed memory,
  which is no \<open>LnCategory\<close>; every slot is then assigned, so the placeholder below is never read.
\<close>

definition resolveMemberReferences :: "resolve_allocs \<Rightarrow> ied_services \<Rightarrow> string option \<Rightarrow> 'v GooseSubscriberMemberRefCache" where
  "resolveMemberReferences ra ied datasetReference =
     (case datasetReference of
        None \<Rightarrow> empty_cache (is_getCategoryFilter ied)
      | Some ds \<Rightarrow>
          (case linkedListToStringArray (ra_array ra) (is_getDataSetMemberReferences ied ds) of
             None \<Rightarrow> empty_cache (is_getCategoryFilter ied)
           | Some array \<Rightarrow>
               let count = length array;
                   rawSemantics = linkedListToSemanticArray (ra_rawSemantics ra) (is_getDataSetMemberSemantics ied ds);
                   tables = (ra_leafRefsArray ra \<and> ra_leafCounts ra \<and> ra_leafOffsets ra);
                   leafRefs = (\<lambda>m. linkedListToStringArray (ra_memberLeaves ra m) (is_getDataSetMemberLeafReferences ied ds m));
                   leafCounts = map (\<lambda>m. array_count (leafRefs m)) [0..<count];
                   wireTypes = (\<lambda>m. case linkedListToWireTypeArray (ra_memberWireTypes ra m)
                                           (is_getDataSetMemberLeafWireTypes ied ds m) of
                                      None \<Rightarrow> None
                                    | Some ts \<Rightarrow> if length ts = leafCounts ! m then Some ts else None);
                   leafSem = (\<lambda>m. if ra_leafSemArray ra \<and> ra_leafSemCounts ra
                                  then linkedListToSemanticArray (ra_memberSemantics ra m)
                                         (is_getDataSetMemberLeafSemantics ied ds m)
                                  else None);
                   leafDesc = (\<lambda>m. if ra_leafDescArray ra \<and> ra_leafDescCounts ra
                                   then linkedListToDescriptionArray (ra_memberDescriptions ra m)
                                          (is_getLeafDescriptionsForMemberReference ied (array ! m))
                                   else None);
                   rawCategories = (\<lambda>m. if ra_rawCategories ra then is_getCategoryForMemberReference ied (array ! m)
                                        else IED_MODEL_LN_CATEGORY_OTHER);
                   rawAlwaysInclude = (\<lambda>m. if ra_rawAlwaysInclude ra
                                           then Some (is_isMemberReferenceAlwaysIncluded ied (array ! m)) else None);
                   rawDescriptions = (if ra_rawDescriptions ra
                                      then Some (map (is_getDescriptionForMemberReference ied) array) else None);
                   (leafOffsets, totalSlots) = slotOffsets leafCounts 0
               in if \<not> tables then
                    (empty_cache (is_getCategoryFilter ied))\<lparr>mc_memberReferences := Some array, mc_memberCount := count\<rparr>
                  else
                    \<lparr>mc_memberReferences = Some array, mc_memberCount = count,
                     mc_memberLeafReferences = Some (map leafRefs [0..<count]),
                     mc_memberLeafCounts = leafCounts,
                     mc_memberLeafWireTypes = (if ra_leafWireTypesArray ra then Some (map wireTypes [0..<count]) else None),
                     mc_leafSlotOffsets = Some leafOffsets, mc_totalLeafSlots = totalSlots,
                     mc_lastForwardedValues = (if ra_lastForwardedValues ra then Some (replicate totalSlots None) else None),
                     mc_leafSemantics =
                       (if ra_leafSemantics ra
                        then Some (flattenSlots leafOffsets leafCounts (semanticsOf leafCounts leafSem rawSemantics)
                                     (replicate totalSlots IED_MODEL_DA_SEMANTIC_NONE))
                        else None),
                     mc_leafCategories =
                       (if ra_leafCategories ra
                        then Some (flattenSlots leafOffsets leafCounts (\<lambda>m. Some (\<lambda>k. rawCategories m))
                                     (replicate totalSlots IED_MODEL_LN_CATEGORY_OTHER))
                        else None),
                     mc_leafAlwaysInclude =
                       (if ra_leafAlwaysInclude ra
                        then Some (flattenSlots leafOffsets leafCounts (\<lambda>m. map_option (\<lambda>b k. b) (rawAlwaysInclude m))
                                     (replicate totalSlots False))
                        else None),
                     mc_categoryFilter = is_getCategoryFilter ied,
                     mc_leafDescriptions =
                       (if ra_leafDescriptions ra
                        then Some (flattenSlots leafOffsets leafCounts (descriptionsOf leafCounts leafDesc rawDescriptions)
                                     (replicate totalSlots None))
                        else None),
                     mc_everPopulated = False\<rparr>))"

section \<open>The slots tile the tables\<close>

definition offset_at :: "nat list \<Rightarrow> nat \<Rightarrow> nat" where
  "offset_at cs m = sum_list (map slots_for (take m cs))"

lemma slots_for_pos [simp]: "0 < slots_for c"
  by (simp add: slots_for_def)

lemma slotOffsets_eq:
  "slotOffsets cs t = (map (\<lambda>m. t + offset_at cs m) [0..<length cs], t + sum_list (map slots_for cs))"
proof (induction cs arbitrary: t)
  case (Cons c cs)
  have "[0..<length (c # cs)] = 0 # map Suc [0..<length cs]"
    by (simp add: upt_conv_Cons map_Suc_upt del: upt_Suc)
  then show ?case by (simp add: Cons offset_at_def comp_def ac_simps del: upt_Suc)
qed simp

lemma offset_at_Suc: "m < length cs \<Longrightarrow> offset_at cs (Suc m) = offset_at cs m + slots_for (cs ! m)"
  by (simp add: offset_at_def take_Suc_conv_app_nth)

lemma offset_at_mono: "m \<le> n \<Longrightarrow> offset_at cs m \<le> offset_at cs n"
  unfolding offset_at_def by (metis le_add1 map_append min.absorb1 sum_list_append take_add le_iff_add)

lemma offset_at_length: "offset_at cs (length cs) = sum_list (map slots_for cs)"
  by (simp add: offset_at_def)

lemma offset_before: "j < i \<Longrightarrow> i \<le> length cs \<Longrightarrow> offset_at cs j + slots_for (cs ! j) \<le> offset_at cs i"
  using offset_at_mono [of "Suc j" i cs] by (simp add: offset_at_Suc)

text \<open>Every slot belongs to a member.\<close>

lemma slot_member:
  "s < offset_at cs n \<Longrightarrow> n \<le> length cs \<Longrightarrow> \<exists>m < n. \<exists>k < slots_for (cs ! m). s = offset_at cs m + k"
proof (induction n)
  case 0
  then show ?case by (simp add: offset_at_def)
next
  case (Suc n)
  show ?case
  proof (cases "s < offset_at cs n")
    case True
    with Suc show ?thesis by (meson Suc_leD less_Suc_eq)
  next
    case False
    with Suc.prems offset_at_Suc [of n cs] have "s - offset_at cs n < slots_for (cs ! n)" by simp
    with False show ?thesis by (intro exI [of _ n] conjI exI [of _ "s - offset_at cs n"]) simp_all
  qed
qed

lemma length_writeMember [simp]: "length (writeMember off w f xs) = length xs"
  by (induction w) (simp_all add: writeMember_def)

lemma writeMember_nth:
  "off + w \<le> length xs \<Longrightarrow> s < length xs \<Longrightarrow>
     writeMember off w f xs ! s = (if off \<le> s \<and> s < off + w then f (s - off) else xs ! s)"
proof (induction w)
  case (Suc w)
  have "writeMember off (Suc w) f xs = (writeMember off w f xs)[off + w := f w]" by (simp add: writeMember_def)
  with Suc length_writeMember [of off w f xs] show ?case by (auto simp: nth_list_update)
qed (auto simp: writeMember_def)

text \<open>After the first \<open>n\<close> members, the slots below their end hold what was written for their member.\<close>

lemma flatten_prefix:
  fixes src :: "nat \<Rightarrow> (nat \<Rightarrow> 'a) option"
  assumes "n \<le> length cs" and "length xs = offset_at cs (length cs)"
  defines "r \<equiv> fold (\<lambda>m ys. (case src m of None \<Rightarrow> ys
     | Some f \<Rightarrow> writeMember (map (offset_at cs) [0..<length cs] ! m) (slots_for (cs ! m)) f ys)) [0..<n] xs"
  shows "length r = length xs \<and> (\<forall>s. offset_at cs n \<le> s \<and> s < length xs \<longrightarrow> r ! s = xs ! s)
    \<and> (\<forall>m < n. \<forall>k < slots_for (cs ! m). r ! (offset_at cs m + k)
         = (case src m of None \<Rightarrow> xs ! (offset_at cs m + k) | Some f \<Rightarrow> f k))"
  using assms(1) unfolding r_def
proof (induction n)
  case (Suc n)
  define q where "q = fold (\<lambda>m ys. (case src m of None \<Rightarrow> ys
     | Some f \<Rightarrow> writeMember (map (offset_at cs) [0..<length cs] ! m) (slots_for (cs ! m)) f ys)) [0..<n] xs"
  have IH: "length q = length xs" "\<forall>s. offset_at cs n \<le> s \<and> s < length xs \<longrightarrow> q ! s = xs ! s"
    "\<forall>m < n. \<forall>k < slots_for (cs ! m). q ! (offset_at cs m + k)
       = (case src m of None \<Rightarrow> xs ! (offset_at cs m + k) | Some f \<Rightarrow> f k)"
    using Suc unfolding q_def by simp_all
  have n: "n < length cs" using Suc.prems by simp
  have w: "offset_at cs (Suc n) = offset_at cs n + slots_for (cs ! n)" using n by (rule offset_at_Suc)
  have top: "offset_at cs n + slots_for (cs ! n) \<le> length xs"
    using offset_at_mono [of "Suc n" "length cs" cs] n w assms(2) by simp
  define r' where "r' = (case src n of None \<Rightarrow> q | Some f \<Rightarrow> writeMember (offset_at cs n) (slots_for (cs ! n)) f q)"
  have r': "length r' = length xs" "s < length xs \<Longrightarrow> r' ! s = (if offset_at cs n \<le> s \<and> s < offset_at cs n + slots_for (cs ! n)
      then (case src n of None \<Rightarrow> xs ! s | Some f \<Rightarrow> f (s - offset_at cs n)) else q ! s)" for s
    using IH(1,2) top writeMember_nth [of "offset_at cs n" "slots_for (cs ! n)" q]
    by (auto simp: r'_def split: option.split)
  have old: "r' ! (offset_at cs m + k) = q ! (offset_at cs m + k)" if "m < n" "k < slots_for (cs ! m)" for m k
    using r'(2) [of "offset_at cs m + k"] offset_before [of m n cs] that n top by simp
  have "r' ! (offset_at cs m + k) = (case src m of None \<Rightarrow> xs ! (offset_at cs m + k) | Some f \<Rightarrow> f k)"
    if "m < Suc n" "k < slots_for (cs ! m)" for m k
  proof (cases "m = n")
    case True
    with that r'(2) [of "offset_at cs n + k"] top show ?thesis by (auto split: option.split)
  next
    case False
    with that old IH(3) show ?thesis by simp
  qed
  moreover have "r' ! s = xs ! s" if "offset_at cs (Suc n) \<le> s" "s < length xs" for s
    using that r'(2) [of s] IH(2) w by auto
  moreover have "fold (\<lambda>m ys. (case src m of None \<Rightarrow> ys
     | Some f \<Rightarrow> writeMember (map (offset_at cs) [0..<length cs] ! m) (slots_for (cs ! m)) f ys)) [0..<Suc n] xs = r'"
    using n by (simp add: q_def r'_def split: option.split)
  ultimately show ?case using r'(1) by simp
qed simp

lemma flattenSlots_nth:
  assumes "slotOffsets cs 0 = (os, totalSlots)" and "m < length cs" and "k < slots_for (cs ! m)"
  shows "flattenSlots os cs src (replicate totalSlots z) ! (os ! m + k) = (case src m of None \<Rightarrow> z | Some f \<Rightarrow> f k)"
    and "length (flattenSlots os cs src (replicate totalSlots z)) = totalSlots" and "os ! m + k < totalSlots"
proof -
  have os: "os = map (offset_at cs) [0..<length cs]" "totalSlots = offset_at cs (length cs)"
    using assms(1) by (simp_all add: slotOffsets_eq offset_at_length)
  have lt: "offset_at cs m + k < totalSlots"
    using offset_before [of m "length cs" cs] assms(2,3) os(2) by simp
  then show "os ! m + k < totalSlots" using os(1) assms(2) by simp
  have l: "length (replicate totalSlots z) = offset_at cs (length cs)" using os(2) by simp
  from flatten_prefix [OF order_refl l, of src] os(1) assms(2,3) lt
  show "flattenSlots os cs src (replicate totalSlots z) ! (os ! m + k) = (case src m of None \<Rightarrow> z | Some f \<Rightarrow> f k)"
    "length (flattenSlots os cs src (replicate totalSlots z)) = totalSlots"
    by (auto simp: flattenSlots_def split: option.split)
qed

section \<open>What the cache holds\<close>

text \<open>The allocations that the slot tables need all succeeded, and the data set has members.\<close>

definition resolves :: "resolve_allocs \<Rightarrow> ied_services \<Rightarrow> string \<Rightarrow> string option list \<Rightarrow> bool" where
  "resolves ra ied ds refs \<longleftrightarrow> is_getDataSetMemberReferences ied ds = Some refs \<and> refs \<noteq> [] \<and> ra_array ra
     \<and> ra_leafRefsArray ra \<and> ra_leafCounts ra \<and> ra_leafOffsets ra \<and> ra_lastForwardedValues ra"

definition member_leaves :: "resolve_allocs \<Rightarrow> ied_services \<Rightarrow> string \<Rightarrow> nat \<Rightarrow> string option list option" where
  "member_leaves ra ied ds m = linkedListToStringArray (ra_memberLeaves ra m) (is_getDataSetMemberLeafReferences ied ds m)"

definition leaf_counts :: "resolve_allocs \<Rightarrow> ied_services \<Rightarrow> string \<Rightarrow> nat \<Rightarrow> nat list" where
  "leaf_counts ra ied ds n = map (\<lambda>m. array_count (member_leaves ra ied ds m)) [0..<n]"

lemma array_count_string:
  "linkedListToStringArray ok l = Some xs \<Longrightarrow> 0 < length xs"
  by (auto simp: linkedListToStringArray_def split: option.splits if_splits)

lemma linkedListToStringArray_hit: "xs \<noteq> [] \<Longrightarrow> linkedListToStringArray True (Some xs) = Some xs"
  by (simp add: linkedListToStringArray_def)

lemma resolve_fields:
  assumes "resolves ra ied ds refs" and "m = resolveMemberReferences ra ied (Some ds)"
    and "cs = leaf_counts ra ied ds (length refs)"
  shows "mc_memberReferences m = Some refs" and "mc_memberCount m = length refs"
    and "mc_memberLeafReferences m = Some (map (member_leaves ra ied ds) [0..<length refs])"
    and "mc_memberLeafCounts m = cs"
    and "mc_leafSlotOffsets m = Some (fst (slotOffsets cs 0))" and "mc_totalLeafSlots m = snd (slotOffsets cs 0)"
    and "mc_lastForwardedValues m = Some (replicate (snd (slotOffsets cs 0)) None)"
    and "mc_categoryFilter m = is_getCategoryFilter ied" and "\<not> mc_everPopulated m"
  using assms
  by (simp_all add: resolves_def resolveMemberReferences_def linkedListToStringArray_hit
      leaf_counts_def member_leaves_def Let_def split_beta)

text \<open>A cache whose tables come from the leaf lists of its members is well laid out.\<close>

lemma layout_from_leaves:
  assumes "mc_memberLeafReferences m = Some (map lr [0..<n])" and "mc_memberLeafCounts m = cs"
    and "cs = map (\<lambda>i. array_count (lr i)) [0..<n]" and "\<And>i xs. lr i = Some xs \<Longrightarrow> 0 < length xs"
    and "mc_memberCount m = n" and "mc_leafSlotOffsets m = Some (fst (slotOffsets cs 0))"
    and "mc_totalLeafSlots m = snd (slotOffsets cs 0)"
  shows "layout_ok m (fst (slotOffsets cs 0))" and "i < n \<Longrightarrow> member_width m i = slots_for (cs ! i)"
proof -
  have l: "length cs = n" by (simp add: assms(3))
  show w: "member_width m i = slots_for (cs ! i)" if "i < n" for i
    using that assms(1-4) by (auto simp: member_width_def array_count_def slots_for_def split: option.split)
  have "1 \<le> slots_for c" for c by (simp add: slots_for_def)
  then show "layout_ok m (fst (slotOffsets cs 0))"
    using assms(5-7) w offset_before [of _ _ cs] offset_before [of _ "length cs" cs] l
    by (simp add: layout_ok_def slotOffsets_eq offset_at_length [symmetric])
qed

lemma resolve_layout:
  assumes "resolves ra ied ds refs" and "m = resolveMemberReferences ra ied (Some ds)"
    and "cs = leaf_counts ra ied ds (length refs)"
  shows "layout_ok m (fst (slotOffsets cs 0))" and "i < length refs \<Longrightarrow> member_width m i = slots_for (cs ! i)"
proof -
  note f = resolve_fields [OF assms]
  have c: "cs = map (\<lambda>i. array_count (member_leaves ra ied ds i)) [0..<length refs]" by (simp add: assms(3) leaf_counts_def)
  have p: "member_leaves ra ied ds i = Some xs \<Longrightarrow> 0 < length xs" for i xs using array_count_string by (simp add: member_leaves_def)
  show "layout_ok m (fst (slotOffsets cs 0))" by (rule layout_from_leaves(1) [OF f(3,4) c p f(2,5,6)])
  show "i < length refs \<Longrightarrow> member_width m i = slots_for (cs ! i)" by (rule layout_from_leaves(2) [OF f(3,4) c p f(2,5,6)])
qed

text \<open>The allocations of the descriptive tables and their sources succeeded too.\<close>

definition describes :: "resolve_allocs \<Rightarrow> bool" where
  "describes ra \<longleftrightarrow> ra_rawSemantics ra \<and> ra_rawCategories ra \<and> ra_rawAlwaysInclude ra \<and> ra_rawDescriptions ra
     \<and> ra_leafDescArray ra \<and> ra_leafDescCounts ra \<and> ra_leafSemArray ra \<and> ra_leafSemCounts ra
     \<and> ra_leafSemantics ra \<and> ra_leafCategories ra \<and> ra_leafAlwaysInclude ra \<and> ra_leafDescriptions ra
     \<and> (\<forall>m. ra_memberSemantics ra m \<and> ra_memberDescriptions ra m)"

text \<open>What the SCL file says of leaf \<open>k\<close> of member \<open>i\<close>, whose leaf count is \<open>c\<close> (0: not decomposed).\<close>

definition scl_semantic :: "ied_services \<Rightarrow> string \<Rightarrow> nat \<Rightarrow> nat \<Rightarrow> nat \<Rightarrow> IedModelDaSemantic" where
  "scl_semantic ied ds c i k =
     (case (if c > 0 then is_getDataSetMemberLeafSemantics ied ds i else is_getDataSetMemberSemantics ied ds) of
        None \<Rightarrow> IED_MODEL_DA_SEMANTIC_NONE
      | Some ys \<Rightarrow> if c > 0 then (if length ys = c then ys ! k else IED_MODEL_DA_SEMANTIC_NONE)
                   else if i < length ys then ys ! i else IED_MODEL_DA_SEMANTIC_NONE)"

definition scl_description :: "ied_services \<Rightarrow> string option \<Rightarrow> nat \<Rightarrow> nat \<Rightarrow> string option" where
  "scl_description ied ref c k =
     (if c > 0 then
        (case is_getLeafDescriptionsForMemberReference ied ref of
           None \<Rightarrow> None | Some ys \<Rightarrow> if length ys = c then ys ! k else None)
      else is_getDescriptionForMemberReference ied ref)"

lemma resolve_tables:
  assumes "resolves ra ied ds refs" and "describes ra" and "m = resolveMemberReferences ra ied (Some ds)"
    and "cs = leaf_counts ra ied ds (length refs)" and "i < length refs" and "k < slots_for (cs ! i)"
    and "slotOffsets cs 0 = (os, n)"
  shows "\<exists>xs. mc_leafSemantics m = Some xs \<and> xs ! (os ! i + k) = scl_semantic ied ds (cs ! i) i k"
    and "\<exists>xs. mc_leafCategories m = Some xs \<and> xs ! (os ! i + k) = is_getCategoryForMemberReference ied (refs ! i)"
    and "\<exists>xs. mc_leafAlwaysInclude m = Some xs \<and> xs ! (os ! i + k) = is_isMemberReferenceAlwaysIncluded ied (refs ! i)"
    and "\<exists>xs. mc_leafDescriptions m = Some xs \<and> xs ! (os ! i + k) = scl_description ied (refs ! i) (cs ! i) k"
proof -
  have l: "i < length cs" using assms(4,5) by (simp add: leaf_counts_def)
  note at = flattenSlots_nth(1) [OF assms(7) l assms(6)]
  have cs: "map (\<lambda>m. array_count (linkedListToStringArray (ra_memberLeaves ra m)
      (is_getDataSetMemberLeafReferences ied ds m))) [0..<length refs] = cs"
    using assms(4) by (simp add: leaf_counts_def member_leaves_def)
  have f: "mc_leafSemantics m = Some (flattenSlots os cs (semanticsOf cs
        (\<lambda>m. linkedListToSemanticArray True (is_getDataSetMemberLeafSemantics ied ds m))
        (linkedListToSemanticArray True (is_getDataSetMemberSemantics ied ds)))
        (replicate n IED_MODEL_DA_SEMANTIC_NONE))"
    "mc_leafCategories m = Some (flattenSlots os cs
        (\<lambda>m. Some (\<lambda>k. is_getCategoryForMemberReference ied (refs ! m))) (replicate n IED_MODEL_LN_CATEGORY_OTHER))"
    "mc_leafAlwaysInclude m = Some (flattenSlots os cs
        (\<lambda>m. Some (\<lambda>k. is_isMemberReferenceAlwaysIncluded ied (refs ! m))) (replicate n False))"
    "mc_leafDescriptions m = Some (flattenSlots os cs (descriptionsOf cs
        (\<lambda>m. linkedListToDescriptionArray True (is_getLeafDescriptionsForMemberReference ied (refs ! m)))
        (Some (map (is_getDescriptionForMemberReference ied) refs))) (replicate n None))"
    using assms(1,2)
    by (simp_all add: assms(3,7) resolveMemberReferences_def linkedListToStringArray_hit Let_def cs resolves_def describes_def)
  have k: "cs ! i = 0 \<Longrightarrow> k = 0" using assms(6) by (simp add: slots_for_def split: if_splits)
  have kl: "0 < cs ! i \<Longrightarrow> k < cs ! i" using assms(6) by (simp add: slots_for_def)
  show "\<exists>xs. mc_leafSemantics m = Some xs \<and> xs ! (os ! i + k) = scl_semantic ied ds (cs ! i) i k"
    using k kl
    by (simp add: f at semanticsOf_def scl_semantic_def linkedListToSemanticArray_def split: option.split)
  show "\<exists>xs. mc_leafCategories m = Some xs \<and> xs ! (os ! i + k) = is_getCategoryForMemberReference ied (refs ! i)"
    by (simp add: f at)
  show "\<exists>xs. mc_leafAlwaysInclude m = Some xs \<and> xs ! (os ! i + k) = is_isMemberReferenceAlwaysIncluded ied (refs ! i)"
    by (simp add: f at)
  show "\<exists>xs. mc_leafDescriptions m = Some xs \<and> xs ! (os ! i + k) = scl_description ied (refs ! i) (cs ! i) k"
    using assms(5) k kl
    by (simp add: f at descriptionsOf_def scl_description_def linkedListToDescriptionArray_def split: option.split)
qed

text \<open>The slot tables describe the leaves they stand for: when memory is available, the cache built
  at subscription start gives every member its own consecutive slots, the slots fill the tables
  without gap, and the category, exemption, semantic and description read back for leaf \<open>k\<close> of
  member \<open>i\<close> are those the device model declares for that leaf.\<close>

theorem resolve_slots_exact:
  assumes "resolves ra ied ds refs" and "describes ra" and "m = resolveMemberReferences ra ied (Some ds)"
  shows "\<exists>os. layout_ok m os
    \<and> (\<forall>s < mc_totalLeafSlots m. \<exists>i < length refs. \<exists>k < member_width m i. s = os ! i + k)
    \<and> (\<forall>i < length refs. \<forall>k < member_width m i.
         lookupCategoryForSlot (Some m) (Some (os ! i + k)) = is_getCategoryForMemberReference ied (refs ! i)
       \<and> lookupAlwaysIncludeForSlot (Some m) (Some (os ! i + k)) = is_isMemberReferenceAlwaysIncluded ied (refs ! i)
       \<and> lookupSemanticForSlot (Some m) (Some (os ! i + k)) = scl_semantic ied ds (mc_memberLeafCounts m ! i) i k
       \<and> lookupDescriptionForSlot (Some m) (Some (os ! i + k)) = scl_description ied (refs ! i) (mc_memberLeafCounts m ! i) k)"
proof -
  define cs where "cs = leaf_counts ra ied ds (length refs)"
  obtain os n where on: "slotOffsets cs 0 = (os, n)" by fastforce
  note f = resolve_fields [OF assms(1,3) cs_def] and lay = resolve_layout [OF assms(1,3) cs_def]
  have l: "length cs = length refs" by (simp add: cs_def leaf_counts_def)
  have os: "os = map (offset_at cs) [0..<length cs]" and n: "n = offset_at cs (length cs)"
    using on by (simp_all add: slotOffsets_eq offset_at_length)
  have tot: "mc_totalLeafSlots m = n" using f(6) on by simp
  have "\<exists>i < length refs. \<exists>k < member_width m i. s = os ! i + k" if "s < mc_totalLeafSlots m" for s
    using slot_member [of s cs "length cs"] that tot n os l lay(2) by (metis add_0 nth_map_upt order_refl diff_zero)
  moreover have "lookupCategoryForSlot (Some m) (Some (os ! i + k)) = is_getCategoryForMemberReference ied (refs ! i)
       \<and> lookupAlwaysIncludeForSlot (Some m) (Some (os ! i + k)) = is_isMemberReferenceAlwaysIncluded ied (refs ! i)
       \<and> lookupSemanticForSlot (Some m) (Some (os ! i + k)) = scl_semantic ied ds (mc_memberLeafCounts m ! i) i k
       \<and> lookupDescriptionForSlot (Some m) (Some (os ! i + k)) = scl_description ied (refs ! i) (mc_memberLeafCounts m ! i) k"
    if "i < length refs" and "k < member_width m i" for i k
  proof -
    have k: "k < slots_for (cs ! i)" using that lay(2) by simp
    have b: "os ! i + k < mc_totalLeafSlots m" using flattenSlots_nth(3) [OF on _ k] that(1) l tot by simp
    note t = resolve_tables [OF assms cs_def that(1) k on]
    show ?thesis
      using t b f(4)
      by (auto simp: lookupCategoryForSlot_def lookupAlwaysIncludeForSlot_def lookupSemanticForSlot_def
          lookupDescriptionForSlot_def)
  qed
  moreover have "layout_ok m os" using lay(1) on by simp
  ultimately show ?thesis by blast
qed

text \<open>A switch position with two leaves beside a plain counter.\<close>

definition demo_ied :: ied_services where
  "demo_ied = \<lparr>is_getCategoryFilter = 0,
     is_getDataSetMemberReferences = (\<lambda>ds. Some [Some ''XCBR1$ST$Pos'', Some ''GGIO1$ST$Cnt$stVal'']),
     is_getDataSetMemberSemantics = (\<lambda>ds. Some [IED_MODEL_DA_SEMANTIC_NONE, IED_MODEL_DA_SEMANTIC_NONE]),
     is_getDataSetMemberLeafReferences = (\<lambda>ds i. if i = 0 then Some [Some ''XCBR1$ST$Pos$stVal'', Some ''XCBR1$ST$Pos$q''] else None),
     is_getDataSetMemberLeafWireTypes = (\<lambda>ds i. None),
     is_getDataSetMemberLeafSemantics = (\<lambda>ds i. if i = 0 then Some [IED_MODEL_DA_SEMANTIC_DBPOS, IED_MODEL_DA_SEMANTIC_NONE] else None),
     is_getCategoryForMemberReference = (\<lambda>r. IED_MODEL_LN_CATEGORY_OTHER),
     is_isMemberReferenceAlwaysIncluded = (\<lambda>r. False),
     is_getDescriptionForMemberReference = (\<lambda>r. Some ''counter''),
     is_getLeafDescriptionsForMemberReference = (\<lambda>r. None)\<rparr>"

definition demo_resolve_ok :: resolve_allocs where
  "demo_resolve_ok = \<lparr>ra_array = True, ra_rawSemantics = True, ra_rawCategories = True, ra_rawAlwaysInclude = True,
     ra_rawDescriptions = True, ra_leafDescArray = True, ra_leafDescCounts = True, ra_leafRefsArray = True,
     ra_leafCounts = True, ra_leafOffsets = True, ra_leafWireTypesArray = True, ra_leafSemArray = True,
     ra_leafSemCounts = True, ra_lastForwardedValues = True, ra_leafSemantics = True, ra_leafCategories = True,
     ra_leafAlwaysInclude = True, ra_leafDescriptions = True, ra_memberLeaves = (\<lambda>m. True),
     ra_memberWireTypes = (\<lambda>m. True), ra_memberSemantics = (\<lambda>m. True), ra_memberDescriptions = (\<lambda>m. True)\<rparr>"

lemma demo_resolves:
  "resolves demo_resolve_ok demo_ied ds [Some ''XCBR1$ST$Pos'', Some ''GGIO1$ST$Cnt$stVal'']" "describes demo_resolve_ok"
  by (simp_all add: resolves_def describes_def demo_resolve_ok_def demo_ied_def)

lemma demo_counts: "leaf_counts demo_resolve_ok demo_ied ds 2 = [2, 0]"
  by (simp add: leaf_counts_def member_leaves_def linkedListToStringArray_def array_count_def demo_resolve_ok_def
      demo_ied_def upt_rec)

lemma resolve_slots_exact_witness:
  "lookupSemanticForSlot (Some (resolveMemberReferences demo_resolve_ok demo_ied (Some ''D'') :: demo_value GooseSubscriberMemberRefCache))
     (Some 0) = IED_MODEL_DA_SEMANTIC_DBPOS"
proof -
  define m :: "demo_value GooseSubscriberMemberRefCache" where
    "m = resolveMemberReferences demo_resolve_ok demo_ied (Some ''D'')"
  define refs where "refs = [Some ''XCBR1$ST$Pos'', Some ''GGIO1$ST$Cnt$stVal'']"
  have cs: "[2, 0] = leaf_counts demo_resolve_ok demo_ied ''D'' (length refs)" using demo_counts by (simp add: refs_def numeral_2_eq_2)
  note f = resolve_fields [OF demo_resolves(1) [of "''D''", folded refs_def] m_def cs]
    and l = resolve_layout [OF demo_resolves(1) [of "''D''", folded refs_def] m_def cs]
  from resolve_slots_exact [OF demo_resolves(1) [of "''D''", folded refs_def] demo_resolves(2) m_def]
  obtain os where o: "layout_ok m os" "\<forall>i < length refs. \<forall>k < member_width m i.
      lookupSemanticForSlot (Some m) (Some (os ! i + k)) = scl_semantic demo_ied ''D'' (mc_memberLeafCounts m ! i) i k" by blast
  have "os ! 0 = 0" using o(1) f(5) by (auto simp: layout_ok_def slots_for_def)
  moreover have "0 < member_width m 0" "0 < length refs" using l(2) [of 0] by (simp_all add: refs_def)
  ultimately have "lookupSemanticForSlot (Some m) (Some 0) = scl_semantic demo_ied ''D'' 2 0 0"
    using o(2) f(4) by fastforce
  then show ?thesis by (simp add: m_def scl_semantic_def demo_ied_def)
qed

end
