(* ===== verification/Goose_Session.thy ===== *)
theory Goose_Session
  imports Goose_Cache
begin

text \<open>
  The running GOOSE subscription: \<open>goose_subscriber/data/goose_subscriber_frame_adapter.c\<close> (the
  reception callback), \<open>goose_subscriber/data/goose_subscriber_connection.c\<close> (the receiver and
  the liveness thread) and the life cycle of \<open>goose_subscriber/service/goose_subscriber_api.c\<close>.

  A \<open>GooseSubscriber\<close> of libiec61850 is a number; what its accessors return when a frame
  arrives is the record \<open>goose_frame\<close>, and what they return to the liveness thread are function
  arguments. The clock is an argument of each step. What the two callbacks receive is the list
  of outputs of a step. Log lines have no model.
\<close>

section \<open>State\<close>

datatype GooseSubscriberError =
    GOOSE_SUBSCRIBER_OK
  | GOOSE_SUBSCRIBER_ERR_INVALID_ARGUMENT
  | GOOSE_SUBSCRIBER_ERR_OUT_OF_MEMORY
  | GOOSE_SUBSCRIBER_ERR_THREAD_CREATE_FAILED
  | GOOSE_SUBSCRIBER_ERR_NO_TARGETS
  | GOOSE_SUBSCRIBER_ERR_RECEIVER_START_FAILED

record GooseSubscriptionTarget =
  gt_objectReference :: string
  gt_datasetReference :: "string option"
  gt_hasAddress :: bool
  gt_vlanId :: u16
  gt_vlanPriority :: u8
  gt_appId :: u16
  gt_dstMac :: "u8 list"

record 'v GooseSubscriberTargetEntry =
  te_target :: GooseSubscriptionTarget
  te_memberRefCache :: "'v GooseSubscriberMemberRefCache"
  te_rawSubscriber :: "nat option"
  te_lastKnownValid :: bool
  te_lastValidAtMs :: u64
  te_hasForwardedStNum :: bool
  te_lastForwardedStNum :: u32

text \<open>A subscriber attached to the receiver: its identity, reference and address filter.\<close>

record goose_sub =
  gs_id :: nat
  gs_goCbRef :: string
  gs_filter :: "(u8 list \<times> u16) option"

record 'v goose_handle =
  gh_interfaceId :: "string option"
  gh_livenessPollMs :: u32
  gh_receiver :: "goose_sub list option"
  gh_receiving :: bool \<comment> \<open>state of the library's reception thread\<close>
  gh_targetEntries :: "'v GooseSubscriberTargetEntry list"
  gh_recordCallback :: bool
  gh_statusCallback :: bool
  gh_stopRequested :: bool
  gh_livenessExited :: bool
  gh_livenessThread :: bool
  gh_effectivePollMs :: u32
  gh_targetStateLock :: bool
  gh_running :: bool

record 'v goose_frame =
  gf_isValid :: bool
  gf_header :: "'v GooseSubscriberRecord"
  gf_dataSetValues :: "'v option"

datatype 'v goose_out =
    Status_Out string GooseSubscriberStatus nat \<comment> \<open>reference, status, parse error (0: none)\<close>
  | Record_Out "'v GooseSubscriberRecord"

section \<open>Reception\<close>

definition findTargetEntry :: "'v goose_handle \<Rightarrow> nat \<Rightarrow> nat option" where
  "findTargetEntry h subscriber = find_index (\<lambda>e. te_rawSubscriber e = Some subscriber) (gh_targetEntries h)"

definition with_entry :: "'v goose_handle \<Rightarrow> nat \<Rightarrow> 'v GooseSubscriberTargetEntry \<Rightarrow> 'v goose_handle" where
  "with_entry h i e = h\<lparr>gh_targetEntries := (gh_targetEntries h)[i := e]\<rparr>"

text \<open>The first half of the callback: the target is fresh, and the transition it makes.\<close>

definition markValid :: "u64 \<Rightarrow> nat \<Rightarrow> 'v goose_handle \<Rightarrow> 'v goose_handle \<times> 'v goose_out list" where
  "markValid nowMs i h =
     (let entry = gh_targetEntries h ! i;
          entry1 = entry\<lparr>te_lastKnownValid := True, te_lastValidAtMs := nowMs\<rparr>
      in case GooseSubscriberUseCases_detectStatusTransition (te_lastKnownValid entry) True of
           None \<Rightarrow> (with_entry h i entry1, [])
         | Some status \<Rightarrow>
             (with_entry h i (entry1\<lparr>te_hasForwardedStNum := False\<rparr>),
              if gh_statusCallback h then [Status_Out (gt_objectReference (te_target entry)) status 0] else []))"

text \<open>The second half: the record, over the cache of the target if there is one.\<close>

definition forwardFrame :: "'v mms_lib \<Rightarrow> bool \<Rightarrow> build_allocs \<Rightarrow> nat \<Rightarrow> nat option \<Rightarrow> 'v goose_frame
    \<Rightarrow> 'v goose_handle \<Rightarrow> ('v goose_handle \<times> 'v goose_out list) option" where
  "forwardFrame L okRecord ok fuel idx fr h =
     (let stNum = gr_stNum (gf_header fr);
          duplicate = (case idx of None \<Rightarrow> False
            | Some i \<Rightarrow> GooseSubscriberUseCases_isDuplicateStNum (te_hasForwardedStNum (gh_targetEntries h ! i))
                         (te_lastForwardedStNum (gh_targetEntries h ! i)) stNum);
          entryCount = (case gf_dataSetValues fr of None \<Rightarrow> 0 | Some v \<Rightarrow> int (ml_getArraySize L v));
          cache = map_option (\<lambda>i. te_memberRefCache (gh_targetEntries h ! i)) idx
      in if duplicate then Some (h, [])
         else case GooseSubscriberUseCases_buildRecord L okRecord ok fuel (gf_header fr) (gf_dataSetValues fr) cache entryCount of
           None \<Rightarrow> None
         | Some (rec, cache') \<Rightarrow>
             let put = (\<lambda>f. case idx of None \<Rightarrow> h
                              | Some i \<Rightarrow> with_entry h i (f ((gh_targetEntries h ! i)\<lparr>te_memberRefCache := the cache'\<rparr>)))
             in case rec of
                  None \<Rightarrow> Some (put id, [])
                | Some r \<Rightarrow> Some (put (\<lambda>e. e\<lparr>te_hasForwardedStNum := True, te_lastForwardedStNum := stNum\<rparr>),
                                  if gr_entries r \<noteq> [] then [Record_Out r] else []))"

definition GooseSubscriberFrameAdapter_onGooseReceived ::
    "'v mms_lib \<Rightarrow> bool \<Rightarrow> build_allocs \<Rightarrow> nat \<Rightarrow> u64 \<Rightarrow> nat \<Rightarrow> 'v goose_frame
     \<Rightarrow> 'v goose_handle \<Rightarrow> ('v goose_handle \<times> 'v goose_out list) option" where
  "GooseSubscriberFrameAdapter_onGooseReceived L okRecord ok fuel nowMs subscriber fr h =
     (if \<not> gf_isValid fr then Some (h, [])
      else
        let idx = findTargetEntry h subscriber;
            (h1, outs1) = (case idx of None \<Rightarrow> (h, []) | Some i \<Rightarrow> markValid nowMs i h)
        in if \<not> gh_recordCallback h1 then Some (h1, outs1)
           else map_option (\<lambda>(h2, outs2). (h2, outs1 @ outs2)) (forwardFrame L okRecord ok fuel idx fr h1))"

section \<open>Liveness\<close>

text \<open>
  The body of the liveness loop for target \<open>i\<close>. \<open>nowMs\<close> was read at the start of the pass,
  before the lock is taken; the subtraction is one of \<open>uint64_t\<close>.
\<close>

definition isStale :: "u64 \<Rightarrow> u32 \<Rightarrow> 'v GooseSubscriberTargetEntry \<Rightarrow> bool" where
  "isStale nowMs tal e \<longleftrightarrow> te_lastKnownValid e \<and> te_lastValidAtMs e \<noteq> 0 \<and> tal > 0
     \<and> nowMs - te_lastValidAtMs e > ucast tal"

definition livenessCheck :: "(nat option \<Rightarrow> u32) \<Rightarrow> (nat option \<Rightarrow> nat) \<Rightarrow> u64 \<Rightarrow> nat
    \<Rightarrow> 'v goose_handle \<Rightarrow> 'v goose_handle \<times> 'v goose_out list" where
  "livenessCheck talOf parseErrorOf nowMs i h =
     (let entry = gh_targetEntries h ! i;
          parseError = parseErrorOf (te_rawSubscriber entry)
      in if isStale nowMs (talOf (te_rawSubscriber entry)) entry then
           (with_entry h i (entry\<lparr>te_lastKnownValid := False\<rparr>),
            if gh_statusCallback h
            then [Status_Out (gt_objectReference (te_target entry))
                    (if parseError = 0 then GOOSE_SUBSCRIBER_STATUS_STALE else GOOSE_SUBSCRIBER_STATUS_INVALID_STATE) parseError]
            else [])
         else (h, []))"

definition computeMinObservedTalMs :: "(nat option \<Rightarrow> u32) \<Rightarrow> 'v goose_handle \<Rightarrow> int" where
  "computeMinObservedTalMs talOf h = fold (\<lambda>e minTal.
     (let tal = talOf (te_rawSubscriber e)
      in if tal = 0 then minTal else if minTal < 0 \<or> sint tal < minTal then sint tal else minTal)) (gh_targetEntries h) (- 1)"

text \<open>One pass of the loop over all targets, and the poll interval it leaves.\<close>

definition livenessPass :: "(nat option \<Rightarrow> u32) \<Rightarrow> (nat option \<Rightarrow> nat) \<Rightarrow> u64
    \<Rightarrow> 'v goose_handle \<Rightarrow> 'v goose_handle \<times> 'v goose_out list" where
  "livenessPass talOf parseErrorOf nowMs h =
     (let (h1, outs) = fold (\<lambda>i (g, os). let (g', os') = livenessCheck talOf parseErrorOf nowMs i g in (g', os @ os'))
                         [0..<length (gh_targetEntries h)] (h, [])
      in (h1\<lparr>gh_effectivePollMs := GooseSubscriberUseCases_computeLivenessPollIntervalMs (gh_livenessPollMs h1)
               (computeMinObservedTalMs talOf h1)\<rparr>, outs))"

text \<open>
  The chunks slept; \<open>stop n\<close> is what the \<open>n\<close>-th test of \<open>stopRequested\<close> reads.
\<close>

function interruptibleSleep :: "(nat \<Rightarrow> bool) \<Rightarrow> nat \<Rightarrow> u32 \<Rightarrow> u32 \<Rightarrow> u32 list" where
  "interruptibleSleep stop n totalMs slept =
     (if slept < totalMs \<and> \<not> stop n then
        let thisChunk = (if totalMs - slept < 20 then totalMs - slept else 20)
        in thisChunk # interruptibleSleep stop (Suc n) totalMs (slept + thisChunk)
      else [])"
  by pat_completeness auto

lemma chunk_progress:
  assumes "slept < (totalMs :: u32)" and "c = (if totalMs - slept < 20 then totalMs - slept else 20)"
  shows "unat (slept + c) = unat slept + unat c" and "0 < unat c" and "unat slept + unat c \<le> unat totalMs" and "unat c \<le> 20"
proof -
  have d: "unat (totalMs - slept) = unat totalMs - unat slept" and lt: "unat slept < unat totalMs"
    using assms(1) by (simp_all add: unat_sub less_imp_le word_less_nat_alt)
  have c: "unat c = (if unat totalMs - unat slept < 20 then unat totalMs - unat slept else 20)"
    using d assms(2) by (simp add: word_less_nat_alt)
  with lt show b: "0 < unat c" "unat slept + unat c \<le> unat totalMs" "unat c \<le> 20" by auto
  have "unat totalMs < 2 ^ 32" using unsigned_less [of totalMs, where ?'a = nat] by simp
  with b(2) show "unat (slept + c) = unat slept + unat c" by (intro unat_add_lem [THEN iffD1]) simp
qed

termination interruptibleSleep
proof (relation "measure (\<lambda>(stop, n, totalMs, slept). unat totalMs - unat slept)")
  fix stop :: "nat \<Rightarrow> bool" and n :: nat and totalMs slept x :: u32
  assume "slept < totalMs \<and> \<not> stop n" and "x = (if totalMs - slept < 20 then totalMs - slept else 20)"
  from chunk_progress [OF conjunct1 [OF this(1)] this(2)]
  show "((stop, Suc n, totalMs, slept + x), stop, n, totalMs, slept)
      \<in> measure (\<lambda>(stop, n, totalMs, slept). unat totalMs - unat slept)" by simp
qed simp

declare interruptibleSleep.simps [simp del]

section \<open>Connection\<close>

text \<open>The loop that makes a subscriber per target; \<open>newSub i\<close> is \<open>None\<close> when the library fails.\<close>

fun createSubscribers :: "(nat \<Rightarrow> nat option) \<Rightarrow> nat \<Rightarrow> 'v GooseSubscriberTargetEntry list
    \<Rightarrow> bool \<times> 'v GooseSubscriberTargetEntry list \<times> goose_sub list" where
  "createSubscribers newSub i [] = (True, [], [])"
| "createSubscribers newSub i (e # es) =
     (case newSub i of
        None \<Rightarrow> (False, e # es, [])
      | Some sub \<Rightarrow>
          let (ok, es', subs) = createSubscribers newSub (Suc i) es
          in (ok, e\<lparr>te_rawSubscriber := Some sub, te_lastKnownValid := False, te_lastValidAtMs := 0,
                    te_hasForwardedStNum := False, te_lastForwardedStNum := 0\<rparr> # es',
              \<lparr>gs_id = sub, gs_goCbRef = gt_objectReference (te_target e),
               gs_filter = (if gt_hasAddress (te_target e) then Some (gt_dstMac (te_target e), gt_appId (te_target e)) else None)\<rparr> # subs))"

definition GooseSubscriberConnection_create :: "bool \<Rightarrow> bool \<Rightarrow> (nat \<Rightarrow> nat option) \<Rightarrow> 'v goose_handle
    \<Rightarrow> GooseSubscriberError \<times> 'v goose_handle" where
  "GooseSubscriberConnection_create okReceiver okLock newSub h =
     (if \<not> okReceiver then (GOOSE_SUBSCRIBER_ERR_OUT_OF_MEMORY, h\<lparr>gh_receiver := None\<rparr>)
      else if \<not> okLock then
        (GOOSE_SUBSCRIBER_ERR_OUT_OF_MEMORY, h\<lparr>gh_receiver := None, gh_targetStateLock := False\<rparr>)
      else
        let (ok, es, subs) = createSubscribers newSub 0 (gh_targetEntries h)
        in (if ok then GOOSE_SUBSCRIBER_OK else GOOSE_SUBSCRIBER_ERR_OUT_OF_MEMORY,
            h\<lparr>gh_receiver := Some subs, gh_targetStateLock := True, gh_targetEntries := es\<rparr>))"

text \<open>\<open>runs\<close>: the receiver is running after \<open>GooseReceiver_start\<close>.\<close>

definition GooseSubscriberConnection_start :: "bool \<Rightarrow> bool \<Rightarrow> (nat option \<Rightarrow> u32) \<Rightarrow> 'v goose_handle
    \<Rightarrow> GooseSubscriberError \<times> 'v goose_handle" where
  "GooseSubscriberConnection_start runs okThread talOf h =
     (if \<not> runs then (GOOSE_SUBSCRIBER_ERR_RECEIVER_START_FAILED, h)
      else
        let h1 = h\<lparr>gh_receiving := True, gh_stopRequested := False, gh_livenessExited := False,
                   gh_effectivePollMs := GooseSubscriberUseCases_computeLivenessPollIntervalMs (gh_livenessPollMs h)
                     (computeMinObservedTalMs talOf h),
                   gh_livenessThread := okThread\<rparr>
        in if \<not> okThread then (GOOSE_SUBSCRIBER_ERR_THREAD_CREATE_FAILED, h1\<lparr>gh_receiving := False\<rparr>)
           else (GOOSE_SUBSCRIBER_OK, h1))"

text \<open>
  The wait for \<open>livenessExited\<close> ends when the liveness thread has read \<open>stopRequested\<close>, which it
  does after every chunk of its sleep; the state is the one after that wait.
\<close>

definition GooseSubscriberConnection_stop :: "'v goose_handle option \<Rightarrow> 'v goose_handle option" where
  "GooseSubscriberConnection_stop handle =
     (case handle of
        None \<Rightarrow> None
      | Some h \<Rightarrow>
          if gh_stopRequested h then handle
          else Some (h\<lparr>gh_stopRequested := True, gh_livenessExited := (gh_livenessThread h \<or> gh_livenessExited h),
                       gh_receiving := (gh_receiving h \<and> gh_receiver h = None)\<rparr>))"

definition GooseSubscriberConnection_destroy :: "'v goose_handle \<Rightarrow> 'v goose_handle" where
  "GooseSubscriberConnection_destroy h =
     h\<lparr>gh_livenessThread := False, gh_receiver := None, gh_receiving := (gh_receiving h \<and> gh_receiver h = None),
       gh_targetStateLock := False\<rparr>"

section \<open>Service\<close>

definition freeTargetEntries :: "'v goose_handle \<Rightarrow> 'v goose_handle" where
  "freeTargetEntries h = h\<lparr>gh_targetEntries := []\<rparr>"

definition GooseSubscriberConfig_defaults :: u32 where
  "GooseSubscriberConfig_defaults = 0"

text \<open>\<open>config\<close> is the poll interval of the optional configuration.\<close>

definition GooseSubscription_create :: "bool \<Rightarrow> bool \<Rightarrow> bool \<Rightarrow> string option \<Rightarrow> u32 option
    \<Rightarrow> GooseSubscriberError + 'v goose_handle" where
  "GooseSubscription_create okHandle okDup iedModel interfaceId config =
     (if \<not> iedModel \<or> interfaceId = None \<or> interfaceId = Some [] then Inl GOOSE_SUBSCRIBER_ERR_INVALID_ARGUMENT
      else if \<not> okHandle then Inl GOOSE_SUBSCRIBER_ERR_OUT_OF_MEMORY
      else Inr \<lparr>gh_interfaceId = (if okDup then interfaceId else None),
                gh_livenessPollMs = (case config of None \<Rightarrow> GooseSubscriberConfig_defaults | Some c \<Rightarrow> c),
                gh_receiver = None, gh_receiving = False, gh_targetEntries = [], gh_recordCallback = False,
                gh_statusCallback = False, gh_stopRequested = False, gh_livenessExited = False,
                gh_livenessThread = False, gh_effectivePollMs = 0, gh_targetStateLock = False, gh_running = False\<rparr>)"

definition GooseSubscription_setRecordCallback :: "'v goose_handle option \<Rightarrow> bool \<Rightarrow> 'v goose_handle option" where
  "GooseSubscription_setRecordCallback handle callback = map_option (\<lambda>h. h\<lparr>gh_recordCallback := callback\<rparr>) handle"

definition GooseSubscription_setStatusCallback :: "'v goose_handle option \<Rightarrow> bool \<Rightarrow> 'v goose_handle option" where
  "GooseSubscription_setStatusCallback handle callback = map_option (\<lambda>h. h\<lparr>gh_statusCallback := callback\<rparr>) handle"

text \<open>What the environment answers during a start.\<close>

record start_env =
  se_okEntries :: bool
  se_resolve :: "nat \<Rightarrow> resolve_allocs"
  se_okReceiver :: bool
  se_okLock :: bool
  se_newSub :: "nat \<Rightarrow> nat option"
  se_runs :: bool
  se_okThread :: bool
  se_talOf :: "nat option \<Rightarrow> u32"

definition newEntry :: "start_env \<Rightarrow> ied_services \<Rightarrow> nat \<Rightarrow> GooseSubscriptionTarget \<Rightarrow> 'v GooseSubscriberTargetEntry" where
  "newEntry env ied i t = \<lparr>te_target = t, te_memberRefCache = resolveMemberReferences (se_resolve env i) ied (gt_datasetReference t),
     te_rawSubscriber = None, te_lastKnownValid = False, te_lastValidAtMs = 0, te_hasForwardedStNum = False,
     te_lastForwardedStNum = 0\<rparr>"

definition newEntries :: "start_env \<Rightarrow> ied_services \<Rightarrow> GooseSubscriptionTarget list \<Rightarrow> 'v GooseSubscriberTargetEntry list" where
  "newEntries env ied targets = map (\<lambda>i. newEntry env ied i (targets ! i)) [0..<length targets]"

definition GooseSubscription_start :: "start_env \<Rightarrow> ied_services \<Rightarrow> GooseSubscriptionTarget list option
    \<Rightarrow> 'v goose_handle option \<Rightarrow> GooseSubscriberError \<times> 'v goose_handle option" where
  "GooseSubscription_start env ied targets handle =
     (case handle of
        None \<Rightarrow> (GOOSE_SUBSCRIBER_ERR_INVALID_ARGUMENT, None)
      | Some h \<Rightarrow>
          if gh_running h then (GOOSE_SUBSCRIBER_OK, handle)
          else case targets of
            None \<Rightarrow> (GOOSE_SUBSCRIBER_ERR_NO_TARGETS, handle)
          | Some ts \<Rightarrow>
              if ts = [] then (GOOSE_SUBSCRIBER_ERR_NO_TARGETS, handle)
              else if \<not> se_okEntries env then (GOOSE_SUBSCRIBER_ERR_OUT_OF_MEMORY, handle)
              else
                let h1 = h\<lparr>gh_targetEntries := newEntries env ied ts\<rparr>;
                    (err, h2) = GooseSubscriberConnection_create (se_okReceiver env) (se_okLock env) (se_newSub env) h1
                in if err \<noteq> GOOSE_SUBSCRIBER_OK then
                     (err, Some (freeTargetEntries (GooseSubscriberConnection_destroy h2)))
                   else
                     let (err2, h3) = GooseSubscriberConnection_start (se_runs env) (se_okThread env) (se_talOf env) h2
                     in if err2 \<noteq> GOOSE_SUBSCRIBER_OK then
                          (err2, Some (freeTargetEntries (GooseSubscriberConnection_destroy h3)))
                        else (GOOSE_SUBSCRIBER_OK, Some (h3\<lparr>gh_running := True\<rparr>)))"

definition GooseSubscription_stop :: "'v goose_handle option \<Rightarrow> 'v goose_handle option" where
  "GooseSubscription_stop handle =
     (case handle of
        None \<Rightarrow> None
      | Some h \<Rightarrow> map_option (\<lambda>g. g\<lparr>gh_running := False\<rparr>) (GooseSubscriberConnection_stop (Some h)))"

text \<open>The state in which the handle is freed.\<close>

definition GooseSubscription_destroy :: "'v goose_handle option \<Rightarrow> 'v goose_handle option" where
  "GooseSubscription_destroy handle =
     (case handle of
        None \<Rightarrow> None
      | Some h \<Rightarrow> map_option (\<lambda>g. freeTargetEntries (GooseSubscriberConnection_destroy g))
                    (GooseSubscriberConnection_stop (Some h)))"

section \<open>Frames only move the cached values\<close>

text \<open>A cache after some frames: other values in the same number of slots.\<close>

definition evolves :: "'v GooseSubscriberMemberRefCache \<Rightarrow> 'v GooseSubscriberMemberRefCache \<Rightarrow> bool" where
  "evolves m m' \<longleftrightarrow> (\<exists>vs b. m' = m\<lparr>mc_lastForwardedValues := vs, mc_everPopulated := b\<rparr>
     \<and> map_option length vs = map_option length (mc_lastForwardedValues m))"

lemma evolvesI:
  "map_option length vs = map_option length (mc_lastForwardedValues m) \<Longrightarrow>
     evolves m (m\<lparr>mc_lastForwardedValues := vs, mc_everPopulated := b\<rparr>)"
  unfolding evolves_def by blast

lemma evolvesE:
  assumes "evolves m m'"
  obtains vs b where "m' = m\<lparr>mc_lastForwardedValues := vs, mc_everPopulated := b\<rparr>"
    "map_option length vs = map_option length (mc_lastForwardedValues m)"
  using assms unfolding evolves_def by blast

lemma evolves_refl [simp]: "evolves m m"
  using evolvesI [of "mc_lastForwardedValues m" m "mc_everPopulated m"] by simp

lemma evolves_trans [trans]: "evolves a b \<Longrightarrow> evolves b c \<Longrightarrow> evolves a c"
  by (auto elim!: evolvesE intro!: evolvesI)

lemma evolves_values:
  "map_option length vs = map_option length (mc_lastForwardedValues m) \<Longrightarrow> evolves m (m\<lparr>mc_lastForwardedValues := vs\<rparr>)"
  using evolvesI [of vs m "mc_everPopulated m"] by simp

lemma evolves_populated: "evolves m m' \<Longrightarrow> evolves m (m'\<lparr>mc_everPopulated := b\<rparr>)"
  by (auto elim!: evolvesE intro!: evolvesI)

text \<open>Slots are only given out when there are values to look up.\<close>

definition cache_safe :: "'v GooseSubscriberMemberRefCache \<Rightarrow> bool" where
  "cache_safe m \<longleftrightarrow> mc_leafSlotOffsets m = None
     \<or> (\<exists>os vs. layout_ok m os \<and> mc_lastForwardedValues m = Some vs \<and> length vs = mc_totalLeafSlots m)"

lemma cache_safe_evolves: "cache_safe m \<Longrightarrow> evolves m m' \<Longrightarrow> cache_safe m'"
  by (auto simp: cache_safe_def evolves_def layout_frame)

definition slot_backed :: "'v GooseSubscriberMemberRefCache \<Rightarrow> 'v EntryCandidate \<Rightarrow> bool" where
  "slot_backed m c \<longleftrightarrow> ec_slot c = None \<or> mc_lastForwardedValues m \<noteq> None"

lemma update_evolves:
  "\<exists>m'. updateValueDiffCache (Some m) slot v = Some m' \<and> evolves m m'"
  by (cases slot; cases "mc_lastForwardedValues m") (auto simp: updateValueDiffCache_def intro: evolves_values)

lemma shouldForward_evolves:
  assumes "slot = None \<or> mc_lastForwardedValues m \<noteq> None"
  shows "\<exists>f prev m'. shouldForwardAndUpdateCache L (Some m) slot v = Some (f, prev, Some m') \<and> evolves m m'"
  using assms update_evolves [of m slot v]
  by (cases slot) (auto simp: shouldForwardAndUpdateCache_def Let_def)

lemma decideEach_evolves:
  "\<forall>c \<in> set cs. slot_backed m c \<Longrightarrow>
     \<exists>fs cs' m'. decideEach L (Some m) cs = Some (fs, cs', Some m') \<and> evolves m m'"
proof (induction cs arbitrary: m)
  case (Cons c cs)
  then obtain f prev m1 where s: "shouldForwardAndUpdateCache L (Some m) (ec_slot c) (ec_value c) = Some (f, prev, Some m1)"
    and e: "evolves m m1"
    using shouldForward_evolves [of "ec_slot c" m L "ec_value c"] by (auto simp: slot_backed_def)
  have "\<forall>c \<in> set cs. slot_backed m1 c" using Cons.prems e by (auto simp: slot_backed_def evolves_def)
  from Cons.IH [OF this] s evolves_trans [OF e] show ?case by fastforce
qed simp

lemma emitEntries_evolves: "\<exists>es m'. emitEntries (Some m) cfs = (es, Some m') \<and> evolves m m'"
proof (induction cfs arbitrary: m)
  case (Cons cf cfs)
  obtain c f where cf: "cf = (c, f)" by fastforce
  obtain m1 where u: "updateValueDiffCache (Some m) (ec_slot c) (ec_value c) = Some m1" "evolves m m1"
    using update_evolves by blast
  from Cons.IH [of m1] Cons.IH [of m] u evolves_trans [OF u(2)] show ?case
    by (cases f) (fastforce simp: cf split: prod.split)+
qed simp

lemma collect_backed:
  assumes "cache_safe m" and "c \<in> set (collectCandidates L r fuel d (Some m) n)"
  shows "slot_backed m c"
proof (cases "mc_leafSlotOffsets m")
  case None
  obtain i where "c \<in> set (memberCandidates L r fuel (Some m) i (case d of None \<Rightarrow> None | Some v \<Rightarrow> ml_getElement L v i))"
    using assms(2) by (auto simp: collectCandidates_def)
  then have "ec_slot c = None"
    using None by (auto simp: memberCandidates_def Let_def split: option.splits if_splits dest!: candidateFor_slot)
  then show ?thesis by (simp add: slot_backed_def)
next
  case (Some os)
  with assms(1) show ?thesis by (auto simp: cache_safe_def slot_backed_def)
qed

lemma buildEntries_evolves:
  assumes "cache_safe m"
  shows "\<exists>es m'. buildEntries L ok fuel d (Some m) n = Some (es, Some m') \<and> evolves m m'"
proof (cases "n \<le> 0 \<or> \<not> ok_forward ok")
  case True
  then show ?thesis by (auto simp: buildEntries_def filterEntries_def Let_def intro: evolves_populated)
next
  case False
  define cs where "cs = collectCandidates L (ok_reorder ok) fuel d (Some m) (nat n)"
  have "\<forall>c \<in> set cs. slot_backed m c" using collect_backed [OF assms] by (auto simp: cs_def)
  from decideEach_evolves [OF this, of L] obtain fs cs' m1
    where d: "decideEach L (Some m) cs = Some (fs, cs', Some m1)" "evolves m m1" by blast
  define fs' where "fs' = (if ok_group ok then extendGroups cs'
    (map (\<lambda>c. resolveGroupAnchor (ec_reference c) (if ok_anchors ok then groupAnchors cs else [])) cs) fs else fs)"
  obtain es m2 where e: "emitEntries (Some m1) (zip cs' fs') = (es, Some m2)" "evolves m1 m2"
    using emitEntries_evolves by blast
  have "buildEntries L ok fuel d (Some m) n =
    Some (es, Some (if cs \<noteq> [] then m2\<lparr>mc_everPopulated := True\<rparr> else m2))"
    using False d(1) e(1) by (simp add: buildEntries_def filterEntries_def cs_def [symmetric] fs'_def [symmetric] Let_def)
  moreover have "evolves m (if cs \<noteq> [] then m2\<lparr>mc_everPopulated := True\<rparr> else m2)"
    using evolves_trans [OF d(2) e(2)] by (simp add: evolves_populated)
  ultimately show ?thesis by blast
qed

lemma uncached_slots: "c \<in> set (collectCandidates L r fuel d None n) \<Longrightarrow> ec_slot c = None"
  by (auto simp: collectCandidates_def memberCandidates_def Let_def dest!: candidateFor_slot)

lemma decideEach_uncached:
  "\<forall>c \<in> set cs. ec_slot c = None \<Longrightarrow> \<exists>fs cs'. decideEach L None cs = Some (fs, cs', None)"
  by (induction cs) (fastforce simp: shouldForwardAndUpdateCache_def)+

lemma emitEntries_uncached: "snd (emitEntries None cfs) = None"
  by (induction cfs) (auto simp: updateValueDiffCache_def split: prod.split)

lemma buildEntries_uncached: "\<exists>es. buildEntries L ok fuel d None n = Some (es, None)"
proof (cases "n \<le> 0 \<or> \<not> ok_forward ok")
  case True
  then show ?thesis by (auto simp: buildEntries_def filterEntries_def Let_def)
next
  case False
  have "\<forall>c \<in> set (collectCandidates L (ok_reorder ok) fuel d None (nat n)). ec_slot c = None"
    by (blast intro: uncached_slots)
  from decideEach_uncached [OF this, of L] False show ?thesis
    by (auto simp: buildEntries_def filterEntries_def Let_def emitEntries_uncached split: prod.split)
      (metis emitEntries_uncached snd_conv)+
qed

section \<open>Steps of a session\<close>

text \<open>
  What every step keeps: the targets and their subscribers, the callbacks, and every cache up
  to its values.
\<close>

definition keeps :: "'v goose_handle \<Rightarrow> 'v goose_handle \<Rightarrow> bool" where
  "keeps h h' \<longleftrightarrow> gh_statusCallback h' = gh_statusCallback h \<and> gh_recordCallback h' = gh_recordCallback h
     \<and> length (gh_targetEntries h') = length (gh_targetEntries h)
     \<and> (\<forall>i < length (gh_targetEntries h). te_target (gh_targetEntries h' ! i) = te_target (gh_targetEntries h ! i)
          \<and> te_rawSubscriber (gh_targetEntries h' ! i) = te_rawSubscriber (gh_targetEntries h ! i)
          \<and> evolves (te_memberRefCache (gh_targetEntries h ! i)) (te_memberRefCache (gh_targetEntries h' ! i)))"

lemma keeps_refl [simp]: "keeps h h"
  by (simp add: keeps_def)

lemma keeps_trans [trans]: "keeps a b \<Longrightarrow> keeps b c \<Longrightarrow> keeps a c"
  by (auto simp: keeps_def intro: evolves_trans)

lemma keeps_with_entry:
  assumes "i < length (gh_targetEntries h)" and "te_target e = te_target (gh_targetEntries h ! i)"
    and "te_rawSubscriber e = te_rawSubscriber (gh_targetEntries h ! i)"
    and "evolves (te_memberRefCache (gh_targetEntries h ! i)) (te_memberRefCache e)"
  shows "keeps h (with_entry h i e)"
  using assms by (auto simp: keeps_def with_entry_def nth_list_update)

definition validities :: "'v goose_handle \<Rightarrow> bool list" where
  "validities h = map te_lastKnownValid (gh_targetEntries h)"

lemma validities_with_entry [simp]: "validities (with_entry h i e) = (validities h)[i := te_lastKnownValid e]"
  by (simp add: validities_def with_entry_def map_update)

definition handle_safe :: "'v goose_handle \<Rightarrow> bool" where
  "handle_safe h \<longleftrightarrow> (\<forall>e \<in> set (gh_targetEntries h). cache_safe (te_memberRefCache e))"

lemma handle_safe_keeps: "handle_safe h \<Longrightarrow> keeps h h' \<Longrightarrow> handle_safe h'"
  unfolding handle_safe_def keeps_def by (metis cache_safe_evolves in_set_conv_nth)

lemma findTargetEntry_raws:
  "findTargetEntry h sub = find_index (\<lambda>r. r = Some sub) (map te_rawSubscriber (gh_targetEntries h))"
  by (simp add: findTargetEntry_def find_index_map)

lemma findTargetEntry_bound: "findTargetEntry h sub = Some i \<Longrightarrow> i < length (gh_targetEntries h)"
  unfolding findTargetEntry_def by (blast dest: find_index_SomeD)

lemma markValid_step:
  assumes "i < length (gh_targetEntries h)"
  shows "keeps h (fst (markValid now i h))" and "validities (fst (markValid now i h)) = (validities h)[i := True]"
    and "snd (markValid now i h) = (if \<not> validities h ! i \<and> gh_statusCallback h
      then [Status_Out (gt_objectReference (te_target (gh_targetEntries h ! i))) GOOSE_SUBSCRIBER_STATUS_VALID 0] else [])"
  using assms
  by (auto simp: markValid_def Let_def GooseSubscriberUseCases_detectStatusTransition_def validities_def [of h]
      intro!: keeps_with_entry)

lemma livenessCheck_step:
  assumes "i < length (gh_targetEntries h)"
  shows "keeps h (fst (livenessCheck tal pe now i h))"
    and "if isStale now (tal (te_rawSubscriber (gh_targetEntries h ! i))) (gh_targetEntries h ! i)
      then validities h ! i \<and> validities (fst (livenessCheck tal pe now i h)) = (validities h)[i := False]
        \<and> (\<exists>st p. st \<noteq> GOOSE_SUBSCRIBER_STATUS_VALID \<and> snd (livenessCheck tal pe now i h) = (if gh_statusCallback h
             then [Status_Out (gt_objectReference (te_target (gh_targetEntries h ! i))) st p] else []))
      else livenessCheck tal pe now i h = (h, [])"
  using assms
  by (auto simp: livenessCheck_def Let_def isStale_def validities_def [of h] intro!: keeps_with_entry)

lemma forwardFrame_step:
  assumes "handle_safe h" and "\<And>i. idx = Some i \<Longrightarrow> i < length (gh_targetEntries h)"
  shows "\<exists>h' outs. forwardFrame L okRecord ok fuel idx fr h = Some (h', outs) \<and> keeps h h' \<and> validities h' = validities h
    \<and> (\<forall>x \<in> set outs. \<exists>r. x = Record_Out r)"
proof (cases idx)
  case None
  obtain es where "buildEntries L ok fuel (gf_dataSetValues fr) None
      (case gf_dataSetValues fr of None \<Rightarrow> 0 | Some v \<Rightarrow> int (ml_getArraySize L v)) = Some (es, None)"
    using buildEntries_uncached by blast
  then show ?thesis
    by (simp add: None forwardFrame_def Let_def GooseSubscriberUseCases_buildRecord_def)
next
  case (Some i)
  then have i: "i < length (gh_targetEntries h)" using assms(2) by simp
  let ?e = "gh_targetEntries h ! i"
  have "cache_safe (te_memberRefCache ?e)" using assms(1) i by (simp add: handle_safe_def)
  from buildEntries_evolves [OF this] obtain es m' where
    b: "buildEntries L ok fuel (gf_dataSetValues fr) (Some (te_memberRefCache ?e))
      (case gf_dataSetValues fr of None \<Rightarrow> 0 | Some v \<Rightarrow> int (ml_getArraySize L v)) = Some (es, Some m')"
    and ev: "evolves (te_memberRefCache ?e) m'" by blast
  have v: "(validities h)[i := te_lastKnownValid ?e] = validities h"
    using i by (metis list_update_id nth_map validities_def)
  show ?thesis
    using b ev i v
    by (auto simp: Some forwardFrame_def Let_def GooseSubscriberUseCases_buildRecord_def intro!: keeps_with_entry)
qed

lemma frame_step_handle:
  assumes "handle_safe h"
  shows "\<exists>h' outs recs. GooseSubscriberFrameAdapter_onGooseReceived L okRecord ok fuel now sub fr h = Some (h', outs @ recs)
    \<and> keeps h h' \<and> (\<forall>x \<in> set recs. \<exists>r. x = Record_Out r)
    \<and> (if gf_isValid fr \<and> findTargetEntry h sub \<noteq> None
       then let i = the (findTargetEntry h sub) in validities h' = (validities h)[i := True] \<and> outs = snd (markValid now i h)
       else validities h' = validities h \<and> outs = [])"
proof (cases "gf_isValid fr")
  case False
  then show ?thesis by (simp add: GooseSubscriberFrameAdapter_onGooseReceived_def)
next
  case True
  define idx where "idx = findTargetEntry h sub"
  define h1 where "h1 = (case idx of None \<Rightarrow> h | Some i \<Rightarrow> fst (markValid now i h))"
  define o1 where "o1 = (case idx of None \<Rightarrow> [] | Some i \<Rightarrow> snd (markValid now i h))"
  have k1: "keeps h h1" and v1: "validities h1 = (case idx of None \<Rightarrow> validities h | Some i \<Rightarrow> (validities h)[i := True])"
    by (auto simp: h1_def idx_def split: option.split dest!: findTargetEntry_bound intro: markValid_step(1,2))
  have len: "idx = Some i \<Longrightarrow> i < length (gh_targetEntries h1)" for i
    using findTargetEntry_bound [of h sub i] k1 by (simp add: idx_def keeps_def)
  from forwardFrame_step [OF handle_safe_keeps [OF assms k1], where idx = idx] len
  obtain h2 o2 where f: "forwardFrame L okRecord ok fuel idx fr h1 = Some (h2, o2)" "keeps h1 h2"
    "validities h2 = validities h1" "\<forall>x \<in> set o2. \<exists>r. x = Record_Out r" by blast
  have e: "GooseSubscriberFrameAdapter_onGooseReceived L okRecord ok fuel now sub fr h =
    (if \<not> gh_recordCallback h1 then Some (h1, o1 @ []) else Some (h2, o1 @ o2))"
    using True f(1) unfolding GooseSubscriberFrameAdapter_onGooseReceived_def idx_def [symmetric] h1_def o1_def
    by (simp add: Let_def split: option.splits prod.split) auto
  show ?thesis
    using e True f(2-4) k1 v1 keeps_trans [OF k1 f(2)]
    by (cases idx; cases "gh_recordCallback h1") (auto simp: o1_def idx_def [symmetric] Let_def)
qed

text \<open>
  A session: frames on the reception thread and checks of the liveness thread in any order,
  each with its own clock reading. The last argument is everything the callbacks received.
\<close>

inductive session :: "'v mms_lib \<Rightarrow> 'v goose_handle \<Rightarrow> 'v goose_handle \<Rightarrow> 'v goose_out list \<Rightarrow> bool"
  for L :: "'v mms_lib" and h0 :: "'v goose_handle" where
  begun: "session L h0 h0 []"
| frame: "session L h0 h tr \<Longrightarrow>
    GooseSubscriberFrameAdapter_onGooseReceived L okRecord ok fuel now sub fr h = Some (h', outs) \<Longrightarrow>
    session L h0 h' (tr @ outs)"
| checked: "session L h0 h tr \<Longrightarrow> i < length (gh_targetEntries h) \<Longrightarrow>
    livenessCheck talOf parseErrorOf now i h = (h', outs) \<Longrightarrow> session L h0 h' (tr @ outs)"

lemma session_keeps: "session L h0 h tr \<Longrightarrow> handle_safe h0 \<Longrightarrow> keeps h0 h"
proof (induction rule: session.induct)
  case (frame h tr okRecord ok fuel now sub fr h' outs)
  then have "handle_safe h" by (blast intro: handle_safe_keeps)
  from frame_step_handle [OF this, of L okRecord ok fuel now sub fr] frame show ?case by (auto intro: keeps_trans)
next
  case (checked h tr i talOf parseErrorOf now h' outs)
  with livenessCheck_step(1) [of i h talOf parseErrorOf now] show ?case by (auto intro: keeps_trans)
qed simp

section \<open>Status notifications\<close>

definition statuses :: "string \<Rightarrow> 'v goose_out list \<Rightarrow> GooseSubscriberStatus list" where
  "statuses r tr = List.map_filter
     (\<lambda>x. case x of Status_Out r' s p \<Rightarrow> (if r' = r then Some s else None) | Record_Out rec \<Rightarrow> None) tr"

lemma statuses_simps [simp]:
  "statuses r [] = []" "statuses r (xs @ ys) = statuses r xs @ statuses r ys"
  "statuses r (Status_Out r' s p # xs) = (if r' = r then [s] else []) @ statuses r xs"
  by (simp_all add: statuses_def List.map_filter_def)

lemma statuses_records: "\<forall>x \<in> set xs. \<exists>r. x = Record_Out r \<Longrightarrow> statuses r xs = []"
  by (auto simp: statuses_def List.map_filter_def filter_empty_conv)

text \<open>Notifications alternate, starting with the opposite of \<open>b\<close>; \<open>ends_valid\<close> is what the last one said.\<close>

fun alternates :: "bool \<Rightarrow> GooseSubscriberStatus list \<Rightarrow> bool" where
  "alternates b [] = True"
| "alternates b (s # ss) \<longleftrightarrow> (s = GOOSE_SUBSCRIBER_STATUS_VALID) = (\<not> b) \<and> alternates (\<not> b) ss"

definition ends_valid :: "bool \<Rightarrow> GooseSubscriberStatus list \<Rightarrow> bool" where
  "ends_valid b ss = (if ss = [] then b else last ss = GOOSE_SUBSCRIBER_STATUS_VALID)"

lemma alternates_snoc:
  "alternates b (ss @ [s]) \<longleftrightarrow> alternates b ss \<and> (s = GOOSE_SUBSCRIBER_STATUS_VALID) = (\<not> ends_valid b ss)"
  by (induction ss arbitrary: b) (auto simp: ends_valid_def)

lemma ends_valid_snoc [simp]: "ends_valid b (ss @ [s]) \<longleftrightarrow> s = GOOSE_SUBSCRIBER_STATUS_VALID"
  by (simp add: ends_valid_def)

abbreviation ref_at :: "'v goose_handle \<Rightarrow> nat \<Rightarrow> string" where
  "ref_at h i \<equiv> gt_objectReference (te_target (gh_targetEntries h ! i))"

text \<open>A handle as the start leaves it: distinct references, nothing valid yet, somebody listening.\<close>

definition listening :: "'v goose_handle \<Rightarrow> bool" where
  "listening h \<longleftrightarrow> handle_safe h \<and> gh_statusCallback h \<and> distinct (map (gt_objectReference \<circ> te_target) (gh_targetEntries h))
     \<and> (\<forall>e \<in> set (gh_targetEntries h). \<not> te_lastKnownValid e)"

lemma ref_at_inj:
  "listening h \<Longrightarrow> i < length (gh_targetEntries h) \<Longrightarrow> j < length (gh_targetEntries h) \<Longrightarrow>
     ref_at h i = ref_at h j \<longleftrightarrow> i = j"
  unfolding listening_def by (auto simp: distinct_conv_nth)

text \<open>One change of validity and its notification keep notifications and validity in step.\<close>

lemma notify_step:
  assumes "alternates False (statuses (ref_at h0 i) tr)" and "ends_valid False (statuses (ref_at h0 i) tr) = vs ! i"
    and "i < length vs" and "j < length vs" and "ref_at h0 i = ref_at h0 j \<longleftrightarrow> i = j"
    and "(st = GOOSE_SUBSCRIBER_STATUS_VALID) = (\<not> vs ! j)"
  shows "alternates False (statuses (ref_at h0 i) (tr @ [Status_Out (ref_at h0 j) st p]))
    \<and> ends_valid False (statuses (ref_at h0 i) (tr @ [Status_Out (ref_at h0 j) st p])) = vs[j := \<not> vs ! j] ! i"
  using assms by (cases "i = j") (auto simp: alternates_snoc)

lemma session_notifies:
  assumes "session L h0 h tr" and "listening h0" and "i < length (gh_targetEntries h0)"
  shows "alternates False (statuses (ref_at h0 i) tr) \<and> ends_valid False (statuses (ref_at h0 i) tr) = validities h ! i"
  using assms
proof (induction rule: session.induct)
  case begun
  then show ?case by (simp add: listening_def validities_def ends_valid_def)
next
  case (frame h tr okRecord ok fuel now sub fr h' outs)
  have k: "keeps h0 h" using frame.hyps(1) frame.prems(1) session_keeps by (auto simp: listening_def)
  then have safe: "handle_safe h" and cb: "gh_statusCallback h" and len: "length (gh_targetEntries h) = length (gh_targetEntries h0)"
    and same: "\<And>j. j < length (gh_targetEntries h0) \<Longrightarrow> ref_at h j = ref_at h0 j"
    using frame.prems(1) handle_safe_keeps [OF _ k] by (auto simp: listening_def keeps_def)
  from frame_step_handle [OF safe, of L okRecord ok fuel now sub fr] frame.hyps(2) obtain o1 recs
    where o: "outs = o1 @ recs" "\<forall>x \<in> set recs. \<exists>r. x = Record_Out r"
      "if gf_isValid fr \<and> findTargetEntry h sub \<noteq> None
       then let i = the (findTargetEntry h sub) in validities h' = (validities h)[i := True] \<and> o1 = snd (markValid now i h)
       else validities h' = validities h \<and> o1 = []" by auto
  note IH = frame.IH [OF frame.prems]
  show ?case
  proof (cases "gf_isValid fr \<and> findTargetEntry h sub \<noteq> None")
    case False
    with o IH statuses_records [OF o(2)] show ?thesis by simp
  next
    case True
    then obtain j where j: "findTargetEntry h sub = Some j" by blast
    then have jl: "j < length (gh_targetEntries h)" by (rule findTargetEntry_bound)
    have v: "validities h' = (validities h)[j := True]" and o1: "o1 = snd (markValid now j h)"
      using o(3) True j by (simp_all add: Let_def)
    have "ref_at h0 i = ref_at h0 j \<longleftrightarrow> i = j" using ref_at_inj frame.prems jl len by simp
    note step = notify_step [of h0 i tr "validities h" j, OF conjunct1 [OF IH] conjunct2 [OF IH] _ _ this]
    show ?thesis
      using step [of GOOSE_SUBSCRIBER_STATUS_VALID 0] IH statuses_records [OF o(2)] o1 v jl len cb same [of j]
        markValid_step(3) [OF jl, of now] frame.prems(2) o(1)
      by (cases "validities h ! j") (auto simp: validities_def [of h] nth_list_update)
  qed
next
  case (checked h tr j talOf parseErrorOf now h' outs)
  have k: "keeps h0 h" using checked.hyps(1) checked.prems(1) session_keeps by (auto simp: listening_def)
  then have cb: "gh_statusCallback h" and len: "length (gh_targetEntries h) = length (gh_targetEntries h0)"
    and same: "ref_at h j = ref_at h0 j"
    using checked.prems(1) checked.hyps(2) by (auto simp: listening_def keeps_def)
  note IH = checked.IH [OF checked.prems]
  have "ref_at h0 i = ref_at h0 j \<longleftrightarrow> i = j" using ref_at_inj checked.prems checked.hyps(2) len by simp
  note step = notify_step [of h0 i tr "validities h" j, OF conjunct1 [OF IH] conjunct2 [OF IH] _ _ this]
  show ?case
  proof (cases "isStale now (talOf (te_rawSubscriber (gh_targetEntries h ! j))) (gh_targetEntries h ! j)")
    case False
    with livenessCheck_step(2) [OF checked.hyps(2), of now talOf parseErrorOf] IH checked.hyps(3) show ?thesis by simp
  next
    case True
    with livenessCheck_step(2) [OF checked.hyps(2), of now talOf parseErrorOf] checked.hyps(3) cb same obtain st p
      where c: "validities h ! j" "validities h' = (validities h)[j := False]" "st \<noteq> GOOSE_SUBSCRIBER_STATUS_VALID"
        "outs = [Status_Out (ref_at h0 j) st p]" by auto
    with step [of st p] checked.prems(2) checked.hyps(2) len show ?thesis by (simp add: validities_def [of h])
  qed
qed

lemma status_alternation:
  assumes "listening h0" and "session L h0 h tr" and "i < length (gh_targetEntries h0)"
  shows "alternates False (statuses (ref_at h0 i) tr)"
    and "ends_valid False (statuses (ref_at h0 i) tr) = te_lastKnownValid (gh_targetEntries h ! i)"
proof -
  have "length (gh_targetEntries h) = length (gh_targetEntries h0)"
    using session_keeps [OF assms(2)] assms(1) by (simp add: listening_def keeps_def)
  with session_notifies [OF assms(2,1,3)] assms(3)
  show "alternates False (statuses (ref_at h0 i) tr)"
    "ends_valid False (statuses (ref_at h0 i) tr) = te_lastKnownValid (gh_targetEntries h ! i)"
    by (simp_all add: validities_def)
qed


section \<open>Start\<close>

lemma createSubscribers_spec:
  "createSubscribers newSub i es = (ok, es', subs) \<Longrightarrow>
     length es' = length es \<and> (ok \<longrightarrow> length subs = length es \<and> (\<forall>k < length es. \<exists>sub. newSub (i + k) = Some sub
       \<and> es' ! k = (es ! k)\<lparr>te_rawSubscriber := Some sub, te_lastKnownValid := False, te_lastValidAtMs := 0,
            te_hasForwardedStNum := False, te_lastForwardedStNum := 0\<rparr>
       \<and> subs ! k = \<lparr>gs_id = sub, gs_goCbRef = gt_objectReference (te_target (es ! k)),
            gs_filter = (if gt_hasAddress (te_target (es ! k))
                         then Some (gt_dstMac (te_target (es ! k)), gt_appId (te_target (es ! k))) else None)\<rparr>))"
proof (induction es arbitrary: i es' subs ok)
  case (Cons e es)
  show ?case
  proof (cases "newSub i")
    case None
    with Cons.prems show ?thesis by auto
  next
    case (Some sub)
    obtain ok1 es1 subs1 where r: "createSubscribers newSub (Suc i) es = (ok1, es1, subs1)" by (cases "createSubscribers newSub (Suc i) es") auto
    note IH = Cons.IH [OF r]
    from Cons.prems Some r show ?thesis
      using IH by (auto simp: less_Suc_eq_0_disj nth_Cons split: nat.split)
  qed
qed auto

lemma resolve_safe:
  assumes "ra_lastForwardedValues ra"
  shows "cache_safe (resolveMemberReferences ra ied ds :: 'v GooseSubscriberMemberRefCache)"
proof (cases "\<exists>d refs. ds = Some d \<and> resolves ra ied d refs")
  case True
  then obtain d refs where d: "ds = Some d" "resolves ra ied d refs" by blast
  define cs where "cs = leaf_counts ra ied d (length refs)"
  define m :: "'v GooseSubscriberMemberRefCache" where "m = resolveMemberReferences ra ied (Some d)"
  from resolve_layout(1) [OF d(2) m_def cs_def] resolve_fields(6,7) [OF d(2) m_def cs_def]
  have "cache_safe m" unfolding cache_safe_def by auto
  then show ?thesis by (simp add: m_def d(1))
next
  case False
  then have "mc_leafSlotOffsets (resolveMemberReferences ra ied ds :: 'v GooseSubscriberMemberRefCache) = None"
    using assms
    by (auto simp: resolveMemberReferences_def resolves_def empty_cache_def linkedListToStringArray_def [of "ra_array ra"] Let_def
        split: option.splits if_splits prod.splits)
  then show ?thesis by (simp add: cache_safe_def)
qed

text \<open>
  The state after a successful start: every target of the device model has an entry, its own
  subscriber with its own filter, and the cache of its own data set; no target is valid yet.
\<close>

definition started :: "start_env \<Rightarrow> ied_services \<Rightarrow> GooseSubscriptionTarget list \<Rightarrow> 'v goose_handle \<Rightarrow> bool" where
  "started env ied ts h \<longleftrightarrow> gh_running h \<and> gh_receiving h \<and> gh_livenessThread h \<and> \<not> gh_stopRequested h \<and> gh_targetStateLock h
     \<and> length (gh_targetEntries h) = length ts
     \<and> (\<exists>subs. gh_receiver h = Some subs \<and> length subs = length ts \<and> (\<forall>i < length ts.
          let e = gh_targetEntries h ! i; t = ts ! i in te_target e = t
            \<and> te_memberRefCache e = resolveMemberReferences (se_resolve env i) ied (gt_datasetReference t)
            \<and> \<not> te_lastKnownValid e \<and> te_lastValidAtMs e = 0 \<and> \<not> te_hasForwardedStNum e
            \<and> te_rawSubscriber e = Some (gs_id (subs ! i)) \<and> gs_goCbRef (subs ! i) = gt_objectReference t
            \<and> gs_filter (subs ! i) = (if gt_hasAddress t then Some (gt_dstMac t, gt_appId t) else None)))"

definition torn_down :: "'v goose_handle \<Rightarrow> bool" where
  "torn_down h \<longleftrightarrow> gh_targetEntries h = [] \<and> gh_receiver h = None \<and> \<not> gh_livenessThread h \<and> \<not> gh_targetStateLock h"

lemma start_ok:
  assumes "GooseSubscription_start env ied targets (Some h) = (GOOSE_SUBSCRIBER_OK, Some h')" and "\<not> gh_running h"
  obtains ts where "targets = Some ts" "ts \<noteq> []" "started env ied ts h'"
    "gh_statusCallback h' = gh_statusCallback h" "gh_recordCallback h' = gh_recordCallback h"
proof -
  obtain ts where t: "targets = Some ts" "ts \<noteq> []" "se_okEntries env"
    using assms by (cases targets) (auto simp: GooseSubscription_start_def split: if_splits)
  obtain ok es subs where c: "createSubscribers (se_newSub env) 0 (newEntries env ied ts :: 'a GooseSubscriberTargetEntry list) = (ok, es, subs)"
    by (cases "createSubscribers (se_newSub env) 0 (newEntries env ied ts :: 'a GooseSubscriberTargetEntry list)") auto
  have ok: "se_okReceiver env" "se_okLock env" "ok" "se_runs env" "se_okThread env"
    using assms t c by (auto simp: GooseSubscription_start_def GooseSubscriberConnection_create_def
        GooseSubscriberConnection_start_def Let_def split: if_splits)
  have h': "gh_targetEntries h' = es" "gh_receiver h' = Some subs" "gh_running h'" "gh_receiving h'" "gh_livenessThread h'"
    "\<not> gh_stopRequested h'" "gh_targetStateLock h'" "gh_statusCallback h' = gh_statusCallback h"
    "gh_recordCallback h' = gh_recordCallback h"
    using assms t c ok by (auto simp: GooseSubscription_start_def GooseSubscriberConnection_create_def
        GooseSubscriberConnection_start_def Let_def)
  have e: "length (newEntries env ied ts :: 'a GooseSubscriberTargetEntry list) = length ts"
    "\<And>k. k < length ts \<Longrightarrow> (newEntries env ied ts :: 'a GooseSubscriberTargetEntry list) ! k = newEntry env ied k (ts ! k)"
    by (simp_all add: newEntries_def)
  from createSubscribers_spec [OF c] ok(3) have
    l: "length es = length ts" "length subs = length ts" and
    k: "\<And>k. k < length ts \<Longrightarrow> \<exists>sub. es ! k = (newEntry env ied k (ts ! k))\<lparr>te_rawSubscriber := Some sub, te_lastKnownValid := False,
          te_lastValidAtMs := 0, te_hasForwardedStNum := False, te_lastForwardedStNum := 0\<rparr>
       \<and> subs ! k = \<lparr>gs_id = sub, gs_goCbRef = gt_objectReference (ts ! k),
            gs_filter = (if gt_hasAddress (ts ! k) then Some (gt_dstMac (ts ! k), gt_appId (ts ! k)) else None)\<rparr>"
    using e by (auto simp: newEntry_def)
  have "started env ied ts h'"
    unfolding started_def Let_def using h' l by (auto simp: newEntry_def dest!: k)
  with t h' that show thesis by blast
qed

lemma started_safe:
  assumes "started env ied ts h" and "\<And>i. ra_lastForwardedValues (se_resolve env i)"
  shows "handle_safe h"
  unfolding handle_safe_def using assms resolve_safe by (fastforce simp: started_def Let_def in_set_conv_nth)

text \<open>A start is all or nothing: it succeeds with every target of the model subscribed, with its own
  address filter and the cache of its own data set, the receiver and the liveness thread
  running; or it reports an error and the handle is unchanged, or everything it made is torn down.\<close>

theorem goose_start_all_or_nothing:
  assumes "\<not> gh_running h"
  shows "case GooseSubscription_start env ied targets (Some h) of
      (err, h') \<Rightarrow>
        if err = GOOSE_SUBSCRIBER_OK then \<exists>ts g. targets = Some ts \<and> ts \<noteq> [] \<and> h' = Some g \<and> started env ied ts g
        else h' = Some h \<or> (\<exists>g. h' = Some g \<and> torn_down g \<and> \<not> gh_running g)"
proof -
  obtain err h' where r: "GooseSubscription_start env ied targets (Some h) = (err, h')" by fastforce
  show ?thesis
  proof (cases "err = GOOSE_SUBSCRIBER_OK")
    case True
    obtain g where g: "h' = Some g" using r assms
      by (auto simp: GooseSubscription_start_def Let_def split: option.splits if_splits prod.splits)
    with r True have "GooseSubscription_start env ied targets (Some h) = (GOOSE_SUBSCRIBER_OK, Some g)" by simp
    from start_ok [OF this assms] show ?thesis using r g True by auto
  next
    case False
    then show ?thesis
      using r assms
      by (auto simp: GooseSubscription_start_def GooseSubscriberConnection_create_def GooseSubscriberConnection_start_def
          GooseSubscriberConnection_destroy_def freeTargetEntries_def torn_down_def Let_def
          split: option.splits if_splits prod.splits)
  qed
qed


section \<open>Heartbeats and recoveries\<close>

lemma onGooseReceived_known:
  assumes "gf_isValid fr" and "findTargetEntry h sub = Some i" and "gh_recordCallback h"
  shows "GooseSubscriberFrameAdapter_onGooseReceived L okRecord ok fuel now sub fr h =
    map_option (\<lambda>(h2, outs2). (h2, snd (markValid now i h) @ outs2)) (forwardFrame L okRecord ok fuel (Some i) fr (fst (markValid now i h)))"
  using assms markValid_step(1) [OF findTargetEntry_bound [OF assms(2)], of now]
  by (simp add: GooseSubscriberFrameAdapter_onGooseReceived_def keeps_def split_beta)

lemma forwardFrame_stNum:
  assumes "forwardFrame L True ok fuel (Some i) fr h = Some (h', outs)" and "i < length (gh_targetEntries h)"
  shows "te_hasForwardedStNum (gh_targetEntries h' ! i) \<and> te_lastForwardedStNum (gh_targetEntries h' ! i) = gr_stNum (gf_header fr)
    \<and> te_lastKnownValid (gh_targetEntries h' ! i) = te_lastKnownValid (gh_targetEntries h ! i)"
  using assms
  by (auto simp: forwardFrame_def Let_def GooseSubscriberUseCases_isDuplicateStNum_def GooseSubscriberUseCases_buildRecord_def
      with_entry_def split: if_splits option.splits prod.splits)

text \<open>A heartbeat is silent: once a frame of a target was processed, the next frame with the same state
  number (a keep-alive retransmission, whatever values it carries) delivers nothing and changes
  nothing but the time the target was last seen.\<close>

theorem goose_heartbeat_silent:
  assumes "handle_safe h" and "gh_recordCallback h" and "findTargetEntry h sub = Some i"
    and "gf_isValid fr" and "gf_isValid fr'" and "gr_stNum (gf_header fr') = gr_stNum (gf_header fr)"
    and "GooseSubscriberFrameAdapter_onGooseReceived L True ok fuel now sub fr h = Some (h1, outs)"
  shows "GooseSubscriberFrameAdapter_onGooseReceived L okRecord' ok' fuel' now' sub fr' h1
    = Some (with_entry h1 i ((gh_targetEntries h1 ! i)\<lparr>te_lastValidAtMs := now'\<rparr>), [])"
proof -
  have i: "i < length (gh_targetEntries h)" by (rule findTargetEntry_bound [OF assms(3)])
  have k: "keeps h h1" using frame_step_handle [OF assms(1), of L True ok fuel now sub fr] assms(7) by auto
  have f1: "findTargetEntry h1 sub = Some i"
  proof -
    have "map te_rawSubscriber (gh_targetEntries h1) = map te_rawSubscriber (gh_targetEntries h)"
      using k by (intro nth_equalityI) (auto simp: keeps_def)
    then show ?thesis using assms(3) by (simp add: findTargetEntry_raws)
  qed
  have i1: "i < length (gh_targetEntries h1)" using i k by (simp add: keeps_def)
  obtain o2 where "forwardFrame L True ok fuel (Some i) fr (fst (markValid now i h)) = Some (h1, o2)"
    using assms(7) unfolding onGooseReceived_known [OF assms(4,3,2)] by auto
  note st = forwardFrame_stNum [OF this]
  have l: "i < length (gh_targetEntries (fst (markValid now i h)))"
    using markValid_step(1) [OF i, of now] i by (simp add: keeps_def)
  have "validities (fst (markValid now i h)) ! i" using markValid_step(2) [OF i, of now] i by (simp add: validities_def)
  with st [OF l] l
  have e: "te_hasForwardedStNum (gh_targetEntries h1 ! i)" "te_lastForwardedStNum (gh_targetEntries h1 ! i) = gr_stNum (gf_header fr)"
    "te_lastKnownValid (gh_targetEntries h1 ! i)"
    by (simp_all add: validities_def)
  have r1: "gh_recordCallback h1" using k assms(2) by (simp add: keeps_def)
  have m: "markValid now' i h1 = (with_entry h1 i ((gh_targetEntries h1 ! i)\<lparr>te_lastValidAtMs := now'\<rparr>), [])"
    using e(3) by (cases "gh_targetEntries h1 ! i") (simp add: markValid_def Let_def GooseSubscriberUseCases_detectStatusTransition_def)
  have "forwardFrame L okRecord' ok' fuel' (Some i) fr' (with_entry h1 i ((gh_targetEntries h1 ! i)\<lparr>te_lastValidAtMs := now'\<rparr>))
      = Some (with_entry h1 i ((gh_targetEntries h1 ! i)\<lparr>te_lastValidAtMs := now'\<rparr>), [])"
    using i1 e assms(6) by (simp add: forwardFrame_def Let_def with_entry_def GooseSubscriberUseCases_isDuplicateStNum_def)
  with m show ?thesis unfolding onGooseReceived_known [OF assms(5) f1 r1] by simp
qed

lemma recovery_step:
  assumes "gh_recordCallback h" and "gh_statusCallback h" and "findTargetEntry h sub = Some i" and "gf_isValid fr"
    and "\<not> te_lastKnownValid (gh_targetEntries h ! i)"
    and "buildEntries L ok fuel (gf_dataSetValues fr) (Some (te_memberRefCache (gh_targetEntries h ! i)))
      (case gf_dataSetValues fr of None \<Rightarrow> 0 | Some v \<Rightarrow> int (ml_getArraySize L v)) = Some (es, Some m')"
  shows "\<exists>h' recs. GooseSubscriberFrameAdapter_onGooseReceived L True ok fuel now sub fr h
      = Some (h', Status_Out (ref_at h i) GOOSE_SUBSCRIBER_STATUS_VALID 0 # recs)
    \<and> te_memberRefCache (gh_targetEntries h' ! i) = m' \<and> te_lastKnownValid (gh_targetEntries h' ! i)
    \<and> (if es = [] then recs = [] else \<exists>r. recs = [Record_Out r] \<and> gr_entries r = es \<and> gr_stNum r = gr_stNum (gf_header fr))"
proof -
  have i: "i < length (gh_targetEntries h)" by (rule findTargetEntry_bound [OF assms(3)])
  have m: "markValid now i h = (with_entry h i ((gh_targetEntries h ! i)\<lparr>te_lastKnownValid := True, te_lastValidAtMs := now,
      te_hasForwardedStNum := False\<rparr>), [Status_Out (ref_at h i) GOOSE_SUBSCRIBER_STATUS_VALID 0])"
    using assms(2,5) by (simp add: markValid_def Let_def GooseSubscriberUseCases_detectStatusTransition_def)
  show ?thesis
    using i assms(6)
    unfolding onGooseReceived_known [OF assms(4,3,1)] m
    by (auto simp: forwardFrame_def Let_def with_entry_def GooseSubscriberUseCases_isDuplicateStNum_def
        GooseSubscriberUseCases_buildRecord_def)
qed

text \<open>A recovery loses nothing: the first frame after a target was stale is announced as VALID and always
  compared, even with the state number of the last frame before the outage, and the comparison
  is against the values cached before the outage.\<close>

theorem goose_recovery_exact:
  assumes "gh_recordCallback h" and "gh_statusCallback h" and "findTargetEntry h sub = Some i" and "gf_isValid fr"
    and "\<not> te_lastKnownValid (gh_targetEntries h ! i)"
    and "buildEntries L ok fuel (gf_dataSetValues fr) (Some (te_memberRefCache (gh_targetEntries h ! i)))
      (case gf_dataSetValues fr of None \<Rightarrow> 0 | Some v \<Rightarrow> int (ml_getArraySize L v)) = Some (es, Some m')"
  shows "\<exists>h' recs. GooseSubscriberFrameAdapter_onGooseReceived L True ok fuel now sub fr h
      = Some (h', Status_Out (ref_at h i) GOOSE_SUBSCRIBER_STATUS_VALID 0 # recs)
    \<and> te_memberRefCache (gh_targetEntries h' ! i) = m' \<and> te_lastKnownValid (gh_targetEntries h' ! i)
    \<and> (if es = [] then recs = [] else \<exists>r. recs = [Record_Out r] \<and> gr_entries r = es \<and> gr_stNum r = gr_stNum (gf_header fr))"
  by (rule recovery_step [OF assms])

section \<open>Staleness\<close>

definition checkedEntry :: "(nat option \<Rightarrow> u32) \<Rightarrow> u64 \<Rightarrow> 'v GooseSubscriberTargetEntry \<Rightarrow> 'v GooseSubscriberTargetEntry" where
  "checkedEntry talOf now e = (if isStale now (talOf (te_rawSubscriber e)) e then e\<lparr>te_lastKnownValid := False\<rparr> else e)"

definition staleNotice :: "(nat option \<Rightarrow> u32) \<Rightarrow> (nat option \<Rightarrow> nat) \<Rightarrow> u64 \<Rightarrow> 'v GooseSubscriberTargetEntry \<Rightarrow> 'v goose_out list" where
  "staleNotice talOf parseErrorOf now e =
     (if isStale now (talOf (te_rawSubscriber e)) e
      then [Status_Out (gt_objectReference (te_target e))
              (if parseErrorOf (te_rawSubscriber e) = 0 then GOOSE_SUBSCRIBER_STATUS_STALE else GOOSE_SUBSCRIBER_STATUS_INVALID_STATE)
              (parseErrorOf (te_rawSubscriber e))]
      else [])"

lemma livenessCheck_eq:
  "livenessCheck tal pe now i h = (with_entry h i (checkedEntry tal now (gh_targetEntries h ! i)),
     if gh_statusCallback h then staleNotice tal pe now (gh_targetEntries h ! i) else [])"
  by (simp add: livenessCheck_def checkedEntry_def staleNotice_def with_entry_def Let_def)

lemma liveness_prefix:
  "n \<le> length (gh_targetEntries h) \<Longrightarrow>
    fold (\<lambda>i (g, os). let (g', os') = livenessCheck tal pe now i g in (g', os @ os')) [0..<n] (h, []) =
      (h\<lparr>gh_targetEntries := map (checkedEntry tal now) (take n (gh_targetEntries h)) @ drop n (gh_targetEntries h)\<rparr>,
       if gh_statusCallback h then concat (map (staleNotice tal pe now) (take n (gh_targetEntries h))) else [])"
proof (induction n)
  case (Suc n)
  let ?es = "gh_targetEntries h"
  have n: "n < length ?es" using Suc.prems by simp
  have "(map (checkedEntry tal now) (take n ?es) @ drop n ?es)[n := checkedEntry tal now (?es ! n)]
      = map (checkedEntry tal now) (take (Suc n) ?es) @ drop (Suc n) ?es"
    using n by (simp add: list_update_append take_Suc_conv_app_nth flip: Cons_nth_drop_Suc)
  moreover have "(map (checkedEntry tal now) (take n ?es) @ drop n ?es) ! n = ?es ! n"
    using n by (simp add: nth_append)
  ultimately show ?case
    using Suc n by (simp add: livenessCheck_eq with_entry_def take_Suc_conv_app_nth)
qed simp

lemma isStale_iff:
  assumes "te_lastValidAtMs e \<le> now"
  shows "isStale now tal e \<longleftrightarrow> te_lastKnownValid e \<and> te_lastValidAtMs e \<noteq> 0 \<and> 0 < unat tal
    \<and> unat (te_lastValidAtMs e) + unat tal < unat now"
proof -
  have "unat (ucast tal :: u64) = unat tal" 
    using unsigned_less [of tal, where ?'a = nat] by (simp add: unsigned_ucast_eq take_bit_nat_eq_self)
  moreover have "unat (now - te_lastValidAtMs e) = unat now - unat (te_lastValidAtMs e)" using assms by (simp add: unat_sub)
  ultimately show ?thesis
    by (auto simp: isStale_def word_less_nat_alt)
qed

lemma staleness_facts:
  assumes "\<And>e. e \<in> set (gh_targetEntries h) \<Longrightarrow> te_lastValidAtMs e \<le> now" and "gh_statusCallback h"
    and "livenessPass talOf parseErrorOf now h = (h', outs)"
    and "expired = (\<lambda>e. te_lastKnownValid e \<and> te_lastValidAtMs e \<noteq> 0 \<and> 0 < unat (talOf (te_rawSubscriber e))
           \<and> unat (te_lastValidAtMs e) + unat (talOf (te_rawSubscriber e)) < unat now)"
  shows "gh_targetEntries h' = map (\<lambda>e. if expired e then e\<lparr>te_lastKnownValid := False\<rparr> else e) (gh_targetEntries h)"
    and "map (\<lambda>x. case x of Status_Out r s p \<Rightarrow> r | Record_Out r \<Rightarrow> []) outs
      = map (gt_objectReference \<circ> te_target) (filter expired (gh_targetEntries h))"
    and "\<forall>x \<in> set outs. \<exists>r s p. x = Status_Out r s p \<and> s \<noteq> GOOSE_SUBSCRIBER_STATUS_VALID"
proof -
  have ex: "isStale now (talOf (te_rawSubscriber e)) e \<longleftrightarrow> expired e" if "e \<in> set (gh_targetEntries h)" for e
    using isStale_iff [OF assms(1) [OF that]] assms(4) by simp
  have p: "gh_targetEntries h' = map (checkedEntry talOf now) (gh_targetEntries h)"
    "outs = concat (map (staleNotice talOf parseErrorOf now) (gh_targetEntries h))"
    using assms(2,3) liveness_prefix [OF order_refl, where h = h and tal = talOf and pe = parseErrorOf and now = now] by (auto simp: livenessPass_def)
  show "gh_targetEntries h' = map (\<lambda>e. if expired e then e\<lparr>te_lastKnownValid := False\<rparr> else e) (gh_targetEntries h)"
    using ex by (simp add: p(1) checkedEntry_def)
  have "map (\<lambda>x. case x of Status_Out r s p \<Rightarrow> r | Record_Out r \<Rightarrow> []) (concat (map (staleNotice talOf parseErrorOf now) es))
      = map (gt_objectReference \<circ> te_target) (filter expired es)" if "set es \<subseteq> set (gh_targetEntries h)" for es
    using that by (induction es) (auto simp: staleNotice_def ex)
  then show "map (\<lambda>x. case x of Status_Out r s p \<Rightarrow> r | Record_Out r \<Rightarrow> []) outs
      = map (gt_objectReference \<circ> te_target) (filter expired (gh_targetEntries h))" by (simp add: p(2))
  show "\<forall>x \<in> set outs. \<exists>r s p. x = Status_Out r s p \<and> s \<noteq> GOOSE_SUBSCRIBER_STATUS_VALID"
    by (auto simp: p(2) staleNotice_def split: if_splits)
qed

text \<open>Staleness is detected: a pass of the liveness thread whose clock reading is not older than the last
  frame of any target marks exactly the valid targets whose declared time to live has elapsed
  since, leaves everything else of every target alone, and announces each of them once.\<close>

theorem goose_staleness_detected:
  assumes "\<And>e. e \<in> set (gh_targetEntries h) \<Longrightarrow> te_lastValidAtMs e \<le> now" and "gh_statusCallback h"
    and "livenessPass talOf parseErrorOf now h = (h', outs)"
    and "expired = (\<lambda>e. te_lastKnownValid e \<and> te_lastValidAtMs e \<noteq> 0 \<and> 0 < unat (talOf (te_rawSubscriber e))
           \<and> unat (te_lastValidAtMs e) + unat (talOf (te_rawSubscriber e)) < unat now)"
  shows "(gh_targetEntries h' = map (\<lambda>e. if expired e then e\<lparr>te_lastKnownValid := False\<rparr> else e) (gh_targetEntries h))
    \<and> (map (\<lambda>x. case x of Status_Out r s p \<Rightarrow> r | Record_Out r \<Rightarrow> []) outs
      = map (gt_objectReference \<circ> te_target) (filter expired (gh_targetEntries h)))
    \<and> (\<forall>x \<in> set outs. \<exists>r s p. x = Status_Out r s p \<and> s \<noteq> GOOSE_SUBSCRIBER_STATUS_VALID)"
  using staleness_facts [OF assms] by blast

text \<open>A fresh target can be declared stale: the pass reads its clock before it takes the lock, so a frame
  recorded in between is newer than the reading, the unsigned difference wraps around, and the
  target is stale whatever its time to live.\<close>

theorem goose_fresh_target_stale:
  assumes "te_lastKnownValid e" and "now < te_lastValidAtMs e" and "unat (te_lastValidAtMs e) - unat now < 2 ^ 63" and "0 < unat tal"
  shows "isStale now tal e"
proof -
  let ?l = "te_lastValidAtMs e"
  have lt: "unat now < unat ?l" "unat ?l < 2 ^ 64"
    using assms(2) unsigned_less [of ?l, where ?'a = nat] by (simp_all add: word_less_nat_alt)
  have t: "unat tal < 2 ^ 32" using unsigned_less [of tal, where ?'a = nat] by simp
  have "unat (now - ?l) = unat now + 2 ^ 64 - unat ?l" using lt by (simp add: unat_sub_if')
  then have "unat tal < unat (now - ?l)" using assms(3) t lt by simp
  moreover have "unat (ucast tal :: u64) = unat tal" using t by (simp add: unsigned_ucast_eq take_bit_nat_eq_self)
  moreover have "?l \<noteq> 0" using assms(2) by auto
  ultimately show ?thesis using assms(1,4) by (simp add: isStale_def word_less_nat_alt)
qed

section \<open>Poll interval\<close>

definition minTalStep :: "u32 \<Rightarrow> int \<Rightarrow> int" where
  "minTalStep tal minTal = (if tal = 0 then minTal else if minTal < 0 \<or> sint tal < minTal then sint tal else minTal)"

lemma computeMinObservedTalMs_fold:
  "computeMinObservedTalMs talOf h = fold minTalStep (map (talOf \<circ> te_rawSubscriber) (gh_targetEntries h)) (- 1)"
  by (simp add: computeMinObservedTalMs_def fold_map comp_def minTalStep_def [abs_def] Let_def)

lemma sint_small: "uint (t :: u32) < 2 ^ 31 \<Longrightarrow> sint t = uint t"
  using signed_take_bit_int_eq_self [of 31 "uint t"] uint_ge_0 [of t] by (simp add: sint_uint)

lemma uint_pos: "(t :: u32) \<noteq> 0 \<Longrightarrow> 0 < uint t"
  by (metis less_le uint_0_iff uint_ge_0)

lemma min_tal_positive:
  "\<forall>t \<in> set ts. uint t < 2 ^ 31 \<Longrightarrow> 0 < acc \<Longrightarrow>
     0 < fold minTalStep ts acc \<and> fold minTalStep ts acc \<le> acc
     \<and> (\<forall>t \<in> set ts. t \<noteq> 0 \<longrightarrow> fold minTalStep ts acc \<le> uint t)"
proof (induction ts arbitrary: acc)
  case (Cons t ts)
  have p: "0 < minTalStep t acc" "minTalStep t acc \<le> acc" "t \<noteq> 0 \<longrightarrow> minTalStep t acc \<le> uint t"
    using Cons.prems sint_small [of t] uint_pos [of t] by (auto simp: minTalStep_def)
  from Cons.IH [OF _ p(1)] Cons.prems(1) p show ?case by auto
qed simp

lemma min_tal_bounds:
  "\<forall>t \<in> set ts. uint t < 2 ^ 31 \<Longrightarrow>
     (fold minTalStep ts (- 1) = - 1 \<and> (\<forall>t \<in> set ts. t = 0))
     \<or> (0 < fold minTalStep ts (- 1) \<and> (\<forall>t \<in> set ts. t \<noteq> 0 \<longrightarrow> fold minTalStep ts (- 1) \<le> uint t))"
proof (induction ts)
  case (Cons t ts)
  show ?case
  proof (cases "t = 0")
    case True
    with Cons show ?thesis by (simp add: minTalStep_def)
  next
    case False
    then have s: "minTalStep t (- 1) = uint t" "0 < uint t"
      using Cons.prems sint_small [of t] uint_pos [of t] by (auto simp: minTalStep_def)
    from min_tal_positive [OF _ s(2), of ts] Cons.prems s show ?thesis by auto
  qed
qed simp

lemma poll_rate_facts:
  assumes "gh_livenessPollMs h = 0" and "livenessPass talOf parseErrorOf now h = (h', outs)"
    and "\<And>e. e \<in> set (gh_targetEntries h) \<Longrightarrow> unat (talOf (te_rawSubscriber e)) < 2 ^ 31"
  shows "50 \<le> unat (gh_effectivePollMs h')"
    and "\<forall>e \<in> set (gh_targetEntries h). 200 \<le> unat (talOf (te_rawSubscriber e)) \<longrightarrow>
      4 * unat (gh_effectivePollMs h') \<le> unat (talOf (te_rawSubscriber e))"
proof -
  define h1 where "h1 = h\<lparr>gh_targetEntries := map (checkedEntry talOf now) (gh_targetEntries h)\<rparr>"
  define r where "r = computeMinObservedTalMs talOf h1"
  have raw: "te_rawSubscriber (checkedEntry talOf now e) = te_rawSubscriber e" for e by (simp add: checkedEntry_def)
  have p: "gh_effectivePollMs h' = GooseSubscriberUseCases_computeLivenessPollIntervalMs 0 r"
    using assms(1,2) liveness_prefix [OF order_refl, where h = h and tal = talOf and pe = parseErrorOf and now = now]
    by (auto simp: livenessPass_def r_def h1_def)
  have raws: "map (talOf \<circ> te_rawSubscriber) (gh_targetEntries h1) = map (talOf \<circ> te_rawSubscriber) (gh_targetEntries h)"
    by (simp add: h1_def raw)
  have u: "uint t < 2 ^ 31 \<longleftrightarrow> unat t < 2 ^ 31" for t :: u32 by (simp only: nat_uint_eq [symmetric] nat_less_iff [OF uint_ge_0]) simp
  have "\<forall>t \<in> set (map (talOf \<circ> te_rawSubscriber) (gh_targetEntries h)). uint t < 2 ^ 31"
    unfolding u using assms(3) by auto
  note bounds = min_tal_bounds [OF this, folded raws, folded computeMinObservedTalMs_fold, folded r_def, unfolded raws]
  have le: "0 < r \<and> r \<le> int (unat (talOf (te_rawSubscriber e)))"
    if "e \<in> set (gh_targetEntries h)" "talOf (te_rawSubscriber e) \<noteq> 0" for e
  proof -
    have "talOf (te_rawSubscriber e) \<in> set (map (talOf \<circ> te_rawSubscriber) (gh_targetEntries h))" using that(1) by auto
    with bounds that(2) show ?thesis by (metis uint_nat)
  qed
  have r4: "unat ((of_int r :: u32) div 4) = nat r div 4" if "0 < r" "r < 2 ^ 31"
  proof -
    have "(of_int r :: u32) = of_nat (nat r)" using that by simp
    moreover have "nat r < 2 ^ 32" using that by simp
    ultimately have "unat (of_int r :: u32) = nat r" by (simp add: unat_of_nat)
    then show ?thesis by (simp add: unat_div)
  qed
  have small: "r < 2 ^ 31" if "e \<in> set (gh_targetEntries h)" "talOf (te_rawSubscriber e) \<noteq> 0" for e
    using le [OF that] assms(3) [OF that(1)] by (meson le_less_trans of_nat_less_numeral_power_cancel_iff)
  have pos: "50 \<le> unat (GooseSubscriberUseCases_computeLivenessPollIntervalMs 0 r)"
    by (auto simp: GooseSubscriberUseCases_computeLivenessPollIntervalMs_def Let_def word_less_nat_alt not_less)
  then show "50 \<le> unat (gh_effectivePollMs h')" by (simp add: p)
  show "\<forall>e \<in> set (gh_targetEntries h). 200 \<le> unat (talOf (te_rawSubscriber e)) \<longrightarrow>
      4 * unat (gh_effectivePollMs h') \<le> unat (talOf (te_rawSubscriber e))"
  proof (intro ballI impI)
    fix e assume e: "e \<in> set (gh_targetEntries h)" and big: "200 \<le> unat (talOf (te_rawSubscriber e))"
    then have nz: "talOf (te_rawSubscriber e) \<noteq> 0" by auto
    have "0 < r" "r \<le> int (unat (talOf (te_rawSubscriber e)))" "r < 2 ^ 31" using le [OF e nz] small [OF e nz] by auto
    then have "nat r \<le> unat (talOf (te_rawSubscriber e))" by (meson nat_le_iff)
    then have "4 * (nat r div 4) \<le> unat (talOf (te_rawSubscriber e))" using times_div_less_eq_dividend [of 4 "nat r"] by linarith
    with big r4 \<open>0 < r\<close> \<open>r < 2 ^ 31\<close> show "4 * unat (gh_effectivePollMs h') \<le> unat (talOf (te_rawSubscriber e))"
      by (auto simp: p GooseSubscriberUseCases_computeLivenessPollIntervalMs_def Let_def)
  qed
qed

text \<open>The liveness thread is fast enough for every target: with automatic polling, its interval is at
  least 50 ms and at most a quarter of the time to live of every target whose time to live is
  200 ms or more.\<close>

theorem goose_poll_rate:
  assumes "gh_livenessPollMs h = 0" and "livenessPass talOf parseErrorOf now h = (h', outs)"
    and "\<And>e. e \<in> set (gh_targetEntries h) \<Longrightarrow> unat (talOf (te_rawSubscriber e)) < 2 ^ 31"
  shows "(50 \<le> unat (gh_effectivePollMs h'))
    \<and> (\<forall>e \<in> set (gh_targetEntries h). 200 \<le> unat (talOf (te_rawSubscriber e)) \<longrightarrow>
      4 * unat (gh_effectivePollMs h') \<le> unat (talOf (te_rawSubscriber e)))"
  using poll_rate_facts [OF assms] by blast

text \<open>The sleep between two passes is exact: without a stop request the chunks add up to the interval and
  none is longer than 20 ms, so a stop request is seen within 20 ms.\<close>

theorem goose_sleep_exact:
  "(\<forall>c \<in> set (interruptibleSleep stop n totalMs slept). unat c \<le> 20)
   \<and> ((\<forall>k. \<not> stop k) \<longrightarrow> slept \<le> totalMs \<longrightarrow>
        unat slept + sum_list (map unat (interruptibleSleep stop n totalMs slept)) = unat totalMs)"
proof (induction stop n totalMs slept rule: interruptibleSleep.induct)
  case (1 stop n totalMs slept)
  define c where "c = (if totalMs - slept < 20 then totalMs - slept else 20)"
  show ?case
  proof (cases "slept < totalMs \<and> \<not> stop n")
    case False
    then have "interruptibleSleep stop n totalMs slept = []" by (subst interruptibleSleep.simps) simp
    moreover have "slept \<le> totalMs \<Longrightarrow> \<forall>k. \<not> stop k \<Longrightarrow> slept = totalMs" using False by auto
    ultimately show ?thesis by (simp only: list.set list.map sum_list.Nil add_0_right) blast
  next
    case True
    note cp = chunk_progress [OF conjunct1 [OF True] c_def]
    have e: "interruptibleSleep stop n totalMs slept = c # interruptibleSleep stop (Suc n) totalMs (slept + c)"
      using True by (subst interruptibleSleep.simps) (simp add: c_def Let_def)
    have "slept + c \<le> totalMs" using cp(1,3) by (simp add: word_le_nat_alt)
    then have IH: "\<forall>c \<in> set (interruptibleSleep stop (Suc n) totalMs (slept + c)). unat c \<le> 20"
      "\<forall>k. \<not> stop k \<Longrightarrow> unat (slept + c) + sum_list (map unat (interruptibleSleep stop (Suc n) totalMs (slept + c))) = unat totalMs"
      using "1" [OF True c_def] by blast+
    have "unat slept + sum_list (map unat (interruptibleSleep stop n totalMs slept)) = unat totalMs" if "\<forall>k. \<not> stop k"
      using IH(2) [OF that] cp(1) unfolding e by simp
    with IH(1) cp(4) show ?thesis unfolding e by simp
  qed
qed

section \<open>One target\<close>

definition demo_target :: GooseSubscriptionTarget where
  "demo_target = \<lparr>gt_objectReference = ''CB1/LLN0$GO$gcb'', gt_datasetReference = Some ''D'', gt_hasAddress = False,
     gt_vlanId = 0, gt_vlanPriority = 0, gt_appId = 0, gt_dstMac = []\<rparr>"

definition demo_env :: start_env where
  "demo_env = \<lparr>se_okEntries = True, se_resolve = (\<lambda>i. demo_resolve_ok), se_okReceiver = True, se_okLock = True,
     se_newSub = (\<lambda>i. Some i), se_runs = True, se_okThread = True, se_talOf = (\<lambda>s. 0)\<rparr>"

definition demo_idle :: "demo_value goose_handle" where
  "demo_idle = \<lparr>gh_interfaceId = Some ''eth0'', gh_livenessPollMs = 0, gh_receiver = None, gh_receiving = False,
     gh_targetEntries = [], gh_recordCallback = True, gh_statusCallback = True, gh_stopRequested = False,
     gh_livenessExited = False, gh_livenessThread = False, gh_effectivePollMs = 0, gh_targetStateLock = False, gh_running = False\<rparr>"

definition demo_header :: "u32 \<Rightarrow> demo_value GooseSubscriberRecord" where
  "demo_header n = \<lparr>gr_goCbRef = None, gr_goId = None, gr_dataSet = None, gr_stNum = n, gr_sqNum = 0, gr_confRev = 0,
     gr_test = False, gr_needsCommission = False, gr_timeAllowedToLiveMs = 2000, gr_timestampMs = 0, gr_hasVlan = False,
     gr_vlanId = 0, gr_vlanPrio = 0, gr_appId = 0, gr_srcMac = [], gr_dstMac = [], gr_entries = []\<rparr>"

definition demo_beat :: "u32 \<Rightarrow> demo_value goose_frame" where
  "demo_beat n = \<lparr>gf_isValid = True, gf_header = demo_header n, gf_dataSetValues = None\<rparr>"

definition demo_entry :: "bool \<Rightarrow> u64 \<Rightarrow> demo_value GooseSubscriberTargetEntry" where
  "demo_entry v t = \<lparr>te_target = demo_target, te_memberRefCache = empty_cache 0, te_rawSubscriber = Some 0,
     te_lastKnownValid = v, te_lastValidAtMs = t, te_hasForwardedStNum = False, te_lastForwardedStNum = 0\<rparr>"

definition demo_session :: "bool \<Rightarrow> u64 \<Rightarrow> demo_value goose_handle" where
  "demo_session v t = demo_idle\<lparr>gh_targetEntries := [demo_entry v t]\<rparr>"

lemma demo_session_facts:
  "handle_safe (demo_session v t)" "gh_recordCallback (demo_session v t)" "gh_statusCallback (demo_session v t)"
  "findTargetEntry (demo_session v t) 0 = Some 0" "gh_targetEntries (demo_session v t) = [demo_entry v t]"
  "listening (demo_session False t)" "gh_livenessPollMs (demo_session v t) = 0"
  by (simp_all add: demo_session_def handle_safe_def cache_safe_def demo_entry_def empty_cache_def demo_idle_def
      findTargetEntry_def listening_def)

lemma demo_build: "buildEntries L ok fuel None mc 0 = Some ([], mc)"
  by (simp add: buildEntries_def filterEntries_def)


lemma demo_start:
  "\<exists>h0. GooseSubscription_start demo_env demo_ied (Some [demo_target]) (Some demo_idle) = (GOOSE_SUBSCRIBER_OK, Some h0)"
  by (simp add: GooseSubscription_start_def demo_env_def demo_idle_def GooseSubscriberConnection_create_def
      GooseSubscriberConnection_start_def newEntries_def Let_def split: prod.split)

lemma goose_start_all_or_nothing_witness:
  "\<exists>g. GooseSubscription_start demo_env demo_ied (Some [demo_target]) (Some demo_idle) = (GOOSE_SUBSCRIBER_OK, Some g)
     \<and> started demo_env demo_ied [demo_target] g"
proof -
  obtain g where g: "GooseSubscription_start demo_env demo_ied (Some [demo_target]) (Some demo_idle) = (GOOSE_SUBSCRIBER_OK, Some g)"
    using demo_start by blast
  from goose_start_all_or_nothing [where h = demo_idle and env = demo_env and ied = demo_ied and targets = "Some [demo_target]"] g show ?thesis
    by (auto simp: demo_idle_def)
qed


lemma demo_beat_facts: "gf_isValid (demo_beat n)" "gf_dataSetValues (demo_beat n) = None" "gr_stNum (gf_header (demo_beat n)) = n"
  by (simp_all add: demo_beat_def demo_header_def)

lemma goose_heartbeat_silent_witness:
  "\<exists>h1 h2 outs. GooseSubscriberFrameAdapter_onGooseReceived demo_lib True demo_build_ok 3 9 0 (demo_beat 7) (demo_session False 0) = Some (h1, outs)
     \<and> GooseSubscriberFrameAdapter_onGooseReceived demo_lib True demo_build_ok 3 19 0 (demo_beat 7) h1 = Some (h2, [])"
proof -
  obtain h1 outs where f: "GooseSubscriberFrameAdapter_onGooseReceived demo_lib True demo_build_ok 3 9 0 (demo_beat 7) (demo_session False 0) = Some (h1, outs)"
    using frame_step_handle [OF demo_session_facts(1), of demo_lib True demo_build_ok 3 9 0 "demo_beat 7" False 0] by blast
  from goose_heartbeat_silent [OF demo_session_facts(1,2,4) demo_beat_facts(1,1) _ f] f show ?thesis by blast
qed

lemma goose_recovery_exact_witness:
  "\<exists>h' recs. GooseSubscriberFrameAdapter_onGooseReceived demo_lib True demo_build_ok 3 9 0 (demo_beat 1) (demo_session False 0)
     = Some (h', Status_Out ''CB1/LLN0$GO$gcb'' GOOSE_SUBSCRIBER_STATUS_VALID 0 # recs)"
  using goose_recovery_exact [OF demo_session_facts(2,3,4) demo_beat_facts(1), of False 0 demo_lib demo_build_ok 3 1 "[]" "empty_cache 0" 9]
  by (auto simp: demo_session_facts(5) demo_entry_def demo_target_def demo_beat_facts demo_build)

lemma goose_staleness_detected_witness:
  "\<not> te_lastKnownValid (gh_targetEntries (fst (livenessPass (\<lambda>s. 2000) (\<lambda>s. 0) 8000 (demo_session True 5000))) ! 0)"
proof -
  obtain h' outs where p: "livenessPass (\<lambda>s. 2000) (\<lambda>s. 0) 8000 (demo_session True 5000) = (h', outs)" by fastforce
  have "te_lastValidAtMs e \<le> 8000" if "e \<in> set (gh_targetEntries (demo_session True 5000))" for e
    using that by (simp add: demo_session_facts(5) demo_entry_def)
  from goose_staleness_detected [OF this demo_session_facts(3) p refl] p show ?thesis
    by (simp add: demo_session_facts(5) demo_entry_def)
qed

lemma goose_fresh_target_stale_witness: "isStale 5000 2000 (demo_entry True 5001)"
  by (rule goose_fresh_target_stale) (simp_all add: demo_entry_def)

lemma goose_poll_rate_witness:
  "4 * unat (gh_effectivePollMs (fst (livenessPass (\<lambda>s. 2000) (\<lambda>s. 0) 8000 (demo_session True 5000)))) \<le> 2000"
proof -
  obtain h' outs where p: "livenessPass (\<lambda>s. 2000) (\<lambda>s. 0) 8000 (demo_session True 5000) = (h', outs)" by fastforce
  from goose_poll_rate [OF demo_session_facts(7) p] p show ?thesis by (simp add: demo_session_facts(5))
qed

lemma goose_sleep_exact_witness:
  "sum_list (map unat (interruptibleSleep (\<lambda>k. False) 0 50 0)) = 50"
  using goose_sleep_exact [of "\<lambda>k. False" 0 50 0] by simp

end
