(* ===== verification/Mms_Report_Filter.thy ===== *)
theory Mms_Report_Filter
  imports Goose_Cache
begin

text \<open>
  \<open>mms_report_client/domain/mms_report_client_usecases.c\<close>: which entries of a report are
  forwarded. The file repeats the value-diff filter of \<open>goose_subscriber_usecases.c\<close> on its own
  cache struct and carries two more fields per entry, the server's reason and whether the entry
  itself changed; the routines on the cache are translated again here, and shown to do what
  those of \<open>Goose_Filter\<close> do. The copies that do not touch the cache (flattening, reordering,
  \<open>splitReference\<close>, \<open>resolveGroupAnchor\<close>, the comparison of values, the conversions of lists)
  are the definitions of the GOOSE theories. The conventions are theirs too: cloning is the
  identity, a read through a NULL array is \<open>None\<close>.
\<close>

section \<open>State\<close>

text \<open>The struct has the fields of the GOOSE cache and three more.\<close>

record 'v MmsReportClientMemberRefCacheEntry = "'v GooseSubscriberMemberRefCache" +
  rm_rcbReference :: "string option"
  rm_lastEntryId :: "'v option"
  rm_resolvedDatasetReference :: "string option"

record 'v MmsEntryCandidate = "'v EntryCandidate" +
  ec_reason :: int
  ec_ownChangeDetected :: bool

section \<open>Values and entry identifiers\<close>

definition MmsReportClientUseCases_isDuplicateValue :: "'v mms_lib \<Rightarrow> 'v option \<Rightarrow> 'v option \<Rightarrow> bool" where
  "MmsReportClientUseCases_isDuplicateValue L cached new =
     (case cached of
        None \<Rightarrow> False
      | Some c \<Rightarrow> (case new of None \<Rightarrow> False | Some n \<Rightarrow> valuesAreSemanticallyEqual L c n))"

text \<open>\<open>memcmp (a, b, n) <= 0\<close> on the first \<open>n\<close> bytes.\<close>

fun memcmp_le :: "nat \<Rightarrow> u8 list \<Rightarrow> u8 list \<Rightarrow> bool" where
  "memcmp_le 0 as bs = True"
| "memcmp_le (Suc n) (a # as) (b # bs) = (if a < b then True else if b < a then False else memcmp_le n as bs)"
| "memcmp_le (Suc n) as bs = True"

definition MmsReportClientUseCases_isEntryIdStale :: "'v mms_lib \<Rightarrow> 'v option \<Rightarrow> 'v option \<Rightarrow> bool" where
  "MmsReportClientUseCases_isEntryIdStale L incomingEntryId lastSeenEntryId =
     (case (incomingEntryId, lastSeenEntryId) of
        (Some inc, Some seen) \<Rightarrow>
          if ml_getType L inc \<noteq> MMS_OCTET_STRING then False
          else if ml_getType L seen \<noteq> MMS_OCTET_STRING then False
          else if ml_getOctetStringSize L inc = 0 \<or> ml_getOctetStringSize L inc \<noteq> ml_getOctetStringSize L seen then False
          else (case (ml_getOctetStringBuffer L inc, ml_getOctetStringBuffer L seen) of
                  (Some a, Some b) \<Rightarrow> memcmp_le (ml_getOctetStringSize L inc) a b
                | _ \<Rightarrow> False)
      | _ \<Rightarrow> False)"

definition MmsReportClientUseCases_shouldRequestGiOnEnable :: "bool \<Rightarrow> bool \<Rightarrow> bool" where
  "MmsReportClientUseCases_shouldRequestGiOnEnable buffered hasResumableEntryId \<longleftrightarrow> \<not> (buffered \<and> hasResumableEntryId)"

section \<open>The value-diff cache\<close>

definition updateValueDiffCache_mms ::
    "'v MmsReportClientMemberRefCacheEntry option \<Rightarrow> nat option \<Rightarrow> 'v option \<Rightarrow> 'v MmsReportClientMemberRefCacheEntry option" where
  "updateValueDiffCache_mms mc slot new =
     (case mc of
        None \<Rightarrow> None
      | Some m \<Rightarrow>
          (case mc_lastForwardedValues m of
             None \<Rightarrow> mc
           | Some vs \<Rightarrow>
               (case slot of
                  None \<Rightarrow> mc
                | Some s \<Rightarrow> if s \<ge> mc_totalLeafSlots m then mc
                            else Some (m\<lparr>mc_lastForwardedValues := Some (vs[s := new])\<rparr>))))"

definition shouldForwardAndUpdateCache_mms ::
    "'v mms_lib \<Rightarrow> 'v MmsReportClientMemberRefCacheEntry option \<Rightarrow> nat option \<Rightarrow> 'v option
     \<Rightarrow> (bool \<times> 'v option \<times> 'v MmsReportClientMemberRefCacheEntry option) option" where
  "shouldForwardAndUpdateCache_mms L mc slot val =
     (case slot of
        None \<Rightarrow> Some (True, None, mc)
      | Some s \<Rightarrow>
          (case mc of
             None \<Rightarrow> None
           | Some m \<Rightarrow>
               (case mc_lastForwardedValues m of
                  None \<Rightarrow> None
                | Some vs \<Rightarrow>
                    let cached = vs ! s in
                    if val = None then Some (False, cached, mc)
                    else if cached = None then Some (False, None, updateValueDiffCache_mms mc slot val)
                    else if MmsReportClientUseCases_isDuplicateValue L cached val then Some (False, cached, mc)
                    else Some (True, cached, updateValueDiffCache_mms mc slot val))))"

section \<open>Candidates\<close>

definition lookupSemanticForSlot_mms :: "'v MmsReportClientMemberRefCacheEntry option \<Rightarrow> nat option \<Rightarrow> IedModelDaSemantic" where
  "lookupSemanticForSlot_mms mc slot =
     (case mc of
        None \<Rightarrow> IED_MODEL_DA_SEMANTIC_NONE
      | Some m \<Rightarrow>
          (case (mc_leafSemantics m, slot) of
             (Some xs, Some s) \<Rightarrow> if s \<ge> mc_totalLeafSlots m then IED_MODEL_DA_SEMANTIC_NONE else xs ! s
           | _ \<Rightarrow> IED_MODEL_DA_SEMANTIC_NONE))"

definition lookupCategoryForSlot_mms :: "'v MmsReportClientMemberRefCacheEntry option \<Rightarrow> nat option \<Rightarrow> LnCategory" where
  "lookupCategoryForSlot_mms mc slot =
     (case mc of
        None \<Rightarrow> IED_MODEL_LN_CATEGORY_OTHER
      | Some m \<Rightarrow>
          (case (mc_leafCategories m, slot) of
             (Some xs, Some s) \<Rightarrow> if s \<ge> mc_totalLeafSlots m then IED_MODEL_LN_CATEGORY_OTHER else xs ! s
           | _ \<Rightarrow> IED_MODEL_LN_CATEGORY_OTHER))"

definition lookupAlwaysIncludeForSlot_mms :: "'v MmsReportClientMemberRefCacheEntry option \<Rightarrow> nat option \<Rightarrow> bool" where
  "lookupAlwaysIncludeForSlot_mms mc slot =
     (case mc of
        None \<Rightarrow> False
      | Some m \<Rightarrow>
          (case (mc_leafAlwaysInclude m, slot) of
             (Some xs, Some s) \<Rightarrow> if s \<ge> mc_totalLeafSlots m then False else xs ! s
           | _ \<Rightarrow> False))"

unbundle bit_operations_syntax

definition passesCategoryFilter_mms ::
    "'v MmsReportClientMemberRefCacheEntry option \<Rightarrow> nat option \<Rightarrow> LnCategory \<Rightarrow> bool" where
  "passesCategoryFilter_mms mc slot category =
     (case mc of
        None \<Rightarrow> True
      | Some m \<Rightarrow>
          if mc_categoryFilter m = 0 then True
          else if lookupAlwaysIncludeForSlot_mms mc slot then True
          else mc_categoryFilter m AND ln_category_bit category \<noteq> 0)"

definition lookupDescriptionForSlot_mms :: "'v MmsReportClientMemberRefCacheEntry option \<Rightarrow> nat option \<Rightarrow> string option" where
  "lookupDescriptionForSlot_mms mc slot =
     (case mc of
        None \<Rightarrow> None
      | Some m \<Rightarrow>
          (case (mc_leafDescriptions m, slot) of
             (Some xs, Some s) \<Rightarrow> if s \<ge> mc_totalLeafSlots m then None else xs ! s
           | _ \<Rightarrow> None))"

text \<open>The filter and \<open>appendCandidate\<close> for one leaf.\<close>

definition appendCandidate_mms ::
    "'v MmsReportClientMemberRefCacheEntry option \<Rightarrow> int \<Rightarrow> 'v option \<Rightarrow> string option \<Rightarrow> nat option \<Rightarrow> 'v MmsEntryCandidate list" where
  "appendCandidate_mms mc reason val ref slot =
     (let category = lookupCategoryForSlot_mms mc slot in
      if \<not> passesCategoryFilter_mms mc slot category then []
      else [\<lparr>ec_value = val, ec_reference = ref, ec_slot = slot, ec_previousValue = None,
             ec_semantic = lookupSemanticForSlot_mms mc slot, ec_category = category,
             ec_description = lookupDescriptionForSlot_mms mc slot, ec_reason = reason, ec_ownChangeDetected = False\<rparr>])"

text \<open>
  The candidates of dataset position \<open>i\<close>, with the reason and the data reference the server
  sent for it.
\<close>

definition memberCandidates_mms ::
    "'v mms_lib \<Rightarrow> bool \<Rightarrow> nat \<Rightarrow> 'v MmsReportClientMemberRefCacheEntry option \<Rightarrow> nat \<Rightarrow> int \<Rightarrow> string option
     \<Rightarrow> 'v option \<Rightarrow> 'v MmsEntryCandidate list" where
  "memberCandidates_mms L okReorder fuel mc i reason dataReference rawValue =
     (let hasCacheEntry = (case mc of None \<Rightarrow> False | Some m \<Rightarrow> i < mc_memberCount m);
          leafRefs = (if hasCacheEntry then
                        (case mc_memberLeafReferences (the mc) of None \<Rightarrow> None | Some rs \<Rightarrow> rs ! i)
                      else None);
          offset = (if hasCacheEntry then map_option (\<lambda>os. os ! i) (mc_leafSlotOffsets (the mc)) else None);
          ref = (case dataReference of
                   Some r \<Rightarrow> Some r
                 | None \<Rightarrow> if hasCacheEntry then
                             (case mc_memberReferences (the mc) of None \<Rightarrow> None | Some rs \<Rightarrow> rs ! i)
                           else None);
          plain = appendCandidate_mms mc reason rawValue ref offset
      in case leafRefs of
           None \<Rightarrow> plain
         | Some refs \<Rightarrow>
             (case GooseSubscriberUtils_flattenStructure L fuel rawValue of
                None \<Rightarrow> plain
              | Some flattened \<Rightarrow>
                  if flattened \<noteq> [] \<and> length flattened = mc_memberLeafCounts (the mc) ! i then
                    (case reorderFlattenedToMatchReferences okReorder L (take (length flattened) refs) flattened
                            (case mc_memberLeafWireTypes (the mc) of None \<Rightarrow> None | Some ts \<Rightarrow> ts ! i) of
                       None \<Rightarrow> plain
                     | Some reordered \<Rightarrow>
                         concat (map (\<lambda>k. appendCandidate_mms mc reason (Some (reordered ! k)) (refs ! k)
                                            (map_option (\<lambda>off. off + k) offset)) [0..<length flattened]))
                  else plain))"

text \<open>\<open>reasons\<close> and \<open>dataReferences\<close> may be NULL arrays; 32 is \<open>IEC61850_REASON_UNKNOWN\<close>.\<close>

definition collectCandidates_mms ::
    "'v mms_lib \<Rightarrow> bool \<Rightarrow> nat \<Rightarrow> 'v option \<Rightarrow> int list option \<Rightarrow> string option list option
     \<Rightarrow> 'v MmsReportClientMemberRefCacheEntry option \<Rightarrow> nat \<Rightarrow> 'v MmsEntryCandidate list" where
  "collectCandidates_mms L okReorder fuel dataSetValues reasons dataReferences mc entryCount =
     concat (map (\<lambda>i. memberCandidates_mms L okReorder fuel mc i
                        (case reasons of None \<Rightarrow> 32 | Some rs \<Rightarrow> rs ! i)
                        (case dataReferences of None \<Rightarrow> None | Some ds \<Rightarrow> ds ! i)
                        (case dataSetValues of None \<Rightarrow> None | Some d \<Rightarrow> ml_getElement L d i)) [0..<entryCount])"

section \<open>Building the entries\<close>

fun decideEach_mms ::
    "'v mms_lib \<Rightarrow> 'v MmsReportClientMemberRefCacheEntry option \<Rightarrow> 'v MmsEntryCandidate list
     \<Rightarrow> (bool list \<times> 'v MmsEntryCandidate list \<times> 'v MmsReportClientMemberRefCacheEntry option) option" where
  "decideEach_mms L mc [] = Some ([], [], mc)"
| "decideEach_mms L mc (c # cs) =
     (case shouldForwardAndUpdateCache_mms L mc (ec_slot c) (ec_value c) of
        None \<Rightarrow> None
      | Some (f, prev, mc') \<Rightarrow>
          (case decideEach_mms L mc' cs of
             None \<Rightarrow> None
           | Some (fs, cs', mc'') \<Rightarrow>
               Some (f # fs, c\<lparr>ec_previousValue := prev, ec_ownChangeDetected := f\<rparr> # cs', mc'')))"

text \<open>Emit the forwarded candidates (\<open>appendEntry\<close>) and store their values.\<close>

fun emitEntries_mms ::
    "'v MmsReportClientMemberRefCacheEntry option \<Rightarrow> ('v MmsEntryCandidate \<times> bool) list
     \<Rightarrow> 'v mms_point_entry list \<times> 'v MmsReportClientMemberRefCacheEntry option" where
  "emitEntries_mms mc [] = ([], mc)"
| "emitEntries_mms mc ((c, f) # cfs) =
     (if \<not> f then emitEntries_mms mc cfs
      else
        let (es, mc') = emitEntries_mms (updateValueDiffCache_mms mc (ec_slot c) (ec_value c)) cfs
        in (\<lparr>pe_reference = ec_reference c, pe_value = ec_value c, pe_previousValue = ec_previousValue c,
             pe_semantic = ec_semantic c, pe_category = ec_category c, pe_description = ec_description c,
             pe_reason = ec_reason c, pe_ownChangeDetected = ec_ownChangeDetected c\<rparr> # es, mc'))"

definition filterEntries_mms ::
    "'v mms_lib \<Rightarrow> build_allocs \<Rightarrow> 'v MmsEntryCandidate list \<Rightarrow> 'v MmsReportClientMemberRefCacheEntry option
     \<Rightarrow> ('v mms_point_entry list \<times> 'v MmsReportClientMemberRefCacheEntry option) option" where
  "filterEntries_mms L ok cs mc =
     (let plain = map EntryCandidate.truncate cs;
          anchors = (if ok_anchors ok then groupAnchors plain else []);
          groupIdx = map (\<lambda>c. resolveGroupAnchor (ec_reference c) anchors) cs;
          populated = map_option (\<lambda>m. if cs \<noteq> [] then m\<lparr>mc_everPopulated := True\<rparr> else m)
      in if \<not> ok_forward ok then Some ([], populated mc)
         else case decideEach_mms L mc cs of
           None \<Rightarrow> None
         | Some (forward, cs', mc') \<Rightarrow>
             let forward' = (if ok_group ok then extendGroups (map EntryCandidate.truncate cs') groupIdx forward else forward);
                 (es, mc'') = emitEntries_mms mc' (zip cs' forward')
             in Some (es, populated mc''))"

definition buildEntries_mms ::
    "'v mms_lib \<Rightarrow> build_allocs \<Rightarrow> nat \<Rightarrow> 'v option \<Rightarrow> int list option \<Rightarrow> string option list option
     \<Rightarrow> 'v MmsReportClientMemberRefCacheEntry option \<Rightarrow> int
     \<Rightarrow> ('v mms_point_entry list \<times> 'v MmsReportClientMemberRefCacheEntry option) option" where
  "buildEntries_mms L ok fuel dataSetValues reasons dataReferences mc entryCount =
     (if entryCount \<le> 0 then Some ([], mc)
      else filterEntries_mms L ok
             (collectCandidates_mms L (ok_reorder ok) fuel dataSetValues reasons dataReferences mc (nat entryCount)) mc)"

text \<open>\<open>hdr\<close> carries the header fields of the report; only the entries are computed.\<close>

definition MmsReportClientUseCases_buildReportRecord ::
    "'v mms_lib \<Rightarrow> bool \<Rightarrow> build_allocs \<Rightarrow> nat \<Rightarrow> 'v MmsReportRecord \<Rightarrow> 'v option \<Rightarrow> int list option
     \<Rightarrow> string option list option \<Rightarrow> 'v MmsReportClientMemberRefCacheEntry option \<Rightarrow> int
     \<Rightarrow> ('v MmsReportRecord option \<times> 'v MmsReportClientMemberRefCacheEntry option) option" where
  "MmsReportClientUseCases_buildReportRecord L okRecord ok fuel hdr dataSetValues reasons dataReferences mc entryCount =
     (if \<not> okRecord then Some (None, mc)
      else case buildEntries_mms L ok fuel dataSetValues reasons dataReferences mc entryCount of
        None \<Rightarrow> None
      | Some (es, mc') \<Rightarrow>
          Some (Some (hdr\<lparr>mr_entryId := (if mr_hasEntryId hdr then mr_entryId hdr else None), mr_entries := es\<rparr>), mc'))"

section \<open>Reconnecting\<close>

definition MmsReportClientUseCases_computeNextBackoffDelay :: "u32 \<Rightarrow> u32 \<Rightarrow> u32 \<Rightarrow> u32" where
  "MmsReportClientUseCases_computeNextBackoffDelay currentDelayMs initialMs maxMs =
     (if currentDelayMs = 0 then initialMs
      else let doubled = (ucast currentDelayMs :: u64) * 2
           in if doubled > ucast maxMs then maxMs else ucast doubled)"

definition MmsReportClientUseCases_swapMemberRefCacheEntryShape ::
    "'v MmsReportClientMemberRefCacheEntry option \<Rightarrow> 'v MmsReportClientMemberRefCacheEntry option
     \<Rightarrow> 'v MmsReportClientMemberRefCacheEntry option" where
  "MmsReportClientUseCases_swapMemberRefCacheEntryShape entry fresh =
     (case (entry, fresh) of
        (Some e, Some f) \<Rightarrow>
          Some (e\<lparr>mc_memberReferences := mc_memberReferences f, mc_memberCount := mc_memberCount f,
                  mc_memberLeafReferences := mc_memberLeafReferences f, mc_memberLeafCounts := mc_memberLeafCounts f,
                  mc_leafSlotOffsets := mc_leafSlotOffsets f, mc_totalLeafSlots := mc_totalLeafSlots f,
                  mc_lastForwardedValues := mc_lastForwardedValues f, mc_memberLeafWireTypes := mc_memberLeafWireTypes f,
                  mc_leafSemantics := mc_leafSemantics f, mc_leafCategories := mc_leafCategories f,
                  mc_leafAlwaysInclude := mc_leafAlwaysInclude f, mc_categoryFilter := mc_categoryFilter f,
                  mc_leafDescriptions := mc_leafDescriptions f, mc_everPopulated := False,
                  rm_lastEntryId := None, rm_resolvedDatasetReference := rm_resolvedDatasetReference f\<rparr>)
      | _ \<Rightarrow> entry)"

definition MmsReportClientUseCases_resetValueDiffCacheToBootstrap ::
    "'v MmsReportClientMemberRefCacheEntry option \<Rightarrow> 'v MmsReportClientMemberRefCacheEntry option" where
  "MmsReportClientUseCases_resetValueDiffCacheToBootstrap entry =
     (case entry of
        None \<Rightarrow> None
      | Some e \<Rightarrow>
          (case mc_lastForwardedValues e of
             None \<Rightarrow> entry
           | Some vs \<Rightarrow> Some (e\<lparr>mc_lastForwardedValues :=
                 Some (map (\<lambda>i. if i < mc_totalLeafSlots e then None else vs ! i) [0..<length vs]),
                 mc_everPopulated := False\<rparr>)))"

section \<open>The cache of a report control block\<close>

text \<open>The accessors of \<open>ied_model\<close> keyed by a member reference.\<close>

record mref_services = ied_services +
  is_getLeafReferencesForMemberReference :: "string option \<Rightarrow> string option list option"
  is_getLeafWireTypesForMemberReference :: "string option \<Rightarrow> DataAttributeType list option"
  is_getSemanticForMemberReference :: "string option \<Rightarrow> IedModelDaSemantic"
  is_getLeafSemanticsForMemberReference :: "string option \<Rightarrow> IedModelDaSemantic list option"

record entry_allocs = resolve_allocs +
  ra_cacheEntry :: bool

text \<open>
  \<open>None\<close> is a write outside an array, \<open>Some None\<close> a NULL result. The members are only walked
  when all eleven work arrays were allocated; when the three slot tables were and another was
  not, the counts stay zero and the flattening loops write slot 0 of arrays of length 0.
\<close>

definition MmsReportClientUseCases_buildMemberRefCacheEntry ::
    "entry_allocs \<Rightarrow> mref_services \<Rightarrow> string option \<Rightarrow> string option list option \<Rightarrow> string option
     \<Rightarrow> 'v MmsReportClientMemberRefCacheEntry option option" where
  "MmsReportClientUseCases_buildMemberRefCacheEntry ra ied rcbReference array resolvedDatasetReference =
     (case array of
        None \<Rightarrow> Some None
      | Some refs \<Rightarrow>
          if refs = [] then Some None
          else
            let count = length refs;
                tables = (ra_leafRefsArray ra \<and> ra_leafCounts ra \<and> ra_leafOffsets ra);
                complete = (tables \<and> ra_rawSemantics ra \<and> ra_leafSemArray ra \<and> ra_leafSemCounts ra \<and> ra_rawCategories ra
                  \<and> ra_rawAlwaysInclude ra \<and> ra_rawDescriptions ra \<and> ra_leafDescArray ra \<and> ra_leafDescCounts ra);
                leafRefs = (\<lambda>m. if complete then linkedListToStringArray (ra_memberLeaves ra m)
                                   (is_getLeafReferencesForMemberReference ied (refs ! m)) else None);
                leafCounts = map (\<lambda>m. array_count (leafRefs m)) [0..<count];
                wireTypes = (\<lambda>m. if \<not> complete then None
                               else case linkedListToWireTypeArray (ra_memberWireTypes ra m)
                                           (is_getLeafWireTypesForMemberReference ied (refs ! m)) of
                                 None \<Rightarrow> None
                               | Some ts \<Rightarrow> if length ts = leafCounts ! m then Some ts else None);
                leafSem = (\<lambda>m. linkedListToSemanticArray (ra_memberSemantics ra m)
                                  (is_getLeafSemanticsForMemberReference ied (refs ! m)));
                leafDesc = (\<lambda>m. linkedListToDescriptionArray (ra_memberDescriptions ra m)
                                  (is_getLeafDescriptionsForMemberReference ied (refs ! m)));
                (leafOffsets, totalSlots) = (if complete then slotOffsets leafCounts 0 else (replicate count 0, 0));
                outside = (tables \<and> \<not> complete \<and>
                  (ra_leafCategories ra \<or> (ra_leafSemantics ra \<and> ra_rawSemantics ra)
                   \<or> (ra_leafAlwaysInclude ra \<and> ra_rawAlwaysInclude ra) \<or> (ra_leafDescriptions ra \<and> ra_rawDescriptions ra)))
            in if outside then None
               else if \<not> (ra_cacheEntry ra \<and> tables \<and> ra_lastForwardedValues ra) then Some None
               else Some (Some
                 \<lparr>mc_memberReferences = Some refs, mc_memberCount = count,
                  mc_memberLeafReferences = Some (map leafRefs [0..<count]),
                  mc_memberLeafCounts = leafCounts,
                  mc_memberLeafWireTypes = (if ra_leafWireTypesArray ra then Some (map wireTypes [0..<count]) else None),
                  mc_leafSlotOffsets = Some leafOffsets, mc_totalLeafSlots = totalSlots,
                  mc_lastForwardedValues = Some (replicate totalSlots None),
                  mc_leafSemantics =
                    (if \<not> ra_leafSemantics ra then None
                     else if \<not> complete then Some []
                     else Some (flattenSlots leafOffsets leafCounts
                                  (semanticsOf leafCounts leafSem (Some (map (is_getSemanticForMemberReference ied) refs)))
                                  (replicate totalSlots IED_MODEL_DA_SEMANTIC_NONE))),
                  mc_leafCategories =
                    (if \<not> ra_leafCategories ra then None
                     else Some (flattenSlots leafOffsets leafCounts
                                  (\<lambda>m. Some (\<lambda>k. is_getCategoryForMemberReference ied (refs ! m)))
                                  (replicate totalSlots IED_MODEL_LN_CATEGORY_OTHER))),
                  mc_leafAlwaysInclude =
                    (if \<not> ra_leafAlwaysInclude ra then None
                     else if \<not> complete then Some []
                     else Some (flattenSlots leafOffsets leafCounts
                                  (\<lambda>m. Some (\<lambda>k. is_isMemberReferenceAlwaysIncluded ied (refs ! m)))
                                  (replicate totalSlots False))),
                  mc_categoryFilter = is_getCategoryFilter ied,
                  mc_leafDescriptions =
                    (if \<not> ra_leafDescriptions ra then None
                     else if \<not> complete then Some []
                     else Some (flattenSlots leafOffsets leafCounts
                                  (descriptionsOf leafCounts leafDesc (Some (map (is_getDescriptionForMemberReference ied) refs)))
                                  (replicate totalSlots None))),
                  mc_everPopulated = False, rm_rcbReference = rcbReference, rm_lastEntryId = None,
                  rm_resolvedDatasetReference = resolvedDatasetReference\<rparr>))"

section \<open>The same filter\<close>

text \<open>The part of a cache entry, and of a candidate, that the GOOSE filter knows.\<close>

abbreviation shape :: "'v MmsReportClientMemberRefCacheEntry \<Rightarrow> 'v GooseSubscriberMemberRefCache" where
  "shape \<equiv> GooseSubscriberMemberRefCache.truncate"

abbreviation plainly :: "'v MmsEntryCandidate \<Rightarrow> 'v EntryCandidate" where
  "plainly \<equiv> EntryCandidate.truncate"

lemma shape_simps [simp]:
  "mc_lastForwardedValues (shape m) = mc_lastForwardedValues m" "mc_totalLeafSlots (shape m) = mc_totalLeafSlots m"
  "mc_leafSemantics (shape m) = mc_leafSemantics m" "mc_leafCategories (shape m) = mc_leafCategories m"
  "mc_leafAlwaysInclude (shape m) = mc_leafAlwaysInclude m" "mc_leafDescriptions (shape m) = mc_leafDescriptions m"
  "mc_categoryFilter (shape m) = mc_categoryFilter m" "mc_memberCount (shape m) = mc_memberCount m"
  "mc_memberReferences (shape m) = mc_memberReferences m" "mc_memberLeafReferences (shape m) = mc_memberLeafReferences m"
  "mc_memberLeafCounts (shape m) = mc_memberLeafCounts m" "mc_memberLeafWireTypes (shape m) = mc_memberLeafWireTypes m"
  "mc_leafSlotOffsets (shape m) = mc_leafSlotOffsets m" "mc_everPopulated (shape m) = mc_everPopulated m"
  "shape (m\<lparr>mc_lastForwardedValues := vs\<rparr>) = (shape m)\<lparr>mc_lastForwardedValues := vs\<rparr>"
  "shape (m\<lparr>mc_everPopulated := b\<rparr>) = (shape m)\<lparr>mc_everPopulated := b\<rparr>"
  "shape (m\<lparr>rm_lastEntryId := e\<rparr>) = shape m"
  by (cases m; simp add: GooseSubscriberMemberRefCache.defs)+

lemma plainly_simps [simp]:
  "ec_value (plainly c) = ec_value c" "ec_reference (plainly c) = ec_reference c" "ec_slot (plainly c) = ec_slot c"
  "ec_previousValue (plainly c) = ec_previousValue c" "ec_semantic (plainly c) = ec_semantic c"
  "ec_category (plainly c) = ec_category c" "ec_description (plainly c) = ec_description c"
  "plainly (c\<lparr>ec_previousValue := p\<rparr>) = (plainly c)\<lparr>ec_previousValue := p\<rparr>"
  "plainly (c\<lparr>ec_ownChangeDetected := b\<rparr>) = plainly c"
  by (cases c; simp add: EntryCandidate.defs)+

lemma isDuplicate_same [simp]:
  "MmsReportClientUseCases_isDuplicateValue L = GooseSubscriberUseCases_isDuplicateValue L"
  by (intro ext) (simp add: MmsReportClientUseCases_isDuplicateValue_def GooseSubscriberUseCases_isDuplicateValue_def split: option.split)

lemma lookups_same:
  "lookupSemanticForSlot_mms mc slot = lookupSemanticForSlot (map_option shape mc) slot"
  "lookupCategoryForSlot_mms mc slot = lookupCategoryForSlot (map_option shape mc) slot"
  "lookupAlwaysIncludeForSlot_mms mc slot = lookupAlwaysIncludeForSlot (map_option shape mc) slot"
  "lookupDescriptionForSlot_mms mc slot = lookupDescriptionForSlot (map_option shape mc) slot"
  by (cases mc; simp add: lookupSemanticForSlot_mms_def lookupSemanticForSlot_def lookupCategoryForSlot_mms_def
      lookupCategoryForSlot_def lookupAlwaysIncludeForSlot_mms_def lookupAlwaysIncludeForSlot_def
      lookupDescriptionForSlot_mms_def lookupDescriptionForSlot_def split: option.split)+

lemma passes_same: "passesCategoryFilter_mms mc slot cat = passesCategoryFilter (map_option shape mc) slot cat"
  by (cases mc) (simp_all add: passesCategoryFilter_mms_def passesCategoryFilter_def lookups_same)

lemma append_same: "map plainly (appendCandidate_mms mc reason v ref slot) = candidateFor (map_option shape mc) v ref slot"
  by (simp add: appendCandidate_mms_def candidateFor_def Let_def lookups_same passes_same EntryCandidate.defs)

lemma update_same:
  "map_option shape (updateValueDiffCache_mms mc slot v) = updateValueDiffCache (map_option shape mc) slot v"
  by (cases mc; cases slot) (auto simp: updateValueDiffCache_mms_def updateValueDiffCache_def split: option.split)

lemma shouldForward_same:
  "map_option (\<lambda>(f, p, m). (f, p, map_option shape m)) (shouldForwardAndUpdateCache_mms L mc slot v)
     = shouldForwardAndUpdateCache L (map_option shape mc) slot v"
  by (cases slot; cases mc)
    (auto simp: shouldForwardAndUpdateCache_mms_def shouldForwardAndUpdateCache_def Let_def update_same split: option.split)

text \<open>The candidates sit in the slots the GOOSE filter gives them, whatever references the server sent.\<close>

lemma append_slots: "map ec_slot (appendCandidate_mms mc reason v ref slot) = map ec_slot (candidateFor (map_option shape mc) v ref' slot)"
  by (simp add: appendCandidate_mms_def candidateFor_def Let_def lookups_same passes_same)

lemma concat_slots:
  fixes f :: "nat \<Rightarrow> 'v MmsEntryCandidate list" and g :: "nat \<Rightarrow> 'v EntryCandidate list"
  assumes "\<And>k. map ec_slot (f k) = map ec_slot (g k)"
  shows "map ec_slot (concat (map f xs)) = map ec_slot (concat (map g xs))"
  using assms by (induction xs) auto

lemma member_slots:
  "map ec_slot (memberCandidates_mms L r fuel mc i reason dr raw) = map ec_slot (memberCandidates L r fuel (map_option shape mc) i raw)"
proof (cases mc)
  case None
  show ?thesis
    unfolding memberCandidates_mms_def memberCandidates_def Let_def None
    by (simp add: append_slots [of None, simplified])
next
  case (Some m)
  note a = append_slots [of "Some m", simplified]
  show ?thesis
    unfolding memberCandidates_mms_def memberCandidates_def Let_def Some
    by (auto split: option.split intro!: concat_slots a)
qed

lemma collect_slots:
  "map ec_slot (collectCandidates_mms L r fuel d rs drs mc n) = map ec_slot (collectCandidates L r fuel d (map_option shape mc) n)"
  unfolding collectCandidates_mms_def collectCandidates_def by (rule concat_slots) (rule member_slots)

lemma slots_ok_slots:
  "slots_ok n cs \<longleftrightarrow> (\<forall>s \<in> set (map ec_slot cs). \<exists>t < n. s = Some t) \<and> distinct (map the (map ec_slot cs))"
proof -
  have e: "map slot_of cs = map the (map ec_slot cs)" by (simp add: slot_of_def)
  show ?thesis unfolding slots_ok_def e by simp
qed

lemma slots_ok_cong: "map ec_slot cs = map ec_slot ds \<Longrightarrow> slots_ok n cs = slots_ok n ds"
  unfolding slots_ok_slots by simp

lemma decide_same:
  "case decideEach_mms L mc cs of
     None \<Rightarrow> decideEach L (map_option shape mc) (map plainly cs) = None
   | Some (fs, cs', mc') \<Rightarrow>
       decideEach L (map_option shape mc) (map plainly cs) = Some (fs, map plainly cs', map_option shape mc')
       \<and> length fs = length cs \<and> length cs' = length cs
       \<and> (\<forall>i < length cs. ec_reason (cs' ! i) = ec_reason (cs ! i) \<and> ec_ownChangeDetected (cs' ! i) = fs ! i)"
proof (induction cs arbitrary: mc)
  case (Cons c cs)
  show ?case
  proof (cases "shouldForwardAndUpdateCache_mms L mc (ec_slot c) (ec_value c)")
    case None
    with shouldForward_same [of L mc "ec_slot c" "ec_value c", symmetric] show ?thesis by simp
  next
    case (Some r)
    obtain f p m1 where r: "r = (f, p, m1)" by (cases r)
    from Cons.IH [of m1] shouldForward_same [of L mc "ec_slot c" "ec_value c", symmetric] Some r show ?thesis
      by (auto simp: nth_Cons split: option.splits nat.split)
  qed
qed simp

definition mms_entry_of :: "'v MmsEntryCandidate \<Rightarrow> 'v mms_point_entry" where
  "mms_entry_of c = \<lparr>pe_reference = ec_reference c, pe_value = ec_value c, pe_previousValue = ec_previousValue c,
     pe_semantic = ec_semantic c, pe_category = ec_category c, pe_description = ec_description c,
     pe_reason = ec_reason c, pe_ownChangeDetected = ec_ownChangeDetected c\<rparr>"

lemma emit_same:
  "fst (emitEntries_mms mc cfs) = map (mms_entry_of \<circ> fst) (filter snd cfs)"
  "map_option shape (snd (emitEntries_mms mc cfs)) = snd (emitEntries (map_option shape mc) (map (apfst plainly) cfs))"
  by (induction cfs arbitrary: mc) (auto simp: mms_entry_of_def update_same split_beta)

lemma entry_same: "point_entry.truncate (mms_entry_of c) = entry_of (plainly c)"
  by (simp add: mms_entry_of_def entry_of_def point_entry.defs)

lemma emit_entries: "fst (emitEntries mc cfs) = map (entry_of \<circ> fst) (filter snd cfs)"
  by (induction cfs arbitrary: mc) (auto simp: entry_of_def split_beta)

lemma filter_same:
  "map_option (\<lambda>(es, m). (map point_entry.truncate es, map_option shape m)) (filterEntries_mms L ok cs mc)
     = filterEntries L ok (map plainly cs) (map_option shape mc)"
proof -
  have pop: "map_option shape (map_option (\<lambda>m. if b then m\<lparr>mc_everPopulated := True\<rparr> else m) x)
      = map_option (\<lambda>m. if b then m\<lparr>mc_everPopulated := True\<rparr> else m) (map_option shape x)" for b x
    by (cases x) simp_all
  have em: "(map point_entry.truncate (fst (emitEntries_mms m (zip cs' fs))), map_option shape (snd (emitEntries_mms m (zip cs' fs))))
      = emitEntries (map_option shape m) (zip (map plainly cs') fs)" for m cs' and fs :: "bool list"
  proof -
    have z: "zip (map plainly cs') fs = map (apfst plainly) (zip cs' fs)" by (simp add: zip_map1 apfst_def map_prod_def)
    have "map point_entry.truncate (fst (emitEntries_mms m (zip cs' fs))) = fst (emitEntries (map_option shape m) (zip (map plainly cs') fs))"
      unfolding z emit_same(1) emit_entries by (simp add: entry_same filter_map comp_def)
    then show ?thesis using emit_same(2) [of m "zip cs' fs"] z by (metis prod.collapse)
  qed
  show ?thesis
  proof (cases "decideEach_mms L mc cs")
    case None
    with decide_same [of L mc cs] show ?thesis
      by (simp add: filterEntries_mms_def filterEntries_def Let_def pop)
  next
    case (Some r)
    obtain fs cs' m1 where r: "r = (fs, cs', m1)" by (cases r)
    from decide_same [of L mc cs] Some r
    have d: "decideEach L (map_option shape mc) (map plainly cs) = Some (fs, map plainly cs', map_option shape m1)" by simp
    define anchors where "anchors = (if ok_anchors ok then groupAnchors (map plainly cs) else [])"
    define fw where "fw = (if ok_group ok then extendGroups (map plainly cs') (map (\<lambda>c. resolveGroupAnchor (ec_reference c) anchors) cs) fs else fs)"
    obtain es m2 where e: "emitEntries_mms m1 (zip cs' fw) = (es, m2)" by (cases "emitEntries_mms m1 (zip cs' fw)")
    from em [of m1 cs' fw] e
    have g: "emitEntries (map_option shape m1) (zip (map plainly cs') fw) = (map point_entry.truncate es, map_option shape m2)" by simp
    have gi: "map (\<lambda>c. resolveGroupAnchor (ec_reference c) anchors) (map plainly cs) = map (\<lambda>c. resolveGroupAnchor (ec_reference c) anchors) cs"
      by simp
    show ?thesis
      unfolding filterEntries_mms_def filterEntries_def Let_def Some r d option.case prod.case
        anchors_def [symmetric] gi fw_def [symmetric] e g by (simp add: pop)
  qed
qed

section \<open>One report as a function of the cached values\<close>

lemma candidate_eqI:
  "plainly a = plainly b \<Longrightarrow> ec_reason a = ec_reason b \<Longrightarrow> ec_ownChangeDetected a = ec_ownChangeDetected b \<Longrightarrow> a = b"
  for a b :: "'v MmsEntryCandidate"
  by (cases a; cases b) (simp add: EntryCandidate.defs)

text \<open>Nothing but the cached values of the entry changes while the candidates are decided and emitted.\<close>

lemma same_values: "\<exists>vs. m = m\<lparr>mc_lastForwardedValues := vs\<rparr>"
  by (rule exI [of _ "mc_lastForwardedValues m"]) simp

lemma update_rest: "\<exists>vs. updateValueDiffCache_mms (Some m) s v = Some (m\<lparr>mc_lastForwardedValues := vs\<rparr>)"
  by (auto simp: updateValueDiffCache_mms_def same_values split: option.split)

lemma should_rest:
  "shouldForwardAndUpdateCache_mms L (Some m) s v = Some (f, p, mc') \<Longrightarrow> \<exists>vs. mc' = Some (m\<lparr>mc_lastForwardedValues := vs\<rparr>)"
proof -
  assume "shouldForwardAndUpdateCache_mms L (Some m) s v = Some (f, p, mc')"
  then have "mc' = Some m \<or> mc' = updateValueDiffCache_mms (Some m) s v"
    by (auto simp: shouldForwardAndUpdateCache_mms_def Let_def split: option.splits if_splits)
  then show ?thesis using update_rest [of m s v] same_values [of m] by auto
qed

lemma decide_rest:
  "decideEach_mms L (Some m) cs = Some (fs, cs', mc') \<Longrightarrow> \<exists>vs. mc' = Some (m\<lparr>mc_lastForwardedValues := vs\<rparr>)"
proof (induction cs arbitrary: m fs cs')
  case Nil
  then show ?case using same_values [of m] by auto
next
  case (Cons c cs)
  then obtain f p m1 fs' cs'' where 1: "shouldForwardAndUpdateCache_mms L (Some m) (ec_slot c) (ec_value c) = Some (f, p, m1)"
    and 2: "decideEach_mms L m1 cs = Some (fs', cs'', mc')" by (auto split: option.splits)
  from should_rest [OF 1] obtain ws where "m1 = Some (m\<lparr>mc_lastForwardedValues := ws\<rparr>)" by blast
  with Cons.IH [of "m\<lparr>mc_lastForwardedValues := ws\<rparr>"] 2 show ?case by auto
qed

lemma emit_rest: "\<exists>vs. snd (emitEntries_mms (Some m) cfs) = Some (m\<lparr>mc_lastForwardedValues := vs\<rparr>)"
proof (induction cfs arbitrary: m)
  case Nil
  then show ?case using same_values [of m] by simp
next
  case (Cons cf cfs)
  obtain c f where cf: "cf = (c, f)" by fastforce
  obtain ws where u: "updateValueDiffCache_mms (Some m) (ec_slot c) (ec_value c) = Some (m\<lparr>mc_lastForwardedValues := ws\<rparr>)"
    using update_rest by blast
  show ?case using Cons.IH [of m] Cons.IH [of "m\<lparr>mc_lastForwardedValues := ws\<rparr>"] by (auto simp: cf u split_beta)
qed

text \<open>The candidate after its own decision.\<close>

definition decided :: "'v mms_lib \<Rightarrow> 'v option list \<Rightarrow> 'v MmsEntryCandidate \<Rightarrow> 'v MmsEntryCandidate" where
  "decided L vs c = c\<lparr>ec_previousValue := vs ! slot_of (plainly c), ec_ownChangeDetected := changed L vs (plainly c)\<rparr>"

lemma decide_mms_eq:
  assumes "slots_ok (mc_totalLeafSlots m) (map plainly cs)" and "mc_lastForwardedValues m = Some vs"
  shows "\<exists>ws. decideEach_mms L (Some m) cs
    = Some (map (changed L vs \<circ> plainly) cs, map (decided L vs) cs, Some (m\<lparr>mc_lastForwardedValues := ws\<rparr>))"
proof -
  have w: "shape m = with_values (shape m) vs" using assms(2) by simp
  have ok: "slots_ok (mc_totalLeafSlots (shape m)) (map plainly cs)" using assms(1) by simp
  note d = decideEach_eq [OF ok, of L vs, folded w]
  obtain r where r: "decideEach_mms L (Some m) cs = Some r"
    using decide_same [of L "Some m" cs] d by (auto split: option.splits)
  obtain fs cs' mc' where rr: "r = (fs, cs', mc')" by (cases r)
  from decide_same [of L "Some m" cs] r rr
  have g: "decideEach L (Some (shape m)) (map plainly cs) = Some (fs, map plainly cs', map_option shape mc')"
    and len: "length cs' = length cs"
    and k: "\<forall>i < length cs. ec_reason (cs' ! i) = ec_reason (cs ! i) \<and> ec_ownChangeDetected (cs' ! i) = fs ! i" by simp_all
  have fs: "fs = map (changed L vs \<circ> plainly) cs"
    and cs': "map plainly cs' = map (\<lambda>c. (plainly c)\<lparr>ec_previousValue := vs ! slot_of (plainly c)\<rparr>) cs"
    using g d by (simp_all add: comp_def)
  have "cs' = map (decided L vs) cs"
  proof (rule nth_equalityI)
    fix i assume "i < length cs'"
    then have i: "i < length cs" by (simp add: len)
    have "plainly (cs' ! i) = (plainly (cs ! i))\<lparr>ec_previousValue := vs ! slot_of (plainly (cs ! i))\<rparr>"
      using arg_cong [OF cs', of "\<lambda>xs. xs ! i"] i len by simp
    with k i fs show "cs' ! i = map (decided L vs) cs ! i"
      by (intro candidate_eqI) (simp_all add: decided_def)
  qed (simp add: len)
  with decide_rest [of L m cs fs cs' mc'] r rr fs show ?thesis by auto
qed

text \<open>A report over a well laid out cache.\<close>

definition report_input :: "'v mms_lib \<Rightarrow> build_allocs \<Rightarrow> nat \<Rightarrow> 'v option \<Rightarrow> int list option \<Rightarrow> string option list option
    \<Rightarrow> 'v MmsReportClientMemberRefCacheEntry \<Rightarrow> 'v option list \<Rightarrow> nat \<Rightarrow> 'v MmsEntryCandidate list \<Rightarrow> bool" where
  "report_input L ok fuel d rs drs m vs n cs \<longleftrightarrow> (\<exists>os. layout_ok (shape m) os) \<and> mc_lastForwardedValues m = Some vs
     \<and> length vs = mc_totalLeafSlots m \<and> 0 < n \<and> n \<le> mc_memberCount m
     \<and> ok_anchors ok \<and> ok_group ok \<and> ok_forward ok
     \<and> cs = collectCandidates_mms L (ok_reorder ok) fuel d rs drs (Some m) n"

lemma report_filter_input:
  assumes "report_input L ok fuel d rs drs m vs n cs"
  shows "filter_input ok (shape m) vs (map plainly cs)"
proof -
  obtain os where "layout_ok (shape m) os" "n \<le> mc_memberCount (shape m)" using assms by (auto simp: report_input_def)
  from collect_slots_ok [OF this] have "slots_ok (mc_totalLeafSlots m) (collectCandidates L (ok_reorder ok) fuel d (Some (shape m)) n)"
    by simp
  moreover have "map ec_slot (map plainly cs) = map ec_slot cs" by simp
  then have "map ec_slot (map plainly cs) = map ec_slot (collectCandidates L (ok_reorder ok) fuel d (Some (shape m)) n)"
    using assms collect_slots [of L "ok_reorder ok" fuel d rs drs "Some m" n] unfolding report_input_def by simp
  ultimately have "slots_ok (mc_totalLeafSlots m) (map plainly cs)" using slots_ok_cong by blast
  with assms show ?thesis by (simp add: filter_input_def report_input_def)
qed

lemma filter_mms_step:
  assumes "filter_input ok (shape m) vs (map plainly cs)"
  shows "\<exists>vs'. filterEntries_mms L ok cs (Some m) =
      Some (map (\<lambda>i. mms_entry_of (decided L vs (cs ! i))) (filter (forwards L vs (map plainly cs)) [0..<length cs]),
            Some (m\<lparr>mc_lastForwardedValues := Some vs', mc_everPopulated := mc_everPopulated m \<or> cs \<noteq> []\<rparr>))
    \<and> length vs' = length vs
    \<and> (\<forall>i < length cs. vs' ! slot_of (plainly (cs ! i)) =
         (if forwards L vs (map plainly cs) i \<or> news L vs (plainly (cs ! i)) then ec_value (cs ! i)
          else vs ! slot_of (plainly (cs ! i))))
    \<and> (\<forall>s. s \<notin> (slot_of \<circ> plainly) ` set cs \<longrightarrow> vs' ! s = vs ! s)"
proof -
  have in1: "slots_ok (mc_totalLeafSlots m) (map plainly cs)" "mc_lastForwardedValues m = Some vs"
    and ok: "ok_anchors ok" "ok_group ok" "ok_forward ok" using assms by (simp_all add: filter_input_def)
  from decide_mms_eq [OF in1, of L] obtain ws where d: "decideEach_mms L (Some m) cs
    = Some (map (changed L vs \<circ> plainly) cs, map (decided L vs) cs, Some (m\<lparr>mc_lastForwardedValues := ws\<rparr>))" by blast
  define fs where "fs = map (changed L vs \<circ> plainly) cs"
  define fw where "fw = extendGroups (map plainly (map (decided L vs) cs))
    (map (\<lambda>c. resolveGroupAnchor (ec_reference c) (groupAnchors (map plainly cs))) cs) fs"
  have len: "length fw = length cs" by (simp add: fw_def fs_def extendGroups_def)
  have fwd: "fw ! i \<longleftrightarrow> forwards L vs (map plainly cs) i" if "i < length cs" for i
    using extended_iff [of i fs "map plainly (map (decided L vs) cs)"] that
    by (auto simp: fw_def forwards_def group_of_def fs_def decided_def)
  from emit_rest [of "m\<lparr>mc_lastForwardedValues := ws\<rparr>" "zip (map (decided L vs) cs) fw"]
  obtain us where e: "snd (emitEntries_mms (Some (m\<lparr>mc_lastForwardedValues := ws\<rparr>)) (zip (map (decided L vs) cs) fw))
    = Some (m\<lparr>mc_lastForwardedValues := us\<rparr>)" by auto
  have ix: "filter ((!) fw) [0..<length cs] = filter (forwards L vs (map plainly cs)) [0..<length cs]"
    by (rule filter_cong [OF refl]) (simp add: fwd)
  have "map (mms_entry_of \<circ> fst) (filter snd (zip (map (decided L vs) cs) fw))
      = map mms_entry_of (map ((!) (map (decided L vs) cs)) (filter ((!) fw) [0..<length cs]))"
    using zip_filter_snd [of fw "map (decided L vs) cs"] len by (simp flip: map_map)
  then have es: "fst (emitEntries_mms (Some (m\<lparr>mc_lastForwardedValues := ws\<rparr>)) (zip (map (decided L vs) cs) fw))
      = map (\<lambda>i. mms_entry_of (decided L vs (cs ! i))) (filter (forwards L vs (map plainly cs)) [0..<length cs])"
    unfolding emit_same(1) ix by simp
  have f: "filterEntries_mms L ok cs (Some m) =
      Some (map (\<lambda>i. mms_entry_of (decided L vs (cs ! i))) (filter (forwards L vs (map plainly cs)) [0..<length cs]),
            Some (m\<lparr>mc_lastForwardedValues := us, mc_everPopulated := mc_everPopulated m \<or> cs \<noteq> []\<rparr>))"
    using es e by (simp add: filterEntries_mms_def Let_def ok d fw_def fs_def split_beta comp_def)
  from filter_step [OF assms, of L] obtain vs' where g: "filterEntries L ok (map plainly cs) (Some (shape m)) =
      Some (map (\<lambda>i. entry_of ((map plainly cs ! i)\<lparr>ec_previousValue := vs ! slot_of (map plainly cs ! i)\<rparr>))
              (filter (forwards L vs (map plainly cs)) [0..<length (map plainly cs)]),
            Some ((shape m)\<lparr>mc_lastForwardedValues := Some vs', mc_everPopulated := mc_everPopulated (shape m) \<or> map plainly cs \<noteq> []\<rparr>))"
    and v: "length vs' = length vs"
      "\<forall>i < length (map plainly cs). vs' ! slot_of (map plainly cs ! i) =
         (if forwards L vs (map plainly cs) i \<or> news L vs (map plainly cs ! i) then ec_value (map plainly cs ! i)
          else vs ! slot_of (map plainly cs ! i))"
      "\<forall>s. s \<notin> slot_of ` set (map plainly cs) \<longrightarrow> vs' ! s = vs ! s" by blast
  have "us = Some vs'"
    using filter_same [of L ok cs "Some m"] g unfolding f
    by (auto dest: arg_cong [of _ _ mc_lastForwardedValues])
  with f v show ?thesis by (auto simp: image_comp)
qed

text \<open>C12. What a report forwards, exactly: over a cache laid out as the client builds it and with
  memory available, \<open>buildEntries\<close> returns (no invalid access), its entries are in order the
  candidates that changed against the cached value or share a group with one that did, each
  with the server's reason for its position, the cached value as its previous value and the
  flag that tells an own change from a group member carried along, and afterwards the cache
  holds the new value of every forwarded or first-seen leaf, the old value everywhere else,
  and the entry keeps its report reference and entry identifier.\<close>

theorem mms_report_exact:
  assumes "report_input L ok fuel d rs drs m vs n cs"
  shows "\<exists>vs'. buildEntries_mms L ok fuel d rs drs (Some m) (int n) =
      Some (map (\<lambda>i. mms_entry_of (decided L vs (cs ! i))) (filter (forwards L vs (map plainly cs)) [0..<length cs]),
            Some (m\<lparr>mc_lastForwardedValues := Some vs', mc_everPopulated := mc_everPopulated m \<or> cs \<noteq> []\<rparr>))
    \<and> length vs' = length vs
    \<and> (\<forall>i < length cs. vs' ! slot_of (plainly (cs ! i)) =
         (if forwards L vs (map plainly cs) i \<or> news L vs (plainly (cs ! i)) then ec_value (cs ! i)
          else vs ! slot_of (plainly (cs ! i))))
    \<and> (\<forall>s. s \<notin> (slot_of \<circ> plainly) ` set cs \<longrightarrow> vs' ! s = vs ! s)"
proof -
  have e: "buildEntries_mms L ok fuel d rs drs (Some m) (int n) = filterEntries_mms L ok cs (Some m)"
    using assms by (simp add: buildEntries_mms_def report_input_def)
  show ?thesis unfolding e by (rule filter_mms_step [OF report_filter_input [OF assms]])
qed


section \<open>A fresh cache entry\<close>

text \<open>All work arrays were allocated, and the optional tables or not.\<close>

definition entry_allocated :: "entry_allocs \<Rightarrow> bool" where
  "entry_allocated ra \<longleftrightarrow> ra_leafRefsArray ra \<and> ra_leafCounts ra \<and> ra_leafOffsets ra \<and> ra_rawSemantics ra
     \<and> ra_leafSemArray ra \<and> ra_leafSemCounts ra \<and> ra_rawCategories ra \<and> ra_rawAlwaysInclude ra
     \<and> ra_rawDescriptions ra \<and> ra_leafDescArray ra \<and> ra_leafDescCounts ra \<and> ra_cacheEntry ra \<and> ra_lastForwardedValues ra"

definition entry_leaves :: "entry_allocs \<Rightarrow> mref_services \<Rightarrow> string option list \<Rightarrow> nat \<Rightarrow> string option list option" where
  "entry_leaves ra ied refs m = linkedListToStringArray (ra_memberLeaves ra m) (is_getLeafReferencesForMemberReference ied (refs ! m))"

lemma entry_fields:
  assumes "entry_allocated ra" and "refs \<noteq> []"
    and "cs = map (\<lambda>m. array_count (entry_leaves ra ied refs m)) [0..<length refs]"
  shows "\<exists>e. MmsReportClientUseCases_buildMemberRefCacheEntry ra ied rcb (Some refs) ds = Some (Some e)
    \<and> mc_memberLeafReferences e = Some (map (entry_leaves ra ied refs) [0..<length refs])
    \<and> mc_memberLeafCounts e = cs \<and> mc_memberCount e = length refs
    \<and> mc_leafSlotOffsets e = Some (fst (slotOffsets cs 0)) \<and> mc_totalLeafSlots e = snd (slotOffsets cs 0)
    \<and> mc_lastForwardedValues e = Some (replicate (snd (slotOffsets cs 0)) None)
    \<and> \<not> mc_everPopulated e \<and> rm_lastEntryId e = None \<and> rm_rcbReference e = rcb \<and> rm_resolvedDatasetReference e = ds"
  using assms
  by (simp add: MmsReportClientUseCases_buildMemberRefCacheEntry_def entry_allocated_def Let_def split_beta
      entry_leaves_def [abs_def])

lemma entry_layout:
  assumes "entry_allocated ra" and "refs \<noteq> []"
  obtains e :: "'v MmsReportClientMemberRefCacheEntry" and os where "MmsReportClientUseCases_buildMemberRefCacheEntry ra ied rcb (Some refs) ds = Some (Some e)"
    and "layout_ok (shape e) os" and "mc_memberCount e = length refs"
    and "mc_lastForwardedValues e = Some (replicate (mc_totalLeafSlots e) None)"
    and "rm_lastEntryId e = None" and "rm_rcbReference e = rcb"
proof -
  define cs where "cs = map (\<lambda>m. array_count (entry_leaves ra ied refs m)) [0..<length refs]"
  from entry_fields [OF assms cs_def, of rcb ds] obtain e :: "'v MmsReportClientMemberRefCacheEntry"
    where e: "MmsReportClientUseCases_buildMemberRefCacheEntry ra ied rcb (Some refs) ds = Some (Some e)"
    and f: "mc_memberLeafReferences (shape e) = Some (map (entry_leaves ra ied refs) [0..<length refs])"
      "mc_memberLeafCounts (shape e) = cs" "mc_memberCount (shape e) = length refs"
      "mc_leafSlotOffsets (shape e) = Some (fst (slotOffsets cs 0))" "mc_totalLeafSlots (shape e) = snd (slotOffsets cs 0)"
    and g: "mc_lastForwardedValues e = Some (replicate (snd (slotOffsets cs 0)) None)" "rm_lastEntryId e = None"
      "rm_rcbReference e = rcb" by auto
  have p: "entry_leaves ra ied refs i = Some xs \<Longrightarrow> 0 < length xs" for i xs
    using array_count_string by (simp add: entry_leaves_def)
  have lay: "layout_ok (shape e) (fst (slotOffsets cs 0))"
    by (rule layout_from_leaves(1) [OF f(1,2) cs_def p f(3,4,5)])
  show ?thesis using that [OF e lay _ _ g(2,3)] f(3,5) g(1) by simp
qed

text \<open>A fresh cache makes the first report a silent snapshot: with memory available, the cache entry
  built for any non-empty list of member references lays its slots out so that the first report
  over any number of those members is processed without an invalid access, forwards nothing,
  and stores the value of every leaf it carried.\<close>

theorem mms_fresh_cache_first_report_silent:
  fixes L :: "'v mms_lib"
  assumes "entry_allocated ra" and "refs \<noteq> []" and "0 < n" and "n \<le> length refs"
    and "ok_anchors ok" and "ok_group ok" and "ok_forward ok"
  shows "\<exists>e e' vs'. MmsReportClientUseCases_buildMemberRefCacheEntry ra ied rcb (Some refs) ds = Some (Some e)
    \<and> buildEntries_mms L ok fuel d rs drs (Some e) (int n) = Some ([], Some e')
    \<and> mc_lastForwardedValues e' = Some vs'
    \<and> (\<forall>c \<in> set (collectCandidates_mms L (ok_reorder ok) fuel d rs drs (Some e) n). vs' ! the (ec_slot c) = ec_value c)"
proof -
  from entry_layout [OF assms(1,2), of ied rcb ds] obtain e :: "'v MmsReportClientMemberRefCacheEntry" and os
    where e: "MmsReportClientUseCases_buildMemberRefCacheEntry ra ied rcb (Some refs) ds = Some (Some e)"
    and l: "layout_ok (shape e) os" "mc_memberCount e = length refs"
      "mc_lastForwardedValues e = Some (replicate (mc_totalLeafSlots e) None)" by metis
  define cs where "cs = collectCandidates_mms L (ok_reorder ok) fuel d rs drs (Some e) n"
  define vs where "vs = replicate (mc_totalLeafSlots e) (None :: 'v option)"
  have ri: "report_input L ok fuel d rs drs e vs n cs"
    using l assms(3-7) unfolding report_input_def cs_def vs_def by auto
  note fi = report_filter_input [OF ri]
  have none: "vs ! slot_of (plainly (cs ! i)) = None" if "i < length cs" for i
    using fi nth_mem [OF that] by (auto simp: filter_input_def slots_ok_def slot_of_def vs_def)
  then have nc: "\<not> changed L vs (plainly (cs ! i))" if "i < length cs" for i using that by (simp add: changed_def)
  then have nf: "\<not> forwards L vs (map plainly cs) i" if "i < length cs" for i using that by (auto simp: forwards_def)
  then have em: "filter (forwards L vs (map plainly cs)) [0..<length cs] = []" by (simp add: filter_empty_conv)
  have b: "buildEntries_mms L ok fuel d rs drs (Some e) (int n) = filterEntries_mms L ok cs (Some e)"
    using assms(3) by (simp add: buildEntries_mms_def cs_def)
  from filter_mms_step [OF fi, of L, unfolded em] obtain vs'
    where f: "filterEntries_mms L ok cs (Some e) =
      Some ([], Some (e\<lparr>mc_lastForwardedValues := Some vs', mc_everPopulated := mc_everPopulated e \<or> cs \<noteq> []\<rparr>))"
    and v: "\<forall>i < length cs. vs' ! slot_of (plainly (cs ! i)) =
         (if forwards L vs (map plainly cs) i \<or> news L vs (plainly (cs ! i)) then ec_value (cs ! i)
          else vs ! slot_of (plainly (cs ! i)))" by auto
  have "vs' ! the (ec_slot c) = ec_value c" if "c \<in> set cs" for c
  proof -
    from that obtain i where i: "i < length cs" "cs ! i = c" unfolding in_set_conv_nth by blast
    have "vs' ! slot_of (plainly c) = ec_value c" using v [rule_format, OF i(1)] none [OF i(1)] nf [OF i(1)] by (simp add: i(2) news_def)
    then show ?thesis by (simp add: slot_of_def)
  qed
  with e f b show ?thesis unfolding cs_def by fastforce
qed

text \<open>A failed allocation while the cache entry is built can become a write outside the arrays:
  when the three slot tables and the category table were allocated but any other work array was not,
  the members are never counted, the tables have length zero and the first member's slot is
  written all the same.\<close>

theorem entry_cache_partial_allocation_overruns:
  assumes "refs \<noteq> []" and "ra_leafRefsArray ra" and "ra_leafCounts ra" and "ra_leafOffsets ra" and "ra_leafCategories ra"
    and "\<not> (ra_rawSemantics ra \<and> ra_leafSemArray ra \<and> ra_leafSemCounts ra \<and> ra_rawCategories ra \<and> ra_rawAlwaysInclude ra
       \<and> ra_rawDescriptions ra \<and> ra_leafDescArray ra \<and> ra_leafDescCounts ra)"
  shows "MmsReportClientUseCases_buildMemberRefCacheEntry ra ied rcb (Some refs) ds = None"
  using assms by (simp add: MmsReportClientUseCases_buildMemberRefCacheEntry_def Let_def split_beta)

section \<open>The reconnect delay\<close>

lemma backoff_doubled: "unat ((ucast (c :: u32) :: u64) * 2) = 2 * unat c"
proof -
  have "unat c < 2 ^ 32" using unsigned_less [of c] by simp
  then show ?thesis by (simp add: unat_word_ariths unsigned_ucast_eq take_bit_nat_eq_self)
qed

lemma backoff_step:
  assumes "c \<noteq> 0"
  shows "unat (MmsReportClientUseCases_computeNextBackoffDelay c i m) = min (2 * unat c) (unat m)"
proof -
  have u: "unat (ucast m :: u64) = unat m" 
  proof -
    have "unat m < 2 ^ 32" using unsigned_less [of m] by simp
    then show ?thesis by (simp add: unsigned_ucast_eq take_bit_nat_eq_self)
  qed
  have cmp: "ucast m < (ucast c :: u64) * 2 \<longleftrightarrow> unat m < 2 * unat c"
    by (simp only: word_less_nat_alt u backoff_doubled)
  show ?thesis
  proof (cases "unat m < 2 * unat c")
    case True
    with assms cmp show ?thesis by (simp add: MmsReportClientUseCases_computeNextBackoffDelay_def Let_def)
  next
    case False
    have "unat m < 2 ^ 32" using unsigned_less [of m] by simp
    with False have "unat (ucast ((ucast c :: u64) * 2) :: u32) = 2 * unat c"
      by (simp only: unsigned_ucast_eq backoff_doubled) (simp add: take_bit_nat_eq_self)
    with False cmp assms show ?thesis by (simp add: MmsReportClientUseCases_computeNextBackoffDelay_def Let_def)
  qed
qed

lemma backoff_iter:
  assumes "0 < i" and "i \<le> m"
  shows "unat (((\<lambda>d. MmsReportClientUseCases_computeNextBackoffDelay d i m) ^^ Suc k) 0) = min (unat i * 2 ^ k) (unat m) \<and> ((\<lambda>d. MmsReportClientUseCases_computeNextBackoffDelay d i m) ^^ Suc k) 0 \<noteq> 0"
proof (induction k)
  case 0
  have "unat i \<le> unat m" using assms(2) by (simp add: word_le_nat_alt)
  with assms(1) show ?case by (simp add: MmsReportClientUseCases_computeNextBackoffDelay_def)
next
  case (Suc k)
  define d where "d = ((\<lambda>d. MmsReportClientUseCases_computeNextBackoffDelay d i m) ^^ Suc k) 0"
  from Suc have d: "unat d = min (unat i * 2 ^ k) (unat m)" "d \<noteq> 0" by (simp_all add: d_def)
  have e: "((\<lambda>d. MmsReportClientUseCases_computeNextBackoffDelay d i m) ^^ Suc (Suc k)) 0 = MmsReportClientUseCases_computeNextBackoffDelay d i m" by (simp add: d_def)
  have n: "unat (MmsReportClientUseCases_computeNextBackoffDelay d i m) = min (unat i * 2 ^ Suc k) (unat m)" using backoff_step [OF d(2), of i m] d(1) by simp
  have "0 < unat i" "0 < unat m" using assms by (auto simp: word_less_nat_alt word_le_nat_alt)
  then have "0 < unat (MmsReportClientUseCases_computeNextBackoffDelay d i m)" unfolding n by simp
  then have "MmsReportClientUseCases_computeNextBackoffDelay d i m \<noteq> 0" by (simp add: unat_gt_0)
  with n show ?case unfolding e by blast
qed
text \<open>The reconnect delay doubles up to its limit: after \<open>k + 1\<close> failed attempts the delay is exactly
  \<open>initial * 2^k\<close> or the limit, whichever is smaller; the doubling in 64 bits never wraps, so
  the delay never falls back to zero.\<close>

theorem backoff_exact:
  assumes "0 < i" and "i \<le> m"
  shows "unat (((\<lambda>d. MmsReportClientUseCases_computeNextBackoffDelay d i m) ^^ Suc k) 0) = min (unat i * 2 ^ k) (unat m)"
  using backoff_iter [OF assms] by blast

lemma backoff_exact_witness:
  "unat (((\<lambda>d. MmsReportClientUseCases_computeNextBackoffDelay d 500 30000) ^^ Suc 6) 0) = 30000"
  using backoff_exact [of 500 30000 6] by simp

section \<open>The breaker position as a report\<close>

definition demo_entry :: "demo_value option list \<Rightarrow> demo_value MmsReportClientMemberRefCacheEntry" where
  "demo_entry vs = \<lparr>mc_memberReferences = Some [Some ''P''], mc_memberCount = 1,
     mc_memberLeafReferences = Some [Some [Some ''P$stVal'', Some ''P$q'']], mc_memberLeafCounts = [2],
     mc_memberLeafWireTypes = None, mc_leafSlotOffsets = Some [0], mc_totalLeafSlots = 2,
     mc_lastForwardedValues = Some vs, mc_leafSemantics = None, mc_leafCategories = None,
     mc_leafAlwaysInclude = None, mc_categoryFilter = 0, mc_leafDescriptions = None, mc_everPopulated = True,
     rm_rcbReference = Some ''LLN0$BR$rcb'', rm_lastEntryId = None, rm_resolvedDatasetReference = None\<rparr>"

definition demo_mms_candidate :: "demo_value \<Rightarrow> string \<Rightarrow> nat \<Rightarrow> demo_value MmsEntryCandidate" where
  "demo_mms_candidate v ref s = \<lparr>ec_value = Some v, ec_reference = Some ref, ec_slot = Some s, ec_previousValue = None,
     ec_semantic = IED_MODEL_DA_SEMANTIC_NONE, ec_category = IED_MODEL_LN_CATEGORY_OTHER, ec_description = None,
     ec_reason = 1, ec_ownChangeDetected = False\<rparr>"

lemma demo_mms_candidates:
  "collectCandidates_mms demo_lib True 3 (Some (demo_frame b)) (Some [1]) None (Some (demo_entry vs)) 1
     = [demo_mms_candidate (Demo_Bool b) ''P$stVal'' 0, demo_mms_candidate (Demo_Bits 13 0) ''P$q'' 1]"
proof -
  have "ml_getElement demo_lib (demo_frame b) 0 = Some (Demo_Struct [Demo_Bool b, Demo_Bits 13 0])"
    by (simp add: demo_lib_def demo_frame_def)
  then show ?thesis
    by (simp add: collectCandidates_mms_def memberCandidates_mms_def demo_entry_def demo_flatten demo_reorder Let_def
        appendCandidate_mms_def lookupCategoryForSlot_mms_def passesCategoryFilter_mms_def lookupSemanticForSlot_mms_def
        lookupDescriptionForSlot_mms_def demo_mms_candidate_def upt_rec)
qed

lemma demo_report_input:
  assumes "length vs = 2"
  shows "report_input demo_lib demo_build_ok 3 (Some (demo_frame b)) (Some [1]) None (demo_entry vs) vs 1
    [demo_mms_candidate (Demo_Bool b) ''P$stVal'' 0, demo_mms_candidate (Demo_Bits 13 0) ''P$q'' 1]"
proof -
  have "layout_ok (shape (demo_entry vs)) [0]" by (simp add: layout_ok_def member_width_def) (simp add: demo_entry_def)
  then show ?thesis
    using assms demo_mms_candidates [of b vs]
    by (auto simp: report_input_def demo_build_ok_def) (simp_all add: demo_entry_def)
qed

lemma mms_report_exact_witness:
  "\<exists>m'. buildEntries_mms demo_lib demo_build_ok 3 (Some (demo_frame True)) (Some [1]) None
       (Some (demo_entry [Some (Demo_Bool False), Some (Demo_Bits 13 0)])) 1
     = Some ([mms_entry_of ((demo_mms_candidate (Demo_Bool True) ''P$stVal'' 0)\<lparr>ec_previousValue := Some (Demo_Bool False), ec_ownChangeDetected := True\<rparr>),
              mms_entry_of ((demo_mms_candidate (Demo_Bits 13 0) ''P$q'' 1)\<lparr>ec_previousValue := Some (Demo_Bits 13 0)\<rparr>)], m')"
proof -
  define vs where "vs = [Some (Demo_Bool False), Some (Demo_Bits 13 0)]"
  define cs where "cs = [demo_mms_candidate (Demo_Bool True) ''P$stVal'' 0, demo_mms_candidate (Demo_Bits 13 0) ''P$q'' 1]"
  have ri: "report_input demo_lib demo_build_ok 3 (Some (demo_frame True)) (Some [1]) None (demo_entry vs) vs 1 cs"
    unfolding cs_def by (rule demo_report_input) (simp add: vs_def)
  have g: "group_of (map plainly cs) 0 = Some 0" "group_of (map plainly cs) 1 = Some 0"
    by (simp_all add: cs_def group_of_def groupAnchors_def splitReference_def demo_mms_candidate_def List.map_filter_def
        resolveGroupAnchor_def strneq_def EntryCandidate.defs)
  have ch: "changed demo_lib vs (map plainly cs ! 0)" "\<not> changed demo_lib vs (map plainly cs ! 1)"
    by (simp_all add: cs_def vs_def changed_def slot_of_def demo_mms_candidate_def valuesAreSemanticallyEqual_def
        demo_lib_def EntryCandidate.defs)
  have l: "length cs = 2" and v: "ec_value (map plainly cs ! 1) \<noteq> None" by (simp_all add: cs_def demo_mms_candidate_def)
  have f0: "forwards demo_lib vs (map plainly cs) 0" using ch by (simp add: forwards_def)
  have "\<exists>j < length (map plainly cs). changed demo_lib vs (map plainly cs ! j) \<and> group_of (map plainly cs) j = group_of (map plainly cs) 1"
    using ch g l by (intro exI [of _ 0]) simp
  then have f1: "forwards demo_lib vs (map plainly cs) 1" using v g by (simp add: forwards_def)
  have ix: "filter (forwards demo_lib vs (map plainly cs)) [0..<length cs] = [0, 1]" using f0 f1 l by (simp add: upt_rec)
  have dd: "map (\<lambda>i. mms_entry_of (decided demo_lib vs (cs ! i))) [0, 1]
    = [mms_entry_of ((demo_mms_candidate (Demo_Bool True) ''P$stVal'' 0)\<lparr>ec_previousValue := Some (Demo_Bool False), ec_ownChangeDetected := True\<rparr>),
       mms_entry_of ((demo_mms_candidate (Demo_Bits 13 0) ''P$q'' 1)\<lparr>ec_previousValue := Some (Demo_Bits 13 0)\<rparr>)]"
    using ch l by (simp add: decided_def cs_def vs_def slot_of_def demo_mms_candidate_def EntryCandidate.defs)
  from mms_report_exact [OF ri, unfolded ix dd] show ?thesis unfolding vs_def by auto
qed

text \<open>The switch position and the counter again, by member reference.\<close>

definition demo_mref :: mref_services where
  "demo_mref = ied_services.extend demo_ied
     (mref_services.fields (\<lambda>r. if r = Some ''XCBR1$ST$Pos'' then Some [Some ''XCBR1$ST$Pos$stVal'', Some ''XCBR1$ST$Pos$q''] else None)
        (\<lambda>r. None) (\<lambda>r. IED_MODEL_DA_SEMANTIC_NONE) (\<lambda>r. None))"

definition demo_entry_ok :: "bool \<Rightarrow> entry_allocs" where
  "demo_entry_ok b = resolve_allocs.extend (demo_resolve_ok\<lparr>ra_rawSemantics := b\<rparr>) (entry_allocs.fields True)"

lemma demo_entry_allocated: "entry_allocated (demo_entry_ok True)"
  by (simp add: entry_allocated_def demo_entry_ok_def demo_resolve_ok_def resolve_allocs.defs entry_allocs.defs)

lemma mms_fresh_cache_first_report_silent_witness:
  "\<exists>e e'. MmsReportClientUseCases_buildMemberRefCacheEntry (demo_entry_ok True) demo_mref (Some ''rcb'')
        (Some [Some ''XCBR1$ST$Pos'', Some ''GGIO1$ST$Cnt$stVal'']) None = Some (Some e)
     \<and> buildEntries_mms demo_lib demo_build_ok 3 (Some (demo_frame True)) None None (Some e) 1 = Some ([], Some e')"
proof -
  have ok: "ok_anchors demo_build_ok" "ok_group demo_build_ok" "ok_forward demo_build_ok" by (simp_all add: demo_build_ok_def)
  have n: "[Some ''XCBR1$ST$Pos'', Some ''GGIO1$ST$Cnt$stVal''] \<noteq> []" "0 < (1 :: nat)"
    "1 \<le> length [Some ''XCBR1$ST$Pos'', Some ''GGIO1$ST$Cnt$stVal'']" by simp_all
  from mms_fresh_cache_first_report_silent [OF demo_entry_allocated n ok, of demo_mref "Some ''rcb''" None demo_lib 3
      "Some (demo_frame True)" None None] show ?thesis by auto
qed

lemma entry_cache_partial_allocation_overruns_witness:
  "(MmsReportClientUseCases_buildMemberRefCacheEntry (demo_entry_ok False) demo_mref None (Some [Some ''XCBR1$ST$Pos'']) None
     :: demo_value MmsReportClientMemberRefCacheEntry option option) = None"
  by (rule entry_cache_partial_allocation_overruns)
    (simp_all add: demo_entry_ok_def demo_resolve_ok_def resolve_allocs.defs entry_allocs.defs)

end
