(* ===== verification/Mms_Rcb_Enable.thy ===== *)
theory Mms_Rcb_Enable
  imports Client_Error Mms_Report_Filter "HOL-Library.State_Monad"
begin

text \<open>
  \<open>mms_report_client/data/mms_report_client_connection.c\<close>, first part: how a report control
  block of the device is claimed, configured and enabled. The calls on the connection, the
  data set manager and the stop flag are functions on an abstract world \<open>'w\<close> (the device, the
  other clients, the passing of time); every read, write, handler and status callback is
  recorded in a log, so that what the device is asked to do, and in which order, can be
  stated. The steps are programs of the state monad. Log lines have no model; reports that
  arrive while a block is being enabled are processed before or after the enable.
\<close>

section \<open>The library\<close>

datatype RcbElement =
    RCB_ELEMENT_RESV | RCB_ELEMENT_RESV_TMS | RCB_ELEMENT_RPT_ENA | RCB_ELEMENT_DATSET
  | RCB_ELEMENT_OPT_FLDS | RCB_ELEMENT_TRG_OPS | RCB_ELEMENT_ENTRY_ID | RCB_ELEMENT_GI

text \<open>The attributes of a \<open>ClientReportControlBlock\<close>; \<open>None\<close> for \<open>rcb_resvTms\<close>: not present.\<close>

record 'v rcb =
  rcb_rptId :: "string option"
  rcb_rptEna :: bool
  rcb_datSet :: "string option"
  rcb_optFlds :: u32
  rcb_trgOps :: u32
  rcb_bufTm :: u32
  rcb_intgPd :: u32
  rcb_confRev :: u32
  rcb_sqNum :: u16
  rcb_entryId :: "'v option"
  rcb_gi :: bool
  rcb_resv :: bool
  rcb_resvTms :: "int option"
  rcb_owner :: "'v option"

section \<open>Data\<close>

record ReportControlBlockTarget =
  rt_objectReference :: "string option"
  rt_buffered :: bool
  rt_datasetReference :: "string option"
  rt_lnReference :: "string option"

datatype MmsDatasetTier =
    MMS_DATASET_TIER_NONE | MMS_DATASET_TIER_SCL | MMS_DATASET_TIER_LIVE
  | MMS_DATASET_TIER_ADOPTED | MMS_DATASET_TIER_SELF_CREATED

record MmsDatasetResolution =
  dr_datasetReference :: "string option"
  dr_tier :: MmsDatasetTier
  dr_memberReferences :: "string option list option"
  dr_wasNeeded :: bool

record RcbLiveState =
  ls_readOk :: bool
  ls_rptEna :: bool
  ls_datSet :: "string option"
  ls_optFlds :: u32
  ls_trgOps :: u32
  ls_bufTm :: u32
  ls_intgPd :: u32
  ls_confRev :: u32
  ls_sqNum :: u16
  ls_hasEntryId :: bool
  ls_resv :: bool
  ls_hasResvTms :: bool
  ls_resvTms :: int
  ls_owner :: "string option"

datatype RcbStepVerify =
    RCB_STEP_VERIFY_NONE
  | RCB_STEP_VERIFY_DATSET "string option"
  | RCB_STEP_VERIFY_OPT_FLDS u32
  | RCB_STEP_VERIFY_TRG_OPS u32
  | RCB_STEP_VERIFY_RPT_ENA bool

text \<open>The expected value is an argument of the verification it belongs to.\<close>

record RcbStep =
  sp_element :: RcbElement
  sp_verify :: RcbStepVerify
  sp_noTempUnavailableRetry :: bool

datatype RcbEnableOutcome =
    RCB_ENABLE_OUTCOME_ENABLED | RCB_ENABLE_OUTCOME_NOT_NEEDED | RCB_ENABLE_OUTCOME_OWNED_ELSEWHERE
  | RCB_ENABLE_OUTCOME_FAILED | RCB_ENABLE_OUTCOME_SKIPPED_STOPPING

datatype RcbReserveResult =
    RCB_RESERVE_ACQUIRED | RCB_RESERVE_UNSUPPORTED | RCB_RESERVE_OWNED_ELSEWHERE | RCB_RESERVE_FAILED

record RcbEnableCycleState =
  cy_consecutiveOwnedElsewhere :: nat
  cy_reservationRetriesDisabled :: bool
  cy_consecutiveObjectDoesNotExist :: nat
  cy_modelMismatchReported :: bool

section \<open>The client and its environment\<close>

text \<open>What the client does to its surroundings.\<close>

datatype 'v rcb_event =
    Ev_read "string option" "'v rcb option"
  | Ev_write "string option" RcbElement "'v rcb" IedClientError
  | Ev_resolve "string option"
  | Ev_install "string option" "string option"
  | Ev_uninstall "string option"
  | Ev_status "string option" bool IedClientError

text \<open>
  \<open>en_entryAllocs\<close> and \<open>en_arrayAlloc\<close> say which allocations of a rebuild of a cache entry
  succeed; the constants are those of the library's header.
\<close>

record ('v, 'w) mms_env =
  en_stopRequested :: "'w \<Rightarrow> bool"
  en_sleep :: "u32 \<Rightarrow> 'w \<Rightarrow> 'w"
  en_getRCBValues :: "string option \<Rightarrow> 'w \<Rightarrow> IedClientError \<times> 'v rcb option \<times> 'w"
  en_setRCBValues :: "string option \<Rightarrow> RcbElement \<Rightarrow> 'v rcb \<Rightarrow> 'w \<Rightarrow> IedClientError \<times> 'w"
  en_beginCycle :: "'w \<Rightarrow> 'w"
  en_endCycle :: "bool \<Rightarrow> 'w \<Rightarrow> 'w"
  en_resolveForTarget :: "ReportControlBlockTarget \<Rightarrow> 'w \<Rightarrow> MmsDatasetResolution \<times> 'w"
  en_hasRcbStatusCallback :: bool
  en_lib :: "'v mms_lib"
  en_ied :: mref_services
  en_entryAllocs :: "'w \<Rightarrow> entry_allocs"
  en_arrayAlloc :: "'w \<Rightarrow> bool"
  en_RPT_OPT_ENTRY_ID :: u32
  en_TRG_OPT_DATA_CHANGED :: u32
  en_TRG_OPT_QUALITY_CHANGED :: u32
  en_TRG_OPT_GI :: u32

text \<open>\<open>cl_overrun\<close> is set when building a cache entry wrote outside its arrays.\<close>

record ('v, 'w) client =
  cl_world :: 'w
  cl_memberRefCache :: "'v MmsReportClientMemberRefCacheEntry list option"
  cl_overrun :: bool
  cl_log :: "'v rcb_event list"

type_synonym ('v, 'w, 'a) prog = "(('v, 'w) client, 'a) state"

abbreviation return :: "'a \<Rightarrow> ('v, 'w, 'a) prog" where
  "return \<equiv> State_Monad.return"

definition stopRequested :: "('v, 'w) mms_env \<Rightarrow> ('v, 'w, bool) prog" where
  "stopRequested env = State (\<lambda>s. (en_stopRequested env (cl_world s), s))"

definition log_event :: "'v rcb_event \<Rightarrow> ('v, 'w, unit) prog" where
  "log_event e = State (\<lambda>s. ((), s\<lparr>cl_log := cl_log s @ [e]\<rparr>))"

definition getRCBValues :: "('v, 'w) mms_env \<Rightarrow> string option \<Rightarrow> ('v, 'w, IedClientError \<times> 'v rcb option) prog" where
  "getRCBValues env obj = State (\<lambda>s.
     let (err, r, w) = en_getRCBValues env obj (cl_world s)
     in ((err, r), s\<lparr>cl_world := w, cl_log := cl_log s @ [Ev_read obj r]\<rparr>))"

definition setRCBValues :: "('v, 'w) mms_env \<Rightarrow> string option \<Rightarrow> RcbElement \<Rightarrow> 'v rcb \<Rightarrow> ('v, 'w, IedClientError) prog" where
  "setRCBValues env obj el r = State (\<lambda>s.
     let (err, w) = en_setRCBValues env obj el r (cl_world s)
     in (err, s\<lparr>cl_world := w, cl_log := cl_log s @ [Ev_write obj el r err]\<rparr>))"

definition resolveForTarget :: "('v, 'w) mms_env \<Rightarrow> ReportControlBlockTarget \<Rightarrow> ('v, 'w, MmsDatasetResolution) prog" where
  "resolveForTarget env target = State (\<lambda>s.
     let (r, w) = en_resolveForTarget env target (cl_world s)
     in (r, s\<lparr>cl_world := w, cl_log := cl_log s @ [Ev_resolve (rt_objectReference target)]\<rparr>))"

definition rcbStatusCallback :: "('v, 'w) mms_env \<Rightarrow> string option \<Rightarrow> bool \<Rightarrow> IedClientError \<Rightarrow> ('v, 'w, unit) prog" where
  "rcbStatusCallback env obj enabled err =
     (if en_hasRcbStatusCallback env then log_event (Ev_status obj enabled err) else return ())"

definition change_world :: "('w \<Rightarrow> 'w) \<Rightarrow> ('v, 'w, unit) prog" where
  "change_world f = State (\<lambda>s. ((), s\<lparr>cl_world := f (cl_world s)\<rparr>))"

definition change_cache ::
    "('v MmsReportClientMemberRefCacheEntry list option \<Rightarrow> 'v MmsReportClientMemberRefCacheEntry list option) \<Rightarrow> ('v, 'w, unit) prog" where
  "change_cache f = State (\<lambda>s. ((), s\<lparr>cl_memberRefCache := f (cl_memberRefCache s)\<rparr>))"

definition get_client :: "('v, 'w, ('v, 'w) client) prog" where
  "get_client = State (\<lambda>s. (s, s))"

definition overrun :: "('v, 'w, unit) prog" where
  "overrun = State (\<lambda>s. ((), s\<lparr>cl_overrun := True\<rparr>))"

section \<open>The cache entry of a block\<close>

definition lookupMemberRefCacheByRcb ::
    "'v MmsReportClientMemberRefCacheEntry list option \<Rightarrow> string option \<Rightarrow> nat option" where
  "lookupMemberRefCacheByRcb cache rcbReference =
     (case (cache, rcbReference) of
        (Some es, Some r) \<Rightarrow> find_index (\<lambda>e. rm_rcbReference e = Some r) es
      | _ \<Rightarrow> None)"

text \<open>The rebuild both reconciliations end with.\<close>

definition swapFreshEntry ::
    "('v, 'w) mms_env \<Rightarrow> ReportControlBlockTarget \<Rightarrow> nat \<Rightarrow> string option list \<Rightarrow> string \<Rightarrow> ('v, 'w, unit) prog" where
  "swapFreshEntry env target i refs ds = do {
     s \<leftarrow> get_client;
     (case MmsReportClientUseCases_buildMemberRefCacheEntry (en_entryAllocs env (cl_world s)) (en_ied env)
             (rt_objectReference target) (Some refs) (Some ds) of
        None \<Rightarrow> overrun
      | Some None \<Rightarrow> return ()
      | Some (Some fresh) \<Rightarrow>
          change_cache (map_option (\<lambda>es. es[i := the (MmsReportClientUseCases_swapMemberRefCacheEntryShape
                                                      (Some (es ! i)) (Some fresh))])))
   }"

definition refreshPulledMemberRefCache ::
    "('v, 'w) mms_env \<Rightarrow> ReportControlBlockTarget \<Rightarrow> string option \<Rightarrow> string option list option \<Rightarrow> ('v, 'w, unit) prog" where
  "refreshPulledMemberRefCache env target liveDataset memberRefs =
     (case liveDataset of
        None \<Rightarrow> return ()
      | Some ds \<Rightarrow> do {
          s \<leftarrow> get_client;
          (case lookupMemberRefCacheByRcb (cl_memberRefCache s) (rt_objectReference target) of
             None \<Rightarrow> return ()
           | Some i \<Rightarrow>
               if rm_resolvedDatasetReference (the (cl_memberRefCache s) ! i) = Some ds then return ()
               else (case memberRefs of
                       None \<Rightarrow> return ()
                     | Some refs \<Rightarrow>
                         if refs = [] then return ()
                         else if \<not> en_arrayAlloc env (cl_world s) then return ()
                         else swapFreshEntry env target i refs ds))
        })"

definition ensureLnFallbackMemberRefCache ::
    "('v, 'w) mms_env \<Rightarrow> ReportControlBlockTarget \<Rightarrow> string option \<Rightarrow> string option list option \<Rightarrow> ('v, 'w, unit) prog" where
  "ensureLnFallbackMemberRefCache env target effectiveDatasetReference memberRefs =
     (case (effectiveDatasetReference, memberRefs) of
        (Some ds, Some refs) \<Rightarrow> do {
          s \<leftarrow> get_client;
          (case lookupMemberRefCacheByRcb (cl_memberRefCache s) (rt_objectReference target) of
             None \<Rightarrow> return ()
           | Some i \<Rightarrow>
               if rm_resolvedDatasetReference (the (cl_memberRefCache s) ! i) = Some ds then return ()
               else if refs = [] then
                 change_cache (map_option (\<lambda>es. es[i := (es ! i)\<lparr>rm_resolvedDatasetReference := Some ds\<rparr>]))
               else if \<not> en_arrayAlloc env (cl_world s) then return ()
               else swapFreshEntry env target i refs ds)
        }
      | _ \<Rightarrow> return ())"

section \<open>Reading a block\<close>

text \<open>The conversions \<open>%u\<close> and \<open>%02x\<close>.\<close>

definition hex_digit :: "nat \<Rightarrow> char" where
  "hex_digit n = ''0123456789abcdef'' ! n"

fun fmt_u :: "nat \<Rightarrow> string" where
  "fmt_u n = (if n < 10 then [hex_digit n] else fmt_u (n div 10) @ [hex_digit (n mod 10)])"

declare fmt_u.simps [simp del]

definition fmt_02x :: "u8 \<Rightarrow> string" where
  "fmt_02x b = [hex_digit (unat b div 16), hex_digit (unat b mod 16)]"

text \<open>The hex dump stops when fewer than three bytes of the 128 of the buffer would be left.\<close>

fun hexOwner :: "nat \<Rightarrow> u8 list \<Rightarrow> string" where
  "hexOwner used [] = []"
| "hexOwner used (b # bs) = (if used + 3 < 128 then fmt_02x b @ hexOwner (used + 2) bs else [])"

definition formatRcbOwner :: "'v mms_lib \<Rightarrow> 'v option \<Rightarrow> string option" where
  "formatRcbOwner L owner =
     (case owner of
        None \<Rightarrow> None
      | Some v \<Rightarrow>
          if ml_getOctetStringSize L v = 0 then None
          else (case ml_getOctetStringBuffer L v of
                  None \<Rightarrow> None
                | Some bytes \<Rightarrow>
                    if ml_getOctetStringSize L v = 4 then
                      Some (fmt_u (unat (bytes ! 0)) @ ''.'' @ fmt_u (unat (bytes ! 1)) @ ''.''
                            @ fmt_u (unat (bytes ! 2)) @ ''.'' @ fmt_u (unat (bytes ! 3)))
                    else Some (hexOwner 0 (take (ml_getOctetStringSize L v) bytes))))"

definition captureAndLogRcbState :: "'v mms_lib \<Rightarrow> 'v rcb \<Rightarrow> RcbLiveState" where
  "captureAndLogRcbState L r =
     \<lparr>ls_readOk = True, ls_rptEna = rcb_rptEna r, ls_datSet = rcb_datSet r, ls_optFlds = rcb_optFlds r,
      ls_trgOps = rcb_trgOps r, ls_bufTm = rcb_bufTm r, ls_intgPd = rcb_intgPd r, ls_confRev = rcb_confRev r,
      ls_sqNum = rcb_sqNum r, ls_hasEntryId = (rcb_entryId r \<noteq> None), ls_resv = rcb_resv r,
      ls_hasResvTms = (rcb_resvTms r \<noteq> None),
      ls_resvTms = (case rcb_resvTms r of None \<Rightarrow> 0 | Some t \<Rightarrow> t),
      ls_owner = formatRcbOwner L (rcb_owner r)\<rparr>"

definition no_live_state :: RcbLiveState where
  "no_live_state = \<lparr>ls_readOk = False, ls_rptEna = False, ls_datSet = None, ls_optFlds = 0, ls_trgOps = 0,
     ls_bufTm = 0, ls_intgPd = 0, ls_confRev = 0, ls_sqNum = 0, ls_hasEntryId = False, ls_resv = False,
     ls_hasResvTms = False, ls_resvTms = 0, ls_owner = None\<rparr>"

definition readAndLogLiveRcbState :: "('v, 'w) mms_env \<Rightarrow> string option \<Rightarrow> ('v, 'w, RcbLiveState) prog" where
  "readAndLogLiveRcbState env obj = do {
     (err, live) \<leftarrow> getRCBValues env obj;
     return (case live of None \<Rightarrow> no_live_state | Some r \<Rightarrow> captureAndLogRcbState (en_lib env) r)
   }"

section \<open>One step\<close>

text \<open>The sleep of the supervisor, in chunks of 100 ms; \<open>slept\<close> never passes \<open>totalMs\<close>.\<close>

function sleepLoop :: "('v, 'w) mms_env \<Rightarrow> nat \<Rightarrow> nat \<Rightarrow> 'w \<Rightarrow> 'w" where
  "sleepLoop env totalMs slept w =
     (if slept < totalMs \<and> \<not> en_stopRequested env w then
        let thisChunk = (if totalMs - slept < 100 then totalMs - slept else 100)
        in sleepLoop env totalMs (slept + thisChunk) (en_sleep env (of_nat thisChunk) w)
      else w)"
  by pat_completeness auto
termination
  by (relation "measure (\<lambda>(env, totalMs, slept, w). totalMs - slept)") (auto split: if_splits)

declare sleepLoop.simps [simp del]

definition interruptibleSleep_mms :: "('v, 'w) mms_env \<Rightarrow> u32 \<Rightarrow> ('v, 'w, unit) prog" where
  "interruptibleSleep_mms env totalMs = change_world (sleepLoop env (unat totalMs) 0)"

definition MMS_REPORT_CLIENT_TEMP_UNAVAILABLE_MAX_RETRIES :: nat where
  "MMS_REPORT_CLIENT_TEMP_UNAVAILABLE_MAX_RETRIES = 3"

text \<open>The retry loop, with the number of retries left.\<close>

fun retryRcbStep ::
    "('v, 'w) mms_env \<Rightarrow> string option \<Rightarrow> 'v rcb \<Rightarrow> RcbStep \<Rightarrow> nat \<Rightarrow> IedClientError \<Rightarrow> ('v, 'w, IedClientError) prog" where
  "retryRcbStep env obj r step 0 err = return err"
| "retryRcbStep env obj r step (Suc left) err =
     (if err = IED_ERROR_TEMPORARILY_UNAVAILABLE \<and> \<not> sp_noTempUnavailableRetry step then do {
        stop \<leftarrow> stopRequested env;
        if stop then return err
        else do {
          interruptibleSleep_mms env 500;
          err' \<leftarrow> setRCBValues env obj (sp_element step) r;
          retryRcbStep env obj r step left err'
        }
      }
      else return err)"

unbundle bit_operations_syntax

definition stepApplied :: "RcbStepVerify \<Rightarrow> RcbLiveState \<Rightarrow> bool" where
  "stepApplied v live =
     (case v of
        RCB_STEP_VERIFY_NONE \<Rightarrow> True
      | RCB_STEP_VERIFY_DATSET d \<Rightarrow> ls_readOk live \<and> d \<noteq> None \<and> ls_datSet live = d
      | RCB_STEP_VERIFY_OPT_FLDS b \<Rightarrow> ls_readOk live \<and> ls_optFlds live AND b = b
      | RCB_STEP_VERIFY_TRG_OPS b \<Rightarrow> ls_readOk live \<and> ls_trgOps live AND b = b
      | RCB_STEP_VERIFY_RPT_ENA e \<Rightarrow> ls_readOk live \<and> ls_rptEna live = e)"

text \<open>The error of the write, whether the read-back confirms it, and the read-back.\<close>

definition runRcbStep ::
    "('v, 'w) mms_env \<Rightarrow> string option \<Rightarrow> 'v rcb \<Rightarrow> RcbStep \<Rightarrow> ('v, 'w, IedClientError \<times> bool \<times> RcbLiveState) prog" where
  "runRcbStep env obj r step = do {
     err0 \<leftarrow> setRCBValues env obj (sp_element step) r;
     err \<leftarrow> retryRcbStep env obj r step MMS_REPORT_CLIENT_TEMP_UNAVAILABLE_MAX_RETRIES err0;
     live \<leftarrow> readAndLogLiveRcbState env obj;
     return (err, stepApplied (sp_verify step) live, live)
   }"

definition rcb_step :: "RcbElement \<Rightarrow> RcbStepVerify \<Rightarrow> RcbStep" where
  "rcb_step el v = \<lparr>sp_element = el, sp_verify = v, sp_noTempUnavailableRetry = False\<rparr>"

section \<open>Claiming a block\<close>

definition MMS_REPORT_CLIENT_BRCB_RESERVATION_SECONDS :: int where
  "MMS_REPORT_CLIENT_BRCB_RESERVATION_SECONDS = 60"

definition reserveResult :: "IedClientError \<Rightarrow> RcbReserveResult" where
  "reserveResult err =
     (case err of
        IED_ERROR_OK \<Rightarrow> RCB_RESERVE_ACQUIRED
      | IED_ERROR_ACCESS_DENIED \<Rightarrow> RCB_RESERVE_OWNED_ELSEWHERE
      | IED_ERROR_TEMPORARILY_UNAVAILABLE \<Rightarrow> RCB_RESERVE_OWNED_ELSEWHERE
      | IED_ERROR_OBJECT_DOES_NOT_EXIST \<Rightarrow> RCB_RESERVE_UNSUPPORTED
      | IED_ERROR_OBJECT_ACCESS_UNSUPPORTED \<Rightarrow> RCB_RESERVE_UNSUPPORTED
      | IED_ERROR_SERVICE_NOT_SUPPORTED \<Rightarrow> RCB_RESERVE_UNSUPPORTED
      | IED_ERROR_SERVICE_NOT_IMPLEMENTED \<Rightarrow> RCB_RESERVE_UNSUPPORTED
      | IED_ERROR_OBJECT_REFERENCE_INVALID \<Rightarrow> RCB_RESERVE_UNSUPPORTED
      | _ \<Rightarrow> RCB_RESERVE_FAILED)"

definition reserveOneTarget ::
    "('v, 'w) mms_env \<Rightarrow> ReportControlBlockTarget \<Rightarrow> 'v rcb \<Rightarrow> RcbLiveState \<Rightarrow> RcbEnableCycleState
     \<Rightarrow> ('v, 'w, RcbReserveResult \<times> 'v rcb) prog" where
  "reserveOneTarget env target r entryState cycle =
     (if rt_buffered target \<and> \<not> ls_readOk entryState then return (RCB_RESERVE_UNSUPPORTED, r)
      else if rt_buffered target \<and> \<not> ls_hasResvTms entryState then return (RCB_RESERVE_UNSUPPORTED, r)
      else if rt_buffered target \<and> ls_resvTms entryState < 0 then return (RCB_RESERVE_OWNED_ELSEWHERE, r)
      else
        let r' = (if rt_buffered target then r\<lparr>rcb_resvTms := Some MMS_REPORT_CLIENT_BRCB_RESERVATION_SECONDS\<rparr>
                  else r\<lparr>rcb_resv := True\<rparr>);
            step = \<lparr>sp_element = (if rt_buffered target then RCB_ELEMENT_RESV_TMS else RCB_ELEMENT_RESV),
                    sp_verify = RCB_STEP_VERIFY_NONE,
                    sp_noTempUnavailableRetry = cy_reservationRetriesDisabled cycle\<rparr>
        in do {
          (err, applied, live) \<leftarrow> runRcbStep env (rt_objectReference target) r' step;
          return (reserveResult err, r')
        })"

section \<open>The enable sequence\<close>

text \<open>A block the model declares and the device does not know.\<close>

definition countMissing :: "RcbEnableCycleState \<Rightarrow> IedClientError \<Rightarrow> RcbEnableCycleState" where
  "countMissing cycle err =
     (if err = IED_ERROR_OBJECT_DOES_NOT_EXIST then
        let n = cy_consecutiveObjectDoesNotExist cycle + 1
        in cycle\<lparr>cy_consecutiveObjectDoesNotExist := n,
                 cy_modelMismatchReported := cy_modelMismatchReported cycle \<or> n \<ge> 5\<rparr>
      else cycle\<lparr>cy_consecutiveObjectDoesNotExist := 0\<rparr>)"

definition latchOwnership :: "RcbEnableCycleState \<Rightarrow> RcbReserveResult \<Rightarrow> RcbEnableCycleState" where
  "latchOwnership cycle reservation =
     (if reservation = RCB_RESERVE_OWNED_ELSEWHERE then
        let n = cy_consecutiveOwnedElsewhere cycle + 1
        in cycle\<lparr>cy_consecutiveOwnedElsewhere := n,
                 cy_reservationRetriesDisabled := cy_reservationRetriesDisabled cycle \<or> n \<ge> 3\<rparr>
      else cycle\<lparr>cy_consecutiveOwnedElsewhere := 0\<rparr>)"

definition reconcileShape ::
    "('v, 'w) mms_env \<Rightarrow> ReportControlBlockTarget \<Rightarrow> MmsDatasetResolution \<Rightarrow> ('v, 'w, unit) prog" where
  "reconcileShape env target resolution =
     (if dr_tier resolution = MMS_DATASET_TIER_LIVE \<or> dr_tier resolution = MMS_DATASET_TIER_ADOPTED then
        refreshPulledMemberRefCache env target (dr_datasetReference resolution) (dr_memberReferences resolution)
      else if dr_tier resolution = MMS_DATASET_TIER_SELF_CREATED then
        ensureLnFallbackMemberRefCache env target (dr_datasetReference resolution) (dr_memberReferences resolution)
      else return ())"

text \<open>Step 1.\<close>

definition preDisable ::
    "('v, 'w) mms_env \<Rightarrow> ReportControlBlockTarget \<Rightarrow> RcbReserveResult \<Rightarrow> RcbLiveState \<Rightarrow> 'v rcb \<Rightarrow> ('v, 'w, 'v rcb) prog" where
  "preDisable env target reservation entryState r =
     (let weOwnThisRcb = (reservation = RCB_RESERVE_ACQUIRED
            \<or> (reservation = RCB_RESERVE_UNSUPPORTED \<and> \<not> ls_resv entryState \<and> ls_owner entryState = None))
      in if ls_rptEna entryState \<and> weOwnThisRcb then
           let r' = r\<lparr>rcb_rptEna := False\<rparr>
           in do {
             (err, applied, live) \<leftarrow> runRcbStep env (rt_objectReference target) r'
               (rcb_step RCB_ELEMENT_RPT_ENA (RCB_STEP_VERIFY_RPT_ENA False));
             return r'
           }
         else return r)"

text \<open>Step 2: a refused write is no error when the device already reports the data set.\<close>

definition bindDataSet ::
    "('v, 'w) mms_env \<Rightarrow> ReportControlBlockTarget \<Rightarrow> string \<Rightarrow> 'v rcb \<Rightarrow> ('v, 'w, IedClientError \<times> RcbLiveState \<times> 'v rcb) prog" where
  "bindDataSet env target ds r =
     (let r' = r\<lparr>rcb_datSet := Some ds\<rparr>
      in do {
        (err, datSetAlreadyBound, post) \<leftarrow> runRcbStep env (rt_objectReference target) r'
          (rcb_step RCB_ELEMENT_DATSET (RCB_STEP_VERIFY_DATSET (Some ds)));
        return (if err \<noteq> IED_ERROR_OK \<and> datSetAlreadyBound then IED_ERROR_OK else err, post, r')
      })"

text \<open>Step 3.\<close>

definition requestEntryIdField ::
    "('v, 'w) mms_env \<Rightarrow> ReportControlBlockTarget \<Rightarrow> RcbLiveState \<Rightarrow> 'v rcb \<Rightarrow> ('v, 'w, 'v rcb) prog" where
  "requestEntryIdField env target post r =
     (let optFldsAlreadySet = (ls_readOk post \<and> ls_optFlds post AND en_RPT_OPT_ENTRY_ID env \<noteq> 0)
      in if rt_buffered target \<and> \<not> optFldsAlreadySet then
           let deviceOptFlds = (if ls_readOk post then ls_optFlds post else 0);
               r' = r\<lparr>rcb_optFlds := deviceOptFlds OR en_RPT_OPT_ENTRY_ID env\<rparr>
           in do {
             (err, applied, live) \<leftarrow> runRcbStep env (rt_objectReference target) r'
               (rcb_step RCB_ELEMENT_OPT_FLDS (RCB_STEP_VERIFY_OPT_FLDS (en_RPT_OPT_ENTRY_ID env)));
             return r'
           }
         else return r)"

text \<open>Step 4.\<close>

definition requestTriggers ::
    "('v, 'w) mms_env \<Rightarrow> ReportControlBlockTarget \<Rightarrow> RcbLiveState \<Rightarrow> 'v rcb \<Rightarrow> ('v, 'w, 'v rcb) prog" where
  "requestTriggers env target post r =
     (let neededTrgOps = en_TRG_OPT_DATA_CHANGED env OR en_TRG_OPT_QUALITY_CHANGED env OR en_TRG_OPT_GI env;
          trgOpsAlreadySet = (ls_readOk post \<and> ls_trgOps post AND neededTrgOps = neededTrgOps)
      in if \<not> trgOpsAlreadySet then
           let deviceTrgOps = (if ls_readOk post then ls_trgOps post else 0);
               r' = r\<lparr>rcb_trgOps := deviceTrgOps OR neededTrgOps\<rparr>
           in do {
             (err, applied, live) \<leftarrow> runRcbStep env (rt_objectReference target) r'
               (rcb_step RCB_ELEMENT_TRG_OPS (RCB_STEP_VERIFY_TRG_OPS neededTrgOps));
             return r'
           }
         else return r)"

text \<open>What a rejected entry identifier does to the cache entry.\<close>

definition forgetEntryId ::
    "string option \<Rightarrow> 'v MmsReportClientMemberRefCacheEntry list option \<Rightarrow> 'v MmsReportClientMemberRefCacheEntry list option" where
  "forgetEntryId obj cache =
     (case lookupMemberRefCacheByRcb cache obj of
        None \<Rightarrow> cache
      | Some i \<Rightarrow> map_option (\<lambda>es. es[i := the (MmsReportClientUseCases_resetValueDiffCacheToBootstrap
                                                 (Some ((es ! i)\<lparr>rm_lastEntryId := None\<rparr>)))]) cache)"

text \<open>Step 5; the result says whether a general interrogation is to be requested.\<close>

definition resumeEntryId ::
    "('v, 'w) mms_env \<Rightarrow> ReportControlBlockTarget \<Rightarrow> 'v rcb \<Rightarrow> ('v, 'w, bool \<times> 'v rcb) prog" where
  "resumeEntryId env target r = do {
     s \<leftarrow> get_client;
     let resumable = (if rt_buffered target then
           (case lookupMemberRefCacheByRcb (cl_memberRefCache s) (rt_objectReference target) of
              None \<Rightarrow> None
            | Some i \<Rightarrow> rm_lastEntryId (the (cl_memberRefCache s) ! i))
         else None);
     let requestGi = MmsReportClientUseCases_shouldRequestGiOnEnable (rt_buffered target) (resumable \<noteq> None);
     (case resumable of
        None \<Rightarrow> return (requestGi, r)
      | Some eid \<Rightarrow>
          let r' = r\<lparr>rcb_entryId := Some eid\<rparr>
          in do {
            (err, applied, live) \<leftarrow> runRcbStep env (rt_objectReference target) r'
              (rcb_step RCB_ELEMENT_ENTRY_ID RCB_STEP_VERIFY_NONE);
            if err \<noteq> IED_ERROR_OK then do {
              change_cache (forgetEntryId (rt_objectReference target));
              return (True, r')
            }
            else return (requestGi, r')
          })
   }"

definition abortEnable ::
    "('v, 'w) mms_env \<Rightarrow> string option \<Rightarrow> IedClientError \<Rightarrow> ('v, 'w, RcbEnableOutcome) prog" where
  "abortEnable env obj err = do {
     log_event (Ev_uninstall obj);
     rcbStatusCallback env obj False err;
     return RCB_ENABLE_OUTCOME_FAILED
   }"

text \<open>The verdict on the last state read: can the block report a change at all?\<close>

definition judgeEnable ::
    "('v, 'w) mms_env \<Rightarrow> string option \<Rightarrow> RcbLiveState \<Rightarrow> ('v, 'w, RcbEnableOutcome) prog" where
  "judgeEnable env obj lastState =
     (let changeTriggers = en_TRG_OPT_DATA_CHANGED env OR en_TRG_OPT_QUALITY_CHANGED env;
          cannotReport = (ls_readOk lastState \<and> ls_trgOps lastState AND changeTriggers = 0)
      in if cannotReport then abortEnable env obj IED_ERROR_OBJECT_ATTRIBUTE_INCONSISTENT
         else do {
           rcbStatusCallback env obj True IED_ERROR_OK;
           return RCB_ENABLE_OUTCOME_ENABLED
         })"

text \<open>Steps 6 and 7 and the verdict.\<close>

definition activateRcb ::
    "('v, 'w) mms_env \<Rightarrow> ReportControlBlockTarget \<Rightarrow> bool \<Rightarrow> 'v rcb \<Rightarrow> ('v, 'w, RcbEnableOutcome) prog" where
  "activateRcb env target requestGi r =
     (let obj = rt_objectReference target;
          r' = r\<lparr>rcb_rptEna := True\<rparr>
      in do {
        (err, rptEnaApplied, finalState) \<leftarrow> runRcbStep env obj r'
          (rcb_step RCB_ELEMENT_RPT_ENA (RCB_STEP_VERIFY_RPT_ENA True));
        if err \<noteq> IED_ERROR_OK then abortEnable env obj err
        else if requestGi then do {
          (giErr, giApplied, giState) \<leftarrow> runRcbStep env obj (r'\<lparr>rcb_gi := True\<rparr>)
            (rcb_step RCB_ELEMENT_GI RCB_STEP_VERIFY_NONE);
          judgeEnable env obj (if ls_readOk giState then giState else finalState)
        }
        else judgeEnable env obj finalState
      })"

definition enableSequence ::
    "('v, 'w) mms_env \<Rightarrow> ReportControlBlockTarget \<Rightarrow> RcbReserveResult \<Rightarrow> RcbLiveState \<Rightarrow> string \<Rightarrow> 'v rcb
     \<Rightarrow> ('v, 'w, RcbEnableOutcome) prog" where
  "enableSequence env target reservation entryState ds r = do {
     r1 \<leftarrow> preDisable env target reservation entryState r;
     (err, post, r2) \<leftarrow> bindDataSet env target ds r1;
     if err \<noteq> IED_ERROR_OK then abortEnable env (rt_objectReference target) err
     else do {
       r3 \<leftarrow> requestEntryIdField env target post r2;
       r4 \<leftarrow> requestTriggers env target post r3;
       (requestGi, r5) \<leftarrow> resumeEntryId env target r4;
       activateRcb env target requestGi r5
     }
   }"

text \<open>From the data set on, once the block is claimed.\<close>

definition configureTarget ::
    "('v, 'w) mms_env \<Rightarrow> ReportControlBlockTarget \<Rightarrow> RcbReserveResult \<Rightarrow> RcbLiveState \<Rightarrow> 'v rcb
     \<Rightarrow> ('v, 'w, RcbEnableOutcome) prog" where
  "configureTarget env target reservation entryState r = do {
     resolution \<leftarrow> resolveForTarget env target;
     reconcileShape env target resolution;
     (case dr_datasetReference resolution of
        None \<Rightarrow>
          if \<not> dr_wasNeeded resolution then return RCB_ENABLE_OUTCOME_NOT_NEEDED
          else do {
            rcbStatusCallback env (rt_objectReference target) False IED_ERROR_OBJECT_ATTRIBUTE_INCONSISTENT;
            return RCB_ENABLE_OUTCOME_FAILED
          }
      | Some ds \<Rightarrow> do {
          log_event (Ev_install (rt_objectReference target) (rcb_rptId r));
          enableSequence env target reservation entryState ds r
        })
   }"

definition enableOneTarget ::
    "('v, 'w) mms_env \<Rightarrow> ReportControlBlockTarget \<Rightarrow> RcbEnableCycleState
     \<Rightarrow> ('v, 'w, RcbEnableOutcome \<times> RcbEnableCycleState) prog" where
  "enableOneTarget env target cycle = do {
     stop \<leftarrow> stopRequested env;
     if stop then return (RCB_ENABLE_OUTCOME_SKIPPED_STOPPING, cycle)
     else do {
       (err, r) \<leftarrow> getRCBValues env (rt_objectReference target);
       (case r of
          None \<Rightarrow> do {
            rcbStatusCallback env (rt_objectReference target) False err;
            return (RCB_ENABLE_OUTCOME_FAILED, countMissing cycle err)
          }
        | Some rcb \<Rightarrow>
            let cycle0 = cycle\<lparr>cy_consecutiveObjectDoesNotExist := 0\<rparr>;
                entryState = captureAndLogRcbState (en_lib env) rcb
            in do {
              (reservation, rcb1) \<leftarrow> reserveOneTarget env target rcb entryState cycle0;
              let cycle1 = latchOwnership cycle0 reservation;
              if reservation = RCB_RESERVE_OWNED_ELSEWHERE \<or> reservation = RCB_RESERVE_FAILED then do {
                rcbStatusCallback env (rt_objectReference target) False
                  (if reservation = RCB_RESERVE_OWNED_ELSEWHERE then IED_ERROR_ACCESS_DENIED else IED_ERROR_UNKNOWN);
                return (if reservation = RCB_RESERVE_OWNED_ELSEWHERE then RCB_ENABLE_OUTCOME_OWNED_ELSEWHERE
                        else RCB_ENABLE_OUTCOME_FAILED, cycle1)
              }
              else do {
                outcome \<leftarrow> configureTarget env target reservation entryState rcb1;
                return (outcome, cycle1)
              }
            })
     }
   }"

section \<open>All blocks of the device\<close>

record enable_tally =
  ta_enabled :: nat
  ta_notNeeded :: nat
  ta_ownedElsewhere :: nat
  ta_failed :: nat

definition countOutcome :: "RcbEnableOutcome \<Rightarrow> enable_tally \<Rightarrow> enable_tally" where
  "countOutcome outcome t =
     (case outcome of
        RCB_ENABLE_OUTCOME_ENABLED \<Rightarrow> t\<lparr>ta_enabled := ta_enabled t + 1\<rparr>
      | RCB_ENABLE_OUTCOME_NOT_NEEDED \<Rightarrow> t\<lparr>ta_notNeeded := ta_notNeeded t + 1\<rparr>
      | RCB_ENABLE_OUTCOME_OWNED_ELSEWHERE \<Rightarrow> t\<lparr>ta_ownedElsewhere := ta_ownedElsewhere t + 1\<rparr>
      | RCB_ENABLE_OUTCOME_FAILED \<Rightarrow> t\<lparr>ta_failed := ta_failed t + 1\<rparr>
      | RCB_ENABLE_OUTCOME_SKIPPED_STOPPING \<Rightarrow> t)"

fun enableLoop ::
    "('v, 'w) mms_env \<Rightarrow> ReportControlBlockTarget list \<Rightarrow> RcbEnableCycleState \<Rightarrow> enable_tally \<Rightarrow> ('v, 'w, enable_tally) prog" where
  "enableLoop env [] cycle t = return t"
| "enableLoop env (target # targets) cycle t = do {
     stop \<leftarrow> stopRequested env;
     if stop then return t
     else do {
       (outcome, cycle') \<leftarrow> enableOneTarget env target cycle;
       enableLoop env targets cycle' (countOutcome outcome t)
     }
   }"

definition enableAllTargets ::
    "('v, 'w) mms_env \<Rightarrow> ReportControlBlockTarget list option \<Rightarrow> ('v, 'w, enable_tally) prog" where
  "enableAllTargets env targets =
     (let none = \<lparr>ta_enabled = 0, ta_notNeeded = 0, ta_ownedElsewhere = 0, ta_failed = 0\<rparr>
      in case targets of
           None \<Rightarrow> return none
         | Some ts \<Rightarrow> do {
             change_world (en_beginCycle env);
             t \<leftarrow> enableLoop env ts \<lparr>cy_consecutiveOwnedElsewhere = 0, cy_reservationRetriesDisabled = False,
               cy_consecutiveObjectDoesNotExist = 0, cy_modelMismatchReported = False\<rparr> none;
             stop \<leftarrow> stopRequested env;
             change_world (en_endCycle env (\<not> stop));
             return t
           })"

end
