(* ===== verification/State_Triples.thy ===== *)
theory State_Triples
  imports Main "HOL-Library.State_Monad"
begin

text \<open>
  Triples over the programs of the state monad, shared by the proofs about the report control
  blocks and about the data sets: a precondition of the state before, a postcondition of the
  result and the state after.
\<close>

section \<open>Triples\<close>

definition triple :: "('s \<Rightarrow> bool) \<Rightarrow> ('s, 'a) state \<Rightarrow> ('a \<Rightarrow> 's \<Rightarrow> bool) \<Rightarrow> bool" where
  "triple P f Q \<longleftrightarrow> (\<forall>s. P s \<longrightarrow> Q (fst (run_state f s)) (snd (run_state f s)))"

lemma triple_return: "(\<And>s. P s \<Longrightarrow> Q a s) \<Longrightarrow> triple P (State_Monad.return a) Q"
  by (simp add: triple_def)

lemma triple_bind: "triple P f R \<Longrightarrow> (\<And>a. triple (R a) (g a) Q) \<Longrightarrow> triple P (State_Monad.bind f g) Q"
  by (simp add: triple_def split_beta)

lemma triple_conseq: "triple P f Q \<Longrightarrow> (\<And>s. P' s \<Longrightarrow> P s) \<Longrightarrow> (\<And>a s. Q a s \<Longrightarrow> Q' a s) \<Longrightarrow> triple P' f Q'"
  by (simp add: triple_def)

lemma triple_pre: "triple P f Q \<Longrightarrow> (\<And>s. P' s \<Longrightarrow> P s) \<Longrightarrow> triple P' f Q"
  by (simp add: triple_def)

lemma triple_post: "triple P f Q \<Longrightarrow> (\<And>a s. Q a s \<Longrightarrow> Q' a s) \<Longrightarrow> triple P f Q'"
  by (simp add: triple_def)

lemma triple_bind_prod:
  "triple P f R \<Longrightarrow> (\<And>a b. triple (R (a, b)) (g a b) Q) \<Longrightarrow> triple P (State_Monad.bind f (\<lambda>(a, b). g a b)) Q"
  by (rule triple_bind) auto

lemma triple_bind_prod3:
  "triple P f R \<Longrightarrow> (\<And>a b c. triple (R (a, b, c)) (g a b c) Q) \<Longrightarrow> triple P (State_Monad.bind f (\<lambda>(a, b, c). g a b c)) Q"
  by (rule triple_bind) auto

lemma triple_if: "(b \<Longrightarrow> triple P f Q) \<Longrightarrow> (\<not> b \<Longrightarrow> triple P g Q) \<Longrightarrow> triple P (if b then f else g) Q"
  by simp

lemma triple_pair:
  "triple P f (\<lambda>a s. Q (fst a) (snd a) s) \<Longrightarrow> triple P f (\<lambda>(a, b) s. Q a b s)"
  by (simp add: triple_def split_beta)

lemma triple_hyp: "(b \<Longrightarrow> triple P f Q) \<Longrightarrow> triple (\<lambda>s. b \<and> P s) f Q"
  by (simp add: triple_def)

lemma triple_run: "triple P f Q \<Longrightarrow> P s \<Longrightarrow> run_state f s = (a, s') \<Longrightarrow> Q a s'"
  by (auto simp: triple_def)

end
