(* ===== verification/Mms_Rcb_Protocol.thy ===== *)
theory Mms_Rcb_Protocol
  imports Mms_Rcb_Enable State_Triples
begin

text \<open>
  What the enable sequence may do to a report control block, as a monitor that reads the log
  of the client event by event, and the proof that every run of \<open>enableOneTarget\<close>, against
  any device and any data set manager, is accepted by it. The proofs use triples
  over the programs of the state monad.
\<close>

section \<open>Monitors\<close>

definition monitor :: "('m \<Rightarrow> 'e \<Rightarrow> 'm option) \<Rightarrow> 'm \<Rightarrow> 'e list \<Rightarrow> 'm option" where
  "monitor step m es = foldl (\<lambda>o' e. Option.bind o' (\<lambda>m. step m e)) (Some m) es"

lemma monitor_Nil [simp]: "monitor step m [] = Some m"
  by (simp add: monitor_def)

lemma monitor_snoc [simp]: "monitor step m (es @ [e]) = Option.bind (monitor step m es) (\<lambda>m. step m e)"
  by (simp add: monitor_def)

text \<open>Since the log was \<open>t0\<close>, the monitor accepted what happened and its state satisfies \<open>J\<close>.\<close>

definition since ::
    "('m \<Rightarrow> 'v rcb_event \<Rightarrow> 'm option) \<Rightarrow> 'm \<Rightarrow> 'v rcb_event list \<Rightarrow> ('m \<Rightarrow> bool) \<Rightarrow> ('v, 'w) client \<Rightarrow> bool" where
  "since step m0 t0 J s \<longleftrightarrow> (\<exists>es m. cl_log s = t0 @ es \<and> monitor step m0 es = Some m \<and> J m)"

lemma since_snoc:
  assumes "since step m0 t0 J s" and "cl_log s' = cl_log s @ [e]"
    and "\<And>m. J m \<Longrightarrow> \<exists>m'. step m e = Some m' \<and> J' m'"
  shows "since step m0 t0 J' s'"
proof -
  from assms(1) obtain es m where es: "cl_log s = t0 @ es" "monitor step m0 es = Some m" "J m"
    by (auto simp: since_def)
  from assms(3) [OF es(3)] obtain m' where "step m e = Some m'" "J' m'" by blast
  with es assms(2) show ?thesis
    unfolding since_def by (intro exI [of _ "es @ [e]"] exI [of _ m']) simp
qed

lemma since_same: "since step m0 t0 J s \<Longrightarrow> cl_log s' = cl_log s \<Longrightarrow> since step m0 t0 J s'"
  by (simp add: since_def)

lemma since_mono: "since step m0 t0 J s \<Longrightarrow> (\<And>m. J m \<Longrightarrow> J' m) \<Longrightarrow> since step m0 t0 J' s"
  by (auto simp: since_def)

lemma triple_snoc:
  assumes "\<And>s. cl_log (snd (run_state f s)) = cl_log s @ [ev (fst (run_state f s))]"
    and "\<And>m a. J m \<Longrightarrow> \<exists>m'. step m (ev a) = Some m' \<and> J' a m'"
  shows "triple (since step m0 t0 J) f (\<lambda>a. since step m0 t0 (J' a))"
  unfolding triple_def
  by (intro allI impI) (erule since_snoc, rule assms(1), erule assms(2))

lemma triple_log_event:
  assumes "\<And>m. J m \<Longrightarrow> \<exists>m'. step m e = Some m' \<and> J' m'"
  shows "triple (since step m0 t0 J) (log_event e) (\<lambda>_. since step m0 t0 J')"
  by (rule triple_snoc [where ev = "\<lambda>_. e" and J' = "\<lambda>_. J'"]) (simp add: log_event_def, rule assms)

lemma triple_getRCBValues:
  assumes "\<And>m r. J m \<Longrightarrow> \<exists>m'. step m (Ev_read obj r) = Some m' \<and> J' r m'"
  shows "triple (since step m0 t0 J) (getRCBValues env obj) (\<lambda>(err, r). since step m0 t0 (J' r))"
proof -
  have "triple (since step m0 t0 J) (getRCBValues env obj) (\<lambda>a. since step m0 t0 (J' (snd a)))"
    by (rule triple_snoc [where ev = "\<lambda>a. Ev_read obj (snd a)"]) (simp add: getRCBValues_def split_beta, rule assms)
  then show ?thesis by (rule triple_post) (auto simp: split_beta)
qed

lemma triple_setRCBValues:
  assumes "\<And>m err. J m \<Longrightarrow> \<exists>m'. step m (Ev_write obj el r err) = Some m' \<and> J' err m'"
  shows "triple (since step m0 t0 J) (setRCBValues env obj el r) (\<lambda>err. since step m0 t0 (J' err))"
  by (rule triple_snoc [where ev = "\<lambda>err. Ev_write obj el r err"]) (simp add: setRCBValues_def split_beta, rule assms)

lemma triple_resolveForTarget:
  assumes "\<And>m. J m \<Longrightarrow> \<exists>m'. step m (Ev_resolve (rt_objectReference target)) = Some m' \<and> J' m'"
  shows "triple (since step m0 t0 J) (resolveForTarget env target) (\<lambda>_. since step m0 t0 J')"
  by (rule triple_snoc [where ev = "\<lambda>_. Ev_resolve (rt_objectReference target)" and J' = "\<lambda>_. J'"])
    (simp add: resolveForTarget_def split_beta, rule assms)

text \<open>Programs that write nothing to the log keep every \<open>since\<close>.\<close>

definition quiet :: "('v, 'w, 'a) prog \<Rightarrow> bool" where
  "quiet f \<longleftrightarrow> (\<forall>s. cl_log (snd (run_state f s)) = cl_log s)"

lemma triple_quiet: "quiet f \<Longrightarrow> triple (since step m0 t0 J) f (\<lambda>_. since step m0 t0 J)"
  by (auto simp: triple_def quiet_def intro: since_same)

lemma quiet_bind: "quiet f \<Longrightarrow> (\<And>a. quiet (g a)) \<Longrightarrow> quiet (State_Monad.bind f g)"
  by (simp add: quiet_def split_beta)

lemma quiet_basic [simp]:
  "quiet (State_Monad.return a)" "quiet (stopRequested env)" "quiet get_client" "quiet overrun" "quiet (change_world f)"
  "quiet (change_cache g)" "quiet (interruptibleSleep_mms env t)"
  by (simp_all add: quiet_def stopRequested_def get_client_def overrun_def change_world_def change_cache_def
      interruptibleSleep_mms_def)

lemma quiet_swap [simp]: "quiet (swapFreshEntry env target i refs ds)"
  unfolding swapFreshEntry_def by (intro quiet_bind) (auto split: option.split)

lemma quiet_reconcile [simp]: "quiet (reconcileShape env target resolution)"
  unfolding reconcileShape_def refreshPulledMemberRefCache_def ensureLnFallbackMemberRefCache_def
  by (auto split: option.split intro!: quiet_bind)

section \<open>The protocol\<close>

text \<open>The order of the steps: claim, resolve, install the handler, then the seven writes.\<close>

definition write_rank :: "RcbElement \<Rightarrow> 'v rcb \<Rightarrow> nat" where
  "write_rank el r =
     (case el of
        RCB_ELEMENT_RESV \<Rightarrow> 0 | RCB_ELEMENT_RESV_TMS \<Rightarrow> 0
      | RCB_ELEMENT_RPT_ENA \<Rightarrow> if rcb_rptEna r then 8 else 3
      | RCB_ELEMENT_DATSET \<Rightarrow> 4 | RCB_ELEMENT_OPT_FLDS \<Rightarrow> 5 | RCB_ELEMENT_TRG_OPS \<Rightarrow> 6
      | RCB_ELEMENT_ENTRY_ID \<Rightarrow> 7 | RCB_ELEMENT_GI \<Rightarrow> 9)"

text \<open>
  What the monitor knows: the last step, whether the report handler is installed, whether a
  claim was granted, the block as first read, as last read since it was enabled, and the
  status callbacks so far.
\<close>

record 'v enable_monitor =
  mo_rank :: nat
  mo_handler :: bool
  mo_claimed :: bool
  mo_entry :: "'v rcb option"
  mo_seen :: "'v rcb option"
  mo_status :: "(bool \<times> IedClientError) list"

definition monitor_start :: "'v enable_monitor" where
  "monitor_start = \<lparr>mo_rank = 0, mo_handler = False, mo_claimed = False, mo_entry = None, mo_seen = None, mo_status = []\<rparr>"

definition unowned :: "'v mms_lib \<Rightarrow> 'v rcb \<Rightarrow> bool" where
  "unowned L r \<longleftrightarrow> \<not> rcb_resv r \<and> formatRcbOwner L (rcb_owner r) = None"

definition may_disable :: "'v mms_lib \<Rightarrow> 'v enable_monitor \<Rightarrow> bool" where
  "may_disable L m \<longleftrightarrow> (\<exists>r. mo_entry m = Some r \<and> rcb_rptEna r \<and> (mo_claimed m \<or> unowned L r))"

text \<open>
  Steps come in order; nothing is configured without a handler; reporting is switched off
  only on a block that reports and is ours or nobody's; there is at most one callback.
\<close>

fun protocol_step :: "'v mms_lib \<Rightarrow> string option \<Rightarrow> 'v enable_monitor \<Rightarrow> 'v rcb_event \<Rightarrow> 'v enable_monitor option" where
  "protocol_step L obj m (Ev_read o' r) =
     (if o' \<noteq> obj then None
      else Some (m\<lparr>mo_entry := (if mo_entry m = None then r else mo_entry m),
                   mo_seen := (if r = None then mo_seen m else r)\<rparr>))"
| "protocol_step L obj m (Ev_write o' el r err) =
     (if o' \<noteq> obj \<or> write_rank el r < mo_rank m then None
      else if 3 \<le> write_rank el r \<and> \<not> mo_handler m then None
      else if write_rank el r = 3 \<and> \<not> may_disable L m then None
      else Some (m\<lparr>mo_rank := write_rank el r,
                   mo_claimed := mo_claimed m \<or> (write_rank el r = 0 \<and> err = IED_ERROR_OK),
                   mo_seen := (if write_rank el r = 8 then None else mo_seen m)\<rparr>))"
| "protocol_step L obj m (Ev_resolve o') =
     (if o' \<noteq> obj \<or> 1 < mo_rank m then None else Some (m\<lparr>mo_rank := 1\<rparr>))"
| "protocol_step L obj m (Ev_install o' rptId) =
     (if o' \<noteq> obj \<or> 2 < mo_rank m \<or> mo_handler m then None else Some (m\<lparr>mo_rank := 2, mo_handler := True\<rparr>))"
| "protocol_step L obj m (Ev_uninstall o') =
     (if o' \<noteq> obj \<or> \<not> mo_handler m then None else Some (m\<lparr>mo_handler := False\<rparr>))"
| "protocol_step L obj m (Ev_status o' b err) =
     (if o' \<noteq> obj \<or> mo_status m \<noteq> [] then None else Some (m\<lparr>mo_status := [(b, err)]\<rparr>))"

text \<open>A point of the sequence: between step \<open>l\<close> and step \<open>k\<close>, no callback yet.\<close>

definition stage :: "nat \<Rightarrow> nat \<Rightarrow> bool \<Rightarrow> 'v rcb option \<Rightarrow> bool \<Rightarrow> ('v rcb option \<Rightarrow> bool) \<Rightarrow> 'v enable_monitor \<Rightarrow> bool" where
  "stage l k h e c S m \<longleftrightarrow> l \<le> mo_rank m \<and> mo_rank m \<le> k \<and> mo_handler m = h \<and> mo_entry m = e \<and> (c \<longrightarrow> mo_claimed m)
     \<and> S (mo_seen m) \<and> mo_status m = []"

lemma stage_mono: "stage l k h e c S m \<Longrightarrow> l' \<le> l \<Longrightarrow> k \<le> k' \<Longrightarrow> (c' \<Longrightarrow> c) \<Longrightarrow> (\<And>x. S x \<Longrightarrow> S' x) \<Longrightarrow> stage l' k' h e c' S' m"
  by (auto simp: stage_def)

abbreviation reached ::
    "('v, 'w) mms_env \<Rightarrow> string option \<Rightarrow> 'v rcb_event list \<Rightarrow> ('v enable_monitor \<Rightarrow> bool) \<Rightarrow> ('v, 'w) client \<Rightarrow> bool" where
  "reached env obj t0 J \<equiv> since (protocol_step (en_lib env) obj) monitor_start t0 J"

section \<open>Steps follow the protocol\<close>

text \<open>The write with rank \<open>p\<close> is allowed after stage \<open>k\<close>.\<close>

definition allowed :: "'v mms_lib \<Rightarrow> nat \<Rightarrow> nat \<Rightarrow> bool \<Rightarrow> 'v rcb \<Rightarrow> bool \<Rightarrow> bool" where
  "allowed L k p h e c \<longleftrightarrow> k \<le> p \<and> (3 \<le> p \<longrightarrow> h) \<and> (p = 3 \<longrightarrow> rcb_rptEna e \<and> (c \<or> unowned L e))"

lemma write_stage:
  assumes "allowed (en_lib env) k (write_rank el r) h e c"
  shows "triple (reached env obj t0 (stage l k h (Some e) c S)) (setRCBValues env obj el r)
    (\<lambda>err. reached env obj t0 (stage (write_rank el r) (write_rank el r) h (Some e) (c \<or> (write_rank el r = 0 \<and> err = IED_ERROR_OK))
       (\<lambda>x. if write_rank el r = 8 then x = None else S x)))"
  by (rule triple_setRCBValues) (use assms in \<open>auto simp: stage_def allowed_def may_disable_def\<close>)

lemma retry_stage:
  fixes S :: "'v rcb option \<Rightarrow> bool"
  defines "J p h e c err \<equiv> stage p p h (Some e) (c \<or> (p = 0 \<and> err = IED_ERROR_OK)) (\<lambda>x. if p = 8 then x = None else S x)"
  assumes "allowed (en_lib env) p p h e c" and "p = write_rank (sp_element step) r"
  shows "triple (reached env obj t0 (J p h e c err)) (retryRcbStep env obj r step n err) (\<lambda>err'. reached env obj t0 (J p h e c err'))"
proof (induction n arbitrary: err)
  case 0
  then show ?case by (auto intro: triple_return)
next
  case (Suc n)
  show ?case
  proof (cases "err = IED_ERROR_TEMPORARILY_UNAVAILABLE \<and> \<not> sp_noTempUnavailableRetry step")
    case True
    have w: "triple (reached env obj t0 (J p h e c err)) (setRCBValues env obj (sp_element step) r) (\<lambda>err'. reached env obj t0 (J p h e c err'))"
      unfolding J_def
      by (rule triple_conseq [OF write_stage [where k = p and S = "\<lambda>x. if p = 8 then x = None else S x" and c = c]])
        (use assms(2,3) True in \<open>auto elim!: since_mono simp: stage_def split: if_splits\<close>)
    have "triple (reached env obj t0 (J p h e c err)) (do {
        stop \<leftarrow> stopRequested env;
        if stop then return err
        else do { interruptibleSleep_mms env 500; err' \<leftarrow> setRCBValues env obj (sp_element step) r; retryRcbStep env obj r step n err' }
      }) (\<lambda>err'. reached env obj t0 (J p h e c err'))"
      by (rule triple_bind [OF triple_quiet], simp, rule triple_if, simp add: triple_return,
          rule triple_bind [OF triple_quiet], simp, rule triple_bind [OF w Suc.IH])
    then show ?thesis unfolding retryRcbStep.simps if_P [OF True] .
  next
    case False
    then show ?thesis by (auto intro: triple_return)
  qed
qed

text \<open>What the read-back tells of the block as last seen.\<close>

definition seen_after :: "'v mms_lib \<Rightarrow> RcbLiveState \<Rightarrow> nat \<Rightarrow> ('v rcb option \<Rightarrow> bool) \<Rightarrow> 'v rcb option \<Rightarrow> bool" where
  "seen_after L live p S x \<longleftrightarrow>
     (if ls_readOk live then \<exists>r. x = Some r \<and> live = captureAndLogRcbState L r
      else if p = 8 then x = None else S x)"

lemma live_readOk [simp]: "ls_readOk (captureAndLogRcbState L r)" "\<not> ls_readOk no_live_state"
  by (simp_all add: captureAndLogRcbState_def no_live_state_def)

lemma read_stage:
  "triple (reached env obj t0 (stage l k h (Some e) c S)) (readAndLogLiveRcbState env obj)
     (\<lambda>live. reached env obj t0 (stage l k h (Some e) c
        (\<lambda>x. if ls_readOk live then \<exists>r. x = Some r \<and> live = captureAndLogRcbState (en_lib env) r else S x)))"
proof -
  have "triple (reached env obj t0 (stage l k h (Some e) c S)) (getRCBValues env obj)
    (\<lambda>(err, r). reached env obj t0 (stage l k h (Some e) c (\<lambda>x. if r = None then S x else x = r)))"
    by (rule triple_getRCBValues) (auto simp: stage_def)
  then show ?thesis
    unfolding readAndLogLiveRcbState_def
    by (rule triple_bind_prod)
      (auto intro!: triple_return elim!: since_mono simp: stage_def split: option.split)
qed

lemma step_stage:
  assumes "allowed (en_lib env) k p h e c" and "p = write_rank (sp_element step) r"
  shows "triple (reached env obj t0 (stage l k h (Some e) c S)) (runRcbStep env obj r step)
    (\<lambda>(err, applied, live). reached env obj t0 (stage p p h (Some e) (c \<or> (p = 0 \<and> err = IED_ERROR_OK)) (seen_after (en_lib env) live p S)))"
proof -
  have p: "allowed (en_lib env) p p h e c" using assms(1) by (simp add: allowed_def)
  show ?thesis
    unfolding runRcbStep_def
    by (rule triple_bind [OF write_stage [OF assms(1) [unfolded assms(2)], folded assms(2)]],
        rule triple_bind [OF retry_stage [OF p assms(2)]], rule triple_bind [OF read_stage])
      (auto intro!: triple_return elim!: since_mono simp: stage_def seen_after_def)
qed

section \<open>The sequence follows the protocol\<close>

text \<open>How the end of the log and the outcome belong together.\<close>

definition agrees :: "('v, 'w) mms_env \<Rightarrow> RcbEnableOutcome \<Rightarrow> 'v enable_monitor \<Rightarrow> bool" where
  "agrees env outcome m \<longleftrightarrow>
     (mo_handler m \<longleftrightarrow> outcome = RCB_ENABLE_OUTCOME_ENABLED)
   \<and> map fst (mo_status m) =
       (if en_hasRcbStatusCallback env
          \<and> outcome \<noteq> RCB_ENABLE_OUTCOME_NOT_NEEDED \<and> outcome \<noteq> RCB_ENABLE_OUTCOME_SKIPPED_STOPPING
        then [outcome = RCB_ENABLE_OUTCOME_ENABLED] else [])
   \<and> (outcome = RCB_ENABLE_OUTCOME_OWNED_ELSEWHERE \<or> outcome = RCB_ENABLE_OUTCOME_SKIPPED_STOPPING \<longrightarrow> mo_rank m = 0)
   \<and> (outcome = RCB_ENABLE_OUTCOME_NOT_NEEDED \<longrightarrow> mo_rank m \<le> 1)
   \<and> (outcome = RCB_ENABLE_OUTCOME_ENABLED \<longrightarrow> 8 \<le> mo_rank m
       \<and> (\<forall>r. mo_seen m = Some r \<longrightarrow> rcb_trgOps r AND (en_TRG_OPT_DATA_CHANGED env OR en_TRG_OPT_QUALITY_CHANGED env) \<noteq> 0))"

abbreviation anything :: "'a \<Rightarrow> bool" where
  "anything \<equiv> \<lambda>_. True"

lemma status_stage:
  "triple (reached env obj t0 (stage l k h e c S)) (rcbStatusCallback env obj b err)
     (\<lambda>_. reached env obj t0 (\<lambda>m. l \<le> mo_rank m \<and> mo_rank m \<le> k \<and> mo_handler m = h \<and> S (mo_seen m)
        \<and> mo_status m = (if en_hasRcbStatusCallback env then [(b, err)] else [])))"
proof (cases "en_hasRcbStatusCallback env")
  case True
  have "triple (reached env obj t0 (stage l k h e c S)) (log_event (Ev_status obj b err))
     (\<lambda>_. reached env obj t0 (\<lambda>m. l \<le> mo_rank m \<and> mo_rank m \<le> k \<and> mo_handler m = h \<and> S (mo_seen m) \<and> mo_status m = [(b, err)]))"
    by (rule triple_log_event) (auto simp: stage_def)
  with True show ?thesis by (simp add: rcbStatusCallback_def)
next
  case False
  then show ?thesis by (auto simp: rcbStatusCallback_def stage_def intro!: triple_return elim!: since_mono)
qed

lemma abort_stage:
  "triple (reached env obj t0 (stage l k True e c S)) (abortEnable env obj err) (\<lambda>outcome. reached env obj t0 (agrees env outcome))"
proof -
  have u: "triple (reached env obj t0 (stage l k True e c S)) (log_event (Ev_uninstall obj))
     (\<lambda>_. reached env obj t0 (stage l k False e c S))"
    by (rule triple_log_event) (auto simp: stage_def)
  show ?thesis
    unfolding abortEnable_def
    by (rule triple_bind [OF u], rule triple_bind [OF status_stage], rule triple_return)
      (auto simp: agrees_def elim!: since_mono)
qed

definition judged :: "'v mms_lib \<Rightarrow> RcbLiveState \<Rightarrow> 'v rcb option \<Rightarrow> bool" where
  "judged L live x \<longleftrightarrow> (if ls_readOk live then \<exists>r. x = Some r \<and> live = captureAndLogRcbState L r else x = None)"

lemma judge_stage:
  "triple (reached env obj t0 (stage 8 9 True e c (judged (en_lib env) live))) (judgeEnable env obj live)
     (\<lambda>outcome. reached env obj t0 (agrees env outcome))"
proof -
  have ok: "triple (reached env obj t0 (stage 8 9 True e c (judged (en_lib env) live)))
      (do { rcbStatusCallback env obj True IED_ERROR_OK; return RCB_ENABLE_OUTCOME_ENABLED })
      (\<lambda>outcome. reached env obj t0 (agrees env outcome))"
    if "\<not> (ls_readOk live \<and> ls_trgOps live AND (en_TRG_OPT_DATA_CHANGED env OR en_TRG_OPT_QUALITY_CHANGED env) = 0)"
    by (rule triple_bind [OF status_stage], rule triple_return)
      (use that in \<open>auto simp: agrees_def judged_def captureAndLogRcbState_def elim!: since_mono split: if_splits\<close>)
  show ?thesis
    unfolding judgeEnable_def Let_def
    by (rule triple_if, rule abort_stage, rule ok)
qed

lemma activate_stage:
  assumes "rt_objectReference target = obj"
  shows "triple (reached env obj t0 (stage l 7 True (Some e) c S)) (activateRcb env target requestGi r)
     (\<lambda>outcome. reached env obj t0 (agrees env outcome))"
proof -
  let ?r = "r\<lparr>rcb_rptEna := True\<rparr>" and ?L = "en_lib env"
  have s8: "triple (reached env obj t0 (stage l 7 True (Some e) c S))
      (runRcbStep env obj ?r (rcb_step RCB_ELEMENT_RPT_ENA (RCB_STEP_VERIFY_RPT_ENA True)))
      (\<lambda>(err, applied, live). reached env obj t0 (stage 8 8 True (Some e) c (judged ?L live)))"
    by (rule triple_post [OF step_stage [where p = 8]])
      (auto simp: allowed_def rcb_step_def write_rank_def seen_after_def judged_def elim!: since_mono stage_mono split: if_splits)
  have s9: "triple (reached env obj t0 (stage 8 8 True (Some e) c (judged ?L final)))
      (runRcbStep env obj (?r\<lparr>rcb_gi := True\<rparr>) (rcb_step RCB_ELEMENT_GI RCB_STEP_VERIFY_NONE))
      (\<lambda>(err, applied, live). reached env obj t0 (stage 8 9 True (Some e) c (judged ?L (if ls_readOk live then live else final))))"
    for final
    by (rule triple_post [OF step_stage [where p = 9]])
      (auto simp: allowed_def rcb_step_def write_rank_def seen_after_def judged_def elim!: since_mono stage_mono split: if_splits)
  have j: "triple (reached env obj t0 (stage 8 8 True (Some e) c (judged ?L live))) (judgeEnable env obj live)
     (\<lambda>outcome. reached env obj t0 (agrees env outcome))" for live
    by (rule triple_pre [OF judge_stage]) (auto elim!: since_mono stage_mono)
  show ?thesis
    unfolding activateRcb_def Let_def assms
    by (rule triple_bind_prod3 [OF s8], simp only: prod.case, rule triple_if, rule abort_stage, rule triple_if,
        rule triple_bind_prod3 [OF s9], simp only: prod.case, rule judge_stage, rule j)
qed

text \<open>A step that may be skipped takes the sequence from stage \<open>k\<close> to stage \<open>p\<close>.\<close>

lemma middle_step:
  assumes "allowed (en_lib env) k p True e c" and "p = write_rank el r"
  shows "triple (reached env obj t0 (stage 0 k True (Some e) c anything)) (runRcbStep env obj r (rcb_step el v))
    (\<lambda>(err, applied, live). reached env obj t0 (stage 0 p True (Some e) c anything))"
  by (rule triple_post [OF step_stage [OF assms(1)]])
    (auto simp: rcb_step_def assms(2) elim!: since_mono stage_mono)

lemma skip_stage:
  "k \<le> p \<Longrightarrow> triple (reached env obj t0 (stage 0 k True (Some e) c anything)) (State_Monad.return a)
     (\<lambda>_. reached env obj t0 (stage 0 p True (Some e) c anything))"
  by (rule triple_return) (auto elim!: since_mono stage_mono)

lemma preDisable_stage:
  assumes "rt_objectReference target = obj" and "c \<longleftrightarrow> reservation = RCB_RESERVE_ACQUIRED"
  shows "triple (reached env obj t0 (stage 0 2 True (Some e) c anything))
     (preDisable env target reservation (captureAndLogRcbState (en_lib env) e) r)
     (\<lambda>_. reached env obj t0 (stage 0 3 True (Some e) c anything))"
proof -
  let ?own = "reservation = RCB_RESERVE_ACQUIRED
    \<or> (reservation = RCB_RESERVE_UNSUPPORTED \<and> \<not> rcb_resv e \<and> formatRcbOwner (en_lib env) (rcb_owner e) = None)"
  show ?thesis
  proof (cases "rcb_rptEna e \<and> ?own")
    case True
    then have "allowed (en_lib env) 2 3 True e c" using assms(2) by (auto simp: allowed_def unowned_def)
    from middle_step [OF this, of RCB_ELEMENT_RPT_ENA "r\<lparr>rcb_rptEna := False\<rparr>"]
    have "triple (reached env obj t0 (stage 0 2 True (Some e) c anything))
        (runRcbStep env obj (r\<lparr>rcb_rptEna := False\<rparr>) (rcb_step RCB_ELEMENT_RPT_ENA (RCB_STEP_VERIFY_RPT_ENA False)))
        (\<lambda>(err, applied, live). reached env obj t0 (stage 0 3 True (Some e) c anything))"
      by (simp add: write_rank_def)
    with True show ?thesis
      by (auto simp: preDisable_def captureAndLogRcbState_def Let_def assms(1) intro!: triple_bind_prod3 triple_return)
  next
    case False
    then show ?thesis by (auto simp: preDisable_def captureAndLogRcbState_def Let_def intro!: skip_stage)
  qed
qed

lemma bind_stage:
  assumes "rt_objectReference target = obj"
  shows "triple (reached env obj t0 (stage 0 3 True (Some e) c anything)) (bindDataSet env target ds r)
     (\<lambda>_. reached env obj t0 (stage 0 4 True (Some e) c anything))"
  unfolding bindDataSet_def Let_def assms
  by (rule triple_bind_prod3 [OF middle_step [where p = 4]])
    (auto simp: allowed_def write_rank_def intro!: triple_return)

lemma optFlds_stage:
  assumes "rt_objectReference target = obj"
  shows "triple (reached env obj t0 (stage 0 4 True (Some e) c anything)) (requestEntryIdField env target post r)
     (\<lambda>_. reached env obj t0 (stage 0 5 True (Some e) c anything))"
  unfolding requestEntryIdField_def Let_def assms
  by (rule triple_if, rule triple_bind_prod3 [OF middle_step [where p = 5]])
    (auto simp: allowed_def write_rank_def intro!: triple_return skip_stage)

lemma trgOps_stage:
  assumes "rt_objectReference target = obj"
  shows "triple (reached env obj t0 (stage 0 5 True (Some e) c anything)) (requestTriggers env target post r)
     (\<lambda>_. reached env obj t0 (stage 0 6 True (Some e) c anything))"
  unfolding requestTriggers_def Let_def assms
  by (rule triple_if, rule triple_bind_prod3 [OF middle_step [where p = 6]])
    (auto simp: allowed_def write_rank_def intro!: triple_return skip_stage)

lemma resume_stage:
  assumes "rt_objectReference target = obj"
  shows "triple (reached env obj t0 (stage 0 6 True (Some e) c anything)) (resumeEntryId env target r)
     (\<lambda>_. reached env obj t0 (stage 0 7 True (Some e) c anything))"
proof -
  have e: "triple (reached env obj t0 (stage 0 6 True (Some e) c anything)) (do {
        (err, applied, live) \<leftarrow> runRcbStep env obj (r\<lparr>rcb_entryId := Some eid\<rparr>) (rcb_step RCB_ELEMENT_ENTRY_ID RCB_STEP_VERIFY_NONE);
        if err \<noteq> IED_ERROR_OK then do { change_cache (forgetEntryId obj); return (True, r\<lparr>rcb_entryId := Some eid\<rparr>) }
        else return (gi, r\<lparr>rcb_entryId := Some eid\<rparr>)
      }) (\<lambda>_. reached env obj t0 (stage 0 7 True (Some e) c anything))" for eid gi
    by (rule triple_bind_prod3 [OF middle_step [where p = 7]])
      (auto simp: allowed_def write_rank_def intro!: triple_return triple_bind [OF triple_quiet])
  show ?thesis
    unfolding resumeEntryId_def Let_def assms
    by (rule triple_bind [OF triple_quiet]) (auto split: option.split intro!: skip_stage e)
qed

lemma sequence_stage:
  assumes "rt_objectReference target = obj" and "c \<longleftrightarrow> reservation = RCB_RESERVE_ACQUIRED"
  shows "triple (reached env obj t0 (stage 0 2 True (Some e) c anything))
     (enableSequence env target reservation (captureAndLogRcbState (en_lib env) e) ds r)
     (\<lambda>outcome. reached env obj t0 (agrees env outcome))"
  unfolding enableSequence_def assms(1)
  by (rule triple_bind [OF preDisable_stage [OF assms]], rule triple_bind_prod3 [OF bind_stage [OF assms(1)]],
      rule triple_if, rule abort_stage, rule triple_bind [OF optFlds_stage [OF assms(1)]],
      rule triple_bind [OF trgOps_stage [OF assms(1)]], rule triple_bind_prod [OF resume_stage [OF assms(1)]],
      rule activate_stage [OF assms(1)])

lemma configure_stage:
  assumes "rt_objectReference target = obj" and "c \<longleftrightarrow> reservation = RCB_RESERVE_ACQUIRED"
  shows "triple (reached env obj t0 (stage 0 0 False (Some e) c anything))
     (configureTarget env target reservation (captureAndLogRcbState (en_lib env) e) r)
     (\<lambda>outcome. reached env obj t0 (agrees env outcome))"
proof -
  have res: "triple (reached env obj t0 (stage 0 0 False (Some e) c anything)) (resolveForTarget env target)
      (\<lambda>_. reached env obj t0 (stage 0 1 False (Some e) c anything))"
    by (rule triple_resolveForTarget) (auto simp: stage_def assms(1))
  have ins: "triple (reached env obj t0 (stage 0 1 False (Some e) c anything)) (log_event (Ev_install obj i))
      (\<lambda>_. reached env obj t0 (stage 0 2 True (Some e) c anything))" for i
    by (rule triple_log_event) (auto simp: stage_def)
  have nn: "triple (reached env obj t0 (stage 0 1 False (Some e) c anything)) (return RCB_ENABLE_OUTCOME_NOT_NEEDED)
      (\<lambda>outcome. reached env obj t0 (agrees env outcome))"
    by (rule triple_return) (auto simp: agrees_def stage_def elim!: since_mono)
  have f: "triple (reached env obj t0 (stage 0 1 False (Some e) c anything))
      (do { rcbStatusCallback env obj False IED_ERROR_OBJECT_ATTRIBUTE_INCONSISTENT; return RCB_ENABLE_OUTCOME_FAILED })
      (\<lambda>outcome. reached env obj t0 (agrees env outcome))"
    by (rule triple_bind [OF status_stage], rule triple_return) (auto simp: agrees_def elim!: since_mono)
  show ?thesis
    unfolding configureTarget_def assms(1)
    by (rule triple_bind [OF res], rule triple_bind [OF triple_quiet])
      (auto split: option.split simp del: One_nat_def intro!: nn f triple_bind [OF ins] sequence_stage [OF assms])
qed

lemma reserveResult_acquired: "reserveResult err = RCB_RESERVE_ACQUIRED \<longleftrightarrow> err = IED_ERROR_OK"
  by (cases err) (simp_all add: reserveResult_def)

lemma reserve_stage:
  assumes "rt_objectReference target = obj"
  shows "triple (reached env obj t0 (stage 0 0 False (Some e) False anything)) (reserveOneTarget env target r live cycle)
     (\<lambda>(reservation, r'). reached env obj t0 (stage 0 0 False (Some e) (reservation = RCB_RESERVE_ACQUIRED) anything))"
proof -
  have st: "triple (reached env obj t0 (stage 0 0 False (Some e) False anything)) (runRcbStep env obj r' step)
      (\<lambda>(err, applied, live). reached env obj t0 (stage 0 0 False (Some e) (err = IED_ERROR_OK) anything))"
    if "write_rank (sp_element step) r' = 0" for r' step
    by (rule triple_post [OF step_stage [where p = 0]])
      (use that in \<open>auto simp: allowed_def elim!: since_mono stage_mono\<close>)
  show ?thesis
    unfolding reserveOneTarget_def Let_def assms
    by (intro triple_if triple_bind_prod3 [OF st])
      (auto simp: write_rank_def reserveResult_acquired intro!: triple_return)
qed

lemma enable_stage:
  assumes "rt_objectReference target = obj"
  shows "triple (reached env obj t0 (\<lambda>m. m = monitor_start)) (enableOneTarget env target cycle)
     (\<lambda>(outcome, cycle'). reached env obj t0 (agrees env outcome))"
proof -
  have rd: "triple (reached env obj t0 (\<lambda>m. m = monitor_start)) (getRCBValues env obj)
      (\<lambda>(err, r). reached env obj t0 (stage 0 0 False r False anything))"
    by (rule triple_getRCBValues) (auto simp: stage_def monitor_start_def)
  have none: "triple (reached env obj t0 (stage 0 0 False None False anything))
      (do { rcbStatusCallback env obj False err; return (RCB_ENABLE_OUTCOME_FAILED, countMissing cycle err) })
      (\<lambda>(outcome, cycle'). reached env obj t0 (agrees env outcome))" for err
    by (rule triple_bind [OF status_stage], rule triple_return) (auto simp: agrees_def elim!: since_mono)
  have refused: "triple (reached env obj t0 (stage 0 0 False (Some e) c anything))
      (do { rcbStatusCallback env obj False err; return (if owned then RCB_ENABLE_OUTCOME_OWNED_ELSEWHERE else RCB_ENABLE_OUTCOME_FAILED, cy) })
      (\<lambda>(outcome, cycle'). reached env obj t0 (agrees env outcome))" for e c err owned and cy :: RcbEnableCycleState
    by (rule triple_bind [OF status_stage], rule triple_return) (auto simp: agrees_def elim!: since_mono)
  have conf: "triple (reached env obj t0 (stage 0 0 False (Some e) (reservation = RCB_RESERVE_ACQUIRED) anything))
      (do { outcome \<leftarrow> configureTarget env target reservation (captureAndLogRcbState (en_lib env) e) r; return (outcome, cy) })
      (\<lambda>(outcome, cycle'). reached env obj t0 (agrees env outcome))" for e reservation r and cy :: RcbEnableCycleState
    by (rule triple_bind [OF configure_stage [OF assms refl]], rule triple_return) simp
  have claim: "triple (reached env obj t0 (stage 0 0 False (Some e) False anything)) (do {
        (reservation, r1) \<leftarrow> reserveOneTarget env target e (captureAndLogRcbState (en_lib env) e) cy;
        let cycle1 = latchOwnership cy reservation;
        if reservation = RCB_RESERVE_OWNED_ELSEWHERE \<or> reservation = RCB_RESERVE_FAILED then do {
          rcbStatusCallback env obj False
            (if reservation = RCB_RESERVE_OWNED_ELSEWHERE then IED_ERROR_ACCESS_DENIED else IED_ERROR_UNKNOWN);
          return (if reservation = RCB_RESERVE_OWNED_ELSEWHERE then RCB_ENABLE_OUTCOME_OWNED_ELSEWHERE
                  else RCB_ENABLE_OUTCOME_FAILED, cycle1)
        }
        else do {
          outcome \<leftarrow> configureTarget env target reservation (captureAndLogRcbState (en_lib env) e) r1;
          return (outcome, cycle1)
        }
      }) (\<lambda>(outcome, cycle'). reached env obj t0 (agrees env outcome))" for e cy
    unfolding Let_def
    by (rule triple_bind_prod [OF reserve_stage [OF assms]], simp only: prod.case, rule triple_if, rule refused, rule conf)
  have start: "triple (reached env obj t0 (\<lambda>m. m = monitor_start)) (return (RCB_ENABLE_OUTCOME_SKIPPED_STOPPING, cycle))
      (\<lambda>(outcome, cycle'). reached env obj t0 (agrees env outcome))"
    by (rule triple_return) (auto simp: agrees_def monitor_start_def elim!: since_mono)
  have read: "triple (reached env obj t0 (stage 0 0 False r False anything)) (case r of
        None \<Rightarrow> do { rcbStatusCallback env obj False err; return (RCB_ENABLE_OUTCOME_FAILED, countMissing cycle err) }
      | Some e \<Rightarrow> f e) (\<lambda>(outcome, cycle'). reached env obj t0 (agrees env outcome))"
    if "\<And>e. triple (reached env obj t0 (stage 0 0 False (Some e) False anything)) (f e) (\<lambda>(outcome, cycle'). reached env obj t0 (agrees env outcome))"
    for r err f
    using none that by (cases r) simp_all
  show ?thesis
    unfolding enableOneTarget_def assms
    by (rule triple_bind [OF triple_quiet], simp, rule triple_if, rule start, rule triple_bind_prod [OF rd],
        simp only: prod.case, rule read, simp only: Let_def, rule claim [unfolded Let_def])
qed

lemma enable_accepted:
  "\<exists>es m. cl_log (snd (run_state (enableOneTarget env target cycle) s)) = cl_log s @ es
     \<and> monitor (protocol_step (en_lib env) (rt_objectReference target)) monitor_start es = Some m
     \<and> agrees env (fst (fst (run_state (enableOneTarget env target cycle) s))) m"
proof -
  have "reached env (rt_objectReference target) (cl_log s) (\<lambda>m. m = monitor_start) s"
    by (simp add: since_def)
  with enable_stage [OF refl, where env = env and ?t0.0 = "cl_log s" and target = target and cycle = cycle] show ?thesis
    by (auto simp: triple_def since_def split_beta)
qed


section \<open>What an attempt costs\<close>

text \<open>A second monitor, which accepts everything and counts the writes.\<close>

fun count_step :: "nat \<Rightarrow> 'v rcb_event \<Rightarrow> nat option" where
  "count_step n (Ev_write o' el r err) = Some (n + 1)"
| "count_step n e = Some n"

definition writes :: "'v rcb_event list \<Rightarrow> nat" where
  "writes es = length (filter (\<lambda>e. case e of Ev_write o' el r err \<Rightarrow> True | _ \<Rightarrow> False) es)"

lemma monitor_count: "monitor count_step n es = Some (n + writes es)"
proof (induction es rule: rev_induct)
  case (snoc e es)
  then show ?case by (cases e) (simp_all add: writes_def)
qed (simp add: writes_def)

abbreviation atmost :: "'v rcb_event list \<Rightarrow> nat \<Rightarrow> ('v, 'w) client \<Rightarrow> bool" where
  "atmost t0 n \<equiv> since count_step 0 t0 (\<lambda>k. k \<le> n)"

lemma atmost_mono: "atmost t0 n s \<Longrightarrow> n \<le> n' \<Longrightarrow> atmost t0 n' s"
  by (erule since_mono) simp

lemma count_log_event:
  "(\<And>n. count_step n e = Some n) \<Longrightarrow> triple (atmost t0 n) (log_event e) (\<lambda>_. atmost t0 n)"
  by (rule triple_log_event) simp

lemma count_status: "triple (atmost t0 n) (rcbStatusCallback env obj b err) (\<lambda>_. atmost t0 n)"
  by (simp add: rcbStatusCallback_def count_log_event triple_return)

lemma count_read: "triple (atmost t0 n) (readAndLogLiveRcbState env obj) (\<lambda>_. atmost t0 n)"
proof -
  have "triple (atmost t0 n) (getRCBValues env obj) (\<lambda>(err, r). atmost t0 n)"
    by (rule triple_getRCBValues) simp
  then show ?thesis
    unfolding readAndLogLiveRcbState_def by (rule triple_bind_prod) (auto intro: triple_return)
qed

lemma count_write: "triple (atmost t0 n) (setRCBValues env obj el r) (\<lambda>_. atmost t0 (n + 1))"
  by (rule triple_setRCBValues) simp

lemma count_retry:
  "triple (atmost t0 n) (retryRcbStep env obj r step left err)
     (\<lambda>_. atmost t0 (n + (if sp_noTempUnavailableRetry step then 0 else left)))"
proof (induction left arbitrary: err n)
  case 0
  then show ?case by (auto intro: triple_return)
next
  case (Suc left)
  show ?case
  proof (cases "err = IED_ERROR_TEMPORARILY_UNAVAILABLE \<and> \<not> sp_noTempUnavailableRetry step")
    case True
    have again: "triple (atmost t0 n) (do {
        interruptibleSleep_mms env 500; err' \<leftarrow> setRCBValues env obj (sp_element step) r; retryRcbStep env obj r step left err' })
      (\<lambda>_. atmost t0 (n + Suc left))"
      by (rule triple_bind [OF triple_quiet], simp, rule triple_bind [OF count_write])
        (use Suc.IH [of "n + 1"] True in simp)
    have "triple (atmost t0 n) (do {
        stop \<leftarrow> stopRequested env;
        if stop then return err
        else do { interruptibleSleep_mms env 500; err' \<leftarrow> setRCBValues env obj (sp_element step) r; retryRcbStep env obj r step left err' }
      }) (\<lambda>_. atmost t0 (n + Suc left))"
      by (rule triple_bind [OF triple_quiet], simp, rule triple_if, rule triple_return, erule atmost_mono, simp, rule again)
    with True show ?thesis unfolding retryRcbStep.simps if_P [OF True] by simp
  next
    case False
    then show ?thesis by (auto intro!: triple_return elim!: atmost_mono)
  qed
qed

lemma count_step_run:
  "triple (atmost t0 n) (runRcbStep env obj r step)
     (\<lambda>(err, applied, live). atmost t0 (n + (if sp_noTempUnavailableRetry step then 1 else 4)))"
  unfolding runRcbStep_def MMS_REPORT_CLIENT_TEMP_UNAVAILABLE_MAX_RETRIES_def
  by (rule triple_bind [OF count_write], rule triple_bind [OF count_retry], rule triple_bind [OF count_read], rule triple_return)
    (auto elim!: atmost_mono)

lemma count_rcb_step:
  "n + 4 \<le> n' \<Longrightarrow> triple (atmost t0 n) (runRcbStep env obj r (rcb_step el v)) (\<lambda>(err, applied, live). atmost t0 n')"
  by (rule triple_post [OF count_step_run]) (auto simp: rcb_step_def elim!: atmost_mono)

lemma count_abort: "triple (atmost t0 n) (abortEnable env obj err) (\<lambda>_. atmost t0 n)"
  unfolding abortEnable_def
  by (rule triple_bind [OF count_log_event], simp, rule triple_bind [OF count_status], rule triple_return)

lemma count_judge: "triple (atmost t0 n) (judgeEnable env obj live) (\<lambda>_. atmost t0 n)"
  unfolding judgeEnable_def Let_def
  by (rule triple_if, rule count_abort, rule triple_bind [OF count_status], rule triple_return)

lemma count_return: "n \<le> n' \<Longrightarrow> triple (atmost t0 n) (State_Monad.return a) (\<lambda>_. atmost t0 n')"
  by (rule triple_return) (erule atmost_mono)

lemmas count_rules = count_return count_judge count_abort triple_if triple_bind_prod3 [OF count_rcb_step]

lemma count_optional:
  "triple (atmost t0 n) (preDisable env target reservation live r) (\<lambda>_. atmost t0 (n + 4))"
  "triple (atmost t0 n) (bindDataSet env target ds r) (\<lambda>_. atmost t0 (n + 4))"
  "triple (atmost t0 n) (requestEntryIdField env target live r) (\<lambda>_. atmost t0 (n + 4))"
  "triple (atmost t0 n) (requestTriggers env target live r) (\<lambda>_. atmost t0 (n + 4))"
  unfolding preDisable_def bindDataSet_def requestEntryIdField_def requestTriggers_def Let_def
  by (auto intro!: count_rules)

lemma count_resume: "triple (atmost t0 n) (resumeEntryId env target r) (\<lambda>_. atmost t0 (n + 4))"
proof -
  have f: "triple (atmost t0 k) (do { change_cache g; return a }) (\<lambda>_. atmost t0 k)" for k g and a :: "bool \<times> 'a rcb"
    by (rule triple_bind [OF triple_quiet], simp, rule triple_return)
  show ?thesis
    unfolding resumeEntryId_def Let_def
    by (rule triple_bind [OF triple_quiet]) (auto split: option.split intro!: count_rules f)
qed

lemma count_activate: "triple (atmost t0 n) (activateRcb env target gi r) (\<lambda>_. atmost t0 (n + 8))"
proof -
  have a: "triple (atmost t0 (n + 4)) (abortEnable env obj err) (\<lambda>_. atmost t0 (n + 8))" for obj err
    by (rule triple_post [OF count_abort]) (erule atmost_mono, simp)
  have j: "triple (atmost t0 (n + 4)) (judgeEnable env obj live) (\<lambda>_. atmost t0 (n + 8))" for obj live
    by (rule triple_post [OF count_judge]) (erule atmost_mono, simp)
  show ?thesis
    unfolding activateRcb_def Let_def
    by (rule triple_bind_prod3 [OF count_rcb_step [OF order_refl]], simp only: prod.case, rule triple_if, rule a, rule triple_if,
        rule triple_bind_prod3 [OF count_rcb_step [where n' = "n + 8"]], simp, simp only: prod.case, rule count_judge, rule j)
qed

lemma count_sequence: "triple (atmost t0 n) (enableSequence env target reservation live ds r) (\<lambda>_. atmost t0 (n + 28))"
proof -
  have a: "triple (atmost t0 (n + 4 + 4)) (abortEnable env obj err) (\<lambda>_. atmost t0 (n + 28))" for obj err
    by (rule triple_post [OF count_abort]) (erule atmost_mono, simp)
  have c: "triple (atmost t0 (n + 4 + 4 + 4 + 4 + 4)) (activateRcb env target gi r) (\<lambda>_. atmost t0 (n + 28))" for gi r
    by (rule triple_post [OF count_activate]) (erule atmost_mono, simp)
  show ?thesis
    unfolding enableSequence_def
    by (rule triple_bind [OF count_optional(1)], rule triple_bind_prod3 [OF count_optional(2)], rule triple_if, rule a,
        rule triple_bind [OF count_optional(3)], rule triple_bind [OF count_optional(4)],
        rule triple_bind_prod [OF count_resume], rule c)
qed

lemma count_configure: "triple (atmost t0 n) (configureTarget env target reservation live r) (\<lambda>_. atmost t0 (n + 28))"
proof -
  have res: "triple (atmost t0 n) (resolveForTarget env target) (\<lambda>_. atmost t0 n)" by (rule triple_resolveForTarget) simp
  have st: "triple (atmost t0 n) (rcbStatusCallback env obj b err) (\<lambda>_. atmost t0 (n + 28))" for obj b err
    by (rule triple_post [OF count_status]) (erule atmost_mono, simp)
  have ins: "triple (atmost t0 n) (log_event (Ev_install o' i)) (\<lambda>_. atmost t0 n)" for o' i by (rule count_log_event) simp
  show ?thesis
    unfolding configureTarget_def
    by (rule triple_bind [OF res], rule triple_bind [OF triple_quiet])
      (auto split: option.split intro!: count_return triple_bind [OF st] triple_bind [OF ins] count_sequence)
qed

text \<open>The cost by outcome.\<close>

definition cost_of :: "RcbEnableCycleState \<Rightarrow> RcbEnableOutcome \<Rightarrow> nat" where
  "cost_of cycle outcome =
     (if outcome = RCB_ENABLE_OUTCOME_OWNED_ELSEWHERE then (if cy_reservationRetriesDisabled cycle then 1 else 4) else 32)"

lemma configure_outcome:
  "triple anything (configureTarget env target reservation live r) 
     (\<lambda>outcome s. outcome \<noteq> RCB_ENABLE_OUTCOME_OWNED_ELSEWHERE \<and> outcome \<noteq> RCB_ENABLE_OUTCOME_SKIPPED_STOPPING)"
proof -
  have j: "triple anything (judgeEnable env obj l)
      (\<lambda>outcome s. outcome \<noteq> RCB_ENABLE_OUTCOME_OWNED_ELSEWHERE \<and> outcome \<noteq> RCB_ENABLE_OUTCOME_SKIPPED_STOPPING)" for obj l
    by (auto simp: judgeEnable_def abortEnable_def triple_def split_beta Let_def)
  show ?thesis
    unfolding configureTarget_def enableSequence_def activateRcb_def
    by (auto simp: triple_def split_beta Let_def abortEnable_def split: option.split)
       (use j in \<open>auto simp: triple_def\<close>)
qed

lemma triple_anything: "triple P f Q \<Longrightarrow> triple anything f R \<Longrightarrow> triple P f (\<lambda>a s. Q a s \<and> R a s)"
  by (simp add: triple_def)

lemma count_reserve:
  "triple (atmost t0 0) (reserveOneTarget env target r live cycle)
     (\<lambda>(reservation, r'). atmost t0 (if cy_reservationRetriesDisabled cycle then 1 else 4))"
  unfolding reserveOneTarget_def Let_def
  by (intro triple_if triple_bind_prod3 [OF count_step_run]) (auto intro!: triple_return elim!: since_mono)

lemma count_enable:
  "triple (atmost t0 0) (enableOneTarget env target cycle) (\<lambda>(outcome, cycle'). atmost t0 (cost_of cycle outcome))"
proof -
  let ?obj = "rt_objectReference target"
  have rd: "triple (atmost t0 0) (getRCBValues env ?obj) (\<lambda>(err, r). atmost t0 0)" by (rule triple_getRCBValues) simp
  have none: "triple (atmost t0 0) (do { rcbStatusCallback env ?obj False err; return (RCB_ENABLE_OUTCOME_FAILED, cy) })
      (\<lambda>(outcome, cycle'). atmost t0 (cost_of cycle outcome))" for err and cy :: RcbEnableCycleState
    by (rule triple_bind [OF count_status], rule triple_return) (auto simp: cost_of_def elim!: since_mono)
  have refused: "triple (atmost t0 (if cy_reservationRetriesDisabled cycle then 1 else 4))
      (do { rcbStatusCallback env ?obj False err; return (if owned then RCB_ENABLE_OUTCOME_OWNED_ELSEWHERE else RCB_ENABLE_OUTCOME_FAILED, cy) })
      (\<lambda>(outcome, cycle'). atmost t0 (cost_of cycle outcome))" for err owned and cy :: RcbEnableCycleState
    by (rule triple_bind [OF count_status], rule triple_return) (auto simp: cost_of_def elim!: since_mono split: if_splits)
  have conf: "triple (atmost t0 (if cy_reservationRetriesDisabled cycle then 1 else 4))
      (do { outcome \<leftarrow> configureTarget env target reservation live r; return (outcome, cy) })
      (\<lambda>(outcome, cycle'). atmost t0 (cost_of cycle outcome))" for reservation live r and cy :: RcbEnableCycleState
    by (rule triple_bind [OF triple_anything [OF count_configure configure_outcome]], rule triple_return)
      (auto simp: cost_of_def elim!: since_mono split: if_splits)
  have start: "triple (atmost t0 0) (return (RCB_ENABLE_OUTCOME_SKIPPED_STOPPING, cycle))
      (\<lambda>(outcome, cycle'). atmost t0 (cost_of cycle outcome))"
    by (rule triple_return) (auto elim!: since_mono)
  have same: "cy_reservationRetriesDisabled (cycle\<lparr>cy_consecutiveObjectDoesNotExist := 0\<rparr>) = cy_reservationRetriesDisabled cycle" by simp
  have claim: "triple (atmost t0 0) (do {
        (reservation, r1) \<leftarrow> reserveOneTarget env target e live (cycle\<lparr>cy_consecutiveObjectDoesNotExist := 0\<rparr>);
        let cycle1 = latchOwnership (cycle\<lparr>cy_consecutiveObjectDoesNotExist := 0\<rparr>) reservation;
        if reservation = RCB_RESERVE_OWNED_ELSEWHERE \<or> reservation = RCB_RESERVE_FAILED then do {
          rcbStatusCallback env ?obj False
            (if reservation = RCB_RESERVE_OWNED_ELSEWHERE then IED_ERROR_ACCESS_DENIED else IED_ERROR_UNKNOWN);
          return (if reservation = RCB_RESERVE_OWNED_ELSEWHERE then RCB_ENABLE_OUTCOME_OWNED_ELSEWHERE
                  else RCB_ENABLE_OUTCOME_FAILED, cycle1)
        }
        else do {
          outcome \<leftarrow> configureTarget env target reservation live r1;
          return (outcome, cycle1)
        }
      }) (\<lambda>(outcome, cycle'). atmost t0 (cost_of cycle outcome))" for e live
    unfolding Let_def
    by (rule triple_bind_prod [OF count_reserve], simp only: prod.case same, rule triple_if, rule refused, rule conf)
  have read: "triple (atmost t0 0) (case r of
        None \<Rightarrow> do { rcbStatusCallback env ?obj False err; return (RCB_ENABLE_OUTCOME_FAILED, countMissing cycle err) }
      | Some e \<Rightarrow> f e) (\<lambda>(outcome, cycle'). atmost t0 (cost_of cycle outcome))"
    if "\<And>e. triple (atmost t0 0) (f e) (\<lambda>(outcome, cycle'). atmost t0 (cost_of cycle outcome))" for r err f
    using none that by (cases r) simp_all
  show ?thesis
    unfolding enableOneTarget_def
    by (rule triple_bind [OF triple_quiet], simp, rule triple_if, rule start, rule triple_bind_prod [OF rd],
        simp only: prod.case, rule read, simp only: Let_def, rule claim [unfolded Let_def])
qed

text \<open>What an attempt costs: enabling one block writes to the device at most 32 times (eight
  attributes, three retries each); a block held by another client costs at most four writes,
  and one once three blocks in a row were refused.\<close>

theorem enable_write_bound:
  "\<exists>es. cl_log (snd (run_state (enableOneTarget env target cycle) s)) = cl_log s @ es
     \<and> writes es \<le> cost_of cycle (fst (fst (run_state (enableOneTarget env target cycle) s)))"
proof -
  have "atmost (cl_log s) 0 s" by (simp add: since_def)
  with count_enable [where ?t0.0 = "cl_log s" and env = env and target = target and cycle = cycle]
  show ?thesis by (auto simp: triple_def since_def split_beta monitor_count)
qed

section \<open>A whole cycle\<close>

lemma enable_not_skipped:
  assumes "\<And>w. \<not> en_stopRequested env w"
  shows "fst (fst (run_state (enableOneTarget env target cycle) s)) \<noteq> RCB_ENABLE_OUTCOME_SKIPPED_STOPPING"
proof -
  have c: "fst (run_state (configureTarget env target reservation live r) s') \<noteq> RCB_ENABLE_OUTCOME_SKIPPED_STOPPING"
    for reservation live r s'
    using configure_outcome [of env target reservation live r] by (simp add: triple_def)
  show ?thesis
    using assms c by (auto simp: enableOneTarget_def stopRequested_def split_beta Let_def split: option.split)
qed

definition tally_sum :: "enable_tally \<Rightarrow> nat" where
  "tally_sum t = ta_enabled t + ta_notNeeded t + ta_ownedElsewhere t + ta_failed t"

lemma countOutcome_sum:
  "outcome \<noteq> RCB_ENABLE_OUTCOME_SKIPPED_STOPPING \<Longrightarrow> tally_sum (countOutcome outcome t) = tally_sum t + 1"
  by (cases outcome) (simp_all add: countOutcome_def tally_sum_def)

lemma enableLoop_sum:
  assumes "\<And>w. \<not> en_stopRequested env w"
  shows "tally_sum (fst (run_state (enableLoop env targets cycle t) s)) = tally_sum t + length targets"
proof (induction targets arbitrary: cycle t s)
  case (Cons target targets)
  from enable_not_skipped [OF assms, of target cycle s]
  have "tally_sum (countOutcome (fst (fst (run_state (enableOneTarget env target cycle) s))) t) = tally_sum t + 1"
    by (rule countOutcome_sum)
  with Cons.IH show ?case using assms by (simp add: stopRequested_def split_beta)
qed simp

text \<open>The log of the loop: one accepted run after another.\<close>

definition follows_protocol :: "('v, 'w) mms_env \<Rightarrow> ReportControlBlockTarget \<Rightarrow> 'v rcb_event list \<Rightarrow> bool" where
  "follows_protocol env target es \<longleftrightarrow>
     monitor (protocol_step (en_lib env) (rt_objectReference target)) monitor_start es \<noteq> None"

lemma enableLoop_log:
  "\<exists>runs. cl_log (snd (run_state (enableLoop env targets cycle t) s)) = cl_log s @ concat runs
     \<and> length runs \<le> length targets \<and> (\<forall>i < length runs. follows_protocol env (targets ! i) (runs ! i))"
proof (induction targets arbitrary: cycle t s)
  case Nil
  show ?case by (intro exI [of _ "[]"]) simp
next
  case (Cons target targets)
  show ?case
  proof (cases "en_stopRequested env (cl_world s)")
    case True
    then show ?thesis by (intro exI [of _ "[]"]) (simp add: stopRequested_def)
  next
    case False
    define s1 where "s1 = snd (run_state (enableOneTarget env target cycle) s)"
    define r1 where "r1 = fst (run_state (enableOneTarget env target cycle) s)"
    have run: "run_state (enableLoop env (target # targets) cycle t) s
        = run_state (enableLoop env targets (snd r1) (countOutcome (fst r1) t)) s1"
      using False by (simp add: stopRequested_def split_beta r1_def s1_def)
    from enable_accepted [of env target cycle s] obtain es m where e: "cl_log s1 = cl_log s @ es"
        "monitor (protocol_step (en_lib env) (rt_objectReference target)) monitor_start es = Some m"
      unfolding s1_def by blast
    from Cons.IH [where s = s1 and cycle = "snd r1" and t = "countOutcome (fst r1) t"] obtain runs where
      i: "cl_log (snd (run_state (enableLoop env targets (snd r1) (countOutcome (fst r1) t)) s1)) = cl_log s1 @ concat runs"
      "length runs \<le> length targets" "\<forall>i < length runs. follows_protocol env (targets ! i) (runs ! i)" by blast
    have "\<forall>i < length (es # runs). follows_protocol env ((target # targets) ! i) ((es # runs) ! i)"
      using e(2) i(3) by (auto simp: follows_protocol_def nth_Cons split: nat.split)
    then show ?thesis unfolding run using e(1) i(1,2) by (intro exI [of _ "es # runs"]) simp
  qed
qed

text \<open>One bad block does not abort the rest: unless a stop is requested, a cycle visits every target
  and its tally counts each of them exactly once, and in every case what a cycle does to the
  device is a sequence of protocol runs, one per visited target, in the order of the targets.\<close>

theorem enable_cycle_complete:
  "((\<forall>w. \<not> en_stopRequested env w) \<longrightarrow>
      tally_sum (fst (run_state (enableAllTargets env (Some targets)) s)) = length targets)
   \<and> (\<exists>runs. cl_log (snd (run_state (enableAllTargets env (Some targets)) s)) = cl_log s @ concat runs
        \<and> length runs \<le> length targets \<and> (\<forall>i < length runs. follows_protocol env (targets ! i) (runs ! i)))"
proof -
  define c0 where "c0 = \<lparr>cy_consecutiveOwnedElsewhere = 0, cy_reservationRetriesDisabled = False,
    cy_consecutiveObjectDoesNotExist = 0, cy_modelMismatchReported = False\<rparr>"
  define t0 where "t0 = \<lparr>ta_enabled = 0, ta_notNeeded = 0, ta_ownedElsewhere = 0, ta_failed = 0\<rparr>"
  define s1 where "s1 = s\<lparr>cl_world := en_beginCycle env (cl_world s)\<rparr>"
  have r: "fst (run_state (enableAllTargets env (Some targets)) s) = fst (run_state (enableLoop env targets c0 t0) s1)"
    "cl_log (snd (run_state (enableAllTargets env (Some targets)) s)) = cl_log (snd (run_state (enableLoop env targets c0 t0) s1))"
    by (simp_all add: enableAllTargets_def split_beta change_world_def stopRequested_def c0_def t0_def s1_def)
  have "tally_sum t0 = 0" by (simp add: tally_sum_def t0_def)
  then have "(\<forall>w. \<not> en_stopRequested env w) \<longrightarrow>
      tally_sum (fst (run_state (enableAllTargets env (Some targets)) s)) = length targets"
    using enableLoop_sum [of env targets c0 t0 s1] r(1) by simp
  moreover have "cl_log s1 = cl_log s" by (simp add: s1_def)
  ultimately show ?thesis using enableLoop_log [of env targets c0 t0 s1] r(2) by simp
qed

section \<open>A device with a spare block\<close>

definition demo_rcb :: "demo_value rcb" where
  "demo_rcb = \<lparr>rcb_rptId = None, rcb_rptEna = False, rcb_datSet = None, rcb_optFlds = 0, rcb_trgOps = 0, rcb_bufTm = 0,
     rcb_intgPd = 0, rcb_confRev = 1, rcb_sqNum = 0, rcb_entryId = None, rcb_gi = False, rcb_resv = False,
     rcb_resvTms = None, rcb_owner = None\<rparr>"

definition demo_env :: "(demo_value, unit) mms_env" where
  "demo_env = \<lparr>en_stopRequested = (\<lambda>w. False), en_sleep = (\<lambda>t w. w),
     en_getRCBValues = (\<lambda>obj w. (IED_ERROR_OK, Some demo_rcb, w)),
     en_setRCBValues = (\<lambda>obj el r w. (IED_ERROR_OK, w)),
     en_beginCycle = (\<lambda>w. w), en_endCycle = (\<lambda>b w. w),
     en_resolveForTarget = (\<lambda>t w. (\<lparr>dr_datasetReference = None, dr_tier = MMS_DATASET_TIER_NONE,
        dr_memberReferences = None, dr_wasNeeded = False\<rparr>, w)),
     en_hasRcbStatusCallback = True, en_lib = demo_lib, en_ied = demo_mref, en_entryAllocs = (\<lambda>w. demo_entry_ok True),
     en_arrayAlloc = (\<lambda>w. True), en_RPT_OPT_ENTRY_ID = 64, en_TRG_OPT_DATA_CHANGED = 1,
     en_TRG_OPT_QUALITY_CHANGED = 2, en_TRG_OPT_GI = 16\<rparr>"

definition demo_target :: ReportControlBlockTarget where
  "demo_target = \<lparr>rt_objectReference = Some ''LD/LLN0.RP.rcb'', rt_buffered = False, rt_datasetReference = None,
     rt_lnReference = Some ''LD/LLN0''\<rparr>"

definition demo_client :: "(demo_value, unit) client" where
  "demo_client = \<lparr>cl_world = (), cl_memberRefCache = None, cl_overrun = False, cl_log = []\<rparr>"

definition demo_cycle :: RcbEnableCycleState where
  "demo_cycle = \<lparr>cy_consecutiveOwnedElsewhere = 0, cy_reservationRetriesDisabled = False,
     cy_consecutiveObjectDoesNotExist = 0, cy_modelMismatchReported = False\<rparr>"

text \<open>A spare block is not left untouched: the sequence claims a block before it knows whether the block
  is needed, and when the data set manager then answers that it is not, the block stays
  reserved for this client (the log ends with the granted claim and the resolution, and
  nothing is written afterwards).\<close>

theorem spare_block_stays_reserved:
  "run_state (enableOneTarget demo_env demo_target demo_cycle) demo_client
     = ((RCB_ENABLE_OUTCOME_NOT_NEEDED, demo_cycle),
        demo_client\<lparr>cl_log := [Ev_read (Some ''LD/LLN0.RP.rcb'') (Some demo_rcb),
          Ev_write (Some ''LD/LLN0.RP.rcb'') RCB_ELEMENT_RESV (demo_rcb\<lparr>rcb_resv := True\<rparr>) IED_ERROR_OK,
          Ev_read (Some ''LD/LLN0.RP.rcb'') (Some demo_rcb), Ev_resolve (Some ''LD/LLN0.RP.rcb'')]\<rparr>)"
proof -
  have o: "rt_objectReference demo_target = Some ''LD/LLN0.RP.rcb''" "\<not> rt_buffered demo_target"
    by (simp_all add: demo_target_def)
  have e: "en_stopRequested demo_env = (\<lambda>w. False)" "en_getRCBValues demo_env = (\<lambda>obj w. (IED_ERROR_OK, Some demo_rcb, w))"
    "en_setRCBValues demo_env = (\<lambda>obj el r w. (IED_ERROR_OK, w))"
    "en_resolveForTarget demo_env t w = (\<lparr>dr_datasetReference = None, dr_tier = MMS_DATASET_TIER_NONE,
        dr_memberReferences = None, dr_wasNeeded = False\<rparr>, w)" for t w
    by (simp_all add: demo_env_def)
  show ?thesis
    by (simp add: enableOneTarget_def stopRequested_def getRCBValues_def setRCBValues_def resolveForTarget_def e o
        reserveOneTarget_def runRcbStep_def readAndLogLiveRcbState_def reserveResult_def latchOwnership_def
        configureTarget_def reconcileShape_def MMS_REPORT_CLIENT_TEMP_UNAVAILABLE_MAX_RETRIES_def
        numeral_3_eq_3 Let_def demo_client_def demo_cycle_def)
qed

lemma enable_cycle_complete_witness:
  "tally_sum (fst (run_state (enableAllTargets demo_env (Some [demo_target, demo_target])) demo_client)) = 2"
  using enable_cycle_complete [of demo_env "[demo_target, demo_target]" demo_client] by (simp add: demo_env_def)

end
