(* ===== verification/Mms_Report_Session.thy ===== *)
theory Mms_Report_Session
  imports Mms_Rcb_Protocol
begin

text \<open>
  The running report client: \<open>mms_report_client/data/mms_report_client_report_adapter.c\<close> (a report
  arrives), the supervisor thread and the life cycle of
  \<open>mms_report_client/data/mms_report_client_connection.c\<close>, and
  \<open>mms_report_client/service/mms_report_client_api.c\<close>. What the accessors of a \<open>ClientReport\<close>
  return is a record. The supervisor is a state machine: the callback of the library, the
  stop of the client and the blocking calls of the thread are its steps, in any interleaving.
\<close>

section \<open>State\<close>

datatype MmsReportClientError =
    MMS_REPORT_CLIENT_OK
  | MMS_REPORT_CLIENT_ERR_INVALID_ARGUMENT
  | MMS_REPORT_CLIENT_ERR_OUT_OF_MEMORY
  | MMS_REPORT_CLIENT_ERR_THREAD_CREATE_FAILED
  | MMS_REPORT_CLIENT_ERR_NO_TARGETS

record MmsReportClientConfig =
  mf_connectTimeoutMs :: u32
  mf_requestTimeoutMs :: u32
  mf_reconnectInitialDelayMs :: u32
  mf_reconnectMaxDelayMs :: u32
  mf_acseAuthPassword :: "string option"

text \<open>A semaphore is its count; \<open>None\<close> before it is created.\<close>

record 'v MmsReportClientHandle =
  mh_host :: string
  mh_port :: int
  mh_config :: MmsReportClientConfig
  mh_connection :: bool
  mh_targets :: "ReportControlBlockTarget list option"
  mh_memberRefCache :: "'v MmsReportClientMemberRefCacheEntry list option"
  mh_datasetManager :: bool
  mh_reportCallback :: bool
  mh_connStateCallback :: bool
  mh_stopRequested :: bool
  mh_connectionLostSignal :: bool
  mh_supervisorExited :: bool
  mh_wakeSignal :: "nat option"
  mh_supervisorThread :: bool
  mh_currentBackoffMs :: u32
  mh_connectionRejectedSignaled :: bool
  mh_memberRefCacheLock :: bool

section \<open>A report arrives\<close>

record 'v ClientReport =
  cr_rcbReference :: "string option"
  cr_rptId :: "string option"
  cr_dataSetValues :: "'v option"
  cr_hasDataReference :: bool
  cr_reason :: "nat \<Rightarrow> int"
  cr_dataReference :: "nat \<Rightarrow> string option"
  cr_entryId :: "'v option"
  cr_hasTimestamp :: bool
  cr_timestamp :: u64
  cr_hasSeqNum :: bool
  cr_seqNum :: u16

definition lookupBuffered :: "ReportControlBlockTarget list option \<Rightarrow> string option \<Rightarrow> bool" where
  "lookupBuffered targets rcbReference =
     (case (targets, rcbReference) of
        (Some ts, Some r) \<Rightarrow>
          (case find_index (\<lambda>t. rt_objectReference t = Some r) ts of None \<Rightarrow> False | Some i \<Rightarrow> rt_buffered (ts ! i))
      | _ \<Rightarrow> False)"

definition lookupMemberRefCache :: "'v MmsReportClientMemberRefCacheEntry list option \<Rightarrow> string option \<Rightarrow> nat option" where
  "lookupMemberRefCache cache rcbReference =
     (case (cache, rcbReference) of
        (Some es, Some r) \<Rightarrow> find_index (\<lambda>e. rm_rcbReference e = Some r) es
      | _ \<Rightarrow> None)"

record report_allocs =
  rp_reasons :: bool
  rp_dataReferences :: bool
  rp_record :: bool
  rp_build :: build_allocs

text \<open>What became of a report; a processed report is delivered when it has entries.\<close>

datatype 'v report_result =
    Report_ignored
  | Report_stale
  | Report_processed "'v MmsReportRecord option"

definition header_of :: "'v MmsReportClientHandle \<Rightarrow> 'v ClientReport \<Rightarrow> 'v MmsReportRecord" where
  "header_of handle report =
     \<lparr>mr_rcbReference = cr_rcbReference report, mr_buffered = lookupBuffered (mh_targets handle) (cr_rcbReference report),
      mr_rptId = cr_rptId report, mr_hasEntryId = (cr_entryId report \<noteq> None), mr_entryId = cr_entryId report,
      mr_hasTimestamp = cr_hasTimestamp report,
      mr_timestampMs = (if cr_hasTimestamp report then cr_timestamp report else 0),
      mr_hasSeqNum = cr_hasSeqNum report, mr_seqNum = (if cr_hasSeqNum report then cr_seqNum report else 0),
      mr_entries = []\<rparr>"

text \<open>The entry identifier that a processed report leaves behind.\<close>

definition rememberEntryId :: "'v option \<Rightarrow> 'v MmsReportClientMemberRefCacheEntry \<Rightarrow> 'v MmsReportClientMemberRefCacheEntry" where
  "rememberEntryId entryId e = (case entryId of None \<Rightarrow> e | Some v \<Rightarrow> e\<lparr>rm_lastEntryId := Some v\<rparr>)"

definition reportCount :: "'v mms_lib \<Rightarrow> 'v ClientReport \<Rightarrow> nat" where
  "reportCount L report = (case cr_dataSetValues report of None \<Rightarrow> 0 | Some d \<Rightarrow> ml_getArraySize L d)"

definition reportReasons :: "'v mms_lib \<Rightarrow> report_allocs \<Rightarrow> 'v ClientReport \<Rightarrow> int list option" where
  "reportReasons L ok report =
     (if reportCount L report > 0 \<and> rp_reasons ok then Some (map (cr_reason report) [0..<reportCount L report]) else None)"

definition reportReferences :: "'v mms_lib \<Rightarrow> report_allocs \<Rightarrow> 'v ClientReport \<Rightarrow> string option list option" where
  "reportReferences L ok report =
     (if reportCount L report > 0 \<and> cr_hasDataReference report \<and> rp_dataReferences ok
      then Some (map (cr_dataReference report) [0..<reportCount L report]) else None)"

text \<open>\<open>None\<close> is an invalid access.\<close>

definition MmsReportClientReportAdapter_onReport ::
    "'v mms_lib \<Rightarrow> report_allocs \<Rightarrow> nat \<Rightarrow> 'v MmsReportClientHandle \<Rightarrow> 'v ClientReport
     \<Rightarrow> ('v MmsReportClientHandle \<times> 'v report_result) option" where
  "MmsReportClientReportAdapter_onReport L ok fuel handle report =
     (if \<not> mh_reportCallback handle then Some (handle, Report_ignored)
      else
        let fallback = lookupMemberRefCache (mh_memberRefCache handle) (cr_rcbReference report);
            entry = map_option (\<lambda>i. the (mh_memberRefCache handle) ! i) fallback
        in if (case entry of None \<Rightarrow> False
               | Some e \<Rightarrow> MmsReportClientUseCases_isEntryIdStale L (cr_entryId report) (rm_lastEntryId e))
           then Some (handle, Report_stale)
           else (case MmsReportClientUseCases_buildReportRecord L (rp_record ok) (rp_build ok) fuel (header_of handle report)
                        (cr_dataSetValues report) (reportReasons L ok report) (reportReferences L ok report) entry
                        (int (reportCount L report)) of
                   None \<Rightarrow> None
                 | Some (rec, entry') \<Rightarrow>
                     let cache' = (case (fallback, entry') of
                            (Some i, Some e) \<Rightarrow> map_option (\<lambda>es. es[i := rememberEntryId (cr_entryId report) e]) (mh_memberRefCache handle)
                          | _ \<Rightarrow> mh_memberRefCache handle)
                     in Some (handle\<lparr>mh_memberRefCache := cache'\<rparr>,
                              Report_processed (case rec of None \<Rightarrow> None | Some r \<Rightarrow> if mr_entries r \<noteq> [] then Some r else None))))"

text \<open>A sequence of reports, in the order the library delivers them.\<close>

fun onReports ::
    "'v mms_lib \<Rightarrow> nat \<Rightarrow> 'v MmsReportClientHandle \<Rightarrow> (report_allocs \<times> 'v ClientReport) list
     \<Rightarrow> ('v MmsReportClientHandle \<times> 'v report_result list) option" where
  "onReports L fuel handle [] = Some (handle, [])"
| "onReports L fuel handle ((ok, report) # rs) =
     (case MmsReportClientReportAdapter_onReport L ok fuel handle report of
        None \<Rightarrow> None
      | Some (handle', x) \<Rightarrow>
          (case onReports L fuel handle' rs of
             None \<Rightarrow> None
           | Some (handle'', xs) \<Rightarrow> Some (handle'', x # xs)))"

section \<open>Connection state\<close>

datatype IedConnectionState =
    IED_STATE_CLOSED | IED_STATE_CONNECTING | IED_STATE_CONNECTED | IED_STATE_CLOSING

text \<open>The handle and what the connection state callback is given.\<close>

definition onStateChanged ::
    "'v MmsReportClientHandle \<Rightarrow> IedConnectionState \<Rightarrow> 'v MmsReportClientHandle \<times> MmsReportClientConnState list" where
  "onStateChanged handle newState =
     (let lost = (newState = IED_STATE_CLOSED \<and> \<not> mh_stopRequested handle);
          mapped = (case newState of
              IED_STATE_CONNECTING \<Rightarrow> MMS_REPORT_CLIENT_CONNECTING
            | IED_STATE_CONNECTED \<Rightarrow> MMS_REPORT_CLIENT_CONNECTED
            | _ \<Rightarrow> MMS_REPORT_CLIENT_DISCONNECTED)
      in (handle\<lparr>mh_connectionLostSignal := mh_connectionLostSignal handle \<or> lost,
                 mh_wakeSignal := map_option Suc (mh_wakeSignal handle)\<rparr>,
          if mh_connStateCallback handle then [mapped] else []))"

section \<open>The supervisor\<close>

text \<open>
  Where the thread is: at the head of its loop, inside \<open>IedConnection_connect\<close>, in the connected
  phase (since a time), sleeping for a delay, or done.
\<close>

datatype sv_phase = SV_Head | SV_Connect | SV_Connected u64 | SV_Backoff u32 | SV_Exited

definition MMS_REPORT_CLIENT_STABLE_CONNECTION_MS :: u64 where
  "MMS_REPORT_CLIENT_STABLE_CONNECTION_MS = 5000"

text \<open>From the end of an attempt: stop, or compute the delay and sleep.\<close>

definition sv_afterAttempt :: "'v MmsReportClientHandle \<Rightarrow> sv_phase \<times> 'v MmsReportClientHandle" where
  "sv_afterAttempt handle =
     (if mh_stopRequested handle then (SV_Exited, handle\<lparr>mh_supervisorExited := True\<rparr>)
      else let delay = MmsReportClientUseCases_computeNextBackoffDelay (mh_currentBackoffMs handle)
                         (mf_reconnectInitialDelayMs (mh_config handle)) (mf_reconnectMaxDelayMs (mh_config handle))
           in (SV_Backoff delay, handle\<lparr>mh_currentBackoffMs := delay\<rparr>))"

definition sv_head :: "'v MmsReportClientHandle \<Rightarrow> sv_phase \<times> 'v MmsReportClientHandle" where
  "sv_head handle =
     (if mh_stopRequested handle then (SV_Exited, handle\<lparr>mh_supervisorExited := True\<rparr>) else (SV_Connect, handle))"

text \<open>\<open>IedConnection_connect\<close> returns; on success the blocks are enabled at once.\<close>

definition sv_connectReturned ::
    "'v MmsReportClientHandle \<Rightarrow> IedClientError \<Rightarrow> u64 \<Rightarrow> (sv_phase \<times> 'v MmsReportClientHandle) \<times> MmsReportClientConnState list" where
  "sv_connectReturned handle err now =
     (if err = IED_ERROR_OK then ((SV_Connected now, handle\<lparr>mh_connectionRejectedSignaled := False\<rparr>), [])
      else if err = IED_ERROR_CONNECTION_REJECTED \<and> \<not> mh_connectionRejectedSignaled handle \<and> mh_connStateCallback handle
      then (sv_afterAttempt (handle\<lparr>mh_connectionRejectedSignaled := True\<rparr>), [MMS_REPORT_CLIENT_CONNECTION_REJECTED])
      else (sv_afterAttempt handle, []))"

text \<open>The connected phase is left: the delay starts over only after a stable connection.\<close>

definition sv_leave :: "'v MmsReportClientHandle \<Rightarrow> u64 \<Rightarrow> u64 \<Rightarrow> sv_phase \<times> 'v MmsReportClientHandle" where
  "sv_leave handle connectedAt now =
     sv_afterAttempt (if now - connectedAt \<ge> MMS_REPORT_CLIENT_STABLE_CONNECTION_MS
                      then handle\<lparr>mh_currentBackoffMs := 0\<rparr> else handle)"

text \<open>One round of the inner loop, when the semaphore was posted.\<close>

definition sv_wake :: "'v MmsReportClientHandle \<Rightarrow> u64 \<Rightarrow> u64 \<Rightarrow> sv_phase \<times> 'v MmsReportClientHandle" where
  "sv_wake handle connectedAt now =
     (let h = handle\<lparr>mh_wakeSignal := map_option (\<lambda>n. n - 1) (mh_wakeSignal handle)\<rparr>
      in if mh_stopRequested h then sv_leave h connectedAt now
         else if mh_connectionLostSignal h then sv_leave (h\<lparr>mh_connectionLostSignal := False\<rparr>) connectedAt now
         else (SV_Connected connectedAt, h))"

text \<open>The part of \<open>MmsReportClientConnection_stop\<close> the thread sees: a second stop does nothing.\<close>

definition signalStop :: "'v MmsReportClientHandle \<Rightarrow> 'v MmsReportClientHandle" where
  "signalStop handle =
     (if mh_stopRequested handle then handle
      else handle\<lparr>mh_stopRequested := True, mh_wakeSignal := map_option Suc (mh_wakeSignal handle)\<rparr>)"

text \<open>What happens around the thread, and what it does.\<close>

datatype sv_event =
    Sv_state IedConnectionState
  | Sv_stop
  | Sv_head
  | Sv_connected IedClientError u64
  | Sv_wake u64
  | Sv_slept

fun sv_step ::
    "sv_phase \<times> 'v MmsReportClientHandle \<Rightarrow> sv_event \<Rightarrow> ((sv_phase \<times> 'v MmsReportClientHandle) \<times> MmsReportClientConnState list) option" where
  "sv_step (p, h) (Sv_state st) = (let (h', out) = onStateChanged h st in Some ((p, h'), out))"
| "sv_step (p, h) Sv_stop = Some ((p, signalStop h), [])"
| "sv_step (SV_Head, h) Sv_head = Some (sv_head h, [])"
| "sv_step (SV_Connect, h) (Sv_connected err now) = Some (sv_connectReturned h err now)"
| "sv_step (SV_Connected t, h) (Sv_wake now) =
     (case mh_wakeSignal h of Some (Suc n) \<Rightarrow> Some (sv_wake h t now, []) | _ \<Rightarrow> None)"
| "sv_step (SV_Backoff d, h) Sv_slept = Some ((SV_Head, h), [])"
| "sv_step _ _ = None"

text \<open>A run and everything the connection state callback was given.\<close>

fun sv_run ::
    "sv_phase \<times> 'v MmsReportClientHandle \<Rightarrow> sv_event list
     \<Rightarrow> ((sv_phase \<times> 'v MmsReportClientHandle) \<times> MmsReportClientConnState list) option" where
  "sv_run s [] = Some (s, [])"
| "sv_run s (e # es) =
     (case sv_step s e of
        None \<Rightarrow> None
      | Some (s', out) \<Rightarrow> (case sv_run s' es of None \<Rightarrow> None | Some (s'', outs) \<Rightarrow> Some (s'', out @ outs)))"

section \<open>Life cycle\<close>

definition MmsReportClientConfig_defaults :: MmsReportClientConfig where
  "MmsReportClientConfig_defaults =
     \<lparr>mf_connectTimeoutMs = 0, mf_requestTimeoutMs = 0, mf_reconnectInitialDelayMs = 1000,
      mf_reconnectMaxDelayMs = 30000, mf_acseAuthPassword = None\<rparr>"

text \<open>Timeouts, authentication and the state handler are settings of the library's connection.\<close>

definition MmsReportClientConnection_create ::
    "bool \<Rightarrow> 'v MmsReportClientHandle \<Rightarrow> MmsReportClientError \<times> 'v MmsReportClientHandle" where
  "MmsReportClientConnection_create okConnection handle =
     (if \<not> okConnection then (MMS_REPORT_CLIENT_ERR_OUT_OF_MEMORY, handle)
      else (MMS_REPORT_CLIENT_OK, handle\<lparr>mh_connection := True\<rparr>))"

definition MmsReportClientConnection_start ::
    "bool \<Rightarrow> bool \<Rightarrow> bool \<Rightarrow> 'v MmsReportClientHandle \<Rightarrow> MmsReportClientError \<times> 'v MmsReportClientHandle" where
  "MmsReportClientConnection_start okWake okLock okThread handle =
     (if \<not> okWake then (MMS_REPORT_CLIENT_ERR_OUT_OF_MEMORY, handle\<lparr>mh_wakeSignal := None\<rparr>)
      else if \<not> okLock then
        (MMS_REPORT_CLIENT_ERR_OUT_OF_MEMORY, handle\<lparr>mh_wakeSignal := None, mh_memberRefCacheLock := False\<rparr>)
      else
        let h = handle\<lparr>mh_wakeSignal := Some 0, mh_memberRefCacheLock := True, mh_stopRequested := False,
                       mh_connectionLostSignal := False, mh_supervisorExited := False, mh_currentBackoffMs := 0,
                       mh_connectionRejectedSignaled := False\<rparr>
        in if \<not> okThread then
             (MMS_REPORT_CLIENT_ERR_THREAD_CREATE_FAILED,
              h\<lparr>mh_wakeSignal := None, mh_memberRefCacheLock := False, mh_supervisorThread := False\<rparr>)
           else (MMS_REPORT_CLIENT_OK, h\<lparr>mh_supervisorThread := True\<rparr>))"

text \<open>Stop hands every reservation back while the connection is up.\<close>

fun releaseReservations :: "('v, 'w) mms_env \<Rightarrow> ReportControlBlockTarget list \<Rightarrow> ('v, 'w, unit) prog" where
  "releaseReservations env [] = return ()"
| "releaseReservations env (target # targets) = do {
     (err, r) \<leftarrow> getRCBValues env (rt_objectReference target);
     (case r of
        None \<Rightarrow> return IED_ERROR_OK
      | Some rcb \<Rightarrow>
          if rt_buffered target then
            setRCBValues env (rt_objectReference target) RCB_ELEMENT_RESV_TMS (rcb\<lparr>rcb_resvTms := Some 0\<rparr>)
          else setRCBValues env (rt_objectReference target) RCB_ELEMENT_RESV (rcb\<lparr>rcb_resv := False\<rparr>));
     releaseReservations env targets
   }"

fun uninstallHandlers :: "ReportControlBlockTarget list \<Rightarrow> ('v, 'w, unit) prog" where
  "uninstallHandlers [] = return ()"
| "uninstallHandlers (target # targets) = do {
     log_event (Ev_uninstall (rt_objectReference target));
     uninstallHandlers targets
   }"

text \<open>
  \<open>cleanup\<close> is what \<open>MmsDatasetManager_cleanupOnStop\<close> and closing the connection do to the
  world; the wait for the thread is the precondition that it has exited when the handlers go.
\<close>

definition MmsReportClientConnection_stop ::
    "('v, 'w) mms_env \<Rightarrow> ('w \<Rightarrow> 'w) \<Rightarrow> ('w \<Rightarrow> 'w) \<Rightarrow> bool \<Rightarrow> 'v MmsReportClientHandle
     \<Rightarrow> ('v, 'w, 'v MmsReportClientHandle) prog" where
  "MmsReportClientConnection_stop env cleanup close connected handle =
     (if mh_stopRequested handle then return handle
      else do {
        change_world cleanup;
        (if mh_connection handle \<and> mh_targets handle \<noteq> None \<and> connected
         then releaseReservations env (the (mh_targets handle)) else return ());
        (if mh_connection handle then change_world close else return ());
        (if mh_connection handle \<and> mh_targets handle \<noteq> None
         then uninstallHandlers (the (mh_targets handle)) else return ());
        return (signalStop handle)
      })"

definition MmsReportClientConnection_destroy :: "'v MmsReportClientHandle \<Rightarrow> 'v MmsReportClientHandle" where
  "MmsReportClientConnection_destroy handle =
     handle\<lparr>mh_supervisorThread := False, mh_connection := False, mh_wakeSignal := None, mh_memberRefCacheLock := False\<rparr>"

definition MmsReportClient_create ::
    "bool \<Rightarrow> bool \<Rightarrow> bool \<Rightarrow> string option \<Rightarrow> int \<Rightarrow> MmsReportClientConfig option
     \<Rightarrow> 'v MmsReportClientHandle option \<times> MmsReportClientError" where
  "MmsReportClient_create okHandle okConnection iedModel host port config =
     (case host of
        None \<Rightarrow> (None, MMS_REPORT_CLIENT_ERR_INVALID_ARGUMENT)
      | Some h \<Rightarrow>
          if \<not> iedModel \<or> port \<le> 0 then (None, MMS_REPORT_CLIENT_ERR_INVALID_ARGUMENT)
          else if \<not> okHandle then (None, MMS_REPORT_CLIENT_ERR_OUT_OF_MEMORY)
          else
            let handle = \<lparr>mh_host = h, mh_port = port,
                  mh_config = (case config of Some c \<Rightarrow> c | None \<Rightarrow> MmsReportClientConfig_defaults),
                  mh_connection = False, mh_targets = None, mh_memberRefCache = None, mh_datasetManager = False,
                  mh_reportCallback = False, mh_connStateCallback = False, mh_stopRequested = False,
                  mh_connectionLostSignal = False, mh_supervisorExited = False, mh_wakeSignal = None,
                  mh_supervisorThread = False, mh_currentBackoffMs = 0, mh_connectionRejectedSignaled = False,
                  mh_memberRefCacheLock = False\<rparr>;
                (err, handle') = MmsReportClientConnection_create okConnection handle
            in if err \<noteq> MMS_REPORT_CLIENT_OK then (None, err) else (Some handle', MMS_REPORT_CLIENT_OK))"

text \<open>
  The caches of all targets, \<open>None\<close> for a write outside an array; \<open>lnReferences\<close> is
  \<open>IedModel_getReportableAttributeReferencesForLogicalNode\<close>, \<open>okArray i\<close> and \<open>ra i\<close> the
  allocations made for target \<open>i\<close>.
\<close>

fun buildCacheEntries ::
    "(nat \<Rightarrow> bool) \<Rightarrow> (nat \<Rightarrow> entry_allocs) \<Rightarrow> mref_services \<Rightarrow> (string option \<Rightarrow> string option list option)
     \<Rightarrow> nat \<Rightarrow> ReportControlBlockTarget list \<Rightarrow> 'v MmsReportClientMemberRefCacheEntry list option" where
  "buildCacheEntries okArray ra ied lnReferences i [] = Some []"
| "buildCacheEntries okArray ra ied lnReferences i (target # targets) =
     (let array = linkedListToStringArray (okArray i)
            (case rt_datasetReference target of
               Some ds \<Rightarrow> is_getDataSetMemberReferences ied ds
             | None \<Rightarrow> lnReferences (rt_lnReference target));
          rest = buildCacheEntries okArray ra ied lnReferences (Suc i) targets
      in case array of
           None \<Rightarrow> rest
         | Some refs \<Rightarrow>
             (case MmsReportClientUseCases_buildMemberRefCacheEntry (ra i) ied (rt_objectReference target) (Some refs)
                     (rt_datasetReference target) of
                None \<Rightarrow> None
              | Some None \<Rightarrow> rest
              | Some (Some e) \<Rightarrow> map_option (\<lambda>es. e # es) rest))"

definition buildMemberRefCache ::
    "bool \<Rightarrow> (nat \<Rightarrow> bool) \<Rightarrow> (nat \<Rightarrow> entry_allocs) \<Rightarrow> mref_services \<Rightarrow> (string option \<Rightarrow> string option list option)
     \<Rightarrow> ReportControlBlockTarget list \<Rightarrow> 'v MmsReportClientMemberRefCacheEntry list option option" where
  "buildMemberRefCache okList okArray ra ied lnReferences targets =
     (if \<not> okList then Some None else map_option Some (buildCacheEntries okArray ra ied lnReferences 0 targets))"

text \<open>
  \<open>targets\<close> is the answer of the model, \<open>manager\<close> the error of a failed
  \<open>MmsDatasetManager_create\<close> (\<open>True\<close>: invalid argument). \<open>None\<close> is a write outside an array.
\<close>

definition MmsReportClient_start ::
    "ReportControlBlockTarget list option \<Rightarrow> bool \<Rightarrow> (nat \<Rightarrow> bool) \<Rightarrow> (nat \<Rightarrow> entry_allocs) \<Rightarrow> mref_services
     \<Rightarrow> (string option \<Rightarrow> string option list option) \<Rightarrow> bool option \<Rightarrow> bool \<Rightarrow> bool \<Rightarrow> bool
     \<Rightarrow> 'v MmsReportClientHandle \<Rightarrow> (MmsReportClientError \<times> 'v MmsReportClientHandle) option" where
  "MmsReportClient_start targets okList okArray ra ied lnReferences manager okWake okLock okThread client =
     (case targets of
        None \<Rightarrow> Some (MMS_REPORT_CLIENT_ERR_NO_TARGETS, client\<lparr>mh_targets := None\<rparr>)
      | Some ts \<Rightarrow>
          if ts = [] then Some (MMS_REPORT_CLIENT_ERR_NO_TARGETS, client\<lparr>mh_targets := None\<rparr>)
          else (case buildMemberRefCache okList okArray ra ied lnReferences ts of
                  None \<Rightarrow> None
                | Some cache \<Rightarrow>
                    let c = client\<lparr>mh_targets := Some ts, mh_memberRefCache := cache, mh_datasetManager := False\<rparr>
                    in (case manager of
                          Some invalid \<Rightarrow>
                            Some (if invalid then MMS_REPORT_CLIENT_ERR_INVALID_ARGUMENT else MMS_REPORT_CLIENT_ERR_OUT_OF_MEMORY, c)
                        | None \<Rightarrow> Some (MmsReportClientConnection_start okWake okLock okThread (c\<lparr>mh_datasetManager := True\<rparr>)))))"

section \<open>Reports never read through a missing cache\<close>

definition has_values :: "'v MmsReportClientMemberRefCacheEntry option \<Rightarrow> bool" where
  "has_values mc \<longleftrightarrow> (\<forall>m. mc = Some m \<longrightarrow> mc_lastForwardedValues m \<noteq> None)"

lemma has_values_simps [simp]: "has_values None" "has_values (Some m) \<longleftrightarrow> mc_lastForwardedValues m \<noteq> None"
  by (simp_all add: has_values_def)

lemma update_has: "has_values mc \<Longrightarrow> has_values (updateValueDiffCache_mms mc slot v)"
  by (auto simp: updateValueDiffCache_mms_def has_values_def split: option.splits)

lemma update_None_iff [simp]: "updateValueDiffCache_mms mc slot v = None \<longleftrightarrow> mc = None"
  by (auto simp: updateValueDiffCache_mms_def split: option.splits)

lemma should_total:
  assumes "has_values mc" and "mc = None \<Longrightarrow> slot = None"
  shows "\<exists>f p mc'. shouldForwardAndUpdateCache_mms L mc slot v = Some (f, p, mc') \<and> has_values mc' \<and> (mc' = None \<longleftrightarrow> mc = None)"
proof (cases slot)
  case None
  with assms show ?thesis by (auto simp: shouldForwardAndUpdateCache_mms_def)
next
  case (Some i)
  with assms obtain m vs where m: "mc = Some m" "mc_lastForwardedValues m = Some vs" by (cases mc) auto
  have u: "has_values (updateValueDiffCache_mms mc slot v)" by (rule update_has [OF assms(1)])
  obtain m' where m': "updateValueDiffCache_mms (Some m) (Some i) v = Some m'"
    using update_None_iff [of "Some m" "Some i" v] by fastforce
  show ?thesis
    using u by (auto simp: shouldForwardAndUpdateCache_mms_def Let_def Some m m')
qed

lemma decide_total:
  assumes "has_values mc" and "mc = None \<Longrightarrow> \<forall>c \<in> set cs. ec_slot c = None"
  shows "\<exists>fs cs' mc'. decideEach_mms L mc cs = Some (fs, cs', mc') \<and> has_values mc' \<and> (mc' = None \<longleftrightarrow> mc = None)"
  using assms
proof (induction cs arbitrary: mc)
  case (Cons c cs)
  have "mc = None \<Longrightarrow> ec_slot c = None" using Cons.prems(2) by simp
  from should_total [OF Cons.prems(1) this, where L = L and v = "ec_value c"] obtain f p mc1
    where 1: "shouldForwardAndUpdateCache_mms L mc (ec_slot c) (ec_value c) = Some (f, p, mc1)" "has_values mc1"
      "mc1 = None \<longleftrightarrow> mc = None" by blast
  from Cons.IH [OF 1(2)] 1(3) Cons.prems(2) show ?case by (auto simp: 1(1))
qed simp

lemma emit_has: "has_values mc \<Longrightarrow> has_values (snd (emitEntries_mms mc cfs)) \<and> (snd (emitEntries_mms mc cfs) = None \<longleftrightarrow> mc = None)"
proof (induction cfs arbitrary: mc)
  case (Cons cf cfs)
  obtain c f where cf: "cf = (c, f)" by fastforce
  from Cons.IH [OF Cons.prems] Cons.IH [OF update_has [OF Cons.prems, of "ec_slot c" "ec_value c"]] show ?case
    by (auto simp: cf split_beta)
qed simp

lemma filter_total:
  assumes "has_values mc" and "mc = None \<Longrightarrow> \<forall>c \<in> set cs. ec_slot c = None"
  shows "\<exists>es mc'. filterEntries_mms L ok cs mc = Some (es, mc') \<and> has_values mc' \<and> (mc' = None \<longleftrightarrow> mc = None)"
proof -
  have pop: "has_values (map_option (\<lambda>m. if b then m\<lparr>mc_everPopulated := True\<rparr> else m) x) \<longleftrightarrow> has_values x" for b x
    by (cases x) auto
  from decide_total [OF assms, where L = L] obtain fs cs' mc1 where
    d: "decideEach_mms L mc cs = Some (fs, cs', mc1)" "has_values mc1" "mc1 = None \<longleftrightarrow> mc = None" by blast
  show ?thesis
    using emit_has [OF d(2)] assms(1) d(3) by (auto simp: filterEntries_mms_def Let_def d(1) pop split_beta)
qed

lemma collect_without_cache: "c \<in> set (collectCandidates_mms L r fuel d rs drs None n) \<Longrightarrow> ec_slot c = None"
  by (auto simp: collectCandidates_mms_def memberCandidates_mms_def appendCandidate_mms_def Let_def split: if_splits)

lemma build_total:
  assumes "has_values mc"
  shows "\<exists>rec mc'. MmsReportClientUseCases_buildReportRecord L okR ok fuel hdr d rs drs mc n = Some (rec, mc')
    \<and> has_values mc' \<and> (mc' = None \<longleftrightarrow> mc = None)"
proof (cases "okR \<and> \<not> n \<le> 0")
  case False
  then show ?thesis
    using assms by (auto simp: MmsReportClientUseCases_buildReportRecord_def buildEntries_mms_def)
next
  case True
  define cs where "cs = collectCandidates_mms L (ok_reorder ok) fuel d rs drs mc (nat n)"
  have "mc = None \<Longrightarrow> \<forall>c \<in> set cs. ec_slot c = None" unfolding cs_def using collect_without_cache by blast
  from filter_total [OF assms this, where L = L and ok = ok] True show ?thesis
    by (auto simp: MmsReportClientUseCases_buildReportRecord_def buildEntries_mms_def cs_def)
qed

definition cache_ready :: "'v MmsReportClientHandle \<Rightarrow> bool" where
  "cache_ready h \<longleftrightarrow> (\<forall>es. mh_memberRefCache h = Some es \<longrightarrow> (\<forall>e \<in> set es. mc_lastForwardedValues e \<noteq> None))"

lemma remember_values [simp]: "mc_lastForwardedValues (rememberEntryId v e) = mc_lastForwardedValues e"
  by (simp add: rememberEntryId_def split: option.split)

lemma lookup_bound:
  "lookupMemberRefCache cache ref = Some i \<Longrightarrow> \<exists>es. cache = Some es \<and> i < length es \<and> rm_rcbReference (es ! i) = ref"
  by (auto simp: lookupMemberRefCache_def split: option.splits dest: find_index_SomeD)

lemma onReport_total:
  assumes "cache_ready h"
  shows "\<exists>h' x. MmsReportClientReportAdapter_onReport L ok fuel h report = Some (h', x) \<and> cache_ready h'"
proof -
  define fb where "fb = lookupMemberRefCache (mh_memberRefCache h) (cr_rcbReference report)"
  define entry where "entry = map_option (\<lambda>i. the (mh_memberRefCache h) ! i) fb"
  have "has_values entry"
    using assms lookup_bound [of "mh_memberRefCache h" "cr_rcbReference report"]
    by (cases fb) (auto simp: entry_def fb_def cache_ready_def)
  note build_total [OF this]
  then obtain rec e' where r: "MmsReportClientUseCases_buildReportRecord L (rp_record ok) (rp_build ok) fuel (header_of h report)
        (cr_dataSetValues report) (reportReasons L ok report) (reportReferences L ok report) entry (int (reportCount L report)) = Some (rec, e')"
      "has_values e'" by blast
  have ready: "cache_ready (h\<lparr>mh_memberRefCache := (case (fb, e') of
          (Some i, Some e) \<Rightarrow> map_option (\<lambda>es. es[i := rememberEntryId (cr_entryId report) e]) (mh_memberRefCache h)
        | _ \<Rightarrow> mh_memberRefCache h)\<rparr>)"
    using assms r(2) by (auto simp: cache_ready_def split: option.splits dest!: set_update_subset_insert [THEN subsetD])
  show ?thesis
    unfolding MmsReportClientReportAdapter_onReport_def Let_def fb_def [symmetric] entry_def [symmetric] r(1) option.case prod.case
    using ready assms by simp
qed

lemma onReports_total:
  "cache_ready h \<Longrightarrow> \<exists>h' xs. onReports L fuel h rs = Some (h', xs) \<and> cache_ready h' \<and> length xs = length rs"
proof (induction rs arbitrary: h)
  case (Cons r rs)
  obtain ok report where r: "r = (ok, report)" by fastforce
  from onReport_total [OF Cons.prems, of L ok fuel report] obtain h1 x
    where 1: "MmsReportClientReportAdapter_onReport L ok fuel h report = Some (h1, x)" "cache_ready h1" by blast
  from Cons.IH [OF 1(2)] show ?case by (auto simp: r 1(1))
qed simp

lemma built_entry:
  "MmsReportClientUseCases_buildMemberRefCacheEntry ra ied rcb array ds = Some (Some e) \<Longrightarrow>
     mc_lastForwardedValues e \<noteq> None \<and> rm_rcbReference e = rcb \<and> rm_lastEntryId e = None"
  by (auto simp: MmsReportClientUseCases_buildMemberRefCacheEntry_def Let_def split_beta split: option.splits if_splits)

lemma built_entries:
  "buildCacheEntries okArray ra ied ln i ts = Some es \<Longrightarrow> e \<in> set es \<Longrightarrow> mc_lastForwardedValues e \<noteq> None"
proof (induction okArray ra ied ln i ts arbitrary: es rule: buildCacheEntries.induct)
  case (2 okArray ra ied ln i t ts)
  from 2 show ?case
    by (auto simp: Let_def split: option.splits dest!: built_entry)
qed simp

lemma start_ready:
  assumes "MmsReportClient_start targets okList okArray ra ied ln manager okWake okLock okThread h = Some (MMS_REPORT_CLIENT_OK, h')"
  shows "cache_ready h'"
  using assms
  by (auto simp: MmsReportClient_start_def MmsReportClientConnection_start_def buildMemberRefCache_def cache_ready_def Let_def
      dest: built_entries split: option.splits if_splits)


section \<open>Entry identifiers only grow\<close>

text \<open>An octet string as the number it spells, most significant byte first.\<close>

fun be_number :: "u8 list \<Rightarrow> nat" where
  "be_number [] = 0"
| "be_number (b # bs) = unat b * 256 ^ length bs + be_number bs"

lemma be_number_less: "be_number bs < 256 ^ length bs"
proof (induction bs)
  case (Cons b bs)
  have "Suc (unat b) \<le> 256" using unsigned_less [of b, where ?'a = nat] by simp
  then have "Suc (unat b) * 256 ^ length bs \<le> 256 * 256 ^ length bs" by (rule mult_le_mono1)
  then have "unat b * 256 ^ length bs + 256 ^ length bs \<le> 256 * 256 ^ length bs" by (simp only: mult_Suc add.commute)
  with Cons have "unat b * 256 ^ length bs + be_number bs < 256 * 256 ^ length bs" by linarith
  then show ?case by simp
qed simp

lemma memcmp_le_number:
  "length as = n \<Longrightarrow> length bs = n \<Longrightarrow> memcmp_le n as bs \<longleftrightarrow> be_number as \<le> be_number bs"
proof (induction n as bs rule: memcmp_le.induct)
  case (2 n a as b bs)
  have l: "be_number as < 256 ^ n" "be_number bs < 256 ^ n"
    using be_number_less [of as] be_number_less [of bs] 2 by auto
  have step: "x * 256 ^ n + p < y * 256 ^ n + q" if "x < y" "p < 256 ^ n" for x y p q :: nat
  proof -
    have "x * 256 ^ n + p < Suc x * 256 ^ n" using that(2) by simp
    also have "\<dots> \<le> y * 256 ^ n" using that(1) by (intro mult_le_mono1) simp
    finally show ?thesis by simp
  qed
  from less_linear [of a b] show ?case
  proof (elim disjE)
    assume ab: "a < b"
    then have "unat a < unat b" by (simp add: word_less_nat_alt)
    with ab 2(2,3) step l show ?thesis by (simp add: less_imp_le)
  next
    assume ba: "b < a"
    then have "unat b < unat a" by (simp add: word_less_nat_alt)
    from step [OF this l(2), of "be_number as"] ba 2(2,3) show ?thesis by simp
  next
    assume "a = b"
    with 2 show ?thesis by simp
  qed
qed auto

text \<open>An octet string of \<open>n\<close> bytes, as the library presents it.\<close>

definition octet_id :: "'v mms_lib \<Rightarrow> nat \<Rightarrow> 'v \<Rightarrow> bool" where
  "octet_id L n v \<longleftrightarrow> ml_getType L v = MMS_OCTET_STRING \<and> ml_getOctetStringSize L v = n
     \<and> (\<exists>bs. ml_getOctetStringBuffer L v = Some bs \<and> length bs = n)"

definition id_number :: "'v mms_lib \<Rightarrow> 'v \<Rightarrow> nat" where
  "id_number L v = be_number (the (ml_getOctetStringBuffer L v))"

lemma stale_number:
  "octet_id L n v \<Longrightarrow> octet_id L n w \<Longrightarrow> 0 < n \<Longrightarrow>
     MmsReportClientUseCases_isEntryIdStale L (Some v) (Some w) \<longleftrightarrow> id_number L v \<le> id_number L w"
  by (auto simp: MmsReportClientUseCases_isEntryIdStale_def octet_id_def id_number_def memcmp_le_number)

text \<open>The identifiers of the processed reports of one block.\<close>

definition processed_ids :: "'v mms_lib \<Rightarrow> string \<Rightarrow> (report_allocs \<times> 'v ClientReport) list \<Rightarrow> 'v report_result list \<Rightarrow> nat list" where
  "processed_ids L ref rs xs =
     map (\<lambda>((ok, r), x). id_number L (the (cr_entryId r)))
       (filter (\<lambda>((ok, r), x). cr_rcbReference r = Some ref \<and> (\<exists>o'. x = Report_processed o')) (zip rs xs))"

lemma find_index_update: "p e = p (es ! j) \<Longrightarrow> find_index p (es[j := e]) = find_index p es"
proof (induction es arbitrary: j)
  case (Cons x es)
  then show ?case by (cases j) simp_all
qed simp

lemma build_rest:
  assumes "MmsReportClientUseCases_buildReportRecord L okR ok fuel hdr d rs drs (Some m) n = Some (rec, mc')"
  shows "\<exists>vs b. mc' = Some (m\<lparr>mc_lastForwardedValues := vs, mc_everPopulated := b\<rparr>)"
proof -
  have same: "\<exists>vs b. m = m\<lparr>mc_lastForwardedValues := vs, mc_everPopulated := b\<rparr>"
    by (rule exI [of _ "mc_lastForwardedValues m"], rule exI [of _ "mc_everPopulated m"]) simp
  have ever: "\<exists>b. (if c then e\<lparr>mc_everPopulated := True\<rparr> else e) = e\<lparr>mc_everPopulated := b\<rparr>"
    for c and e :: "'a MmsReportClientMemberRefCacheEntry"
    by (rule exI [of _ "c \<or> mc_everPopulated e"]) simp
  have f: "\<exists>vs b. mc'' = Some (m\<lparr>mc_lastForwardedValues := vs, mc_everPopulated := b\<rparr>)"
    if e: "filterEntries_mms L ok cs (Some m) = Some (es, mc'')" for cs es mc''
  proof (cases "ok_forward ok")
    case True
    with e obtain fs cs' m1 where d: "decideEach_mms L (Some m) cs = Some (fs, cs', m1)"
      by (auto simp: filterEntries_mms_def Let_def split: option.splits)
    from decide_rest [OF d] obtain vs1 where m1: "m1 = Some (m\<lparr>mc_lastForwardedValues := vs1\<rparr>)" by blast
    define cfs where "cfs = zip cs' (if ok_group ok then extendGroups (map plainly cs')
      (map (\<lambda>c. resolveGroupAnchor (ec_reference c) (if ok_anchors ok then groupAnchors (map plainly cs) else [])) cs) fs else fs)"
    from emit_rest [of "m\<lparr>mc_lastForwardedValues := vs1\<rparr>" cfs] obtain vs2
      where v: "snd (emitEntries_mms m1 cfs) = Some (m\<lparr>mc_lastForwardedValues := vs2\<rparr>)" by (auto simp: m1)
    have "mc'' = map_option (\<lambda>m. if cs \<noteq> [] then m\<lparr>mc_everPopulated := True\<rparr> else m) (snd (emitEntries_mms m1 cfs))"
      using e True unfolding filterEntries_mms_def Let_def d option.case prod.case cfs_def [symmetric]
      by (auto split: prod.splits)
    with v have mc: "mc'' = Some (if cs \<noteq> [] then m\<lparr>mc_lastForwardedValues := vs2\<rparr>\<lparr>mc_everPopulated := True\<rparr>
        else m\<lparr>mc_lastForwardedValues := vs2\<rparr>)" by simp
    from ever [of "cs \<noteq> []" "m\<lparr>mc_lastForwardedValues := vs2\<rparr>"] show ?thesis unfolding mc by blast
  next
    case False
    with e have "mc'' = Some (if cs \<noteq> [] then m\<lparr>mc_everPopulated := True\<rparr> else m)"
      by (simp add: filterEntries_mms_def Let_def)
    moreover from ever [of "cs \<noteq> []" m] obtain b where
      "(if cs \<noteq> [] then m\<lparr>mc_everPopulated := True\<rparr> else m) = m\<lparr>mc_everPopulated := b\<rparr>" by blast
    moreover have "m\<lparr>mc_everPopulated := b\<rparr> = m\<lparr>mc_lastForwardedValues := mc_lastForwardedValues m, mc_everPopulated := b\<rparr>" by simp
    ultimately show ?thesis by metis
  qed
  show ?thesis
    using assms same f
    by (auto simp: MmsReportClientUseCases_buildReportRecord_def buildEntries_mms_def split: if_splits option.splits)
qed

text \<open>One report and the entry of one block.\<close>

lemma onReport_entry:
  assumes "MmsReportClientReportAdapter_onReport L ok fuel h report = Some (h', x)"
    and "mh_memberRefCache h = Some es" and "lookupMemberRefCache (Some es) (Some ref) = Some i"
  shows "\<exists>es'. mh_memberRefCache h' = Some es' \<and> lookupMemberRefCache (Some es') (Some ref) = Some i
    \<and> (if cr_rcbReference report = Some ref \<and> (\<exists>o'. x = Report_processed o') then
         \<not> MmsReportClientUseCases_isEntryIdStale L (cr_entryId report) (rm_lastEntryId (es ! i))
         \<and> (cr_entryId report \<noteq> None \<longrightarrow> rm_lastEntryId (es' ! i) = cr_entryId report)
       else rm_lastEntryId (es' ! i) = rm_lastEntryId (es ! i))"
proof (cases "\<exists>o'. x = Report_processed o'")
  case False
  with assms(1) have "h' = h"
    by (auto simp: MmsReportClientReportAdapter_onReport_def Let_def split: if_splits option.splits)
  with assms(2,3) False show ?thesis by auto
next
  case True
  define fb where "fb = lookupMemberRefCache (Some es) (cr_rcbReference report)"
  have i: "i < length es" "rm_rcbReference (es ! i) = Some ref" using lookup_bound [OF assms(3)] by auto
  from assms(1,2) True obtain rec entry' where
    ns: "\<not> (case map_option ((!) es) fb of None \<Rightarrow> False | Some e \<Rightarrow> MmsReportClientUseCases_isEntryIdStale L (cr_entryId report) (rm_lastEntryId e))"
    and b: "MmsReportClientUseCases_buildReportRecord L (rp_record ok) (rp_build ok) fuel (header_of h report)
      (cr_dataSetValues report) (reportReasons L ok report) (reportReferences L ok report) (map_option ((!) es) fb)
      (int (reportCount L report)) = Some (rec, entry')"
    and h': "mh_memberRefCache h' = (case (fb, entry') of
          (Some j, Some e) \<Rightarrow> Some (es[j := rememberEntryId (cr_entryId report) e]) | _ \<Rightarrow> Some es)"
    by (auto simp: MmsReportClientReportAdapter_onReport_def Let_def fb_def split: if_splits option.splits)
  show ?thesis
  proof (cases fb)
    case None
    with h' have c: "mh_memberRefCache h' = Some es" by simp
    from None assms(3) have "cr_rcbReference report \<noteq> Some ref" by (auto simp: fb_def)
    with c assms(3) show ?thesis by simp
  next
    case (Some j)
    have j: "j < length es" "rm_rcbReference (es ! j) = cr_rcbReference report"
      using lookup_bound [of "Some es" "cr_rcbReference report" j] Some by (auto simp: fb_def)
    from build_rest [OF b [unfolded Some option.map]] obtain vs pop
      where e': "entry' = Some ((es ! j)\<lparr>mc_lastForwardedValues := vs, mc_everPopulated := pop\<rparr>)" by blast
    define e2 where "e2 = rememberEntryId (cr_entryId report) ((es ! j)\<lparr>mc_lastForwardedValues := vs, mc_everPopulated := pop\<rparr>)"
    have c: "mh_memberRefCache h' = Some (es[j := e2])" using h' Some e' by (simp add: e2_def)
    have e2: "rm_rcbReference e2 = rm_rcbReference (es ! j)"
      "rm_lastEntryId e2 = (if cr_entryId report = None then rm_lastEntryId (es ! j) else cr_entryId report)"
      by (simp_all add: e2_def rememberEntryId_def split: option.split)
    have look: "lookupMemberRefCache (Some (es[j := e2])) (Some ref) = Some i"
      using assms(3) find_index_update [of "\<lambda>e. rm_rcbReference e = Some ref" e2 es j] e2(1) by (simp add: lookupMemberRefCache_def)
    show ?thesis
    proof (cases "cr_rcbReference report = Some ref")
      case True
      then have "j = i" using assms(3) Some by (simp add: fb_def)
      with c look ns Some True \<open>\<exists>o'. x = Report_processed o'\<close> e2(2) i(1) show ?thesis by auto
    next
      case False
      then have "j \<noteq> i" using i(2) j(2) by auto
      with c look False show ?thesis by simp
    qed
  qed
qed

lemma processed_ids_Cons:
  "processed_ids L ref ((ok, r) # rs) (x # xs) =
     (if cr_rcbReference r = Some ref \<and> (\<exists>o'. x = Report_processed o') then [id_number L (the (cr_entryId r))] else [])
     @ processed_ids L ref rs xs"
  by (simp add: processed_ids_def)

definition ids_ok :: "'v mms_lib \<Rightarrow> nat \<Rightarrow> string \<Rightarrow> (report_allocs \<times> 'v ClientReport) list \<Rightarrow> bool" where
  "ids_ok L n ref rs \<longleftrightarrow> 0 < n \<and>
     list_all (\<lambda>(ok, r). cr_rcbReference r = Some ref \<longrightarrow> (\<exists>v. cr_entryId r = Some v \<and> octet_id L n v)) rs"

lemma ids_increase:
  assumes "onReports L fuel h rs = Some (h', xs)" and "mh_memberRefCache h = Some es"
    and "lookupMemberRefCache (Some es) (Some ref) = Some i" and "ids_ok L n ref rs"
  shows "sorted_wrt (<) (processed_ids L ref rs xs)
    \<and> (\<forall>v. rm_lastEntryId (es ! i) = Some v \<and> octet_id L n v \<longrightarrow> (\<forall>k \<in> set (processed_ids L ref rs xs). id_number L v < k))"
  using assms
proof (induction rs arbitrary: h xs es)
  case Nil
  then show ?case by (simp add: processed_ids_def)
next
  case (Cons r rs)
  obtain ok report where r: "r = (ok, report)" by fastforce
  from Cons.prems(1) obtain h1 x xs' where
    1: "MmsReportClientReportAdapter_onReport L ok fuel h report = Some (h1, x)"
    and 2: "onReports L fuel h1 rs = Some (h', xs')" and xs: "xs = x # xs'"
    by (auto simp: r split: option.splits)
  from onReport_entry [OF 1 Cons.prems(2,3)] obtain es1 where
    es1: "mh_memberRefCache h1 = Some es1" "lookupMemberRefCache (Some es1) (Some ref) = Some i"
    and st: "if cr_rcbReference report = Some ref \<and> (\<exists>o'. x = Report_processed o') then
         \<not> MmsReportClientUseCases_isEntryIdStale L (cr_entryId report) (rm_lastEntryId (es ! i))
         \<and> (cr_entryId report \<noteq> None \<longrightarrow> rm_lastEntryId (es1 ! i) = cr_entryId report)
       else rm_lastEntryId (es1 ! i) = rm_lastEntryId (es ! i)" by blast
  have ok: "ids_ok L n ref rs" "0 < n" using Cons.prems(4) by (simp_all add: ids_ok_def r)
  note IH = Cons.IH [OF 2 es1 ok(1)]
  show ?case
  proof (cases "cr_rcbReference report = Some ref \<and> (\<exists>o'. x = Report_processed o')")
    case True
    with Cons.prems(4) obtain v where v: "cr_entryId report = Some v" "octet_id L n v" by (auto simp: ids_ok_def r)
    with st True have last: "rm_lastEntryId (es1 ! i) = Some v"
      and fresh: "\<not> MmsReportClientUseCases_isEntryIdStale L (Some v) (rm_lastEntryId (es ! i))" by simp_all
    have p: "processed_ids L ref (r # rs) xs = id_number L v # processed_ids L ref rs xs'"
      using True v by (simp add: r xs processed_ids_Cons)
    have gt: "id_number L w < id_number L v" if "rm_lastEntryId (es ! i) = Some w" "octet_id L n w" for w
      using fresh stale_number [OF v(2) that(2) ok(2)] that(1) by simp
    from IH last v(2) have "\<forall>k \<in> set (processed_ids L ref rs xs'). id_number L v < k" by blast
    with IH gt show ?thesis unfolding p by auto
  next
    case False
    with st have "rm_lastEntryId (es1 ! i) = rm_lastEntryId (es ! i)" by auto
    moreover have "processed_ids L ref (r # rs) xs = processed_ids L ref rs xs'"
      using False unfolding r xs processed_ids_Cons by auto
    ultimately show ?thesis using IH by simp
  qed
qed

text \<open>C13. No buffered report is processed twice, and none after a newer one: over any sequence of reports
  for any blocks, while the reports of a cached block carry entry identifiers of one length,
  the identifiers of the reports of this block that are not dropped strictly increase; an
  entry the server delivers again, or delivers late, is dropped before it reaches the cache.\<close>

theorem mms_entry_ids_increase:
  assumes "onReports L fuel h rs = Some (h', xs)"
    and "lookupMemberRefCache (mh_memberRefCache h) (Some ref) \<noteq> None" and "ids_ok L n ref rs"
  shows "sorted_wrt (<) (processed_ids L ref rs xs)"
proof -
  from assms(2) obtain i where i: "lookupMemberRefCache (mh_memberRefCache h) (Some ref) = Some i" by blast
  with lookup_bound obtain es where "mh_memberRefCache h = Some es" by blast
  with i ids_increase [OF assms(1) this _ assms(3)] show ?thesis by simp
qed

section \<open>The supervisor\<close>

definition thread_event :: "sv_event \<Rightarrow> bool" where
  "thread_event e = (case e of Sv_state _ \<Rightarrow> False | Sv_stop \<Rightarrow> False | _ \<Rightarrow> True)"

text \<open>A requested stop left its post in the semaphore until the thread is gone.\<close>

definition stop_posted :: "sv_phase \<times> 'v MmsReportClientHandle \<Rightarrow> bool" where
  "stop_posted s \<longleftrightarrow> mh_wakeSignal (snd s) \<noteq> None
     \<and> (mh_stopRequested (snd s) \<longrightarrow> fst s = SV_Exited \<or> (\<exists>n. mh_wakeSignal (snd s) = Some (Suc n)))"

lemma afterAttempt_simps [simp]:
  "mh_stopRequested (snd (sv_afterAttempt h)) = mh_stopRequested h"
  "mh_wakeSignal (snd (sv_afterAttempt h)) = mh_wakeSignal h"
  "mh_stopRequested h \<Longrightarrow> fst (sv_afterAttempt h) = SV_Exited"
  by (simp_all add: sv_afterAttempt_def Let_def)

lemma leave_simps [simp]:
  "mh_stopRequested (snd (sv_leave h t now)) = mh_stopRequested h"
  "mh_wakeSignal (snd (sv_leave h t now)) = mh_wakeSignal h"
  "mh_stopRequested h \<Longrightarrow> fst (sv_leave h t now) = SV_Exited"
  by (simp_all add: sv_leave_def)

lemma sv_step_stop:
  assumes "sv_step s e = Some (s', out)" and "stop_posted s"
  shows "stop_posted s'" and "mh_stopRequested (snd s) \<Longrightarrow> mh_stopRequested (snd s')"
  using assms
  by (cases "(s, e)" rule: sv_step.cases;
      auto simp: stop_posted_def onStateChanged_def signalStop_def sv_head_def sv_connectReturned_def sv_wake_def Let_def
        split: if_splits option.splits nat.splits)+

lemma sv_run_stop:
  "sv_run s es = Some (s', outs) \<Longrightarrow> stop_posted s \<Longrightarrow> stop_posted s' \<and> (mh_stopRequested (snd s) \<longrightarrow> mh_stopRequested (snd s'))"
proof (induction es arbitrary: s outs)
  case (Cons e es)
  from Cons.prems(1) obtain s1 out outs' where 1: "sv_step s e = Some (s1, out)" "sv_run s1 es = Some (s', outs')"
    by (auto split: option.splits)
  from Cons.IH [OF 1(2) sv_step_stop(1) [OF 1(1) Cons.prems(2)]] sv_step_stop(2) [OF 1(1) Cons.prems(2)] show ?case by blast
qed simp

text \<open>How many steps the thread has left once a stop is requested.\<close>

definition steps_left :: "sv_phase \<Rightarrow> nat" where
  "steps_left p = (case p of SV_Exited \<Rightarrow> 0 | SV_Head \<Rightarrow> 1 | SV_Connected _ \<Rightarrow> 1 | SV_Backoff _ \<Rightarrow> 2 | SV_Connect \<Rightarrow> 2)"

lemma sv_step_left:
  assumes "sv_step s e = Some (s', out)" and "mh_stopRequested (snd s)"
  shows "steps_left (fst s') + (if thread_event e then 1 else 0) \<le> steps_left (fst s)"
  using assms
  by (cases "(s, e)" rule: sv_step.cases)
    (auto simp: steps_left_def thread_event_def onStateChanged_def signalStop_def sv_head_def sv_connectReturned_def sv_wake_def Let_def
        split: if_splits option.splits nat.splits)

lemma sv_run_left:
  "sv_run s es = Some (s', outs) \<Longrightarrow> stop_posted s \<Longrightarrow> mh_stopRequested (snd s) \<Longrightarrow>
     steps_left (fst s') + length (filter thread_event es) \<le> steps_left (fst s)"
proof (induction es arbitrary: s outs)
  case (Cons e es)
  from Cons.prems(1) obtain s1 out outs' where 1: "sv_step s e = Some (s1, out)" "sv_run s1 es = Some (s', outs')"
    by (auto split: option.splits)
  from Cons.IH [OF 1(2) sv_step_stop [OF 1(1) Cons.prems(2)]] Cons.prems(3) sv_step_left [OF 1(1) Cons.prems(3)] show ?case
    by (auto split: if_splits)
qed simp

lemma sv_enabled:
  assumes "stop_posted (p, h)" and "mh_stopRequested h" and "p \<noteq> SV_Exited"
  shows "\<exists>e. thread_event e \<and> sv_step (p, h) e \<noteq> None"
proof (cases p)
  case SV_Head
  then show ?thesis by (intro exI [of _ Sv_head]) (simp add: thread_event_def)
next
  case SV_Connect
  then show ?thesis by (intro exI [of _ "Sv_connected IED_ERROR_OK 0"]) (simp add: thread_event_def)
next
  case (SV_Connected t)
  with assms obtain n where "mh_wakeSignal h = Some (Suc n)" by (auto simp: stop_posted_def)
  with SV_Connected show ?thesis by (intro exI [of _ "Sv_wake 0"]) (simp add: thread_event_def)
next
  case (SV_Backoff d)
  then show ?thesis by (intro exI [of _ Sv_slept]) (simp add: thread_event_def)
qed (use assms in simp)

text \<open>The handle a successful start leaves.\<close>

definition started :: "'v MmsReportClientHandle \<Rightarrow> bool" where
  "started h \<longleftrightarrow> mh_wakeSignal h = Some 0 \<and> \<not> mh_stopRequested h \<and> \<not> mh_connectionLostSignal h
     \<and> mh_currentBackoffMs h = 0 \<and> \<not> mh_connectionRejectedSignaled h \<and> mh_supervisorThread h"


definition connect_ok :: "sv_event \<Rightarrow> bool" where
  "connect_ok e = (case e of Sv_connected err _ \<Rightarrow> err = IED_ERROR_OK | _ \<Rightarrow> False)"

lemma afterAttempt_signaled [simp]:
  "mh_connectionRejectedSignaled (snd (sv_afterAttempt h)) = mh_connectionRejectedSignaled h"
  "mh_connectionRejectedSignaled (snd (sv_leave h t now)) = mh_connectionRejectedSignaled h"
  by (simp_all add: sv_leave_def sv_afterAttempt_def Let_def)

lemma sv_step_rejected:
  "sv_step s e = Some (s', out) \<Longrightarrow>
     count_list out MMS_REPORT_CLIENT_CONNECTION_REJECTED + (if mh_connectionRejectedSignaled (snd s') then 0 else 1)
       \<le> (if mh_connectionRejectedSignaled (snd s) then 0 else 1) + (if connect_ok e then 1 else (0 :: nat))"
  by (cases "(s, e)" rule: sv_step.cases)
    (auto simp: connect_ok_def onStateChanged_def signalStop_def sv_head_def sv_connectReturned_def sv_wake_def Let_def
        split: if_splits option.splits nat.splits IedConnectionState.splits)

lemma sv_run_rejected:
  "sv_run s es = Some (s', outs) \<Longrightarrow>
     count_list outs MMS_REPORT_CLIENT_CONNECTION_REJECTED + (if mh_connectionRejectedSignaled (snd s') then 0 else 1)
       \<le> (if mh_connectionRejectedSignaled (snd s) then 0 else 1) + length (filter connect_ok es)"
proof (induction es arbitrary: s outs)
  case (Cons e es)
  from Cons.prems(1) obtain s1 out outs' where 1: "sv_step s e = Some (s1, out)" "sv_run s1 es = Some (s', outs')"
    and o: "outs = out @ outs'" by (auto split: option.splits)
  from Cons.IH [OF 1(2)] sv_step_rejected [OF 1(1)] show ?case unfolding o by (simp split: if_splits)
qed simp

text \<open>A rejection is announced once per streak: in any run of the supervisor the callback is told
  \<open>CONNECTION_REJECTED\<close> at most once more than the client connected.\<close>

theorem mms_rejected_once_per_streak:
  assumes "sv_run (SV_Head, h0) es = Some (s', outs)"
  shows "count_list outs MMS_REPORT_CLIENT_CONNECTION_REJECTED \<le> length (filter connect_ok es) + 1"
  using sv_run_rejected [OF assms] by (simp split: if_splits)

text \<open>A failed attempt ends the next connection: \<open>IedConnection_connect\<close> reports the closed state of an
  attempt that failed, the flag that stands for a lost connection is set and nothing clears
  it before the next attempt; when that one succeeds, the first wake of the connected phase
  (its own state notifications post two) takes the flag for a loss and the thread leaves the
  phase, although the connection stands.\<close>

theorem failed_attempt_ends_next_connection:
  assumes "started h0" and "err \<noteq> IED_ERROR_OK"
  shows "\<exists>d h outs. sv_run (SV_Head, h0)
      [Sv_head, Sv_state IED_STATE_CONNECTING, Sv_state IED_STATE_CLOSED, Sv_connected err t1, Sv_slept,
       Sv_head, Sv_state IED_STATE_CONNECTING, Sv_state IED_STATE_CONNECTED, Sv_connected IED_ERROR_OK t2, Sv_wake t3]
    = Some ((SV_Backoff d, h), outs)"
  using assms
  by (auto simp: started_def sv_head_def onStateChanged_def sv_connectReturned_def sv_afterAttempt_def sv_wake_def
      sv_leave_def Let_def)

section \<open>A client at work\<close>

definition idle_client :: "demo_value MmsReportClientHandle" where
  "idle_client = \<lparr>mh_host = ''10.0.0.1'', mh_port = 102, mh_config = MmsReportClientConfig_defaults, mh_connection = True,
     mh_targets = None, mh_memberRefCache = None, mh_datasetManager = False, mh_reportCallback = True,
     mh_connStateCallback = True, mh_stopRequested = False, mh_connectionLostSignal = False,
     mh_supervisorExited = False, mh_wakeSignal = None, mh_supervisorThread = False, mh_currentBackoffMs = 0,
     mh_connectionRejectedSignaled = False, mh_memberRefCacheLock = False\<rparr>"

definition running_client :: "demo_value MmsReportClientHandle" where
  "running_client = idle_client\<lparr>mh_targets := Some [demo_target], mh_memberRefCache := Some [demo_entry [None, None]],
     mh_datasetManager := True, mh_wakeSignal := Some 0, mh_supervisorThread := True, mh_memberRefCacheLock := True\<rparr>"

definition demo_report_with :: "u8 list \<Rightarrow> demo_value ClientReport" where
  "demo_report_with entryId = \<lparr>cr_rcbReference = Some ''LLN0$BR$rcb'', cr_rptId = None, cr_dataSetValues = None,
     cr_hasDataReference = False, cr_reason = (\<lambda>i. 0), cr_dataReference = (\<lambda>i. None),
     cr_entryId = Some (Demo_Octets entryId), cr_hasTimestamp = False, cr_timestamp = 0, cr_hasSeqNum = False, cr_seqNum = 0\<rparr>"

definition demo_report_ok :: report_allocs where
  "demo_report_ok = \<lparr>rp_reasons = True, rp_dataReferences = True, rp_record = True, rp_build = demo_build_ok\<rparr>"

lemma running_started: "started running_client"
  by (simp add: started_def running_client_def idle_client_def)


lemma mms_entry_ids_increase_witness:
  "\<exists>h' xs. onReports demo_lib 3 running_client
        [(demo_report_ok, demo_report_with [1, 2]), (demo_report_ok, demo_report_with [1, 1])] = Some (h', xs)
     \<and> sorted_wrt (<) (processed_ids demo_lib ''LLN0$BR$rcb''
          [(demo_report_ok, demo_report_with [1, 2]), (demo_report_ok, demo_report_with [1, 1])] xs)"
proof -
  let ?rs = "[(demo_report_ok, demo_report_with [1, 2]), (demo_report_ok, demo_report_with [1, 1])]"
  have ready: "cache_ready running_client" by (simp add: cache_ready_def running_client_def demo_entry_def)
  from onReports_total [OF this, of demo_lib 3 ?rs] obtain h' xs
    where r: "onReports demo_lib 3 running_client ?rs = Some (h', xs)" by blast
  have l: "lookupMemberRefCache (mh_memberRefCache running_client) (Some ''LLN0$BR$rcb'') \<noteq> None"
    by (simp add: lookupMemberRefCache_def running_client_def demo_entry_def)
  have i: "ids_ok demo_lib 2 ''LLN0$BR$rcb'' ?rs"
    by (simp add: ids_ok_def octet_id_def demo_report_with_def demo_lib_def)
  from r mms_entry_ids_increase [OF r l i] show ?thesis by blast
qed


lemma mms_rejected_once_per_streak_witness:
  "\<exists>s outs. sv_run (SV_Head, running_client)
       [Sv_head, Sv_connected IED_ERROR_CONNECTION_REJECTED 1, Sv_slept, Sv_head, Sv_connected IED_ERROR_CONNECTION_REJECTED 2] = Some (s, outs)
     \<and> count_list outs MMS_REPORT_CLIENT_CONNECTION_REJECTED \<le> 1"
proof -
  let ?es = "[Sv_head, Sv_connected IED_ERROR_CONNECTION_REJECTED 1, Sv_slept, Sv_head, Sv_connected IED_ERROR_CONNECTION_REJECTED 2]"
  obtain s outs where r: "sv_run (SV_Head, running_client) ?es = Some (s, outs)"
    by (simp add: running_client_def idle_client_def sv_head_def sv_connectReturned_def sv_afterAttempt_def Let_def)
  from mms_rejected_once_per_streak [OF r] have "count_list outs MMS_REPORT_CLIENT_CONNECTION_REJECTED \<le> 1"
    by (simp add: connect_ok_def)
  with r show ?thesis by blast
qed

lemma failed_attempt_ends_next_connection_witness:
  "\<exists>d h outs. sv_run (SV_Head, running_client)
      [Sv_head, Sv_state IED_STATE_CONNECTING, Sv_state IED_STATE_CLOSED, Sv_connected IED_ERROR_CONNECTION_REJECTED 1, Sv_slept,
       Sv_head, Sv_state IED_STATE_CONNECTING, Sv_state IED_STATE_CONNECTED, Sv_connected IED_ERROR_OK 2, Sv_wake 3]
    = Some ((SV_Backoff d, h), outs)"
  by (rule failed_attempt_ends_next_connection [OF running_started]) simp

end
