(* ===== verification/Mms_Dataset_Names.thy ===== *)
theory Mms_Dataset_Names
  imports Mms_Rcb_Enable
begin

text \<open>
  \<open>mms_dataset_manager/data/mms_dataset_manager_naming.c\<close> and the string half of
  \<open>mms_dataset_manager/domain/mms_dataset_manager_usecases.c\<close>: the names of data sets, the two
  forms of a member reference (\<open>LD/LN$FC$DO$DA\<close> inside the daemon, \<open>LD/LN.DO.DA[FC]\<close> on the
  wire) and the budgets. A function that returns NULL when any of its allocations fails
  takes one flag for all of them.
\<close>

section \<open>Tokens\<close>

text \<open>\<open>strchr\<close> as an offset, and the pieces between the separators.\<close>

definition strchr :: "string \<Rightarrow> char \<Rightarrow> nat option" where
  "strchr s c = find_index (\<lambda>x. x = c) s"

fun split_on :: "char \<Rightarrow> string \<Rightarrow> string list" where
  "split_on c [] = [[]]"
| "split_on c (x # xs) =
     (if x = c then [] # split_on c xs
      else (case split_on c xs of [] \<Rightarrow> [[x]] | y # ys \<Rightarrow> (x # y) # ys))"

text \<open>The tokens \<open>strtok\<close> returns one after the other: it skips empty pieces.\<close>

definition strtok_all :: "char \<Rightarrow> string \<Rightarrow> string list" where
  "strtok_all c s = filter (\<lambda>t. t \<noteq> []) (split_on c s)"

fun join :: "char \<Rightarrow> string list \<Rightarrow> string" where
  "join c [] = []"
| "join c [t] = t"
| "join c (t # ts) = t @ c # join c ts"

lemma split_on_not_Nil [simp]: "split_on c s \<noteq> []"
  by (induction s) (auto split: list.split)

lemma split_on_plain: "c \<notin> set t \<Longrightarrow> split_on c t = [t]"
  by (induction t) auto

lemma split_on_append: "c \<notin> set t \<Longrightarrow> split_on c (t @ c # s) = t # split_on c s"
  by (induction t) auto

lemma split_on_join: "ts \<noteq> [] \<Longrightarrow> \<forall>t \<in> set ts. c \<notin> set t \<Longrightarrow> split_on c (join c ts) = ts"
  by (induction c ts rule: join.induct) (auto simp: split_on_plain split_on_append)

lemma join_split_on: "join c (split_on c s) = s"
proof (induction s)
  case (Cons x s)
  obtain y ys where s: "split_on c s = y # ys" using split_on_not_Nil [of c s] by (meson neq_Nil_conv)
  with Cons show ?case by (cases ys) auto
qed simp

lemma split_on_pieces: "t \<in> set (split_on c s) \<Longrightarrow> c \<notin> set t"
proof (induction s arbitrary: t)
  case (Cons x s)
  obtain y ys where s: "split_on c s = y # ys" using split_on_not_Nil [of c s] by (meson neq_Nil_conv)
  with Cons show ?case by (auto split: if_splits)
qed simp

lemma strtok_join: "\<forall>t \<in> set ts. c \<notin> set t \<and> t \<noteq> [] \<Longrightarrow> strtok_all c (join c ts) = ts"
  by (cases "ts = []") (auto simp: strtok_all_def split_on_join filter_id_conv)

lemma set_join: "set (join c ts) \<subseteq> insert c (\<Union> (set ` set ts))"
  by (induction c ts rule: join.induct) auto

lemma strchr_append: "c \<notin> set p \<Longrightarrow> strchr (p @ c # s) c = Some (length p)"
  unfolding strchr_def by (induction p) auto

lemma strchr_None [simp]: "strchr s c = None \<longleftrightarrow> c \<notin> set s"
  by (auto simp: strchr_def)

section \<open>Budgets\<close>

definition MmsDatasetManagerUseCases_isDynamicDatasetBudgetExhausted :: "int \<Rightarrow> bool" where
  "MmsDatasetManagerUseCases_isDynamicDatasetBudgetExhausted remainingBudget \<longleftrightarrow> remainingBudget = 0"

definition MmsDatasetManagerUseCases_computeInitialDynamicDatasetBudget :: "int \<Rightarrow> int \<Rightarrow> int" where
  "MmsDatasetManagerUseCases_computeInitialDynamicDatasetBudget sclMax existingDatasetCount =
     (if sclMax < 0 then -1
      else let remaining = sclMax - existingDatasetCount in if remaining < 0 then 0 else remaining)"

section \<open>Member references\<close>

definition convertToWireMemberReference :: "bool \<Rightarrow> string \<Rightarrow> string option" where
  "convertToWireMemberReference ok ref =
     (if \<not> ok then None
      else case strtok_all (CHR ''$'') ref of
             ldLn # fc # t # ts \<Rightarrow> Some (ldLn @ ''.'' @ join (CHR ''.'') (t # ts) @ ''['' @ fc @ '']'')
           | _ \<Rightarrow> None)"

text \<open>\<open>ok i\<close>: the conversion of reference \<open>i\<close> was allocated.\<close>

definition MmsDatasetManagerUseCases_buildWireMemberReferences :: "(nat \<Rightarrow> bool) \<Rightarrow> string option list \<Rightarrow> string list" where
  "MmsDatasetManagerUseCases_buildWireMemberReferences ok memberReferences =
     List.map_filter (\<lambda>(i, r). case r of None \<Rightarrow> None | Some ref \<Rightarrow> convertToWireMemberReference (ok i) ref)
       (enumerate 0 memberReferences)"

definition MmsDatasetManagerUseCases_extractDoGroupKey :: "string \<Rightarrow> string" where
  "MmsDatasetManagerUseCases_extractDoGroupKey memberReference =
     (case strchr memberReference (CHR ''$'') of
        None \<Rightarrow> memberReference
      | Some i \<Rightarrow>
          let afterLn = drop (Suc i) memberReference
          in case strchr afterLn (CHR ''$'') of
               None \<Rightarrow> memberReference
             | Some j \<Rightarrow> takeWhile (\<lambda>c. c \<noteq> CHR ''$'') (drop (Suc j) afterLn))"

definition extractLnKey :: "string \<Rightarrow> string" where
  "extractLnKey memberReference = takeWhile (\<lambda>c. c \<noteq> CHR ''$'') memberReference"

text \<open>The part up to the closing parenthesis, or to the end, is dropped.\<close>

function stripArrayIndexAnnotation :: "string \<Rightarrow> string" where
  "stripArrayIndexAnnotation [] = []"
| "stripArrayIndexAnnotation (c # cs) =
     (if c = CHR ''('' then stripArrayIndexAnnotation (drop 1 (dropWhile (\<lambda>c. c \<noteq> CHR '')'') cs))
      else c # stripArrayIndexAnnotation cs)"
  by pat_completeness auto
termination
  by (relation "measure length") (auto simp: le_imp_less_Suc length_dropWhile_le diff_le_mono2 order.trans [OF diff_le_self])

lemma strip_plain: "CHR ''('' \<notin> set t \<Longrightarrow> stripArrayIndexAnnotation t = t"
  by (induction t) auto

definition MmsDatasetManagerUseCases_convertAcsiRefToMemberReference :: "bool \<Rightarrow> string \<Rightarrow> string option" where
  "MmsDatasetManagerUseCases_convertAcsiRefToMemberReference ok acsiRef =
     (if \<not> ok then None
      else case (strrchr acsiRef (CHR ''[''), strrchr acsiRef (CHR '']'')) of
             (Some openBracket, Some closeBracket) \<Rightarrow>
               if closeBracket < openBracket \<or> Suc closeBracket \<noteq> length acsiRef then None
               else
                 let fc = take (closeBracket - Suc openBracket) (drop (Suc openBracket) acsiRef);
                     copy = take openBracket acsiRef
                 in (case strchr copy (CHR ''.'') of
                       None \<Rightarrow> None
                     | Some dot \<Rightarrow>
                         let ldLn = take dot copy;
                             chain = drop (Suc dot) copy
                         in if CHR ''/'' \<notin> set ldLn then None
                            else (case map stripArrayIndexAnnotation (strtok_all (CHR ''.'') chain) of
                                    [] \<Rightarrow> None
                                  | ts \<Rightarrow> Some (ldLn @ ''$'' @ fc @ ''$'' @ join (CHR ''$'') ts)))
           | _ \<Rightarrow> None)"

section \<open>Names\<close>

definition MmsDatasetManagerNaming_buildDatasetName :: "bool \<Rightarrow> string \<Rightarrow> bool \<Rightarrow> string option" where
  "MmsDatasetManagerNaming_buildDatasetName ok lnReference buffered =
     (if \<not> ok then None
      else if buffered then Some (map (\<lambda>c. if c = CHR ''.'' then CHR ''$'' else c) (lnReference @ ''$dyn''))
      else Some (map (\<lambda>c. if c = CHR ''/'' then CHR ''_'' else c) (''@dyn_'' @ lnReference)))"

text \<open>\<open>okList\<close>: the list could be created; only the first name asks.\<close>

definition MmsDatasetManagerNaming_rememberDomainScopedName :: "bool \<Rightarrow> string \<Rightarrow> string list option \<Rightarrow> string list option" where
  "MmsDatasetManagerNaming_rememberDomainScopedName okList datasetName names =
     (case (if names = None \<and> okList then Some [] else names) of
        None \<Rightarrow> None
      | Some ns \<Rightarrow> if datasetName \<in> set ns then Some ns else Some (ns @ [datasetName]))"

definition MmsDatasetManagerNaming_looksLikeOurOwnName :: "bool \<Rightarrow> string option \<Rightarrow> ReportControlBlockTarget \<Rightarrow> bool" where
  "MmsDatasetManagerNaming_looksLikeOurOwnName ok datasetRef target =
     (case datasetRef of
        None \<Rightarrow> False
      | Some d \<Rightarrow>
          if rt_buffered target then False
          else (case rt_objectReference target of
                  None \<Rightarrow> False
                | Some obj \<Rightarrow> MmsDatasetManagerNaming_buildDatasetName ok obj (rt_buffered target) = Some d))"

definition MmsDatasetManagerNaming_stringListContains :: "string list option \<Rightarrow> string option \<Rightarrow> bool" where
  "MmsDatasetManagerNaming_stringListContains list val =
     (case (list, val) of (Some xs, Some v) \<Rightarrow> v \<in> set xs | _ \<Rightarrow> False)"

section \<open>A data set read back\<close>

text \<open>The shape the model gives its references.\<close>

definition member_reference :: "string \<Rightarrow> bool" where
  "member_reference ref =
     (case split_on (CHR ''$'') ref of
        ldLn # fc # t # ts \<Rightarrow>
          CHR ''/'' \<in> set ldLn \<and> CHR ''.'' \<notin> set ldLn \<and> fc \<noteq> [] \<and> CHR ''['' \<notin> set fc
          \<and> list_all (\<lambda>s. s \<noteq> [] \<and> CHR ''.'' \<notin> set s \<and> CHR ''('' \<notin> set s) (t # ts)
      | _ \<Rightarrow> False)"

lemma strrchr_last: "strrchr (p @ [c]) c = Some (length p)"
  using strrchr_append_dollar [of c "[]" p] by simp

lemma take_append_length: "take (length p) (p @ s) = p" "drop (Suc (length p)) (p @ c # s) = s"
  by simp_all

lemma acsi_read:
  assumes "CHR ''['' \<notin> set fc" and "CHR ''.'' \<notin> set ldLn" and "CHR ''/'' \<in> set ldLn"
    and "ts \<noteq> []" and "\<forall>s \<in> set ts. s \<noteq> [] \<and> CHR ''.'' \<notin> set s \<and> CHR ''('' \<notin> set s"
  shows "MmsDatasetManagerUseCases_convertAcsiRefToMemberReference True (ldLn @ ''.'' @ join (CHR ''.'') ts @ ''['' @ fc @ '']'')
     = Some (ldLn @ ''$'' @ fc @ ''$'' @ join (CHR ''$'') ts)"
proof -
  define body where "body = ldLn @ CHR ''.'' # join (CHR ''.'') ts"
  have eq: "ldLn @ ''.'' @ join (CHR ''.'') ts @ ''['' @ fc @ '']'' = body @ CHR ''['' # (fc @ '']'')" by (simp add: body_def)
  have o: "strrchr (body @ CHR ''['' # (fc @ '']'')) (CHR ''['') = Some (length body)"
    using assms(1) by (intro strrchr_append_dollar) simp
  have c: "strrchr (body @ CHR ''['' # (fc @ '']'')) (CHR '']'') = Some (length body + Suc (length fc))"
    using strrchr_last [of "body @ CHR ''['' # fc" "CHR '']''"] by simp
  have d: "strchr body (CHR ''.'') = Some (length ldLn)" unfolding body_def by (rule strchr_append) (rule assms(2))
  have ld: "take (length ldLn) body = ldLn" "drop (Suc (length ldLn)) body = join (CHR ''.'') ts" by (simp_all add: body_def)
  have tok: "strtok_all (CHR ''.'') (join (CHR ''.'') ts) = ts" using assms(5) by (intro strtok_join) auto
  have st: "map stripArrayIndexAnnotation ts = ts" using assms(5) by (intro map_idI) (auto simp: strip_plain)
  have m: "map stripArrayIndexAnnotation (strtok_all (CHR ''.'') (join (CHR ''.'') ts)) = ts" by (simp only: tok st)
  have fc: "take (length fc) (drop (Suc (length body)) (body @ CHR ''['' # (fc @ '']''))) = fc" by simp
  show ?thesis
    unfolding eq MmsDatasetManagerUseCases_convertAcsiRefToMemberReference_def
    using assms(3,4) m by (cases ts) (simp_all add: o c Let_def d ld del: list.map)
qed

lemma wire_form:
  assumes "member_reference ref"
  obtains ldLn fc t ts where "ref = ldLn @ ''$'' @ fc @ ''$'' @ join (CHR ''$'') (t # ts)"
    and "convertToWireMemberReference True ref = Some (ldLn @ ''.'' @ join (CHR ''.'') (t # ts) @ ''['' @ fc @ '']'')"
    and "CHR ''['' \<notin> set fc" "CHR ''.'' \<notin> set ldLn" "CHR ''/'' \<in> set ldLn"
    and "\<forall>s \<in> set (t # ts). s \<noteq> [] \<and> CHR ''.'' \<notin> set s \<and> CHR ''('' \<notin> set s"
proof -
  from assms obtain ldLn fc t ts where s: "split_on (CHR ''$'') ref = ldLn # fc # t # ts"
    and a: "CHR ''['' \<notin> set fc" "fc \<noteq> []" "CHR ''.'' \<notin> set ldLn" "CHR ''/'' \<in> set ldLn"
      "\<forall>s \<in> set (t # ts). s \<noteq> [] \<and> CHR ''.'' \<notin> set s \<and> CHR ''('' \<notin> set s"
    by (auto simp: member_reference_def list_all_iff split: list.splits)
  have "strtok_all (CHR ''$'') ref = ldLn # fc # t # ts"
    using a s by (auto simp: strtok_all_def filter_id_conv)
  moreover have "ref = join (CHR ''$'') (ldLn # fc # t # ts)" using join_split_on [of "CHR ''$''" ref] s by simp
  ultimately show thesis
    using a by (intro that [of ldLn fc t ts]) (simp_all add: convertToWireMemberReference_def)
qed

text \<open>C22. A data set read back is the one that was created: the wire form of a member reference of the
  model converts back to exactly this reference, so a data set the daemon created and finds
  again on the device after a reconnect is decoded with the shape it was created with.\<close>

theorem member_reference_round_trip:
  assumes "member_reference ref"
  shows "\<exists>w. convertToWireMemberReference True ref = Some w
    \<and> MmsDatasetManagerUseCases_convertAcsiRefToMemberReference True w = Some ref"
proof -
  from assms obtain ldLn fc t ts where 1: "ref = ldLn @ ''$'' @ fc @ ''$'' @ join (CHR ''$'') (t # ts)"
    "convertToWireMemberReference True ref = Some (ldLn @ ''.'' @ join (CHR ''.'') (t # ts) @ ''['' @ fc @ '']'')"
    and 2: "CHR ''['' \<notin> set fc" "CHR ''.'' \<notin> set ldLn" "CHR ''/'' \<in> set ldLn"
      "\<forall>s \<in> set (t # ts). s \<noteq> [] \<and> CHR ''.'' \<notin> set s \<and> CHR ''('' \<notin> set s"
    by (rule wire_form)
  show ?thesis unfolding 1(2) using acsi_read [OF 2(1-3) _ 2(4)] 1(1) by simp
qed

lemma member_reference_round_trip_witness:
  "member_reference ''E1/XCBR1$ST$Pos$stVal''
   \<and> (\<exists>w. convertToWireMemberReference True ''E1/XCBR1$ST$Pos$stVal'' = Some w
        \<and> MmsDatasetManagerUseCases_convertAcsiRefToMemberReference True w = Some ''E1/XCBR1$ST$Pos$stVal'')"
proof -
  have "member_reference ''E1/XCBR1$ST$Pos$stVal''" by (simp add: member_reference_def)
  with member_reference_round_trip show ?thesis by blast
qed

section \<open>Names of different blocks differ\<close>

lemma map_fold_inj: "CHR ''$'' \<notin> set a \<Longrightarrow> CHR ''$'' \<notin> set b \<Longrightarrow>
    map (\<lambda>c. if c = CHR ''.'' then CHR ''$'' else c) a = map (\<lambda>c. if c = CHR ''.'' then CHR ''$'' else c) b \<Longrightarrow> a = b"
proof (induction a arbitrary: b)
  case (Cons x a)
  then show ?case by (cases b) (auto split: if_splits)
qed simp

lemma dataset_name_inj:
  assumes "MmsDatasetManagerNaming_buildDatasetName True a True = MmsDatasetManagerNaming_buildDatasetName True b True"
    and "CHR ''$'' \<notin> set a" and "CHR ''$'' \<notin> set b"
  shows "a = b"
  using assms map_fold_inj by (auto simp: MmsDatasetManagerNaming_buildDatasetName_def)

end
