(* ===== verification/Ied_Model.thy ===== *)
theory Ied_Model
  imports Mms_Dataset_Names Goose_Session
begin

text \<open>
  \<open>ied_model/domain/ied_model_usecases.c\<close>: what the daemon reads from the model of a device.
  A node of the model is a tree whose nodes carry the fields of \<open>sModelNode\<close> and, for a data
  attribute, of \<open>sDataAttribute\<close> (\<open>third_party/include/iec61850_model.h\<close>); \<open>mn_addr\<close> is its address,
  compared where the code compares pointers, and the children are the list
  \<open>ModelNode_getChildren\<close> returns. The other functions of libiec61850 the code calls are the
  fields of \<open>model_lib\<close>. Strings, boxes and lists are taken to be allocated, log lines have no
  model. A list of targets or references is the \<open>LinkedList\<close> the code returns.
\<close>

section \<open>The model\<close>

datatype ModelNodeType =
    LogicalDeviceModelType | LogicalNodeModelType | DataObjectModelType | DataAttributeModelType

datatype FunctionalConstraint =
    IEC61850_FC_ST | IEC61850_FC_MX | IEC61850_FC_SP | IEC61850_FC_SV | IEC61850_FC_CF | IEC61850_FC_DC
  | IEC61850_FC_SG | IEC61850_FC_SE | IEC61850_FC_SR | IEC61850_FC_OR | IEC61850_FC_BL | IEC61850_FC_EX
  | IEC61850_FC_CO | IEC61850_FC_US | IEC61850_FC_MS | IEC61850_FC_RP | IEC61850_FC_BR | IEC61850_FC_LG
  | IEC61850_FC_GO | IEC61850_FC_ALL | IEC61850_FC_NONE

datatype ModelNode = ModelNode
  (mn_addr: nat) (mn_type: ModelNodeType) (mn_name: string)
  (mn_fc: FunctionalConstraint) (mn_daType: DataAttributeType) (mn_children: "ModelNode list")

record DataSetEntry =
  fe_logicalDeviceName :: "string option"
  fe_variableName :: "string option"

record PhyComAddress =
  ph_vlanPriority :: u8
  ph_vlanId :: u16
  ph_appId :: u16
  ph_dstAddress :: "u8 list"

record GSEControlBlock =
  gc_parent :: ModelNode
  gc_name :: string
  gc_dataSetName :: "string option"
  gc_address :: "PhyComAddress option"

record ReportControlBlock =
  rc_parent :: ModelNode
  rc_name :: string
  rc_buffered :: bool
  rc_dataSetName :: "string option"

record IedModel =
  im_firstChild :: "ModelNode list"
  im_rcbs :: "ReportControlBlock list"
  im_gseCBs :: "GSEControlBlock list"

record IedModelDaSemanticEntry =
  sm_da :: nat
  sm_semantic :: IedModelDaSemantic

record IedModelLnCategoryEntry =
  lc_ln :: nat
  lc_category :: LnCategory
  lc_alwaysInclude :: bool

record IedModelDaDescEntry =
  dd_da :: nat
  dd_desc :: "string option"

record IedModelHandle =
  ih_model :: IedModel
  ih_accessMode :: AccessMode
  ih_daSemantics :: "IedModelDaSemanticEntry list"
  ih_dynDataSetMax :: int
  ih_dynDataSetMaxAttributes :: int
  ih_confDataSetMax :: int
  ih_confDataSetMaxAttributes :: int
  ih_lnCategories :: "IedModelLnCategoryEntry list"
  ih_daDescriptions :: "IedModelDaDescEntry list"
  ih_categoryFilter :: u8

record model_lib =
  lb_getObjectReference :: "ModelNode \<Rightarrow> string option"
  lb_getDevice :: "IedModel \<Rightarrow> string \<Rightarrow> ModelNode option"
  lb_getLogicalNode :: "ModelNode \<Rightarrow> string \<Rightarrow> ModelNode option"
  lb_getChild :: "ModelNode \<Rightarrow> string \<Rightarrow> ModelNode option"
  lb_lookupDataSet :: "IedModel \<Rightarrow> string \<Rightarrow> DataSetEntry list option"
  lb_hasFCData :: "ModelNode \<Rightarrow> FunctionalConstraint \<Rightarrow> bool"
  lb_fcFromString :: "string \<Rightarrow> FunctionalConstraint"
  lb_fcToString :: "FunctionalConstraint \<Rightarrow> string"

section \<open>Walks over the tree\<close>

fun collectDataAttributesByFc :: "model_lib \<Rightarrow> ModelNode \<Rightarrow> FunctionalConstraint \<Rightarrow> string list" where
  "collectDataAttributesByFc L (ModelNode addr type name nfc da children) fc =
     (if type = DataAttributeModelType then
        (if nfc = fc then
           (case lb_getObjectReference L (ModelNode addr type name nfc da children) of None \<Rightarrow> [] | Some ref \<Rightarrow> [ref])
         else [])
      else concat (map (\<lambda>c. collectDataAttributesByFc L c fc) children))"

fun collectControllableDataObjects :: "model_lib \<Rightarrow> ModelNode \<Rightarrow> string list" where
  "collectControllableDataObjects L (ModelNode addr type name nfc da children) =
     (if type = DataObjectModelType \<and> lb_hasFCData L (ModelNode addr type name nfc da children) IEC61850_FC_CO then
        (case lb_getObjectReference L (ModelNode addr type name nfc da children) of None \<Rightarrow> [] | Some ref \<Rightarrow> [ref])
      else concat (map (collectControllableDataObjects L) children))"

fun collectLeafReferencesByFc :: "ModelNode \<Rightarrow> FunctionalConstraint \<Rightarrow> string \<Rightarrow> string list" where
  "collectLeafReferencesByFc (ModelNode addr type name nfc da children) fc pathPrefix =
     (if type = DataAttributeModelType then
        (if nfc \<noteq> fc then []
         else if children = [] then [pathPrefix @ ''$'' @ name]
         else concat (map (\<lambda>c. collectLeafReferencesByFc c fc (pathPrefix @ ''$'' @ name)) children))
      else concat (map (\<lambda>c. collectLeafReferencesByFc c fc (pathPrefix @ ''$'' @ name)) children))"

section \<open>References\<close>

definition buildMemberReferenceForEntry :: "DataSetEntry \<Rightarrow> string option" where
  "buildMemberReferenceForEntry entry =
     (case (fe_logicalDeviceName entry, fe_variableName entry) of
        (Some ld, Some var) \<Rightarrow> Some (ld @ ''/'' @ var)
      | _ \<Rightarrow> None)"

definition resolveDataSetMemberReference :: "model_lib \<Rightarrow> IedModelHandle \<Rightarrow> string option \<Rightarrow> int \<Rightarrow> string option" where
  "resolveDataSetMemberReference L h datasetReference memberIndex =
     (case datasetReference of
        None \<Rightarrow> None
      | Some d \<Rightarrow>
          if memberIndex < 0 then None
          else (case lb_lookupDataSet L (ih_model h) d of
                  None \<Rightarrow> None
                | Some entries \<Rightarrow>
                    if nat memberIndex < length entries then buildMemberReferenceForEntry (entries ! nat memberIndex) else None))"

text \<open>The part before the first slash and the tokens \<open>strtok\<close> finds behind it, separated by dollars.\<close>

definition reference_tokens :: "string \<Rightarrow> (string \<times> string list) option" where
  "reference_tokens ref =
     map_option (\<lambda>slash. (take slash ref, strtok_all (CHR ''$'') (drop (Suc slash) ref))) (strchr ref (CHR ''/''))"

definition find_logical_node :: "model_lib \<Rightarrow> IedModel \<Rightarrow> string \<Rightarrow> string \<Rightarrow> ModelNode option" where
  "find_logical_node L model ldName lnToken =
     Option.bind (lb_getDevice L model ldName) (\<lambda>ld. lb_getLogicalNode L ld lnToken)"

definition resolveDoLevelMemberReference ::
    "model_lib \<Rightarrow> IedModel \<Rightarrow> string option \<Rightarrow> (ModelNode \<times> FunctionalConstraint) option" where
  "resolveDoLevelMemberReference L model memberReference =
     (case Option.bind memberReference reference_tokens of
        Some (ldName, [lnToken, fcToken, doToken]) \<Rightarrow>
          (case Option.bind (find_logical_node L model ldName lnToken) (\<lambda>ln. lb_getChild L ln doToken) of
             None \<Rightarrow> None
           | Some doNode \<Rightarrow>
               if mn_type doNode = DataObjectModelType then Some (doNode, lb_fcFromString L fcToken) else None)
      | _ \<Rightarrow> None)"

definition categoryForLn :: "IedModelHandle \<Rightarrow> ModelNode \<Rightarrow> LnCategory" where
  "categoryForLn h ln =
     (case find (\<lambda>e. lc_ln e = mn_addr ln) (ih_lnCategories h) of
        Some e \<Rightarrow> lc_category e
      | None \<Rightarrow> IED_MODEL_LN_CATEGORY_OTHER)"

definition alwaysIncludeForLn :: "IedModelHandle \<Rightarrow> ModelNode \<Rightarrow> bool" where
  "alwaysIncludeForLn h ln =
     (case find (\<lambda>e. lc_ln e = mn_addr ln) (ih_lnCategories h) of
        Some e \<Rightarrow> lc_alwaysInclude e
      | None \<Rightarrow> False)"

section \<open>Subscription targets\<close>

text \<open>A data set name that is NULL or empty gives no reference.\<close>

definition dataset_reference :: "string \<Rightarrow> string option \<Rightarrow> string option" where
  "dataset_reference lnRef dataSetName =
     (case dataSetName of None \<Rightarrow> None | Some d \<Rightarrow> if d = [] then None else Some (lnRef @ ''$'' @ d))"

definition IedModelUseCases_getGooseSubscriptionTargets :: "model_lib \<Rightarrow> IedModelHandle \<Rightarrow> GooseSubscriptionTarget list" where
  "IedModelUseCases_getGooseSubscriptionTargets L h =
     List.map_filter (\<lambda>gcb.
       map_option (\<lambda>lnRef.
         \<lparr>gt_objectReference = lnRef @ ''$GO$'' @ gc_name gcb,
          gt_datasetReference = dataset_reference lnRef (gc_dataSetName gcb),
          gt_hasAddress = (gc_address gcb \<noteq> None),
          gt_vlanId = (case gc_address gcb of None \<Rightarrow> 0 | Some a \<Rightarrow> ph_vlanId a),
          gt_vlanPriority = (case gc_address gcb of None \<Rightarrow> 0 | Some a \<Rightarrow> ph_vlanPriority a),
          gt_appId = (case gc_address gcb of None \<Rightarrow> 0 | Some a \<Rightarrow> ph_appId a),
          gt_dstMac = (case gc_address gcb of None \<Rightarrow> replicate 6 0 | Some a \<Rightarrow> take 6 (ph_dstAddress a))\<rparr>)
         (lb_getObjectReference L (gc_parent gcb)))
       (im_gseCBs (ih_model h))"

definition IedModelUseCases_getReportSubscriptionTargets :: "model_lib \<Rightarrow> IedModelHandle \<Rightarrow> ReportControlBlockTarget list" where
  "IedModelUseCases_getReportSubscriptionTargets L h =
     List.map_filter (\<lambda>rcb.
       map_option (\<lambda>lnRef.
         \<lparr>rt_objectReference = Some (lnRef @ (if rc_buffered rcb then ''.BR.'' else ''.RP.'') @ rc_name rcb),
          rt_buffered = rc_buffered rcb,
          rt_datasetReference = dataset_reference lnRef (rc_dataSetName rcb),
          rt_lnReference = Some lnRef\<rparr>)
         (lb_getObjectReference L (rc_parent rcb)))
       (im_rcbs (ih_model h))"

section \<open>Data sets\<close>

definition IedModelUseCases_getDataSetMemberReferences :: "model_lib \<Rightarrow> IedModelHandle \<Rightarrow> string option \<Rightarrow> string list" where
  "IedModelUseCases_getDataSetMemberReferences L h datasetReference =
     (case Option.bind datasetReference (lb_lookupDataSet L (ih_model h)) of
        None \<Rightarrow> []
      | Some entries \<Rightarrow> List.map_filter buildMemberReferenceForEntry entries)"

definition IedModelUseCases_getLeafReferencesForMemberReference :: "model_lib \<Rightarrow> IedModelHandle \<Rightarrow> string option \<Rightarrow> string list" where
  "IedModelUseCases_getLeafReferencesForMemberReference L h memberReference =
     (case resolveDoLevelMemberReference L (ih_model h) memberReference of
        None \<Rightarrow> []
      | Some (doNode, fc) \<Rightarrow>
          concat (map (\<lambda>c. collectLeafReferencesByFc c fc (the memberReference)) (mn_children doNode)))"

definition IedModelUseCases_getDataSetMemberLeafReferences :: "model_lib \<Rightarrow> IedModelHandle \<Rightarrow> string option \<Rightarrow> int \<Rightarrow> string list" where
  "IedModelUseCases_getDataSetMemberLeafReferences L h datasetReference memberIndex =
     (case resolveDataSetMemberReference L h datasetReference memberIndex of
        None \<Rightarrow> []
      | Some memberRef \<Rightarrow> IedModelUseCases_getLeafReferencesForMemberReference L h (Some memberRef))"

section \<open>Semantics\<close>

definition lookupDaSemantic :: "IedModelHandle \<Rightarrow> ModelNode option \<Rightarrow> IedModelDaSemantic" where
  "lookupDaSemantic h da =
     (case da of
        None \<Rightarrow> IED_MODEL_DA_SEMANTIC_NONE
      | Some d \<Rightarrow>
          (case find (\<lambda>e. sm_da e = mn_addr d) (ih_daSemantics h) of
             Some e \<Rightarrow> sm_semantic e
           | None \<Rightarrow> IED_MODEL_DA_SEMANTIC_NONE))"

fun walk_children :: "model_lib \<Rightarrow> ModelNode option \<Rightarrow> string list \<Rightarrow> ModelNode option" where
  "walk_children L node [] = node"
| "walk_children L None (seg # segs) = None"
| "walk_children L (Some node) (seg # segs) = walk_children L (lb_getChild L node seg) segs"

definition resolveTerminalDataAttribute ::
    "model_lib \<Rightarrow> IedModel \<Rightarrow> string \<Rightarrow> string \<Rightarrow> string \<Rightarrow> string \<Rightarrow> ModelNode option" where
  "resolveTerminalDataAttribute L model ldName lnToken doToken daToken =
     (case Option.bind (find_logical_node L model ldName lnToken) (\<lambda>ln. lb_getChild L ln doToken) of
        None \<Rightarrow> None
      | Some node \<Rightarrow>
          (case walk_children L (Some node) (strtok_all (CHR ''.'') daToken) of
             None \<Rightarrow> None
           | Some n \<Rightarrow> if mn_type n = DataAttributeModelType then Some n else None))"

fun collectLeafSemanticsByFc :: "IedModelHandle \<Rightarrow> ModelNode \<Rightarrow> FunctionalConstraint \<Rightarrow> IedModelDaSemantic list" where
  "collectLeafSemanticsByFc h (ModelNode addr type name nfc da children) fc =
     (if type = DataAttributeModelType then
        (if nfc \<noteq> fc then []
         else if children = [] then [lookupDaSemantic h (Some (ModelNode addr type name nfc da children))]
         else concat (map (\<lambda>c. collectLeafSemanticsByFc h c fc) children))
      else concat (map (\<lambda>c. collectLeafSemanticsByFc h c fc) children))"

text \<open>The attribute a leaf-level reference names: at least four tokens, the fourth is the attribute.\<close>

definition leaf_attribute :: "model_lib \<Rightarrow> IedModel \<Rightarrow> string option \<Rightarrow> ModelNode option" where
  "leaf_attribute L model memberReference =
     (case Option.bind memberReference reference_tokens of
        Some (ldName, lnToken # fcToken # doToken # daToken # rest) \<Rightarrow>
          resolveTerminalDataAttribute L model ldName lnToken doToken daToken
      | _ \<Rightarrow> None)"

definition IedModelUseCases_getSemanticForMemberReference :: "model_lib \<Rightarrow> IedModelHandle \<Rightarrow> string option \<Rightarrow> IedModelDaSemantic" where
  "IedModelUseCases_getSemanticForMemberReference L h memberReference =
     lookupDaSemantic h (leaf_attribute L (ih_model h) memberReference)"

section \<open>Categories\<close>

definition reference_logical_node :: "model_lib \<Rightarrow> IedModel \<Rightarrow> string \<Rightarrow> ModelNode option" where
  "reference_logical_node L model memberReference =
     (case reference_tokens memberReference of
        Some (ldName, lnToken # tokens) \<Rightarrow> find_logical_node L model ldName lnToken
      | _ \<Rightarrow> None)"

definition IedModelUseCases_getCategoryForMemberReference :: "model_lib \<Rightarrow> IedModelHandle option \<Rightarrow> string option \<Rightarrow> LnCategory" where
  "IedModelUseCases_getCategoryForMemberReference L handle memberReference =
     (case (handle, memberReference) of
        (Some h, Some ref) \<Rightarrow>
          (case reference_logical_node L (ih_model h) ref of
             Some ln \<Rightarrow> categoryForLn h ln
           | None \<Rightarrow> IED_MODEL_LN_CATEGORY_OTHER)
      | _ \<Rightarrow> IED_MODEL_LN_CATEGORY_OTHER)"

definition IedModelUseCases_isMemberReferenceAlwaysIncluded :: "model_lib \<Rightarrow> IedModelHandle option \<Rightarrow> string option \<Rightarrow> bool" where
  "IedModelUseCases_isMemberReferenceAlwaysIncluded L handle memberReference =
     (case (handle, memberReference) of
        (Some h, Some ref) \<Rightarrow>
          (case reference_logical_node L (ih_model h) ref of
             Some ln \<Rightarrow> alwaysIncludeForLn h ln
           | None \<Rightarrow> False)
      | _ \<Rightarrow> False)"

section \<open>Descriptions\<close>

definition lookupDaDescription :: "IedModelHandle \<Rightarrow> ModelNode option \<Rightarrow> string option" where
  "lookupDaDescription h da =
     (case da of
        None \<Rightarrow> None
      | Some d \<Rightarrow> Option.bind (find (\<lambda>e. dd_da e = mn_addr d) (ih_daDescriptions h)) dd_desc)"

definition IedModelUseCases_getDescriptionForMemberReference :: "model_lib \<Rightarrow> IedModelHandle \<Rightarrow> string option \<Rightarrow> string option" where
  "IedModelUseCases_getDescriptionForMemberReference L h memberReference =
     lookupDaDescription h (leaf_attribute L (ih_model h) memberReference)"

fun collectLeafDescriptionsByFc :: "IedModelHandle \<Rightarrow> ModelNode \<Rightarrow> FunctionalConstraint \<Rightarrow> string option list" where
  "collectLeafDescriptionsByFc h (ModelNode addr type name nfc da children) fc =
     (if type = DataAttributeModelType then
        (if nfc \<noteq> fc then []
         else if children = [] then [lookupDaDescription h (Some (ModelNode addr type name nfc da children))]
         else concat (map (\<lambda>c. collectLeafDescriptionsByFc h c fc) children))
      else concat (map (\<lambda>c. collectLeafDescriptionsByFc h c fc) children))"

definition IedModelUseCases_getLeafDescriptionsForMemberReference :: "model_lib \<Rightarrow> IedModelHandle \<Rightarrow> string option \<Rightarrow> string option list" where
  "IedModelUseCases_getLeafDescriptionsForMemberReference L h memberReference =
     (case resolveDoLevelMemberReference L (ih_model h) memberReference of
        None \<Rightarrow> []
      | Some (doNode, fc) \<Rightarrow> concat (map (\<lambda>c. collectLeafDescriptionsByFc h c fc) (mn_children doNode)))"

definition IedModelUseCases_getDataSetMemberSemantics :: "model_lib \<Rightarrow> IedModelHandle \<Rightarrow> string option \<Rightarrow> IedModelDaSemantic list" where
  "IedModelUseCases_getDataSetMemberSemantics L h datasetReference =
     (case Option.bind datasetReference (lb_lookupDataSet L (ih_model h)) of
        None \<Rightarrow> []
      | Some entries \<Rightarrow> map (\<lambda>entry.
          (case buildMemberReferenceForEntry entry of
             None \<Rightarrow> IED_MODEL_DA_SEMANTIC_NONE
           | Some memberRef \<Rightarrow> IedModelUseCases_getSemanticForMemberReference L h (Some memberRef))) entries)"

definition IedModelUseCases_getLeafSemanticsForMemberReference :: "model_lib \<Rightarrow> IedModelHandle \<Rightarrow> string option \<Rightarrow> IedModelDaSemantic list" where
  "IedModelUseCases_getLeafSemanticsForMemberReference L h memberReference =
     (case resolveDoLevelMemberReference L (ih_model h) memberReference of
        None \<Rightarrow> []
      | Some (doNode, fc) \<Rightarrow> concat (map (\<lambda>c. collectLeafSemanticsByFc h c fc) (mn_children doNode)))"

definition IedModelUseCases_getDataSetMemberLeafSemantics :: "model_lib \<Rightarrow> IedModelHandle \<Rightarrow> string option \<Rightarrow> int \<Rightarrow> IedModelDaSemantic list" where
  "IedModelUseCases_getDataSetMemberLeafSemantics L h datasetReference memberIndex =
     (case resolveDataSetMemberReference L h datasetReference memberIndex of
        None \<Rightarrow> []
      | Some memberRef \<Rightarrow> IedModelUseCases_getLeafSemanticsForMemberReference L h (Some memberRef))"

section \<open>Wire types\<close>

fun collectLeafWireTypesByFc :: "ModelNode \<Rightarrow> FunctionalConstraint \<Rightarrow> DataAttributeType list" where
  "collectLeafWireTypesByFc (ModelNode addr type name nfc da children) fc =
     (if type = DataAttributeModelType then
        (if nfc \<noteq> fc then []
         else if children = [] then [da]
         else concat (map (\<lambda>c. collectLeafWireTypesByFc c fc) children))
      else concat (map (\<lambda>c. collectLeafWireTypesByFc c fc) children))"

definition IedModelUseCases_getLeafWireTypesForMemberReference :: "model_lib \<Rightarrow> IedModelHandle \<Rightarrow> string option \<Rightarrow> DataAttributeType list" where
  "IedModelUseCases_getLeafWireTypesForMemberReference L h memberReference =
     (case resolveDoLevelMemberReference L (ih_model h) memberReference of
        None \<Rightarrow> []
      | Some (doNode, fc) \<Rightarrow> concat (map (\<lambda>c. collectLeafWireTypesByFc c fc) (mn_children doNode)))"

definition IedModelUseCases_getDataSetMemberLeafWireTypes :: "model_lib \<Rightarrow> IedModelHandle \<Rightarrow> string option \<Rightarrow> int \<Rightarrow> DataAttributeType list" where
  "IedModelUseCases_getDataSetMemberLeafWireTypes L h datasetReference memberIndex =
     (case resolveDataSetMemberReference L h datasetReference memberIndex of
        None \<Rightarrow> []
      | Some memberRef \<Rightarrow> IedModelUseCases_getLeafWireTypesForMemberReference L h (Some memberRef))"

section \<open>Reportable attributes\<close>

definition collectLnLeavesByFc :: "model_lib \<Rightarrow> ModelNode \<Rightarrow> FunctionalConstraint \<Rightarrow> string \<Rightarrow> string \<Rightarrow> string list" where
  "collectLnLeavesByFc L ln fc ldName lnName =
     concat (map (\<lambda>c. collectLeafReferencesByFc c fc (ldName @ ''/'' @ lnName @ ''$'' @ lb_fcToString L fc)) (mn_children ln))"

definition IedModelUseCases_getReportableAttributeReferencesForLogicalNode :: "model_lib \<Rightarrow> IedModelHandle \<Rightarrow> string option \<Rightarrow> string list" where
  "IedModelUseCases_getReportableAttributeReferencesForLogicalNode L h lnReference =
     (case lnReference of
        None \<Rightarrow> []
      | Some ref \<Rightarrow>
          (case strchr ref (CHR ''/'') of
             None \<Rightarrow> []
           | Some slash \<Rightarrow>
               let ldName = take slash ref; lnName = drop (Suc slash) ref
               in (case find_logical_node L (ih_model h) ldName lnName of
                     None \<Rightarrow> []
                   | Some ln \<Rightarrow> collectLnLeavesByFc L ln IEC61850_FC_ST ldName lnName
                       @ collectLnLeavesByFc L ln IEC61850_FC_MX ldName lnName)))"

definition passes_category_filter :: "IedModelHandle \<Rightarrow> ModelNode \<Rightarrow> bool" where
  "passes_category_filter h ln \<longleftrightarrow>
     alwaysIncludeForLn h ln \<or> and (ih_categoryFilter h) (ln_category_bit (categoryForLn h ln)) \<noteq> 0"

definition whole_device_node :: "model_lib \<Rightarrow> IedModelHandle \<Rightarrow> ModelNode \<Rightarrow> string list" where
  "whole_device_node L h lnNode =
     (if passes_category_filter h lnNode then
        (case lb_getObjectReference L lnNode of
           None \<Rightarrow> []
         | Some lnRef \<Rightarrow>
             (case strchr lnRef (CHR ''/'') of
                None \<Rightarrow> []
              | Some slash \<Rightarrow>
                  collectLnLeavesByFc L lnNode IEC61850_FC_ST (take slash lnRef) (drop (Suc slash) lnRef)
                  @ collectLnLeavesByFc L lnNode IEC61850_FC_MX (take slash lnRef) (drop (Suc slash) lnRef)))
      else [])"

definition IedModelUseCases_getReportableAttributeReferencesForWholeDevice :: "model_lib \<Rightarrow> IedModelHandle option \<Rightarrow> string list" where
  "IedModelUseCases_getReportableAttributeReferencesForWholeDevice L handle =
     (case handle of
        None \<Rightarrow> []
      | Some h \<Rightarrow> concat (map (\<lambda>ldNode. concat (map (whole_device_node L h) (mn_children ldNode))) (im_firstChild (ih_model h))))"

section \<open>Settings and on-demand targets\<close>

definition IedModelUseCases_getCategoryFilter :: "IedModelHandle option \<Rightarrow> u8" where
  "IedModelUseCases_getCategoryFilter handle = (case handle of Some h \<Rightarrow> ih_categoryFilter h | None \<Rightarrow> IED_MODEL_LN_CATEGORY_ALL)"

definition IedModelUseCases_getDynDataSetMax :: "IedModelHandle option \<Rightarrow> int" where
  "IedModelUseCases_getDynDataSetMax handle = (case handle of Some h \<Rightarrow> ih_dynDataSetMax h | None \<Rightarrow> -1)"

definition IedModelUseCases_getDynDataSetMaxAttributes :: "IedModelHandle option \<Rightarrow> int" where
  "IedModelUseCases_getDynDataSetMaxAttributes handle = (case handle of Some h \<Rightarrow> ih_dynDataSetMaxAttributes h | None \<Rightarrow> -1)"

definition IedModelUseCases_getConfDataSetMax :: "IedModelHandle option \<Rightarrow> int" where
  "IedModelUseCases_getConfDataSetMax handle = (case handle of Some h \<Rightarrow> ih_confDataSetMax h | None \<Rightarrow> -1)"

definition IedModelUseCases_getConfDataSetMaxAttributes :: "IedModelHandle option \<Rightarrow> int" where
  "IedModelUseCases_getConfDataSetMaxAttributes handle = (case handle of Some h \<Rightarrow> ih_confDataSetMaxAttributes h | None \<Rightarrow> -1)"

definition IedModelUseCases_getReadTargets :: "model_lib \<Rightarrow> IedModelHandle \<Rightarrow> string list" where
  "IedModelUseCases_getReadTargets L h =
     concat (map (\<lambda>ldNode. collectDataAttributesByFc L ldNode IEC61850_FC_ST @ collectDataAttributesByFc L ldNode IEC61850_FC_MX)
       (im_firstChild (ih_model h)))"

definition IedModelUseCases_getControlTargets :: "model_lib \<Rightarrow> IedModelHandle \<Rightarrow> string list" where
  "IedModelUseCases_getControlTargets L h = concat (map (collectControllableDataObjects L) (im_firstChild (ih_model h)))"

text \<open>\<open>ied_model/service/ied_model_api.c\<close> grants them by access mode.\<close>

definition IedModel_getReadTargets :: "model_lib \<Rightarrow> IedModelHandle \<Rightarrow> string list" where
  "IedModel_getReadTargets L h =
     (if ih_accessMode h = IED_MODEL_ACCESS_REPORT_ONLY then [] else IedModelUseCases_getReadTargets L h)"

definition IedModel_getControlTargets :: "model_lib \<Rightarrow> IedModelHandle \<Rightarrow> string list" where
  "IedModel_getControlTargets L h =
     (if ih_accessMode h \<noteq> IED_MODEL_ACCESS_READ_AND_WRITE then [] else IedModelUseCases_getControlTargets L h)"

section \<open>Loading\<close>

text \<open>
  A list the loader collected becomes an array of the handle; without a list, without elements
  or without memory there is no array. The results of the loader are an argument.
\<close>

datatype IedModelLoadError =
    IED_MODEL_OK | IED_MODEL_ERR_FILE_NOT_FOUND | IED_MODEL_ERR_XML_PARSE | IED_MODEL_ERR_IED_NOT_FOUND
  | IED_MODEL_ERR_UNRESOLVED_TYPE | IED_MODEL_ERR_OUT_OF_MEMORY

definition adoptDaSemantics :: "bool \<Rightarrow> IedModelDaSemanticEntry list option \<Rightarrow> IedModelDaSemanticEntry list" where
  "adoptDaSemantics ok daSemanticsList = (case daSemanticsList of None \<Rightarrow> [] | Some xs \<Rightarrow> if ok then xs else [])"

definition adoptLnCategories :: "bool \<Rightarrow> IedModelLnCategoryEntry list option \<Rightarrow> IedModelLnCategoryEntry list" where
  "adoptLnCategories ok lnCategoriesList = (case lnCategoriesList of None \<Rightarrow> [] | Some xs \<Rightarrow> if ok then xs else [])"

definition adoptDaDescriptions :: "bool \<Rightarrow> IedModelDaDescEntry list option \<Rightarrow> IedModelDaDescEntry list" where
  "adoptDaDescriptions ok daDescriptionsList = (case daDescriptionsList of None \<Rightarrow> [] | Some xs \<Rightarrow> if ok then xs else [])"

record load_result =
  lr_model :: "IedModel option"
  lr_error :: IedModelLoadError
  lr_daSemantics :: "IedModelDaSemanticEntry list option"
  lr_lnCategories :: "IedModelLnCategoryEntry list option"
  lr_daDescriptions :: "IedModelDaDescEntry list option"
  lr_dynDataSetMax :: int
  lr_dynDataSetMaxAttributes :: int
  lr_confDataSetMax :: int
  lr_confDataSetMaxAttributes :: int

record load_allocs =
  la_handle :: bool
  la_daSemantics :: bool
  la_lnCategories :: bool
  la_daDescriptions :: bool

definition IedModel_loadFromFile ::
    "load_allocs \<Rightarrow> load_result \<Rightarrow> AccessMode \<Rightarrow> u8 \<Rightarrow> IedModelHandle option \<times> IedModelLoadError" where
  "IedModel_loadFromFile ok r mode categoryFilter =
     (case lr_model r of
        None \<Rightarrow> (None, lr_error r)
      | Some model \<Rightarrow>
          if \<not> la_handle ok then (None, IED_MODEL_ERR_OUT_OF_MEMORY)
          else (Some \<lparr>ih_model = model, ih_accessMode = mode,
                  ih_daSemantics = adoptDaSemantics (la_daSemantics ok) (lr_daSemantics r),
                  ih_dynDataSetMax = lr_dynDataSetMax r, ih_dynDataSetMaxAttributes = lr_dynDataSetMaxAttributes r,
                  ih_confDataSetMax = lr_confDataSetMax r, ih_confDataSetMaxAttributes = lr_confDataSetMaxAttributes r,
                  ih_lnCategories = adoptLnCategories (la_lnCategories ok) (lr_lnCategories r),
                  ih_daDescriptions = adoptDaDescriptions (la_daDescriptions ok) (lr_daDescriptions r),
                  ih_categoryFilter = categoryFilter\<rparr>, lr_error r))"

definition IedModel_wrapDynamicModel ::
    "load_allocs \<Rightarrow> IedModel option \<Rightarrow> AccessMode \<Rightarrow> IedModelLnCategoryEntry list option \<Rightarrow> u8 \<Rightarrow> IedModelHandle option" where
  "IedModel_wrapDynamicModel ok model mode lnCategoriesList categoryFilter =
     (case model of
        None \<Rightarrow> None
      | Some m \<Rightarrow>
          if \<not> la_handle ok then None
          else Some \<lparr>ih_model = m, ih_accessMode = mode, ih_daSemantics = [], ih_dynDataSetMax = -1, ih_dynDataSetMaxAttributes = -1,
                 ih_confDataSetMax = -1, ih_confDataSetMaxAttributes = -1,
                 ih_lnCategories = adoptLnCategories (la_lnCategories ok) lnCategoriesList, ih_daDescriptions = [],
                 ih_categoryFilter = categoryFilter\<rparr>)"

end
