(* ===== verification/Ied_Model_Leaves.thy ===== *)
theory Ied_Model_Leaves
  imports Ied_Model
begin

text \<open>
  The four walks of \<open>ied_model_usecases.c\<close> that list the leaves of a data object (references,
  semantics, descriptions, wire types) are copies of each other. Here they are one list of
  leaves seen from four sides, and the list is the set of terminal attributes of the tree.
\<close>

section \<open>Leaves\<close>

fun leaves :: "FunctionalConstraint \<Rightarrow> ModelNode \<Rightarrow> (string list \<times> ModelNode) list" where
  "leaves fc (ModelNode addr type name nfc da children) =
     (if type = DataAttributeModelType \<and> nfc \<noteq> fc then []
      else if type = DataAttributeModelType \<and> children = [] then [([name], ModelNode addr type name nfc da children)]
      else map (\<lambda>(p, d). (name # p, d)) (concat (map (leaves fc) children)))"

text \<open>A path of names from a node down to a terminal attribute.\<close>

inductive leaf_at :: "FunctionalConstraint \<Rightarrow> ModelNode \<Rightarrow> string list \<Rightarrow> ModelNode \<Rightarrow> bool" where
  terminal: "mn_type n = DataAttributeModelType \<Longrightarrow> mn_fc n = fc \<Longrightarrow> mn_children n = [] \<Longrightarrow> leaf_at fc n [mn_name n] n"
| inner: "c \<in> set (mn_children n) \<Longrightarrow> leaf_at fc c p d \<Longrightarrow> mn_type n = DataAttributeModelType \<longrightarrow> mn_fc n = fc
    \<Longrightarrow> leaf_at fc n (mn_name n # p) d"

inductive_simps leaf_at_node: "leaf_at fc (ModelNode addr type name nfc da children) q d"

inductive_cases leaf_at_elim: "leaf_at fc n q d"

lemma leaves_leaf_at: "(q, d) \<in> set (leaves fc n) \<longleftrightarrow> leaf_at fc n q d"
proof (induction n arbitrary: q)
  case (ModelNode addr type name nfc da children)
  show ?case by (force simp: leaf_at_node ModelNode.IH)
qed

lemma leaf_at_terminal: "leaf_at fc n q d \<Longrightarrow> mn_type d = DataAttributeModelType \<and> mn_fc d = fc \<and> mn_children d = [] \<and> q \<noteq> []"
  by (induction rule: leaf_at.induct) auto

definition dollar :: "string list \<Rightarrow> string" where
  "dollar p = concat (map (\<lambda>n. ''$'' @ n) p)"

lemma dollar_simps [simp]: "dollar [] = []" "dollar (n # p) = ''$'' @ n @ dollar p"
  by (simp_all add: dollar_def)

section \<open>One walk\<close>

lemma concat_map_cong: "(\<And>x. x \<in> set xs \<Longrightarrow> f x = map g (h x)) \<Longrightarrow> concat (map f xs) = map g (concat (map h xs))"
  by (induction xs) auto

lemma walk_references: "collectLeafReferencesByFc n fc pre = map (\<lambda>(p, d). pre @ dollar p) (leaves fc n)"
proof (induction n arbitrary: pre)
  case (ModelNode addr type name nfc da children)
  have "concat (map (\<lambda>c. collectLeafReferencesByFc c fc (pre @ ''$'' @ name)) children)
      = map (\<lambda>(p, d). (pre @ ''$'' @ name) @ dollar p) (concat (map (leaves fc) children))"
    by (rule concat_map_cong, rule ModelNode.IH)
  then show ?case by (simp add: split_beta comp_def)
qed

lemma walk_semantics: "collectLeafSemanticsByFc h n fc = map (\<lambda>(p, d). lookupDaSemantic h (Some d)) (leaves fc n)"
proof (induction n)
  case (ModelNode addr type name nfc da children)
  have "concat (map (\<lambda>c. collectLeafSemanticsByFc h c fc) children)
      = map (\<lambda>(p, d). lookupDaSemantic h (Some d)) (concat (map (leaves fc) children))"
    by (rule concat_map_cong, rule ModelNode.IH)
  then show ?case by (simp add: split_beta comp_def)
qed

lemma walk_descriptions: "collectLeafDescriptionsByFc h n fc = map (\<lambda>(p, d). lookupDaDescription h (Some d)) (leaves fc n)"
proof (induction n)
  case (ModelNode addr type name nfc da children)
  have "concat (map (\<lambda>c. collectLeafDescriptionsByFc h c fc) children)
      = map (\<lambda>(p, d). lookupDaDescription h (Some d)) (concat (map (leaves fc) children))"
    by (rule concat_map_cong, rule ModelNode.IH)
  then show ?case by (simp add: split_beta comp_def)
qed

lemma walk_types: "collectLeafWireTypesByFc n fc = map (\<lambda>(p, d). mn_daType d) (leaves fc n)"
proof (induction n)
  case (ModelNode addr type name nfc da children)
  have "concat (map (\<lambda>c. collectLeafWireTypesByFc c fc) children)
      = map (\<lambda>(p, d). mn_daType d) (concat (map (leaves fc) children))"
    by (rule concat_map_cong, rule ModelNode.IH)
  then show ?case by (simp add: split_beta comp_def)
qed

lemmas walks = walk_references walk_semantics walk_descriptions walk_types

section \<open>The leaves of a member\<close>

definition leaves_of_member :: "model_lib \<Rightarrow> IedModelHandle \<Rightarrow> string option \<Rightarrow> (string list \<times> ModelNode) list" where
  "leaves_of_member L h memberReference =
     (case resolveDoLevelMemberReference L (ih_model h) memberReference of
        None \<Rightarrow> []
      | Some (doNode, fc) \<Rightarrow> concat (map (leaves fc) (mn_children doNode)))"

lemma member_walks:
  "IedModelUseCases_getLeafReferencesForMemberReference L h r = map (\<lambda>(p, d). the r @ dollar p) (leaves_of_member L h r)"
  "IedModelUseCases_getLeafSemanticsForMemberReference L h r = map (\<lambda>(p, d). lookupDaSemantic h (Some d)) (leaves_of_member L h r)"
  "IedModelUseCases_getLeafDescriptionsForMemberReference L h r = map (\<lambda>(p, d). lookupDaDescription h (Some d)) (leaves_of_member L h r)"
  "IedModelUseCases_getLeafWireTypesForMemberReference L h r = map (\<lambda>(p, d). mn_daType d) (leaves_of_member L h r)"
  by (auto split: option.split simp: leaves_of_member_def walks map_concat comp_def
      IedModelUseCases_getLeafReferencesForMemberReference_def IedModelUseCases_getLeafSemanticsForMemberReference_def
      IedModelUseCases_getLeafDescriptionsForMemberReference_def IedModelUseCases_getLeafWireTypesForMemberReference_def)

text \<open>C26. The leaves of a member are described consistently: index by index the four lists the device model
  returns for a member reference, the references, wire types, semantics and descriptions,
  speak of the same attribute, and the attributes are exactly the terminal ones below the
  data object whose functional constraint is the one of the reference.\<close>

theorem member_leaves_exact:
  "IedModelUseCases_getLeafReferencesForMemberReference L h r = map (\<lambda>(p, d). the r @ dollar p) (leaves_of_member L h r)
   \<and> IedModelUseCases_getLeafWireTypesForMemberReference L h r = map (\<lambda>(p, d). mn_daType d) (leaves_of_member L h r)
   \<and> IedModelUseCases_getLeafSemanticsForMemberReference L h r = map (\<lambda>(p, d). lookupDaSemantic h (Some d)) (leaves_of_member L h r)
   \<and> IedModelUseCases_getLeafDescriptionsForMemberReference L h r = map (\<lambda>(p, d). lookupDaDescription h (Some d)) (leaves_of_member L h r)
   \<and> set (leaves_of_member L h r) = {(p, d). \<exists>doNode fc c. resolveDoLevelMemberReference L (ih_model h) r = Some (doNode, fc)
        \<and> c \<in> set (mn_children doNode) \<and> leaf_at fc c p d}"
proof -
  have "set (leaves_of_member L h r) = {(p, d). \<exists>doNode fc c. resolveDoLevelMemberReference L (ih_model h) r = Some (doNode, fc)
        \<and> c \<in> set (mn_children doNode) \<and> leaf_at fc c p d}"
    by (cases "resolveDoLevelMemberReference L (ih_model h) r") (auto simp: leaves_of_member_def leaves_leaf_at)
  then show ?thesis by (simp add: member_walks)
qed

end
