(* ===== verification/Ied_Model_Device.thy ===== *)
theory Ied_Model_Device
  imports Ied_Model_Leaves
begin

text \<open>
  The reportable attributes of a whole device: which leaves they are, that no reference
  occurs twice, and that a reference leads back to the logical node it was taken from, so
  that the category filter the subscriptions apply to it is the one it was selected by.
\<close>

section \<open>Names\<close>

text \<open>
  Names have no dollar, and of the children a walk for one functional constraint enters no
  two have the same name. (Setting attributes may occur twice, once for SG and once for SE.)
\<close>

definition entered :: "FunctionalConstraint \<Rightarrow> ModelNode \<Rightarrow> bool" where
  "entered fc c \<longleftrightarrow> (mn_type c = DataAttributeModelType \<longrightarrow> mn_fc c = fc)"

definition plain_name :: "string \<Rightarrow> bool" where
  "plain_name n \<longleftrightarrow> n \<noteq> [] \<and> CHR ''$'' \<notin> set n \<and> CHR ''/'' \<notin> set n"

fun well_named :: "FunctionalConstraint \<Rightarrow> ModelNode \<Rightarrow> bool" where
  "well_named fc (ModelNode addr type name nfc da children) =
     (plain_name name \<and> distinct (map mn_name (filter (entered fc) children)) \<and> (\<forall>c \<in> set children. well_named fc c))"

lemma plain_path: "(p, d) \<in> set (leaves fc n) \<Longrightarrow> well_named fc n \<Longrightarrow> \<forall>x \<in> set p. plain_name x"
proof (induction n arbitrary: p)
  case (ModelNode addr type name nfc da children)
  then show ?case by (fastforce split: if_splits)
qed

lemma path_head: "(p, d) \<in> set (leaves fc n) \<Longrightarrow> entered fc n \<and> p \<noteq> [] \<and> hd p = mn_name n"
  by (cases n) (auto simp: entered_def split: if_splits)

lemma distinct_concat_heads:
  assumes "distinct (map g (filter P cs))" and "\<And>c. c \<in> set cs \<Longrightarrow> distinct (f c)"
    and "\<And>c x. c \<in> set cs \<Longrightarrow> x \<in> set (f c) \<Longrightarrow> P c \<and> h x = g c"
  shows "distinct (concat (map f cs))"
  using assms
proof (induction cs)
  case (Cons c cs)
  have "set (f c) \<inter> set (concat (map f cs)) = {}"
  proof (rule ccontr)
    assume "set (f c) \<inter> set (concat (map f cs)) \<noteq> {}"
    then obtain x c' where x: "x \<in> set (f c)" "c' \<in> set cs" "x \<in> set (f c')" by auto
    from Cons.prems(3) [of c x] Cons.prems(3) [of c' x] x have "P c" "P c'" "g c = g c'" by auto
    with x(2) Cons.prems(1) show False by (auto simp: image_iff)
  qed
  with Cons show ?case by (auto split: if_splits)
qed simp

lemma distinct_paths: "well_named fc n \<Longrightarrow> distinct (map fst (leaves fc n))"
proof (induction n)
  case (ModelNode addr type name nfc da children)
  have d: "distinct (concat (map (\<lambda>c. map fst (leaves fc c)) children))"
    by (rule distinct_concat_heads [where P = "entered fc" and g = mn_name and h = hd])
      (use ModelNode path_head in auto)
  have "map fst (map (\<lambda>(p, d). (name # p, d)) (concat (map (leaves fc) children)))
      = map (Cons name) (concat (map (\<lambda>c. map fst (leaves fc c)) children))"
    by (simp add: map_concat comp_def split_beta)
  moreover have "distinct (map (Cons name) (concat (map (\<lambda>c. map fst (leaves fc c)) children)))"
    using d by (simp add: distinct_map del: map_concat)
  ultimately have "distinct (map fst (map (\<lambda>(p, d). (name # p, d)) (concat (map (leaves fc) children))))" by (simp only:)
  then show ?case by simp
qed

section \<open>A reference is read back\<close>

lemma split_dollar: "\<forall>x \<in> set (n # p). CHR ''$'' \<notin> set x \<Longrightarrow> split_on (CHR ''$'') (n @ dollar p) = n # p"
  by (induction p arbitrary: n) (simp_all add: split_on_plain split_on_append)

lemma tokens_dollar:
  assumes "\<forall>x \<in> set (n # p). plain_name x"
  shows "strtok_all (CHR ''$'') (n @ dollar p) = n # p"
proof -
  from assms have "split_on (CHR ''$'') (n @ dollar p) = n # p" by (intro split_dollar) (auto simp: plain_name_def)
  with assms show ?thesis by (auto simp: strtok_all_def plain_name_def)
qed

lemma tokens_reference:
  assumes "CHR ''/'' \<notin> set ld" and "\<forall>x \<in> set (n # p). plain_name x"
  shows "reference_tokens (ld @ ''/'' @ n @ dollar p) = Some (ld, n # p)"
  using strchr_append [OF assms(1), of "n @ dollar p"] tokens_dollar [OF assms(2)]
  by (simp add: reference_tokens_def)

section \<open>The model of a device\<close>

text \<open>
  What the library is relied on for: the reference of a logical node is the name of its
  device on the wire, a slash and its name, and the device and the node are found by these
  names. \<open>wire\<close> is the name of a logical device on the wire.
\<close>

definition model_names :: "model_lib \<Rightarrow> IedModel \<Rightarrow> (ModelNode \<Rightarrow> string) \<Rightarrow> bool" where
  "model_names L model wire \<longleftrightarrow>
     distinct (map wire (im_firstChild model))
     \<and> (\<forall>ld \<in> set (im_firstChild model). CHR ''/'' \<notin> set (wire ld) \<and> lb_getDevice L model (wire ld) = Some ld
          \<and> distinct (map mn_name (mn_children ld))
          \<and> (\<forall>ln \<in> set (mn_children ld). lb_getObjectReference L ln = Some (wire ld @ ''/'' @ mn_name ln)
               \<and> lb_getLogicalNode L ld (mn_name ln) = Some ln
               \<and> mn_type ln = LogicalNodeModelType \<and> well_named IEC61850_FC_ST ln \<and> well_named IEC61850_FC_MX ln))
     \<and> lb_fcToString L IEC61850_FC_ST = ''ST'' \<and> lb_fcToString L IEC61850_FC_MX = ''MX''"

definition fc_name :: "FunctionalConstraint \<Rightarrow> string" where
  "fc_name fc = (if fc = IEC61850_FC_ST then ''ST'' else ''MX'')"

definition leaf_reference :: "(ModelNode \<Rightarrow> string) \<Rightarrow> ModelNode \<Rightarrow> ModelNode \<Rightarrow> FunctionalConstraint \<Rightarrow> string list \<Rightarrow> string" where
  "leaf_reference wire ld ln fc p = wire ld @ ''/'' @ mn_name ln @ dollar (fc_name fc # p)"

definition node_leaves :: "FunctionalConstraint \<Rightarrow> ModelNode \<Rightarrow> string list list" where
  "node_leaves fc ln = concat (map (\<lambda>c. map fst (leaves fc c)) (mn_children ln))"

lemma ln_leaves:
  assumes "lb_fcToString L fc = fc_name fc"
  shows "collectLnLeavesByFc L ln fc ld name = map (\<lambda>p. ld @ ''/'' @ name @ dollar (fc_name fc # p)) (node_leaves fc ln)"
  by (simp add: collectLnLeavesByFc_def walk_references node_leaves_def assms map_concat comp_def case_prod_unfold)

definition reportable :: "ModelNode \<Rightarrow> (FunctionalConstraint \<times> string list) list" where
  "reportable ln = map (Pair IEC61850_FC_ST) (node_leaves IEC61850_FC_ST ln) @ map (Pair IEC61850_FC_MX) (node_leaves IEC61850_FC_MX ln)"

definition ln_references :: "(ModelNode \<Rightarrow> string) \<Rightarrow> ModelNode \<Rightarrow> ModelNode \<Rightarrow> string list" where
  "ln_references wire ld ln = map (\<lambda>(fc, p). leaf_reference wire ld ln fc p) (reportable ln)"

lemma whole_device:
  assumes "model_names L (ih_model h) wire"
  shows "IedModelUseCases_getReportableAttributeReferencesForWholeDevice L (Some h)
    = concat (map (\<lambda>ld. concat (map (\<lambda>ln. if passes_category_filter h ln then ln_references wire ld ln else []) (mn_children ld)))
        (im_firstChild (ih_model h)))"
proof -
  have "whole_device_node L h ln = (if passes_category_filter h ln then ln_references wire ld ln else [])"
    if m: "ld \<in> set (im_firstChild (ih_model h))" "ln \<in> set (mn_children ld)" for ld ln
  proof -
    from assms m have "lb_getObjectReference L ln = Some (wire ld @ ''/'' @ mn_name ln)" "CHR ''/'' \<notin> set (wire ld)"
      by (auto simp: model_names_def)
    moreover from assms have "lb_fcToString L fc = fc_name fc" if "fc \<in> {IEC61850_FC_ST, IEC61850_FC_MX}" for fc
      using that by (auto simp: model_names_def fc_name_def)
    ultimately show ?thesis
      by (simp add: whole_device_node_def strchr_append ln_leaves ln_references_def reportable_def leaf_reference_def comp_def)
  qed
  then show ?thesis
    by (auto simp: IedModelUseCases_getReportableAttributeReferencesForWholeDevice_def intro!: arg_cong [where f = concat])
qed

lemma reportable_plain:
  assumes "(fc, p) \<in> set (reportable ln)" and "well_named IEC61850_FC_ST ln" and "well_named IEC61850_FC_MX ln"
  shows "\<forall>x \<in> set (mn_name ln # fc_name fc # p). plain_name x"
proof -
  have w: "\<forall>x \<in> set q. plain_name x" if "q \<in> set (node_leaves f ln)" "well_named f ln" for f q
    using that plain_path by (cases ln) (fastforce simp: node_leaves_def)
  have n: "plain_name (mn_name ln)" using assms(2) by (cases ln) simp
  have "plain_name (fc_name fc)" by (simp add: plain_name_def fc_name_def)
  with w assms n show ?thesis by (auto simp: reportable_def)
qed

lemma reportable_distinct:
  assumes "well_named IEC61850_FC_ST ln" and "well_named IEC61850_FC_MX ln"
  shows "distinct (reportable ln)"
proof -
  have "distinct (node_leaves f ln)" if w: "well_named f ln" for f
  proof (cases ln)
    case (ModelNode addr type name nfc da children)
    show ?thesis
      unfolding node_leaves_def
      by (rule distinct_concat_heads [where P = "entered f" and g = mn_name and h = hd])
        (use w ModelNode path_head distinct_paths in auto)
  qed
  with assms show ?thesis by (auto simp: reportable_def distinct_map inj_on_def)
qed

text \<open>The reference determines the logical device, the logical node, the constraint and the path.\<close>

lemma reference_parts:
  assumes "model_names L model wire" and "ld \<in> set (im_firstChild model)" and "ln \<in> set (mn_children ld)" and "(fc, p) \<in> set (reportable ln)"
  shows "reference_tokens (leaf_reference wire ld ln fc p) = Some (wire ld, mn_name ln # fc_name fc # p)"
  unfolding leaf_reference_def
  by (rule tokens_reference, use assms in \<open>simp add: model_names_def\<close>, rule reportable_plain [OF assms(4)])
    (use assms in \<open>simp_all add: model_names_def\<close>)

lemma reportable_fc: "(fc, p) \<in> set (reportable ln) \<Longrightarrow> fc \<in> {IEC61850_FC_ST, IEC61850_FC_MX}"
  by (auto simp: reportable_def)

lemma reference_node:
  assumes "model_names L model wire" and "ld \<in> set (im_firstChild model)" and "ln \<in> set (mn_children ld)" and "(fc, p) \<in> set (reportable ln)"
  shows "reference_logical_node L model (leaf_reference wire ld ln fc p) = Some ln"
  using assms by (simp add: reference_logical_node_def reference_parts [OF assms] find_logical_node_def model_names_def)

lemma whole_device_distinct:
  assumes "model_names L (ih_model h) wire"
  shows "distinct (IedModelUseCases_getReportableAttributeReferencesForWholeDevice L (Some h))"
proof -
  let ?refs = "\<lambda>ld ln. if passes_category_filter h ln then ln_references wire ld ln else []"
  note parts = reference_parts [OF assms]
  have ln: "distinct (?refs ld ln)" if m: "ld \<in> set (im_firstChild (ih_model h))" "ln \<in> set (mn_children ld)" for ld ln
  proof -
    have "inj_on (\<lambda>(fc, p). leaf_reference wire ld ln fc p) (set (reportable ln))"
    proof (rule inj_onI, clarify)
      fix fc p fc' p' assume a: "(fc, p) \<in> set (reportable ln)" "(fc', p') \<in> set (reportable ln)"
        and e: "leaf_reference wire ld ln fc p = leaf_reference wire ld ln fc' p'"
      from parts [OF m a(1)] parts [OF m a(2)] e have "fc_name fc = fc_name fc'" "p = p'" by simp_all
      then show "fc = fc' \<and> p = p'" using reportable_fc [OF a(1)] reportable_fc [OF a(2)] by (auto simp: fc_name_def)
    qed
    with reportable_distinct [of ln] assms m show ?thesis by (simp add: ln_references_def distinct_map model_names_def)
  qed
  have head: "fst (the (reference_tokens r)) = wire ld \<and> hd (snd (the (reference_tokens r))) = mn_name ln"
    if "ld \<in> set (im_firstChild (ih_model h))" "ln \<in> set (mn_children ld)" "r \<in> set (?refs ld ln)" for ld ln r
    using that parts by (auto simp: ln_references_def split: if_splits)
  have ld: "distinct (concat (map (?refs ld) (mn_children ld)))" if m: "ld \<in> set (im_firstChild (ih_model h))" for ld
  proof (rule distinct_concat_heads [where P = "\<lambda>_. True" and g = mn_name and h = "\<lambda>r. hd (snd (the (reference_tokens r)))"])
    show "distinct (map mn_name (filter (\<lambda>_. True) (mn_children ld)))" using assms m by (simp add: model_names_def)
  qed (use m ln head in blast)+
  show ?thesis
    unfolding whole_device [OF assms]
  proof (rule distinct_concat_heads [where P = "\<lambda>_. True" and g = wire and h = "\<lambda>r. fst (the (reference_tokens r))"])
    show "distinct (map wire (filter (\<lambda>_. True) (im_firstChild (ih_model h))))" using assms by (simp add: model_names_def)
    show "True \<and> fst (the (reference_tokens r)) = wire c"
      if "c \<in> set (im_firstChild (ih_model h))" "r \<in> set (concat (map (?refs c) (mn_children c)))" for c r
      using that head by auto
  qed (rule ld)
qed

lemma whole_device_member:
  assumes "model_names L (ih_model h) wire"
  shows "r \<in> set (IedModelUseCases_getReportableAttributeReferencesForWholeDevice L (Some h)) \<longleftrightarrow>
     (\<exists>ld \<in> set (im_firstChild (ih_model h)). \<exists>ln \<in> set (mn_children ld). passes_category_filter h ln
        \<and> (\<exists>fc p. (fc, p) \<in> set (reportable ln) \<and> r = leaf_reference wire ld ln fc p))"
  unfolding whole_device [OF assms] by (fastforce simp: ln_references_def split: if_splits)

text \<open>The filter the subscriptions apply to a reference.\<close>

definition reference_passes :: "model_lib \<Rightarrow> IedModelHandle \<Rightarrow> string \<Rightarrow> bool" where
  "reference_passes L h r \<longleftrightarrow> IedModelUseCases_isMemberReferenceAlwaysIncluded L (Some h) (Some r)
     \<or> and (IedModelUseCases_getCategoryFilter (Some h)) (ln_category_bit (IedModelUseCases_getCategoryForMemberReference L (Some h) (Some r))) \<noteq> 0"

lemma whole_device_passes:
  assumes "model_names L (ih_model h) wire" and "r \<in> set (IedModelUseCases_getReportableAttributeReferencesForWholeDevice L (Some h))"
  shows "reference_passes L h r"
proof -
  from assms(2) obtain ld ln fc p where m: "ld \<in> set (im_firstChild (ih_model h))" "ln \<in> set (mn_children ld)"
    and p: "passes_category_filter h ln" and r: "(fc, p) \<in> set (reportable ln)" "r = leaf_reference wire ld ln fc p"
    unfolding whole_device_member [OF assms(1)] by blast
  from reference_node [OF assms(1) m r(1)] p show ?thesis
    by (auto simp: reference_passes_def passes_category_filter_def r(2) IedModelUseCases_getCategoryFilter_def
        IedModelUseCases_getCategoryForMemberReference_def IedModelUseCases_isMemberReferenceAlwaysIncluded_def)
qed

text \<open>A path to a status or measurand leaf below a logical node.\<close>

definition reportable_leaf :: "ModelNode \<Rightarrow> FunctionalConstraint \<Rightarrow> string list \<Rightarrow> bool" where
  "reportable_leaf ln fc p \<longleftrightarrow> fc \<in> {IEC61850_FC_ST, IEC61850_FC_MX} \<and> (\<exists>c \<in> set (mn_children ln). \<exists>d. leaf_at fc c p d)"

lemma reportable_leaf: "(fc, p) \<in> set (reportable ln) \<longleftrightarrow> reportable_leaf ln fc p"
proof -
  have "p \<in> set (node_leaves fc ln) \<longleftrightarrow> (\<exists>c \<in> set (mn_children ln). p \<in> fst ` set (leaves fc c))" by (simp add: node_leaves_def)
  also have "\<dots> \<longleftrightarrow> (\<exists>c \<in> set (mn_children ln). \<exists>d. leaf_at fc c p d)"
    unfolding leaves_leaf_at [symmetric] by (intro bex_cong refl) (force simp: image_iff)
  finally show ?thesis by (auto simp: reportable_def reportable_leaf_def)
qed

text \<open>C25. The attributes offered for reporting are exactly the right ones: on a model with proper names the
  references of the whole device are the status and measurand leaves of the logical nodes the
  category filter lets pass, each one once, and the filter the subscriptions later apply to a
  reference lets every one of them pass.\<close>

theorem whole_device_exact:
  assumes "model_names L (ih_model h) wire"
  shows "distinct (IedModelUseCases_getReportableAttributeReferencesForWholeDevice L (Some h))
    \<and> set (IedModelUseCases_getReportableAttributeReferencesForWholeDevice L (Some h))
        = {leaf_reference wire ld ln fc p | ld ln fc p. ld \<in> set (im_firstChild (ih_model h)) \<and> ln \<in> set (mn_children ld)
             \<and> passes_category_filter h ln \<and> reportable_leaf ln fc p}
    \<and> (\<forall>r \<in> set (IedModelUseCases_getReportableAttributeReferencesForWholeDevice L (Some h)). reference_passes L h r)"
proof (intro conjI ballI)
  show "set (IedModelUseCases_getReportableAttributeReferencesForWholeDevice L (Some h))
        = {leaf_reference wire ld ln fc p | ld ln fc p. ld \<in> set (im_firstChild (ih_model h)) \<and> ln \<in> set (mn_children ld)
             \<and> passes_category_filter h ln \<and> reportable_leaf ln fc p}"
    by (rule set_eqI, unfold whole_device_member [OF assms] reportable_leaf mem_Collect_eq) blast
qed (rule whole_device_distinct [OF assms], rule whole_device_passes [OF assms])

end
