(* ===== verification/Ied_Model_Goose.thy ===== *)
theory Ied_Model_Goose
  imports Ied_Model_Device
begin

text \<open>
  The device model as the provider of the GOOSE subscriber: \<open>resolveMemberReferences\<close> on the
  accessors of \<open>ied_model_usecases.c\<close>, and what the slot tables of a subscription then say
  about the attributes of the model. Also the accessors for a reference that is already a
  leaf, which look only one level deep.
\<close>

section \<open>The accessors\<close>

definition goose_services :: "model_lib \<Rightarrow> IedModelHandle \<Rightarrow> ied_services" where
  "goose_services L h =
     \<lparr>is_getCategoryFilter = IedModelUseCases_getCategoryFilter (Some h),
      is_getDataSetMemberReferences = (\<lambda>ds. Some (map Some (IedModelUseCases_getDataSetMemberReferences L h (Some ds)))),
      is_getDataSetMemberSemantics = (\<lambda>ds. Some (IedModelUseCases_getDataSetMemberSemantics L h (Some ds))),
      is_getDataSetMemberLeafReferences = (\<lambda>ds i. Some (map Some (IedModelUseCases_getDataSetMemberLeafReferences L h (Some ds) (int i)))),
      is_getDataSetMemberLeafWireTypes = (\<lambda>ds i. Some (IedModelUseCases_getDataSetMemberLeafWireTypes L h (Some ds) (int i))),
      is_getDataSetMemberLeafSemantics = (\<lambda>ds i. Some (IedModelUseCases_getDataSetMemberLeafSemantics L h (Some ds) (int i))),
      is_getCategoryForMemberReference = IedModelUseCases_getCategoryForMemberReference L (Some h),
      is_isMemberReferenceAlwaysIncluded = IedModelUseCases_isMemberReferenceAlwaysIncluded L (Some h),
      is_getDescriptionForMemberReference = IedModelUseCases_getDescriptionForMemberReference L h,
      is_getLeafDescriptionsForMemberReference = (\<lambda>r. Some (IedModelUseCases_getLeafDescriptionsForMemberReference L h r))\<rparr>"

text \<open>The attribute slot \<open>k\<close> of a member stands for.\<close>

definition slot_attribute :: "model_lib \<Rightarrow> IedModelHandle \<Rightarrow> string \<Rightarrow> nat \<Rightarrow> ModelNode option" where
  "slot_attribute L h r k =
     (if leaves_of_member L h (Some r) = [] then leaf_attribute L (ih_model h) (Some r)
      else Some (snd (leaves_of_member L h (Some r) ! k)))"

text \<open>All allocations of a subscription succeed.\<close>

definition all_allocated :: "resolve_allocs \<Rightarrow> bool" where
  "all_allocated ra \<longleftrightarrow> describes ra \<and> ra_array ra \<and> ra_leafRefsArray ra \<and> ra_leafCounts ra \<and> ra_leafOffsets ra
     \<and> ra_lastForwardedValues ra \<and> (\<forall>m. ra_memberLeaves ra m)"

definition model_dataset :: "model_lib \<Rightarrow> IedModelHandle \<Rightarrow> string \<Rightarrow> string list \<Rightarrow> bool" where
  "model_dataset L h ds rs \<longleftrightarrow> rs \<noteq> []
     \<and> (\<exists>entries. lb_lookupDataSet L (ih_model h) ds = Some entries \<and> map buildMemberReferenceForEntry entries = map Some rs)"

lemma map_filter_all: "map f xs = map Some ys \<Longrightarrow> List.map_filter f xs = ys"
  by (induction xs arbitrary: ys) (auto simp: List.map_filter_simps)

lemma dataset_member:
  assumes "model_dataset L h ds rs"
  shows "IedModelUseCases_getDataSetMemberReferences L h (Some ds) = rs"
    and "i < length rs \<Longrightarrow> resolveDataSetMemberReference L h (Some ds) (int i) = Some (rs ! i)"
    and "IedModelUseCases_getDataSetMemberSemantics L h (Some ds) = map (\<lambda>r. IedModelUseCases_getSemanticForMemberReference L h (Some r)) rs"
proof -
  from assms obtain entries where e: "lb_lookupDataSet L (ih_model h) ds = Some entries"
    and m: "map buildMemberReferenceForEntry entries = map Some rs" by (auto simp: model_dataset_def)
  from arg_cong [OF m, of length] have l: "length entries = length rs" by simp
  from m have at: "buildMemberReferenceForEntry (entries ! i) = Some (rs ! i)" if "i < length rs" for i
    using that l by (metis length_map nth_map)
  show "IedModelUseCases_getDataSetMemberReferences L h (Some ds) = rs"
    by (simp add: IedModelUseCases_getDataSetMemberReferences_def e map_filter_all [OF m])
  show "i < length rs \<Longrightarrow> resolveDataSetMemberReference L h (Some ds) (int i) = Some (rs ! i)"
    by (simp add: resolveDataSetMemberReference_def e l at)
  show "IedModelUseCases_getDataSetMemberSemantics L h (Some ds) = map (\<lambda>r. IedModelUseCases_getSemanticForMemberReference L h (Some r)) rs"
    by (rule nth_equalityI) (simp_all add: IedModelUseCases_getDataSetMemberSemantics_def e l at)
qed

lemma member_resolves:
  assumes "model_dataset L h ds rs" and "all_allocated ra"
  shows "resolves ra (goose_services L h) ds (map Some rs)" and "describes ra"
    and "i < length rs \<Longrightarrow> member_leaves ra (goose_services L h) ds i
      = (if leaves_of_member L h (Some (rs ! i)) = [] then None
         else Some (map (\<lambda>(p, d). Some (rs ! i @ dollar p)) (leaves_of_member L h (Some (rs ! i)))))"
proof -
  have "rs \<noteq> []" using assms(1) by (simp add: model_dataset_def)
  with dataset_member(1) [OF assms(1)] assms(2) show "resolves ra (goose_services L h) ds (map Some rs)" "describes ra"
    by (simp_all add: resolves_def goose_services_def all_allocated_def)
  assume i: "i < length rs"
  from dataset_member(2) [OF assms(1) i] assms(2)
  show "member_leaves ra (goose_services L h) ds i
      = (if leaves_of_member L h (Some (rs ! i)) = [] then None
         else Some (map (\<lambda>(p, d). Some (rs ! i @ dollar p)) (leaves_of_member L h (Some (rs ! i)))))"
    by (auto simp: member_leaves_def goose_services_def all_allocated_def linkedListToStringArray_def member_walks
        IedModelUseCases_getDataSetMemberLeafReferences_def)
qed


section \<open>References that are leaves already\<close>

text \<open>Only the first level below a data object is looked up: the semantic and the description returned for
  the reference of a nested leaf are those of the attribute one level below the data object,
  whatever was captured for the leaf; if that level is a sub data object, nothing is found.\<close>

theorem nested_leaf_not_described:
  assumes "CHR ''/'' \<notin> set ld" and "\<forall>x \<in> set (ln # fc # obj # q # p). plain_name x"
  shows "IedModelUseCases_getDescriptionForMemberReference L h (Some (ld @ ''/'' @ ln @ dollar (fc # obj # q # p)))
        = IedModelUseCases_getDescriptionForMemberReference L h (Some (ld @ ''/'' @ ln @ dollar [fc, obj, q]))
    \<and> IedModelUseCases_getSemanticForMemberReference L h (Some (ld @ ''/'' @ ln @ dollar (fc # obj # q # p)))
        = IedModelUseCases_getSemanticForMemberReference L h (Some (ld @ ''/'' @ ln @ dollar [fc, obj, q]))"
proof -
  have "leaf_attribute L (ih_model h) (Some (ld @ ''/'' @ ln @ dollar (fc # obj # q # p)))
      = leaf_attribute L (ih_model h) (Some (ld @ ''/'' @ ln @ dollar [fc, obj, q]))"
    using tokens_reference [OF assms] tokens_reference [OF assms(1), of ln "[fc, obj, q]"] assms(2)
    by (simp add: leaf_attribute_def)
  then show ?thesis
    by (simp add: IedModelUseCases_getDescriptionForMemberReference_def IedModelUseCases_getSemanticForMemberReference_def)
qed

end
