(* ===== verification/Mms_Dataset_Clusters.thy ===== *)
theory Mms_Dataset_Clusters
  imports Mms_Dataset_Names
begin

text \<open>
  The clustering half of \<open>mms_dataset_manager/domain/mms_dataset_manager_usecases.c\<close>: the
  reportable references of a device are grouped by logical node, packed into data sets of at
  most \<open>maxAttributes\<close> members, and a node that does not fit is split between its data
  objects. Copies of strings and the nodes of a \<open>LinkedList\<close> are taken to be allocated; the
  \<open>calloc\<close> of an array has its flag.
\<close>

section \<open>Runs\<close>

text \<open>
  The maximal runs of consecutive references with the same key; a NULL reference ends a run
  and is skipped.
\<close>

definition same_run :: "(string \<Rightarrow> string) \<Rightarrow> string \<Rightarrow> string option \<Rightarrow> bool" where
  "same_run key r x = (case x of None \<Rightarrow> False | Some s \<Rightarrow> key s = key r)"

function key_runs :: "(string \<Rightarrow> string) \<Rightarrow> string option list \<Rightarrow> string list list" where
  "key_runs key [] = []"
| "key_runs key (None # xs) = key_runs key xs"
| "key_runs key (Some r # xs) =
     (r # map the (takeWhile (same_run key r) xs)) # key_runs key (dropWhile (same_run key r) xs)"
  by pat_completeness auto
termination
  by (relation "measure (\<lambda>(key, xs). length xs)") (auto simp: le_imp_less_Suc length_dropWhile_le)

definition MmsDatasetManagerUseCases_groupReferencesByLn :: "bool \<Rightarrow> string option list \<Rightarrow> string list list" where
  "MmsDatasetManagerUseCases_groupReferencesByLn okKeys references =
     (if references = [] then [] else if \<not> okKeys then [] else key_runs extractLnKey references)"

section \<open>Packing\<close>

text \<open>The loop of \<open>chunkReferencesByDoGroup\<close> over the runs, with the open chunk.\<close>

fun packGroups :: "nat \<Rightarrow> string list list \<Rightarrow> string list list \<Rightarrow> string list option \<Rightarrow> string list list" where
  "packGroups maxAttributes [] chunks current = chunks @ (case current of None \<Rightarrow> [] | Some c \<Rightarrow> [c])"
| "packGroups maxAttributes (grp # grps) chunks current =
     (case current of
        Some c \<Rightarrow>
          if length c > 0 \<and> length c + length grp > maxAttributes
          then packGroups maxAttributes grps (chunks @ [c]) (Some grp)
          else packGroups maxAttributes grps chunks (Some (c @ grp))
      | None \<Rightarrow> packGroups maxAttributes grps chunks (Some grp))"

definition MmsDatasetManagerUseCases_chunkReferencesByDoGroup ::
    "bool \<Rightarrow> string option list \<Rightarrow> int \<Rightarrow> string list list" where
  "MmsDatasetManagerUseCases_chunkReferencesByDoGroup okKeys references maxAttributes =
     (if references = [] \<or> maxAttributes \<le> 0 then []
      else if \<not> okKeys then []
      else packGroups (nat maxAttributes) (key_runs MmsDatasetManagerUseCases_extractDoGroupKey references) [] None)"

text \<open>
  \<open>okLeaves i\<close> and \<open>okKeys i\<close>: the two arrays needed to split node \<open>i\<close> were allocated; without
  the first its leaves are dropped.
\<close>

fun packNodes ::
    "(nat \<Rightarrow> bool) \<Rightarrow> (nat \<Rightarrow> bool) \<Rightarrow> int \<Rightarrow> nat \<Rightarrow> string list list \<Rightarrow> string list list \<Rightarrow> string list option \<Rightarrow> string list list" where
  "packNodes okLeaves okKeys maxAttributes i [] chunks current = chunks @ (case current of None \<Rightarrow> [] | Some c \<Rightarrow> [c])"
| "packNodes okLeaves okKeys maxAttributes i (lnGroup # lnGroups) chunks current =
     (if lnGroup = [] then packNodes okLeaves okKeys maxAttributes (Suc i) lnGroups chunks current
      else if int (length lnGroup) > maxAttributes then
        let flushed = chunks @ (case current of None \<Rightarrow> [] | Some c \<Rightarrow> [c]);
            subChunks = (if okLeaves i
              then MmsDatasetManagerUseCases_chunkReferencesByDoGroup (okKeys i) (map Some lnGroup) maxAttributes else [])
        in packNodes okLeaves okKeys maxAttributes (Suc i) lnGroups (flushed @ subChunks) None
      else
        (case current of
           Some c \<Rightarrow>
             if int (length c) + int (length lnGroup) > maxAttributes
             then packNodes okLeaves okKeys maxAttributes (Suc i) lnGroups (chunks @ [c]) (Some lnGroup)
             else packNodes okLeaves okKeys maxAttributes (Suc i) lnGroups chunks (Some (c @ lnGroup))
         | None \<Rightarrow> packNodes okLeaves okKeys maxAttributes (Suc i) lnGroups chunks (Some lnGroup)))"

definition MmsDatasetManagerUseCases_chunkReferencesAcrossWholeDevice ::
    "bool \<Rightarrow> (nat \<Rightarrow> bool) \<Rightarrow> (nat \<Rightarrow> bool) \<Rightarrow> string option list \<Rightarrow> int \<Rightarrow> string list list" where
  "MmsDatasetManagerUseCases_chunkReferencesAcrossWholeDevice okLnKeys okLeaves okKeys references maxAttributes =
     (if references = [] \<or> maxAttributes \<le> 0 then []
      else packNodes okLeaves okKeys maxAttributes 0
             (MmsDatasetManagerUseCases_groupReferencesByLn okLnKeys references) [] None)"

definition MmsDatasetManagerUseCases_filterOutClaimedLeaves :: "string option list \<Rightarrow> string list \<Rightarrow> string list" where
  "MmsDatasetManagerUseCases_filterOutClaimedLeaves leaves claimedLeaves =
     List.map_filter (\<lambda>l. case l of None \<Rightarrow> None | Some s \<Rightarrow> if s \<in> set claimedLeaves then None else Some s) leaves"

section \<open>Runs are a partition\<close>

lemma same_run_Some: "same_run key r x \<Longrightarrow> x = Some (the x) \<and> key (the x) = key r"
  by (cases x) (simp_all add: same_run_def)

lemma map_filter_append: "List.map_filter f (xs @ ys) = List.map_filter f xs @ List.map_filter f ys"
  by (simp add: List.map_filter_def)

lemma map_filter_run: "List.map_filter (\<lambda>x. x) (takeWhile (same_run key r) xs) = map the (takeWhile (same_run key r) xs)"
  by (induction xs) (auto simp: List.map_filter_simps same_run_def split: option.split)

lemma concat_key_runs: "concat (key_runs key xs) = List.map_filter (\<lambda>x. x) xs"
proof (induction key xs rule: key_runs.induct)
  case (3 key r xs)
  have "List.map_filter (\<lambda>x. x) xs = List.map_filter (\<lambda>x. x) (takeWhile (same_run key r) xs) @ List.map_filter (\<lambda>x. x) (dropWhile (same_run key r) xs)"
    by (simp only: map_filter_append [symmetric] takeWhile_dropWhile_id)
  with 3 show ?case by (simp add: List.map_filter_simps map_filter_run)
qed (simp_all add: List.map_filter_simps)

lemma key_runs_nonempty: "g \<in> set (key_runs key xs) \<Longrightarrow> g \<noteq> []"
  by (induction key xs rule: key_runs.induct) auto

text \<open>All members of a run have the key of its first.\<close>

lemma key_runs_key: "g \<in> set (key_runs key xs) \<Longrightarrow> r \<in> set g \<Longrightarrow> key r = key (hd g)"
proof (induction key xs arbitrary: g rule: key_runs.induct)
  case (3 key s xs)
  from 3(2) consider "g = s # map the (takeWhile (same_run key s) xs)" | "g \<in> set (key_runs key (dropWhile (same_run key s) xs))"
    by auto
  then show ?case
  proof cases
    case 1
    with 3(3) show ?thesis by (auto dest!: set_takeWhileD same_run_Some)
  next
    case 2
    with 3 show ?thesis by blast
  qed
qed simp_all

section \<open>Packing joins whole groups\<close>

text \<open>The chunks are the groups, in order, some of them joined.\<close>

definition joins :: "string list list \<Rightarrow> string list list \<Rightarrow> bool" where
  "joins grps chunks \<longleftrightarrow> (\<exists>parts. concat parts = grps \<and> chunks = map concat parts)"

lemma joins_Nil [simp]: "joins [] []"
  by (auto simp: joins_def intro: exI [of _ "[]"])

lemma joins_append: "joins gs cs \<Longrightarrow> joins hs ds \<Longrightarrow> joins (gs @ hs) (cs @ ds)"
proof -
  assume "joins gs cs" "joins hs ds"
  then obtain p q where "concat p = gs" "cs = map concat p" "concat q = hs" "ds = map concat q" by (auto simp: joins_def)
  then show ?thesis unfolding joins_def by (intro exI [of _ "p @ q"]) simp
qed

lemma joins_one: "joins gs [concat gs]"
  unfolding joins_def by (intro exI [of _ "[gs]"]) simp

lemma concat_map_concat: "concat (map concat xss) = concat (concat xss)"
  by (induction xss) auto

lemma joins_concat: "joins gs cs \<Longrightarrow> concat cs = concat gs"
  by (auto simp: joins_def concat_map_concat)

lemma joins_subset: "joins gs cs \<Longrightarrow> c \<in> set cs \<Longrightarrow> \<exists>hs. set hs \<subseteq> set gs \<and> c = concat hs"
  unfolding joins_def by (metis (no_types, lifting) UN_upper image_iff list.set_map set_concat)

text \<open>A chunk is within the limit, or it is a single group that is not.\<close>

definition within :: "int \<Rightarrow> string list list \<Rightarrow> string list \<Rightarrow> bool" where
  "within m grps c \<longleftrightarrow> int (length c) \<le> m \<or> c \<in> set grps"

definition open_groups :: "string list list option \<Rightarrow> string list list" where
  "open_groups cur = (case cur of None \<Rightarrow> [] | Some hs \<Rightarrow> hs)"

lemma packGroups_joins:
  assumes "joins gs0 chunks" and "0 < m" and "\<forall>c \<in> set chunks. within (int m) all c" and "set gs0 \<union> set (open_groups cur) \<union> set gs \<subseteq> set all"
    and "\<And>hs. cur = Some hs \<Longrightarrow> hs \<noteq> [] \<and> within (int m) all (concat hs)" and "\<forall>g \<in> set gs. g \<noteq> []"
    and "\<forall>g \<in> set (open_groups cur). g \<noteq> []"
  shows "joins (gs0 @ open_groups cur @ gs) (packGroups m gs chunks (map_option concat cur))
    \<and> (\<forall>c \<in> set (packGroups m gs chunks (map_option concat cur)). within (int m) all c)"
  using assms
proof (induction gs arbitrary: gs0 chunks cur)
  case Nil
  then show ?case using joins_append [OF Nil.prems(1) joins_one] by (cases cur) (simp_all add: open_groups_def)
next
  case (Cons g gs)
  have one: "within (int m) all g" using Cons.prems(4) by (simp add: within_def)
  show ?case
  proof (cases cur)
    case None
    have "joins (gs0 @ [g] @ gs) (packGroups m gs chunks (Some g)) \<and> (\<forall>c \<in> set (packGroups m gs chunks (Some g)). within (int m) all c)"
      using Cons.IH [of gs0 chunks "Some [g]"] Cons.prems one by (simp add: open_groups_def None)
    with None show ?thesis by (simp add: open_groups_def)
  next
    case (Some hs)
    with Cons.prems(5,7) have ne: "concat hs \<noteq> []" by (cases hs) (auto simp: open_groups_def)
    show ?thesis
    proof (cases "length (concat hs) + length g > m")
      case True
      have j: "joins (gs0 @ hs) (chunks @ [concat hs])" using Cons.prems(1) by (intro joins_append joins_one)
      have "joins ((gs0 @ hs) @ [g] @ gs) (packGroups m gs (chunks @ [concat hs]) (Some g))
          \<and> (\<forall>c \<in> set (packGroups m gs (chunks @ [concat hs]) (Some g)). within (int m) all c)"
        using Cons.IH [OF j, of "Some [g]"] Cons.prems one by (simp add: open_groups_def Some)
      with True ne Some show ?thesis by (simp add: open_groups_def)
    next
      case False
      have w: "within (int m) all (concat (hs @ [g]))" using False by (simp add: within_def)
      have "joins (gs0 @ (hs @ [g]) @ gs) (packGroups m gs chunks (Some (concat (hs @ [g]))))
          \<and> (\<forall>c \<in> set (packGroups m gs chunks (Some (concat (hs @ [g])))). within (int m) all c)"
        using Cons.IH [of gs0 chunks "Some (hs @ [g])"] Cons.prems w by (simp add: open_groups_def Some)
      with False Some show ?thesis by (simp add: open_groups_def)
    qed
  qed
qed

lemma byDo_joins:
  assumes "0 < m"
  shows "joins (key_runs MmsDatasetManagerUseCases_extractDoGroupKey refs) (MmsDatasetManagerUseCases_chunkReferencesByDoGroup True refs m)
    \<and> (\<forall>c \<in> set (MmsDatasetManagerUseCases_chunkReferencesByDoGroup True refs m).
         within m (key_runs MmsDatasetManagerUseCases_extractDoGroupKey refs) c)"
proof (cases "refs = []")
  case True
  then show ?thesis by (simp add: MmsDatasetManagerUseCases_chunkReferencesByDoGroup_def)
next
  case False
  let ?gs = "key_runs MmsDatasetManagerUseCases_extractDoGroupKey refs"
  have "joins ([] @ open_groups None @ ?gs) (packGroups (nat m) ?gs [] (map_option concat None))
      \<and> (\<forall>c \<in> set (packGroups (nat m) ?gs [] (map_option concat None)). within (int (nat m)) ?gs c)"
    using assms by (intro packGroups_joins) (auto simp: open_groups_def dest: key_runs_nonempty)
  with assms False show ?thesis by (simp add: open_groups_def MmsDatasetManagerUseCases_chunkReferencesByDoGroup_def)
qed

section \<open>Clusters of a device\<close>

text \<open>
  What a cluster of the device may be: whole logical nodes that fit together, or, of one node
  that does not fit, whole data objects, as many as fit and at least one.
\<close>

definition do_runs :: "string list \<Rightarrow> string list list" where
  "do_runs g = key_runs MmsDatasetManagerUseCases_extractDoGroupKey (map Some g)"

definition whole_nodes :: "int \<Rightarrow> string list list \<Rightarrow> string list \<Rightarrow> bool" where
  "whole_nodes m lns c \<longleftrightarrow> int (length c) \<le> m \<and> (\<exists>hs. set hs \<subseteq> set lns \<and> c = concat hs)"

definition part_of_node :: "int \<Rightarrow> string list list \<Rightarrow> string list \<Rightarrow> bool" where
  "part_of_node m lns c \<longleftrightarrow> (\<exists>g \<in> set lns. int (length g) > m \<and> within m (do_runs g) c
     \<and> (\<exists>ds. set ds \<subseteq> set (do_runs g) \<and> c = concat ds))"

definition good_cluster :: "int \<Rightarrow> string list list \<Rightarrow> string list \<Rightarrow> bool" where
  "good_cluster m lns c \<longleftrightarrow> whole_nodes m lns c \<or> part_of_node m lns c"

lemma concat_do_runs: "concat (do_runs g) = g"
  by (simp add: do_runs_def concat_key_runs List.map_filter_def comp_def)

lemma split_node:
  assumes "0 < m" and "g \<in> set lns" and "int (length g) > m"
  shows "concat (MmsDatasetManagerUseCases_chunkReferencesByDoGroup True (map Some g) m) = g
    \<and> (\<forall>c \<in> set (MmsDatasetManagerUseCases_chunkReferencesByDoGroup True (map Some g) m). part_of_node m lns c)"
proof -
  note b = byDo_joins [OF assms(1), of "map Some g", folded do_runs_def]
  have "concat (MmsDatasetManagerUseCases_chunkReferencesByDoGroup True (map Some g) m) = g"
    using joins_concat [OF b [THEN conjunct1]] concat_do_runs by simp
  moreover have "part_of_node m lns c" if "c \<in> set (MmsDatasetManagerUseCases_chunkReferencesByDoGroup True (map Some g) m)" for c
    using that b joins_subset [of "do_runs g" _ c] assms(2,3) unfolding part_of_node_def by blast
  ultimately show ?thesis by blast
qed

lemma whole_one: "g \<in> set lns \<Longrightarrow> int (length g) \<le> m \<Longrightarrow> whole_nodes m lns g"
  unfolding whole_nodes_def by (intro conjI exI [of _ "[g]"]) simp_all

lemma whole_snoc: "whole_nodes m lns c \<Longrightarrow> g \<in> set lns \<Longrightarrow> int (length c) + int (length g) \<le> m \<Longrightarrow> whole_nodes m lns (c @ g)"
  unfolding whole_nodes_def by (elim conjE exE, intro conjI, simp) (metis Un_insert_right append_Nil2 concat.simps concat_append insert_subset list.simps(15) set_append)

lemma packNodes_good:
  assumes "0 < m" and "\<forall>c \<in> set chunks. good_cluster m lns c" and "set gs \<subseteq> set lns" and "\<And>c. cur = Some c \<Longrightarrow> whole_nodes m lns c"
    and "\<And>i. okLeaves i" and "\<And>i. okKeys i"
  shows "concat (packNodes okLeaves okKeys m i gs chunks cur) = concat chunks @ (case cur of None \<Rightarrow> [] | Some c \<Rightarrow> c) @ concat gs
    \<and> (\<forall>c \<in> set (packNodes okLeaves okKeys m i gs chunks cur). good_cluster m lns c)"
  using assms
proof (induction gs arbitrary: i chunks cur)
  case Nil
  then show ?case by (auto simp: good_cluster_def split: option.split)
next
  case (Cons g gs)
  have g: "g \<in> set lns" and gs: "set gs \<subseteq> set lns" using Cons.prems(3) by auto
  note IH = Cons.IH [OF Cons.prems(1) _ gs _ Cons.prems(5,6)]
  let ?flushed = "chunks @ (case cur of None \<Rightarrow> [] | Some c \<Rightarrow> [c])"
  have fl: "\<forall>c \<in> set ?flushed. good_cluster m lns c" using Cons.prems(2,4) by (auto simp: good_cluster_def split: option.split)
  consider "g = []" | "g \<noteq> []" "int (length g) > m" | "g \<noteq> []" "\<not> int (length g) > m" by blast
  then show ?case
  proof cases
    case 1
    with IH [OF Cons.prems(2), of cur "Suc i"] Cons.prems(4) show ?thesis by simp
  next
    case 2
    let ?sub = "MmsDatasetManagerUseCases_chunkReferencesByDoGroup True (map Some g) m"
    note s = split_node [OF Cons.prems(1) g 2(2)]
    have "\<forall>c \<in> set (?flushed @ ?sub). good_cluster m lns c" using fl s by (auto simp: good_cluster_def)
    from IH [OF this, of None "Suc i"] s 2 Cons.prems(5,6) show ?thesis by (simp add: Let_def split: option.split)
  next
    case 3
    have w: "whole_nodes m lns g" using whole_one [OF g] 3 by simp
    show ?thesis
    proof (cases cur)
      case None
      with IH [OF Cons.prems(2), of "Some g" "Suc i"] w 3 show ?thesis by simp
    next
      case (Some c)
      show ?thesis
      proof (cases "int (length c) + int (length g) > m")
        case True
        from fl Some have "\<forall>c \<in> set (chunks @ [c]). good_cluster m lns c" by simp
        from IH [OF this, of "Some g" "Suc i"] w 3 True Some show ?thesis by simp
      next
        case False
        have "whole_nodes m lns (c @ g)" using whole_snoc [OF Cons.prems(4) [OF Some] g] False by simp
        with IH [OF Cons.prems(2), of "Some (c @ g)" "Suc i"] 3 False Some show ?thesis by simp
      qed
    qed
  qed
qed

text \<open>C21. The data sets planned for a device: nothing is lost, doubled or reordered; every planned data set
  stays within the limit of the device or holds a single data object that alone exceeds it;
  and a data set either consists of whole logical nodes or lies inside one node that is too
  large, so that leaves of a split node are never mixed with those of another.\<close>

theorem device_clusters_exact:
  assumes "0 < m" and "\<And>i. okLeaves i" and "\<And>i. okKeys i"
    and "chunks = MmsDatasetManagerUseCases_chunkReferencesAcrossWholeDevice True okLeaves okKeys refs m"
  shows "concat chunks = List.map_filter (\<lambda>x. x) refs
    \<and> (\<forall>c \<in> set chunks. good_cluster m (MmsDatasetManagerUseCases_groupReferencesByLn True refs) c)"
proof (cases "refs = []")
  case True
  with assms(4) show ?thesis
    by (simp add: MmsDatasetManagerUseCases_chunkReferencesAcrossWholeDevice_def List.map_filter_simps)
next
  case False
  have "concat (MmsDatasetManagerUseCases_groupReferencesByLn True refs) = List.map_filter (\<lambda>x. x) refs"
    using False by (simp add: MmsDatasetManagerUseCases_groupReferencesByLn_def concat_key_runs)
  with packNodes_good [OF assms(1), of "[]" "MmsDatasetManagerUseCases_groupReferencesByLn True refs"
      "MmsDatasetManagerUseCases_groupReferencesByLn True refs" None okLeaves okKeys 0] assms False
  show ?thesis by (simp add: MmsDatasetManagerUseCases_chunkReferencesAcrossWholeDevice_def)
qed

definition demo_refs :: "string option list" where
  "demo_refs = [Some ''E/A$ST$X$s'', Some ''E/A$ST$X$q'', Some ''E/B$ST$Y$s'', Some ''E/B$ST$Y$q'', Some ''E/B$ST$Z$s'']"

lemma demo_chunks:
  "MmsDatasetManagerUseCases_chunkReferencesAcrossWholeDevice True (\<lambda>i. True) (\<lambda>i. True) demo_refs 2
     = [[''E/A$ST$X$s'', ''E/A$ST$X$q''], [''E/B$ST$Y$s'', ''E/B$ST$Y$q''], [''E/B$ST$Z$s'']]"
  by (simp add: MmsDatasetManagerUseCases_chunkReferencesAcrossWholeDevice_def demo_refs_def
      MmsDatasetManagerUseCases_groupReferencesByLn_def extractLnKey_def same_run_def
      MmsDatasetManagerUseCases_chunkReferencesByDoGroup_def MmsDatasetManagerUseCases_extractDoGroupKey_def strchr_def)

lemma device_clusters_exact_witness:
  "good_cluster 2 (MmsDatasetManagerUseCases_groupReferencesByLn True demo_refs) [''E/B$ST$Y$s'', ''E/B$ST$Y$q'']"
  using device_clusters_exact [of 2 "\<lambda>i. True" "\<lambda>i. True" _ demo_refs, OF _ _ _ demo_chunks [symmetric]] by simp

section \<open>Filtering out what is covered\<close>

lemma filter_claimed: "MmsDatasetManagerUseCases_filterOutClaimedLeaves leaves claimed
    = filter (\<lambda>s. s \<notin> set claimed) (List.map_filter (\<lambda>x. x) leaves)"
  by (induction leaves)
    (auto simp: MmsDatasetManagerUseCases_filterOutClaimedLeaves_def List.map_filter_simps split: option.split)

end
