(* ===== verification/Mms_Dataset_Session.thy ===== *)
theory Mms_Dataset_Session
  imports Mms_Dataset_Clusters State_Triples
begin

text \<open>
  The data set manager at work: \<open>mms_dataset_manager/data/mms_dataset_manager_discovery.c\<close>,
  \<open>mms_dataset_manager/data/mms_dataset_manager_provisioning.c\<close> and
  \<open>mms_dataset_manager/service/mms_dataset_manager_api.c\<close>. The calls on the connection are
  functions on an abstract world \<open>'w\<close>, the operations programs of the state monad over the
  world, the handle and a log of what the device was asked to create, unbind and delete. The
  allocation of an entry is a call that may fail; copies of strings and list nodes are taken
  to be allocated. Log lines have no model.
\<close>

section \<open>State\<close>

datatype MmsDatasetManagerError =
    MMS_DATASET_MANAGER_OK
  | MMS_DATASET_MANAGER_ERR_INVALID_ARGUMENT
  | MMS_DATASET_MANAGER_ERR_OUT_OF_MEMORY

record MmsDatasetManagerCacheEntry =
  ce_lnReference :: string
  ce_datasetName :: string
  ce_buffered :: bool

record MmsDatasetManagerChunkAssignment =
  ca_rcbReference :: "string option"
  ca_memberReferences :: "string list"

record MmsDatasetManagerPreResolvedEntry =
  pe_rcbReference :: "string option"
  pe_datasetReference :: string
  pe_tier :: MmsDatasetTier
  pe_memberReferences :: "string list"

text \<open>A list that is NULL or empty is empty.\<close>

record MmsDatasetManagerSession =
  se_active :: bool
  se_cache :: "MmsDatasetManagerCacheEntry list"
  se_remainingDynBudget :: int
  se_dynBudgetExhaustedLogged :: bool
  se_remainingConfBudget :: int
  se_confBudgetExhaustedLogged :: bool
  se_chunkAssignments :: "MmsDatasetManagerChunkAssignment list"
  se_existingServerDatasets :: "string list"
  se_claimedDatasetNames :: "string list"
  se_preResolvedEntries :: "MmsDatasetManagerPreResolvedEntry list"
  se_associationSpecificCreateRejected :: bool

record MmsDatasetManagerHandle =
  dh_targets :: "ReportControlBlockTarget list option"
  dh_domainScopedDynamicDatasetNames :: "string list option"
  dh_session :: MmsDatasetManagerSession

definition no_session :: MmsDatasetManagerSession where
  "no_session = \<lparr>se_active = False, se_cache = [], se_remainingDynBudget = 0, se_dynBudgetExhaustedLogged = False,
     se_remainingConfBudget = 0, se_confBudgetExhaustedLogged = False, se_chunkAssignments = [],
     se_existingServerDatasets = [], se_claimedDatasetNames = [], se_preResolvedEntries = [],
     se_associationSpecificCreateRejected = False\<rparr>"

text \<open>Which arrays of the cluster plan could be allocated, by cluster or logical node.\<close>

record plan_allocs =
  pa_rawLeaves :: bool
  pa_leaves :: bool
  pa_lnKeys :: bool
  pa_lnLeaves :: "nat \<Rightarrow> bool"
  pa_doKeys :: "nat \<Rightarrow> bool"
  pa_members :: "nat \<Rightarrow> bool"
  pa_assignment :: "nat \<Rightarrow> bool"

text \<open>
  The connection, the model and the allocator. \<open>de_defineNamedVariableList\<close> is the create of
  the lower layer, with the domain or \<open>None\<close> for the association.
\<close>

record ('v, 'w) ds_env =
  de_getRCBValues :: "string option \<Rightarrow> 'w \<Rightarrow> 'v rcb option \<times> 'w"
  de_setRCBValues :: "string option \<Rightarrow> 'v rcb \<Rightarrow> 'w \<Rightarrow> IedClientError \<times> 'w"
  de_getLogicalDeviceDataSets :: "string \<Rightarrow> 'w \<Rightarrow> string option list option \<times> 'w"
  de_getDataSetDirectory :: "string \<Rightarrow> 'w \<Rightarrow> string list option \<times> 'w"
  de_createDataSet :: "string \<Rightarrow> string list \<Rightarrow> 'w \<Rightarrow> IedClientError \<times> 'w"
  de_deleteDataSet :: "string \<Rightarrow> 'w \<Rightarrow> bool \<times> 'w"
  de_hasMmsConnection :: bool
  de_defineNamedVariableList :: "string option \<Rightarrow> string \<Rightarrow> string list \<Rightarrow> 'w \<Rightarrow> bool \<times> 'w"
  de_dynDataSetMax :: int
  de_confDataSetMax :: int
  de_dynDataSetMaxAttributes :: int
  de_confDataSetMaxAttributes :: int
  de_wholeDeviceLeaves :: "string option list option"
  de_alloc :: "'w \<Rightarrow> bool \<times> 'w"
  de_planAllocs :: "'w \<Rightarrow> plan_allocs"

datatype ds_event =
    De_create bool string "string list" IedClientError
  | De_diagnose string bool
  | De_unbind "string option" string IedClientError
  | De_delete string bool

record 'w ds_state =
  ds_world :: 'w
  ds_handle :: MmsDatasetManagerHandle
  ds_log :: "ds_event list"

type_synonym ('w, 'a) dprog = "('w ds_state, 'a) state"

abbreviation return :: "'a \<Rightarrow> ('w, 'a) dprog" where
  "return \<equiv> State_Monad.return"

definition wcall :: "('w \<Rightarrow> 'a \<times> 'w) \<Rightarrow> ('w, 'a) dprog" where
  "wcall f = State (\<lambda>s. (fst (f (ds_world s)), s\<lparr>ds_world := snd (f (ds_world s))\<rparr>))"

definition get_state :: "('w, 'w ds_state) dprog" where
  "get_state = State (\<lambda>s. (s, s))"

definition get_session :: "('w, MmsDatasetManagerSession) dprog" where
  "get_session = State (\<lambda>s. (dh_session (ds_handle s), s))"

definition change_session :: "(MmsDatasetManagerSession \<Rightarrow> MmsDatasetManagerSession) \<Rightarrow> ('w, unit) dprog" where
  "change_session f = State (\<lambda>s. ((), s\<lparr>ds_handle := (ds_handle s)\<lparr>dh_session := f (dh_session (ds_handle s))\<rparr>\<rparr>))"

definition change_names :: "(string list option \<Rightarrow> string list option) \<Rightarrow> ('w, unit) dprog" where
  "change_names f = State (\<lambda>s. ((), s\<lparr>ds_handle := (ds_handle s)\<lparr>dh_domainScopedDynamicDatasetNames :=
      f (dh_domainScopedDynamicDatasetNames (ds_handle s))\<rparr>\<rparr>))"

definition log_ds :: "ds_event \<Rightarrow> ('w, unit) dprog" where
  "log_ds e = State (\<lambda>s. ((), s\<lparr>ds_log := ds_log s @ [e]\<rparr>))"

definition the_targets :: "MmsDatasetManagerHandle \<Rightarrow> ReportControlBlockTarget list" where
  "the_targets h = (case dh_targets h of None \<Rightarrow> [] | Some ts \<Rightarrow> ts)"

section \<open>Discovery\<close>

text \<open>The data sets of every logical device that has a target without a static data set.\<close>

fun listServerDatasets ::
    "('v, 'w) ds_env \<Rightarrow> ReportControlBlockTarget list \<Rightarrow> string list \<Rightarrow> string list \<Rightarrow> ('w, string list) dprog" where
  "listServerDatasets env [] processedLds existing = return existing"
| "listServerDatasets env (target # targets) processedLds existing =
     (case (rt_datasetReference target, rt_lnReference target) of
        (None, Some ln) \<Rightarrow>
          (case strchr ln (CHR ''/'') of
             None \<Rightarrow> listServerDatasets env targets processedLds existing
           | Some slash \<Rightarrow>
               let ldName = take slash ln
               in if ldName \<in> set processedLds then listServerDatasets env targets processedLds existing
                  else do {
                    mmsNames \<leftarrow> wcall (de_getLogicalDeviceDataSets env ldName);
                    listServerDatasets env targets (processedLds @ [ldName])
                      (existing @ (case mmsNames of
                         None \<Rightarrow> []
                       | Some ns \<Rightarrow> List.map_filter (map_option (\<lambda>n. ldName @ ''/'' @ n)) ns))
                  })
      | _ \<Rightarrow> listServerDatasets env targets processedLds existing)"

definition MmsDatasetManagerDiscovery_findExistingServerDatasets :: "('v, 'w) ds_env \<Rightarrow> ('w, string list) dprog" where
  "MmsDatasetManagerDiscovery_findExistingServerDatasets env = do {
     s \<leftarrow> get_state;
     (case dh_targets (ds_handle s) of
        None \<Rightarrow> return []
      | Some targets \<Rightarrow> do {
          existing \<leftarrow> listServerDatasets env targets [] [];
          return (filter (\<lambda>c. \<not> (\<exists>t \<in> set targets. rt_datasetReference t = Some c)) existing)
        })
   }"

definition claim_name :: "string \<Rightarrow> MmsDatasetManagerSession \<Rightarrow> MmsDatasetManagerSession" where
  "claim_name d se = se\<lparr>se_claimedDatasetNames := se_claimedDatasetNames se @ [d]\<rparr>"

definition wire_members :: "string list \<Rightarrow> string list" where
  "wire_members acsiMembers = List.map_filter (MmsDatasetManagerUseCases_convertAcsiRefToMemberReference True) acsiMembers"

text \<open>Tier 2: the member references of the data set the block carries now.\<close>

definition MmsDatasetManagerDiscovery_pullLiveDataset ::
    "('v, 'w) ds_env \<Rightarrow> ReportControlBlockTarget \<Rightarrow> 'v rcb \<Rightarrow> ('w, string list option) dprog" where
  "MmsDatasetManagerDiscovery_pullLiveDataset env target r =
     (case rcb_datSet r of
        None \<Rightarrow> return None
      | Some liveDataset \<Rightarrow>
          if liveDataset = [] then return None
          else if MmsDatasetManagerNaming_looksLikeOurOwnName True (Some liveDataset) target then return None
          else do {
            acsiMembers \<leftarrow> wcall (de_getDataSetDirectory env liveDataset);
            (case acsiMembers of
               None \<Rightarrow> return None
             | Some ms \<Rightarrow>
                 if ms = [] then return None
                 else if wire_members ms = [] then return None
                 else do {
                   change_session (claim_name liveDataset);
                   return (Some (wire_members ms))
                 })
          })"

text \<open>Every candidate that was tried is claimed, usable or not.\<close>

definition tryAdoptCandidate :: "('v, 'w) ds_env \<Rightarrow> string \<Rightarrow> ('w, string list option) dprog" where
  "tryAdoptCandidate env candidate = do {
     acsiMembers \<leftarrow> wcall (de_getDataSetDirectory env candidate);
     change_session (claim_name candidate);
     (case acsiMembers of
        None \<Rightarrow> return None
      | Some ms \<Rightarrow> return (if wire_members ms = [] then None else Some (wire_members ms)))
   }"

fun adoptScan :: "('v, 'w) ds_env \<Rightarrow> string \<Rightarrow> nat \<Rightarrow> string list \<Rightarrow> ('w, (string \<times> string list) option) dprog" where
  "adoptScan env ln ldLen [] = return None"
| "adoptScan env ln ldLen (candidate # candidates) =
     (if \<not> (strneq candidate ln ldLen \<and> ldLen < length candidate \<and> candidate ! ldLen = CHR ''/'')
      then adoptScan env ln ldLen candidates
      else do {
        se \<leftarrow> get_session;
        if candidate \<in> set (se_claimedDatasetNames se) then adoptScan env ln ldLen candidates
        else do {
          refs \<leftarrow> tryAdoptCandidate env candidate;
          (case refs of Some ms \<Rightarrow> return (Some (candidate, ms)) | None \<Rightarrow> adoptScan env ln ldLen candidates)
        }
      })"

text \<open>The data set a buffered block left behind under its own name.\<close>

definition adoptOwn :: "('v, 'w) ds_env \<Rightarrow> ReportControlBlockTarget \<Rightarrow> ('w, (string \<times> string list) option) dprog" where
  "adoptOwn env target =
     (case (rt_buffered target, rt_objectReference target) of
        (True, Some obj) \<Rightarrow> do {
          ok \<leftarrow> wcall (de_alloc env);
          se \<leftarrow> get_session;
          (case MmsDatasetManagerNaming_buildDatasetName ok obj True of
             None \<Rightarrow> return None
           | Some ownName \<Rightarrow>
               if ownName \<notin> set (se_existingServerDatasets se) \<or> ownName \<in> set (se_claimedDatasetNames se) then return None
               else do {
                 refs \<leftarrow> tryAdoptCandidate env ownName;
                 return (map_option (\<lambda>ms. (ownName, ms)) refs)
               })
        }
      | _ \<Rightarrow> return None)"

text \<open>Tier 3.\<close>

definition MmsDatasetManagerDiscovery_adoptUnclaimedDataset ::
    "('v, 'w) ds_env \<Rightarrow> ReportControlBlockTarget \<Rightarrow> ('w, (string \<times> string list) option) dprog" where
  "MmsDatasetManagerDiscovery_adoptUnclaimedDataset env target =
     (case rt_lnReference target of
        None \<Rightarrow> return None
      | Some ln \<Rightarrow>
          (case strchr ln (CHR ''/'') of
             None \<Rightarrow> return None
           | Some ldLen \<Rightarrow> do {
               own \<leftarrow> adoptOwn env target;
               (case own of
                  Some a \<Rightarrow> return (Some a)
                | None \<Rightarrow> do {
                    se \<leftarrow> get_session;
                    adoptScan env ln ldLen (se_existingServerDatasets se)
                  })
             }))"

section \<open>The claim pass\<close>

definition MmsDatasetManagerProvisioning_findPreResolvedEntry ::
    "MmsDatasetManagerPreResolvedEntry list \<Rightarrow> string option \<Rightarrow> MmsDatasetManagerPreResolvedEntry option" where
  "MmsDatasetManagerProvisioning_findPreResolvedEntry entries rcbReference =
     (case rcbReference of None \<Rightarrow> None | Some r \<Rightarrow> find (\<lambda>e. pe_rcbReference e = Some r) entries)"

text \<open>Every new member reference is added once.\<close>

definition addClaimed :: "string list \<Rightarrow> string list \<Rightarrow> string list" where
  "addClaimed claimedLeaves memberRefs = foldl (\<lambda>cl ref. if ref \<in> set cl then cl else cl @ [ref]) claimedLeaves memberRefs"

text \<open>The data set of one target by tier 2 or 3.\<close>

definition claimOne ::
    "('v, 'w) ds_env \<Rightarrow> ReportControlBlockTarget \<Rightarrow> 'v rcb \<Rightarrow> ('w, (string \<times> MmsDatasetTier \<times> string list) option) dprog" where
  "claimOne env target r = do {
     live \<leftarrow> MmsDatasetManagerDiscovery_pullLiveDataset env target r;
     (case live of
        Some ms \<Rightarrow> return (map_option (\<lambda>d. (d, MMS_DATASET_TIER_LIVE, ms)) (rcb_datSet r))
      | None \<Rightarrow> do {
          adopted \<leftarrow> MmsDatasetManagerDiscovery_adoptUnclaimedDataset env target;
          return (map_option (\<lambda>(d, ms). (d, MMS_DATASET_TIER_ADOPTED, ms)) adopted)
        })
   }"

fun claimLoop :: "('v, 'w) ds_env \<Rightarrow> ReportControlBlockTarget list \<Rightarrow> string list \<Rightarrow> ('w, string list) dprog" where
  "claimLoop env [] claimedLeaves = return claimedLeaves"
| "claimLoop env (target # targets) claimedLeaves =
     (if rt_datasetReference target \<noteq> None then claimLoop env targets claimedLeaves
      else do {
        r \<leftarrow> wcall (de_getRCBValues env (rt_objectReference target));
        (case r of
           None \<Rightarrow> claimLoop env targets claimedLeaves
         | Some rcb \<Rightarrow> do {
             res \<leftarrow> claimOne env target rcb;
             (case res of
                None \<Rightarrow> claimLoop env targets claimedLeaves
              | Some (d, tier, ms) \<Rightarrow> do {
                  ok \<leftarrow> wcall (de_alloc env);
                  if \<not> ok then claimLoop env targets claimedLeaves
                  else do {
                    change_session (\<lambda>se. se\<lparr>se_preResolvedEntries := se_preResolvedEntries se @
                      [\<lparr>pe_rcbReference = rt_objectReference target, pe_datasetReference = d, pe_tier = tier,
                        pe_memberReferences = ms\<rparr>]\<rparr>);
                    claimLoop env targets (addClaimed claimedLeaves ms)
                  }
                })
           })
      })"

definition MmsDatasetManagerProvisioning_runClaimPass :: "('v, 'w) ds_env \<Rightarrow> ('w, string list) dprog" where
  "MmsDatasetManagerProvisioning_runClaimPass env = do {
     change_session (\<lambda>se. se\<lparr>se_preResolvedEntries := []\<rparr>);
     s \<leftarrow> get_state;
     (case dh_targets (ds_handle s) of None \<Rightarrow> return [] | Some targets \<Rightarrow> claimLoop env targets [])
   }"

section \<open>The cluster plan\<close>

definition plan_slots :: "MmsDatasetManagerPreResolvedEntry list \<Rightarrow> ReportControlBlockTarget list \<Rightarrow> ReportControlBlockTarget list" where
  "plan_slots preResolved targets =
     filter (\<lambda>t. rt_datasetReference t = None
               \<and> MmsDatasetManagerProvisioning_findPreResolvedEntry preResolved (rt_objectReference t) = None) targets"

text \<open>One cluster per slot, as long as there are both.\<close>

fun assignClusters :: "plan_allocs \<Rightarrow> nat \<Rightarrow> string list list \<Rightarrow> ReportControlBlockTarget list \<Rightarrow> MmsDatasetManagerChunkAssignment list" where
  "assignClusters ok i (cluster # clusters) (slot # slots) =
     (if pa_members ok i \<and> pa_assignment ok i
      then [\<lparr>ca_rcbReference = rt_objectReference slot, ca_memberReferences = cluster\<rparr>] else [])
     @ assignClusters ok (Suc i) clusters slots"
| "assignClusters ok i _ _ = []"

definition clusters_of :: "('v, 'w) ds_env \<Rightarrow> plan_allocs \<Rightarrow> string list \<Rightarrow> string list list" where
  "clusters_of env ok unclaimedLeaves =
     (let maxAttributes = (if de_confDataSetMaxAttributes env > 0 then de_confDataSetMaxAttributes env
                           else de_dynDataSetMaxAttributes env)
      in if maxAttributes > 0
         then MmsDatasetManagerUseCases_chunkReferencesAcrossWholeDevice (pa_lnKeys ok) (pa_lnLeaves ok) (pa_doKeys ok)
                (map Some unclaimedLeaves) maxAttributes
         else MmsDatasetManagerUseCases_groupReferencesByLn (pa_lnKeys ok) (map Some unclaimedLeaves))"

definition MmsDatasetManagerProvisioning_buildWholeDeviceClusterPlan ::
    "('v, 'w) ds_env \<Rightarrow> plan_allocs \<Rightarrow> ReportControlBlockTarget list option \<Rightarrow> MmsDatasetManagerPreResolvedEntry list
     \<Rightarrow> string list \<Rightarrow> MmsDatasetManagerChunkAssignment list" where
  "MmsDatasetManagerProvisioning_buildWholeDeviceClusterPlan env ok targets preResolved claimedLeaves =
     (case targets of
        None \<Rightarrow> []
      | Some ts \<Rightarrow>
          let slots = plan_slots preResolved ts;
              rawLeaves = (case de_wholeDeviceLeaves env of None \<Rightarrow> [] | Some ls \<Rightarrow> ls)
          in if slots = [] then []
             else if rawLeaves = [] then []
             else if \<not> pa_rawLeaves ok then []
             else
               let unclaimedLeaves = MmsDatasetManagerUseCases_filterOutClaimedLeaves rawLeaves claimedLeaves
               in if unclaimedLeaves = [] then []
                  else if \<not> pa_leaves ok then []
                  else assignClusters ok 0 (clusters_of env ok unclaimedLeaves) slots)"

section \<open>Creating a data set\<close>

definition lookupDatasetName :: "MmsDatasetManagerCacheEntry list \<Rightarrow> string \<Rightarrow> bool \<Rightarrow> string option" where
  "lookupDatasetName cache lnReference buffered =
     map_option ce_datasetName (find (\<lambda>e. ce_buffered e = buffered \<and> ce_lnReference e = lnReference) cache)"

definition MmsDatasetManagerProvisioning_findChunkAssignment ::
    "MmsDatasetManagerSession \<Rightarrow> string option \<Rightarrow> MmsDatasetManagerChunkAssignment option" where
  "MmsDatasetManagerProvisioning_findChunkAssignment session rcbReference =
     (case rcbReference of None \<Rightarrow> None | Some r \<Rightarrow> find (\<lambda>e. ca_rcbReference e = Some r) (se_chunkAssignments session))"

text \<open>The create that is repeated one layer lower to learn its error; a success is deleted.\<close>

definition logGranularCreateDataSetError ::
    "('v, 'w) ds_env \<Rightarrow> string \<Rightarrow> string list \<Rightarrow> bool \<Rightarrow> ('w, unit) dprog" where
  "logGranularCreateDataSetError env datasetName memberReferences buffered =
     (if \<not> de_hasMmsConnection env then return ()
      else
        let wireRefs = MmsDatasetManagerUseCases_buildWireMemberReferences (\<lambda>i. True) (map Some memberReferences);
            attempt = (if buffered then
                (case strchr datasetName (CHR ''/'') of
                   None \<Rightarrow> None
                 | Some slash \<Rightarrow> if slash < 65 then Some (Some (take slash datasetName), drop (Suc slash) datasetName) else None)
              else if datasetName \<noteq> [] \<and> hd datasetName = CHR ''@'' then Some (None, tl datasetName) else None)
        in case attempt of
             None \<Rightarrow> return ()
           | Some (domain, item) \<Rightarrow> do {
               succeeded \<leftarrow> wcall (de_defineNamedVariableList env domain item wireRefs);
               log_ds (De_diagnose datasetName succeeded);
               if succeeded then do {
                 deleted \<leftarrow> wcall (de_deleteDataSet env datasetName);
                 log_ds (De_delete datasetName deleted)
               }
               else return ()
             })"

definition budget_of :: "bool \<Rightarrow> MmsDatasetManagerSession \<Rightarrow> int" where
  "budget_of buffered se = (if buffered then se_remainingConfBudget se else se_remainingDynBudget se)"

definition spend :: "bool \<Rightarrow> MmsDatasetManagerSession \<Rightarrow> MmsDatasetManagerSession" where
  "spend buffered se =
     (if budget_of buffered se > 0 then
        (if buffered then se\<lparr>se_remainingConfBudget := se_remainingConfBudget se - 1\<rparr>
         else se\<lparr>se_remainingDynBudget := se_remainingDynBudget se - 1\<rparr>)
      else se)"

definition exhaustedLogged :: "bool \<Rightarrow> MmsDatasetManagerSession \<Rightarrow> MmsDatasetManagerSession" where
  "exhaustedLogged buffered se =
     (if buffered then se\<lparr>se_confBudgetExhaustedLogged := True\<rparr> else se\<lparr>se_dynBudgetExhaustedLogged := True\<rparr>)"

text \<open>What follows a create the device accepted, or refused because the name exists.\<close>

definition recordCreated :: "('v, 'w) ds_env \<Rightarrow> string \<Rightarrow> string \<Rightarrow> bool \<Rightarrow> bool \<Rightarrow> ('w, string option) dprog" where
  "recordCreated env cacheKey datasetName buffered reusedExisting = do {
     (if reusedExisting then return () else change_session (spend buffered));
     (if buffered then do {
        okList \<leftarrow> wcall (de_alloc env);
        change_names (MmsDatasetManagerNaming_rememberDomainScopedName okList datasetName)
      }
      else return ());
     okNode \<leftarrow> wcall (de_alloc env);
     if \<not> okNode then return None
     else do {
       change_session (\<lambda>se. se\<lparr>se_cache := se_cache se @
         [\<lparr>ce_lnReference = cacheKey, ce_datasetName = datasetName, ce_buffered = buffered\<rparr>]\<rparr>);
       return (Some datasetName)
     }
   }"

definition createAndCacheDatasetAttempt ::
    "('v, 'w) ds_env \<Rightarrow> string \<Rightarrow> string list \<Rightarrow> bool \<Rightarrow> ('w, string option) dprog" where
  "createAndCacheDatasetAttempt env cacheKey memberReferences buffered = do {
     se \<leftarrow> get_session;
     if MmsDatasetManagerUseCases_isDynamicDatasetBudgetExhausted (budget_of buffered se) then do {
       change_session (exhaustedLogged buffered);
       return None
     }
     else
       let wireRefs = MmsDatasetManagerUseCases_buildWireMemberReferences (\<lambda>i. True) (map Some memberReferences)
       in if wireRefs = [] then return None
          else do {
            okName \<leftarrow> wcall (de_alloc env);
            (case MmsDatasetManagerNaming_buildDatasetName okName cacheKey buffered of
               None \<Rightarrow> return None
             | Some datasetName \<Rightarrow> do {
                 err \<leftarrow> wcall (de_createDataSet env datasetName wireRefs);
                 log_ds (De_create buffered datasetName wireRefs err);
                 if err = IED_ERROR_OBJECT_EXISTS \<and> buffered then recordCreated env cacheKey datasetName buffered True
                 else if err \<noteq> IED_ERROR_OK then do {
                   logGranularCreateDataSetError env datasetName memberReferences buffered;
                   return None
                 }
                 else recordCreated env cacheKey datasetName buffered False
               })
          }
   }"

definition createAndCacheDataset :: "('v, 'w) ds_env \<Rightarrow> string \<Rightarrow> string list \<Rightarrow> bool \<Rightarrow> ('w, string option) dprog" where
  "createAndCacheDataset env cacheKey memberReferences buffered = do {
     se \<leftarrow> get_session;
     if \<not> buffered \<and> se_associationSpecificCreateRejected se
     then createAndCacheDatasetAttempt env cacheKey memberReferences True
     else do {
       result \<leftarrow> createAndCacheDatasetAttempt env cacheKey memberReferences buffered;
       if result \<noteq> None \<or> buffered then return result
       else do {
         fallback \<leftarrow> createAndCacheDatasetAttempt env cacheKey memberReferences True;
         (if fallback \<noteq> None then change_session (\<lambda>se. se\<lparr>se_associationSpecificCreateRejected := True\<rparr>) else return ());
         return fallback
       }
     }
   }"

text \<open>Tier 4: the name of the data set and whether one was needed and could not be had.\<close>

definition MmsDatasetManagerProvisioning_getOrCreateDataset ::
    "('v, 'w) ds_env \<Rightarrow> ReportControlBlockTarget \<Rightarrow> ('w, string option \<times> bool) dprog" where
  "MmsDatasetManagerProvisioning_getOrCreateDataset env target = do {
     se \<leftarrow> get_session;
     if \<not> se_active se \<or> rt_lnReference target = None then return (None, True)
     else (case (MmsDatasetManagerProvisioning_findChunkAssignment se (rt_objectReference target), rt_objectReference target) of
             (Some chunk, Some obj) \<Rightarrow>
               (case lookupDatasetName (se_cache se) obj (rt_buffered target) of
                  Some existing \<Rightarrow> return (Some existing, False)
                | None \<Rightarrow> do {
                    created \<leftarrow> createAndCacheDataset env obj (ca_memberReferences chunk) (rt_buffered target);
                    return (created, created = None)
                  })
           | _ \<Rightarrow> return (None, False))
   }"

section \<open>Cleaning up\<close>

text \<open>Disable the block and clear its data set, if it carries the data set \<open>d\<close>.\<close>

definition unbindIf :: "('v, 'w) ds_env \<Rightarrow> string option \<Rightarrow> (string \<Rightarrow> bool) \<Rightarrow> ('w, unit) dprog" where
  "unbindIf env obj p = do {
     r \<leftarrow> wcall (de_getRCBValues env obj);
     (case r of
        None \<Rightarrow> return ()
      | Some rcb \<Rightarrow>
          (case rcb_datSet rcb of
             None \<Rightarrow> return ()
           | Some live \<Rightarrow>
               if p live then do {
                 err \<leftarrow> wcall (de_setRCBValues env obj (rcb\<lparr>rcb_rptEna := False, rcb_datSet := Some []\<rparr>));
                 log_ds (De_unbind obj live err)
               }
               else return ()))
   }"

text \<open>The target whose own name a data set carries.\<close>

fun matchTarget :: "('v, 'w) ds_env \<Rightarrow> string \<Rightarrow> ReportControlBlockTarget list \<Rightarrow> ('w, ReportControlBlockTarget option) dprog" where
  "matchTarget env candidate [] = return None"
| "matchTarget env candidate (target # targets) =
     (case (rt_buffered target, rt_objectReference target) of
        (True, Some obj) \<Rightarrow> do {
          ok \<leftarrow> wcall (de_alloc env);
          if MmsDatasetManagerNaming_buildDatasetName ok obj True = Some candidate then return (Some target)
          else matchTarget env candidate targets
        }
      | _ \<Rightarrow> matchTarget env candidate targets)"

fun orphanLoop :: "('v, 'w) ds_env \<Rightarrow> ReportControlBlockTarget list \<Rightarrow> string list \<Rightarrow> nat \<Rightarrow> ('w, nat) dprog" where
  "orphanLoop env targets [] leaked = return leaked"
| "orphanLoop env targets (candidate # candidates) leaked = do {
     se \<leftarrow> get_session;
     if candidate \<in> set (se_claimedDatasetNames se) then orphanLoop env targets candidates leaked
     else if candidate \<in> ce_datasetName ` set (se_cache se) then orphanLoop env targets candidates leaked
     else do {
       matched \<leftarrow> matchTarget env candidate targets;
       (case matched of
          None \<Rightarrow> orphanLoop env targets candidates leaked
        | Some target \<Rightarrow> do {
            unbindIf env (rt_objectReference target) (\<lambda>live. live = candidate);
            deleted \<leftarrow> wcall (de_deleteDataSet env candidate);
            log_ds (De_delete candidate deleted);
            orphanLoop env targets candidates (if deleted then leaked else leaked + 1)
          })
     }
   }"

definition MmsDatasetManagerProvisioning_cleanupOrphaned :: "('v, 'w) ds_env \<Rightarrow> ('w, nat) dprog" where
  "MmsDatasetManagerProvisioning_cleanupOrphaned env = do {
     s \<leftarrow> get_state;
     (case dh_targets (ds_handle s) of
        None \<Rightarrow> return 0
      | Some targets \<Rightarrow> orphanLoop env targets (se_existingServerDatasets (dh_session (ds_handle s))) 0)
   }"

fun unbindLoop :: "('v, 'w) ds_env \<Rightarrow> string list \<Rightarrow> ReportControlBlockTarget list \<Rightarrow> ('w, unit) dprog" where
  "unbindLoop env names [] = return ()"
| "unbindLoop env names (target # targets) = do {
     unbindIf env (rt_objectReference target) (\<lambda>live. live \<in> set names);
     unbindLoop env names targets
   }"

fun deleteLoop :: "('v, 'w) ds_env \<Rightarrow> string list \<Rightarrow> ('w, unit) dprog" where
  "deleteLoop env [] = return ()"
| "deleteLoop env (name # names) = do {
     deleted \<leftarrow> wcall (de_deleteDataSet env name);
     log_ds (De_delete name deleted);
     deleteLoop env names
   }"

definition MmsDatasetManagerProvisioning_cleanupOnStop :: "('v, 'w) ds_env \<Rightarrow> ('w, unit) dprog" where
  "MmsDatasetManagerProvisioning_cleanupOnStop env = do {
     s \<leftarrow> get_state;
     (case dh_domainScopedDynamicDatasetNames (ds_handle s) of
        None \<Rightarrow> return ()
      | Some names \<Rightarrow> do {
          unbindLoop env names (the_targets (ds_handle s));
          deleteLoop env names;
          change_names (\<lambda>_. None)
        })
   }"

section \<open>The service\<close>

definition MmsDatasetManager_create ::
    "bool \<Rightarrow> bool \<Rightarrow> bool \<Rightarrow> ReportControlBlockTarget list option \<Rightarrow> MmsDatasetManagerHandle option \<times> MmsDatasetManagerError" where
  "MmsDatasetManager_create okHandle iedModel connection targets =
     (if \<not> iedModel \<or> \<not> connection then (None, MMS_DATASET_MANAGER_ERR_INVALID_ARGUMENT)
      else if \<not> okHandle then (None, MMS_DATASET_MANAGER_ERR_OUT_OF_MEMORY)
      else (Some \<lparr>dh_targets = targets, dh_domainScopedDynamicDatasetNames = None, dh_session = no_session\<rparr>,
            MMS_DATASET_MANAGER_OK))"

definition MmsDatasetManager_endCycle :: "('v, 'w) ds_env \<Rightarrow> bool \<Rightarrow> ('w, unit) dprog" where
  "MmsDatasetManager_endCycle env runOrphanCleanup = do {
     se \<leftarrow> get_session;
     if \<not> se_active se then return ()
     else do {
       leaked \<leftarrow> (if runOrphanCleanup then MmsDatasetManagerProvisioning_cleanupOrphaned env else return 0);
       change_session (\<lambda>_. no_session)
     }
   }"

definition openSession :: "('v, 'w) ds_env \<Rightarrow> string list \<Rightarrow> MmsDatasetManagerSession \<Rightarrow> MmsDatasetManagerSession" where
  "openSession env existing se =
     se\<lparr>se_cache := [],
        se_remainingDynBudget := MmsDatasetManagerUseCases_computeInitialDynamicDatasetBudget (de_dynDataSetMax env) 0,
        se_dynBudgetExhaustedLogged := False,
        se_remainingConfBudget :=
          MmsDatasetManagerUseCases_computeInitialDynamicDatasetBudget (de_confDataSetMax env) (int (length existing)),
        se_confBudgetExhaustedLogged := False, se_existingServerDatasets := existing, se_claimedDatasetNames := [],
        se_associationSpecificCreateRejected := False, se_active := True\<rparr>"

definition MmsDatasetManager_beginCycle :: "('v, 'w) ds_env \<Rightarrow> ('w, unit) dprog" where
  "MmsDatasetManager_beginCycle env = do {
     MmsDatasetManager_endCycle env False;
     existing \<leftarrow> MmsDatasetManagerDiscovery_findExistingServerDatasets env;
     change_session (openSession env existing);
     claimedLeaves \<leftarrow> MmsDatasetManagerProvisioning_runClaimPass env;
     s \<leftarrow> get_state;
     change_session (\<lambda>se. se\<lparr>se_chunkAssignments :=
       MmsDatasetManagerProvisioning_buildWholeDeviceClusterPlan env (de_planAllocs env (ds_world s))
         (dh_targets (ds_handle s)) (se_preResolvedEntries se) claimedLeaves\<rparr>)
   }"

definition copyChunkMemberReferences :: "MmsDatasetManagerChunkAssignment option \<Rightarrow> string option list option" where
  "copyChunkMemberReferences chunk = map_option (\<lambda>c. map Some (ca_memberReferences c)) chunk"

definition MmsDatasetManager_resolveForTarget :: "('v, 'w) ds_env \<Rightarrow> ReportControlBlockTarget \<Rightarrow> ('w, MmsDatasetResolution) dprog" where
  "MmsDatasetManager_resolveForTarget env target =
     (case rt_datasetReference target of
        Some d \<Rightarrow> return \<lparr>dr_datasetReference = Some d, dr_tier = MMS_DATASET_TIER_SCL, dr_memberReferences = None, dr_wasNeeded = False\<rparr>
      | None \<Rightarrow> do {
          se \<leftarrow> get_session;
          (case MmsDatasetManagerProvisioning_findPreResolvedEntry (se_preResolvedEntries se) (rt_objectReference target) of
             Some e \<Rightarrow> return \<lparr>dr_datasetReference = Some (pe_datasetReference e), dr_tier = pe_tier e,
                 dr_memberReferences = Some (map Some (pe_memberReferences e)), dr_wasNeeded = False\<rparr>
           | None \<Rightarrow> do {
               (created, wasNeeded) \<leftarrow> MmsDatasetManagerProvisioning_getOrCreateDataset env target;
               se' \<leftarrow> get_session;
               return \<lparr>dr_datasetReference = created, dr_tier = MMS_DATASET_TIER_SELF_CREATED,
                 dr_memberReferences = (if created = None then None
                   else copyChunkMemberReferences (MmsDatasetManagerProvisioning_findChunkAssignment se' (rt_objectReference target))),
                 dr_wasNeeded = wasNeeded\<rparr>
             })
        })"

definition MmsDatasetManager_destroy :: "('v, 'w) ds_env \<Rightarrow> ('w, unit) dprog" where
  "MmsDatasetManager_destroy env = do {
     MmsDatasetManager_endCycle env False;
     change_names (\<lambda>_. None)
   }"

end
