(* ===== verification/Mms_Dataset_Coverage.thy ===== *)
theory Mms_Dataset_Coverage
  imports Mms_Dataset_Session
begin

text \<open>
  What a connect cycle of the data set manager guarantees: which data goes into which data
  set, how many data sets are created, and which may be deleted. The assertions of the
  triples speak of the handle and the log; the world is arbitrary.
\<close>

section \<open>Triples of the manager\<close>

definition on :: "(MmsDatasetManagerHandle \<Rightarrow> ds_event list \<Rightarrow> bool) \<Rightarrow> 'w ds_state \<Rightarrow> bool" where
  "on P s \<longleftrightarrow> P (ds_handle s) (ds_log s)"

lemma triple_wcall: "triple (on P) (wcall f) (\<lambda>_. on P)"
  by (simp add: triple_def wcall_def on_def)

lemma triple_session: "triple (on P) get_session (\<lambda>se. on (\<lambda>h l. P h l \<and> se = dh_session h))"
  by (simp add: triple_def get_session_def on_def)

lemma triple_state: "triple (on P) get_state (\<lambda>s. on (\<lambda>h l. P h l \<and> ds_handle s = h))"
  by (simp add: triple_def get_state_def on_def)

lemma triple_change:
  "(\<And>h l. P h l \<Longrightarrow> Q (h\<lparr>dh_session := f (dh_session h)\<rparr>) l) \<Longrightarrow> triple (on P) (change_session f) (\<lambda>_. on Q)"
  by (simp add: triple_def change_session_def on_def)

lemma triple_names:
  "(\<And>h l. P h l \<Longrightarrow> Q (h\<lparr>dh_domainScopedDynamicDatasetNames := f (dh_domainScopedDynamicDatasetNames h)\<rparr>) l) \<Longrightarrow>
     triple (on P) (change_names f) (\<lambda>_. on Q)"
  by (simp add: triple_def change_names_def on_def)

lemma triple_log: "(\<And>h l. P h l \<Longrightarrow> Q h (l @ [e])) \<Longrightarrow> triple (on P) (log_ds e) (\<lambda>_. on Q)"
  by (simp add: triple_def log_ds_def on_def)

lemma triple_ret: "(\<And>h l. P h l \<Longrightarrow> Q a h l) \<Longrightarrow> triple (on P) (return a) (\<lambda>a. on (Q a))"
  by (rule triple_return) (simp add: on_def)

lemma triple_on_pre: "triple (on P) f Q \<Longrightarrow> (\<And>h l. P' h l \<Longrightarrow> P h l) \<Longrightarrow> triple (on P') f Q"
  by (simp add: triple_def on_def)

lemma triple_on_post: "triple P f (\<lambda>a. on (Q a)) \<Longrightarrow> (\<And>a h l. Q a h l \<Longrightarrow> Q' a h l) \<Longrightarrow> triple P f (\<lambda>a. on (Q' a))"
  by (simp add: triple_def on_def)

text \<open>A premise about the state holds for the rest of the program.\<close>

lemma triple_on_hyp: "(\<And>h l. P h l \<Longrightarrow> b) \<Longrightarrow> (b \<Longrightarrow> triple (on P) f Q) \<Longrightarrow> triple (on P) f Q"
  by (auto simp: triple_def on_def)

section \<open>The claim pass\<close>

text \<open>
  The claim pass changes the claimed names and the resolved entries only; every resolved
  entry has its data set claimed and its members among the covered leaves.
\<close>

definition claim_inv ::
    "MmsDatasetManagerHandle \<Rightarrow> ds_event list \<Rightarrow> string list \<Rightarrow> MmsDatasetManagerHandle \<Rightarrow> ds_event list \<Rightarrow> bool" where
  "claim_inv h0 l0 leaves h l \<longleftrightarrow> l = l0
     \<and> (\<exists>c p. h = h0\<lparr>dh_session := (dh_session h0)\<lparr>se_claimedDatasetNames := c, se_preResolvedEntries := p\<rparr>\<rparr>
          \<and> (\<forall>e \<in> set p. pe_datasetReference e \<in> set c \<and> pe_tier e \<noteq> MMS_DATASET_TIER_SELF_CREATED) \<and> set leaves = (\<Union>e \<in> set p. set (pe_memberReferences e)))"

text \<open>Together with a claimed name.\<close>

abbreviation claimed_too ::
    "MmsDatasetManagerHandle \<Rightarrow> ds_event list \<Rightarrow> string list \<Rightarrow> string \<Rightarrow> MmsDatasetManagerHandle \<Rightarrow> ds_event list \<Rightarrow> bool" where
  "claimed_too h0 l0 leaves d h l \<equiv> claim_inv h0 l0 leaves h l \<and> d \<in> set (se_claimedDatasetNames (dh_session h))"

lemma claim_step: "claim_inv h0 l0 leaves h l \<Longrightarrow> claimed_too h0 l0 leaves d (h\<lparr>dh_session := claim_name d (dh_session h)\<rparr>) l"
proof -
  assume "claim_inv h0 l0 leaves h l"
  then obtain c p where "l = l0" and h: "h = h0\<lparr>dh_session := (dh_session h0)\<lparr>se_claimedDatasetNames := c, se_preResolvedEntries := p\<rparr>\<rparr>"
    and "\<forall>e \<in> set p. pe_datasetReference e \<in> set c \<and> pe_tier e \<noteq> MMS_DATASET_TIER_SELF_CREATED" "set leaves = (\<Union>e \<in> set p. set (pe_memberReferences e))"
    by (auto simp: claim_inv_def)
  then show ?thesis
    unfolding claim_inv_def by (intro conjI exI [of _ "c @ [d]"] exI [of _ p]) (auto simp: claim_name_def)
qed

lemma triple_claim: "triple (on (claim_inv h0 l0 leaves)) (change_session (claim_name d)) (\<lambda>_. on (claimed_too h0 l0 leaves d))"
  by (rule triple_change) (rule claim_step)

lemma pull_claims:
  "triple (on (claim_inv h0 l0 leaves)) (MmsDatasetManagerDiscovery_pullLiveDataset env target r)
     (\<lambda>res. on (\<lambda>h l. claim_inv h0 l0 leaves h l \<and> (res \<noteq> None \<longrightarrow> (\<exists>d. rcb_datSet r = Some d \<and> d \<in> set (se_claimedDatasetNames (dh_session h))))))"
proof (cases "rcb_datSet r")
  case None
  then show ?thesis by (simp add: MmsDatasetManagerDiscovery_pullLiveDataset_def) (rule triple_ret, simp)
next
  case (Some d)
  have rest: "triple (on (claim_inv h0 l0 leaves))
      (case acsi of None \<Rightarrow> return None
       | Some ms \<Rightarrow> if ms = [] then return None else if wire_members ms = [] then return None
           else do { change_session (claim_name d); return (Some (wire_members ms)) })
      (\<lambda>res. on (\<lambda>h l. claim_inv h0 l0 leaves h l \<and> (res \<noteq> None \<longrightarrow> d \<in> set (se_claimedDatasetNames (dh_session h)))))" for acsi
    by (cases acsi)
      (auto intro!: triple_ret triple_if triple_bind [OF triple_claim])
  show ?thesis
    unfolding MmsDatasetManagerDiscovery_pullLiveDataset_def Some option.case
    by (intro triple_if triple_bind [OF triple_wcall]) (rule triple_ret, simp, rule triple_ret, simp, rule triple_on_post [OF rest], simp)
qed

lemma try_claims:
  "triple (on (claim_inv h0 l0 leaves)) (tryAdoptCandidate env c) (\<lambda>res. on (claimed_too h0 l0 leaves c))"
  unfolding tryAdoptCandidate_def
  by (rule triple_bind [OF triple_wcall], rule triple_bind [OF triple_claim])
    (auto split: option.split intro: triple_ret)

text \<open>The result of tier 3, when there is one, is claimed.\<close>

definition adopted ::
    "MmsDatasetManagerHandle \<Rightarrow> ds_event list \<Rightarrow> string list \<Rightarrow> string option \<Rightarrow> MmsDatasetManagerHandle \<Rightarrow> ds_event list \<Rightarrow> bool" where
  "adopted h0 l0 leaves d h l \<longleftrightarrow> claim_inv h0 l0 leaves h l \<and> (case d of None \<Rightarrow> True | Some n \<Rightarrow> n \<in> set (se_claimedDatasetNames (dh_session h)))"

lemma adopted_simps [simp]:
  "adopted h0 l0 leaves None = claim_inv h0 l0 leaves"
  "adopted h0 l0 leaves (Some n) h l \<longleftrightarrow> claimed_too h0 l0 leaves n h l"
  by (simp_all add: adopted_def fun_eq_iff)

lemma adopted_inv: "adopted h0 l0 leaves d h l \<Longrightarrow> claim_inv h0 l0 leaves h l"
  by (simp add: adopted_def)

lemma scan_claims:
  "triple (on (claim_inv h0 l0 leaves)) (adoptScan env ln n cs) (\<lambda>res. on (adopted h0 l0 leaves (map_option fst res)))"
proof (induction cs)
  case Nil
  show ?case by (simp, rule triple_ret, simp)
next
  case (Cons c cs)
  have rest: "triple (on (claimed_too h0 l0 leaves c))
      (case refs of Some ms \<Rightarrow> return (Some (c, ms)) | None \<Rightarrow> adoptScan env ln n cs) (\<lambda>res. on (adopted h0 l0 leaves (map_option fst res)))" for refs
    by (cases refs) (auto intro!: triple_ret triple_on_pre [OF Cons])
  show ?case
    unfolding adoptScan.simps
    by (rule triple_if, rule Cons, rule triple_bind [OF triple_session], rule triple_if, rule triple_on_pre [OF Cons], simp,
        rule triple_bind [OF triple_on_pre [OF try_claims]], simp, rule rest)
qed

lemma own_claims: "triple (on (claim_inv h0 l0 leaves)) (adoptOwn env target) (\<lambda>res. on (adopted h0 l0 leaves (map_option fst res)))"
proof -
  have no: "triple (on P) (return None) (\<lambda>res. on (adopted h0 l0 leaves (map_option fst res)))" if "\<And>h l. P h l \<Longrightarrow> claim_inv h0 l0 leaves h l" for P
    by (rule triple_ret) (use that in simp)
  have tr: "triple (on (claim_inv h0 l0 leaves)) (do { refs \<leftarrow> tryAdoptCandidate env c; return (map_option (\<lambda>ms. (c, ms)) refs) })
      (\<lambda>res. on (adopted h0 l0 leaves (map_option fst res)))" for c
    by (rule triple_bind [OF try_claims], rule triple_ret) (auto simp: adopted_def split: option.split)
  have body: "triple (on (\<lambda>h l. claim_inv h0 l0 leaves h l \<and> se = dh_session h))
      (case name of None \<Rightarrow> return None
       | Some ownName \<Rightarrow> if ownName \<notin> set (se_existingServerDatasets se) \<or> ownName \<in> set (se_claimedDatasetNames se) then return None
           else do { refs \<leftarrow> tryAdoptCandidate env ownName; return (map_option (\<lambda>ms. (ownName, ms)) refs) })
      (\<lambda>res. on (adopted h0 l0 leaves (map_option fst res)))" for se name
    by (cases name) (auto intro: no triple_on_pre [OF tr])
  show ?thesis
    unfolding adoptOwn_def
    by (auto split: prod.split bool.split option.split intro: no triple_bind [OF triple_wcall] triple_bind [OF triple_session] body)
qed

lemma adopt_claims:
  "triple (on (claim_inv h0 l0 leaves)) (MmsDatasetManagerDiscovery_adoptUnclaimedDataset env target) (\<lambda>res. on (adopted h0 l0 leaves (map_option fst res)))"
proof -
  have no: "triple (on (claim_inv h0 l0 leaves)) (return None) (\<lambda>res. on (adopted h0 l0 leaves (map_option fst res)))"
    by (rule triple_ret) simp
  have rest: "triple (on (adopted h0 l0 leaves (map_option fst own)))
      (case own of Some a \<Rightarrow> return (Some a)
       | None \<Rightarrow> do { se \<leftarrow> get_session; adoptScan env ln n (se_existingServerDatasets se) }) (\<lambda>res. on (adopted h0 l0 leaves (map_option fst res)))" for own ln n
    by (cases own) (auto intro!: triple_ret triple_bind [OF triple_session] triple_on_pre [OF scan_claims])
  show ?thesis
    unfolding MmsDatasetManagerDiscovery_adoptUnclaimedDataset_def
    by (auto split: option.split intro: no triple_bind [OF own_claims] rest)
qed

definition claimed_res ::
    "MmsDatasetManagerHandle \<Rightarrow> ds_event list \<Rightarrow> string list \<Rightarrow> (string \<times> MmsDatasetTier \<times> string list) option
     \<Rightarrow> MmsDatasetManagerHandle \<Rightarrow> ds_event list \<Rightarrow> bool" where
  "claimed_res h0 l0 leaves res h l \<longleftrightarrow> adopted h0 l0 leaves (map_option fst res) h l
     \<and> (\<forall>x \<in> set_option res. fst (snd x) \<noteq> MMS_DATASET_TIER_SELF_CREATED)"

lemma one_claims:
  "triple (on (claim_inv h0 l0 leaves)) (claimOne env target r)
     (\<lambda>res. on (claimed_res h0 l0 leaves res))"
proof -
  have rest: "triple (on (\<lambda>h l. claim_inv h0 l0 leaves h l \<and> (live \<noteq> None \<longrightarrow> (\<exists>d. rcb_datSet r = Some d \<and> d \<in> set (se_claimedDatasetNames (dh_session h))))))
      (case live of Some ms \<Rightarrow> return (map_option (\<lambda>d. (d, MMS_DATASET_TIER_LIVE, ms)) (rcb_datSet r))
       | None \<Rightarrow> do { adopted \<leftarrow> MmsDatasetManagerDiscovery_adoptUnclaimedDataset env target;
                    return (map_option (\<lambda>(d, ms). (d, MMS_DATASET_TIER_ADOPTED, ms)) adopted) })
      (\<lambda>res. on (claimed_res h0 l0 leaves res))" for live
  proof (cases live)
    case None
    show ?thesis unfolding None option.case
      by (rule triple_bind [OF triple_on_pre [OF adopt_claims]], simp, rule triple_ret)
        (auto simp: adopted_def claimed_res_def split: option.splits)
  next
    case (Some ms)
    show ?thesis unfolding Some option.case by (rule triple_ret) (auto simp: claimed_res_def)
  qed
  show ?thesis unfolding claimOne_def by (rule triple_bind [OF pull_claims]) (rule rest)
qed

lemma set_addClaimed: "set (addClaimed cl ms) = set cl \<union> set ms"
  unfolding addClaimed_def by (induction ms arbitrary: cl) auto

lemma resolve_step:
  assumes "claimed_too h0 l0 leaves d h l" and "pe_datasetReference e = d" and "pe_memberReferences e = ms"
    and "pe_tier e \<noteq> MMS_DATASET_TIER_SELF_CREATED"
  shows "claim_inv h0 l0 (addClaimed leaves ms)
    (h\<lparr>dh_session := (dh_session h)\<lparr>se_preResolvedEntries := se_preResolvedEntries (dh_session h) @ [e]\<rparr>\<rparr>) l"
proof -
  from assms(1) obtain c p where "l = l0" and h: "h = h0\<lparr>dh_session := (dh_session h0)\<lparr>se_claimedDatasetNames := c, se_preResolvedEntries := p\<rparr>\<rparr>"
    and "\<forall>e \<in> set p. pe_datasetReference e \<in> set c \<and> pe_tier e \<noteq> MMS_DATASET_TIER_SELF_CREATED" "set leaves = (\<Union>e \<in> set p. set (pe_memberReferences e))"
    and "d \<in> set c" by (auto simp: claim_inv_def)
  then show ?thesis
    unfolding claim_inv_def using assms(2-4)
    by (intro conjI exI [of _ c] exI [of _ "p @ [e]"]) (auto simp: set_addClaimed)
qed

lemma loop_claims:
  "triple (on (claim_inv h0 l0 leaves)) (claimLoop env targets leaves) (\<lambda>leaves'. on (claim_inv h0 l0 leaves'))"
proof (induction targets arbitrary: leaves)
  case Nil
  show ?case by (simp, rule triple_ret, simp)
next
  case (Cons target targets)
  have add: "triple (on (\<lambda>h l. claim_inv h0 l0 leaves h l \<and> d \<in> set (se_claimedDatasetNames (dh_session h))))
      (do { change_session (\<lambda>se. se\<lparr>se_preResolvedEntries := se_preResolvedEntries se @
              [\<lparr>pe_rcbReference = rt_objectReference target, pe_datasetReference = d, pe_tier = tier, pe_memberReferences = ms\<rparr>]\<rparr>);
            claimLoop env targets (addClaimed leaves ms) })
      (\<lambda>leaves'. on (claim_inv h0 l0 leaves'))"
    if "tier \<noteq> MMS_DATASET_TIER_SELF_CREATED" for d tier ms
    by (rule triple_bind [OF triple_change], rule_tac [2] Cons) (rule resolve_step, use that in simp_all)
  have fin: "triple (on (claimed_res h0 l0 leaves res))
      (case res of None \<Rightarrow> claimLoop env targets leaves
       | Some (d, tier, ms) \<Rightarrow> do { ok \<leftarrow> wcall (de_alloc env);
           if \<not> ok then claimLoop env targets leaves
           else do { change_session (\<lambda>se. se\<lparr>se_preResolvedEntries := se_preResolvedEntries se @
              [\<lparr>pe_rcbReference = rt_objectReference target, pe_datasetReference = d, pe_tier = tier, pe_memberReferences = ms\<rparr>]\<rparr>);
            claimLoop env targets (addClaimed leaves ms) } })
      (\<lambda>leaves'. on (claim_inv h0 l0 leaves'))" for res
  proof (cases res)
    case None
    show ?thesis unfolding None option.case by (rule triple_on_pre [OF Cons]) (simp add: claimed_res_def)
  next
    case (Some x)
    obtain d tier ms where x: "x = (d, tier, ms)" by (cases x)
    have tier: "tier \<noteq> MMS_DATASET_TIER_SELF_CREATED" if "claimed_res h0 l0 leaves (Some (d, tier, ms)) h l" for h l
      using that by (simp add: claimed_res_def)
    show ?thesis unfolding Some x option.case prod.case
      by (rule triple_bind [OF triple_wcall], rule triple_if, rule triple_on_pre [OF Cons], simp add: claimed_res_def,
          rule triple_on_hyp, erule tier, rule triple_on_pre [OF add], assumption, simp add: claimed_res_def)
  qed
  have read: "triple (on (claim_inv h0 l0 leaves))
      (case r of None \<Rightarrow> claimLoop env targets leaves
       | Some rcb \<Rightarrow> do { res \<leftarrow> claimOne env target rcb; (case res of None \<Rightarrow> claimLoop env targets leaves
           | Some (d, tier, ms) \<Rightarrow> do { ok \<leftarrow> wcall (de_alloc env);
               if \<not> ok then claimLoop env targets leaves
               else do { change_session (\<lambda>se. se\<lparr>se_preResolvedEntries := se_preResolvedEntries se @
                  [\<lparr>pe_rcbReference = rt_objectReference target, pe_datasetReference = d, pe_tier = tier, pe_memberReferences = ms\<rparr>]\<rparr>);
                claimLoop env targets (addClaimed leaves ms) } }) })
      (\<lambda>leaves'. on (claim_inv h0 l0 leaves'))" for r
    by (cases r) (auto intro: Cons triple_bind [OF one_claims] fin)
  show ?case
    unfolding claimLoop.simps by (rule triple_if, rule Cons, rule triple_bind [OF triple_wcall], rule read)
qed

section \<open>An open cycle\<close>

definition no_static :: "MmsDatasetManagerHandle \<Rightarrow> string list \<Rightarrow> bool" where
  "no_static h existing \<longleftrightarrow> (\<forall>t \<in> set (the_targets h). \<forall>d. rt_datasetReference t = Some d \<longrightarrow> d \<notin> set existing)"

text \<open>The session a begun cycle works with.\<close>

definition opened :: "('v, 'w) ds_env \<Rightarrow> MmsDatasetManagerHandle \<Rightarrow> bool" where
  "opened env h \<longleftrightarrow> (let se = dh_session h in
     se_active se \<and> se_cache se = [] \<and> no_static h (se_existingServerDatasets se)
     \<and> se_remainingDynBudget se = MmsDatasetManagerUseCases_computeInitialDynamicDatasetBudget (de_dynDataSetMax env) 0
     \<and> se_remainingConfBudget se = MmsDatasetManagerUseCases_computeInitialDynamicDatasetBudget (de_confDataSetMax env)
         (int (length (se_existingServerDatasets se)))
     \<and> \<not> se_associationSpecificCreateRejected se
     \<and> (\<forall>e \<in> set (se_preResolvedEntries se). pe_datasetReference e \<in> set (se_claimedDatasetNames se) \<and> pe_tier e \<noteq> MMS_DATASET_TIER_SELF_CREATED)
     \<and> (\<exists>w leaves. set leaves = (\<Union>e \<in> set (se_preResolvedEntries se). set (pe_memberReferences e))
          \<and> se_chunkAssignments se = MmsDatasetManagerProvisioning_buildWholeDeviceClusterPlan env (de_planAllocs env w) (dh_targets h)
              (se_preResolvedEntries se) leaves))"

definition same_handle :: "MmsDatasetManagerHandle \<Rightarrow> ds_event list \<Rightarrow> MmsDatasetManagerHandle \<Rightarrow> ds_event list \<Rightarrow> bool" where
  "same_handle h0 l0 h l \<longleftrightarrow> l = l0 \<and> dh_targets h = dh_targets h0
     \<and> dh_domainScopedDynamicDatasetNames h = dh_domainScopedDynamicDatasetNames h0"

lemma same_session [simp]: "same_handle h0 l0 (h\<lparr>dh_session := se\<rparr>) l \<longleftrightarrow> same_handle h0 l0 h l"
  by (simp add: same_handle_def)

lemma list_neutral: "triple (on P) (listServerDatasets env targets processed existing) (\<lambda>_. on P)"
proof (induction targets arbitrary: processed existing)
  case Nil
  show ?case by (simp, rule triple_ret, simp)
next
  case (Cons t targets)
  show ?case by (auto simp: Let_def split: prod.split option.split intro: Cons triple_bind [OF triple_wcall])
qed

lemma find_existing:
  "triple (on P) (MmsDatasetManagerDiscovery_findExistingServerDatasets env) (\<lambda>ex. on (\<lambda>h l. P h l \<and> no_static h ex))"
proof -
  have rest: "triple (on (\<lambda>h l. P h l \<and> ds_handle s = h))
      (case dh_targets (ds_handle s) of None \<Rightarrow> return []
       | Some targets \<Rightarrow> do { existing \<leftarrow> listServerDatasets env targets [] [];
           return (filter (\<lambda>c. \<not> (\<exists>t \<in> set targets. rt_datasetReference t = Some c)) existing) })
      (\<lambda>ex. on (\<lambda>h l. P h l \<and> no_static h ex))" for s :: "'a ds_state"
    by (cases "dh_targets (ds_handle s)")
      (auto intro!: triple_ret triple_bind [OF list_neutral] simp: no_static_def the_targets_def)
  show ?thesis
    unfolding MmsDatasetManagerDiscovery_findExistingServerDatasets_def by (rule triple_bind [OF triple_state]) (rule rest)
qed

lemma end_quiet:
  "triple (on (same_handle h0 l0)) (MmsDatasetManager_endCycle env False) (\<lambda>_. on (same_handle h0 l0))"
proof -
  have close: "triple (on (\<lambda>h l. same_handle h0 l0 h l \<and> se = dh_session h)) (change_session (\<lambda>_. no_session)) (\<lambda>_. on (same_handle h0 l0))" for se
    by (rule triple_change) simp
  have leave: "triple (on (\<lambda>h l. same_handle h0 l0 h l \<and> se = dh_session h)) (return ()) (\<lambda>_. on (same_handle h0 l0))" for se
    by (rule triple_ret) simp
  show ?thesis
    unfolding MmsDatasetManager_endCycle_def
    by (rule triple_bind [OF triple_session]) (use leave close in \<open>auto intro: triple_if\<close>)
qed

lemma begin_opens:
  "triple (on (same_handle h0 l0)) (MmsDatasetManager_beginCycle env) (\<lambda>_. on (\<lambda>h l. same_handle h0 l0 h l \<and> opened env h))"
proof -
  define plan where "plan = (\<lambda>(leaves :: string list) ok (h :: MmsDatasetManagerHandle) (se :: MmsDatasetManagerSession). se\<lparr>se_chunkAssignments :=
       MmsDatasetManagerProvisioning_buildWholeDeviceClusterPlan env ok (dh_targets h) (se_preResolvedEntries se) leaves\<rparr>)"
  have claim: "triple (on (\<lambda>h l. h = h1 \<and> l = l1)) (MmsDatasetManagerProvisioning_runClaimPass env)
      (\<lambda>leaves. on (claim_inv (h1\<lparr>dh_session := (dh_session h1)\<lparr>se_preResolvedEntries := []\<rparr>\<rparr>) l1 leaves))" for h1 l1
  proof -
    let ?h = "h1\<lparr>dh_session := (dh_session h1)\<lparr>se_preResolvedEntries := []\<rparr>\<rparr>"
    have start: "claim_inv ?h l1 [] ?h l1"
      unfolding claim_inv_def
      by (intro conjI exI [of _ "se_claimedDatasetNames (dh_session h1)"] exI [of _ "[]"]) simp_all
    have rest: "triple (on (\<lambda>h l. claim_inv ?h l1 [] h l \<and> ds_handle s = h))
        (case dh_targets (ds_handle s) of None \<Rightarrow> return [] | Some targets \<Rightarrow> claimLoop env targets [])
        (\<lambda>leaves. on (claim_inv ?h l1 leaves))" for s :: "'a ds_state"
      by (cases "dh_targets (ds_handle s)") (auto intro!: triple_ret triple_on_pre [OF loop_claims])
    show ?thesis
      unfolding MmsDatasetManagerProvisioning_runClaimPass_def
      by (rule triple_bind [where R = "\<lambda>_. on (claim_inv ?h l1 [])"], rule triple_change, use start in simp,
          rule triple_bind [OF triple_state], rule rest)
  qed
  have fin: "opened env (h\<lparr>dh_session := plan leaves (de_planAllocs env w) h (dh_session h)\<rparr>) \<and> same_handle h0 l0 h l"
    if c: "claim_inv (h1\<lparr>dh_session := (dh_session h1)\<lparr>se_preResolvedEntries := []\<rparr>\<rparr>) l1 leaves h l"
      and h1: "same_handle h0 l0 h2 l1" "no_static h2 existing" "h1 = h2\<lparr>dh_session := openSession env existing (dh_session h2)\<rparr>"
    for h l leaves w h1 h2 l1 existing
  proof -
    from c obtain c p where h: "l = l1" "h = h1\<lparr>dh_session := (dh_session h1)\<lparr>se_claimedDatasetNames := c, se_preResolvedEntries := p\<rparr>\<rparr>"
      and p: "\<forall>e \<in> set p. pe_datasetReference e \<in> set c \<and> pe_tier e \<noteq> MMS_DATASET_TIER_SELF_CREATED" "set leaves = (\<Union>e \<in> set p. set (pe_memberReferences e))"
      by (auto simp: claim_inv_def)
    show ?thesis
      unfolding opened_def Let_def
      using h1(1,2) p by (auto simp: plan_def h h1(3) openSession_def no_static_def the_targets_def same_handle_def)
  qed
  have open1: "triple (on (\<lambda>h l. h = h2 \<and> l = l2)) (do {
        change_session (openSession env existing);
        claimedLeaves \<leftarrow> MmsDatasetManagerProvisioning_runClaimPass env;
        s \<leftarrow> get_state;
        change_session (plan claimedLeaves (de_planAllocs env (ds_world s)) (ds_handle s))
      }) (\<lambda>_. on (\<lambda>h l. same_handle h0 l0 h l \<and> opened env h))"
    if h2: "same_handle h0 l0 h2 l2" "no_static h2 existing" for h2 l2 existing
  proof -
    define h1 where "h1 = h2\<lparr>dh_session := openSession env existing (dh_session h2)\<rparr>"
    have last: "triple (on (\<lambda>h l. claim_inv (h1\<lparr>dh_session := (dh_session h1)\<lparr>se_preResolvedEntries := []\<rparr>\<rparr>) l2 leaves h l \<and> ds_handle s = h))
        (change_session (plan leaves (de_planAllocs env (ds_world s)) (ds_handle s)))
        (\<lambda>_. on (\<lambda>h l. same_handle h0 l0 h l \<and> opened env h))" for leaves and s :: "'a ds_state"
      by (rule triple_change) (use fin [OF _ h2 h1_def] in \<open>simp add: plan_def\<close>)
    show ?thesis
      by (rule triple_bind [where R = "\<lambda>_. on (\<lambda>h l. h = h1 \<and> l = l2)"], rule triple_change, simp add: h1_def,
          rule triple_bind [OF claim], rule triple_bind [OF triple_state], rule last)
  qed
  have open2: "triple (on (\<lambda>h l. same_handle h0 l0 h l \<and> no_static h existing)) (do {
        change_session (openSession env existing);
        claimedLeaves \<leftarrow> MmsDatasetManagerProvisioning_runClaimPass env;
        s \<leftarrow> get_state;
        change_session (plan claimedLeaves (de_planAllocs env (ds_world s)) (ds_handle s))
      }) (\<lambda>_. on (\<lambda>h l. same_handle h0 l0 h l \<and> opened env h))" for existing
    using open1 [of _ _ existing] by (auto simp: triple_def on_def)
  show ?thesis
    unfolding MmsDatasetManager_beginCycle_def
    by (rule triple_bind [OF end_quiet], rule triple_bind [OF find_existing], rule open2 [unfolded plan_def])
qed

section \<open>The plan covers, and covers once\<close>

lemma byDo_msub: "mset (concat (MmsDatasetManagerUseCases_chunkReferencesByDoGroup ok (map Some g) m)) \<subseteq># mset g"
proof (cases "ok \<and> 0 < m")
  case True
  then have "concat (MmsDatasetManagerUseCases_chunkReferencesByDoGroup ok (map Some g) m) = g"
    using joins_concat [OF byDo_joins [THEN conjunct1], of m "map Some g"] concat_do_runs [of g] by (simp add: do_runs_def)
  then show ?thesis by simp
next
  case False
  then show ?thesis by (auto simp: MmsDatasetManagerUseCases_chunkReferencesByDoGroup_def)
qed

lemma packNodes_msub:
  "mset (concat (packNodes okL okK m i gs chunks cur)) \<subseteq># mset (concat chunks) + mset (case cur of None \<Rightarrow> [] | Some c \<Rightarrow> c) + mset (concat gs)"
proof (induction okL okK m i gs chunks cur rule: packNodes.induct)
  case (1 okL okK m i chunks cur)
  show ?case by (simp split: option.split)
next
  case (2 okL okK m i g gs chunks cur)
  have sub: "mset (concat (if okL i then MmsDatasetManagerUseCases_chunkReferencesByDoGroup (okK i) (map Some g) m else [])) \<subseteq># mset g"
    using byDo_msub by simp
  consider "g = []" | "g \<noteq> []" "int (length g) > m" | "g \<noteq> []" "\<not> int (length g) > m" by blast
  then show ?case
  proof cases
    case 1
    with 2(1) show ?thesis by simp
  next
    case g: 2
    show ?thesis
      using g subset_mset.order_trans [OF 2(2) [OF g refl refl]] sub
      by (auto simp: Let_def split: option.split intro!: subset_mset.add_mono simp del: mset_concat)
  next
    case 3
    with 2(3-) show ?thesis by (cases cur) (auto simp: ac_simps simp del: mset_concat)
  qed
qed

end
