(* ===== verification/Mms_Dataset_Cycle.thy ===== *)
theory Mms_Dataset_Cycle
  imports Mms_Dataset_Coverage
begin

text \<open>
  The rest of a cycle of the data set manager: the resolution of the targets, the budget of
  the device, and the two clean-ups. One invariant describes what resolving may change; it
  carries the create that is not yet accounted for and the name that is not yet tracked.
\<close>

section \<open>What a cycle leaves alone\<close>

definition plan_part :: "MmsDatasetManagerHandle \<Rightarrow> MmsDatasetManagerHandle" where
  "plan_part h = h\<lparr>dh_domainScopedDynamicDatasetNames := None,
     dh_session := (dh_session h)\<lparr>se_cache := [], se_remainingDynBudget := 0, se_dynBudgetExhaustedLogged := False,
       se_remainingConfBudget := 0, se_confBudgetExhaustedLogged := False, se_associationSpecificCreateRejected := False\<rparr>\<rparr>"

text \<open>The creates the device accepted, and the domain-scoped names that exist for the client.\<close>

definition created :: "bool \<Rightarrow> ds_event list \<Rightarrow> nat" where
  "created b l = length (filter (\<lambda>e. case e of De_create b' n refs err \<Rightarrow> b' = b \<and> err = IED_ERROR_OK | _ \<Rightarrow> False) l)"

definition made_name :: "ds_event \<Rightarrow> string option" where
  "made_name e = (case e of
     De_create b n refs err \<Rightarrow> if b \<and> (err = IED_ERROR_OK \<or> err = IED_ERROR_OBJECT_EXISTS) then Some n else None
   | _ \<Rightarrow> None)"

definition made :: "ds_event list \<Rightarrow> string set" where
  "made l = {n. \<exists>e \<in> set l. made_name e = Some n}"

lemma created_snoc: "created b (l @ [e]) = created b l + (case e of De_create b' n refs err \<Rightarrow> if b' = b \<and> err = IED_ERROR_OK then 1 else 0 | _ \<Rightarrow> 0)"
  by (simp add: created_def split: ds_event.split)

lemma made_snoc: "made (l @ [e]) = made l \<union> set_option (made_name e)"
  by (auto simp: made_def)

definition tracked :: "MmsDatasetManagerHandle \<Rightarrow> string set" where
  "tracked h = (case dh_domainScopedDynamicDatasetNames h of None \<Rightarrow> {} | Some ns \<Rightarrow> set ns)"

definition alloc_ok :: "('v, 'w) ds_env \<Rightarrow> bool" where
  "alloc_ok env \<longleftrightarrow> (\<forall>w. fst (de_alloc env w))"

definition budget_kept :: "MmsDatasetManagerHandle \<Rightarrow> ds_event list \<Rightarrow> bool option \<Rightarrow> bool \<Rightarrow> MmsDatasetManagerHandle \<Rightarrow> ds_event list \<Rightarrow> bool" where
  "budget_kept h0 l0 pb b h l \<longleftrightarrow>
     (if budget_of b (dh_session h0) < 0 then budget_of b (dh_session h) < 0
      else 0 \<le> budget_of b (dh_session h) \<and> (pb = Some b \<longrightarrow> budget_of b (dh_session h) \<noteq> 0)
        \<and> int (created b l) + budget_of b (dh_session h)
            = int (created b l0) + budget_of b (dh_session h0) + (if pb = Some b then 1 else 0))"

definition cyc_inv ::
    "bool \<Rightarrow> MmsDatasetManagerHandle \<Rightarrow> ds_event list \<Rightarrow> bool option \<Rightarrow> string option \<Rightarrow> MmsDatasetManagerHandle \<Rightarrow> ds_event list \<Rightarrow> bool" where
  "cyc_inv okA h0 l0 pb pn h l \<longleftrightarrow> plan_part h = plan_part h0 \<and> set (se_cache (dh_session h0)) \<subseteq> set (se_cache (dh_session h))
     \<and> budget_kept h0 l0 pb True h l \<and> budget_kept h0 l0 pb False h l
     \<and> tracked h0 \<subseteq> tracked h \<and> made l0 \<subseteq> made l \<and> tracked h \<subseteq> tracked h0 \<union> made l
     \<and> (okA \<longrightarrow> made l \<subseteq> tracked h \<union> made l0 \<union> set_option pn) \<and> set_option pn \<subseteq> made l"

abbreviation cyc :: "bool \<Rightarrow> MmsDatasetManagerHandle \<Rightarrow> ds_event list \<Rightarrow> MmsDatasetManagerHandle \<Rightarrow> ds_event list \<Rightarrow> bool" where
  "cyc okA h0 l0 \<equiv> cyc_inv okA h0 l0 None None"

lemma plan_part_simps [simp]:
  "plan_part (h\<lparr>dh_domainScopedDynamicDatasetNames := ns\<rparr>) = plan_part h"
  "plan_part (h\<lparr>dh_session := se\<lparr>se_cache := c\<rparr>\<rparr>) = plan_part (h\<lparr>dh_session := se\<rparr>)"
  "plan_part (h\<lparr>dh_session := se\<lparr>se_remainingConfBudget := n\<rparr>\<rparr>) = plan_part (h\<lparr>dh_session := se\<rparr>)"
  "plan_part (h\<lparr>dh_session := se\<lparr>se_remainingDynBudget := n\<rparr>\<rparr>) = plan_part (h\<lparr>dh_session := se\<rparr>)"
  "plan_part (h\<lparr>dh_session := se\<lparr>se_confBudgetExhaustedLogged := x\<rparr>\<rparr>) = plan_part (h\<lparr>dh_session := se\<rparr>)"
  "plan_part (h\<lparr>dh_session := se\<lparr>se_dynBudgetExhaustedLogged := x\<rparr>\<rparr>) = plan_part (h\<lparr>dh_session := se\<rparr>)"
  "plan_part (h\<lparr>dh_session := se\<lparr>se_associationSpecificCreateRejected := x\<rparr>\<rparr>) = plan_part (h\<lparr>dh_session := se\<rparr>)"
  by (simp_all add: plan_part_def)

lemma plan_part_eq:
  assumes "plan_part h = plan_part h0"
  shows "dh_targets h = dh_targets h0" and "se_active (dh_session h) = se_active (dh_session h0)"
    and "se_chunkAssignments (dh_session h) = se_chunkAssignments (dh_session h0)"
    and "se_existingServerDatasets (dh_session h) = se_existingServerDatasets (dh_session h0)"
    and "se_claimedDatasetNames (dh_session h) = se_claimedDatasetNames (dh_session h0)"
    and "se_preResolvedEntries (dh_session h) = se_preResolvedEntries (dh_session h0)"
proof -
  let ?f = "\<lambda>h :: MmsDatasetManagerHandle. dh_session h"
  from assms have s: "dh_session (plan_part h) = dh_session (plan_part h0)" and t: "dh_targets (plan_part h) = dh_targets (plan_part h0)" by simp_all
  from t show "dh_targets h = dh_targets h0" by (simp add: plan_part_def)
  from arg_cong [OF s, of se_active] show "se_active (dh_session h) = se_active (dh_session h0)" by (simp add: plan_part_def)
  from arg_cong [OF s, of se_chunkAssignments] show "se_chunkAssignments (dh_session h) = se_chunkAssignments (dh_session h0)" by (simp add: plan_part_def)
  from arg_cong [OF s, of se_existingServerDatasets] show "se_existingServerDatasets (dh_session h) = se_existingServerDatasets (dh_session h0)" by (simp add: plan_part_def)
  from arg_cong [OF s, of se_claimedDatasetNames] show "se_claimedDatasetNames (dh_session h) = se_claimedDatasetNames (dh_session h0)" by (simp add: plan_part_def)
  from arg_cong [OF s, of se_preResolvedEntries] show "se_preResolvedEntries (dh_session h) = se_preResolvedEntries (dh_session h0)" by (simp add: plan_part_def)
qed

lemma tracked_simps [simp]: "tracked (h\<lparr>dh_session := se\<rparr>) = tracked h"
  by (simp add: tracked_def)

lemma tracked_None: "dh_domainScopedDynamicDatasetNames h = None \<Longrightarrow> tracked h = {}"
  by (simp add: tracked_def)

lemma tracked_remember: "tracked (h\<lparr>dh_domainScopedDynamicDatasetNames :=
     MmsDatasetManagerNaming_rememberDomainScopedName okList n (dh_domainScopedDynamicDatasetNames h)\<rparr>)
   = (if dh_domainScopedDynamicDatasetNames h = None \<and> \<not> okList then {} else insert n (tracked h))"
  by (auto simp: tracked_def MmsDatasetManagerNaming_rememberDomainScopedName_def split: option.splits)

lemma budget_neutral:
  assumes "budget_kept h0 l0 pb b h l" and "budget_of b (dh_session h') = budget_of b (dh_session h)" and "created b l' = created b l"
  shows "budget_kept h0 l0 pb b h' l'"
  using assms by (simp add: budget_kept_def)

lemma budget_frame [simp]:
  "budget_of b (se\<lparr>se_cache := c\<rparr>) = budget_of b se"
  "budget_of b (se\<lparr>se_confBudgetExhaustedLogged := x\<rparr>) = budget_of b se"
  "budget_of b (se\<lparr>se_dynBudgetExhaustedLogged := x\<rparr>) = budget_of b se"
  "budget_of b (se\<lparr>se_associationSpecificCreateRejected := x\<rparr>) = budget_of b se"
  by (simp_all add: budget_of_def)

text \<open>Steps that concern neither the budget nor the names.\<close>

lemma cyc_exhausted: "cyc_inv okA h0 l0 pb pn h l \<Longrightarrow> cyc_inv okA h0 l0 pb pn (h\<lparr>dh_session := exhaustedLogged b (dh_session h)\<rparr>) l"
  by (cases b) (auto simp: cyc_inv_def exhaustedLogged_def elim: budget_neutral)

lemma cyc_rejected: "cyc_inv okA h0 l0 pb pn h l \<Longrightarrow>
    cyc_inv okA h0 l0 pb pn (h\<lparr>dh_session := (dh_session h)\<lparr>se_associationSpecificCreateRejected := True\<rparr>\<rparr>) l"
  by (auto simp: cyc_inv_def elim: budget_neutral)

lemma cyc_cache: "cyc_inv okA h0 l0 pb pn h l \<Longrightarrow>
    cyc_inv okA h0 l0 pb pn (h\<lparr>dh_session := (dh_session h)\<lparr>se_cache := se_cache (dh_session h) @ [e]\<rparr>\<rparr>) l"
  by (auto simp: cyc_inv_def elim: budget_neutral)

lemma cyc_event:
  assumes "cyc_inv okA h0 l0 pb pn h l" and "\<And>b n refs err. e \<noteq> De_create b n refs err"
  shows "cyc_inv okA h0 l0 pb pn h (l @ [e])"
proof -
  from assms(2) have c: "created b (l @ [e]) = created b l" for b by (cases e) (blast, simp_all add: created_snoc)
  from assms(2) have m: "made (l @ [e]) = made l" by (cases e) (blast, simp_all add: made_snoc made_name_def)
  from assms(1) show ?thesis by (auto simp: cyc_inv_def c m elim: budget_neutral)
qed

text \<open>The create, the payment and the tracking.\<close>

lemma cyc_failed:
  assumes "cyc okA h0 l0 h l" and "err \<noteq> IED_ERROR_OK" and "\<not> (b \<and> err = IED_ERROR_OBJECT_EXISTS)"
  shows "cyc okA h0 l0 h (l @ [De_create b n refs err])"
proof -
  from assms have "created b' (l @ [De_create b n refs err]) = created b' l" for b' by (simp add: created_snoc)
  moreover from assms have "made (l @ [De_create b n refs err]) = made l" by (auto simp: made_snoc made_name_def)
  ultimately show ?thesis using assms(1) by (auto simp: cyc_inv_def elim: budget_neutral)
qed

lemma cyc_create:
  assumes "cyc okA h0 l0 h l" and "budget_of b (dh_session h) \<noteq> 0" and "err = IED_ERROR_OK \<or> b \<and> err = IED_ERROR_OBJECT_EXISTS"
  shows "cyc_inv okA h0 l0 (if err = IED_ERROR_OK then Some b else None) (if b then Some n else None) h (l @ [De_create b n refs err])"
proof -
  have k: "budget_kept h0 l0 None b' h l" for b' using assms(1) by (cases b') (simp_all add: cyc_inv_def)
  have "budget_kept h0 l0 (if err = IED_ERROR_OK then Some b else None) b' h (l @ [De_create b n refs err])" for b'
    using k [of b'] assms(2,3) by (auto simp: budget_kept_def created_snoc split: if_splits)
  moreover have "made (l @ [De_create b n refs err]) = made l \<union> (if b then {n} else {})"
    using assms(3) by (auto simp: made_snoc made_name_def)
  ultimately show ?thesis using assms(1) by (auto simp: cyc_inv_def)
qed

lemma cyc_pay:
  assumes "cyc_inv okA h0 l0 (Some b) pn h l"
  shows "cyc_inv okA h0 l0 None pn (h\<lparr>dh_session := spend b (dh_session h)\<rparr>) l"
proof -
  have k: "budget_kept h0 l0 (Some b) b' h l" for b' using assms by (cases b') (simp_all add: cyc_inv_def)
  have "budget_kept h0 l0 None b' (h\<lparr>dh_session := spend b (dh_session h)\<rparr>) l" for b'
    using k [of b'] by (auto simp: budget_kept_def spend_def budget_of_def split: if_splits)
  moreover have "plan_part (h\<lparr>dh_session := spend b (dh_session h)\<rparr>) = plan_part h" "se_cache (spend b (dh_session h)) = se_cache (dh_session h)"
    by (simp_all add: spend_def)
  ultimately show ?thesis using assms by (simp add: cyc_inv_def)
qed

lemma cyc_track:
  assumes "cyc_inv okA h0 l0 pb (Some n) h l" and "okA \<longrightarrow> okList"
  shows "cyc_inv okA h0 l0 pb None (h\<lparr>dh_domainScopedDynamicDatasetNames :=
     MmsDatasetManagerNaming_rememberDomainScopedName okList n (dh_domainScopedDynamicDatasetNames h)\<rparr>) l"
proof -
  have "budget_kept h0 l0 pb b (h\<lparr>dh_domainScopedDynamicDatasetNames :=
     MmsDatasetManagerNaming_rememberDomainScopedName okList n (dh_domainScopedDynamicDatasetNames h)\<rparr>) l" for b
    using assms(1) by (cases b) (auto simp: cyc_inv_def budget_kept_def)
  with assms tracked_None [of h] show ?thesis by (auto simp: cyc_inv_def tracked_remember split: if_splits)
qed

section \<open>Creating\<close>

lemma triple_alloc:
  "triple (on P) (wcall (de_alloc env)) (\<lambda>r. on (\<lambda>h l. P h l \<and> (alloc_ok env \<longrightarrow> r)))"
  by (simp add: triple_def wcall_def on_def alloc_ok_def)

lemma diagnose_cyc:
  "triple (on (cyc okA h0 l0)) (logGranularCreateDataSetError env n refs b) (\<lambda>_. on (cyc okA h0 l0))"
proof -
  have del: "triple (on (cyc okA h0 l0)) (do { deleted \<leftarrow> wcall (de_deleteDataSet env n); log_ds (De_delete n deleted) }) (\<lambda>_. on (cyc okA h0 l0))"
    by (rule triple_bind [OF triple_wcall], rule triple_log) (erule cyc_event, simp)
  have unit: "triple (on (cyc okA h0 l0)) (return ()) (\<lambda>_. on (cyc okA h0 l0))" by (rule triple_ret)
  have ev: "triple (on (cyc okA h0 l0)) (log_ds (De_diagnose n x)) (\<lambda>_. on (cyc okA h0 l0))" for x
    by (rule triple_log) (erule cyc_event, simp)
  have go: "triple (on (cyc okA h0 l0)) (case x of
             None \<Rightarrow> return ()
           | Some (domain, item) \<Rightarrow> do {
               succeeded \<leftarrow> wcall (de_defineNamedVariableList env domain item wire);
               log_ds (De_diagnose n succeeded);
               if succeeded then do { deleted \<leftarrow> wcall (de_deleteDataSet env n); log_ds (De_delete n deleted) }
               else return () }) (\<lambda>_. on (cyc okA h0 l0))" for x wire
    by (cases x) (auto intro!: unit triple_bind [OF triple_wcall] triple_bind [OF ev] del triple_if)
  show ?thesis
    unfolding logGranularCreateDataSetError_def Let_def by (rule triple_if, rule unit, rule go)
qed

text \<open>What is returned is a name of the cache.\<close>

abbreviation cached_result :: "bool \<Rightarrow> MmsDatasetManagerHandle \<Rightarrow> ds_event list \<Rightarrow> string option \<Rightarrow> MmsDatasetManagerHandle \<Rightarrow> ds_event list \<Rightarrow> bool" where
  "cached_result okA h0 l0 res h l \<equiv> cyc okA h0 l0 h l \<and> set_option res \<subseteq> ce_datasetName ` set (se_cache (dh_session h))"

lemma record_cyc:
  "triple (on (cyc_inv (alloc_ok env) h0 l0 (if reused then None else Some b) (if b then Some n else None)))
     (recordCreated env key n b reused) (\<lambda>res. on (cached_result (alloc_ok env) h0 l0 res))"
proof -
  let ?A = "alloc_ok env"
  have pay: "triple (on (cyc_inv ?A h0 l0 (if reused then None else Some b) pn))
      (if reused then return () else change_session (spend b)) (\<lambda>_. on (cyc_inv ?A h0 l0 None pn))" for pn
    by (cases reused) (auto intro: triple_ret triple_change cyc_pay)
  have track: "triple (on (cyc_inv ?A h0 l0 None (if b then Some n else None)))
      (if b then do { okList \<leftarrow> wcall (de_alloc env); change_names (MmsDatasetManagerNaming_rememberDomainScopedName okList n) } else return ())
      (\<lambda>_. on (cyc ?A h0 l0))"
    by (cases b) (auto intro!: triple_ret triple_bind [OF triple_alloc] triple_names cyc_track)
  have node: "triple (on (cyc ?A h0 l0)) (do { change_session (\<lambda>se. se\<lparr>se_cache := se_cache se @ [e]\<rparr>); return (Some (ce_datasetName e)) })
      (\<lambda>res. on (cached_result ?A h0 l0 res))" for e
    by (rule triple_bind [where R = "\<lambda>_. on (\<lambda>h l. cyc ?A h0 l0 h l \<and> e \<in> set (se_cache (dh_session h)))"], rule triple_change,
        rule conjI, erule cyc_cache, simp, rule triple_ret) auto
  have none: "triple (on (cyc ?A h0 l0)) (return None) (\<lambda>res. on (cached_result ?A h0 l0 res))" by (rule triple_ret) simp
  show ?thesis
    unfolding recordCreated_def
    by (rule triple_bind [OF pay], rule triple_bind [OF track], rule triple_bind [OF triple_wcall], rule triple_if,
        rule none, rule node [of "\<lparr>ce_lnReference = key, ce_datasetName = n, ce_buffered = b\<rparr>", simplified])
qed

lemma attempt_cyc:
  "triple (on (cyc (alloc_ok env) h0 l0)) (createAndCacheDatasetAttempt env key refs b) (\<lambda>res. on (cached_result (alloc_ok env) h0 l0 res))"
proof -
  let ?A = "alloc_ok env"
  have none: "triple (on (cyc ?A h0 l0)) (return None) (\<lambda>res. on (cached_result ?A h0 l0 res))" by (rule triple_ret) simp
  have made: "triple (on (\<lambda>h l. cyc ?A h0 l0 h l \<and> budget_of b (dh_session h) \<noteq> 0)) (do {
        log_ds (De_create b n wire err);
        if err = IED_ERROR_OBJECT_EXISTS \<and> b then recordCreated env key n b True
        else if err \<noteq> IED_ERROR_OK then do { logGranularCreateDataSetError env n refs b; return None }
        else recordCreated env key n b False }) (\<lambda>res. on (cached_result ?A h0 l0 res))" for n wire err
  proof -
    consider "err = IED_ERROR_OK" | "err = IED_ERROR_OBJECT_EXISTS" b | "err \<noteq> IED_ERROR_OK" "\<not> (b \<and> err = IED_ERROR_OBJECT_EXISTS)" by blast
    then show ?thesis
    proof cases
      case 1
      have "triple (on (\<lambda>h l. cyc ?A h0 l0 h l \<and> budget_of b (dh_session h) \<noteq> 0)) (log_ds (De_create b n wire err))
          (\<lambda>_. on (cyc_inv ?A h0 l0 (Some b) (if b then Some n else None)))"
        by (rule triple_log) (use cyc_create [of ?A h0 l0 _ _ b err] 1 in simp)
      from triple_bind [OF this record_cyc [where reused = False, simplified]] 1 show ?thesis by simp
    next
      case 2
      have "triple (on (\<lambda>h l. cyc ?A h0 l0 h l \<and> budget_of b (dh_session h) \<noteq> 0)) (log_ds (De_create b n wire err))
          (\<lambda>_. on (cyc_inv ?A h0 l0 None (if b then Some n else None)))"
        by (rule triple_log) (use cyc_create [of ?A h0 l0 _ _ b err] 2 in simp)
      from triple_bind [OF this record_cyc [where reused = True, simplified]] 2 show ?thesis by simp
    next
      case 3
      have "triple (on (\<lambda>h l. cyc ?A h0 l0 h l \<and> budget_of b (dh_session h) \<noteq> 0)) (log_ds (De_create b n wire err)) (\<lambda>_. on (cyc ?A h0 l0))"
        by (rule triple_log) (use cyc_failed 3 in blast)
      from triple_bind [OF this triple_bind [OF diagnose_cyc none]] 3 show ?thesis by auto
    qed
  qed
  have ask: "triple (on (\<lambda>h l. cyc ?A h0 l0 h l \<and> budget_of b (dh_session h) \<noteq> 0)) (do {
        okName \<leftarrow> wcall (de_alloc env);
        (case MmsDatasetManagerNaming_buildDatasetName okName key b of
           None \<Rightarrow> return None
         | Some n \<Rightarrow> do {
             err \<leftarrow> wcall (de_createDataSet env n wire);
             log_ds (De_create b n wire err);
             if err = IED_ERROR_OBJECT_EXISTS \<and> b then recordCreated env key n b True
             else if err \<noteq> IED_ERROR_OK then do { logGranularCreateDataSetError env n refs b; return None }
             else recordCreated env key n b False })
      }) (\<lambda>res. on (cached_result ?A h0 l0 res))" for wire
    by (rule triple_bind [OF triple_wcall])
      (auto split: option.split intro: triple_on_pre [OF none] triple_bind [OF triple_wcall] made)
  have exhausted: "triple (on (cyc ?A h0 l0)) (do { change_session (exhaustedLogged b); return None }) (\<lambda>res. on (cached_result ?A h0 l0 res))"
    by (rule triple_bind [OF triple_change none]) (erule cyc_exhausted)
  show ?thesis
    unfolding createAndCacheDatasetAttempt_def Let_def
    by (rule triple_bind [OF triple_session], rule triple_if, rule triple_on_pre [OF exhausted], simp, rule triple_if,
        rule triple_on_pre [OF none], simp, rule triple_on_pre [OF ask])
      (auto simp: MmsDatasetManagerUseCases_isDynamicDatasetBudgetExhausted_def)
qed

lemma create_cyc:
  "triple (on (cyc (alloc_ok env) h0 l0)) (createAndCacheDataset env key refs b) (\<lambda>res. on (cached_result (alloc_ok env) h0 l0 res))"
proof -
  let ?A = "alloc_ok env"
  have latch: "triple (on (cached_result ?A h0 l0 res)) (do {
        (if res \<noteq> None then change_session (\<lambda>se. se\<lparr>se_associationSpecificCreateRejected := True\<rparr>) else return ());
        return res }) (\<lambda>res. on (cached_result ?A h0 l0 res))" for res
    by (rule triple_bind [where R = "\<lambda>_. on (cached_result ?A h0 l0 res)"])
      (auto intro: triple_ret triple_change cyc_rejected)
  have fallback: "triple (on (cached_result ?A h0 l0 res)) (do {
        fallback \<leftarrow> createAndCacheDatasetAttempt env key refs True;
        (if fallback \<noteq> None then change_session (\<lambda>se. se\<lparr>se_associationSpecificCreateRejected := True\<rparr>) else return ());
        return fallback }) (\<lambda>res. on (cached_result ?A h0 l0 res))" for res
    by (rule triple_bind [OF triple_on_pre [OF attempt_cyc] latch]) simp
  show ?thesis
    unfolding createAndCacheDataset_def
    by (rule triple_bind [OF triple_session], rule triple_if, rule triple_on_pre [OF attempt_cyc], simp,
        rule triple_bind [OF triple_on_pre [OF attempt_cyc]], simp, rule triple_if, rule triple_ret, simp, rule fallback)
qed

section \<open>Resolving the targets\<close>

text \<open>What a resolution is, given the plan of the cycle and the names created so far.\<close>

definition resolved_by :: "MmsDatasetManagerHandle \<Rightarrow> ReportControlBlockTarget \<Rightarrow> MmsDatasetResolution \<Rightarrow> MmsDatasetManagerHandle \<Rightarrow> bool" where
  "resolved_by h0 t res h \<longleftrightarrow>
     (case rt_datasetReference t of
        Some d \<Rightarrow> dr_tier res = MMS_DATASET_TIER_SCL \<and> dr_datasetReference res = Some d \<and> dr_memberReferences res = None
      | None \<Rightarrow>
          (case MmsDatasetManagerProvisioning_findPreResolvedEntry (se_preResolvedEntries (dh_session h0)) (rt_objectReference t) of
             Some e \<Rightarrow> dr_tier res = pe_tier e \<and> dr_datasetReference res = Some (pe_datasetReference e)
               \<and> dr_memberReferences res = Some (map Some (pe_memberReferences e))
           | None \<Rightarrow> dr_tier res = MMS_DATASET_TIER_SELF_CREATED
               \<and> set_option (dr_datasetReference res) \<subseteq> ce_datasetName ` set (se_cache (dh_session h))
               \<and> (case dr_datasetReference res of
                    None \<Rightarrow> dr_memberReferences res = None
                      \<and> (dr_wasNeeded res \<longleftrightarrow> \<not> se_active (dh_session h0) \<or> rt_lnReference t = None
                           \<or> MmsDatasetManagerProvisioning_findChunkAssignment (dh_session h0) (rt_objectReference t) \<noteq> None)
                  | Some d \<Rightarrow> \<exists>a. MmsDatasetManagerProvisioning_findChunkAssignment (dh_session h0) (rt_objectReference t) = Some a
                      \<and> dr_memberReferences res = Some (map Some (ca_memberReferences a)) \<and> \<not> dr_wasNeeded res)))"

lemma cyc_part: "cyc_inv okA h0 l0 pb pn h l \<Longrightarrow> plan_part h = plan_part h0"
  by (simp add: cyc_inv_def)

lemma find_chunk_part: "cyc_inv okA h0 l0 pb pn h l \<Longrightarrow>
    MmsDatasetManagerProvisioning_findChunkAssignment (dh_session h) obj = MmsDatasetManagerProvisioning_findChunkAssignment (dh_session h0) obj"
  by (drule plan_part_eq(3) [OF cyc_part]) (cases obj, simp_all add: MmsDatasetManagerProvisioning_findChunkAssignment_def)

lemma find_chunk_obj: "MmsDatasetManagerProvisioning_findChunkAssignment se obj = Some a \<Longrightarrow> \<exists>r. obj = Some r"
  by (cases obj) (simp_all add: MmsDatasetManagerProvisioning_findChunkAssignment_def)

lemma lookup_cached: "lookupDatasetName cache obj b = Some n \<Longrightarrow> n \<in> ce_datasetName ` set cache"
  by (auto simp: lookupDatasetName_def find_Some_iff)

text \<open>Tier 4: the result and what \<open>outWasNeeded\<close> says.\<close>

definition tier4 :: "MmsDatasetManagerHandle \<Rightarrow> ReportControlBlockTarget \<Rightarrow> string option \<times> bool \<Rightarrow> bool" where
  "tier4 h0 t res \<longleftrightarrow>
     (let chunk = MmsDatasetManagerProvisioning_findChunkAssignment (dh_session h0) (rt_objectReference t)
      in case fst res of
           None \<Rightarrow> snd res \<longleftrightarrow> \<not> se_active (dh_session h0) \<or> rt_lnReference t = None \<or> chunk \<noteq> None
         | Some d \<Rightarrow> chunk \<noteq> None \<and> \<not> snd res)"

lemma get_cyc:
  "triple (on (cyc (alloc_ok env) h0 l0)) (MmsDatasetManagerProvisioning_getOrCreateDataset env t)
     (\<lambda>res. on (\<lambda>h l. cached_result (alloc_ok env) h0 l0 (fst res) h l \<and> tier4 h0 t res))"
proof -
  let ?A = "alloc_ok env" and ?chunk = "\<lambda>se. MmsDatasetManagerProvisioning_findChunkAssignment se (rt_objectReference t)"
  let ?go = "\<lambda>se. (if \<not> se_active se \<or> rt_lnReference t = None then return (None, True)
     else (case (?chunk se, rt_objectReference t) of
             (Some chunk, Some obj) \<Rightarrow>
               (case lookupDatasetName (se_cache se) obj (rt_buffered t) of
                  Some existing \<Rightarrow> return (Some existing, False)
                | None \<Rightarrow> do {
                    created \<leftarrow> createAndCacheDataset env obj (ca_memberReferences chunk) (rt_buffered t);
                    return (created, created = None)
                  })
           | _ \<Rightarrow> return (None, False)))"
  have body: "triple (on (\<lambda>h l. cyc ?A h0 l0 h l \<and> se = dh_session h)) (?go se)
      (\<lambda>res. on (\<lambda>h l. cached_result ?A h0 l0 (fst res) h l \<and> tier4 h0 t res))"
    if part: "se_active se = se_active (dh_session h0)" "?chunk se = ?chunk (dh_session h0)" for se
  proof -
    have simple: "triple (on (\<lambda>h l. cyc ?A h0 l0 h l \<and> se = dh_session h)) (return res)
        (\<lambda>res. on (\<lambda>h l. cached_result ?A h0 l0 (fst res) h l \<and> tier4 h0 t res))"
      if "tier4 h0 t res" "set_option (fst res) \<subseteq> ce_datasetName ` set (se_cache se)" for res
      by (rule triple_ret) (use that in auto)
    show ?thesis
    proof (cases "\<not> se_active se \<or> rt_lnReference t = None")
      case True
      have "tier4 h0 t (None, True)" using True part by (auto simp: tier4_def)
      from simple [OF this] True show ?thesis by simp
    next
      case act0: False
      then obtain y where act: "se_active se" "rt_lnReference t = Some y" by auto
      show ?thesis
      proof (cases "?chunk se")
        case None
        have "tier4 h0 t (None, False)" using act None part by (auto simp: tier4_def)
        from simple [OF this] act None show ?thesis by simp
      next
        case (Some chunk)
        with find_chunk_obj obtain obj where obj: "rt_objectReference t = Some obj" by blast
        show ?thesis
        proof (cases "lookupDatasetName (se_cache se) obj (rt_buffered t)")
          case (Some d)
          have "tier4 h0 t (Some d, False)" using \<open>?chunk se = Some chunk\<close> part by (simp add: tier4_def)
          from simple [OF this] lookup_cached [OF Some] act \<open>?chunk se = Some chunk\<close> obj Some show ?thesis by simp
        next
          case None
          have "triple (on (\<lambda>h l. cyc ?A h0 l0 h l \<and> se = dh_session h)) (do {
                created \<leftarrow> createAndCacheDataset env obj (ca_memberReferences chunk) (rt_buffered t);
                return (created, created = None) })
              (\<lambda>res. on (\<lambda>h l. cached_result ?A h0 l0 (fst res) h l \<and> tier4 h0 t res))"
            by (rule triple_bind [OF triple_on_pre [OF create_cyc]], erule conjunct1, rule triple_ret)
              (use \<open>?chunk se = Some chunk\<close> part in \<open>auto simp: tier4_def split: option.split\<close>)
          with act \<open>?chunk se = Some chunk\<close> obj None show ?thesis by simp
        qed
      qed
    qed
  qed
  show ?thesis
    unfolding MmsDatasetManagerProvisioning_getOrCreateDataset_def
  proof (rule triple_bind [OF triple_session])
    fix se
    show "triple (on (\<lambda>h l. cyc ?A h0 l0 h l \<and> se = dh_session h)) (?go se)
        (\<lambda>res. on (\<lambda>h l. cached_result ?A h0 l0 (fst res) h l \<and> tier4 h0 t res))"
      by (rule triple_on_hyp [where b = "se_active se = se_active (dh_session h0) \<and> ?chunk se = ?chunk (dh_session h0)"])
        (use plan_part_eq(2) [OF cyc_part] find_chunk_part body in \<open>blast | metis\<close>)+
  qed
qed

lemma resolved_scl: "rt_datasetReference t = Some d \<Longrightarrow>
    resolved_by h0 t \<lparr>dr_datasetReference = Some d, dr_tier = MMS_DATASET_TIER_SCL, dr_memberReferences = None, dr_wasNeeded = False\<rparr> h"
  by (simp add: resolved_by_def)

lemma resolve_cyc:
  "triple (on (cyc (alloc_ok env) h0 l0)) (MmsDatasetManager_resolveForTarget env t)
     (\<lambda>res. on (\<lambda>h l. cyc (alloc_ok env) h0 l0 h l \<and> resolved_by h0 t res h))"
proof (cases "rt_datasetReference t")
  case (Some d)
  show ?thesis
    unfolding MmsDatasetManager_resolveForTarget_def Some option.case
    by (rule triple_ret) (simp add: resolved_by_def Some)
next
  case static: None
  let ?A = "alloc_ok env" and ?obj = "rt_objectReference t"
  let ?find = "\<lambda>se. MmsDatasetManagerProvisioning_findPreResolvedEntry (se_preResolvedEntries se) ?obj"
  let ?res = "\<lambda>created wasNeeded se'. \<lparr>dr_datasetReference = created, dr_tier = MMS_DATASET_TIER_SELF_CREATED,
       dr_memberReferences = (if created = None then None
         else copyChunkMemberReferences (MmsDatasetManagerProvisioning_findChunkAssignment se' ?obj)), dr_wasNeeded = wasNeeded\<rparr>"
  have own: "resolved_by h0 t (?res cr wn (dh_session h)) h"
    if "cached_result ?A h0 l0 cr h l" "tier4 h0 t (cr, wn)" "?find (dh_session h0) = None" for cr wn h l
    using that find_chunk_part [of ?A h0 l0 None None h l ?obj]
    by (cases cr) (auto simp: resolved_by_def static tier4_def copyChunkMemberReferences_def Let_def)
  have after: "triple (on (\<lambda>h l. cached_result ?A h0 l0 (fst x) h l \<and> tier4 h0 t x))
      (case x of (cr, wn) \<Rightarrow> do { se' \<leftarrow> get_session; return (?res cr wn se') })
      (\<lambda>res. on (\<lambda>h l. cyc ?A h0 l0 h l \<and> resolved_by h0 t res h))" if "?find (dh_session h0) = None" for x
  proof (cases x)
    case (Pair cr wn)
    show ?thesis
      unfolding Pair prod.case
    proof (rule triple_bind [OF triple_session], rule triple_ret)
      fix se h l
      assume a: "(cached_result ?A h0 l0 (fst (cr, wn)) h l \<and> tier4 h0 t (cr, wn)) \<and> se = dh_session h"
      then have c: "cached_result ?A h0 l0 cr h l" "tier4 h0 t (cr, wn)" by simp_all
      then have "resolved_by h0 t (?res cr wn (dh_session h)) h" by (rule own [OF _ _ that])
      moreover from a have "se = dh_session h" "cyc ?A h0 l0 h l" by simp_all
      ultimately show "cyc ?A h0 l0 h l \<and> resolved_by h0 t (?res cr wn se) h" by blast
    qed
  qed
  let ?go = "\<lambda>se. (case ?find se of
             Some e \<Rightarrow> return \<lparr>dr_datasetReference = Some (pe_datasetReference e), dr_tier = pe_tier e,
                 dr_memberReferences = Some (map Some (pe_memberReferences e)), dr_wasNeeded = False\<rparr>
           | None \<Rightarrow> do {
               (created, wasNeeded) \<leftarrow> MmsDatasetManagerProvisioning_getOrCreateDataset env t;
               se' \<leftarrow> get_session;
               return (?res created wasNeeded se')
             })"
  have body: "triple (on (\<lambda>h l. cyc ?A h0 l0 h l \<and> se = dh_session h)) (?go se)
      (\<lambda>res. on (\<lambda>h l. cyc ?A h0 l0 h l \<and> resolved_by h0 t res h))" if f: "?find se = ?find (dh_session h0)" for se
  proof (cases "?find se")
    case None
    have "triple (on (\<lambda>h l. cyc ?A h0 l0 h l \<and> se = dh_session h)) (do {
               x \<leftarrow> MmsDatasetManagerProvisioning_getOrCreateDataset env t;
               (case x of (cr, wn) \<Rightarrow> do { se' \<leftarrow> get_session; return (?res cr wn se') }) })
        (\<lambda>res. on (\<lambda>h l. cyc ?A h0 l0 h l \<and> resolved_by h0 t res h))"
      by (rule triple_bind [OF triple_on_pre [OF get_cyc]], erule conjunct1, rule after) (use None f in simp)
    with None show ?thesis by simp
  next
    case (Some e)
    show ?thesis unfolding Some option.case
      by (rule triple_ret) (simp add: resolved_by_def static f [symmetric, unfolded Some])
  qed
  show ?thesis
    unfolding MmsDatasetManager_resolveForTarget_def static option.case
  proof (rule triple_bind [OF triple_session])
    fix se
    show "triple (on (\<lambda>h l. cyc ?A h0 l0 h l \<and> se = dh_session h)) (?go se)
        (\<lambda>res. on (\<lambda>h l. cyc ?A h0 l0 h l \<and> resolved_by h0 t res h))"
      by (rule triple_on_hyp [where b = "?find se = ?find (dh_session h0)"], elim conjE, drule plan_part_eq(6) [OF cyc_part], simp,
          rule body)
  qed
qed

section \<open>A cycle\<close>

fun resolveAll :: "('v, 'w) ds_env \<Rightarrow> ReportControlBlockTarget list \<Rightarrow> ('w, MmsDatasetResolution list) dprog" where
  "resolveAll env [] = return []"
| "resolveAll env (t # ts) = do {
     r \<leftarrow> MmsDatasetManager_resolveForTarget env t;
     rs \<leftarrow> resolveAll env ts;
     return (r # rs)
   }"

lemma cyc_refl: "cyc okA h l h l"
  by (simp add: cyc_inv_def budget_kept_def)

lemma resolve_run:
  assumes "cyc (alloc_ok env) h0 l0 (ds_handle s) (ds_log s)"
    and "run_state (MmsDatasetManager_resolveForTarget env t) s = (res, s')"
  shows "cyc (alloc_ok env) h0 l0 (ds_handle s') (ds_log s') \<and> resolved_by h0 t res (ds_handle s')
    \<and> set (se_cache (dh_session (ds_handle s))) \<subseteq> set (se_cache (dh_session (ds_handle s')))"
proof -
  from triple_run [OF resolve_cyc [of env h0 l0 t] _ assms(2)] assms(1)
  have 1: "cyc (alloc_ok env) h0 l0 (ds_handle s') (ds_log s') \<and> resolved_by h0 t res (ds_handle s')" by (simp add: on_def)
  from triple_run [OF resolve_cyc [of env "ds_handle s" "ds_log s" t] _ assms(2)] cyc_refl
  have "cyc (alloc_ok env) (ds_handle s) (ds_log s) (ds_handle s') (ds_log s')" by (simp add: on_def)
  with 1 show ?thesis by (simp add: cyc_inv_def)
qed

lemma resolved_mono:
  assumes "resolved_by h0 t res h" and "set (se_cache (dh_session h)) \<subseteq> set (se_cache (dh_session h'))"
  shows "resolved_by h0 t res h'"
proof -
  have "X \<subseteq> ce_datasetName ` set (se_cache (dh_session h')) " if "X \<subseteq> ce_datasetName ` set (se_cache (dh_session h))" for X
    using that assms(2) by blast
  with assms(1) show ?thesis
    unfolding resolved_by_def by (cases "rt_datasetReference t"; cases "MmsDatasetManagerProvisioning_findPreResolvedEntry (se_preResolvedEntries (dh_session h0)) (rt_objectReference t)") simp_all
qed

lemma resolveAll_run:
  "cyc (alloc_ok env) h0 l0 (ds_handle s) (ds_log s) \<Longrightarrow> run_state (resolveAll env ts) s = (rs, s') \<Longrightarrow>
     cyc (alloc_ok env) h0 l0 (ds_handle s') (ds_log s') \<and> list_all2 (\<lambda>t res. resolved_by h0 t res (ds_handle s')) ts rs
     \<and> set (se_cache (dh_session (ds_handle s))) \<subseteq> set (se_cache (dh_session (ds_handle s')))"
proof (induction ts arbitrary: s rs s')
  case (Cons t ts)
  obtain r s1 where 1: "run_state (MmsDatasetManager_resolveForTarget env t) s = (r, s1)" by fastforce
  obtain rs' s2 where 2: "run_state (resolveAll env ts) s1 = (rs', s2)" by fastforce
  from Cons.prems(2) have eq: "rs = r # rs'" "s' = s2" by (simp_all add: 1 2)
  from resolve_run [OF Cons.prems(1) 1] Cons.IH [OF _ 2] resolved_mono show ?case unfolding eq by auto
qed simp

lemma begin_run:
  assumes "run_state (MmsDatasetManager_beginCycle env) s = (u, s')"
  shows "opened env (ds_handle s') \<and> same_handle (ds_handle s) (ds_log s) (ds_handle s') (ds_log s')"
  using triple_run [OF begin_opens [of "ds_handle s" "ds_log s" env] _ assms] by (simp add: on_def same_handle_def)

text \<open>A cycle up to its end: the resolutions and the state.\<close>

definition connectCycle :: "('v, 'w) ds_env \<Rightarrow> ReportControlBlockTarget list \<Rightarrow> ('w, MmsDatasetResolution list) dprog" where
  "connectCycle env ts = do { MmsDatasetManager_beginCycle env; resolveAll env ts }"

lemma cycle_run:
  assumes "run_state (connectCycle env ts) s = (rs, s')"
  shows "\<exists>h1. opened env h1 \<and> same_handle (ds_handle s) (ds_log s) h1 (ds_log s)
    \<and> cyc (alloc_ok env) h1 (ds_log s) (ds_handle s') (ds_log s') \<and> list_all2 (\<lambda>t res. resolved_by h1 t res (ds_handle s')) ts rs"
proof -
  obtain u s1 where 1: "run_state (MmsDatasetManager_beginCycle env) s = (u, s1)" by (rule surj_pair [THEN exE, of "run_state (MmsDatasetManager_beginCycle env) s"]) blast
  with assms have 2: "run_state (resolveAll env ts) s1 = (rs, s')" by (simp add: connectCycle_def)
  from begin_run [OF 1] have b: "opened env (ds_handle s1)" "same_handle (ds_handle s) (ds_log s) (ds_handle s1) (ds_log s1)" by auto
  then have l: "ds_log s1 = ds_log s" by (simp add: same_handle_def)
  from resolveAll_run [OF cyc_refl 2] b show ?thesis unfolding l by (intro exI [of _ "ds_handle s1"]) auto
qed

section \<open>Budgets\<close>


end
