(* ===== verification/Mms_Dataset_Guarantees.thy ===== *)
theory Mms_Dataset_Guarantees
  imports Mms_Dataset_Cycle
begin

text \<open>
  What the data set manager promises its client: no reportable leaf is carried by a data set
  it created and by another one of the same cycle, a target without a data set is either a
  failure or a sign that everything is covered, nothing in use is deleted, and everything it
  created on the device is deleted on stop.
\<close>

section \<open>The plan\<close>

definition model_leaves :: "('v, 'w) ds_env \<Rightarrow> string list" where
  "model_leaves env = (case de_wholeDeviceLeaves env of None \<Rightarrow> [] | Some ls \<Rightarrow> List.map_filter (\<lambda>x. x) ls)"

definition members_of :: "MmsDatasetManagerChunkAssignment list \<Rightarrow> string list" where
  "members_of as = concat (map ca_memberReferences as)"

lemma map_filter_Some: "List.map_filter (\<lambda>x. x) (map Some xs) = xs"
  by (induction xs) (simp_all add: List.map_filter_simps)

lemma group_concat: "concat (MmsDatasetManagerUseCases_groupReferencesByLn True (map Some xs)) = xs"
  by (simp add: MmsDatasetManagerUseCases_groupReferencesByLn_def concat_key_runs map_filter_Some)

lemma clusters_msub: "mset (concat (clusters_of env ok leaves)) \<subseteq># mset leaves"
proof -
  have g: "mset (concat (MmsDatasetManagerUseCases_groupReferencesByLn b (map Some leaves))) \<subseteq># mset leaves" for b
    using group_concat [of leaves] by (cases b) (simp_all add: MmsDatasetManagerUseCases_groupReferencesByLn_def)
  have "mset (concat (packNodes okL okK m 0 (MmsDatasetManagerUseCases_groupReferencesByLn b (map Some leaves)) [] None)) \<subseteq># mset leaves" for okL okK m b
    using subset_mset.order_trans [OF packNodes_msub [of okL okK m 0 _ "[]" None] ] g [of b] by simp
  then show ?thesis
    using g [of "pa_lnKeys ok"]
    by (auto simp: clusters_of_def Let_def MmsDatasetManagerUseCases_chunkReferencesAcrossWholeDevice_def simp del: mset_concat)
qed

lemma assign_msub: "mset (members_of (assignClusters ok i cls slots)) \<subseteq># mset (concat cls)"
proof (induction ok i cls slots rule: assignClusters.induct)
  case (1 ok i c cs s ss)
  then show ?case by (auto simp: members_of_def simp del: mset_concat intro: subset_mset.order_trans)
qed (simp_all add: members_of_def)

lemma plan_msub:
  "mset (members_of (MmsDatasetManagerProvisioning_buildWholeDeviceClusterPlan env ok targets pre claimed))
     \<subseteq># mset (filter (\<lambda>s. s \<notin> set claimed) (model_leaves env))"
proof -
  have "mset (members_of (assignClusters ok 0 (clusters_of env ok leaves) slots)) \<subseteq># mset leaves" for leaves slots
    using assign_msub clusters_msub by (rule subset_mset.order_trans)
  then show ?thesis
    by (auto simp: MmsDatasetManagerProvisioning_buildWholeDeviceClusterPlan_def model_leaves_def Let_def members_of_def
        filter_claimed simp del: mset_concat mset_filter split: option.splits)
qed

lemma distinct_msub: "mset xs \<subseteq># mset ys \<Longrightarrow> distinct ys \<Longrightarrow> distinct xs"
proof -
  assume s: "mset xs \<subseteq># mset ys" and d: "distinct ys"
  obtain zs where z: "mset zs = mset ys - mset xs" using ex_mset by blast
  have "mset (xs @ zs) = mset ys" using s by (simp add: z)
  from mset_eq_imp_distinct_iff [OF this] d show "distinct xs" by simp
qed

lemma distinct_concat_disjoint:
  "distinct (concat (map f xs)) \<Longrightarrow> a \<in> set xs \<Longrightarrow> b \<in> set xs \<Longrightarrow> a \<noteq> b \<Longrightarrow> set (f a) \<inter> set (f b) = {}"
  by (induction xs) auto

lemma find_chunk_mem:
  "MmsDatasetManagerProvisioning_findChunkAssignment se obj = Some a \<Longrightarrow> a \<in> set (se_chunkAssignments se) \<and> ca_rcbReference a = obj"
  by (auto simp: MmsDatasetManagerProvisioning_findChunkAssignment_def find_Some_iff split: option.splits)

lemma find_pre_mem:
  "MmsDatasetManagerProvisioning_findPreResolvedEntry pre obj = Some e \<Longrightarrow> e \<in> set pre"
  by (auto simp: MmsDatasetManagerProvisioning_findPreResolvedEntry_def find_Some_iff split: option.splits)

text \<open>A leaf of a created data set, and how it relates to the others.\<close>

lemma opened_chunks:
  assumes "opened env h" and "distinct (model_leaves env)"
  shows "distinct (members_of (se_chunkAssignments (dh_session h)))
    \<and> (\<forall>a \<in> set (se_chunkAssignments (dh_session h)). \<forall>e \<in> set (se_preResolvedEntries (dh_session h)).
         set (ca_memberReferences a) \<inter> set (pe_memberReferences e) = {})"
proof -
  from assms(1) obtain w leaves where l: "set leaves = (\<Union>e \<in> set (se_preResolvedEntries (dh_session h)). set (pe_memberReferences e))"
    and c: "se_chunkAssignments (dh_session h) = MmsDatasetManagerProvisioning_buildWholeDeviceClusterPlan env (de_planAllocs env w) (dh_targets h)
              (se_preResolvedEntries (dh_session h)) leaves" by (auto simp: opened_def Let_def)
  note m = plan_msub [of env "de_planAllocs env w" "dh_targets h" "se_preResolvedEntries (dh_session h)" leaves, folded c]
  from distinct_msub [OF m] assms(2) have "distinct (members_of (se_chunkAssignments (dh_session h)))" by simp
  moreover from set_mset_mono [OF m] have "set (members_of (se_chunkAssignments (dh_session h))) \<inter> set leaves = {}" by auto
  ultimately show ?thesis unfolding l by (auto simp: members_of_def)
qed

lemma self_created:
  assumes "opened env h1" and "resolved_by h1 t res h" and "dr_tier res = MMS_DATASET_TIER_SELF_CREATED" and "dr_memberReferences res = Some m"
  obtains a where "a \<in> set (se_chunkAssignments (dh_session h1))" and "ca_rcbReference a = rt_objectReference t"
    and "m = map Some (ca_memberReferences a)"
proof -
  have "\<exists>a. MmsDatasetManagerProvisioning_findChunkAssignment (dh_session h1) (rt_objectReference t) = Some a \<and> m = map Some (ca_memberReferences a)"
  proof (cases "MmsDatasetManagerProvisioning_findPreResolvedEntry (se_preResolvedEntries (dh_session h1)) (rt_objectReference t)")
    case None
    with assms show ?thesis by (auto simp: resolved_by_def split: option.splits)
  next
    case (Some e)
    with assms find_pre_mem [OF Some] show ?thesis
      by (auto simp: resolved_by_def opened_def Let_def split: option.splits)
  qed
  with find_chunk_mem that show thesis by blast
qed

text \<open>The members of any resolution come from the plan or from an entry of the claim pass.\<close>

lemma any_members:
  assumes "resolved_by h1 t res h" and "dr_memberReferences res = Some m"
  shows "(\<exists>e \<in> set (se_preResolvedEntries (dh_session h1)). m = map Some (pe_memberReferences e))
    \<or> (\<exists>a \<in> set (se_chunkAssignments (dh_session h1)). ca_rcbReference a = rt_objectReference t \<and> m = map Some (ca_memberReferences a))"
proof (cases "rt_datasetReference t")
  case (Some d)
  with assms show ?thesis by (simp add: resolved_by_def)
next
  case None
  show ?thesis
  proof (cases "MmsDatasetManagerProvisioning_findPreResolvedEntry (se_preResolvedEntries (dh_session h1)) (rt_objectReference t)")
    case None
    with assms \<open>rt_datasetReference t = None\<close> show ?thesis
      by (auto simp: resolved_by_def split: option.splits dest: find_chunk_mem)
  next
    case (Some e)
    with assms None find_pre_mem [OF Some] show ?thesis by (auto simp: resolved_by_def)
  qed
qed

text \<open>No leaf is reported twice because of the daemon: in a connect cycle, a data set the manager created
  for one block shares no member with the data set it resolved for any other block, live,
  adopted or created, whatever the device holds and whatever allocations fail.\<close>

lemma created_disjoint:
  assumes "distinct (model_leaves env)" and "run_state (connectCycle env ts) s = (rs, s')"
    and "i < length ts" and "j < length ts" and "rt_objectReference (ts ! i) \<noteq> rt_objectReference (ts ! j)"
    and "dr_tier (rs ! i) = MMS_DATASET_TIER_SELF_CREATED"
    and "dr_memberReferences (rs ! i) = Some m" and "dr_memberReferences (rs ! j) = Some m'"
  shows "set m \<inter> set m' = {}"
proof -
  from cycle_run [OF assms(2)] obtain h1 where o: "opened env h1"
    and rs: "list_all2 (\<lambda>t res. resolved_by h1 t res (ds_handle s')) ts rs" by blast
  note ri = list_all2_nthD [OF rs assms(3)] and rj = list_all2_nthD [OF rs assms(4)]
  from self_created [OF o ri assms(6,7)] obtain a where a: "a \<in> set (se_chunkAssignments (dh_session h1))"
    "ca_rcbReference a = rt_objectReference (ts ! i)" "m = map Some (ca_memberReferences a)" by blast
  note c = opened_chunks [OF o assms(1)]
  from any_members [OF rj assms(8)] show ?thesis
  proof (elim disjE bexE conjE)
    fix e assume "e \<in> set (se_preResolvedEntries (dh_session h1))" "m' = map Some (pe_memberReferences e)"
    with a c show ?thesis by auto
  next
    fix b assume b: "b \<in> set (se_chunkAssignments (dh_session h1))" "ca_rcbReference b = rt_objectReference (ts ! j)"
      "m' = map Some (ca_memberReferences b)"
    with a(2) assms(5) have "a \<noteq> b" by auto
    from distinct_concat_disjoint [OF _ a(1) b(1) this, of ca_memberReferences] c a(3) b(3) show ?thesis
      by (auto simp: members_of_def)
  qed
qed

section \<open>A block that is not needed\<close>

definition plan_ok :: "('v, 'w) ds_env \<Rightarrow> bool" where
  "plan_ok env \<longleftrightarrow> (\<forall>w. let ok = de_planAllocs env w in pa_rawLeaves ok \<and> pa_leaves ok \<and> pa_lnKeys ok
     \<and> (\<forall>i. pa_lnLeaves ok i \<and> pa_doKeys ok i \<and> pa_members ok i \<and> pa_assignment ok i))"

lemma clusters_full:
  assumes "plan_ok env"
  shows "concat (clusters_of env (de_planAllocs env w) leaves) = leaves"
proof -
  from assms have ok: "pa_lnKeys (de_planAllocs env w)" "\<And>i. pa_lnLeaves (de_planAllocs env w) i" "\<And>i. pa_doKeys (de_planAllocs env w) i"
    by (simp_all add: plan_ok_def Let_def)
  have "concat (MmsDatasetManagerUseCases_chunkReferencesAcrossWholeDevice True (pa_lnLeaves (de_planAllocs env w))
      (pa_doKeys (de_planAllocs env w)) (map Some leaves) m) = leaves" if "0 < m" for m
    using packNodes_good [OF that, of "[]" "MmsDatasetManagerUseCases_groupReferencesByLn True (map Some leaves)"
        "MmsDatasetManagerUseCases_groupReferencesByLn True (map Some leaves)" None, OF _ _ _ ok(2,3)] that group_concat [of leaves]
    by (auto simp: MmsDatasetManagerUseCases_chunkReferencesAcrossWholeDevice_def)
  with ok(1) group_concat [of leaves] show ?thesis by (simp add: clusters_of_def Let_def)
qed

lemma assign_full:
  "(\<And>i. pa_members ok i \<and> pa_assignment ok i) \<Longrightarrow>
     map ca_memberReferences (assignClusters ok i cls slots) = take (length slots) cls
     \<and> map ca_rcbReference (assignClusters ok i cls slots) = map rt_objectReference (take (length cls) slots)"
  by (induction ok i cls slots rule: assignClusters.induct) auto

text \<open>With a slot left over, the created data sets hold everything that was not claimed.\<close>

lemma spare_slot_covers:
  assumes "plan_ok env" and "t \<in> set (plan_slots pre ts)" and "rt_objectReference t \<noteq> None"
    and "rt_objectReference t \<notin> ca_rcbReference ` set (MmsDatasetManagerProvisioning_buildWholeDeviceClusterPlan env (de_planAllocs env w) (Some ts) pre claimed)"
    and "x \<in> set (model_leaves env)"
  shows "x \<in> set claimed \<or> x \<in> set (members_of (MmsDatasetManagerProvisioning_buildWholeDeviceClusterPlan env (de_planAllocs env w) (Some ts) pre claimed))"
proof (rule disjCI)
  let ?ok = "de_planAllocs env w" and ?slots = "plan_slots pre ts" and ?un = "filter (\<lambda>s. s \<notin> set claimed) (model_leaves env)"
  let ?plan = "MmsDatasetManagerProvisioning_buildWholeDeviceClusterPlan env ?ok (Some ts) pre claimed"
  assume n: "x \<notin> set (members_of ?plan)"
  show "x \<in> set claimed"
  proof (rule ccontr)
    assume "x \<notin> set claimed"
    with assms(5) have un: "x \<in> set ?un" by simp
    from assms(1) have ok: "pa_rawLeaves ?ok" "pa_leaves ?ok" "\<And>i. pa_members ?ok i \<and> pa_assignment ?ok i"
      by (simp_all add: plan_ok_def Let_def)
    from assms(5) obtain ls where ls: "de_wholeDeviceLeaves env = Some ls"
      by (cases "de_wholeDeviceLeaves env") (simp_all add: model_leaves_def)
    with assms(5) have nl: "ls \<noteq> []" by (auto simp: model_leaves_def List.map_filter_simps)
    have un': "MmsDatasetManagerUseCases_filterOutClaimedLeaves ls claimed = ?un" by (simp add: filter_claimed model_leaves_def ls)
    have ne: "?slots \<noteq> []" "?un \<noteq> []" using assms(2) un by (cases ?slots, simp_all) (metis empty_iff list.set(1) un)
    have plan: "?plan = assignClusters ?ok 0 (clusters_of env ?ok ?un) ?slots"
      unfolding MmsDatasetManagerProvisioning_buildWholeDeviceClusterPlan_def Let_def option.case ls un'
      using ne nl ok(1,2) by simp
    note f = assign_full [OF ok(3), of 0 "clusters_of env ?ok ?un" ?slots]
    have lt: "length (clusters_of env ?ok ?un) < length ?slots"
    proof (rule ccontr)
      assume "\<not> length (clusters_of env ?ok ?un) < length ?slots"
      with f have "map ca_rcbReference ?plan = map rt_objectReference ?slots" unfolding plan by simp
      then have "set (map ca_rcbReference ?plan) = set (map rt_objectReference ?slots)" by simp
      with assms(2,4) show False by auto
    qed
    with f have "map ca_memberReferences ?plan = clusters_of env ?ok ?un" unfolding plan by simp
    then have "members_of ?plan = ?un" using clusters_full [OF assms(1)] by (simp add: members_of_def)
    with n un show False by simp
  qed
qed


section \<open>The end of a cycle\<close>

text \<open>What the orphan clean-up may delete.\<close>

definition orphan_of :: "MmsDatasetManagerHandle \<Rightarrow> string \<Rightarrow> bool" where
  "orphan_of h n \<longleftrightarrow> n \<in> set (se_existingServerDatasets (dh_session h)) \<and> n \<notin> set (se_claimedDatasetNames (dh_session h))
     \<and> n \<notin> ce_datasetName ` set (se_cache (dh_session h))
     \<and> (\<exists>t \<in> set (the_targets h). \<exists>obj. rt_buffered t \<and> rt_objectReference t = Some obj
          \<and> MmsDatasetManagerNaming_buildDatasetName True obj True = Some n)"

definition only_orphans :: "MmsDatasetManagerHandle \<Rightarrow> ds_event list \<Rightarrow> MmsDatasetManagerHandle \<Rightarrow> ds_event list \<Rightarrow> bool" where
  "only_orphans h1 l1 h l \<longleftrightarrow> h = h1 \<and> (\<exists>es. l = l1 @ es
     \<and> (\<forall>e \<in> set es. made_name e = None \<and> (\<forall>n ok. e = De_delete n ok \<longrightarrow> orphan_of h1 n)))"

lemma only_snoc: "only_orphans h1 l1 h l \<Longrightarrow> made_name e = None \<Longrightarrow> (\<And>n ok. e = De_delete n ok \<Longrightarrow> orphan_of h1 n) \<Longrightarrow> only_orphans h1 l1 h (l @ [e])"
  unfolding only_orphans_def by (elim conjE exE, intro conjI, assumption, rule_tac x = "es @ [e]" in exI) auto

lemma name_Some: "MmsDatasetManagerNaming_buildDatasetName ok obj b = Some n \<Longrightarrow> MmsDatasetManagerNaming_buildDatasetName True obj b = Some n"
  by (simp add: MmsDatasetManagerNaming_buildDatasetName_def split: if_splits)

lemma match_own:
  "triple (on P) (matchTarget env c ts)
     (\<lambda>res. on (\<lambda>h l. P h l \<and> (res \<noteq> None \<longrightarrow> (\<exists>t \<in> set ts. \<exists>obj. rt_buffered t \<and> rt_objectReference t = Some obj
          \<and> MmsDatasetManagerNaming_buildDatasetName True obj True = Some c))))"
proof (induction ts)
  case Nil
  show ?case by (simp, rule triple_ret, simp)
next
  case (Cons t ts)
  have rest: "triple (on P) (matchTarget env c ts)
     (\<lambda>res. on (\<lambda>h l. P h l \<and> (res \<noteq> None \<longrightarrow> (\<exists>t \<in> set (t # ts). \<exists>obj. rt_buffered t \<and> rt_objectReference t = Some obj
          \<and> MmsDatasetManagerNaming_buildDatasetName True obj True = Some c))))"
    by (rule triple_on_post [OF Cons]) auto
  show ?case
  proof (cases "rt_buffered t \<and> rt_objectReference t \<noteq> None")
    case False
    with rest show ?thesis by (auto split: option.splits bool.splits)
  next
    case True
    then obtain obj where t: "rt_buffered t" "rt_objectReference t = Some obj" by auto
    show ?thesis
      unfolding matchTarget.simps eqTrueI [OF t(1)] t(2) prod.case bool.case option.case
      by (rule triple_bind [OF triple_wcall], rule triple_if, rule triple_ret) (use t name_Some rest in auto)
  qed
qed

lemma unbind_only: "triple (on (only_orphans h1 l1)) (unbindIf env obj p) (\<lambda>_. on (only_orphans h1 l1))"
proof -
  have unit: "triple (on (only_orphans h1 l1)) (return ()) (\<lambda>_. on (only_orphans h1 l1))" by (rule triple_ret)
  have ev: "triple (on (only_orphans h1 l1)) (log_ds (De_unbind obj d err)) (\<lambda>_. on (only_orphans h1 l1))" for d err
    by (rule triple_log) (erule only_snoc, simp_all add: made_name_def)
  have go: "triple (on (only_orphans h1 l1)) (case r of None \<Rightarrow> return ()
      | Some rcb \<Rightarrow> (case rcb_datSet rcb of None \<Rightarrow> return ()
           | Some live \<Rightarrow> if p live then do {
                 err \<leftarrow> wcall (de_setRCBValues env obj (rcb\<lparr>rcb_rptEna := False, rcb_datSet := Some []\<rparr>));
                 log_ds (De_unbind obj live err) } else return ())) (\<lambda>_. on (only_orphans h1 l1))" for r
    by (auto split: option.split intro: unit triple_bind [OF triple_wcall] ev)
  show ?thesis unfolding unbindIf_def by (rule triple_bind [OF triple_wcall]) (rule go)
qed

lemma orphan_only:
  "set cs \<subseteq> set (se_existingServerDatasets (dh_session h1)) \<Longrightarrow>
     triple (on (only_orphans h1 l1)) (orphanLoop env (the_targets h1) cs n) (\<lambda>_. on (only_orphans h1 l1))"
proof (induction cs arbitrary: n)
  case Nil
  show ?case by (simp, rule triple_ret, simp)
next
  case (Cons c cs)
  then have IH: "triple (on (only_orphans h1 l1)) (orphanLoop env (the_targets h1) cs n) (\<lambda>_. on (only_orphans h1 l1))" for n by simp
  have del: "triple (on (only_orphans h1 l1)) (do {
            unbindIf env (rt_objectReference t) (\<lambda>live. live = c);
            deleted \<leftarrow> wcall (de_deleteDataSet env c);
            log_ds (De_delete c deleted);
            orphanLoop env (the_targets h1) cs (if deleted then n else n + 1) }) (\<lambda>_. on (only_orphans h1 l1))"
    if "orphan_of h1 c" for t
    by (rule triple_bind [OF unbind_only], rule triple_bind [OF triple_wcall], rule triple_bind [OF triple_log _ ], erule only_snoc, simp add: made_name_def, use that in simp, rule IH)
  have matched: "triple (on (\<lambda>h l. only_orphans h1 l1 h l \<and> (m \<noteq> None \<longrightarrow> (\<exists>t \<in> set (the_targets h1). \<exists>obj. rt_buffered t \<and> rt_objectReference t = Some obj
          \<and> MmsDatasetManagerNaming_buildDatasetName True obj True = Some c))))
      (case m of None \<Rightarrow> orphanLoop env (the_targets h1) cs n
       | Some t \<Rightarrow> do {
            unbindIf env (rt_objectReference t) (\<lambda>live. live = c);
            deleted \<leftarrow> wcall (de_deleteDataSet env c);
            log_ds (De_delete c deleted);
            orphanLoop env (the_targets h1) cs (if deleted then n else n + 1) }) (\<lambda>_. on (only_orphans h1 l1))"
    if "c \<notin> set (se_claimedDatasetNames (dh_session h1))" "c \<notin> ce_datasetName ` set (se_cache (dh_session h1))" for m
  proof (cases m)
    case None
    show ?thesis unfolding None option.case by (rule triple_on_pre [OF IH]) simp
  next
    case (Some t)
    have o: "only_orphans h1 l1 h l \<and> (Some t \<noteq> None \<longrightarrow> (\<exists>t \<in> set (the_targets h1). \<exists>obj. rt_buffered t \<and> rt_objectReference t = Some obj
          \<and> MmsDatasetManagerNaming_buildDatasetName True obj True = Some c)) \<Longrightarrow> orphan_of h1 c" for h l
      using that Cons.prems by (simp add: orphan_of_def)
    show ?thesis
      unfolding Some option.case
      by (rule triple_on_hyp, erule o, rule triple_on_pre [OF del], assumption, simp)
  qed
  have body: "triple (on (\<lambda>h l. only_orphans h1 l1 h l \<and> se = dh_session h))
      (if c \<in> set (se_claimedDatasetNames se) then orphanLoop env (the_targets h1) cs n
       else if c \<in> ce_datasetName ` set (se_cache se) then orphanLoop env (the_targets h1) cs n
       else do {
         matched \<leftarrow> matchTarget env c (the_targets h1);
         (case matched of None \<Rightarrow> orphanLoop env (the_targets h1) cs n
          | Some t \<Rightarrow> do {
              unbindIf env (rt_objectReference t) (\<lambda>live. live = c);
              deleted \<leftarrow> wcall (de_deleteDataSet env c);
              log_ds (De_delete c deleted);
              orphanLoop env (the_targets h1) cs (if deleted then n else n + 1) }) }) (\<lambda>_. on (only_orphans h1 l1))" for se
  proof (rule triple_on_hyp [where b = "se = dh_session h1"])
    show "only_orphans h1 l1 h l \<and> se = dh_session h \<Longrightarrow> se = dh_session h1" for h l by (simp add: only_orphans_def)
  next
    assume se: "se = dh_session h1"
    show ?thesis
      unfolding se
      by (rule triple_if, rule triple_on_pre [OF IH], simp, rule triple_if, rule triple_on_pre [OF IH], simp,
          rule triple_bind [OF triple_on_pre [OF match_own]], erule conjunct1, rule matched)
  qed
  show ?case unfolding orphanLoop.simps by (rule triple_bind [OF triple_session]) (rule body)
qed

lemma end_run:
  assumes "run_state (MmsDatasetManager_endCycle env b) s = (u, s')"
  shows "\<exists>es. ds_log s' = ds_log s @ es \<and> (\<forall>e \<in> set es. made_name e = None \<and> (\<forall>n ok. e = De_delete n ok \<longrightarrow> orphan_of (ds_handle s) n))
    \<and> tracked (ds_handle s') = tracked (ds_handle s) \<and> dh_targets (ds_handle s') = dh_targets (ds_handle s)"
proof -
  let ?h = "ds_handle s" and ?l = "ds_log s"
  let ?Q = "\<lambda>h l. (\<exists>es. l = ?l @ es \<and> (\<forall>e \<in> set es. made_name e = None \<and> (\<forall>n ok. e = De_delete n ok \<longrightarrow> orphan_of ?h n)))
    \<and> tracked h = tracked ?h \<and> dh_targets h = dh_targets ?h"
  have orphans: "triple (on (only_orphans ?h ?l)) (MmsDatasetManagerProvisioning_cleanupOrphaned env) (\<lambda>_. on (only_orphans ?h ?l))"
  proof -
    have rest: "triple (on (\<lambda>h l. only_orphans ?h ?l h l \<and> ds_handle st = h)) (case dh_targets (ds_handle st) of None \<Rightarrow> return 0
          | Some targets \<Rightarrow> orphanLoop env targets (se_existingServerDatasets (dh_session (ds_handle st))) 0)
        (\<lambda>_. on (only_orphans ?h ?l))" for st
    proof (rule triple_on_hyp [where b = "ds_handle st = ?h"])
      show "only_orphans ?h ?l h l \<and> ds_handle st = h \<Longrightarrow> ds_handle st = ?h" for h l by (simp add: only_orphans_def)
    next
      assume st: "ds_handle st = ?h"
      show ?thesis
      proof (cases "dh_targets ?h")
        case None
        show ?thesis unfolding st None option.case by (rule triple_ret) simp
      next
        case (Some ts)
        then have ts: "the_targets ?h = ts" by (simp add: the_targets_def)
        show ?thesis unfolding st Some option.case by (rule triple_on_pre [OF orphan_only [of _ ?h ?l, unfolded ts]]) simp_all
      qed
    qed
    show ?thesis unfolding MmsDatasetManagerProvisioning_cleanupOrphaned_def by (rule triple_bind [OF triple_state]) (rule rest)
  qed
  have close: "triple (on (only_orphans ?h ?l)) (change_session (\<lambda>_. no_session)) (\<lambda>_. on ?Q)"
    by (rule triple_change) (auto simp: only_orphans_def)
  have "triple (on (only_orphans ?h ?l)) (MmsDatasetManager_endCycle env b) (\<lambda>_. on ?Q)"
    unfolding MmsDatasetManager_endCycle_def
  proof (rule triple_bind [OF triple_session], rule triple_if)
    fix se
    show "triple (on (\<lambda>h l. only_orphans ?h ?l h l \<and> se = dh_session h)) (return ()) (\<lambda>_. on ?Q)"
      by (rule triple_ret) (auto simp: only_orphans_def)
    have pass: "triple (on (only_orphans ?h ?l)) (if b then MmsDatasetManagerProvisioning_cleanupOrphaned env else return 0) (\<lambda>_. on (only_orphans ?h ?l))"
      by (rule triple_if, rule orphans, rule triple_ret)
    show "triple (on (\<lambda>h l. only_orphans ?h ?l h l \<and> se = dh_session h))
        (do { leaked \<leftarrow> (if b then MmsDatasetManagerProvisioning_cleanupOrphaned env else return 0); change_session (\<lambda>_. no_session) }) (\<lambda>_. on ?Q)"
      by (rule triple_bind [OF triple_on_pre [OF pass] close]) simp
  qed
  from triple_run [OF this _ assms] show ?thesis by (simp add: on_def only_orphans_def)
qed

lemma resolved_safe:
  assumes "opened env h1" and "cyc okA h1 l h l'" and "resolved_by h1 t res h" and "t \<in> set (the_targets h1)"
    and "dr_datasetReference res = Some n"
  shows "\<not> orphan_of h n"
proof (cases "rt_datasetReference t")
  case (Some d)
  with assms have "n \<notin> set (se_existingServerDatasets (dh_session h1))"
    by (auto simp: resolved_by_def opened_def Let_def no_static_def)
  with plan_part_eq(4) [OF cyc_part [OF assms(2)]] show ?thesis by (simp add: orphan_of_def)
next
  case none: None
  show ?thesis
  proof (cases "MmsDatasetManagerProvisioning_findPreResolvedEntry (se_preResolvedEntries (dh_session h1)) (rt_objectReference t)")
    case None
    with none assms(3,5) have "n \<in> ce_datasetName ` set (se_cache (dh_session h))" by (auto simp: resolved_by_def)
    then show ?thesis by (auto simp: orphan_of_def)
  next
    case (Some e)
    with none assms find_pre_mem [OF Some] have "n \<in> set (se_claimedDatasetNames (dh_session h1))"
      by (auto simp: resolved_by_def opened_def Let_def)
    with plan_part_eq(5) [OF cyc_part [OF assms(2)]] show ?thesis by (simp add: orphan_of_def)
  qed
qed

text \<open>C18. Nothing in use is cleaned up: when a cycle ends, a data set that was resolved for any target of the
  device in this cycle is not deleted, whatever tier it came from, and every data set that is
  deleted carries the daemon's own name for one of the buffered blocks.\<close>

theorem cycle_end_keeps_resolved:
  assumes "run_state (connectCycle env ts) s = (rs, s1)" and "run_state (MmsDatasetManager_endCycle env b) s1 = (u, s2)"
    and "set ts \<subseteq> set (the_targets (ds_handle s))" and "De_delete n ok \<in> set (drop (length (ds_log s1)) (ds_log s2))"
  shows "(\<forall>i < length ts. dr_datasetReference (rs ! i) \<noteq> Some n)
    \<and> (\<exists>t \<in> set (the_targets (ds_handle s)). \<exists>obj. rt_buffered t \<and> rt_objectReference t = Some obj
         \<and> MmsDatasetManagerNaming_buildDatasetName True obj True = Some n)"
proof -
  from cycle_run [OF assms(1)] obtain h1 where o: "opened env h1" and sh: "same_handle (ds_handle s) (ds_log s) h1 (ds_log s)"
    and c: "cyc (alloc_ok env) h1 (ds_log s) (ds_handle s1) (ds_log s1)"
    and rs: "list_all2 (\<lambda>t res. resolved_by h1 t res (ds_handle s1)) ts rs" by blast
  have t1: "the_targets h1 = the_targets (ds_handle s)" using sh by (simp add: the_targets_def same_handle_def)
  have t2: "the_targets (ds_handle s1) = the_targets h1"
    using plan_part_eq(1) [OF cyc_part [OF c]] by (simp add: the_targets_def)
  from end_run [OF assms(2)] assms(4) have orphan: "orphan_of (ds_handle s1) n" by auto
  have "dr_datasetReference (rs ! i) \<noteq> Some n" if i: "i < length ts" for i
    using resolved_safe [OF o c list_all2_nthD [OF rs i]] orphan assms(3) nth_mem [OF i] t1 by auto
  with orphan t1 t2 show ?thesis by (auto simp: orphan_of_def)
qed

section \<open>Stopping\<close>

datatype ds_op = Op_begin | Op_resolve ReportControlBlockTarget | Op_end bool

fun ds_ops :: "('v, 'w) ds_env \<Rightarrow> ds_op list \<Rightarrow> ('w, unit) dprog" where
  "ds_ops env [] = return ()"
| "ds_ops env (Op_begin # os) = do { MmsDatasetManager_beginCycle env; ds_ops env os }"
| "ds_ops env (Op_resolve t # os) = do { MmsDatasetManager_resolveForTarget env t; ds_ops env os }"
| "ds_ops env (Op_end b # os) = do { MmsDatasetManager_endCycle env b; ds_ops env os }"

definition names_ok :: "('v, 'w) ds_env \<Rightarrow> 'w ds_state \<Rightarrow> bool" where
  "names_ok env s \<longleftrightarrow> tracked (ds_handle s) \<subseteq> made (ds_log s) \<and> (alloc_ok env \<longrightarrow> made (ds_log s) \<subseteq> tracked (ds_handle s))"

lemma made_append: "made (l @ es) = made l \<union> made es"
  by (auto simp: made_def)

lemma ops_names: "names_ok env s \<Longrightarrow> run_state (ds_ops env os) s = (u, s') \<Longrightarrow> names_ok env s'"
proof (induction env os arbitrary: s rule: ds_ops.induct)
  case (2 env os)
  obtain u1 s1 where 1: "run_state (MmsDatasetManager_beginCycle env) s = (u1, s1)"
    using prod.exhaust_sel by blast
  from begin_run [OF 1] 2(2) have "names_ok env s1" by (simp add: same_handle_def names_ok_def tracked_def)
  from 2(1) [OF this] 2(3) show ?case by (simp add: 1)
next
  case (3 env t os)
  obtain r s1 where 1: "run_state (MmsDatasetManager_resolveForTarget env t) s = (r, s1)" by fastforce
  from resolve_run [OF cyc_refl 1] 3(2) have "names_ok env s1" by (auto simp: names_ok_def cyc_inv_def)
  from 3(1) [OF this] 3(3) show ?case by (simp add: 1)
next
  case (4 env b os)
  obtain u1 s1 where 1: "run_state (MmsDatasetManager_endCycle env b) s = (u1, s1)"
    using prod.exhaust_sel by blast
  from end_run [OF 1] obtain es where es: "ds_log s1 = ds_log s @ es" "\<forall>e \<in> set es. made_name e = None"
    "tracked (ds_handle s1) = tracked (ds_handle s)" by blast
  from es(2) have "made es = {}" by (auto simp: made_def)
  with es 4(2) have "names_ok env s1" by (simp add: names_ok_def made_append)
  from 4(1) [OF this] 4(3) show ?case by (simp add: 1)
qed simp

definition deletes :: "ds_event list \<Rightarrow> string set" where
  "deletes es = {n. \<exists>ok. De_delete n ok \<in> set es}"

lemma unbind_run:
  "run_state (unbindIf env obj p) s = (u, s') \<Longrightarrow> ds_handle s' = ds_handle s \<and> (\<exists>es. ds_log s' = ds_log s @ es \<and> deletes es = {})"
  by (auto simp: unbindIf_def wcall_def log_ds_def deletes_def split_beta split: option.splits if_splits)

lemma unbindLoop_run:
  "run_state (unbindLoop env names ts) s = (u, s') \<Longrightarrow> ds_handle s' = ds_handle s \<and> (\<exists>es. ds_log s' = ds_log s @ es \<and> deletes es = {})"
proof (induction ts arbitrary: s)
  case Nil
  then show ?case by (auto simp: deletes_def)
next
  case (Cons t ts)
  obtain u1 s1 where 1: "run_state (unbindIf env (rt_objectReference t) (\<lambda>live. live \<in> set names)) s = (u1, s1)"
    using prod.exhaust_sel by blast
  with Cons.prems have 2: "run_state (unbindLoop env names ts) s1 = (u, s')" by simp
  from unbind_run [OF 1] Cons.IH [OF 2] obtain es es' where "ds_log s1 = ds_log s @ es" "deletes es = {}" "ds_log s' = ds_log s1 @ es'"
    "deletes es' = {}" and h: "ds_handle s' = ds_handle s" by auto
  then have "ds_log s' = ds_log s @ (es @ es')" "deletes (es @ es') = {}" by (auto simp: deletes_def)
  with h show ?case by blast
qed

lemma deleteLoop_run:
  "run_state (deleteLoop env names) s = (u, s') \<Longrightarrow> ds_handle s' = ds_handle s \<and> (\<exists>es. ds_log s' = ds_log s @ es \<and> deletes es = set names)"
proof (induction names arbitrary: s)
  case Nil
  then show ?case by (auto simp: deletes_def)
next
  case (Cons n ns)
  define s1 where "s1 = s\<lparr>ds_world := snd (de_deleteDataSet env n (ds_world s)),
      ds_log := ds_log s @ [De_delete n (fst (de_deleteDataSet env n (ds_world s)))]\<rparr>"
  with Cons.prems have 2: "run_state (deleteLoop env ns) s1 = (u, s')" by (simp add: wcall_def log_ds_def)
  from Cons.IH [OF 2] obtain es where h: "ds_handle s' = ds_handle s" and es: "ds_log s' = ds_log s1 @ es" "deletes es = set ns"
    by (auto simp: s1_def)
  have "ds_log s' = ds_log s @ (De_delete n (fst (de_deleteDataSet env n (ds_world s))) # es)" by (simp add: es s1_def)
  moreover have "deletes (De_delete n (fst (de_deleteDataSet env n (ds_world s))) # es) = set (n # ns)"
    using es(2) by (auto simp: deletes_def)
  ultimately show ?case using h by blast
qed

lemma stop_run:
  assumes "run_state (MmsDatasetManagerProvisioning_cleanupOnStop env) s = (u, s')"
  shows "\<exists>es. ds_log s' = ds_log s @ es \<and> deletes es = tracked (ds_handle s)"
proof (cases "dh_domainScopedDynamicDatasetNames (ds_handle s)")
  case None
  with assms show ?thesis
    by (auto simp: MmsDatasetManagerProvisioning_cleanupOnStop_def get_state_def tracked_def deletes_def)
next
  case (Some names)
  obtain u1 s1 where 1: "run_state (unbindLoop env names (the_targets (ds_handle s))) s = (u1, s1)" using prod.exhaust_sel by blast
  obtain u2 s2 where 2: "run_state (deleteLoop env names) s1 = (u2, s2)" using prod.exhaust_sel by blast
  from assms have s': "ds_log s' = ds_log s2"
    by (auto simp: MmsDatasetManagerProvisioning_cleanupOnStop_def get_state_def change_names_def Some 1 2)
  from unbindLoop_run [OF 1] deleteLoop_run [OF 2] obtain es es' where es: "ds_log s1 = ds_log s @ es" "deletes es = {}"
    "ds_log s2 = ds_log s1 @ es'" "deletes es' = set names" by blast
  then have "ds_log s' = ds_log s @ (es @ es')" "deletes (es @ es') = set names" unfolding s' by (auto simp: deletes_def)
  with Some show ?thesis by (auto simp: tracked_def)
qed


end
