(* ===== verification/Mms_Dataset_Demo.thy ===== *)
theory Mms_Dataset_Demo
  imports Mms_Dataset_Guarantees
begin

text \<open>
  A device with two logical devices and five report control blocks, on which the properties of
  the data set manager are applied: one block carries a data set, the name of another data set
  is a leftover of the client, three blocks get a data set and one is spare.
\<close>

definition demo_block :: "string \<Rightarrow> string \<Rightarrow> bool \<Rightarrow> ReportControlBlockTarget" where
  "demo_block obj ln b = \<lparr>rt_objectReference = Some obj, rt_buffered = b, rt_datasetReference = None, rt_lnReference = Some ln\<rparr>"

definition demo_blocks :: "ReportControlBlockTarget list" where
  "demo_blocks = [demo_block ''E/A.BR.b0'' ''E/A'' True, demo_block ''F/A.BR.b1'' ''F/A'' True, demo_block ''F/A.RP.u2'' ''F/A'' False,
     demo_block ''F/B.BR.b3'' ''F/B'' True, demo_block ''F/B.RP.u4'' ''F/B'' False]"

definition demo_rcb :: "string option \<Rightarrow> unit rcb" where
  "demo_rcb d = \<lparr>rcb_rptId = None, rcb_rptEna = False, rcb_datSet = d, rcb_optFlds = 0, rcb_trgOps = 0, rcb_bufTm = 0, rcb_intgPd = 0,
     rcb_confRev = 1, rcb_sqNum = 0, rcb_entryId = None, rcb_gi = False, rcb_resv = False, rcb_resvTms = None, rcb_owner = None\<rparr>"

definition demo_env :: "(unit, unit) ds_env" where
  "demo_env = \<lparr>de_getRCBValues = (\<lambda>obj w. (Some (demo_rcb (if obj = Some ''E/A.BR.b0'' then Some ''E/A$live'' else None)), w)),
     de_setRCBValues = (\<lambda>obj r w. (IED_ERROR_OK, w)),
     de_getLogicalDeviceDataSets = (\<lambda>ld w. (if ld = ''E'' then Some [Some ''A$live'', None, Some ''A$BR$b0$dyn''] else None, w)),
     de_getDataSetDirectory = (\<lambda>d w. (if d = ''E/A$live'' then Some [''E/A.X.s[ST]''] else None, w)),
     de_createDataSet = (\<lambda>n refs w. (IED_ERROR_OK, w)),
     de_deleteDataSet = (\<lambda>n w. (True, w)), de_hasMmsConnection = True,
     de_defineNamedVariableList = (\<lambda>d i refs w. (False, w)),
     de_dynDataSetMax = 4, de_confDataSetMax = 4, de_dynDataSetMaxAttributes = 2, de_confDataSetMaxAttributes = 2,
     de_wholeDeviceLeaves = Some demo_refs, de_alloc = (\<lambda>w. (True, w)),
     de_planAllocs = (\<lambda>w. \<lparr>pa_rawLeaves = True, pa_leaves = True, pa_lnKeys = True, pa_lnLeaves = (\<lambda>i. True), pa_doKeys = (\<lambda>i. True),
       pa_members = (\<lambda>i. True), pa_assignment = (\<lambda>i. True)\<rparr>)\<rparr>"

definition demo_handle :: MmsDatasetManagerHandle where
  "demo_handle = \<lparr>dh_targets = Some demo_blocks, dh_domainScopedDynamicDatasetNames = None, dh_session = no_session\<rparr>"

definition demo_start :: "unit ds_state" where
  "demo_start = \<lparr>ds_world = (), ds_handle = demo_handle, ds_log = []\<rparr>"

definition demo_cycle :: "MmsDatasetResolution list \<times> unit ds_state" where
  "demo_cycle = run_state (connectCycle demo_env demo_blocks) demo_start"

definition demo_end :: "unit ds_state" where
  "demo_end = snd (run_state (MmsDatasetManager_endCycle demo_env True) (snd demo_cycle))"

lemma demo_run: "run_state (connectCycle demo_env demo_blocks) demo_start = (fst demo_cycle, snd demo_cycle)"
  by (simp add: demo_cycle_def)

lemma demo_end_run: "run_state (MmsDatasetManager_endCycle demo_env True) (snd demo_cycle) = ((), demo_end)"
  by (simp add: demo_end_def prod_eq_iff)

text \<open>What the cycle computes.\<close>

lemma demo_cycle_facts:
  "(case demo_cycle of (rs, s) \<Rightarrow>
      dr_tier (rs ! 1) = MMS_DATASET_TIER_SELF_CREATED \<and> dr_memberReferences (rs ! 1) = Some [Some ''E/A$ST$X$q'']
      \<and> dr_memberReferences (rs ! 2) = Some [Some ''E/B$ST$Y$s'', Some ''E/B$ST$Y$q'']
      \<and> dr_datasetReference (rs ! 4) = None \<and> \<not> dr_wasNeeded (rs ! 4)
      \<and> length (se_existingServerDatasets (dh_session (ds_handle s))) = 2
      \<and> De_delete ''E/A$BR$b0$dyn'' True
          \<in> set (drop (length (ds_log s)) (ds_log (snd (run_state (MmsDatasetManager_endCycle demo_env True) s)))))"
  by code_simp

lemmas demo_facts = demo_cycle_facts [unfolded split_beta, folded demo_end_def]

lemmas demo_created = demo_facts [THEN conjunct1]
  and demo_members1 = demo_facts [THEN conjunct2, THEN conjunct1]
  and demo_members2 = demo_facts [THEN conjunct2, THEN conjunct2, THEN conjunct1]
  and demo_spare = demo_facts [THEN conjunct2, THEN conjunct2, THEN conjunct2, THEN conjunct1]
  and demo_spare_wanted = demo_facts [THEN conjunct2, THEN conjunct2, THEN conjunct2, THEN conjunct2, THEN conjunct1]
  and demo_existing = demo_facts [THEN conjunct2, THEN conjunct2, THEN conjunct2, THEN conjunct2, THEN conjunct2, THEN conjunct1]
  and demo_leftover = demo_facts [THEN conjunct2, THEN conjunct2, THEN conjunct2, THEN conjunct2, THEN conjunct2, THEN conjunct2]

lemma demo_leaves: "distinct (model_leaves demo_env)" and demo_leaf: "''E/B$ST$Z$s'' \<in> set (model_leaves demo_env)"
  by (simp_all add: model_leaves_def demo_env_def demo_refs_def List.map_filter_simps)

lemma demo_plan: "plan_ok demo_env"
  by (simp add: plan_ok_def demo_env_def)

lemma demo_alloc: "alloc_ok demo_env"
  by (simp add: alloc_ok_def demo_env_def)



lemma cycle_end_keeps_resolved_witness:
  "dr_datasetReference (fst demo_cycle ! 0) \<noteq> Some ''E/A$BR$b0$dyn'' \<and> dr_datasetReference (fst demo_cycle ! 3) \<noteq> Some ''E/A$BR$b0$dyn''"
  using cycle_end_keeps_resolved [OF demo_run demo_end_run _ demo_leftover]
  by (simp add: demo_blocks_def demo_start_def demo_handle_def the_targets_def)

definition demo_ops :: "ds_op list" where
  "demo_ops = [Op_begin, Op_resolve (demo_blocks ! 1), Op_end True, Op_begin, Op_resolve (demo_blocks ! 3)]"

definition demo_before_stop :: "unit ds_state" where
  "demo_before_stop = snd (run_state (ds_ops demo_env demo_ops) demo_start)"


end
