(* ===== verification/Ied_Model_Datasets.thy ===== *)
theory Ied_Model_Datasets
  imports Ied_Model_Goose Mms_Dataset_Demo
begin

text \<open>
  The device model as the provider of the data set manager: what the data sets it creates hold
  when its whole-device leaves are those of \<open>ied_model_usecases.c\<close>. The end of the theory is a
  small model with its library, on which the properties of the device model are applied.
\<close>

section \<open>Created data sets\<close>

definition reports_model :: "('v, 'w) ds_env \<Rightarrow> model_lib \<Rightarrow> IedModelHandle \<Rightarrow> bool" where
  "reports_model env L h \<longleftrightarrow>
     de_wholeDeviceLeaves env = Some (map Some (IedModelUseCases_getReportableAttributeReferencesForWholeDevice L (Some h)))"

lemma model_leaves_whole: "reports_model env L h \<Longrightarrow>
    model_leaves env = IedModelUseCases_getReportableAttributeReferencesForWholeDevice L (Some h)"
  by (simp add: reports_model_def model_leaves_def map_filter_Some)

lemma created_members:
  assumes "run_state (connectCycle env ts) s = (rs, s')" and "i < length ts"
    and "dr_tier (rs ! i) = MMS_DATASET_TIER_SELF_CREATED" and "dr_memberReferences (rs ! i) = Some m"
  shows "set m \<subseteq> Some ` set (model_leaves env)"
proof -
  from cycle_run [OF assms(1)] obtain h1 where o: "opened env h1"
    and rs: "list_all2 (\<lambda>t res. resolved_by h1 t res (ds_handle s')) ts rs" by blast
  from self_created [OF o list_all2_nthD [OF rs assms(2)] assms(3,4)] obtain a where
    a: "a \<in> set (se_chunkAssignments (dh_session h1))" "m = map Some (ca_memberReferences a)" by blast
  from o obtain w leaves where
    c: "se_chunkAssignments (dh_session h1) = MmsDatasetManagerProvisioning_buildWholeDeviceClusterPlan env (de_planAllocs env w) (dh_targets h1)
              (se_preResolvedEntries (dh_session h1)) leaves" by (auto simp: opened_def Let_def)
  from set_mset_mono [OF plan_msub [of env "de_planAllocs env w" "dh_targets h1" "se_preResolvedEntries (dh_session h1)" leaves, folded c]]
  have "set (members_of (se_chunkAssignments (dh_session h1))) \<subseteq> set (model_leaves env)" by auto
  with a show ?thesis by (auto simp: members_of_def)
qed


section \<open>A small model\<close>

definition attr :: "nat \<Rightarrow> string \<Rightarrow> ModelNode" where
  "attr a n = ModelNode a DataAttributeModelType n IEC61850_FC_ST IEC61850_BOOLEAN []"

definition measurand :: "nat \<Rightarrow> string \<Rightarrow> ModelNode list \<Rightarrow> ModelNode" where
  "measurand a n cs = ModelNode a DataAttributeModelType n IEC61850_FC_MX IEC61850_FLOAT32 cs"

definition data_object :: "nat \<Rightarrow> string \<Rightarrow> ModelNode list \<Rightarrow> ModelNode" where
  "data_object a n cs = ModelNode a DataObjectModelType n IEC61850_FC_NONE IEC61850_UNKNOWN_TYPE cs"

definition logical_node :: "nat \<Rightarrow> string \<Rightarrow> ModelNode list \<Rightarrow> ModelNode" where
  "logical_node a n cs = ModelNode a LogicalNodeModelType n IEC61850_FC_NONE IEC61850_UNKNOWN_TYPE cs"

text \<open>Logical node \<open>M\<close> is not selected by the filter; it has a nested measurand.\<close>

definition demo_device :: ModelNode where
  "demo_device = ModelNode 1 LogicalDeviceModelType ''E'' IEC61850_FC_NONE IEC61850_UNKNOWN_TYPE
     [logical_node 10 ''A'' [data_object 11 ''X'' [attr 12 ''s'', attr 13 ''q'', measurand 14 ''m'' []]],
      logical_node 20 ''B'' [data_object 21 ''Y'' [attr 22 ''s'', attr 23 ''q''], data_object 24 ''Z'' [attr 25 ''s'']],
      logical_node 30 ''M'' [data_object 31 ''A'' [data_object 32 ''phsA'' [measurand 33 ''mag'' [measurand 34 ''f'' []]]]]]"

definition child_named :: "ModelNode \<Rightarrow> string \<Rightarrow> ModelNode option" where
  "child_named n s = find (\<lambda>c. mn_name c = s) (mn_children n)"

definition demo_lib :: model_lib where
  "demo_lib = \<lparr>lb_getObjectReference = (\<lambda>n. if mn_type n = LogicalNodeModelType then Some (''E/'' @ mn_name n) else None),
     lb_getDevice = (\<lambda>m s. find (\<lambda>ld. mn_name ld = s) (im_firstChild m)), lb_getLogicalNode = child_named, lb_getChild = child_named,
     lb_lookupDataSet = (\<lambda>m s. if s = ''E/A$ds'' then Some [\<lparr>fe_logicalDeviceName = Some ''E'', fe_variableName = Some ''A$ST$X''\<rparr>,
        \<lparr>fe_logicalDeviceName = Some ''E'', fe_variableName = Some ''B$ST$Z$s''\<rparr>] else None),
     lb_hasFCData = (\<lambda>n fc. False),
     lb_fcFromString = (\<lambda>s. if s = ''ST'' then IEC61850_FC_ST else if s = ''MX'' then IEC61850_FC_MX else IEC61850_FC_NONE),
     lb_fcToString = (\<lambda>fc. if fc = IEC61850_FC_ST then ''ST'' else if fc = IEC61850_FC_MX then ''MX'' else ''--'')\<rparr>"

definition demo_model :: IedModelHandle where
  "demo_model = \<lparr>ih_model = \<lparr>im_firstChild = [demo_device], im_rcbs = [], im_gseCBs = []\<rparr>,
     ih_accessMode = IED_MODEL_ACCESS_REPORT_ONLY,
     ih_daSemantics = [\<lparr>sm_da = 12, sm_semantic = IED_MODEL_DA_SEMANTIC_DBPOS\<rparr>],
     ih_dynDataSetMax = 4, ih_dynDataSetMaxAttributes = 2, ih_confDataSetMax = 4, ih_confDataSetMaxAttributes = 2,
     ih_lnCategories = [\<lparr>lc_ln = 10, lc_category = IED_MODEL_LN_CATEGORY_CONTROL, lc_alwaysInclude = False\<rparr>,
       \<lparr>lc_ln = 20, lc_category = IED_MODEL_LN_CATEGORY_OTHER, lc_alwaysInclude = True\<rparr>,
       \<lparr>lc_ln = 30, lc_category = IED_MODEL_LN_CATEGORY_MEASUREMENT, lc_alwaysInclude = False\<rparr>],
     ih_daDescriptions = [\<lparr>dd_da = 34, dd_desc = Some ''current''\<rparr>], ih_categoryFilter = 1\<rparr>"

lemmas demo_model_defs = demo_model_def demo_device_def demo_lib_def child_named_def attr_def measurand_def data_object_def logical_node_def

lemma demo_whole_device:
  "IedModelUseCases_getReportableAttributeReferencesForWholeDevice demo_lib (Some demo_model)
     = [''E/A$ST$X$s'', ''E/A$ST$X$q'', ''E/A$MX$X$m'', ''E/B$ST$Y$s'', ''E/B$ST$Y$q'', ''E/B$ST$Z$s'']"
  by code_simp

lemma demo_names: "model_names demo_lib (ih_model demo_model) mn_name"
  by (simp add: model_names_def demo_model_defs plain_name_def entered_def)

lemma whole_device_exact_witness:
  "distinct (IedModelUseCases_getReportableAttributeReferencesForWholeDevice demo_lib (Some demo_model))
   \<and> reference_passes demo_lib demo_model ''E/B$ST$Z$s''"
  using whole_device_exact [OF demo_names] by (simp add: demo_whole_device)

text \<open>The description captured for the nested measurand is not found by its own reference.\<close>

lemma nested_leaf_not_described_witness:
  "IedModelUseCases_getDescriptionForMemberReference demo_lib demo_model (Some ''E/M$MX$A$phsA$mag$f'') = None
   \<and> IedModelUseCases_getLeafDescriptionsForMemberReference demo_lib demo_model (Some ''E/M$MX$A'') = [Some ''current'']"
proof -
  have "IedModelUseCases_getDescriptionForMemberReference demo_lib demo_model (Some ''E/M$MX$A$phsA'') = None" by code_simp
  moreover have "IedModelUseCases_getLeafDescriptionsForMemberReference demo_lib demo_model (Some ''E/M$MX$A'') = [Some ''current'']" by code_simp
  ultimately show ?thesis
    using nested_leaf_not_described [of "''E''" "''M''" "''MX''" "''A''" "''phsA''" "[''mag'', ''f'']" demo_lib demo_model]
    by (simp add: plain_name_def)
qed

definition ok_allocs :: resolve_allocs where
  "ok_allocs = \<lparr>ra_array = True, ra_rawSemantics = True, ra_rawCategories = True, ra_rawAlwaysInclude = True, ra_rawDescriptions = True,
     ra_leafDescArray = True, ra_leafDescCounts = True, ra_leafRefsArray = True, ra_leafCounts = True, ra_leafOffsets = True,
     ra_leafWireTypesArray = True, ra_leafSemArray = True, ra_leafSemCounts = True, ra_lastForwardedValues = True,
     ra_leafSemantics = True, ra_leafCategories = True, ra_leafAlwaysInclude = True, ra_leafDescriptions = True,
     ra_memberLeaves = (\<lambda>m. True), ra_memberWireTypes = (\<lambda>m. True), ra_memberSemantics = (\<lambda>m. True), ra_memberDescriptions = (\<lambda>m. True)\<rparr>"


definition demo_model_env :: "(unit, unit) ds_env" where
  "demo_model_env = demo_env\<lparr>de_wholeDeviceLeaves :=
     Some (map Some (IedModelUseCases_getReportableAttributeReferencesForWholeDevice demo_lib (Some demo_model)))\<rparr>"

definition model_cycle :: "MmsDatasetResolution list \<times> unit ds_state" where
  "model_cycle = run_state (connectCycle demo_model_env demo_blocks) demo_start"

lemma model_cycle_facts:
  "(case model_cycle of (rs, s) \<Rightarrow> dr_tier (rs ! 1) = MMS_DATASET_TIER_SELF_CREATED
      \<and> dr_memberReferences (rs ! 1) = Some [Some ''E/A$ST$X$q'', Some ''E/A$MX$X$m'']
      \<and> dr_memberReferences (rs ! 2) = Some [Some ''E/B$ST$Y$s'', Some ''E/B$ST$Y$q''])"
  by code_simp


end
