(* ===== verification/Ied_Model_Utils.thy ===== *)
theory Ied_Model_Utils
  imports Ied_Model_Datasets
begin

text \<open>
  \<open>ied_model/utils/ied_model_utils.c\<close>: reading SCL attributes, and the reference of a data set
  member from the parts of an FCDA element. An XML element is the function from attribute names
  to values that \<open>mxmlElementGetAttr\<close> is; NULL for an element is \<open>None\<close>.
\<close>

section \<open>Attributes\<close>

type_synonym mxml_attrs = "string \<Rightarrow> string option"

definition IedModelUtils_attrOrDefault :: "mxml_attrs \<Rightarrow> string \<Rightarrow> string \<Rightarrow> string" where
  "IedModelUtils_attrOrDefault node attrName defaultValue = (case node attrName of Some v \<Rightarrow> v | None \<Rightarrow> defaultValue)"

definition IedModelUtils_attrBool :: "mxml_attrs \<Rightarrow> string \<Rightarrow> bool \<Rightarrow> bool" where
  "IedModelUtils_attrBool node attrName defaultValue =
     (case node attrName of None \<Rightarrow> defaultValue | Some v \<Rightarrow> v = ''true'' \<or> v = ''1'')"

text \<open>\<open>atoi\<close>: blanks, a sign, digits up to the first other character; out of range it is undefined.\<close>

definition is_blank :: "char \<Rightarrow> bool" where
  "is_blank c \<longleftrightarrow> c = CHR '' '' \<or> (9 :: nat) \<le> of_char c \<and> of_char c \<le> (13 :: nat)"

definition digits_value :: "string \<Rightarrow> int" where
  "digits_value s = foldl (\<lambda>n c. n * 10 + (of_char c - 48)) 0 (takeWhile isdigit s)"

definition atoi :: "string \<Rightarrow> int" where
  "atoi s = (case dropWhile is_blank s of
       [] \<Rightarrow> 0
     | c # t \<Rightarrow> if c = CHR ''-'' then - digits_value t else if c = CHR ''+'' then digits_value t else digits_value (c # t))"

definition IedModelUtils_attrInt :: "mxml_attrs \<Rightarrow> string \<Rightarrow> int \<Rightarrow> int" where
  "IedModelUtils_attrInt node attrName defaultValue = (case node attrName of None \<Rightarrow> defaultValue | Some v \<Rightarrow> atoi v)"

definition kBTypes :: "(string \<times> DataAttributeType) list" where
  "kBTypes =
     [(''BOOLEAN'', IEC61850_BOOLEAN), (''INT8'', IEC61850_INT8), (''INT16'', IEC61850_INT16), (''INT24'', IEC61850_INT32),
      (''INT32'', IEC61850_INT32), (''INT64'', IEC61850_INT64), (''INT128'', IEC61850_INT128), (''INT8U'', IEC61850_INT8U),
      (''INT16U'', IEC61850_INT16U), (''INT24U'', IEC61850_INT24U), (''INT32U'', IEC61850_INT32U), (''FLOAT32'', IEC61850_FLOAT32),
      (''FLOAT64'', IEC61850_FLOAT64), (''Enum'', IEC61850_ENUMERATED), (''Dbpos'', IEC61850_CODEDENUM), (''Tcmd'', IEC61850_CODEDENUM),
      (''Quality'', IEC61850_QUALITY), (''Timestamp'', IEC61850_TIMESTAMP), (''VisString32'', IEC61850_VISIBLE_STRING_32),
      (''VisString64'', IEC61850_VISIBLE_STRING_64), (''VisString65'', IEC61850_VISIBLE_STRING_65),
      (''VisString129'', IEC61850_VISIBLE_STRING_129), (''VisString255'', IEC61850_VISIBLE_STRING_255),
      (''Unicode255'', IEC61850_UNICODE_STRING_255), (''Struct'', IEC61850_CONSTRUCTED), (''EntryTime'', IEC61850_ENTRY_TIME),
      (''PhyComAddr'', IEC61850_PHYCOMADDR), (''TrgOps'', IEC61850_TRGOPS), (''OptFlds'', IEC61850_OPTFLDS), (''Check'', IEC61850_CHECK),
      (''ObjRef'', IEC61850_VISIBLE_STRING_129), (''Currency'', IEC61850_CURRENCY), (''Octet64'', IEC61850_OCTET_STRING_64),
      (''Octet6'', IEC61850_OCTET_STRING_6), (''Octet8'', IEC61850_OCTET_STRING_8)]"

definition IedModelUtils_mapBType :: "string \<Rightarrow> DataAttributeType" where
  "IedModelUtils_mapBType bType = (case map_of kBTypes bType of Some t \<Rightarrow> t | None \<Rightarrow> IEC61850_UNKNOWN_TYPE)"

text \<open>The bits named by the attributes that are set.\<close>

definition set_bits_of :: "mxml_attrs \<Rightarrow> (string \<times> u8) list \<Rightarrow> u8" where
  "set_bits_of node table = foldl (\<lambda>acc (name, bit). if IedModelUtils_attrBool node name False then or acc bit else acc) 0 table"

definition IedModelUtils_buildTrgOps :: "mxml_attrs option \<Rightarrow> u8" where
  "IedModelUtils_buildTrgOps trgOpsNode =
     (case trgOpsNode of
        None \<Rightarrow> 0
      | Some node \<Rightarrow> set_bits_of node [(''dchg'', 1), (''qchg'', 2), (''dupd'', 4), (''period'', 8), (''gi'', 16)])"

definition IedModelUtils_buildOptFlds :: "mxml_attrs option \<Rightarrow> u8" where
  "IedModelUtils_buildOptFlds optFieldsNode =
     (case optFieldsNode of
        None \<Rightarrow> 0
      | Some node \<Rightarrow> set_bits_of node [(''seqNum'', 1), (''timeStamp'', 2), (''reasonCode'', 4), (''dataSet'', 8),
          (''dataRef'', 16), (''bufOvfl'', 32), (''entryID'', 64), (''configRef'', 128)])"

section \<open>Names\<close>

text \<open>\<open>ok\<close>: the result was allocated.\<close>

definition IedModelUtils_buildLnName :: "bool \<Rightarrow> string \<Rightarrow> string \<Rightarrow> string \<Rightarrow> string option" where
  "IedModelUtils_buildLnName ok prefix lnClass inst = (if ok then Some (prefix @ lnClass @ inst) else None)"

definition appendWithDotsAsSeparators :: "string \<Rightarrow> string" where
  "appendWithDotsAsSeparators src = map (\<lambda>c. if c = CHR ''.'' then CHR ''$'' else c) src"

definition IedModelUtils_buildFcdaVariableName ::
    "bool \<Rightarrow> bool \<Rightarrow> string \<Rightarrow> string \<Rightarrow> string option \<Rightarrow> string option \<Rightarrow> string \<Rightarrow> string \<Rightarrow> string option \<Rightarrow> string option" where
  "IedModelUtils_buildFcdaVariableName okName okVariable ldName lnClass lnInst prefix fc doName daName =
     (case IedModelUtils_buildLnName okName (case prefix of None \<Rightarrow> [] | Some p \<Rightarrow> p) lnClass (case lnInst of None \<Rightarrow> [] | Some i \<Rightarrow> i) of
        None \<Rightarrow> None
      | Some lnName \<Rightarrow>
          if \<not> okVariable then None
          else Some (appendWithDotsAsSeparators ldName @ ''/'' @ appendWithDotsAsSeparators lnName @ ''$'' @ appendWithDotsAsSeparators fc
            @ ''$'' @ appendWithDotsAsSeparators doName
            @ (case daName of None \<Rightarrow> [] | Some da \<Rightarrow> ''$'' @ appendWithDotsAsSeparators da)))"

section \<open>The reference of an FCDA element\<close>

text \<open>A dotted path of names, and the same names in a reference.\<close>

lemma dots_plain: "CHR ''.'' \<notin> set s \<Longrightarrow> appendWithDotsAsSeparators s = s"
  unfolding appendWithDotsAsSeparators_def by (rule map_idI) auto

lemma dots_path: "\<forall>n \<in> set (n # ns). CHR ''.'' \<notin> set n \<Longrightarrow> appendWithDotsAsSeparators (join (CHR ''.'') (n # ns)) = n @ dollar ns"
proof (induction ns arbitrary: n)
  case (Cons m ms)
  then have "appendWithDotsAsSeparators (join (CHR ''.'') (m # ms)) = m @ dollar ms" by simp
  with Cons.prems dots_plain [of n] show ?case by (simp add: appendWithDotsAsSeparators_def)
qed (simp add: dots_plain)

definition scl_name :: "string \<Rightarrow> bool" where
  "scl_name n \<longleftrightarrow> plain_name n \<and> CHR ''.'' \<notin> set n"

lemma dollar_append: "dollar (p @ q) = dollar p @ dollar q"
  by (simp add: dollar_def)

lemma fcda_reference:
  assumes "CHR ''.'' \<notin> set ld" and "lnName = (case prefix of None \<Rightarrow> [] | Some p \<Rightarrow> p) @ lnClass @ (case lnInst of None \<Rightarrow> [] | Some i \<Rightarrow> i)"
    and "\<forall>n \<in> set (lnName # fc # d # ds). scl_name n" and "\<forall>n \<in> set as. scl_name n"
  shows "IedModelUtils_buildFcdaVariableName True True ld lnClass lnInst prefix fc (join (CHR ''.'') (d # ds))
      (if as = [] then None else Some (join (CHR ''.'') as)) = Some (ld @ ''/'' @ lnName @ dollar (fc # d # ds @ as))"
proof -
  have s: "CHR ''.'' \<notin> set n" if "n \<in> set (lnName # fc # d # ds @ as)" for n using that assms(3,4) by (auto simp: scl_name_def)
  have "appendWithDotsAsSeparators (join (CHR ''.'') (d # ds)) = d @ dollar ds" using s by (intro dots_path) auto
  moreover have "appendWithDotsAsSeparators (join (CHR ''.'') as) = a @ dollar as'" if "as = a # as'" for a as'
    unfolding that using s that by (intro dots_path) auto
  ultimately show ?thesis
    using dots_plain [OF assms(1)] dots_plain [of lnName] dots_plain [of fc] s
    by (cases "as = []"; cases as)
      (simp_all add: IedModelUtils_buildFcdaVariableName_def IedModelUtils_buildLnName_def assms(2) [symmetric] dollar_append)
qed

text \<open>The reference built for an FCDA element names what the element names: parsed back, it gives the device,
  the node, the constraint and the dotted paths segment by segment. Only an element with a
  single data object and no attribute is decomposed into leaves; one that names a sub data
  object never is.\<close>

theorem fcda_reference_parsed:
  assumes "CHR ''.'' \<notin> set ld" and "CHR ''/'' \<notin> set ld"
    and "lnName = (case prefix of None \<Rightarrow> [] | Some p \<Rightarrow> p) @ lnClass @ (case lnInst of None \<Rightarrow> [] | Some i \<Rightarrow> i)"
    and "\<forall>n \<in> set (lnName # fc # d # ds). scl_name n" and "\<forall>n \<in> set as. scl_name n"
    and "IedModelUtils_buildFcdaVariableName True True ld lnClass lnInst prefix fc (join (CHR ''.'') (d # ds))
      (if as = [] then None else Some (join (CHR ''.'') as)) = Some ref"
  shows "reference_tokens ref = Some (ld, lnName # fc # d # ds @ as)
    \<and> (ds @ as \<noteq> [] \<longrightarrow> IedModelUseCases_getLeafReferencesForMemberReference L h (Some ref) = [])"
proof -
  from fcda_reference [OF assms(1,3-5)] assms(6) have "ref = ld @ ''/'' @ lnName @ dollar (fc # d # ds @ as)" by simp
  with tokens_reference [OF assms(2), of lnName "fc # d # ds @ as"] assms(4,5)
  have t: "reference_tokens ref = Some (ld, lnName # fc # d # ds @ as)" by (auto simp: scl_name_def)
  moreover have "resolveDoLevelMemberReference L (ih_model h) (Some ref) = None" if "ds @ as \<noteq> []"
    using that by (cases "ds @ as") (simp_all add: resolveDoLevelMemberReference_def t)
  ultimately show ?thesis by (simp add: IedModelUseCases_getLeafReferencesForMemberReference_def)
qed

lemma fcda_reference_parsed_witness:
  "reference_tokens ''IEDLD1/MMXU1$MX$SeqA$c3'' = Some (''IEDLD1'', [''MMXU1'', ''MX'', ''SeqA'', ''c3''])"
  using fcda_reference_parsed [of "''IEDLD1''" "''MMXU1''" None "''MMXU''" "Some ''1''" "''MX''" "''SeqA''" "[''c3'']" "[]"
      "''IEDLD1/MMXU1$MX$SeqA$c3''" demo_lib demo_model]
  by (simp add: scl_name_def plain_name_def IedModelUtils_buildFcdaVariableName_def IedModelUtils_buildLnName_def appendWithDotsAsSeparators_def)

end
