(* ===== verification/Spec2Isabelle.thy ===== *)
theory Spec2Isabelle
  imports Control_Dispatcher Ipc_Adapter Goose_Session
    Mms_Report_Session Ied_Model_Utils Scan_Orchestration
begin

text \<open>
  Verification of the StationSignal daemon.
\<close>

end
